(* ===== verification/Prelude.thy ===== *)
theory Prelude
  imports Complex_Main "HOL-Library.Word" "HOL-Library.List_Lexorder" "HOL-Library.Multiset"
begin

text \<open>
  What every component shares: JavaScript strings as lists of UTF-16 code units, parsed JSON
  values, and the lemma collections of the development.
\<close>

named_theorems js_eval "unfoldings that evaluate string and date helpers on literals"
named_theorems sdk_counters "how each operation of the client changes its counters"
named_theorems store_frame "what an operation of the store leaves alone"

section \<open>JavaScript strings\<close>

text \<open>
  A JavaScript string is a sequence of 16-bit code units and \<^verbatim>\<open><\<close> on strings is the
  lexicographic order of those code units, which is the order that List\_Lexorder puts on lists.
\<close>

type_synonym jchar = "16 word"
type_synonym jstr = "jchar list"

definition js :: "string \<Rightarrow> jstr" where
  "js s = map (\<lambda>c. word_of_nat (of_char c)) s"

lemma js_Nil: "js [] = []"
  by (simp add: js_def)

lemma js_Cons: "js (c # s) = word_of_nat (of_char c) # js s"
  by (simp add: js_def)

text \<open>Literals are different exactly when their texts are, so equality of literals is decided on
  the texts; \<open>js_unfold\<close> is for the places that need the code units.\<close>

lemma js_inject [simp]: "js s = js t \<longleftrightarrow> s = t"
proof -
  have "inj (\<lambda>c. word_of_nat (of_char c) :: jchar)"
  proof (rule injI)
    fix c d :: char
    assume eq: "(word_of_nat (of_char c) :: jchar) = word_of_nat (of_char d)"
    have "unat (word_of_nat (of_char x) :: jchar) = of_char x" for x :: char
    proof -
      have "(of_char x :: nat) < 65536" using nat_of_char_less_256 [of x] by linarith
      thus ?thesis by (simp add: unat_of_nat)
    qed
    with eq have "(of_char c :: nat) = of_char d" by metis
    thus "c = d" by simp
  qed
  thus ?thesis by (simp add: js_def inj_map_eq_map)
qed

lemma js_eq_Nil [simp]: "js s = [] \<longleftrightarrow> s = []" "[] = js s \<longleftrightarrow> s = []"
  by (simp_all add: js_def)

lemma length_js [simp]: "length (js s) = length s"
  by (simp add: js_def)

lemmas js_unfold = js_Nil js_Cons

text \<open>How literals are evaluated: the code unit of a character is its number, with no reduction modulo \<open>2 ^ 16\<close>.\<close>

definition char_word :: "char \<Rightarrow> jchar" where
  "char_word c = word_of_nat (of_char c)"

lemma the_int_char_word [code abstract]: "Word.the_int (char_word c) = of_char c"
proof -
  have "(of_char c :: nat) < 65536" using nat_of_char_less_256 [of c] by linarith
  hence "uint (char_word c) = int (of_char c)" by (simp add: char_word_def uint_nat unat_of_nat)
  thus ?thesis by (simp add: of_nat_of_char)
qed

lemma js_code [code]: "js [] = []" "js (c # s) = char_word c # js s"
  by (simp_all add: js_def char_word_def)

section \<open>JSON values\<close>

text \<open>
  What \<^verbatim>\<open>JSON.parse\<close> yields: numbers are exact rationals (every finite double is one), an
  object is the list of its own entries in enumeration order.
\<close>

datatype json =
    JNull
  | JBool bool
  | JNum rat
  | JStr jstr
  | JArr "json list"
  | JObj "(jstr \<times> json) list"

text \<open>Property read \<^verbatim>\<open>o[k]\<close> on an object; \<^const>\<open>None\<close> is \<^verbatim>\<open>undefined\<close>.\<close>

definition jget :: "json \<Rightarrow> jstr \<Rightarrow> json option" where
  "jget v k = (case v of JObj kvs \<Rightarrow> map_of kvs k | _ \<Rightarrow> None)"

lemma jget_simps [simp]:
  "jget (JObj kvs) k = map_of kvs k" "jget JNull k = None" "jget (JBool b) k = None"
  "jget (JNum n) k = None" "jget (JStr s) k = None" "jget (JArr xs) k = None"
  by (simp_all add: jget_def)

section \<open>Partial values\<close>

declare option.pred_inject [code]

text \<open>\<^verbatim>\<open>a ?? b\<close>.\<close>

definition coalesce :: "'a option \<Rightarrow> 'a \<Rightarrow> 'a" where
  "coalesce a b = (case a of Some x \<Rightarrow> x | None \<Rightarrow> b)"

lemma coalesce_simps [simp]: "coalesce (Some x) b = x" "coalesce None b = b"
  by (simp_all add: coalesce_def)

text \<open>\<^verbatim>\<open>Math.max\<close> where the left operand may be \<^verbatim>\<open>-Infinity\<close> (\<^const>\<open>None\<close>).\<close>

definition max_neginf :: "int option \<Rightarrow> int \<Rightarrow> int" where
  "max_neginf a b = (case a of None \<Rightarrow> b | Some x \<Rightarrow> max x b)"

lemma max_neginf_simps [simp]: "max_neginf None b = b" "max_neginf (Some x) b = max x b"
  by (simp_all add: max_neginf_def)

section \<open>Integer division\<close>

lemma int_div_bounds:
  fixes x k :: int
  assumes "0 < k"
  shows "k * (x div k) \<le> x" "x < k * (x div k) + k"
proof -
  have "k * (x div k) + x mod k = x" by simp
  moreover have "0 \<le> x mod k" "x mod k < k" using assms by simp_all
  ultimately show "k * (x div k) \<le> x" "x < k * (x div k) + k" by linarith+
qed

lemma int_div_unique:
  fixes x k q :: int
  assumes "k * q \<le> x" "x < k * q + k"
  shows "x div k = q"
  using assms by (intro int_div_pos_eq [of _ _ _ "x - k * q"]) auto

end
