(* ===== verification/Js_Date.thy ===== *)
theory Js_Date
  imports Prelude
begin

text \<open>
  The part of the ECMAScript \<^verbatim>\<open>Date\<close> the program relies on: \<^verbatim>\<open>Date.parse\<close> of the ISO 8601
  profile (four-digit or signed six-digit years, optional seconds and fraction, \<^verbatim>\<open>Z\<close> or a
  numeric offset), \<^verbatim>\<open>toISOString\<close> and \<^verbatim>\<open>getUTCFullYear\<close>, on the proleptic Gregorian
  calendar.  An unparsable string is \<^const>\<open>None\<close> (the program sees \<^verbatim>\<open>NaN\<close>); the
  implementation-defined fallback formats are not part of the model, since the wire schema only
  admits the ISO profile.  The main fact is that parsing what \<^verbatim>\<open>toISOString\<close> prints gives the
  same instant back.
\<close>

declare js_unfold [simp]

section \<open>Calendar\<close>

definition days_before_year :: "int \<Rightarrow> int" where
  "days_before_year y = 365 * y + (y + 3) div 4 - (y + 99) div 100 + (y + 399) div 400"

definition leap_year :: "int \<Rightarrow> bool" where
  "leap_year y \<longleftrightarrow> y mod 4 = 0 \<and> (y mod 100 \<noteq> 0 \<or> y mod 400 = 0)"

definition days_before_month :: "bool \<Rightarrow> int \<Rightarrow> int" where
  "days_before_month leap m =
     (let l = (if leap then 1 else 0) in
      if m \<le> 1 then 0 else if m = 2 then 31 else if m = 3 then 59 + l
      else if m = 4 then 90 + l else if m = 5 then 120 + l else if m = 6 then 151 + l
      else if m = 7 then 181 + l else if m = 8 then 212 + l else if m = 9 then 243 + l
      else if m = 10 then 273 + l else if m = 11 then 304 + l else if m = 12 then 334 + l
      else 365 + l)"

definition epoch_days :: int where
  "epoch_days = 719528"

definition make_day :: "int \<Rightarrow> int \<Rightarrow> int \<Rightarrow> int" where
  "make_day y m d = days_before_year y + days_before_month (leap_year y) m + d - 1 - epoch_days"

text \<open>The year that contains a day counted from year 0, from a linear estimate that is off by at
  most one.\<close>

definition year_of_day :: "int \<Rightarrow> int" where
  "year_of_day n = (let y = (400 * n + 396) div 146097 in
     if n < days_before_year y then y - 1 else y)"

definition month_of_doy :: "bool \<Rightarrow> int \<Rightarrow> int" where
  "month_of_doy leap n =
     (let b = days_before_month leap in
      if n < b 2 then 1 else if n < b 3 then 2 else if n < b 4 then 3 else if n < b 5 then 4
      else if n < b 6 then 5 else if n < b 7 then 6 else if n < b 8 then 7 else if n < b 9 then 8
      else if n < b 10 then 9 else if n < b 11 then 10 else if n < b 12 then 11 else 12)"

definition ms_per_day :: int where
  "ms_per_day = 86400000"

definition getUTCFullYear :: "int \<Rightarrow> int" where
  "getUTCFullYear t = year_of_day (t div ms_per_day + epoch_days)"

lemma days_before_year_bounds:
  "146097 * y - 396 \<le> 400 * days_before_year y" "400 * days_before_year y \<le> 146097 * y + 699"
  using int_div_bounds [of 4 "y + 3"] int_div_bounds [of 100 "y + 99"]
    int_div_bounds [of 400 "y + 399"]
  by (simp_all add: days_before_year_def)

lemma ceil_div:
  fixes y k :: int
  assumes k: "1 < k" and j: "j = k - 1"
  shows "(y + j) div k = y div k + (if y mod k = 0 then 0 else 1)"
proof -
  obtain q r where qr: "q = y div k" "r = y mod k" "k * q + r = y" by simp
  have "0 \<le> r" "r < k" using k qr by simp_all
  with qr k show ?thesis unfolding qr(1,2) [symmetric] j
    by (intro int_div_unique) (auto simp: algebra_simps)
qed

lemma days_in_year:
  "days_before_year (y + 1) = days_before_year y + (if leap_year y then 366 else 365)"
proof -
  have up: "(y + 1 + 3) div 4 = y div 4 + 1" "(y + 1 + 99) div 100 = y div 100 + 1"
    "(y + 1 + 399) div 400 = y div 400 + 1" by simp_all
  have at: "(y + 3) div 4 = y div 4 + (if y mod 4 = 0 then 0 else 1)"
    "(y + 99) div 100 = y div 100 + (if y mod 100 = 0 then 0 else 1)"
    "(y + 399) div 400 = y div 400 + (if y mod 400 = 0 then 0 else 1)"
    by (rule ceil_div; simp)+
  have dvd: "(4 :: int) dvd 100" "(100 :: int) dvd 400" by simp_all
  have m4: "y mod 4 = 0" if "y mod 100 = 0"
    using that dvd by (metis mod_0_imp_dvd dvd_trans dvd_imp_mod_0)
  have m100: "y mod 100 = 0" if "y mod 400 = 0"
    using that dvd by (metis mod_0_imp_dvd dvd_trans dvd_imp_mod_0)
  define b4 b100 b400 where b: "b4 = (y mod 4 = 0)" "b100 = (y mod 100 = 0)" "b400 = (y mod 400 = 0)"
  have imp: "b100 \<longrightarrow> b4" "b400 \<longrightarrow> b100" using m4 m100 by (simp_all add: b)
  show ?thesis
    unfolding days_before_year_def leap_year_def up at b [symmetric] using imp
    by (cases b4; cases b100; cases b400; simp)
qed

lemma year_of_day_correct:
  "days_before_year (year_of_day n) \<le> n" "n < days_before_year (year_of_day n + 1)"
proof -
  define y where "y = (400 * n + 396) div 146097"
  have lo: "146097 * y \<le> 400 * n + 396" and hi: "400 * n + 396 < 146097 * (y + 1)"
    using int_div_bounds [of 146097 "400 * n + 396"] unfolding y_def by simp_all
  show "days_before_year (year_of_day n) \<le> n"
    using lo days_before_year_bounds(2) [of "y - 1"]
    by (simp add: year_of_day_def y_def [symmetric] Let_def)
  show "n < days_before_year (year_of_day n + 1)"
    using hi days_before_year_bounds(1) [of "y + 1"]
    by (simp add: year_of_day_def y_def [symmetric] Let_def)
qed

lemma year_of_day_unique:
  assumes "days_before_year y \<le> n" "n < days_before_year (y + 1)"
  shows "year_of_day n = y"
proof -
  have mono: "days_before_year a \<le> days_before_year b" if "a \<le> b" for a b
    using that by (induction rule: int_ge_induct) (auto simp: days_in_year)
  let ?z = "year_of_day n"
  have "\<not> ?z < y" using mono [of "?z + 1" y] year_of_day_correct(2) [of n] assms(1) by force
  moreover have "\<not> y < ?z" using mono [of "y + 1" ?z] year_of_day_correct(1) [of n] assms(2) by force
  ultimately show ?thesis by linarith
qed

lemma days_before_month_simps:
  "days_before_month b 1 = 0" "days_before_month b 2 = 31"
  "days_before_month b 3 = (if b then 60 else 59)" "days_before_month b 4 = (if b then 91 else 90)"
  "days_before_month b 5 = (if b then 121 else 120)" "days_before_month b 6 = (if b then 152 else 151)"
  "days_before_month b 7 = (if b then 182 else 181)" "days_before_month b 8 = (if b then 213 else 212)"
  "days_before_month b 9 = (if b then 244 else 243)" "days_before_month b 10 = (if b then 274 else 273)"
  "days_before_month b 11 = (if b then 305 else 304)" "days_before_month b 12 = (if b then 335 else 334)"
  "days_before_month b 13 = (if b then 366 else 365)"
  by (simp_all add: days_before_month_def)

lemma month_of_doy_correct:
  assumes "0 \<le> n" "n < (if leap then 366 else 365)"
  shows "1 \<le> month_of_doy leap n" "month_of_doy leap n \<le> 12"
    "days_before_month leap (month_of_doy leap n) \<le> n"
    "n < days_before_month leap (month_of_doy leap n + 1)"
proof -
  show "1 \<le> month_of_doy leap n" "month_of_doy leap n \<le> 12"
    by (simp_all add: month_of_doy_def Let_def)
  show "days_before_month leap (month_of_doy leap n) \<le> n"
    "n < days_before_month leap (month_of_doy leap n + 1)"
    using assms
    by (cases leap; simp add: month_of_doy_def Let_def days_before_month_simps split: if_split)+
qed

section \<open>Printing\<close>

definition digit_char :: "int \<Rightarrow> jchar" where
  "digit_char d = word_of_int (48 + d)"

fun pad_digits :: "nat \<Rightarrow> int \<Rightarrow> jstr" where
  "pad_digits 0 k = []"
| "pad_digits (Suc n) k = digit_char (k div 10 ^ n mod 10) # pad_digits n k"

definition print_year :: "int \<Rightarrow> jstr" where
  "print_year y =
     (if 0 \<le> y \<and> y \<le> 9999 then pad_digits 4 y
      else if 0 \<le> y then js ''+'' @ pad_digits 6 y
      else js ''-'' @ pad_digits 6 (- y))"

text \<open>\<^verbatim>\<open>toISOString\<close> on a time value; a value outside the time range raises in the program.\<close>

definition max_time :: int where
  "max_time = 8640000000000000"

definition toISOString :: "int \<Rightarrow> jstr" where
  "toISOString t =
     (let day = t div ms_per_day + epoch_days;
          ms = t mod ms_per_day;
          y = year_of_day day;
          doy = day - days_before_year y;
          m = month_of_doy (leap_year y) doy;
          d = doy - days_before_month (leap_year y) m + 1
      in print_year y @ js ''-'' @ pad_digits 2 m @ js ''-'' @ pad_digits 2 d @ js ''T'' @
         pad_digits 2 (ms div 3600000) @ js '':'' @ pad_digits 2 (ms div 60000 mod 60) @ js '':'' @
         pad_digits 2 (ms div 1000 mod 60) @ js ''.'' @ pad_digits 3 (ms mod 1000) @ js ''Z'')"

section \<open>Parsing\<close>

definition digit_of :: "jchar \<Rightarrow> int option" where
  "digit_of c = (if 48 \<le> c \<and> c \<le> 57 then Some (uint c - 48) else None)"

text \<open>Exactly \<open>n\<close> digits.\<close>

fun read_digits :: "nat \<Rightarrow> int \<Rightarrow> jstr \<Rightarrow> (int \<times> jstr) option" where
  "read_digits 0 acc s = Some (acc, s)"
| "read_digits (Suc n) acc [] = None"
| "read_digits (Suc n) acc (c # s) =
     (case digit_of c of None \<Rightarrow> None | Some d \<Rightarrow> read_digits n (10 * acc + d) s)"

definition read_char :: "string \<Rightarrow> jstr \<Rightarrow> jstr option" where
  "read_char lit s = (if take (length lit) s = js lit then Some (drop (length lit) s) else None)"

text \<open>The fraction of a second: any number of digits, of which the first three count.\<close>

fun read_fraction :: "int \<Rightarrow> jstr \<Rightarrow> int \<times> jstr" where
  "read_fraction scale [] = (0, [])"
| "read_fraction scale (c # s) =
     (case digit_of c of None \<Rightarrow> (0, c # s)
      | Some d \<Rightarrow> (let (ms, rest) = read_fraction (scale div 10) s in (scale * d + ms, rest)))"

definition read_year :: "jstr \<Rightarrow> (int \<times> jstr) option" where
  "read_year s =
     (case read_char ''+'' s of
        Some s' \<Rightarrow> read_digits 6 0 s'
      | None \<Rightarrow>
        (case read_char ''-'' s of
           Some s' \<Rightarrow>
             (case read_digits 6 0 s' of
                None \<Rightarrow> None
              | Some (y, r) \<Rightarrow> if y = 0 then None else Some (- y, r))
         | None \<Rightarrow> read_digits 4 0 s))"

text \<open>Seconds and fraction, both optional; milliseconds.\<close>

definition read_seconds :: "jstr \<Rightarrow> (int \<times> jstr) option" where
  "read_seconds s =
     (case read_char '':'' s of
        None \<Rightarrow> Some (0, s)
      | Some s1 \<Rightarrow>
        (case read_digits 2 0 s1 of
           None \<Rightarrow> None
         | Some (sec, s2) \<Rightarrow>
           if 59 < sec then None
           else (case read_char ''.'' s2 of
              None \<Rightarrow> Some (1000 * sec, s2)
            | Some s3 \<Rightarrow>
              (let (ms, s4) = read_fraction 100 s3 in
               if s4 = s3 then None else Some (1000 * sec + ms, s4)))))"

text \<open>The offset in minutes.\<close>

definition read_offset :: "jstr \<Rightarrow> int option" where
  "read_offset s =
     (if s = js ''Z'' then Some 0
      else case s of
        [] \<Rightarrow> None
      | c # s1 \<Rightarrow>
        (let sign = (if [c] = js ''+'' then 1 else if [c] = js ''-'' then -1 else (0 :: int)) in
         if sign = 0 then None
         else case read_digits 2 0 s1 of
           None \<Rightarrow> None
         | Some (h, s2) \<Rightarrow>
           (case read_char '':'' s2 of
              None \<Rightarrow> None
            | Some s3 \<Rightarrow>
              (case read_digits 2 0 s3 of
                 None \<Rightarrow> None
               | Some (mi, s4) \<Rightarrow>
                 if s4 = [] \<and> h \<le> 23 \<and> mi \<le> 59 then Some (sign * (60 * h + mi)) else None))))"

definition valid_ymd :: "int \<Rightarrow> int \<Rightarrow> int \<Rightarrow> bool" where
  "valid_ymd y m d \<longleftrightarrow> 1 \<le> m \<and> m \<le> 12 \<and> 1 \<le> d \<and>
     d \<le> days_before_month (leap_year y) (m + 1) - days_before_month (leap_year y) m"

definition read_date :: "jstr \<Rightarrow> (int \<times> jstr) option" where
  "read_date s =
     (case read_year s of
        None \<Rightarrow> None
      | Some (y, s1) \<Rightarrow>
        (case read_char ''-'' s1 of
           None \<Rightarrow> None
         | Some s2 \<Rightarrow>
           (case read_digits 2 0 s2 of
              None \<Rightarrow> None
            | Some (m, s3) \<Rightarrow>
              (case read_char ''-'' s3 of
                 None \<Rightarrow> None
               | Some s4 \<Rightarrow>
                 (case read_digits 2 0 s4 of
                    None \<Rightarrow> None
                  | Some (d, s5) \<Rightarrow>
                    if valid_ymd y m d then Some (make_day y m d, s5) else None)))))"

definition read_time :: "jstr \<Rightarrow> (int \<times> jstr) option" where
  "read_time s =
     (case read_digits 2 0 s of
        None \<Rightarrow> None
      | Some (h, s1) \<Rightarrow>
        (case read_char '':'' s1 of
           None \<Rightarrow> None
         | Some s2 \<Rightarrow>
           (case read_digits 2 0 s2 of
              None \<Rightarrow> None
            | Some (mi, s3) \<Rightarrow>
              (case read_seconds s3 of
                 None \<Rightarrow> None
               | Some (ms, s4) \<Rightarrow>
                 if mi \<le> 59 \<and> (h \<le> 23 \<or> h = 24 \<and> mi = 0 \<and> ms = 0)
                 then Some (3600000 * h + 60000 * mi + ms, s4) else None))))"

definition date_parse :: "jstr \<Rightarrow> int option" where
  "date_parse s =
     (case read_date s of
        None \<Rightarrow> None
      | Some (day, s1) \<Rightarrow>
        (case read_char ''T'' s1 of
           None \<Rightarrow> None
         | Some s2 \<Rightarrow>
           (case read_time s2 of
              None \<Rightarrow> None
            | Some (ms, s3) \<Rightarrow>
              (case read_offset s3 of
                 None \<Rightarrow> None
               | Some off \<Rightarrow>
                 (let t = ms_per_day * day + ms - 60000 * off in
                  if \<bar>t\<bar> \<le> max_time then Some t else None)))))"

section \<open>Printing and parsing are inverse\<close>

lemma digit_of_digit_char [simp]:
  assumes "0 \<le> d" "d < 10"
  shows "digit_of (digit_char d) = Some d"
proof -
  have "uint (digit_char d) = 48 + d"
    using assms unfolding digit_char_def unsigned_of_int
    by (subst take_bit_int_eq_self) auto
  thus ?thesis using assms by (simp add: digit_of_def word_le_def)
qed

lemma read_digits_pad:
  "read_digits n acc (pad_digits n k @ s) = Some (acc * 10 ^ n + k mod 10 ^ n, s)"
proof (induction n arbitrary: acc)
  case (Suc n)
  have "k mod (10 ^ n * 10) = 10 ^ n * (k div 10 ^ n mod 10) + k mod 10 ^ n"
    by (simp add: zmod_zmult2_eq)
  thus ?case by (simp add: Suc.IH algebra_simps)
qed simp

lemma read_char_js [simp]: "read_char lit (js lit @ s) = Some s"
  by (simp add: read_char_def js_def)

lemma read_char_pad [simp]:
  assumes "lit = ''+'' \<or> lit = ''-''"
  shows "read_char lit (pad_digits (Suc n) k @ s) = None"
proof -
  define c where "c = digit_char (k div 10 ^ n mod 10)"
  have "digit_of c \<noteq> None"
    by (simp add: c_def)
  moreover have "digit_of (word_of_nat (of_char CHR ''+'')) = None"
    "digit_of (word_of_nat (of_char CHR ''-'')) = None"
    by (simp_all add: digit_of_def)
  ultimately show ?thesis
    using assms by (auto simp: read_char_def c_def [symmetric])
qed

lemma read_year_print:
  assumes "\<bar>y\<bar> \<le> 999999"
  shows "read_year (print_year y @ s) = Some (y, s)"
proof -
  have four: "read_char lit (pad_digits 4 y @ s) = None" if "lit = ''+'' \<or> lit = ''-''" for lit
    using read_char_pad [OF that, of 3 y s] by (simp add: numeral_eq_Suc del: pad_digits.simps)
  have sign: "read_char ''+'' (js ''-'' @ r) = None" for r
    by (simp add: read_char_def)
  consider "0 \<le> y" "y \<le> 9999" | "9999 < y" | "y < 0" by linarith
  thus ?thesis
  proof cases
    case 1
    thus ?thesis using four read_digits_pad [of 4 0 y s] by (simp add: read_year_def print_year_def)
  next
    case 2
    thus ?thesis using assms read_digits_pad [of 6 0 y s]
      by (simp add: read_year_def print_year_def read_char_js del: js_unfold)
  next
    case 3
    thus ?thesis using assms read_digits_pad [of 6 0 "- y" s]
      by (simp add: read_year_def print_year_def read_char_js sign del: js_unfold)
  qed
qed

lemma read_pad2: "0 \<le> k \<Longrightarrow> k < 100 \<Longrightarrow> read_digits 2 0 (pad_digits 2 k @ s) = Some (k, s)"
  using read_digits_pad [of 2 0 k s] by simp

lemma read_date_print:
  assumes "\<bar>y\<bar> \<le> 999999" "valid_ymd y m d"
  shows "read_date (print_year y @ js ''-'' @ pad_digits 2 m @ js ''-'' @ pad_digits 2 d @ s) =
    Some (make_day y m d, s)"
proof -
  have "d \<le> 31" using assms(2)
    by (auto simp: valid_ymd_def days_before_month_def Let_def split: if_splits)
  moreover have "1 \<le> m" "m \<le> 12" "1 \<le> d" using assms(2) by (simp_all add: valid_ymd_def)
  ultimately show ?thesis using assms
    by (simp add: read_date_def read_year_print read_pad2 read_char_js del: js_unfold)
qed

lemma pad_digits3:
  "pad_digits 3 k = [digit_char (k div 100 mod 10), digit_char (k div 10 mod 10), digit_char (k mod 10)]"
  by (simp add: numeral_eq_Suc)

lemma read_fraction_pad3:
  assumes "0 \<le> k" "k < 1000"
  shows "read_fraction 100 (pad_digits 3 k @ js ''Z'') = (k, js ''Z'')"
proof -
  obtain q u where q: "q = k div 10" "u = k mod 10" "10 * q + u = k" by simp
  obtain c v where c: "c = q div 10" "v = q mod 10" "10 * c + v = q" by simp
  have k100: "k div 100 = c" by (simp add: q(1) c(1) zdiv_zmult2_eq [symmetric])
  have c10: "c mod 10 = c" using k100 assms by simp
  have bounds: "0 \<le> u" "u < 10" "0 \<le> v" "v < 10" "0 \<le> c" "c < 10"
    using pos_mod_bound [of 10 k] pos_mod_sign [of 10 k] pos_mod_bound [of 10 q] pos_mod_sign [of 10 q]
      pos_mod_bound [of 10 c] pos_mod_sign [of 10 c]
    unfolding q(2) [symmetric] c(2) [symmetric] c10 by (simp_all only: zero_less_numeral)
  have z: "digit_of 90 = None" by (simp add: digit_of_def)
  have "100 * c + (10 * v + u) = k" using q(3) c(3) by simp
  thus ?thesis unfolding pad_digits3 q(1,2) [symmetric] k100 c10 c(2) [symmetric]
    using bounds by (simp add: z)
qed

lemma read_seconds_print:
  assumes "0 \<le> sec" "sec \<le> 59" "0 \<le> ms" "ms < 1000"
  shows "read_seconds (js '':'' @ pad_digits 2 sec @ js ''.'' @ pad_digits 3 ms @ js ''Z'') =
    Some (1000 * sec + ms, js ''Z'')"
proof -
  have "js ''Z'' \<noteq> pad_digits 3 ms @ js ''Z''" by (simp add: numeral_eq_Suc)
  thus ?thesis using assms read_fraction_pad3 [of ms]
    by (simp add: read_seconds_def read_char_js read_pad2 del: js_unfold)
qed

lemma read_time_print:
  assumes "0 \<le> h" "h \<le> 23" "0 \<le> mi" "mi \<le> 59" "0 \<le> sec" "sec \<le> 59" "0 \<le> ms" "ms < 1000"
  shows "read_time (pad_digits 2 h @ js '':'' @ pad_digits 2 mi @ js '':'' @ pad_digits 2 sec @
      js ''.'' @ pad_digits 3 ms @ js ''Z'') =
    Some (3600000 * h + 60000 * mi + (1000 * sec + ms), js ''Z'')"
  using assms read_seconds_print [of sec ms]
  by (simp add: read_time_def read_char_js read_pad2 del: js_unfold)

lemma time_of_day_split:
  fixes ms :: int
  assumes "0 \<le> ms" "ms < 86400000"
  shows "3600000 * (ms div 3600000) + 60000 * (ms div 60000 mod 60) +
    (1000 * (ms div 1000 mod 60) + ms mod 1000) = ms"
    "0 \<le> ms div 3600000" "ms div 3600000 \<le> 23"
proof -
  obtain a r where a: "a = ms div 1000" "r = ms mod 1000" "1000 * a + r = ms" by simp
  obtain b rb where b: "b = a div 60" "rb = a mod 60" "60 * b + rb = a" by simp
  obtain c rc where c: "c = b div 60" "rc = b mod 60" "60 * c + rc = b" by simp
  have "ms div 60000 = b" "ms div 3600000 = c"
    by (simp_all add: a b c zdiv_zmult2_eq [symmetric])
  moreover have "3600000 * c + 60000 * rc + (1000 * rb + r) = ms" using a(3) b(3) c(3) by simp
  ultimately show "3600000 * (ms div 3600000) + 60000 * (ms div 60000 mod 60) +
    (1000 * (ms div 1000 mod 60) + ms mod 1000) = ms" by (simp add: a(1,2) b(1,2) c(1,2))
  show "0 \<le> ms div 3600000" using assms by simp
  show "ms div 3600000 \<le> 23" using assms int_div_bounds [of 3600000 ms] by simp
qed

lemma year_in_time_range:
  assumes "\<bar>t\<bar> \<le> max_time"
  shows "\<bar>getUTCFullYear t\<bar> \<le> 999999"
proof -
  define n where n: "n = t div ms_per_day + epoch_days"
  have "- 100000000 \<le> t div ms_per_day" "t div ms_per_day \<le> 100000000"
    using assms int_div_bounds [of ms_per_day t] by (simp_all add: max_time_def ms_per_day_def)
  hence "- 99280472 \<le> n" "n \<le> 100719528" by (simp_all add: n epoch_days_def)
  moreover have "146097 * year_of_day n - 396 \<le> 400 * n"
    using days_before_year_bounds(1) [of "year_of_day n"] year_of_day_correct(1) [of n] by linarith
  moreover have "400 * n < 146097 * (year_of_day n + 1) + 699"
    using days_before_year_bounds(2) [of "year_of_day n + 1"] year_of_day_correct(2) [of n]
    by linarith
  ultimately show ?thesis unfolding getUTCFullYear_def n [symmetric] by (auto simp: abs_le_iff)
qed

theorem date_parse_toISOString:
  assumes "\<bar>t\<bar> \<le> max_time"
  shows "date_parse (toISOString t) = Some t"
proof -
  define day ms where dm: "day = t div ms_per_day + epoch_days" "ms = t mod ms_per_day"
  define y where y: "y = year_of_day day"
  define doy where doy: "doy = day - days_before_year y"
  define m where m: "m = month_of_doy (leap_year y) doy"
  define d where d: "d = doy - days_before_month (leap_year y) m + 1"
  have yr: "\<bar>y\<bar> \<le> 999999"
    using year_in_time_range [OF assms] by (simp add: y dm getUTCFullYear_def)
  have "0 \<le> doy" "doy < (if leap_year y then 366 else 365)"
    using year_of_day_correct [of day] by (auto simp: doy y days_in_year)
  note mc = month_of_doy_correct [OF this, folded m]
  have valid: "valid_ymd y m d" using mc by (simp add: valid_ymd_def d)
  have md: "make_day y m d = t div ms_per_day"
    by (simp add: make_day_def d doy dm)
  have ms: "0 \<le> ms" "ms < 86400000" by (simp_all add: dm ms_per_day_def)
  have tt: "ms_per_day * (t div ms_per_day) + ms = t" by (simp add: dm)
  have off: "read_offset (js ''Z'') = Some 0" by (simp add: read_offset_def)
  have pm: "0 \<le> ms div 60000 mod 60" "ms div 60000 mod 60 \<le> 59" "0 \<le> ms div 1000 mod 60"
    "ms div 1000 mod 60 \<le> 59" "0 \<le> ms mod 1000" "ms mod 1000 < 1000"
    using pos_mod_bound [of 60 "ms div 60000"] pos_mod_bound [of 60 "ms div 1000"] by simp_all
  note tm = read_time_print [OF time_of_day_split(2,3) [OF ms] pm, unfolded time_of_day_split(1) [OF ms]]
  show ?thesis
    unfolding toISOString_def Let_def dm [symmetric] y [symmetric] doy [symmetric] m [symmetric]
      d [symmetric]
    unfolding date_parse_def read_date_print [OF yr valid] md
    using tm assms by (simp add: read_char_js off tt Let_def del: js_unfold)
qed

lemma date_parse_range: "date_parse s = Some t \<Longrightarrow> \<bar>t\<bar> \<le> max_time"
  by (auto simp: date_parse_def Let_def split: option.splits if_splits prod.splits)

declare js_unfold [simp del]

end
