(* ===== verification/Wire_Contract.thy ===== *)
theory Wire_Contract
  imports Js_Date
begin

text \<open>
  \<^verbatim>\<open>platform/shared/schema\<close>: the ingestion wire contract.  The schemas are data, built from the
  combinators of the schema library the repository uses; the library itself (its \<^verbatim>\<open>safeParse\<close>)
  is not part of the repository and is the argument \<open>safeParse\<close> of the functions that call it.
  What they rely on is collected in \<open>zod_laws\<close>, the documented meaning of the combinators.
\<close>

section \<open>Schemas as data\<close>

text \<open>One constructor per combinator in use.  \<open>ZString lo hi\<close> is
  \<^verbatim>\<open>z.string().min(lo).max(hi)\<close>; \<open>ZInt hi\<close> is \<^verbatim>\<open>z.number().int().nonnegative()\<close> with an
  optional \<^verbatim>\<open>max\<close>; \<open>ZRefine\<close> is \<^verbatim>\<open>superRefine\<close> with the predicate that adds no issue.\<close>

datatype zod =
    ZString nat "nat option"
  | ZIsoDatetimeOffset
  | ZEnum "jstr list"
  | ZBoolean
  | ZInt "nat option"
  | ZUnknown
  | ZRecordUnknown
  | ZArray zod nat "nat option"
  | ZObject "(jstr \<times> zod) list"
  | ZNullable zod
  | ZNullish zod
  | ZOptional zod
  | ZRefine zod "json \<Rightarrow> bool"

text \<open>An issue is the path at which the input failed.  \<^const>\<open>None\<close> as an input is
  \<^verbatim>\<open>undefined\<close>.\<close>

type_synonym zod_issue = "jstr list"
type_synonym zod_parser = "zod \<Rightarrow> json option \<Rightarrow> zod_issue list + json"

definition MAX_ID_LENGTH :: nat where "MAX_ID_LENGTH = 128"
definition MAX_NAME_LENGTH :: nat where "MAX_NAME_LENGTH = 200"

definition IdSchema :: zod where "IdSchema = ZString 1 (Some MAX_ID_LENGTH)"
definition NameSchema :: zod where "NameSchema = ZString 1 (Some MAX_NAME_LENGTH)"
definition TimestampSchema :: zod where "TimestampSchema = ZIsoDatetimeOffset"
definition MetadataSchema :: zod where "MetadataSchema = ZRecordUnknown"

definition TERMINAL_STATUSES :: "jstr list" where
  "TERMINAL_STATUSES = [js ''COMPLETED'', js ''FAILED'']"

definition TerminalStatusSchema :: zod where
  "TerminalStatusSchema = ZEnum TERMINAL_STATUSES"

section \<open>Versions and event types\<close>

datatype TelemetryEventType =
    RunStarted | RunCompleted | StepStarted | StepCompleted
  | DecisionRecorded | DecisionOutcomeAttested | ModelCallRecorded | ToolCallRecorded | ErrorRecorded

definition event_type_name :: "TelemetryEventType \<Rightarrow> jstr" where
  "event_type_name t = (case t of
     RunStarted \<Rightarrow> js ''run.started'' | RunCompleted \<Rightarrow> js ''run.completed''
   | StepStarted \<Rightarrow> js ''step.started'' | StepCompleted \<Rightarrow> js ''step.completed''
   | DecisionRecorded \<Rightarrow> js ''decision.recorded''
   | DecisionOutcomeAttested \<Rightarrow> js ''decision.outcome_attested''
   | ModelCallRecorded \<Rightarrow> js ''model_call.recorded'' | ToolCallRecorded \<Rightarrow> js ''tool_call.recorded''
   | ErrorRecorded \<Rightarrow> js ''error.recorded'')"

definition TELEMETRY_EVENT_TYPES :: "TelemetryEventType list" where
  "TELEMETRY_EVENT_TYPES = [RunStarted, RunCompleted, StepStarted, StepCompleted, DecisionRecorded,
     DecisionOutcomeAttested, ModelCallRecorded, ToolCallRecorded, ErrorRecorded]"

definition event_type_of :: "jstr \<Rightarrow> TelemetryEventType option" where
  "event_type_of s = List.find (\<lambda>t. event_type_name t = s) TELEMETRY_EVENT_TYPES"

definition TelemetryEventTypeSchema :: zod where
  "TelemetryEventTypeSchema = ZEnum (map event_type_name TELEMETRY_EVENT_TYPES)"

definition TELEMETRY_SCHEMA_VERSIONS :: "jstr list" where
  "TELEMETRY_SCHEMA_VERSIONS = [js ''1'', js ''2'']"

definition TelemetrySchemaVersionSchema :: zod where
  "TelemetrySchemaVersionSchema = ZEnum TELEMETRY_SCHEMA_VERSIONS"

definition TELEMETRY_SCHEMA_VERSION :: jstr where
  "TELEMETRY_SCHEMA_VERSION = js ''2''"

text \<open>A key that is not in the table reads as \<^verbatim>\<open>undefined\<close>, and a comparison with
  \<^verbatim>\<open>undefined\<close> is false.\<close>

definition VERSION_ORDER :: "jstr \<Rightarrow> nat option" where
  "VERSION_ORDER v = (if v = js ''1'' then Some 1 else if v = js ''2'' then Some 2 else None)"

definition schemaVersionAtLeast :: "jstr \<Rightarrow> jstr \<Rightarrow> bool" where
  "schemaVersionAtLeast actual minimum =
     (case (VERSION_ORDER actual, VERSION_ORDER minimum) of (Some a, Some m) \<Rightarrow> m \<le> a | _ \<Rightarrow> False)"

definition TELEMETRY_EVENT_TYPE_MIN_SCHEMA_VERSION :: "TelemetryEventType \<Rightarrow> jstr" where
  "TELEMETRY_EVENT_TYPE_MIN_SCHEMA_VERSION t =
     (case t of RunStarted \<Rightarrow> js ''1'' | RunCompleted \<Rightarrow> js ''1'' | StepStarted \<Rightarrow> js ''1''
      | StepCompleted \<Rightarrow> js ''1'' | DecisionRecorded \<Rightarrow> js ''2'' | DecisionOutcomeAttested \<Rightarrow> js ''2''
      | ModelCallRecorded \<Rightarrow> js ''2'' | ToolCallRecorded \<Rightarrow> js ''2'' | ErrorRecorded \<Rightarrow> js ''2'')"

text \<open>The type is still a string here: one that is not in the table has no minimum version.\<close>

definition eventTypeAvailableAt :: "jstr \<Rightarrow> jstr \<Rightarrow> bool" where
  "eventTypeAvailableAt type version =
     (case event_type_of type of None \<Rightarrow> False
      | Some t \<Rightarrow> schemaVersionAtLeast version (TELEMETRY_EVENT_TYPE_MIN_SCHEMA_VERSION t))"

section \<open>The envelope and the payloads\<close>

definition TelemetryEventEnvelopeSchema :: zod where
  "TelemetryEventEnvelopeSchema = ZObject
     [(js ''eventId'', IdSchema), (js ''schemaVersion'', TelemetrySchemaVersionSchema),
      (js ''type'', TelemetryEventTypeSchema), (js ''entityId'', IdSchema), (js ''runId'', IdSchema),
      (js ''occurredAt'', TimestampSchema), (js ''payload'', ZUnknown)]"

definition RunStartedPayloadSchema :: zod where
  "RunStartedPayloadSchema = ZObject
     [(js ''workflowName'', NameSchema), (js ''workflowVersion'', NameSchema),
      (js ''metadata'', ZNullish MetadataSchema)]"

definition RunCompletedPayloadSchema :: zod where
  "RunCompletedPayloadSchema = ZObject
     [(js ''status'', TerminalStatusSchema), (js ''metadata'', ZNullish MetadataSchema)]"

definition StepStartedPayloadSchema :: zod where
  "StepStartedPayloadSchema = ZObject
     [(js ''name'', NameSchema), (js ''agentName'', NameSchema), (js ''type'', NameSchema),
      (js ''parentStepId'', ZNullable IdSchema), (js ''metadata'', ZNullish MetadataSchema)]"

definition StepCompletedPayloadSchema :: zod where
  "StepCompletedPayloadSchema = ZObject
     [(js ''status'', TerminalStatusSchema), (js ''metadata'', ZNullish MetadataSchema)]"

definition DECISION_OUTCOMES :: "jstr list" where
  "DECISION_OUTCOMES = [js ''SUCCESS'', js ''FAILURE'', js ''UNKNOWN'']"

definition DecisionRecordedPayloadSchema :: zod where
  "DecisionRecordedPayloadSchema = ZObject
     [(js ''stepId'', IdSchema), (js ''decisionType'', NameSchema),
      (js ''contextKey'', ZNullish NameSchema), (js ''contextKeyVersion'', ZNullish NameSchema),
      (js ''rawContext'', ZNullish MetadataSchema),
      (js ''availableOptions'', ZArray NameSchema 1 None), (js ''selectedOption'', NameSchema)]"

definition DecisionOutcomeAttestedPayloadSchema :: zod where
  "DecisionOutcomeAttestedPayloadSchema = ZObject
     [(js ''outcome'', ZEnum DECISION_OUTCOMES), (js ''observedAt'', ZNullish TimestampSchema)]"

definition ModelCallRecordedPayloadSchema :: zod where
  "ModelCallRecordedPayloadSchema = ZObject
     [(js ''stepId'', IdSchema), (js ''provider'', NameSchema), (js ''model'', NameSchema),
      (js ''latencyMs'', ZInt None), (js ''inputTokens'', ZNullish (ZInt None)),
      (js ''outputTokens'', ZNullish (ZInt None)), (js ''status'', NameSchema),
      (js ''metadata'', ZNullish MetadataSchema)]"

definition ToolCallRecordedPayloadObjectSchema :: zod where
  "ToolCallRecordedPayloadObjectSchema = ZObject
     [(js ''stepId'', IdSchema), (js ''toolName'', NameSchema),
      (js ''input'', ZNullish ZUnknown), (js ''output'', ZNullish ZUnknown),
      (js ''inputTruncated'', ZBoolean), (js ''outputTruncated'', ZBoolean),
      (js ''inputBytes'', ZNullish (ZInt None)), (js ''outputBytes'', ZNullish (ZInt None)),
      (js ''startedAt'', TimestampSchema), (js ''completedAt'', TimestampSchema),
      (js ''durationMs'', ZInt None), (js ''success'', ZBoolean), (js ''error'', ZNullish (ZString 0 None))]"

text \<open>\<^verbatim>\<open>x == null\<close>: absent or null.\<close>

definition nullish :: "json option \<Rightarrow> bool" where
  "nullish v \<longleftrightarrow> v = None \<or> v = Some JNull"

definition truncation_measured :: "json \<Rightarrow> bool" where
  "truncation_measured payload \<longleftrightarrow>
     \<not> (jget payload (js ''inputTruncated'') = Some (JBool True) \<and> nullish (jget payload (js ''inputBytes''))) \<and>
     \<not> (jget payload (js ''outputTruncated'') = Some (JBool True) \<and> nullish (jget payload (js ''outputBytes'')))"

definition ToolCallRecordedPayloadSchema :: zod where
  "ToolCallRecordedPayloadSchema = ZRefine ToolCallRecordedPayloadObjectSchema truncation_measured"

definition ErrorRecordedPayloadSchema :: zod where
  "ErrorRecordedPayloadSchema = ZObject
     [(js ''stepId'', IdSchema), (js ''type'', NameSchema), (js ''message'', ZString 0 None),
      (js ''metadata'', ZNullish MetadataSchema)]"

definition TELEMETRY_PAYLOAD_SCHEMAS :: "TelemetryEventType \<Rightarrow> zod" where
  "TELEMETRY_PAYLOAD_SCHEMAS t = (case t of
     RunStarted \<Rightarrow> RunStartedPayloadSchema | RunCompleted \<Rightarrow> RunCompletedPayloadSchema
   | StepStarted \<Rightarrow> StepStartedPayloadSchema | StepCompleted \<Rightarrow> StepCompletedPayloadSchema
   | DecisionRecorded \<Rightarrow> DecisionRecordedPayloadSchema
   | DecisionOutcomeAttested \<Rightarrow> DecisionOutcomeAttestedPayloadSchema
   | ModelCallRecorded \<Rightarrow> ModelCallRecordedPayloadSchema
   | ToolCallRecorded \<Rightarrow> ToolCallRecordedPayloadSchema | ErrorRecorded \<Rightarrow> ErrorRecordedPayloadSchema)"

section \<open>Codes, limits and the request\<close>

datatype IngestErrorCode =
    UNSUPPORTED_SCHEMA_VERSION | UNKNOWN_EVENT_TYPE | MISSING_REQUIRED_FIELD | INVALID_PAYLOAD
  | EVENT_TOO_LARGE | EVENT_TYPE_NOT_INGESTIBLE

definition maxEventsPerBatch :: nat where "maxEventsPerBatch = 500"
definition maxRequestBodyBytes :: nat where "maxRequestBodyBytes = 5 * 1024 * 1024"
definition maxEventPayloadBytes :: nat where "maxEventPayloadBytes = 64 * 1024"
definition MAX_DROPPED_SINCE_LAST_BATCH :: nat where "MAX_DROPPED_SINCE_LAST_BATCH = 2147483647"

definition IngestRequestSchema :: zod where
  "IngestRequestSchema = ZObject
     [(js ''events'', ZArray ZUnknown 1 (Some maxEventsPerBatch)),
      (js ''droppedSinceLastBatch'', ZOptional (ZInt (Some MAX_DROPPED_SINCE_LAST_BATCH))),
      (js ''deliveryId'', ZOptional IdSchema)]"

text \<open>The messages of a rejection, with what they quote.\<close>

datatype RejectMessage =
    MsgNotAnObject
  | MsgSchemaVersion "json option"
  | MsgEventType "json option"
  | MsgRequiredField jstr
  | MsgPayload
  | MsgNeedsLaterVersion jstr jstr
  | MsgTooLarge
  | MsgTooDeep
  | MsgUnsafeUnicode
  | MsgOccurredAt
  | MsgPayloadTimestamp jstr
  | MsgPayloadInt4 jstr
  | MsgNotIngestible jstr
  | MsgNotValidated

section \<open>Parsing an event\<close>

record TelemetryEvent =
  te_eventId :: jstr
  te_schemaVersion :: jstr
  te_type :: TelemetryEventType
  te_entityId :: jstr
  te_runId :: jstr
  te_occurredAt :: jstr
  te_payload :: json

datatype TelemetryEventParseResult =
    ParseOk TelemetryEvent
  | ParseReject jstr IngestErrorCode RejectMessage

definition isPlainObject :: "json \<Rightarrow> bool" where
  "isPlainObject v = (case v of JObj _ \<Rightarrow> True | _ \<Rightarrow> False)"

text \<open>A string field of a value whose schema makes it a string.\<close>

definition str_field :: "json \<Rightarrow> jstr \<Rightarrow> jstr" where
  "str_field v k = (case jget v k of Some (JStr s) \<Rightarrow> s | _ \<Rightarrow> [])"

definition readEventId :: "zod_parser \<Rightarrow> json \<Rightarrow> jstr" where
  "readEventId safeParse input =
     (case safeParse IdSchema (jget input (js ''eventId'')) of Inr (JStr s) \<Rightarrow> s | _ \<Rightarrow> [])"

definition REQUIRED_FIELD_KEYS :: "jstr list" where
  "REQUIRED_FIELD_KEYS = [js ''eventId'', js ''entityId'', js ''runId'', js ''occurredAt'']"

definition path_head :: "zod_issue \<Rightarrow> jstr option" where
  "path_head p = (case p of [] \<Rightarrow> None | k # _ \<Rightarrow> Some k)"

definition classifyEnvelopeFailure :: "json \<Rightarrow> zod_issue list \<Rightarrow> IngestErrorCode \<times> RejectMessage" where
  "classifyEnvelopeFailure input issues =
     (if \<exists>p \<in> set issues. path_head p = Some (js ''schemaVersion'')
      then (UNSUPPORTED_SCHEMA_VERSION, MsgSchemaVersion (jget input (js ''schemaVersion'')))
      else if \<exists>p \<in> set issues. path_head p = Some (js ''type'')
      then (UNKNOWN_EVENT_TYPE, MsgEventType (jget input (js ''type'')))
      else case List.find (\<lambda>p. \<exists>k \<in> set REQUIRED_FIELD_KEYS. path_head p = Some k) issues of
        Some p \<Rightarrow> (MISSING_REQUIRED_FIELD, MsgRequiredField (the (path_head p)))
      | None \<Rightarrow> (INVALID_PAYLOAD, MsgPayload))"

definition buildEvent :: "zod_parser \<Rightarrow> TelemetryEventType \<Rightarrow> json \<Rightarrow> jstr \<Rightarrow> TelemetryEventParseResult" where
  "buildEvent safeParse type envelope eventId =
     (case safeParse (TELEMETRY_PAYLOAD_SCHEMAS type) (jget envelope (js ''payload'')) of
        Inl _ \<Rightarrow> ParseReject eventId INVALID_PAYLOAD MsgPayload
      | Inr payload \<Rightarrow> ParseOk \<lparr>
          te_eventId = str_field envelope (js ''eventId''),
          te_schemaVersion = str_field envelope (js ''schemaVersion''),
          te_type = type,
          te_entityId = str_field envelope (js ''entityId''),
          te_runId = str_field envelope (js ''runId''),
          te_occurredAt = str_field envelope (js ''occurredAt''),
          te_payload = payload\<rparr>)"

definition parseTelemetryEvent :: "zod_parser \<Rightarrow> json \<Rightarrow> TelemetryEventParseResult" where
  "parseTelemetryEvent safeParse input =
     (if \<not> isPlainObject input then ParseReject [] MISSING_REQUIRED_FIELD MsgNotAnObject
      else
        let eventId = readEventId safeParse input in
        case safeParse TelemetryEventEnvelopeSchema (Some input) of
          Inl issues \<Rightarrow> (let (code, message) = classifyEnvelopeFailure input issues in
            ParseReject eventId code message)
        | Inr envelope \<Rightarrow>
            (let type = str_field envelope (js ''type''); version = str_field envelope (js ''schemaVersion'') in
             if \<not> eventTypeAvailableAt type version
             then ParseReject eventId UNKNOWN_EVENT_TYPE (MsgNeedsLaterVersion type version)
             else buildEvent safeParse (the (event_type_of type)) envelope eventId))"

section \<open>What the schema library promises\<close>

definition parses :: "zod_issue list + json \<Rightarrow> bool" where
  "parses r = (case r of Inr _ \<Rightarrow> True | Inl _ \<Rightarrow> False)"

lemma parses_simps [simp]: "parses (Inr v)" "\<not> parses (Inl i)"
  by (simp_all add: parses_def)

text \<open>A key of an object schema: a present key is parsed, an absent one must be optional.\<close>

definition zod_optional :: "zod \<Rightarrow> bool" where
  "zod_optional s = (case s of ZNullish _ \<Rightarrow> True | ZOptional _ \<Rightarrow> True | _ \<Rightarrow> False)"

definition field_ok :: "zod_parser \<Rightarrow> zod \<Rightarrow> json option \<Rightarrow> bool" where
  "field_ok safeParse s v = (case v of None \<Rightarrow> zod_optional s | Some x \<Rightarrow> parses (safeParse s (Some x)))"

definition zod_scalar_laws :: "zod_parser \<Rightarrow> bool" where
  "zod_scalar_laws safeParse \<longleftrightarrow>
     (\<forall>lo hi v out. safeParse (ZString lo hi) v = Inr out \<longleftrightarrow>
        (\<exists>s. v = Some (JStr s) \<and> out = JStr s \<and> lo \<le> length s \<and> pred_option (\<lambda>h. length s \<le> h) hi)) \<and>
     (\<forall>names v out. safeParse (ZEnum names) v = Inr out \<longleftrightarrow>
        (\<exists>s. v = Some (JStr s) \<and> out = JStr s \<and> s \<in> set names)) \<and>
     (\<forall>v out. safeParse ZIsoDatetimeOffset v = Inr out \<longrightarrow>
        (\<exists>s. v = Some (JStr s) \<and> out = JStr s \<and> date_parse s \<noteq> None)) \<and>
     (\<forall>v out. safeParse ZUnknown (Some v) = Inr out \<longleftrightarrow> out = v) \<and>
     (\<forall>s v out. safeParse (ZNullish s) (Some v) = Inr out \<longrightarrow>
        v = JNull \<and> out = JNull \<or> safeParse s (Some v) = Inr out) \<and>
     (\<forall>s p v out. safeParse (ZRefine s p) v = Inr out \<longrightarrow> safeParse s v = Inr out \<and> p out)"

definition zod_object_laws :: "zod_parser \<Rightarrow> bool" where
  "zod_object_laws safeParse \<longleftrightarrow>
     (\<forall>fs v out. distinct (map fst fs) \<and> safeParse (ZObject fs) v = Inr out \<longrightarrow>
        (\<exists>kvs outs. v = Some (JObj kvs) \<and> out = JObj outs \<and> fst ` set outs \<subseteq> fst ` set fs \<and>
           (\<forall>(k, s) \<in> set fs. field_ok safeParse s (map_of kvs k) \<and>
              (case map_of kvs k of None \<Rightarrow> map_of outs k = None
               | Some x \<Rightarrow> \<exists>y. safeParse s (Some x) = Inr y \<and> map_of outs k = Some y)))) \<and>
     (\<forall>fs kvs issues. safeParse (ZObject fs) (Some (JObj kvs)) = Inl issues \<longrightarrow>
        (\<forall>k. (\<exists>p \<in> set issues. path_head p = Some k) \<longleftrightarrow>
             (\<exists>s. (k, s) \<in> set fs \<and> \<not> field_ok safeParse s (map_of kvs k)))) \<and>
     (\<forall>fs kvs. (\<forall>(k, s) \<in> set fs. field_ok safeParse s (map_of kvs k)) \<longrightarrow>
        parses (safeParse (ZObject fs) (Some (JObj kvs))))"

definition zod_laws :: "zod_parser \<Rightarrow> bool" where
  "zod_laws safeParse \<longleftrightarrow> zod_scalar_laws safeParse \<and> zod_object_laws safeParse"

lemma zod_string:
  "zod_laws sp \<Longrightarrow> sp (ZString lo hi) v = Inr out \<longleftrightarrow>
     (\<exists>s. v = Some (JStr s) \<and> out = JStr s \<and> lo \<le> length s \<and> pred_option (\<lambda>h. length s \<le> h) hi)"
  unfolding zod_laws_def zod_scalar_laws_def by blast

lemma zod_enum:
  "zod_laws sp \<Longrightarrow> sp (ZEnum names) v = Inr out \<longleftrightarrow> (\<exists>s. v = Some (JStr s) \<and> out = JStr s \<and> s \<in> set names)"
  unfolding zod_laws_def zod_scalar_laws_def by blast

lemma zod_datetime:
  "zod_laws sp \<Longrightarrow> sp ZIsoDatetimeOffset v = Inr out \<Longrightarrow>
     (\<exists>s. v = Some (JStr s) \<and> out = JStr s \<and> date_parse s \<noteq> None)"
  unfolding zod_laws_def zod_scalar_laws_def by blast

lemma zod_unknown: "zod_laws sp \<Longrightarrow> sp ZUnknown (Some v) = Inr out \<longleftrightarrow> out = v"
  unfolding zod_laws_def zod_scalar_laws_def by blast

lemma zod_nullish:
  "zod_laws sp \<Longrightarrow> sp (ZNullish s) (Some v) = Inr out \<Longrightarrow> v = JNull \<and> out = JNull \<or> sp s (Some v) = Inr out"
  unfolding zod_laws_def zod_scalar_laws_def by blast

lemma zod_refine: "zod_laws sp \<Longrightarrow> sp (ZRefine s p) v = Inr out \<Longrightarrow> sp s v = Inr out \<and> p out"
  unfolding zod_laws_def zod_scalar_laws_def by blast

lemma zod_object_fails:
  "zod_laws sp \<Longrightarrow> sp (ZObject fs) (Some (JObj kvs)) = Inl issues \<Longrightarrow>
     (\<exists>p \<in> set issues. path_head p = Some k) \<longleftrightarrow>
     (\<exists>s. (k, s) \<in> set fs \<and> \<not> field_ok sp s (map_of kvs k))"
  unfolding zod_laws_def zod_object_laws_def by blast

lemma zod_object_parses:
  "zod_laws sp \<Longrightarrow> (\<forall>(k, s) \<in> set fs. field_ok sp s (map_of kvs k)) \<Longrightarrow>
     \<exists>out. sp (ZObject fs) (Some (JObj kvs)) = Inr out"
  unfolding zod_laws_def zod_object_laws_def parses_def
  by (cases "sp (ZObject fs) (Some (JObj kvs))") (force split: sum.splits)+

lemma zod_object_field:
  assumes "zod_laws sp" "sp (ZObject fs) v = Inr out" "(k, s) \<in> set fs" "\<not> zod_optional s"
    "distinct (map fst fs)"
  shows "\<exists>kvs x y. v = Some (JObj kvs) \<and> map_of kvs k = Some x \<and> sp s (Some x) = Inr y \<and> jget out k = Some y"
proof -
  obtain kvs outs where o: "v = Some (JObj kvs)" "out = JObj outs" and
    f: "\<forall>(k, s) \<in> set fs. field_ok sp s (map_of kvs k) \<and>
              (case map_of kvs k of None \<Rightarrow> map_of outs k = None
               | Some x \<Rightarrow> \<exists>y. sp s (Some x) = Inr y \<and> map_of outs k = Some y)"
    using assms(1,2,5) unfolding zod_laws_def zod_object_laws_def by blast
  from f assms(3,4) show ?thesis
    by (cases "map_of kvs k") (auto simp: o field_ok_def)
qed

text \<open>An optional key of an accepted object is absent, or present and parsed.\<close>

lemma zod_object_optional_field:
  assumes "zod_laws sp" "sp (ZObject fs) v = Inr out" "(k, s) \<in> set fs" "distinct (map fst fs)" "jget out k = Some y"
  shows "\<exists>x. sp s (Some x) = Inr y"
proof -
  obtain kvs outs where o: "v = Some (JObj kvs)" "out = JObj outs" and
    f: "\<forall>(k, s) \<in> set fs. field_ok sp s (map_of kvs k) \<and>
              (case map_of kvs k of None \<Rightarrow> map_of outs k = None
               | Some x \<Rightarrow> \<exists>y. sp s (Some x) = Inr y \<and> map_of outs k = Some y)"
    using assms(1,2,4) unfolding zod_laws_def zod_object_laws_def by blast
  from bspec [OF f assms(3)] assms(5) show ?thesis by (cases "map_of kvs k") (auto simp: o)
qed

lemma zod_object_ok:
  assumes "zod_laws sp" "sp (ZObject fs) (Some (JObj kvs)) = Inr out" "(k, s) \<in> set fs"
    "distinct (map fst fs)"
  shows "field_ok sp s (map_of kvs k)"
  using assms unfolding zod_laws_def zod_object_laws_def by blast

lemma zod_object_keys:
  assumes "zod_laws sp" "sp (ZObject fs) v = Inr out" "distinct (map fst fs)"
  shows "\<exists>outs. out = JObj outs \<and> fst ` set outs \<subseteq> fst ` set fs"
  using assms unfolding zod_laws_def zod_object_laws_def by blast

section \<open>A parser with this meaning\<close>

definition zod_field :: "zod \<Rightarrow> jstr \<Rightarrow> json option \<Rightarrow> (zod_issue list + json) \<Rightarrow> zod_issue list" where
  "zod_field s k v r = (case v of None \<Rightarrow> if zod_optional s then [] else [[k]]
     | Some _ \<Rightarrow> (case r of Inl is \<Rightarrow> map ((#) k) (if is = [] then [[]] else is) | Inr _ \<Rightarrow> []))"

definition int_json :: "nat option \<Rightarrow> json \<Rightarrow> bool" where
  "int_json hi v = (case v of JNum q \<Rightarrow> q \<in> \<int> \<and> 0 \<le> q \<and> pred_option (\<lambda>h. q \<le> of_nat h) hi | _ \<Rightarrow> False)"

fun zod_ref :: "zod \<Rightarrow> json option \<Rightarrow> zod_issue list + json" where
  "zod_ref (ZString lo hi) v = (case v of
     Some (JStr s) \<Rightarrow> if lo \<le> length s \<and> pred_option (\<lambda>h. length s \<le> h) hi then Inr (JStr s) else Inl [[]]
   | _ \<Rightarrow> Inl [[]])"
| "zod_ref ZIsoDatetimeOffset v = (case v of
     Some (JStr s) \<Rightarrow> if date_parse s \<noteq> None then Inr (JStr s) else Inl [[]] | _ \<Rightarrow> Inl [[]])"
| "zod_ref (ZEnum names) v = (case v of
     Some (JStr s) \<Rightarrow> if s \<in> set names then Inr (JStr s) else Inl [[]] | _ \<Rightarrow> Inl [[]])"
| "zod_ref ZBoolean v = (case v of Some (JBool b) \<Rightarrow> Inr (JBool b) | _ \<Rightarrow> Inl [[]])"
| "zod_ref (ZInt hi) v = (case v of Some x \<Rightarrow> if int_json hi x then Inr x else Inl [[]] | None \<Rightarrow> Inl [[]])"
| "zod_ref ZUnknown v = Inr (coalesce v JNull)"
| "zod_ref ZRecordUnknown v = (case v of Some (JObj kvs) \<Rightarrow> Inr (JObj kvs) | _ \<Rightarrow> Inl [[]])"
| "zod_ref (ZArray s lo hi) v = (case v of
     Some (JArr xs) \<Rightarrow>
       if lo \<le> length xs \<and> pred_option (\<lambda>h. length xs \<le> h) hi \<and> (\<forall>x \<in> set xs. parses (zod_ref s (Some x)))
       then Inr (JArr xs) else Inl [[]]
   | _ \<Rightarrow> Inl [[]])"
| "zod_ref (ZObject fs) v = (case v of
     Some (JObj kvs) \<Rightarrow>
       (let is = concat (map (\<lambda>(k, s). zod_field s k (map_of kvs k) (zod_ref s (map_of kvs k))) fs) in
        if is \<noteq> [] then Inl is
        else Inr (JObj (concat (map (\<lambda>(k, s). case map_of kvs k of None \<Rightarrow> []
          | Some x \<Rightarrow> (case zod_ref s (Some x) of Inr y \<Rightarrow> [(k, y)] | Inl _ \<Rightarrow> [])) fs))))
   | _ \<Rightarrow> Inl [[]])"
| "zod_ref (ZNullable s) v = (if v = Some JNull then Inr JNull else zod_ref s v)"
| "zod_ref (ZNullish s) v = (if nullish v then Inr (coalesce v JNull) else zod_ref s v)"
| "zod_ref (ZOptional s) v = (if v = None then Inr JNull else zod_ref s v)"
| "zod_ref (ZRefine s p) v = (case zod_ref s v of Inr out \<Rightarrow> if p out then Inr out else Inl [[]] | Inl is \<Rightarrow> Inl is)"

lemma zod_ref_field_issues:
  "(\<exists>p \<in> set (zod_field s k' v (zod_ref s v)). path_head p = Some k) \<longleftrightarrow> k = k' \<and> \<not> field_ok zod_ref s v"
proof (cases v)
  case None
  thus ?thesis by (auto simp: zod_field_def field_ok_def path_head_def)
next
  case (Some x)
  show ?thesis
  proof (cases "zod_ref s (Some x)")
    case (Inl ps)
    have "\<exists>p. p \<in> set (if ps = [] then [[]] else ps)" by (cases ps) auto
    hence "(\<exists>p \<in> set (if ps = [] then [[]] else ps). path_head (k' # p) = Some k) \<longleftrightarrow> k = k'"
      by (auto simp: path_head_def)
    thus ?thesis by (simp add: Some Inl zod_field_def field_ok_def)
  qed (simp add: Some zod_field_def field_ok_def)
qed

lemma zod_ref_field_empty: "zod_field s k v (zod_ref s v) = [] \<longleftrightarrow> field_ok zod_ref s v"
  by (auto simp: zod_field_def field_ok_def split: option.splits sum.splits)

lemma zod_ref_object_out:
  assumes "distinct (map fst fs)" "\<forall>(k, s) \<in> set fs. field_ok zod_ref s (map_of kvs k)" "(k, s) \<in> set fs"
  shows "map_of (concat (map (\<lambda>(k, s). case map_of kvs k of None \<Rightarrow> []
          | Some x \<Rightarrow> (case zod_ref s (Some x) of Inr y \<Rightarrow> [(k, y)] | Inl _ \<Rightarrow> [])) fs)) k =
    (case map_of kvs k of None \<Rightarrow> None
     | Some x \<Rightarrow> (case zod_ref s (Some x) of Inr y \<Rightarrow> Some y | Inl _ \<Rightarrow> None))"
  using assms
proof (induction fs)
  case (Cons f fs)
  obtain k1 s1 where f: "f = (k1, s1)" by force
  let ?out = "concat (map (\<lambda>(k, s). case map_of kvs k of None \<Rightarrow> []
          | Some x \<Rightarrow> (case zod_ref s (Some x) of Inr y \<Rightarrow> [(k, y)] | Inl _ \<Rightarrow> [])) fs)"
  have none: "map_of ?out q = None" if "q \<notin> fst ` set fs" for q
    using that by (induction fs) (auto split: option.splits sum.splits)
  show ?case
  proof (cases "k = k1")
    case True
    hence "s = s1" using Cons.prems f by (auto simp: rev_image_eqI)
    moreover have "map_of ?out k1 = None" using Cons.prems(1) f by (intro none) auto
    ultimately show ?thesis using True by (auto simp: f split: option.splits sum.splits)
  next
    case False
    thus ?thesis using Cons f by (auto split: option.splits sum.splits)
  qed
qed simp

lemma zod_laws_ref: "zod_laws zod_ref"
proof -
  have "zod_scalar_laws zod_ref"
    unfolding zod_scalar_laws_def
    by (auto simp: nullish_def split: option.splits json.splits if_splits sum.splits)
  moreover have "zod_object_laws zod_ref"
    unfolding zod_object_laws_def
  proof (intro conjI allI impI)
    fix fs v out
    assume a: "distinct (map fst fs) \<and> zod_ref (ZObject fs) v = Inr out"
    then obtain kvs where v: "v = Some (JObj kvs)"
      by (auto split: option.splits json.splits)
    have ok: "\<forall>(k, s) \<in> set fs. field_ok zod_ref s (map_of kvs k)"
      using a by (auto simp: v zod_ref_field_empty split: if_splits)
    let ?outs = "concat (map (\<lambda>(k, s). case map_of kvs k of None \<Rightarrow> []
          | Some x \<Rightarrow> (case zod_ref s (Some x) of Inr y \<Rightarrow> [(k, y)] | Inl _ \<Rightarrow> [])) fs)"
    have out: "out = JObj ?outs" using a by (simp add: v Let_def split: if_splits)
    have keys: "fst ` set ?outs \<subseteq> fst ` set fs"
      by (force split: option.splits sum.splits)
    have lookup: "\<forall>(k, s) \<in> set fs. field_ok zod_ref s (map_of kvs k) \<and>
        (case map_of kvs k of None \<Rightarrow> map_of ?outs k = None
         | Some x \<Rightarrow> \<exists>y. zod_ref s (Some x) = Inr y \<and> map_of ?outs k = Some y)"
    proof (clarify, intro conjI)
      fix k s assume ks: "(k, s) \<in> set fs"
      thus fo: "field_ok zod_ref s (map_of kvs k)" using ok by blast
      note lk = zod_ref_object_out [OF conjunct1 [OF a] ok ks]
      show "case map_of kvs k of None \<Rightarrow> map_of ?outs k = None
         | Some x \<Rightarrow> \<exists>y. zod_ref s (Some x) = Inr y \<and> map_of ?outs k = Some y"
      proof (cases "map_of kvs k")
        case None
        thus ?thesis using lk by simp
      next
        case (Some x)
        then obtain y where "zod_ref s (Some x) = Inr y"
          using fo by (cases "zod_ref s (Some x)") (auto simp: field_ok_def)
        thus ?thesis using lk Some by simp
      qed
    qed
    show "\<exists>kvs outs. v = Some (JObj kvs) \<and> out = JObj outs \<and> fst ` set outs \<subseteq> fst ` set fs \<and>
           (\<forall>(k, s) \<in> set fs. field_ok zod_ref s (map_of kvs k) \<and>
              (case map_of kvs k of None \<Rightarrow> map_of outs k = None
               | Some x \<Rightarrow> \<exists>y. zod_ref s (Some x) = Inr y \<and> map_of outs k = Some y))"
      unfolding v out using keys lookup by (intro exI [of _ kvs] exI [of _ ?outs] conjI) simp_all
  next
    fix fs kvs "issues" k
    assume "zod_ref (ZObject fs) (Some (JObj kvs)) = Inl issues"
    hence "issues = concat (map (\<lambda>(k, s). zod_field s k (map_of kvs k) (zod_ref s (map_of kvs k))) fs)"
      by (auto simp: Let_def split: if_splits)
    hence "(\<exists>p \<in> set issues. path_head p = Some k) \<longleftrightarrow>
        (\<exists>(k', s) \<in> set fs. \<exists>p \<in> set (zod_field s k' (map_of kvs k') (zod_ref s (map_of kvs k'))). path_head p = Some k)"
      by auto
    thus "(\<exists>p \<in> set issues. path_head p = Some k) \<longleftrightarrow>
             (\<exists>s. (k, s) \<in> set fs \<and> \<not> field_ok zod_ref s (map_of kvs k))"
      unfolding zod_ref_field_issues by auto
  next
    fix fs :: "(jstr \<times> zod) list" and kvs
    assume "\<forall>(k, s) \<in> set fs. field_ok zod_ref s (map_of kvs k)"
    thus "parses (zod_ref (ZObject fs) (Some (JObj kvs)))"
      by (auto simp: Let_def zod_ref_field_empty)
  qed
  ultimately show ?thesis by (simp add: zod_laws_def)
qed

section \<open>Correctness of the parser\<close>

definition reject_code :: "TelemetryEventParseResult \<Rightarrow> IngestErrorCode option" where
  "reject_code r = (case r of ParseOk _ \<Rightarrow> None | ParseReject _ c _ \<Rightarrow> Some c)"

lemma reject_code_simps [simp]:
  "reject_code (ParseOk e) = None" "reject_code (ParseReject i c m) = Some c"
  by (simp_all add: reject_code_def)

definition envelope_fields :: "(jstr \<times> zod) list" where
  "envelope_fields = [(js ''eventId'', IdSchema), (js ''schemaVersion'', TelemetrySchemaVersionSchema),
      (js ''type'', TelemetryEventTypeSchema), (js ''entityId'', IdSchema), (js ''runId'', IdSchema),
      (js ''occurredAt'', TimestampSchema), (js ''payload'', ZUnknown)]"

lemma envelope_schema: "TelemetryEventEnvelopeSchema = ZObject envelope_fields"
  by (simp add: TelemetryEventEnvelopeSchema_def envelope_fields_def)

lemma envelope_distinct: "distinct (map fst envelope_fields)"
  by (simp add: envelope_fields_def)

lemma event_type_of_name [simp]: "event_type_of (event_type_name t) = Some t"
  by (cases t) (simp_all add: event_type_of_def TELEMETRY_EVENT_TYPES_def event_type_name_def)

lemma event_type_of_SomeD: "event_type_of s = Some t \<Longrightarrow> s = event_type_name t"
  by (auto simp: event_type_of_def find_Some_iff)

lemma schemas_not_optional [simp]:
  "\<not> zod_optional IdSchema" "\<not> zod_optional TelemetrySchemaVersionSchema"
  "\<not> zod_optional TelemetryEventTypeSchema" "\<not> zod_optional TimestampSchema" "\<not> zod_optional ZUnknown"
  "\<not> zod_optional (ZString lo hi)" "\<not> zod_optional (ZEnum ns)"
  by (simp_all add: zod_optional_def IdSchema_def TelemetrySchemaVersionSchema_def
      TelemetryEventTypeSchema_def TimestampSchema_def)

text \<open>What an accepted envelope says, field by field.\<close>

lemma envelope_field:
  assumes laws: "zod_laws sp" and env: "sp TelemetryEventEnvelopeSchema (Some (JObj kvs)) = Inr env"
    and f: "(k, s) \<in> set envelope_fields"
  shows "\<exists>x y. map_of kvs k = Some x \<and> sp s (Some x) = Inr y \<and> jget env k = Some y"
  using zod_object_field [OF laws env [unfolded envelope_schema] f _ envelope_distinct] f
  by (auto simp: envelope_fields_def)

definition input_str :: "(jstr \<times> json) list \<Rightarrow> string \<Rightarrow> jstr \<Rightarrow> bool" where
  "input_str kvs k s \<longleftrightarrow> map_of kvs (js k) = Some (JStr s)"

lemma envelope_id:
  assumes "zod_laws sp" "sp TelemetryEventEnvelopeSchema (Some (JObj kvs)) = Inr env"
    "(js k, IdSchema) \<in> set envelope_fields"
  shows "input_str kvs k (str_field env (js k))" "1 \<le> length (str_field env (js k))"
    "length (str_field env (js k)) \<le> 128"
  using envelope_field [OF assms]
  by (auto simp: IdSchema_def zod_string [OF assms(1)] str_field_def input_str_def MAX_ID_LENGTH_def)

lemma envelope_enum:
  assumes "zod_laws sp" "sp TelemetryEventEnvelopeSchema (Some (JObj kvs)) = Inr env"
    "(js k, ZEnum names) \<in> set envelope_fields"
  shows "input_str kvs k (str_field env (js k))" "str_field env (js k) \<in> set names"
  using envelope_field [OF assms] by (auto simp: zod_enum [OF assms(1)] str_field_def input_str_def)

lemma envelope_occurredAt:
  assumes "zod_laws sp" "sp TelemetryEventEnvelopeSchema (Some (JObj kvs)) = Inr env"
  shows "input_str kvs ''occurredAt'' (str_field env (js ''occurredAt''))"
    "date_parse (str_field env (js ''occurredAt'')) \<noteq> None"
proof -
  have "(js ''occurredAt'', TimestampSchema) \<in> set envelope_fields" by (simp add: envelope_fields_def)
  from envelope_field [OF assms this]
  show "input_str kvs ''occurredAt'' (str_field env (js ''occurredAt''))"
    "date_parse (str_field env (js ''occurredAt'')) \<noteq> None"
    by (auto simp: TimestampSchema_def str_field_def input_str_def dest!: zod_datetime [OF assms(1)])
qed

lemma parse_okD:
  assumes "parseTelemetryEvent sp input = ParseOk ev"
  obtains kvs env where "input = JObj kvs" "sp TelemetryEventEnvelopeSchema (Some input) = Inr env"
    "eventTypeAvailableAt (str_field env (js ''type'')) (str_field env (js ''schemaVersion''))"
    "event_type_of (str_field env (js ''type'')) = Some (te_type ev)"
    "sp (TELEMETRY_PAYLOAD_SCHEMAS (te_type ev)) (jget env (js ''payload'')) = Inr (te_payload ev)"
    "te_eventId ev = str_field env (js ''eventId'')" "te_schemaVersion ev = str_field env (js ''schemaVersion'')"
    "te_entityId ev = str_field env (js ''entityId'')" "te_runId ev = str_field env (js ''runId'')"
    "te_occurredAt ev = str_field env (js ''occurredAt'')"
  using assms
  by (auto simp: parseTelemetryEvent_def isPlainObject_def buildEvent_def Let_def eventTypeAvailableAt_def
      split: json.splits sum.splits if_splits option.splits prod.splits)

text \<open>C9. An event that parses says exactly what its sender wrote and nothing malformed: its ids are
  the sent strings, between 1 and 128 code units long, its instant is a real date, its type is one of
  the nine and legal at the declared version, and its payload passed that type's own schema.\<close>

theorem parsed_event_wellformed:
  assumes "zod_laws safeParse" "parseTelemetryEvent safeParse input = ParseOk ev"
  shows "\<exists>kvs. input = JObj kvs \<and>
     input_str kvs ''eventId'' (te_eventId ev) \<and> input_str kvs ''entityId'' (te_entityId ev) \<and>
     input_str kvs ''runId'' (te_runId ev) \<and> input_str kvs ''occurredAt'' (te_occurredAt ev) \<and>
     input_str kvs ''schemaVersion'' (te_schemaVersion ev) \<and>
     input_str kvs ''type'' (event_type_name (te_type ev)) \<and>
     (\<forall>i \<in> {te_eventId ev, te_entityId ev, te_runId ev}. 1 \<le> length i \<and> length i \<le> 128) \<and>
     date_parse (te_occurredAt ev) \<noteq> None \<and>
     schemaVersionAtLeast (te_schemaVersion ev) (TELEMETRY_EVENT_TYPE_MIN_SCHEMA_VERSION (te_type ev)) \<and>
     (\<exists>p. map_of kvs (js ''payload'') = Some p \<and>
        safeParse (TELEMETRY_PAYLOAD_SCHEMAS (te_type ev)) (Some p) = Inr (te_payload ev))"
proof -
  obtain kvs env where input: "input = JObj kvs" and
    env: "safeParse TelemetryEventEnvelopeSchema (Some input) = Inr env" and
    av: "eventTypeAvailableAt (str_field env (js ''type'')) (str_field env (js ''schemaVersion''))" and
    ty: "event_type_of (str_field env (js ''type'')) = Some (te_type ev)" and
    pl: "safeParse (TELEMETRY_PAYLOAD_SCHEMAS (te_type ev)) (jget env (js ''payload'')) = Inr (te_payload ev)" and
    eqs: "te_eventId ev = str_field env (js ''eventId'')" "te_schemaVersion ev = str_field env (js ''schemaVersion'')"
    "te_entityId ev = str_field env (js ''entityId'')" "te_runId ev = str_field env (js ''runId'')"
    "te_occurredAt ev = str_field env (js ''occurredAt'')"
    using parse_okD [OF assms(2)] .
  note e = env [unfolded input]
  have mem: "(js ''eventId'', IdSchema) \<in> set envelope_fields" "(js ''entityId'', IdSchema) \<in> set envelope_fields"
    "(js ''runId'', IdSchema) \<in> set envelope_fields" "(js ''payload'', ZUnknown) \<in> set envelope_fields"
    "(js ''schemaVersion'', ZEnum TELEMETRY_SCHEMA_VERSIONS) \<in> set envelope_fields"
    "(js ''type'', ZEnum (map event_type_name TELEMETRY_EVENT_TYPES)) \<in> set envelope_fields"
    by (simp_all add: envelope_fields_def TelemetrySchemaVersionSchema_def TelemetryEventTypeSchema_def)
  obtain p where "map_of kvs (js ''payload'') = Some p" "jget env (js ''payload'') = Some p"
    using envelope_field [OF assms(1) e mem(4)] by (auto simp: zod_unknown [OF assms(1)])
  moreover have "schemaVersionAtLeast (te_schemaVersion ev) (TELEMETRY_EVENT_TYPE_MIN_SCHEMA_VERSION (te_type ev))"
    using av by (simp add: eventTypeAvailableAt_def ty eqs)
  ultimately show ?thesis
    using input pl envelope_id [OF assms(1) e mem(1)] envelope_id [OF assms(1) e mem(2)]
      envelope_id [OF assms(1) e mem(3)] envelope_enum [OF assms(1) e mem(5)]
      envelope_enum(1) [OF assms(1) e mem(6)] envelope_occurredAt [OF assms(1) e] event_type_of_SomeD [OF ty]
    by (simp add: eqs)
qed

definition bad_field :: "zod_parser \<Rightarrow> (jstr \<times> json) list \<Rightarrow> string \<Rightarrow> zod \<Rightarrow> bool" where
  "bad_field safeParse kvs k s \<longleftrightarrow> \<not> field_ok safeParse s (map_of kvs (js k))"

lemma issue_iff_bad_field:
  assumes "zod_laws sp" "sp TelemetryEventEnvelopeSchema (Some (JObj kvs)) = Inl issues"
    "(js k, s) \<in> set envelope_fields"
  shows "(\<exists>p \<in> set issues. path_head p = Some (js k)) \<longleftrightarrow> bad_field sp kvs k s"
proof -
  have "s' = s" if "(js k, s') \<in> set envelope_fields" for s'
    using that assms(3) envelope_distinct by (metis map_of_is_SomeI option.inject)
  thus ?thesis
    using zod_object_fails [OF assms(1) assms(2) [unfolded envelope_schema], of "js k"] assms(3)
    unfolding bad_field_def by blast
qed

lemma find_required_iff:
  "List.find (\<lambda>p. \<exists>k \<in> set REQUIRED_FIELD_KEYS. path_head p = Some k) issues = None \<longleftrightarrow>
     \<not> (\<exists>k \<in> set REQUIRED_FIELD_KEYS. \<exists>p \<in> set issues. path_head p = Some k)"
  by (auto simp: find_None_iff)

text \<open>Which code a rejected event reports: the first of the contract's checks it fails, in the
  contract's order (version, type, the four required fields, a missing payload, a type newer than
  the declared version, the payload's own schema), and an event is accepted exactly when it fails
  none of them.\<close>

theorem parse_reject_order:
  assumes "zod_laws safeParse"
  shows "reject_code (parseTelemetryEvent safeParse (JObj kvs)) =
    (if bad_field safeParse kvs ''schemaVersion'' TelemetrySchemaVersionSchema then Some UNSUPPORTED_SCHEMA_VERSION
     else if bad_field safeParse kvs ''type'' TelemetryEventTypeSchema then Some UNKNOWN_EVENT_TYPE
     else if bad_field safeParse kvs ''eventId'' IdSchema \<or> bad_field safeParse kvs ''entityId'' IdSchema \<or>
       bad_field safeParse kvs ''runId'' IdSchema \<or> bad_field safeParse kvs ''occurredAt'' TimestampSchema
     then Some MISSING_REQUIRED_FIELD
     else case map_of kvs (js ''payload'') of None \<Rightarrow> Some INVALID_PAYLOAD
     | Some payload \<Rightarrow>
       let type = str_field (JObj kvs) (js ''type'') in
       if \<not> eventTypeAvailableAt type (str_field (JObj kvs) (js ''schemaVersion'')) then Some UNKNOWN_EVENT_TYPE
       else if \<not> parses (safeParse (TELEMETRY_PAYLOAD_SCHEMAS (the (event_type_of type))) (Some payload))
       then Some INVALID_PAYLOAD else None)"
proof (cases "safeParse TelemetryEventEnvelopeSchema (Some (JObj kvs))")
  case (Inl issues)
  note iff = issue_iff_bad_field [OF assms Inl]
  have mem: "(js ''eventId'', IdSchema) \<in> set envelope_fields" "(js ''entityId'', IdSchema) \<in> set envelope_fields"
    "(js ''runId'', IdSchema) \<in> set envelope_fields" "(js ''occurredAt'', TimestampSchema) \<in> set envelope_fields"
    "(js ''schemaVersion'', TelemetrySchemaVersionSchema) \<in> set envelope_fields"
    "(js ''type'', TelemetryEventTypeSchema) \<in> set envelope_fields"
    "(js ''payload'', ZUnknown) \<in> set envelope_fields"
    by (simp_all add: envelope_fields_def)
  note issue = iff [OF mem(1)] iff [OF mem(2)] iff [OF mem(3)] iff [OF mem(4)] iff [OF mem(5)] iff [OF mem(6)]
  have pay: "map_of kvs (js ''payload'') = None"
    if ok: "\<not> bad_field safeParse kvs ''schemaVersion'' TelemetrySchemaVersionSchema"
      "\<not> bad_field safeParse kvs ''type'' TelemetryEventTypeSchema"
      "\<not> bad_field safeParse kvs ''eventId'' IdSchema" "\<not> bad_field safeParse kvs ''entityId'' IdSchema"
      "\<not> bad_field safeParse kvs ''runId'' IdSchema" "\<not> bad_field safeParse kvs ''occurredAt'' TimestampSchema"
  proof (rule ccontr)
    assume "map_of kvs (js ''payload'') \<noteq> None"
    then obtain x where "map_of kvs (js ''payload'') = Some x" by auto
    hence "field_ok safeParse ZUnknown (map_of kvs (js ''payload''))"
      using zod_unknown [OF assms, of x x] by (simp add: field_ok_def)
    hence "\<forall>(k, s) \<in> set envelope_fields. field_ok safeParse s (map_of kvs k)"
      using ok by (simp add: envelope_fields_def bad_field_def)
    from zod_object_parses [OF assms this] Inl show False by (simp add: envelope_schema)
  qed
  have req: "List.find (\<lambda>p. \<exists>k \<in> set REQUIRED_FIELD_KEYS. path_head p = Some k) issues = None \<longleftrightarrow>
     \<not> (bad_field safeParse kvs ''eventId'' IdSchema \<or> bad_field safeParse kvs ''entityId'' IdSchema \<or>
       bad_field safeParse kvs ''runId'' IdSchema \<or> bad_field safeParse kvs ''occurredAt'' TimestampSchema)"
    unfolding find_required_iff by (simp add: REQUIRED_FIELD_KEYS_def issue)
  show ?thesis
    using pay req
    by (auto simp: parseTelemetryEvent_def isPlainObject_def Inl classifyEnvelopeFailure_def issue Let_def
        split: option.splits)
next
  case (Inr env)
  note fld = envelope_field [OF assms Inr]
  have ok: "\<not> bad_field safeParse kvs k s" if "(js k, s) \<in> set envelope_fields" for k s
    using zod_object_ok [OF assms Inr [unfolded envelope_schema] that envelope_distinct]
    by (simp add: bad_field_def)
  have mem: "(js ''payload'', ZUnknown) \<in> set envelope_fields"
    "(js ''schemaVersion'', ZEnum TELEMETRY_SCHEMA_VERSIONS) \<in> set envelope_fields"
    "(js ''type'', ZEnum (map event_type_name TELEMETRY_EVENT_TYPES)) \<in> set envelope_fields"
    by (simp_all add: envelope_fields_def TelemetrySchemaVersionSchema_def TelemetryEventTypeSchema_def)
  obtain p where p: "map_of kvs (js ''payload'') = Some p" "jget env (js ''payload'') = Some p"
    using fld [OF mem(1)] by (auto simp: zod_unknown [OF assms])
  have same: "str_field env (js ''type'') = str_field (JObj kvs) (js ''type'')"
    "str_field env (js ''schemaVersion'') = str_field (JObj kvs) (js ''schemaVersion'')"
    using envelope_enum(1) [OF assms Inr mem(2)] envelope_enum(1) [OF assms Inr mem(3)]
    by (simp_all add: input_str_def str_field_def)
  have oks: "\<not> bad_field safeParse kvs ''schemaVersion'' TelemetrySchemaVersionSchema"
      "\<not> bad_field safeParse kvs ''type'' TelemetryEventTypeSchema"
      "\<not> bad_field safeParse kvs ''eventId'' IdSchema" "\<not> bad_field safeParse kvs ''entityId'' IdSchema"
      "\<not> bad_field safeParse kvs ''runId'' IdSchema" "\<not> bad_field safeParse kvs ''occurredAt'' TimestampSchema"
    by (rule ok; simp add: envelope_fields_def)+
  show ?thesis
    using oks p
    by (auto simp: parseTelemetryEvent_def isPlainObject_def Inr buildEvent_def same Let_def parses_def
        split: sum.split)
qed

section \<open>Witnesses\<close>

definition raw_run_started :: json where
  "raw_run_started = JObj
     [(js ''eventId'', JStr (js ''e1'')), (js ''schemaVersion'', JStr (js ''2'')),
      (js ''type'', JStr (js ''run.started'')), (js ''entityId'', JStr (js ''r'')), (js ''runId'', JStr (js ''r'')),
      (js ''occurredAt'', JStr (js ''2024-05-01T10:00:00Z'')),
      (js ''payload'', JObj [(js ''workflowName'', JStr (js ''w'')), (js ''workflowVersion'', JStr (js ''1''))])]"

definition parsed_run_started :: TelemetryEvent where
  "parsed_run_started = \<lparr>te_eventId = js ''e1'', te_schemaVersion = js ''2'', te_type = RunStarted,
     te_entityId = js ''r'', te_runId = js ''r'', te_occurredAt = js ''2024-05-01T10:00:00Z'',
     te_payload = JObj [(js ''workflowName'', JStr (js ''w'')), (js ''workflowVersion'', JStr (js ''1''))]\<rparr>"

lemma parse_run_started: "parseTelemetryEvent zod_ref raw_run_started = ParseOk parsed_run_started"
  by code_simp

theorem parsed_event_wellformed_witness:
  "date_parse (te_occurredAt parsed_run_started) \<noteq> None \<and> length (te_eventId parsed_run_started) \<le> 128"
  using parsed_event_wellformed [OF zod_laws_ref parse_run_started] by auto

theorem parse_reject_order_witness:
  "reject_code (parseTelemetryEvent zod_ref (JObj [(js ''schemaVersion'', JStr (js ''3'')),
     (js ''type'', JStr (js ''nope''))])) = Some UNSUPPORTED_SCHEMA_VERSION"
proof -
  have "bad_field zod_ref [(js ''schemaVersion'', JStr (js ''3'')), (js ''type'', JStr (js ''nope''))]
      ''schemaVersion'' TelemetrySchemaVersionSchema" by code_simp
  thus ?thesis using parse_reject_order [OF zod_laws_ref] by simp
qed

end
