(* ===== verification/Wire_Sanitize.thy ===== *)
theory Wire_Sanitize
  imports Wire_Contract
begin

text \<open>
  \<^verbatim>\<open>platform/api/src/telemetry/wire-sanitize.ts\<close>: the screens that keep a value Postgres cannot
  store out of the repository.  Each is shown equivalent to a reference description: the string
  screen accepts exactly the UTF-16 encodings of NUL-free scalar sequences, the iterative depth
  screen computes the nesting depth of the value.
\<close>

section \<open>Strings\<close>

definition is_high_surrogate :: "jchar \<Rightarrow> bool" where
  "is_high_surrogate c \<longleftrightarrow> 0xD800 \<le> c \<and> c \<le> 0xDBFF"

definition is_low_surrogate :: "jchar \<Rightarrow> bool" where
  "is_low_surrogate c \<longleftrightarrow> 0xDC00 \<le> c \<and> c \<le> 0xDFFF"

fun hasNulOrLoneSurrogate :: "jstr \<Rightarrow> bool" where
  "hasNulOrLoneSurrogate [] = False"
| "hasNulOrLoneSurrogate (code # rest) =
     (if code = 0 then True
      else if is_high_surrogate code then
        (case rest of
           [] \<Rightarrow> True
         | nxt # rest' \<Rightarrow> if is_low_surrogate nxt then hasNulOrLoneSurrogate rest' else True)
      else if is_low_surrogate code then True
      else hasNulOrLoneSurrogate rest)"

fun containsUnsafeUnicode :: "json \<Rightarrow> bool" where
  "containsUnsafeUnicode (JStr s) = hasNulOrLoneSurrogate s"
| "containsUnsafeUnicode (JArr xs) = list_ex containsUnsafeUnicode xs"
| "containsUnsafeUnicode (JObj kvs) =
     list_ex (\<lambda>(key, nested). hasNulOrLoneSurrogate key \<or> containsUnsafeUnicode nested) kvs"
| "containsUnsafeUnicode JNull = False"
| "containsUnsafeUnicode (JBool _) = False"
| "containsUnsafeUnicode (JNum _) = False"

section \<open>Timestamps and integers\<close>

text \<open>An unparsable date has year \<^verbatim>\<open>NaN\<close>, which is not \<^verbatim>\<open><= 0\<close>.\<close>

definition isPostgresUnrepresentableTimestamp :: "jstr \<Rightarrow> bool" where
  "isPostgresUnrepresentableTimestamp s =
     (case date_parse s of None \<Rightarrow> False | Some t \<Rightarrow> getUTCFullYear t \<le> 0)"

definition POSTGRES_INT4_MAX :: int where
  "POSTGRES_INT4_MAX = 2147483647"

definition exceedsPostgresInt4 :: "rat \<Rightarrow> bool" where
  "exceedsPostgresInt4 q \<longleftrightarrow> of_int POSTGRES_INT4_MAX < q \<or> q < of_int (- POSTGRES_INT4_MAX - 1)"

section \<open>Depth\<close>

definition MAX_STRUCTURAL_DEPTH :: nat where
  "MAX_STRUCTURAL_DEPTH = 64"

definition json_children :: "json \<Rightarrow> json list" where
  "json_children v = (case v of JArr xs \<Rightarrow> xs | JObj kvs \<Rightarrow> map snd kvs | _ \<Rightarrow> [])"

text \<open>The loop: one level of the value per iteration.\<close>

function depth_loop :: "nat \<Rightarrow> nat \<Rightarrow> json list \<Rightarrow> bool" where
  "depth_loop maxDepth depth frontier =
     (if frontier = [] then False
      else if maxDepth < depth then True
      else depth_loop maxDepth (depth + 1) (concat (map json_children frontier)))"
  by auto
termination
  by (relation "measure (\<lambda>(m, d, _). m + 1 - d)") auto

declare depth_loop.simps [simp del]

definition exceedsMaxStructuralDepth :: "json \<Rightarrow> nat \<Rightarrow> bool" where
  "exceedsMaxStructuralDepth v maxDepth = depth_loop maxDepth 0 [v]"

section \<open>Payload columns\<close>

definition PERSISTED_PAYLOAD_TIMESTAMP_FIELDS :: "TelemetryEventType \<Rightarrow> jstr list" where
  "PERSISTED_PAYLOAD_TIMESTAMP_FIELDS t = (case t of
     DecisionOutcomeAttested \<Rightarrow> [js ''observedAt'']
   | ToolCallRecorded \<Rightarrow> [js ''startedAt'', js ''completedAt'']
   | _ \<Rightarrow> [])"

definition PERSISTED_PAYLOAD_INT4_FIELDS :: "TelemetryEventType \<Rightarrow> jstr list" where
  "PERSISTED_PAYLOAD_INT4_FIELDS t = (case t of
     ModelCallRecorded \<Rightarrow> [js ''latencyMs'', js ''inputTokens'', js ''outputTokens'']
   | ToolCallRecorded \<Rightarrow> [js ''inputBytes'', js ''outputBytes'', js ''durationMs'']
   | _ \<Rightarrow> [])"

definition bad_timestamp_field :: "json \<Rightarrow> jstr \<Rightarrow> bool" where
  "bad_timestamp_field payload field = (case jget payload field of
     Some (JStr s) \<Rightarrow> isPostgresUnrepresentableTimestamp s | _ \<Rightarrow> False)"

definition bad_int4_field :: "json \<Rightarrow> jstr \<Rightarrow> bool" where
  "bad_int4_field payload field = (case jget payload field of
     Some (JNum q) \<Rightarrow> exceedsPostgresInt4 q | _ \<Rightarrow> False)"

definition unrepresentablePayloadReason :: "TelemetryEvent \<Rightarrow> RejectMessage option" where
  "unrepresentablePayloadReason event =
     (case List.find (bad_timestamp_field (te_payload event)) (PERSISTED_PAYLOAD_TIMESTAMP_FIELDS (te_type event)) of
        Some field \<Rightarrow> Some (MsgPayloadTimestamp field)
      | None \<Rightarrow>
        (case List.find (bad_int4_field (te_payload event)) (PERSISTED_PAYLOAD_INT4_FIELDS (te_type event)) of
           Some field \<Rightarrow> Some (MsgPayloadInt4 field)
         | None \<Rightarrow> None))"

section \<open>The string screen is a UTF-16 decoder\<close>

definition scalar_value :: "nat \<Rightarrow> bool" where
  "scalar_value cp \<longleftrightarrow> 0 < cp \<and> cp < 0x110000 \<and> \<not> (0xD800 \<le> cp \<and> cp < 0xE000)"

definition utf16 :: "nat \<Rightarrow> jstr" where
  "utf16 cp = (if cp < 0x10000 then [word_of_nat cp]
     else [word_of_nat (0xD800 + (cp - 0x10000) div 0x400), word_of_nat (0xDC00 + (cp - 0x10000) mod 0x400)])"

lemma unat_word16 [simp]: "n < 0x10000 \<Longrightarrow> unat (word_of_nat n :: jchar) = n"
  by (simp add: unat_of_nat)

lemma surrogate_iff:
  "is_high_surrogate c \<longleftrightarrow> 0xD800 \<le> unat c \<and> unat c < 0xDC00"
  "is_low_surrogate c \<longleftrightarrow> 0xDC00 \<le> unat c \<and> unat c < 0xE000"
  by (auto simp: is_high_surrogate_def is_low_surrogate_def word_le_nat_alt)

lemma utf16_safe:
  assumes "scalar_value cp"
  shows "hasNulOrLoneSurrogate (utf16 cp @ s) = hasNulOrLoneSurrogate s"
proof (cases "cp < 0x10000")
  case True
  define c where "c = (word_of_nat cp :: jchar)"
  have "unat c = cp" using True by (simp add: c_def)
  hence "c \<noteq> 0" "\<not> is_high_surrogate c" "\<not> is_low_surrogate c"
    using assms by (auto simp: scalar_value_def surrogate_iff)
  thus ?thesis using True by (simp add: utf16_def c_def [symmetric])
next
  case False
  define h l where "h = (word_of_nat (0xD800 + (cp - 0x10000) div 0x400) :: jchar)"
    and "l = (word_of_nat (0xDC00 + (cp - 0x10000) mod 0x400) :: jchar)"
  have lt: "(cp - 0x10000) div 0x400 < 0x400"
    using assms by (intro less_mult_imp_div_less) (auto simp: scalar_value_def)
  hence h: "unat h = 0xD800 + (cp - 0x10000) div 0x400"
    unfolding h_def by (intro unat_word16) simp
  have lm: "(cp - 0x10000) mod 0x400 < 0x400" by simp
  hence l: "unat l = 0xDC00 + (cp - 0x10000) mod 0x400"
    unfolding l_def by (intro unat_word16) linarith
  have "h \<noteq> 0" "is_high_surrogate h" "is_low_surrogate l"
    using h l lt lm by (auto simp: surrogate_iff)
  moreover have "utf16 cp = [h, l]" using False by (simp only: utf16_def h_def l_def if_False)
  ultimately show ?thesis by simp
qed

lemma pair_decodes:
  assumes "is_high_surrogate h" "is_low_surrogate l"
  shows "\<exists>cp. scalar_value cp \<and> utf16 cp = [h, l]"
proof -
  define a b where "a = unat h - 0xD800" and "b = unat l - 0xDC00"
  have ab: "unat h = 0xD800 + a" "a < 0x400" "unat l = 0xDC00 + b" "b < 0x400"
    using assms by (auto simp: surrogate_iff a_def b_def)
  let ?cp = "0x10000 + (0x400 * a + b)"
  have "(?cp - 0x10000) div 0x400 = a" "(?cp - 0x10000) mod 0x400 = b" using ab by simp_all
  moreover have "word_of_nat (0xD800 + a) = h" "word_of_nat (0xDC00 + b) = l"
    unfolding ab(1,3) [symmetric] by simp_all
  moreover have "scalar_value ?cp" using ab by (simp add: scalar_value_def)
  ultimately show ?thesis by (intro exI [of _ ?cp]) (simp add: utf16_def)
qed

lemma unit_decodes:
  assumes "c \<noteq> 0" "\<not> is_high_surrogate c" "\<not> is_low_surrogate c"
  shows "scalar_value (unat c) \<and> utf16 (unat c) = [c]"
proof -
  have "unat c < 0x10000" using unsigned_less [of c] by simp
  moreover have "0 < unat c" using assms(1) by (simp add: unat_gt_0)
  ultimately show ?thesis using assms(2,3)
    by (auto simp: scalar_value_def utf16_def surrogate_iff)
qed

text \<open>The string screen passes exactly the strings Postgres can store as text: the UTF-16
  encodings of sequences of Unicode scalar values without U+0000.\<close>

theorem string_screen_is_utf16:
  "\<not> hasNulOrLoneSurrogate s \<longleftrightarrow> (\<exists>cps. list_all scalar_value cps \<and> s = concat (map utf16 cps))"
proof
  assume "\<not> hasNulOrLoneSurrogate s"
  thus "\<exists>cps. list_all scalar_value cps \<and> s = concat (map utf16 cps)"
  proof (induction s rule: hasNulOrLoneSurrogate.induct)
    case 1
    show ?case by (intro exI [of _ "[]"]) simp
  next
    case (2 c rest)
    show ?case
    proof (cases "is_high_surrogate c")
      case True
      then obtain n r where r: "rest = n # r" "is_low_surrogate n" "\<not> hasNulOrLoneSurrogate r" "c \<noteq> 0"
        using "2.prems" by (auto split: if_splits list.splits)
      obtain cps where "list_all scalar_value cps" "r = concat (map utf16 cps)"
        using "2.IH"(1) True r by blast
      moreover obtain cp where "scalar_value cp" "utf16 cp = [c, n]"
        using pair_decodes True r(2) by blast
      ultimately show ?thesis by (intro exI [of _ "cp # cps"]) (simp add: r)
    next
      case False
      hence c: "c \<noteq> 0" "\<not> is_low_surrogate c" "\<not> hasNulOrLoneSurrogate rest"
        using "2.prems" by (auto split: if_splits)
      obtain cps where "list_all scalar_value cps" "rest = concat (map utf16 cps)"
        using "2.IH"(2) False c by blast
      thus ?thesis using unit_decodes [of c] False c by (intro exI [of _ "unat c # cps"]) simp
    qed
  qed
next
  assume "\<exists>cps. list_all scalar_value cps \<and> s = concat (map utf16 cps)"
  then obtain cps where "list_all scalar_value cps" "s = concat (map utf16 cps)" by blast
  thus "\<not> hasNulOrLoneSurrogate s"
    by (induction cps arbitrary: s) (auto simp: utf16_safe)
qed

section \<open>The depth screen computes the depth\<close>

text \<open>Nesting depth: a value without children is at depth 0.\<close>

fun json_depth :: "json \<Rightarrow> nat" where
  "json_depth (JArr xs) = fold max (map (Suc \<circ> json_depth) xs) 0"
| "json_depth (JObj kvs) = fold max (map (Suc \<circ> json_depth \<circ> snd) kvs) 0"
| "json_depth JNull = 0"
| "json_depth (JBool _) = 0"
| "json_depth (JNum _) = 0"
| "json_depth (JStr _) = 0"

lemma less_fold_max: "(m :: nat) < fold max xs a \<longleftrightarrow> m < a \<or> (\<exists>x \<in> set xs. m < x)"
  by (induction xs arbitrary: a) (auto simp: less_max_iff_disj)

lemma less_json_depth: "m < json_depth v \<longleftrightarrow> (\<exists>c \<in> set (json_children v). m < Suc (json_depth c))"
  by (cases v) (auto simp: less_fold_max json_children_def)

lemma depth_loop_iff:
  "depth_loop m d frontier \<longleftrightarrow> (\<exists>v \<in> set frontier. m < d + json_depth v)"
proof (induction m d frontier rule: depth_loop.induct)
  case (1 m d frontier)
  show ?case
  proof (cases "frontier = [] \<or> m < d")
    case True
    thus ?thesis by (cases frontier) (auto simp: depth_loop.simps)
  next
    case False
    have "(\<exists>v \<in> set (concat (map json_children frontier)). m < d + 1 + json_depth v) \<longleftrightarrow>
        (\<exists>u \<in> set frontier. \<exists>c \<in> set (json_children u). m - d < Suc (json_depth c))"
    proof -
      have "m < d + 1 + json_depth v \<longleftrightarrow> m - d < Suc (json_depth v)" for v
        using False by auto
      thus ?thesis by simp
    qed
    also have "\<dots> \<longleftrightarrow> (\<exists>u \<in> set frontier. m < d + json_depth u)"
    proof -
      have "m - d < json_depth u \<longleftrightarrow> m < d + json_depth u" for u using False by auto
      thus ?thesis by (simp add: less_json_depth [symmetric])
    qed
    finally show ?thesis using 1 False by (subst depth_loop.simps) auto
  qed
qed

text \<open>The iterative depth screen decides nesting depth: it reports exactly the values nested
  deeper than the bound, whatever their shape, and its loop ends after at most bound + 2 rounds.\<close>

theorem depth_screen_exact: "exceedsMaxStructuralDepth v maxDepth \<longleftrightarrow> maxDepth < json_depth v"
  by (simp add: exceedsMaxStructuralDepth_def depth_loop_iff)

section \<open>The payload screen\<close>

lemma find_SomeD: "List.find P xs = Some x \<Longrightarrow> x \<in> set xs \<and> P x"
  by (auto simp: find_Some_iff)

text \<open>After the payload screen every persisted timestamp names a year Postgres has and every
  persisted integer fits its column, for every event type; and a rejection names an offending
  field.\<close>

theorem payload_screen_sound:
  "case unrepresentablePayloadReason event of
     None \<Rightarrow>
       (\<forall>f \<in> set (PERSISTED_PAYLOAD_TIMESTAMP_FIELDS (te_type event)). \<forall>s t.
          jget (te_payload event) f = Some (JStr s) \<and> date_parse s = Some t \<longrightarrow> 1 \<le> getUTCFullYear t) \<and>
       (\<forall>f \<in> set (PERSISTED_PAYLOAD_INT4_FIELDS (te_type event)). \<forall>q.
          jget (te_payload event) f = Some (JNum q) \<longrightarrow> - 2147483648 \<le> q \<and> q \<le> 2147483647)
   | Some msg \<Rightarrow>
       (\<exists>f \<in> set (PERSISTED_PAYLOAD_TIMESTAMP_FIELDS (te_type event)).
          msg = MsgPayloadTimestamp f \<and> bad_timestamp_field (te_payload event) f) \<or>
       (\<exists>f \<in> set (PERSISTED_PAYLOAD_INT4_FIELDS (te_type event)).
          msg = MsgPayloadInt4 f \<and> bad_int4_field (te_payload event) f)"
proof -
  have ts: "1 \<le> getUTCFullYear t"
    if "\<not> bad_timestamp_field p f" "jget p f = Some (JStr s)" "date_parse s = Some t" for p f s t
    using that by (auto simp: bad_timestamp_field_def isPostgresUnrepresentableTimestamp_def)
  have nm: "- 2147483648 \<le> q \<and> q \<le> 2147483647"
    if "\<not> bad_int4_field p f" "jget p f = Some (JNum q)" for p f q
    using that by (auto simp: bad_int4_field_def exceedsPostgresInt4_def POSTGRES_INT4_MAX_def)
  show ?thesis
    by (auto simp: unrepresentablePayloadReason_def find_None_iff dest!: find_SomeD intro: ts
        dest: nm [rotated] split: option.split)
qed

theorem payload_screen_sound_witness:
  "unrepresentablePayloadReason (parsed_run_started\<lparr>te_type := ModelCallRecorded,
     te_payload := JObj [(js ''latencyMs'', JNum 2147483648)]\<rparr>) = Some (MsgPayloadInt4 (js ''latencyMs''))"
proof -
  let ?e = "parsed_run_started\<lparr>te_type := ModelCallRecorded, te_payload := JObj [(js ''latencyMs'', JNum 2147483648)]\<rparr>"
  have "unrepresentablePayloadReason ?e \<noteq> None" by code_simp
  thus ?thesis using payload_screen_sound [of ?e]
    by (auto simp: PERSISTED_PAYLOAD_TIMESTAMP_FIELDS_def PERSISTED_PAYLOAD_INT4_FIELDS_def
        bad_int4_field_def split: option.splits)
qed

end
