(* ===== verification/Last_Writer.thy ===== *)
theory Last_Writer
  imports Prelude
begin

text \<open>
  The contract behind the two precedence rules of the merge: a slot keeps the value of the writer
  that \<^emph>\<open>beats\<close> every other one, where writers carry a key and two writers with different
  identities are always comparable.  Inside the locale it is shown once that such a slot does not
  depend on the order in which the writers arrive, and who wins.
\<close>

definition pick :: "('k \<Rightarrow> 'k \<Rightarrow> bool) \<Rightarrow> ('k \<times> 'v) \<Rightarrow> ('k \<times> 'v) option \<Rightarrow> ('k \<times> 'v) option" where
  "pick beats new cur = (case cur of
     None \<Rightarrow> Some new
   | Some old \<Rightarrow> if beats (fst new) (fst old) then Some new else Some old)"

lemma pick_simps [simp]:
  "pick beats new None = Some new"
  "pick beats new (Some old) = (if beats (fst new) (fst old) then Some new else Some old)"
  by (simp_all add: pick_def)

locale last_writer =
  fixes ok :: "'k \<Rightarrow> bool" and ident :: "'k \<Rightarrow> 'i" and beats :: "'k \<Rightarrow> 'k \<Rightarrow> bool"
  assumes asym: "ok a \<Longrightarrow> ok b \<Longrightarrow> beats a b \<Longrightarrow> \<not> beats b a"
    and split: "ok a \<Longrightarrow> ok b \<Longrightarrow> ok c \<Longrightarrow> beats a c \<Longrightarrow> beats a b \<or> beats b c"
    and total: "ok a \<Longrightarrow> ok b \<Longrightarrow> ident a \<noteq> ident b \<Longrightarrow> beats a b \<or> beats b a"
begin

lemma irrefl: "ok a \<Longrightarrow> \<not> beats a a"
  using asym by blast

lemma trans: "ok a \<Longrightarrow> ok b \<Longrightarrow> ok c \<Longrightarrow> beats a b \<Longrightarrow> beats b c \<Longrightarrow> beats a c"
  using asym split by blast

lemma pick_ok:
  assumes "ok (fst new)" "pred_option (ok \<circ> fst) cur"
  shows "pred_option (ok \<circ> fst) (pick beats new cur)"
  using assms by (cases cur) auto

lemma pick_commute:
  assumes "ok (fst x)" "ok (fst y)" "ident (fst x) \<noteq> ident (fst y)" "pred_option (ok \<circ> fst) cur"
  shows "pick beats x (pick beats y cur) = pick beats y (pick beats x cur)"
proof (cases cur)
  case None
  thus ?thesis
    using assms asym [of "fst x" "fst y"] asym [of "fst y" "fst x"] total [of "fst x" "fst y"] by auto
next
  case (Some old)
  hence "ok (fst old)" using assms by simp
  thus ?thesis
    using Some assms asym [of "fst x" "fst y"] asym [of "fst y" "fst x"] total [of "fst x" "fst y"]
      split [of "fst x" "fst old" "fst y"] split [of "fst y" "fst old" "fst x"]
      asym [of "fst x" "fst old"] asym [of "fst y" "fst old"]
    by auto
qed

text \<open>The slot after a list of writers holds one of them, and it beats all the others.\<close>

lemma fold_pick_winner:
  assumes "\<forall>x \<in> set xs. ok (fst x)" "distinct (map (ident \<circ> fst) xs)" "xs \<noteq> []"
  shows "\<exists>w. fold (pick beats) xs None = Some w \<and> w \<in> set xs \<and>
      (\<forall>x \<in> set xs. x \<noteq> w \<longrightarrow> beats (fst w) (fst x))"
  using assms
proof (induction xs rule: rev_induct)
    case (snoc y xs)
    show ?case
    proof (cases "xs = []")
      case False
      with snoc obtain w where w: "fold (pick beats) xs None = Some w" "w \<in> set xs"
        "\<forall>x \<in> set xs. x \<noteq> w \<longrightarrow> beats (fst w) (fst x)" by auto
      have okw: "ok (fst w)" "ok (fst y)" and ne: "ident (fst y) \<noteq> ident (fst w)"
        using snoc.prems w(2) by auto
      show ?thesis
      proof (cases "beats (fst y) (fst w)")
        case True
        have "beats (fst y) (fst x)" if "x \<in> set xs" for x
          using that w(3) True okw snoc.prems(1) trans [of "fst y" "fst w" "fst x"] by (cases "x = w") auto
        thus ?thesis using w True by auto
      next
        case False
        thus ?thesis using w okw ne total [of "fst y" "fst w"] by auto
      qed
    qed simp
qed simp

text \<open>The same for writers that are read off a list of events.\<close>

lemma fold_pick_owner:
  assumes "\<forall>e \<in> set es. P e \<longrightarrow> ok (key e)" "distinct (map (ident \<circ> key) es)" "\<exists>e \<in> set es. P e"
  shows "\<exists>w \<in> set es. P w \<and>
    fold (pick beats) (map (\<lambda>e. (key e, val e)) (filter P es)) None = Some (key w, val w) \<and>
    (\<forall>e \<in> set es. P e \<and> e \<noteq> w \<longrightarrow> beats (key w) (key e))"
proof -
  let ?xs = "map (\<lambda>e. (key e, val e)) (filter P es)"
  have "distinct (map (ident \<circ> fst) ?xs)"
    using assms(2) by (simp add: comp_def distinct_map_filter)
  moreover have "\<forall>x \<in> set ?xs. ok (fst x)" using assms(1) by auto
  moreover have "?xs \<noteq> []" using assms(3) by (auto simp: filter_empty_conv)
  ultimately obtain p where p: "fold (pick beats) ?xs None = Some p" "p \<in> set ?xs"
    "\<forall>x \<in> set ?xs. x \<noteq> p \<longrightarrow> beats (fst p) (fst x)"
    using fold_pick_winner [of ?xs] by blast
  from p(2) obtain w where w: "w \<in> set es" "P w" "p = (key w, val w)" by auto
  have "beats (key w) (key e)" if "e \<in> set es" "P e" "e \<noteq> w" for e
  proof -
    have "ident (key e) \<noteq> ident (key w)" using assms(2) that w(1) by (auto simp: distinct_map inj_on_def)
    hence "(key e, val e) \<noteq> p" using w(3) by auto
    thus ?thesis using p(3) that w(3) by auto
  qed
  thus ?thesis using w p(1) by auto
qed

end

end
