(* ===== verification/Merge_Rules.thy ===== *)
theory Merge_Rules
  imports Js_Date Last_Writer
begin

text \<open>
  \<^verbatim>\<open>platform/api/src/telemetry/merge-rules.ts\<close>: the reducer that folds one telemetry event
  into the merged state of a Run or Step.  The second half gives it an abstract specification, a
  family of slots each owned by the writer that beats the others, and shows that the reducer
  implements it, so that the merged state is a function of the set of events and not of the order
  in which they arrive.
\<close>

section \<open>Data\<close>

datatype MergeEntityStatus = RUNNING | COMPLETED | FAILED

datatype MergeTerminalStatus = TerminalCompleted | TerminalFailed

datatype MergeEventKind = KindStart | KindCompletion

record MergeEvent =
  me_eventId :: jstr
  me_entityId :: jstr
  me_occurredAt :: jstr
  me_receivedAt :: int
  me_kind :: MergeEventKind
  me_status :: "MergeTerminalStatus option"
  me_fields :: "(jstr \<times> json) list"

record CompletionFieldOrigin =
  cfo_occurredAt :: jstr
  cfo_eventId :: jstr

text \<open>An object that is only read and written by key is a map; \<^const>\<open>None\<close> in
  \<open>ms_lastEventAt\<close> is \<^verbatim>\<open>-Infinity\<close>.\<close>

record EntityMergeState =
  ms_entityId :: jstr
  ms_status :: MergeEntityStatus
  ms_startedAt :: "jstr option"
  ms_startFields :: "(jstr \<rightharpoonup> json) option"
  ms_completedAt :: "jstr option"
  ms_completionFields :: "(jstr \<rightharpoonup> json) option"
  ms_completionEventId :: "jstr option"
  ms_startEventId :: "jstr option"
  ms_completionFieldOrigins :: "jstr \<rightharpoonup> CompletionFieldOrigin"
  ms_lastEventAt :: "int option"

datatype merge_error = CompletionWithoutStatus jstr jstr

section \<open>Operations\<close>

definition resolveTerminalStatus :: "MergeEntityStatus \<Rightarrow> MergeTerminalStatus \<Rightarrow> MergeTerminalStatus" where
  "resolveTerminalStatus existing incoming =
     (if existing = RUNNING then incoming
      else if existing = FAILED \<or> incoming = TerminalFailed then TerminalFailed
      else TerminalCompleted)"

text \<open>A terminal status is an entity status.\<close>

definition of_terminal :: "MergeTerminalStatus \<Rightarrow> MergeEntityStatus" where
  "of_terminal t = (case t of TerminalCompleted \<Rightarrow> COMPLETED | TerminalFailed \<Rightarrow> FAILED)"

text \<open>A difference of two \<^verbatim>\<open>Date.parse\<close> results; \<^const>\<open>None\<close> is \<^verbatim>\<open>NaN\<close>, for which
  every comparison with 0 is false.\<close>

definition compareOccurredAt :: "jstr \<Rightarrow> jstr \<Rightarrow> int option" where
  "compareOccurredAt a b =
     (case (date_parse a, date_parse b) of (Some x, Some y) \<Rightarrow> Some (x - y) | _ \<Rightarrow> None)"

definition positive :: "int option \<Rightarrow> bool" where
  "positive d = (case d of None \<Rightarrow> False | Some n \<Rightarrow> 0 < n)"

definition negative :: "int option \<Rightarrow> bool" where
  "negative d = (case d of None \<Rightarrow> False | Some n \<Rightarrow> n < 0)"

definition compareCompletionOrder :: "CompletionFieldOrigin \<Rightarrow> CompletionFieldOrigin \<Rightarrow> int option" where
  "compareCompletionOrder a b =
     (let diff = compareOccurredAt (cfo_occurredAt a) (cfo_occurredAt b) in
      if diff \<noteq> Some 0 then diff
      else if cfo_eventId a < cfo_eventId b then Some (-1)
      else if cfo_eventId a > cfo_eventId b then Some 1 else Some 0)"

definition shouldReplaceCompletion :: "EntityMergeState \<Rightarrow> MergeEvent \<Rightarrow> bool" where
  "shouldReplaceCompletion current event =
     (case (ms_completionEventId current, ms_completedAt current) of
        (Some cid, Some cat) \<Rightarrow>
          positive (compareCompletionOrder
            \<lparr>cfo_occurredAt = me_occurredAt event, cfo_eventId = me_eventId event\<rparr>
            \<lparr>cfo_occurredAt = cat, cfo_eventId = cid\<rparr>)
      | _ \<Rightarrow> True)"

definition shouldReplaceStart :: "EntityMergeState \<Rightarrow> MergeEvent \<Rightarrow> bool" where
  "shouldReplaceStart current event =
     (case (ms_startEventId current, ms_startedAt current) of
        (Some sid, Some sat) \<Rightarrow>
          (let diff = compareOccurredAt (me_occurredAt event) sat in
           if diff \<noteq> Some 0 then negative diff else me_eventId event < sid)
      | _ \<Rightarrow> True)"

definition emptyState :: "jstr \<Rightarrow> EntityMergeState" where
  "emptyState eid = \<lparr>ms_entityId = eid, ms_status = RUNNING, ms_startedAt = None,
     ms_startFields = None, ms_completedAt = None, ms_completionFields = None,
     ms_completionEventId = None, ms_startEventId = None,
     ms_completionFieldOrigins = Map.empty, ms_lastEventAt = None\<rparr>"

text \<open>The loop over \<^verbatim>\<open>Object.entries(clonedFields)\<close> in the completion branch.\<close>

fun foldCompletionFields ::
  "CompletionFieldOrigin \<Rightarrow> (jstr \<times> json) list \<Rightarrow> (jstr \<rightharpoonup> json) \<Rightarrow> (jstr \<rightharpoonup> CompletionFieldOrigin) \<Rightarrow>
   (jstr \<rightharpoonup> json) \<times> (jstr \<rightharpoonup> CompletionFieldOrigin)" where
  "foldCompletionFields incoming [] nextFields nextOrigins = (nextFields, nextOrigins)"
| "foldCompletionFields incoming ((key, value) # rest) nextFields nextOrigins =
     (if (case nextOrigins key of None \<Rightarrow> True
          | Some origin \<Rightarrow> positive (compareCompletionOrder incoming origin))
      then foldCompletionFields incoming rest (nextFields(key \<mapsto> value)) (nextOrigins(key \<mapsto> incoming))
      else foldCompletionFields incoming rest nextFields nextOrigins)"

definition mergeStart :: "EntityMergeState \<Rightarrow> MergeEvent \<Rightarrow> EntityMergeState" where
  "mergeStart base event =
     (let lastEventAt = Some (max_neginf (ms_lastEventAt base) (me_receivedAt event));
          replaceStart = shouldReplaceStart base event
      in base\<lparr>
        ms_startedAt := if replaceStart then Some (me_occurredAt event) else ms_startedAt base,
        ms_startFields := if replaceStart then Some (map_of (me_fields event)) else ms_startFields base,
        ms_startEventId := if replaceStart then Some (me_eventId event) else ms_startEventId base,
        ms_lastEventAt := lastEventAt\<rparr>)"

definition mergeCompletion :: "EntityMergeState \<Rightarrow> MergeEvent \<Rightarrow> MergeTerminalStatus \<Rightarrow> EntityMergeState" where
  "mergeCompletion base event st =
     (let lastEventAt = Some (max_neginf (ms_lastEventAt base) (me_receivedAt event));
          status = resolveTerminalStatus (ms_status base) st;
          replaceCompletion = shouldReplaceCompletion base event;
          incoming = \<lparr>cfo_occurredAt = me_occurredAt event, cfo_eventId = me_eventId event\<rparr>;
          (nextFields, nextOrigins) = foldCompletionFields incoming (me_fields event)
             (coalesce (ms_completionFields base) Map.empty) (ms_completionFieldOrigins base)
      in base\<lparr>
        ms_status := of_terminal status,
        ms_completedAt := if replaceCompletion then Some (me_occurredAt event) else ms_completedAt base,
        ms_completionFields := Some nextFields,
        ms_completionFieldOrigins := nextOrigins,
        ms_completionEventId := if replaceCompletion then Some (me_eventId event)
                                else ms_completionEventId base,
        ms_lastEventAt := lastEventAt\<rparr>)"

definition mergeEvent :: "EntityMergeState option \<Rightarrow> MergeEvent \<Rightarrow> merge_error + EntityMergeState" where
  "mergeEvent current event =
     (let base = coalesce current (emptyState (me_entityId event)) in
      case me_kind event of
        KindStart \<Rightarrow> Inr (mergeStart base event)
      | KindCompletion \<Rightarrow>
          (case me_status event of
             None \<Rightarrow> Inl (CompletionWithoutStatus (me_eventId event) (me_entityId event))
           | Some st \<Rightarrow> Inr (mergeCompletion base event st)))"

text \<open>The fold of a list of events that belong to one entity, as the callers of
  \<^const>\<open>mergeEvent\<close> run it; the first raise ends it.\<close>

fun mergeEvents :: "EntityMergeState option \<Rightarrow> MergeEvent list \<Rightarrow> merge_error + EntityMergeState option" where
  "mergeEvents current [] = Inr current"
| "mergeEvents current (e # es) =
     (case mergeEvent current e of Inl err \<Rightarrow> Inl err | Inr s \<Rightarrow> mergeEvents (Some s) es)"

lemma mergeEvents_append:
  "mergeEvents cur es = Inr cur' \<Longrightarrow> mergeEvents cur (es @ es') = mergeEvents cur' es'"
  by (induction es arbitrary: cur) (auto split: sum.splits)

section \<open>The precedence orders\<close>

definition ok_origin :: "CompletionFieldOrigin \<Rightarrow> bool" where
  "ok_origin g \<longleftrightarrow> date_parse (cfo_occurredAt g) \<noteq> None"

definition completion_beats :: "CompletionFieldOrigin \<Rightarrow> CompletionFieldOrigin \<Rightarrow> bool" where
  "completion_beats a b \<longleftrightarrow> positive (compareCompletionOrder a b)"

text \<open>The order of \<^const>\<open>shouldReplaceStart\<close>, as a relation between two owners.\<close>

definition start_beats :: "CompletionFieldOrigin \<Rightarrow> CompletionFieldOrigin \<Rightarrow> bool" where
  "start_beats a b \<longleftrightarrow>
     (let diff = compareOccurredAt (cfo_occurredAt a) (cfo_occurredAt b) in
      if diff \<noteq> Some 0 then negative diff else cfo_eventId a < cfo_eventId b)"

lemma completion_beats_iff:
  assumes "date_parse (cfo_occurredAt a) = Some x" "date_parse (cfo_occurredAt b) = Some y"
  shows "completion_beats a b \<longleftrightarrow> y < x \<or> x = y \<and> cfo_eventId b < cfo_eventId a"
  using assms
  by (auto simp: completion_beats_def compareCompletionOrder_def compareOccurredAt_def positive_def Let_def)

lemma start_beats_iff:
  assumes "date_parse (cfo_occurredAt a) = Some x" "date_parse (cfo_occurredAt b) = Some y"
  shows "start_beats a b \<longleftrightarrow> x < y \<or> x = y \<and> cfo_eventId a < cfo_eventId b"
  using assms by (auto simp: start_beats_def compareOccurredAt_def negative_def Let_def)

lemma ok_originE:
  assumes "ok_origin g"
  obtains x where "date_parse (cfo_occurredAt g) = Some x"
  using assms by (auto simp: ok_origin_def)

interpretation completion: last_writer ok_origin cfo_eventId completion_beats
proof (unfold_locales, goal_cases)
  case (1 a b)
  thus ?case by (elim ok_originE) (auto simp: completion_beats_iff)
next
  case (2 a b c)
  thus ?case by (elim ok_originE) (force simp: completion_beats_iff)
next
  case (3 a b)
  thus ?case by (elim ok_originE) (auto simp: completion_beats_iff)
qed

interpretation start: last_writer ok_origin cfo_eventId start_beats
proof (unfold_locales, goal_cases)
  case (1 a b)
  thus ?case by (elim ok_originE) (auto simp: start_beats_iff)
next
  case (2 a b c)
  thus ?case by (elim ok_originE) (force simp: start_beats_iff)
next
  case (3 a b)
  thus ?case by (elim ok_originE) (auto simp: start_beats_iff)
qed

lemma completion_not_beats_self: "\<not> completion_beats g g"
  by (auto simp: completion_beats_def compareCompletionOrder_def compareOccurredAt_def positive_def
      Let_def split: option.splits)

section \<open>Specification: slots and their owners\<close>

record merge_view =
  v_entity :: jstr
  v_status :: MergeEntityStatus
  v_start :: "(CompletionFieldOrigin \<times> (jstr \<rightharpoonup> json)) option"
  v_completion :: "(CompletionFieldOrigin \<times> unit) option"
  v_field :: "jstr \<Rightarrow> (CompletionFieldOrigin \<times> json) option"
  v_last :: "int option"

definition origin_of :: "MergeEvent \<Rightarrow> CompletionFieldOrigin" where
  "origin_of e = \<lparr>cfo_occurredAt = me_occurredAt e, cfo_eventId = me_eventId e\<rparr>"

lemma origin_of_simps [simp]:
  "cfo_occurredAt (origin_of e) = me_occurredAt e" "cfo_eventId (origin_of e) = me_eventId e"
  by (simp_all add: origin_of_def)

definition spec_step :: "MergeEvent \<Rightarrow> merge_view \<Rightarrow> merge_view" where
  "spec_step e v =
     (case me_kind e of
        KindStart \<Rightarrow> v\<lparr>v_start := pick start_beats (origin_of e, map_of (me_fields e)) (v_start v),
          v_last := Some (max_neginf (v_last v) (me_receivedAt e))\<rparr>
      | KindCompletion \<Rightarrow> v\<lparr>
          v_status := of_terminal (resolveTerminalStatus (v_status v) (the (me_status e))),
          v_completion := pick completion_beats (origin_of e, ()) (v_completion v),
          v_field := (\<lambda>k. case map_of (me_fields e) k of None \<Rightarrow> v_field v k
                           | Some x \<Rightarrow> pick completion_beats (origin_of e, x) (v_field v k)),
          v_last := Some (max_neginf (v_last v) (me_receivedAt e))\<rparr>)"

definition view :: "EntityMergeState \<Rightarrow> merge_view" where
  "view s = \<lparr>v_entity = ms_entityId s, v_status = ms_status s,
     v_start = (case (ms_startEventId s, ms_startedAt s, ms_startFields s) of
        (Some i, Some t, Some f) \<Rightarrow> Some (\<lparr>cfo_occurredAt = t, cfo_eventId = i\<rparr>, f) | _ \<Rightarrow> None),
     v_completion = (case (ms_completionEventId s, ms_completedAt s) of
        (Some i, Some t) \<Rightarrow> Some (\<lparr>cfo_occurredAt = t, cfo_eventId = i\<rparr>, ()) | _ \<Rightarrow> None),
     v_field = (\<lambda>k. case (ms_completionFieldOrigins s k, coalesce (ms_completionFields s) Map.empty k) of
        (Some g, Some x) \<Rightarrow> Some (g, x) | _ \<Rightarrow> None),
     v_last = ms_lastEventAt s\<rparr>"

text \<open>The states the reducer produces: each owner is recorded with what it owns, and every recorded
  instant parses.\<close>

definition wf_state :: "EntityMergeState \<Rightarrow> bool" where
  "wf_state s \<longleftrightarrow>
     (ms_startEventId s = None \<longleftrightarrow> ms_startedAt s = None) \<and>
     (ms_startFields s = None \<longleftrightarrow> ms_startedAt s = None) \<and>
     (ms_completionEventId s = None \<longleftrightarrow> ms_completedAt s = None) \<and>
     (ms_completionFields s = None \<longleftrightarrow> ms_completedAt s = None) \<and>
     dom (ms_completionFieldOrigins s) = dom (coalesce (ms_completionFields s) Map.empty) \<and>
     pred_option (\<lambda>t. date_parse t \<noteq> None) (ms_startedAt s) \<and>
     pred_option (\<lambda>t. date_parse t \<noteq> None) (ms_completedAt s) \<and>
     (\<forall>g \<in> ran (ms_completionFieldOrigins s). ok_origin g)"

text \<open>What the wire validation guarantees of an event that reaches the reducer.\<close>

definition valid_merge_event :: "MergeEvent \<Rightarrow> bool" where
  "valid_merge_event e \<longleftrightarrow> date_parse (me_occurredAt e) \<noteq> None \<and>
     (me_kind e = KindCompletion \<longrightarrow> me_status e \<noteq> None)"

lemma valid_origin: "valid_merge_event e \<Longrightarrow> ok_origin (origin_of e)"
  by (simp add: valid_merge_event_def ok_origin_def)

lemma wf_emptyState [simp]: "wf_state (emptyState i)"
  by (simp add: wf_state_def emptyState_def)

text \<open>What the loop over the incoming entries leaves at one key.\<close>

lemma foldCompletionFields_lookup:
  "foldCompletionFields g kvs f os =
     (\<lambda>k. case map_of kvs k of None \<Rightarrow> f k
          | Some x \<Rightarrow> if (case os k of None \<Rightarrow> True | Some h \<Rightarrow> completion_beats g h) then Some x else f k,
      \<lambda>k. case map_of kvs k of None \<Rightarrow> os k
          | Some x \<Rightarrow> if (case os k of None \<Rightarrow> True | Some h \<Rightarrow> completion_beats g h) then Some g else os k)"
proof (induction g kvs f os rule: foldCompletionFields.induct)
  case (2 g k x kvs f os)
  note IH = 2 [folded completion_beats_def]
  show ?case
  proof (cases "case os k of None \<Rightarrow> True | Some h \<Rightarrow> completion_beats g h")
    case True
    show ?thesis
      unfolding foldCompletionFields.simps(2) completion_beats_def [symmetric] if_P [OF True] IH(1) [OF True]
      by (rule prod_eqI; rule ext) (use True completion_not_beats_self [of g] in \<open>auto split: option.splits\<close>)
  next
    case False
    show ?thesis
      unfolding foldCompletionFields.simps(2) completion_beats_def [symmetric] if_not_P [OF False] IH(2) [OF False]
      by (rule prod_eqI; rule ext) (use False in \<open>auto split: option.splits\<close>)
  qed
qed simp

section \<open>The reducer implements the specification\<close>

lemma mergeCompletion_simps:
  "mergeCompletion base e st = base\<lparr>
     ms_status := of_terminal (resolveTerminalStatus (ms_status base) st),
     ms_completedAt := if shouldReplaceCompletion base e then Some (me_occurredAt e) else ms_completedAt base,
     ms_completionFields := Some (fst (foldCompletionFields (origin_of e) (me_fields e)
        (coalesce (ms_completionFields base) Map.empty) (ms_completionFieldOrigins base))),
     ms_completionFieldOrigins := snd (foldCompletionFields (origin_of e) (me_fields e)
        (coalesce (ms_completionFields base) Map.empty) (ms_completionFieldOrigins base)),
     ms_completionEventId := if shouldReplaceCompletion base e then Some (me_eventId e)
                             else ms_completionEventId base,
     ms_lastEventAt := Some (max_neginf (ms_lastEventAt base) (me_receivedAt e))\<rparr>"
  by (simp add: mergeCompletion_def Let_def origin_of_def split: prod.split)

lemma shouldReplaceStart_beats:
  "shouldReplaceStart s e \<longleftrightarrow> (case (ms_startEventId s, ms_startedAt s) of
     (Some i, Some t) \<Rightarrow> start_beats (origin_of e) \<lparr>cfo_occurredAt = t, cfo_eventId = i\<rparr> | _ \<Rightarrow> True)"
  by (auto simp: shouldReplaceStart_def start_beats_def Let_def split: option.split)

lemma shouldReplaceCompletion_beats:
  "shouldReplaceCompletion s e \<longleftrightarrow> (case (ms_completionEventId s, ms_completedAt s) of
     (Some i, Some t) \<Rightarrow> completion_beats (origin_of e) \<lparr>cfo_occurredAt = t, cfo_eventId = i\<rparr> | _ \<Rightarrow> True)"
  by (auto simp: shouldReplaceCompletion_def completion_beats_def origin_of_def split: option.split)

lemma view_mergeStart:
  assumes "wf_state s" "me_kind e = KindStart"
  shows "view (mergeStart s e) = spec_step e (view s)"
  using assms
  by (auto simp: view_def mergeStart_def spec_step_def shouldReplaceStart_beats wf_state_def Let_def
      origin_of_def split: option.splits)

lemma view_mergeCompletion:
  assumes "wf_state s" "me_kind e = KindCompletion" "me_status e = Some st"
  shows "view (mergeCompletion s e st) = spec_step e (view s)"
proof -
  have fields: "v_field (view (mergeCompletion s e st)) k = v_field (spec_step e (view s)) k" for k
  proof -
    have "ms_completionFieldOrigins s k = None \<longleftrightarrow> coalesce (ms_completionFields s) Map.empty k = None"
      using assms(1) unfolding wf_state_def by blast
    thus ?thesis using assms(2)
      by (auto simp: view_def mergeCompletion_simps spec_step_def foldCompletionFields_lookup
          split: option.splits)
  qed
  have comp: "v_completion (view (mergeCompletion s e st)) = v_completion (spec_step e (view s))"
    using assms
    by (auto simp: view_def mergeCompletion_simps spec_step_def shouldReplaceCompletion_beats
        wf_state_def origin_of_def split: option.splits)
  show ?thesis
    using assms(2,3) fields comp
    by (auto simp: view_def mergeCompletion_simps spec_step_def fun_eq_iff)
qed

lemma wf_mergeStart:
  assumes "wf_state s" "valid_merge_event e"
  shows "wf_state (mergeStart s e)"
  using assms
  by (auto simp: wf_state_def mergeStart_def valid_merge_event_def Let_def)

lemma wf_mergeCompletion:
  assumes wf: "wf_state s" and e: "valid_merge_event e"
  shows "wf_state (mergeCompletion s e st)"
proof -
  let ?os = "ms_completionFieldOrigins (mergeCompletion s e st)"
  have os: "?os k = (case map_of (me_fields e) k of None \<Rightarrow> ms_completionFieldOrigins s k
      | Some x \<Rightarrow> if (case ms_completionFieldOrigins s k of None \<Rightarrow> True
          | Some h \<Rightarrow> completion_beats (origin_of e) h)
        then Some (origin_of e) else ms_completionFieldOrigins s k)" for k
    by (simp add: mergeCompletion_simps foldCompletionFields_lookup)
  have dom: "?os k = None \<longleftrightarrow> coalesce (ms_completionFields (mergeCompletion s e st)) Map.empty k = None"
    for k
  proof -
    have "ms_completionFieldOrigins s k = None \<longleftrightarrow> coalesce (ms_completionFields s) Map.empty k = None"
      using wf unfolding wf_state_def by blast
    thus ?thesis
      by (auto simp: mergeCompletion_simps foldCompletionFields_lookup split: option.splits)
  qed
  have "ok_origin g" if "?os k = Some g" for g k
    using that wf valid_origin [OF e]
    by (auto simp: os wf_state_def intro: ranI split: option.splits if_splits)
  hence "\<forall>g \<in> ran ?os. ok_origin g" by (auto simp: ran_def)
  moreover have "dom ?os = dom (coalesce (ms_completionFields (mergeCompletion s e st)) Map.empty)"
    using dom by (auto simp: dom_def)
  ultimately show ?thesis
    using wf e unfolding wf_state_def
    by (auto simp: mergeCompletion_simps valid_merge_event_def shouldReplaceCompletion_beats
        split: option.splits)
qed

text \<open>One step: the reducer succeeds on a valid event, keeps the invariant and does what the
  specification says.\<close>

lemma mergeEvent_refines:
  assumes "pred_option wf_state cur" "valid_merge_event e"
  obtains s where "mergeEvent cur e = Inr s" "wf_state s"
    "view s = spec_step e (view (coalesce cur (emptyState (me_entityId e))))"
proof -
  let ?base = "coalesce cur (emptyState (me_entityId e))"
  have base: "wf_state ?base" using assms(1) by (cases cur) auto
  show thesis
  proof (cases "me_kind e")
    case KindStart
    thus thesis using that [of "mergeStart ?base e"] base assms(2)
      by (simp add: mergeEvent_def Let_def wf_mergeStart view_mergeStart)
  next
    case KindCompletion
    then obtain st where "me_status e = Some st" using assms(2) by (auto simp: valid_merge_event_def)
    thus thesis using that [of "mergeCompletion ?base e st"] KindCompletion base assms(2)
      by (simp add: mergeEvent_def Let_def wf_mergeCompletion view_mergeCompletion)
  qed
qed

lemma mergeEvents_refines:
  assumes "wf_state s" "\<forall>e \<in> set es. valid_merge_event e"
  shows "\<exists>s'. mergeEvents (Some s) es = Inr (Some s') \<and> wf_state s' \<and> view s' = fold spec_step es (view s)"
  using assms
proof (induction es arbitrary: s)
  case (Cons e es)
  obtain s1 where s1: "mergeEvent (Some s) e = Inr s1" "wf_state s1" "view s1 = spec_step e (view s)"
    using mergeEvent_refines [of "Some s" e] Cons.prems by auto
  thus ?case using Cons.IH [OF s1(2)] Cons.prems by auto
qed simp

text \<open>A fold from nothing is a fold from the empty state of the entity.\<close>

lemma mergeEvents_from_none:
  assumes "es \<noteq> []" "\<forall>e \<in> set es. me_entityId e = i"
  shows "mergeEvents None es = mergeEvents (Some (emptyState i)) es"
  using assms by (cases es) (auto simp: mergeEvent_def)

text \<open>A well-formed state is determined by its view.\<close>

lemma view_inj:
  assumes "wf_state s" "wf_state s'" "view s = view s'"
  shows "s = s'"
proof (rule EntityMergeState.equality)
  note eqs = arg_cong [OF assms(3), of v_entity] arg_cong [OF assms(3), of v_status]
    arg_cong [OF assms(3), of v_start] arg_cong [OF assms(3), of v_completion]
    arg_cong [OF assms(3), of v_last]
  have dom: "ms_completionFieldOrigins r k = None \<longleftrightarrow> coalesce (ms_completionFields r) Map.empty k = None"
    if "wf_state r" for r k using that unfolding wf_state_def by blast
  have key: "ms_completionFieldOrigins s k = ms_completionFieldOrigins s' k \<and>
      coalesce (ms_completionFields s) Map.empty k = coalesce (ms_completionFields s') Map.empty k" for k
    using fun_cong [OF arg_cong [OF assms(3), of v_field], of k] dom [OF assms(1), of k] dom [OF assms(2), of k]
    by (auto simp: view_def split: option.splits)
  show "ms_completionFieldOrigins s = ms_completionFieldOrigins s'" using key by auto
  have c: "coalesce (ms_completionFields s) Map.empty = coalesce (ms_completionFields s') Map.empty"
    using key by auto
  show comp: "ms_completedAt s = ms_completedAt s'" "ms_completionEventId s = ms_completionEventId s'"
    using eqs assms(1,2) by (auto simp: view_def wf_state_def split: option.splits)
  have "ms_completionFields s = None \<longleftrightarrow> ms_completionFields s' = None"
    using comp assms(1,2) unfolding wf_state_def by metis
  thus "ms_completionFields s = ms_completionFields s'"
    using c by (cases "ms_completionFields s"; cases "ms_completionFields s'") auto
  show "ms_startedAt s = ms_startedAt s'" "ms_startEventId s = ms_startEventId s'"
    "ms_startFields s = ms_startFields s'"
    using eqs(3) assms(1,2) by (auto simp: view_def wf_state_def split: option.splits)
qed (use assms(3) in \<open>simp_all add: view_def\<close>)

section \<open>Arrival order does not matter\<close>

lemma resolve_commute:
  "of_terminal (resolveTerminalStatus (of_terminal (resolveTerminalStatus st a)) b) =
   of_terminal (resolveTerminalStatus (of_terminal (resolveTerminalStatus st b)) a)"
  by (cases st; cases a; cases b) (simp_all add: resolveTerminalStatus_def of_terminal_def)

lemma max_neginf_commute:
  "max (max_neginf l a) b = max (max_neginf l b) a"
  by (cases l) (auto simp: max_def)

definition wf_view :: "merge_view \<Rightarrow> bool" where
  "wf_view v \<longleftrightarrow> pred_option (ok_origin \<circ> fst) (v_start v) \<and>
     pred_option (ok_origin \<circ> fst) (v_completion v) \<and>
     (\<forall>k. pred_option (ok_origin \<circ> fst) (v_field v k))"

lemma wf_view_step:
  assumes "valid_merge_event e" "wf_view v"
  shows "wf_view (spec_step e v)"
  using assms valid_origin [OF assms(1)]
  by (cases "me_kind e")
    (auto simp: wf_view_def spec_step_def start.pick_ok completion.pick_ok split: option.split)

lemma wf_view_of_state: "wf_state s \<Longrightarrow> wf_view (view s)"
  by (auto simp: wf_view_def view_def wf_state_def ok_origin_def intro: ranI split: option.splits)

lemma spec_step_commute:
  assumes "valid_merge_event a" "valid_merge_event b" "me_eventId a \<noteq> me_eventId b" "wf_view v"
  shows "spec_step a (spec_step b v) = spec_step b (spec_step a v)"
proof -
  note ok = valid_origin [OF assms(1)] valid_origin [OF assms(2)]
  have field: "pick completion_beats (origin_of a, x) (pick completion_beats (origin_of b, y) (v_field v k)) =
      pick completion_beats (origin_of b, y) (pick completion_beats (origin_of a, x) (v_field v k))" for x y k
    using ok assms(3,4) by (intro completion.pick_commute) (auto simp: wf_view_def)
  have comp: "pick completion_beats (origin_of a, ()) (pick completion_beats (origin_of b, ()) (v_completion v)) =
      pick completion_beats (origin_of b, ()) (pick completion_beats (origin_of a, ()) (v_completion v))"
    using ok assms(3,4) by (intro completion.pick_commute) (auto simp: wf_view_def)
  have st: "pick start_beats (origin_of a, x) (pick start_beats (origin_of b, y) (v_start v)) =
      pick start_beats (origin_of b, y) (pick start_beats (origin_of a, x) (v_start v))" for x y
    using ok assms(3,4) by (intro start.pick_commute) (auto simp: wf_view_def)
  show ?thesis
    by (cases "me_kind a"; cases "me_kind b"; intro merge_view.equality)
      (auto simp: spec_step_def st comp field resolve_commute fun_eq_iff
        max_neginf_commute [of _ "me_receivedAt b" "me_receivedAt a"] split: option.split)
qed

lemma fold_spec_step_perm:
  assumes "mset es = mset es'" "\<forall>e \<in> set es. valid_merge_event e" "distinct (map me_eventId es)" "wf_view v"
  shows "fold spec_step es v = fold spec_step es' v"
proof (rule fold_permuted_eq [where P = wf_view])
  fix a b v
  assume "a \<in> set es" "b \<in> set es" "wf_view v"
  thus "spec_step a (spec_step b v) = spec_step b (spec_step a v)"
    using assms(2,3) spec_step_commute [of a b v]
    by (cases "a = b") (auto simp: distinct_map inj_on_def)
qed (use assms wf_view_step in auto)

lemma mergeEvents_valid:
  assumes "pred_option wf_state cur" "es \<noteq> []" "\<forall>e \<in> set es. valid_merge_event e \<and> me_entityId e = i"
  obtains s where "mergeEvents cur es = Inr (Some s)" "wf_state s"
    "view s = fold spec_step es (view (coalesce cur (emptyState i)))"
proof (cases cur)
  case None
  thus ?thesis
    using that mergeEvents_from_none [of es i] mergeEvents_refines [of "emptyState i" es] assms by auto
next
  case (Some c)
  thus ?thesis using that mergeEvents_refines [of c es] assms by auto
qed

lemma order_independent:
  assumes "pred_option wf_state cur" "mset es = mset es'"
    "\<forall>e \<in> set es. valid_merge_event e \<and> me_entityId e = i" "distinct (map me_eventId es)"
  shows "mergeEvents cur es = mergeEvents cur es'"
proof (cases "es = []")
  case False
  let ?v = "view (coalesce cur (emptyState i))"
  have ne: "es' \<noteq> []" using False assms(2) by auto
  have mem: "\<forall>e \<in> set es'. valid_merge_event e \<and> me_entityId e = i"
    using assms(3) mset_eq_setD [OF assms(2)] by simp
  obtain s where s: "mergeEvents cur es = Inr (Some s)" "wf_state s" "view s = fold spec_step es ?v"
    using mergeEvents_valid [OF assms(1) False assms(3)] .
  obtain s' where s': "mergeEvents cur es' = Inr (Some s')" "wf_state s'" "view s' = fold spec_step es' ?v"
    using mergeEvents_valid [OF assms(1) ne mem] .
  have "wf_view ?v" using assms(1) by (cases cur) (auto intro: wf_view_of_state)
  hence "fold spec_step es ?v = fold spec_step es' ?v"
    using assms by (intro fold_spec_step_perm) auto
  thus ?thesis using s s' view_inj by simp
qed (use assms(2) in simp)

text \<open>C1. The merged state of an entity is a function of the set of its events: folding the same
  events, with distinct event ids, in any other order, onto a state the reducer produced or onto
  nothing, gives the same state.  This is the promise of ADR 0007 for status, start fields,
  completion fields, per-key provenance and liveness alike.\<close>

theorem mergeEvents_order_independent:
  assumes "pred_option wf_state cur" "mset es = mset es'"
    "\<forall>e \<in> set es. valid_merge_event e \<and> me_entityId e = i" "distinct (map me_eventId es)"
  shows "mergeEvents cur es = mergeEvents cur es'"
  using assms by (rule order_independent)

section \<open>Who owns what\<close>

definition is_start :: "MergeEvent \<Rightarrow> bool" where
  "is_start e \<longleftrightarrow> me_kind e = KindStart"

lemma not_is_start: "\<not> is_start e \<longleftrightarrow> me_kind e = KindCompletion"
  by (cases "me_kind e") (simp_all add: is_start_def)

lemma fold_spec_start:
  "v_start (fold spec_step es v) =
     fold (pick start_beats) (map (\<lambda>e. (origin_of e, map_of (me_fields e))) (filter is_start es)) (v_start v)"
  by (induction es arbitrary: v) (auto simp: spec_step_def is_start_def split: MergeEventKind.split)

lemma fold_spec_completion:
  "v_completion (fold spec_step es v) =
     fold (pick completion_beats) (map (\<lambda>e. (origin_of e, ())) (filter (Not \<circ> is_start) es)) (v_completion v)"
  by (induction es arbitrary: v) (auto simp: spec_step_def is_start_def split: MergeEventKind.split)

definition writes_key :: "jstr \<Rightarrow> MergeEvent \<Rightarrow> bool" where
  "writes_key k e \<longleftrightarrow> me_kind e = KindCompletion \<and> map_of (me_fields e) k \<noteq> None"

lemma fold_spec_field:
  "v_field (fold spec_step es v) k =
     fold (pick completion_beats) (map (\<lambda>e. (origin_of e, the (map_of (me_fields e) k))) (filter (writes_key k) es))
       (v_field v k)"
  by (induction es arbitrary: v)
    (auto simp: spec_step_def writes_key_def split: MergeEventKind.split option.split)

lemma fold_spec_status:
  "v_status (fold spec_step es v) =
     (if v_status v = FAILED \<or> (\<exists>e \<in> set es. \<not> is_start e \<and> the (me_status e) = TerminalFailed) then FAILED
      else if v_status v = COMPLETED \<or> (\<exists>e \<in> set es. \<not> is_start e) then COMPLETED else RUNNING)"
proof (induction es arbitrary: v)
  case Nil
  show ?case by (cases "v_status v") simp_all
next
  case (Cons e es)
  show ?case
    unfolding fold_Cons comp_def Cons.IH
    by (cases "v_status v"; cases "me_kind e"; cases "the (me_status e)")
      (auto simp: spec_step_def is_start_def resolveTerminalStatus_def of_terminal_def)
qed

lemma fold_spec_last:
  "v_last (fold spec_step es v) = (if es = [] then v_last v
     else Some (max_neginf (v_last v) (Max (me_receivedAt ` set es))))"
proof (induction es arbitrary: v)
  case (Cons e es)
  have "v_last (spec_step e v) = Some (max_neginf (v_last v) (me_receivedAt e))"
    by (simp add: spec_step_def split: MergeEventKind.split)
  thus ?case using Cons.IH [of "spec_step e v"]
    by (cases "v_last v"; cases "es = []") (auto simp: max.assoc)
qed simp

lemma ex_completion_iff: "(\<exists>e \<in> set es. \<not> is_start e) \<longleftrightarrow> (\<exists>e \<in> set es. me_kind e = KindCompletion)"
  by (simp add: not_is_start)

lemma view_emptyState [simp]:
  "v_start (view (emptyState i)) = None" "v_completion (view (emptyState i)) = None"
  "v_field (view (emptyState i)) k = None" "v_status (view (emptyState i)) = RUNNING"
  "v_last (view (emptyState i)) = None"
  by (simp_all add: view_def emptyState_def)

lemma view_selectors:
  "v_status (view s) = ms_status s" "v_last (view s) = ms_lastEventAt s"
  by (simp_all add: view_def)

text \<open>C6. The status of an entity after any valid events: FAILED if some completion said so, else
  COMPLETED if there was a completion, else RUNNING; and its liveness clock is the latest server
  clock of any event, late and losing ones included.\<close>

theorem merged_status_and_liveness:
  assumes "es \<noteq> []" "\<forall>e \<in> set es. valid_merge_event e \<and> me_entityId e = i"
  shows "\<exists>s. mergeEvents None es = Inr (Some s) \<and>
     ms_status s =
       (if \<exists>e \<in> set es. me_kind e = KindCompletion \<and> me_status e = Some TerminalFailed then FAILED
        else if \<exists>e \<in> set es. me_kind e = KindCompletion then COMPLETED else RUNNING) \<and>
     ms_lastEventAt s = Some (Max (me_receivedAt ` set es))"
proof -
  obtain s where s: "mergeEvents None es = Inr (Some s)" "view s = fold spec_step es (view (emptyState i))"
    using mergeEvents_valid [of None es i] assms by auto
  have failed: "(\<exists>e \<in> set es. \<not> is_start e \<and> the (me_status e) = TerminalFailed) \<longleftrightarrow>
      (\<exists>e \<in> set es. me_kind e = KindCompletion \<and> me_status e = Some TerminalFailed)"
    using assms(2) by (force simp: not_is_start valid_merge_event_def)
  have "ms_status s = v_status (fold spec_step es (view (emptyState i)))"
    "ms_lastEventAt s = v_last (fold spec_step es (view (emptyState i)))"
    by (simp_all add: s(2) [symmetric] view_selectors)
  thus ?thesis using s(1) assms(1)
    unfolding fold_spec_status fold_spec_last failed ex_completion_iff view_emptyState by simp
qed

text \<open>Start fields are taken whole from the earliest start event: some start event owns
  \<open>startedAt\<close>, \<open>startEventId\<close> and \<open>startFields\<close>, and every other start event is later, or
  simultaneous with a greater event id.\<close>

theorem merged_start_owner:
  assumes "\<forall>e \<in> set es. valid_merge_event e \<and> me_entityId e = i" "distinct (map me_eventId es)"
    "\<exists>e \<in> set es. me_kind e = KindStart"
  shows "\<exists>s. \<exists>w \<in> set es. mergeEvents None es = Inr (Some s) \<and> me_kind w = KindStart \<and>
     ms_startedAt s = Some (me_occurredAt w) \<and> ms_startEventId s = Some (me_eventId w) \<and>
     ms_startFields s = Some (map_of (me_fields w)) \<and>
     (\<forall>e \<in> set es. me_kind e = KindStart \<and> e \<noteq> w \<longrightarrow>
        the (date_parse (me_occurredAt w)) < the (date_parse (me_occurredAt e)) \<or>
        date_parse (me_occurredAt w) = date_parse (me_occurredAt e) \<and> me_eventId w < me_eventId e)"
proof -
  have ne: "es \<noteq> []" using assms(3) by auto
  obtain s where s: "mergeEvents None es = Inr (Some s)" "view s = fold spec_step es (view (emptyState i))"
    using mergeEvents_valid [of None es i] assms(1) ne by auto
  obtain w where w: "w \<in> set es" "is_start w" "\<forall>e \<in> set es. is_start e \<and> e \<noteq> w \<longrightarrow>
      start_beats (origin_of w) (origin_of e)"
    "fold (pick start_beats) (map (\<lambda>e. (origin_of e, map_of (me_fields e))) (filter is_start es)) None =
      Some (origin_of w, map_of (me_fields w))"
    using start.fold_pick_owner [of es is_start origin_of "\<lambda>e. map_of (me_fields e)"] assms valid_origin
    by (auto simp: is_start_def [symmetric] comp_def)
  have "v_start (view s) = Some (origin_of w, map_of (me_fields w))"
    by (simp add: s(2) fold_spec_start w(4))
  hence own: "ms_startedAt s = Some (me_occurredAt w)" "ms_startEventId s = Some (me_eventId w)"
    "ms_startFields s = Some (map_of (me_fields w))"
    by (auto simp: view_def origin_of_def split: option.splits)
  have "the (date_parse (me_occurredAt w)) < the (date_parse (me_occurredAt e)) \<or>
      date_parse (me_occurredAt w) = date_parse (me_occurredAt e) \<and> me_eventId w < me_eventId e"
    if e: "e \<in> set es" "me_kind e = KindStart" "e \<noteq> w" for e
  proof -
    have "start_beats (origin_of w) (origin_of e)" using w(3) e by (simp add: is_start_def)
    moreover obtain x y where "date_parse (me_occurredAt w) = Some x" "date_parse (me_occurredAt e) = Some y"
      using assms(1) e(1) w(1) unfolding valid_merge_event_def by blast
    ultimately show ?thesis using start_beats_iff [of "origin_of w" x "origin_of e" y] by auto
  qed
  thus ?thesis using s(1) own w by (auto simp: is_start_def)
qed

text \<open>Completion fields are resolved key by key: after any valid events, a key is present
  exactly when some completion event carried it, and then its value and its recorded origin are
  those of the latest completion event that carried it (greatest event id on a tie).\<close>

theorem merged_completion_field_owner:
  assumes "es \<noteq> []" "\<forall>e \<in> set es. valid_merge_event e \<and> me_entityId e = i" "distinct (map me_eventId es)"
  shows "\<exists>s. mergeEvents None es = Inr (Some s) \<and>
     (if \<exists>e \<in> set es. writes_key k e then
        \<exists>w \<in> set es. writes_key k w \<and>
          coalesce (ms_completionFields s) Map.empty k = map_of (me_fields w) k \<and>
          ms_completionFieldOrigins s k = Some (origin_of w) \<and>
          (\<forall>e \<in> set es. writes_key k e \<and> e \<noteq> w \<longrightarrow>
             the (date_parse (me_occurredAt e)) < the (date_parse (me_occurredAt w)) \<or>
             date_parse (me_occurredAt e) = date_parse (me_occurredAt w) \<and> me_eventId e < me_eventId w)
      else coalesce (ms_completionFields s) Map.empty k = None \<and> ms_completionFieldOrigins s k = None)"
proof -
  let ?val = "\<lambda>e. the (map_of (me_fields e) k)"
  obtain s where s: "mergeEvents None es = Inr (Some s)" "wf_state s"
    "view s = fold spec_step es (view (emptyState i))"
    using mergeEvents_valid [of None es i] assms by auto
  have dom: "ms_completionFieldOrigins s k = None \<longleftrightarrow> coalesce (ms_completionFields s) Map.empty k = None"
    using s(2) unfolding wf_state_def by blast
  have vf: "v_field (view s) k = fold (pick completion_beats)
      (map (\<lambda>e. (origin_of e, ?val e)) (filter (writes_key k) es)) None"
    by (simp add: s(3) fold_spec_field)
  show ?thesis
  proof (cases "\<exists>e \<in> set es. writes_key k e")
    case True
    obtain w where w: "w \<in> set es" "writes_key k w" "v_field (view s) k = Some (origin_of w, ?val w)"
      "\<forall>e \<in> set es. writes_key k e \<and> e \<noteq> w \<longrightarrow> completion_beats (origin_of w) (origin_of e)"
      using completion.fold_pick_owner [of es "writes_key k" origin_of ?val] True assms valid_origin
      by (auto simp: comp_def vf)
    have "ms_completionFieldOrigins s k = Some (origin_of w)"
      "coalesce (ms_completionFields s) Map.empty k = map_of (me_fields w) k"
      using w(2,3) by (auto simp: view_def writes_key_def split: option.splits)
    moreover have "the (date_parse (me_occurredAt e)) < the (date_parse (me_occurredAt w)) \<or>
        date_parse (me_occurredAt e) = date_parse (me_occurredAt w) \<and> me_eventId e < me_eventId w"
      if e: "e \<in> set es" "writes_key k e \<and> e \<noteq> w" for e
    proof -
      have "completion_beats (origin_of w) (origin_of e)" using w(4) e by blast
      moreover obtain x y where "date_parse (me_occurredAt w) = Some x" "date_parse (me_occurredAt e) = Some y"
        using assms(2) e(1) w(1) unfolding valid_merge_event_def by blast
      ultimately show ?thesis using completion_beats_iff [of "origin_of w" x "origin_of e" y] by auto
    qed
    ultimately show ?thesis using s(1) w(1,2) True by (intro exI [of _ s]) auto
  next
    case False
    hence "filter (writes_key k) es = []" by (auto simp: filter_empty_conv)
    hence "v_field (view s) k = None" by (simp add: vf)
    thus ?thesis using False s(1) dom by (auto simp: view_def split: option.splits)
  qed
qed

section \<open>Late events\<close>

text \<open>C7. A late event is never rejected and never loses anything: folding any event into any state
  keeps a terminal status terminal and FAILED failed, keeps every completion key, and moves the
  liveness clock only forward.\<close>

theorem late_event_never_reopens:
  assumes "mergeEvent (Some s) e = Inr s'"
  shows "ms_entityId s' = ms_entityId s \<and>
    (ms_status s \<noteq> RUNNING \<longrightarrow> ms_status s' \<noteq> RUNNING) \<and>
    (ms_status s = FAILED \<longrightarrow> ms_status s' = FAILED) \<and>
    dom (coalesce (ms_completionFields s) Map.empty) \<subseteq> dom (coalesce (ms_completionFields s') Map.empty) \<and>
    (\<exists>t. ms_lastEventAt s' = Some t \<and> me_receivedAt e \<le> t \<and> pred_option (\<lambda>u. u \<le> t) (ms_lastEventAt s))"
proof (intro conjI)
  consider "me_kind e = KindStart" "s' = mergeStart s e"
    | st where "me_kind e = KindCompletion" "s' = mergeCompletion s e st"
    using assms
    by (cases "me_kind e"; cases "me_status e") (auto simp: mergeEvent_def Let_def)
  note cs = this
  show "ms_entityId s' = ms_entityId s"
    by (rule cs) (simp_all add: mergeStart_def mergeCompletion_simps Let_def)
  show "ms_status s \<noteq> RUNNING \<longrightarrow> ms_status s' \<noteq> RUNNING" "ms_status s = FAILED \<longrightarrow> ms_status s' = FAILED"
    by (rule cs; simp add: mergeStart_def mergeCompletion_simps Let_def of_terminal_def
        resolveTerminalStatus_def split: MergeTerminalStatus.split)+
  show "dom (coalesce (ms_completionFields s) Map.empty) \<subseteq> dom (coalesce (ms_completionFields s') Map.empty)"
    by (rule cs) (auto simp: mergeStart_def mergeCompletion_simps foldCompletionFields_lookup Let_def
        split: option.splits)
  show "\<exists>t. ms_lastEventAt s' = Some t \<and> me_receivedAt e \<le> t \<and> pred_option (\<lambda>u. u \<le> t) (ms_lastEventAt s)"
    by (rule cs; cases "ms_lastEventAt s") (auto simp: mergeStart_def mergeCompletion_simps Let_def)
qed

section \<open>Witnesses\<close>

text \<open>A start event, a completion that reports success, and a failure that occurred at the same
  instant (spelled with another offset) and was received last.\<close>

definition ev_start :: MergeEvent where
  "ev_start = \<lparr>me_eventId = js ''e1'', me_entityId = js ''r'', me_occurredAt = js ''2024-05-01T10:00:00Z'',
     me_receivedAt = 100, me_kind = KindStart, me_status = None,
     me_fields = [(js ''workflowName'', JStr (js ''w''))]\<rparr>"

definition ev_done :: MergeEvent where
  "ev_done = \<lparr>me_eventId = js ''e2'', me_entityId = js ''r'', me_occurredAt = js ''2024-05-01T10:00:05Z'',
     me_receivedAt = 110, me_kind = KindCompletion, me_status = Some TerminalCompleted,
     me_fields = [(js ''metadata'', JNum 1)]\<rparr>"

definition ev_failed :: MergeEvent where
  "ev_failed = \<lparr>me_eventId = js ''e3'', me_entityId = js ''r'', me_occurredAt = js ''2024-05-01T12:00:05+02:00'',
     me_receivedAt = 105, me_kind = KindCompletion, me_status = Some TerminalFailed,
     me_fields = [(js ''metadata'', JNum 2)]\<rparr>"

lemmas sample_defs = ev_start_def ev_done_def ev_failed_def

lemma sample_valid: "valid_merge_event ev_start" "valid_merge_event ev_done" "valid_merge_event ev_failed"
  by code_simp+

lemma sample_simps [simp]:
  "me_eventId ev_start = js ''e1''" "me_eventId ev_done = js ''e2''" "me_eventId ev_failed = js ''e3''"
  "me_entityId ev_start = js ''r''" "me_entityId ev_done = js ''r''" "me_entityId ev_failed = js ''r''"
  "me_kind ev_start = KindStart" "me_kind ev_done = KindCompletion" "me_kind ev_failed = KindCompletion"
  "me_status ev_done = Some TerminalCompleted" "me_status ev_failed = Some TerminalFailed"
  "me_receivedAt ev_start = 100" "me_receivedAt ev_done = 110" "me_receivedAt ev_failed = 105"
  by (simp_all add: sample_defs)

theorem mergeEvents_order_independent_witness:
  "mergeEvents None [ev_start, ev_done, ev_failed] = mergeEvents None [ev_failed, ev_start, ev_done]"
  by (rule mergeEvents_order_independent [where i = "js ''r''"]) (simp_all add: sample_valid)

theorem merged_status_and_liveness_witness:
  "\<exists>s. mergeEvents None [ev_failed, ev_start, ev_done] = Inr (Some s) \<and> ms_status s = FAILED \<and>
     ms_lastEventAt s = Some 110"
  using merged_status_and_liveness [of "[ev_failed, ev_start, ev_done]" "js ''r''"]
  by (simp add: sample_valid)

theorem merged_start_owner_witness:
  "\<exists>s. \<exists>w \<in> {ev_done, ev_start}. mergeEvents None [ev_done, ev_start] = Inr (Some s) \<and>
     me_kind w = KindStart \<and> ms_startEventId s = Some (me_eventId w)"
  using merged_start_owner [of "[ev_done, ev_start]" "js ''r''"] by (auto simp: sample_valid)

theorem merged_completion_field_owner_witness:
  "\<exists>s. mergeEvents None [ev_failed, ev_done] = Inr (Some s) \<and>
     (\<exists>w \<in> {ev_failed, ev_done}. ms_completionFieldOrigins s (js ''metadata'') = Some (origin_of w))"
proof -
  have "writes_key (js ''metadata'') ev_failed" by (simp add: writes_key_def sample_defs)
  thus ?thesis
    using merged_completion_field_owner [of "[ev_failed, ev_done]" "js ''r''" "js ''metadata''"]
    by (auto simp: sample_valid)
qed

theorem late_event_never_reopens_witness:
  "\<exists>s s'. mergeEvents None [ev_failed] = Inr (Some s) \<and> mergeEvent (Some s) ev_start = Inr s' \<and>
     ms_status s = FAILED \<and> ms_status s' = FAILED"
proof -
  let ?s = "mergeCompletion (emptyState (js ''r'')) ev_failed TerminalFailed"
  have s: "mergeEvents None [ev_failed] = Inr (Some ?s)" "mergeEvent (Some ?s) ev_start = Inr (mergeStart ?s ev_start)"
    "ms_status ?s = FAILED"
    by (simp_all add: mergeEvent_def mergeCompletion_simps of_terminal_def resolveTerminalStatus_def emptyState_def)
  thus ?thesis using late_event_never_reopens [OF s(2)] by blast
qed

end
