(* ===== verification/Event_Mapping.thy ===== *)
theory Event_Mapping
  imports Wire_Sanitize Merge_Rules
begin

text \<open>
  \<^verbatim>\<open>platform/api/src/telemetry/event-mapping.ts\<close>: which table a wire type lands in, which types
  the merge folds, and how such an event becomes a \<^typ>\<open>MergeEvent\<close>.  The point of the theory
  is that an event which came through the wire contract always gives the reducer something it can
  fold.
\<close>

datatype EntityKind = KRun | KStep | KDecision | KModelCall | KToolCall | KError

text \<open>\<^const>\<open>None\<close> is the \<^verbatim>\<open>null\<close> of a type without a table.\<close>

definition ENTITY_KIND_BY_EVENT_TYPE :: "TelemetryEventType \<Rightarrow> EntityKind option" where
  "ENTITY_KIND_BY_EVENT_TYPE t = (case t of
     RunStarted \<Rightarrow> Some KRun | RunCompleted \<Rightarrow> Some KRun
   | StepStarted \<Rightarrow> Some KStep | StepCompleted \<Rightarrow> Some KStep
   | DecisionRecorded \<Rightarrow> Some KDecision | DecisionOutcomeAttested \<Rightarrow> Some KDecision
   | ModelCallRecorded \<Rightarrow> Some KModelCall | ToolCallRecorded \<Rightarrow> Some KToolCall
   | ErrorRecorded \<Rightarrow> Some KError)"

definition entityKindOf :: "TelemetryEventType \<Rightarrow> EntityKind option" where
  "entityKindOf t = ENTITY_KIND_BY_EVENT_TYPE t"

definition mergeEntityKindOf :: "TelemetryEvent \<Rightarrow> EntityKind" where
  "mergeEntityKindOf event = the (ENTITY_KIND_BY_EVENT_TYPE (te_type event))"

definition isMergeableEvent :: "TelemetryEvent \<Rightarrow> bool" where
  "isMergeableEvent event \<longleftrightarrow>
     ENTITY_KIND_BY_EVENT_TYPE (te_type event) = Some KRun \<or>
     ENTITY_KIND_BY_EVENT_TYPE (te_type event) = Some KStep"

definition terminal_status_of :: "json option \<Rightarrow> MergeTerminalStatus option" where
  "terminal_status_of v =
     (if v = Some (JStr (js ''COMPLETED'')) then Some TerminalCompleted
      else if v = Some (JStr (js ''FAILED'')) then Some TerminalFailed else None)"

definition object_entries :: "json \<Rightarrow> (jstr \<times> json) list" where
  "object_entries v = (case v of JObj kvs \<Rightarrow> kvs | _ \<Rightarrow> [])"

text \<open>The switch has no arm for the other five types; \<^const>\<open>None\<close> is falling through it.\<close>

definition toMergeEvent :: "TelemetryEvent \<Rightarrow> int \<Rightarrow> MergeEvent option" where
  "toMergeEvent event receivedAt =
     (let base = \<lparr>me_eventId = te_eventId event, me_entityId = te_entityId event,
            me_occurredAt = te_occurredAt event, me_receivedAt = receivedAt, me_kind = KindStart,
            me_status = None, me_fields = object_entries (te_payload event)\<rparr>;
          completion = base\<lparr>me_kind := KindCompletion,
            me_status := terminal_status_of (jget (te_payload event) (js ''status'')),
            me_fields := filter (\<lambda>(k, _). k \<noteq> js ''status'') (object_entries (te_payload event))\<rparr>
      in case te_type event of
           RunStarted \<Rightarrow> Some base
         | StepStarted \<Rightarrow> Some base
         | RunCompleted \<Rightarrow> Some completion
         | StepCompleted \<Rightarrow> Some completion
         | _ \<Rightarrow> None)"

section \<open>What the wire contract guarantees the reducer\<close>

lemma mergeable_types:
  "isMergeableEvent event \<longleftrightarrow> te_type event \<in> {RunStarted, RunCompleted, StepStarted, StepCompleted}"
  by (cases "te_type event") (auto simp: isMergeableEvent_def ENTITY_KIND_BY_EVENT_TYPE_def)

lemma entityKindOf_total: "entityKindOf t \<noteq> None"
  by (cases t) (auto simp: entityKindOf_def ENTITY_KIND_BY_EVENT_TYPE_def)

lemma toMergeEvent_ids:
  assumes "toMergeEvent event now = Some m"
  shows "me_eventId m = te_eventId event" "me_entityId m = te_entityId event"
    "me_occurredAt m = te_occurredAt event" "me_receivedAt m = now"
  using assms by (auto simp: toMergeEvent_def Let_def split: TelemetryEventType.splits)

text \<open>What a parsed event of the wire is known to satisfy.\<close>

definition wire_event :: "zod_parser \<Rightarrow> TelemetryEvent \<Rightarrow> bool" where
  "wire_event safeParse event \<longleftrightarrow> date_parse (te_occurredAt event) \<noteq> None \<and>
     (\<exists>p. safeParse (TELEMETRY_PAYLOAD_SCHEMAS (te_type event)) (Some p) = Inr (te_payload event))"

lemma parsed_is_wire_event:
  assumes "zod_laws sp" "parseTelemetryEvent sp input = ParseOk ev"
  shows "wire_event sp ev"
proof -
  obtain kvs env where input: "input = JObj kvs" and env: "sp TelemetryEventEnvelopeSchema (Some input) = Inr env"
    and pl: "sp (TELEMETRY_PAYLOAD_SCHEMAS (te_type ev)) (jget env (js ''payload'')) = Inr (te_payload ev)"
    and oc: "te_occurredAt ev = str_field env (js ''occurredAt'')"
    using parse_okD [OF assms(2)] .
  note e = env [unfolded input]
  have mem: "(js ''payload'', ZUnknown) \<in> set envelope_fields" by (simp add: envelope_fields_def)
  obtain p where "jget env (js ''payload'') = Some p"
    using envelope_field [OF assms(1) e mem] by blast
  thus ?thesis
    using pl oc envelope_occurredAt(2) [OF assms(1) e] by (auto simp: wire_event_def)
qed

definition metadata_only :: "MergeEvent \<Rightarrow> bool" where
  "metadata_only e \<longleftrightarrow> (me_kind e = KindCompletion \<longrightarrow> fst ` set (me_fields e) \<subseteq> {js ''metadata''})"

lemma completed_payload:
  assumes "zod_laws sp" "sp (TELEMETRY_PAYLOAD_SCHEMAS t) (Some p) = Inr out"
    "t = RunCompleted \<or> t = StepCompleted"
  shows "terminal_status_of (jget out (js ''status'')) \<noteq> None"
    "fst ` set (object_entries out) \<subseteq> {js ''status'', js ''metadata''}"
proof -
  let ?fs = "[(js ''status'', TerminalStatusSchema), (js ''metadata'', ZNullish MetadataSchema)]"
  have sp: "sp (ZObject ?fs) (Some p) = Inr out"
    using assms(2,3) by (auto simp: TELEMETRY_PAYLOAD_SCHEMAS_def RunCompletedPayloadSchema_def StepCompletedPayloadSchema_def)
  from zod_object_field [OF assms(1) this, of "js ''status''" TerminalStatusSchema]
  obtain x y where "sp TerminalStatusSchema (Some x) = Inr y" "jget out (js ''status'') = Some y"
    by (auto simp: TerminalStatusSchema_def)
  thus "terminal_status_of (jget out (js ''status'')) \<noteq> None"
    by (auto simp: TerminalStatusSchema_def TERMINAL_STATUSES_def zod_enum [OF assms(1)] terminal_status_of_def)
  show "fst ` set (object_entries out) \<subseteq> {js ''status'', js ''metadata''}"
    using zod_object_keys [OF assms(1) sp] by (auto simp: object_entries_def)
qed

lemma toMergeEvent_valid:
  assumes "zod_laws sp" "wire_event sp event" "isMergeableEvent event"
  shows "\<exists>m. toMergeEvent event now = Some m \<and> valid_merge_event m \<and> metadata_only m"
proof -
  obtain p where p: "date_parse (te_occurredAt event) \<noteq> None"
    "sp (TELEMETRY_PAYLOAD_SCHEMAS (te_type event)) (Some p) = Inr (te_payload event)"
    using assms(2) by (auto simp: wire_event_def)
  thus ?thesis using assms(3) completed_payload [OF assms(1) p(2)]
    by (force simp: mergeable_types toMergeEvent_def valid_merge_event_def metadata_only_def Let_def)
qed

text \<open>Every event that parses and belongs to a Run or Step is folded without error: the
  mapping gives a merge event for it with the same ids and instant, and the reducer applied to it
  and to any state it produced before returns a state.\<close>

theorem parsed_event_always_folds:
  assumes "zod_laws safeParse" "parseTelemetryEvent safeParse input = ParseOk ev" "isMergeableEvent ev"
    "pred_option wf_state current"
  shows "\<exists>m s. toMergeEvent ev receivedAt = Some m \<and> me_eventId m = te_eventId ev \<and>
     me_entityId m = te_entityId ev \<and> mergeEvent current m = Inr s \<and> wf_state s"
proof -
  obtain m where m: "toMergeEvent ev receivedAt = Some m" "valid_merge_event m"
    using toMergeEvent_valid [OF assms(1) parsed_is_wire_event [OF assms(1,2)] assms(3)] by blast
  obtain s where "mergeEvent current m = Inr s" "wf_state s"
    using mergeEvent_refines [OF assms(4) m(2)] .
  thus ?thesis using m toMergeEvent_ids [OF m(1)] by blast
qed

theorem parsed_event_always_folds_witness:
  "\<exists>m s. toMergeEvent parsed_run_started 7 = Some m \<and> mergeEvent None m = Inr s \<and> wf_state s"
proof -
  have "isMergeableEvent parsed_run_started" by (simp add: mergeable_types parsed_run_started_def)
  thus ?thesis
    using parsed_event_always_folds [OF zod_laws_ref parse_run_started, of None 7] by auto
qed

end
