(* ===== verification/Telemetry_Store.thy ===== *)
theory Telemetry_Store
  imports Event_Mapping
begin

text \<open>
  \<^verbatim>\<open>platform/api/src/telemetry/telemetry.repository.ts\<close> over the tables of
  \<^verbatim>\<open>schema.prisma\<close>.  A table is a finite map from its primary key; \<^verbatim>\<open>findUnique\<close>, \<^verbatim>\<open>upsert\<close>,
  \<^verbatim>\<open>updateMany\<close> and \<^verbatim>\<open>createMany(skipDuplicates)\<close> are what the client documents.  A transaction
  is one function from store to store or error, so a failure leaves the store as it was; the
  advisory lock makes transactions on one entity run one after the other, which is the order of
  the calls here.  Columns with a database default that no code reads (\<^verbatim>\<open>createdAt\<close>) are left out.
\<close>

section \<open>Tables\<close>

type_synonym origins = "jstr \<rightharpoonup> CompletionFieldOrigin"

text \<open>The \<^verbatim>\<open>columns\<close> object of \<^verbatim>\<open>saveRunWith\<close>.\<close>

record RunColumns =
  rc_status :: MergeEntityStatus
  rc_startedAt :: "int option"
  rc_completedAt :: "int option"
  rc_lastEventAt :: int
  rc_startEventId :: "jstr option"
  rc_completionEventId :: "jstr option"
  rc_workflowName :: json
  rc_workflowVersion :: json
  rc_metadata :: json
  rc_completionFieldOrigins :: "origins option"

record RunRow =
  rr_id :: jstr
  rr_traceId :: jstr
  rr_receivedAt :: int
  rr_columns :: RunColumns
  rr_droppedTelemetryEventCount :: "int option"

record StepColumns =
  sc_status :: MergeEntityStatus
  sc_startedAt :: "int option"
  sc_completedAt :: "int option"
  sc_startEventId :: "jstr option"
  sc_completionEventId :: "jstr option"
  sc_name :: json
  sc_agentName :: json
  sc_type :: json
  sc_parentStepId :: json
  sc_metadata :: json
  sc_completionFieldOrigins :: "origins option"

record StepRow =
  sr_id :: jstr
  sr_runId :: jstr
  sr_receivedAt :: int
  sr_columns :: StepColumns

record TelemetryStore =
  ts_runs :: "jstr \<rightharpoonup> RunRow"
  ts_steps :: "jstr \<rightharpoonup> StepRow"
  ts_ingested :: "jstr \<times> jstr \<rightharpoonup> int"
  ts_dropDeliveries :: "jstr \<times> jstr \<rightharpoonup> int"

text \<open>A thrown value, as the error classifier reads it.\<close>

record JsError =
  je_isError :: bool
  je_name :: jstr
  je_code :: "json option"
  je_meta :: "json option"

datatype PersistError =
    DriverError JsError
  | FoldRaised merge_error
  | InvalidDate
  | NotMergeable

section \<open>State and row\<close>

definition METADATA :: jstr where "METADATA = js ''metadata''"

definition toOrigins :: "origins option \<Rightarrow> origins" where
  "toOrigins v = coalesce v Map.empty"

definition hasCompletionMetadata :: "origins \<Rightarrow> bool" where
  "hasCompletionMetadata os \<longleftrightarrow> os METADATA \<noteq> None"

text \<open>\<^verbatim>\<open>fields?.k ?? null\<close> and \<^verbatim>\<open>toJsonInput(fields?.k)\<close>.\<close>

definition field_or_null :: "(jstr \<rightharpoonup> json) option \<Rightarrow> jstr \<Rightarrow> json" where
  "field_or_null m k = (case m of None \<Rightarrow> JNull | Some f \<Rightarrow> coalesce (f k) JNull)"

text \<open>\<^verbatim>\<open>new Date(iso)\<close>; storing an invalid date raises.\<close>

definition toDate :: "jstr option \<Rightarrow> int option option" where
  "toDate stamp = (case stamp of None \<Rightarrow> Some None
     | Some s \<Rightarrow> (case date_parse s of None \<Rightarrow> None | Some t \<Rightarrow> Some (Some t)))"

definition metadataColumn :: "EntityMergeState \<Rightarrow> json" where
  "metadataColumn state =
     (if hasCompletionMetadata (ms_completionFieldOrigins state)
      then field_or_null (ms_completionFields state) METADATA
      else field_or_null (ms_startFields state) METADATA)"

definition runColumns :: "EntityMergeState \<Rightarrow> RunColumns option" where
  "runColumns state =
     (case (toDate (ms_startedAt state), toDate (ms_completedAt state), ms_lastEventAt state) of
        (Some sa, Some ca, Some le) \<Rightarrow> Some \<lparr>
          rc_status = ms_status state, rc_startedAt = sa, rc_completedAt = ca, rc_lastEventAt = le,
          rc_startEventId = ms_startEventId state, rc_completionEventId = ms_completionEventId state,
          rc_workflowName = field_or_null (ms_startFields state) (js ''workflowName''),
          rc_workflowVersion = field_or_null (ms_startFields state) (js ''workflowVersion''),
          rc_metadata = metadataColumn state,
          rc_completionFieldOrigins = Some (ms_completionFieldOrigins state)\<rparr>
      | _ \<Rightarrow> None)"

definition stepColumns :: "EntityMergeState \<Rightarrow> StepColumns option" where
  "stepColumns state =
     (case (toDate (ms_startedAt state), toDate (ms_completedAt state)) of
        (Some sa, Some ca) \<Rightarrow> Some \<lparr>
          sc_status = ms_status state, sc_startedAt = sa, sc_completedAt = ca,
          sc_startEventId = ms_startEventId state, sc_completionEventId = ms_completionEventId state,
          sc_name = field_or_null (ms_startFields state) (js ''name''),
          sc_agentName = field_or_null (ms_startFields state) (js ''agentName''),
          sc_type = field_or_null (ms_startFields state) (js ''type''),
          sc_parentStepId = field_or_null (ms_startFields state) (js ''parentStepId''),
          sc_metadata = metadataColumn state,
          sc_completionFieldOrigins = Some (ms_completionFieldOrigins state)\<rparr>
      | _ \<Rightarrow> None)"

text \<open>The fields that a row gives back, shared by \<^verbatim>\<open>runRowToState\<close> and \<^verbatim>\<open>stepRowToState\<close>.\<close>

definition row_completionFields :: "int option \<Rightarrow> origins \<Rightarrow> json \<Rightarrow> (jstr \<rightharpoonup> json) option" where
  "row_completionFields completedAt os metadata =
     (case completedAt of None \<Rightarrow> None
      | Some _ \<Rightarrow> Some (if hasCompletionMetadata os then [METADATA \<mapsto> metadata] else Map.empty))"

definition row_startFields :: "int option \<Rightarrow> origins \<Rightarrow> json \<Rightarrow> (jstr \<times> json) list \<Rightarrow> (jstr \<rightharpoonup> json) option" where
  "row_startFields startedAt os metadata named =
     (case startedAt of None \<Rightarrow> None
      | Some _ \<Rightarrow> Some (map_of (named @ (if hasCompletionMetadata os then [] else [(METADATA, metadata)]))))"

definition runRowToState :: "RunRow \<Rightarrow> EntityMergeState" where
  "runRowToState row =
     (let c = rr_columns row; os = toOrigins (rc_completionFieldOrigins c) in
      \<lparr>ms_entityId = rr_id row, ms_status = rc_status c,
       ms_startedAt = map_option toISOString (rc_startedAt c),
       ms_startFields = row_startFields (rc_startedAt c) os (rc_metadata c)
         [(js ''workflowName'', rc_workflowName c), (js ''workflowVersion'', rc_workflowVersion c)],
       ms_completedAt = map_option toISOString (rc_completedAt c),
       ms_completionFields = row_completionFields (rc_completedAt c) os (rc_metadata c),
       ms_completionEventId = rc_completionEventId c, ms_startEventId = rc_startEventId c,
       ms_completionFieldOrigins = os, ms_lastEventAt = Some (rc_lastEventAt c)\<rparr>)"

definition stepRowToState :: "StepRow \<Rightarrow> EntityMergeState" where
  "stepRowToState row =
     (let c = sr_columns row; os = toOrigins (sc_completionFieldOrigins c) in
      \<lparr>ms_entityId = sr_id row, ms_status = sc_status c,
       ms_startedAt = map_option toISOString (sc_startedAt c),
       ms_startFields = row_startFields (sc_startedAt c) os (sc_metadata c)
         [(js ''name'', sc_name c), (js ''agentName'', sc_agentName c), (js ''type'', sc_type c),
          (js ''parentStepId'', sc_parentStepId c)],
       ms_completedAt = map_option toISOString (sc_completedAt c),
       ms_completionFields = row_completionFields (sc_completedAt c) os (sc_metadata c),
       ms_completionEventId = sc_completionEventId c, ms_startEventId = sc_startEventId c,
       ms_completionFieldOrigins = os, ms_lastEventAt = Some (sr_receivedAt row)\<rparr>)"

section \<open>Repository operations\<close>

definition loadRunWith :: "TelemetryStore \<Rightarrow> jstr \<Rightarrow> EntityMergeState option" where
  "loadRunWith st i = map_option runRowToState (ts_runs st i)"

definition loadStepWith :: "TelemetryStore \<Rightarrow> jstr \<Rightarrow> EntityMergeState option" where
  "loadStepWith st i = map_option stepRowToState (ts_steps st i)"

definition saveRunWith :: "TelemetryStore \<Rightarrow> jstr \<Rightarrow> EntityMergeState \<Rightarrow> PersistError + TelemetryStore" where
  "saveRunWith st i state =
     (case runColumns state of
        None \<Rightarrow> Inl InvalidDate
      | Some columns \<Rightarrow>
          Inr (st\<lparr>ts_runs := (ts_runs st)(i \<mapsto>
            (case ts_runs st i of
               None \<Rightarrow> \<lparr>rr_id = i, rr_traceId = i, rr_receivedAt = rc_lastEventAt columns,
                         rr_columns = columns, rr_droppedTelemetryEventCount = None\<rparr>
             | Some row \<Rightarrow> row\<lparr>rr_columns := columns\<rparr>))\<rparr>))"

definition saveStepWith :: "TelemetryStore \<Rightarrow> jstr \<Rightarrow> jstr \<Rightarrow> EntityMergeState \<Rightarrow> PersistError + TelemetryStore" where
  "saveStepWith st i runId state =
     (case (stepColumns state, ms_lastEventAt state) of
        (Some columns, Some lastEventAt) \<Rightarrow>
          Inr (st\<lparr>ts_steps := (ts_steps st)(i \<mapsto>
            (case ts_steps st i of
               None \<Rightarrow> \<lparr>sr_id = i, sr_runId = runId, sr_receivedAt = lastEventAt, sr_columns = columns\<rparr>
             | Some row \<Rightarrow> row\<lparr>sr_columns := columns\<rparr>))\<rparr>)
      | _ \<Rightarrow> Inl InvalidDate)"

definition touchRunLiveness :: "TelemetryStore \<Rightarrow> jstr \<Rightarrow> int \<Rightarrow> TelemetryStore" where
  "touchRunLiveness st runId receivedAt =
     (case ts_runs st runId of
        None \<Rightarrow> st
      | Some row \<Rightarrow>
          if rc_lastEventAt (rr_columns row) < receivedAt
          then st\<lparr>ts_runs := (ts_runs st)(runId \<mapsto>
                 row\<lparr>rr_columns := (rr_columns row)\<lparr>rc_lastEventAt := receivedAt\<rparr>\<rparr>)\<rparr>
          else st)"

definition loadIngestedEventIds :: "TelemetryStore \<Rightarrow> jstr \<Rightarrow> jstr list \<Rightarrow> jstr list" where
  "loadIngestedEventIds st runId eventIds = filter (\<lambda>e. ts_ingested st (runId, e) \<noteq> None) eventIds"

definition recordIngestedEvents :: "TelemetryStore \<Rightarrow> jstr \<Rightarrow> jstr list \<Rightarrow> int \<Rightarrow> TelemetryStore" where
  "recordIngestedEvents st runId eventIds receivedAt =
     st\<lparr>ts_ingested := fold (\<lambda>e m. if m (runId, e) = None then m((runId, e) \<mapsto> receivedAt) else m)
         eventIds (ts_ingested st)\<rparr>"

text \<open>The fold that a caller passes: what was stored and which events are already known, to what to
  store, which events are new, and a value.\<close>

type_synonym 'v entity_fold =
  "EntityMergeState option \<Rightarrow> jstr list \<Rightarrow> PersistError + (EntityMergeState option \<times> jstr list \<times> 'v)"

definition withEntityLock ::
  "EntityKind \<Rightarrow> jstr \<Rightarrow> jstr \<Rightarrow> jstr list \<Rightarrow> int \<Rightarrow> 'v entity_fold \<Rightarrow> TelemetryStore \<Rightarrow>
   PersistError + (TelemetryStore \<times> 'v)" where
  "withEntityLock kind entityId runId eventIds receivedAt fld st =
     (let existing = (if kind = KRun then loadRunWith st entityId else loadStepWith st entityId);
          alreadyIngested = loadIngestedEventIds st runId eventIds
      in case fld existing alreadyIngested of
           Inl err \<Rightarrow> Inl err
         | Inr (state, newlyIngestedEventIds, value) \<Rightarrow>
             (case (case state of
                      None \<Rightarrow> Inr st
                    | Some s \<Rightarrow> if kind = KRun then saveRunWith st entityId s
                               else saveStepWith st entityId runId s) of
                Inl err \<Rightarrow> Inl err
              | Inr st1 \<Rightarrow>
                  if newlyIngestedEventIds = [] then Inr (st1, value)
                  else
                    let st2 = (if kind = KStep then touchRunLiveness st1 runId receivedAt else st1)
                    in Inr (recordIngestedEvents st2 runId newlyIngestedEventIds receivedAt, value)))"

text \<open>\<^verbatim>\<open>LEAST(COALESCE(n, 0)::bigint + amount, 2147483647)::int\<close> where the row exists.\<close>

definition incrementDroppedCountRaw :: "TelemetryStore \<Rightarrow> jstr \<Rightarrow> int \<Rightarrow> TelemetryStore" where
  "incrementDroppedCountRaw st runId amount =
     (case ts_runs st runId of
        None \<Rightarrow> st
      | Some row \<Rightarrow>
          st\<lparr>ts_runs := (ts_runs st)(runId \<mapsto> row\<lparr>rr_droppedTelemetryEventCount :=
            Some (min (coalesce (rr_droppedTelemetryEventCount row) 0 + amount) POSTGRES_INT4_MAX)\<rparr>)\<rparr>)"

definition incrementDroppedCount ::
  "TelemetryStore \<Rightarrow> jstr \<Rightarrow> int \<Rightarrow> jstr option \<Rightarrow> int \<Rightarrow> TelemetryStore" where
  "incrementDroppedCount st runId amount deliveryId receivedAt =
     (case deliveryId of
        None \<Rightarrow> incrementDroppedCountRaw st runId amount
      | Some d \<Rightarrow>
          if amount = 0 then incrementDroppedCountRaw st runId amount
          else if ts_dropDeliveries st (runId, d) \<noteq> None then st
          else incrementDroppedCountRaw
                 (st\<lparr>ts_dropDeliveries := (ts_dropDeliveries st)((runId, d) \<mapsto> receivedAt)\<rparr>) runId amount)"

section \<open>What the columns remember of a state\<close>

text \<open>The states that are stored: produced by the reducer from wire events, so that \<open>metadata\<close> is
  the only completion key.\<close>

definition row_state :: "EntityMergeState \<Rightarrow> bool" where
  "row_state s \<longleftrightarrow> wf_state s \<and> ms_lastEventAt s \<noteq> None \<and> dom (ms_completionFieldOrigins s) \<subseteq> {METADATA}"

definition wire_merge_event :: "MergeEvent \<Rightarrow> bool" where
  "wire_merge_event e \<longleftrightarrow> valid_merge_event e \<and> metadata_only e"

definition core_eq :: "jstr set \<Rightarrow> EntityMergeState \<Rightarrow> EntityMergeState \<Rightarrow> bool" where
  "core_eq ks s s' \<longleftrightarrow> ms_status s = ms_status s' \<and> toDate (ms_startedAt s) = toDate (ms_startedAt s') \<and>
     toDate (ms_completedAt s) = toDate (ms_completedAt s') \<and> ms_startEventId s = ms_startEventId s' \<and>
     ms_completionEventId s = ms_completionEventId s' \<and>
     ms_completionFieldOrigins s = ms_completionFieldOrigins s' \<and> metadataColumn s = metadataColumn s' \<and>
     (\<forall>k \<in> ks. field_or_null (ms_startFields s) k = field_or_null (ms_startFields s') k)"

lemma toDate_cong:
  assumes "toDate a = toDate b"
  shows "a = None \<longleftrightarrow> b = None" "a = Some x \<Longrightarrow> b = Some y \<Longrightarrow> date_parse x = date_parse y"
  using assms by (auto simp: toDate_def split: option.splits)

lemma compareOccurredAt_cong: "date_parse x = date_parse y \<Longrightarrow> compareOccurredAt e x = compareOccurredAt e y"
  by (simp add: compareOccurredAt_def)

lemma shouldReplaceStart_cong:
  assumes "ms_startEventId s = ms_startEventId s'" "toDate (ms_startedAt s) = toDate (ms_startedAt s')"
  shows "shouldReplaceStart s e = shouldReplaceStart s' e"
proof (cases "ms_startedAt s")
  case None
  thus ?thesis using toDate_cong(1) [OF assms(2)]
    by (cases "ms_startEventId s'") (simp_all add: shouldReplaceStart_def assms(1))
next
  case (Some x)
  then obtain y where y: "ms_startedAt s' = Some y" using toDate_cong(1) [OF assms(2)] by auto
  have "compareOccurredAt (me_occurredAt e) x = compareOccurredAt (me_occurredAt e) y"
    using toDate_cong(2) [OF assms(2) Some y] by (rule compareOccurredAt_cong)
  thus ?thesis by (cases "ms_startEventId s'") (simp_all add: shouldReplaceStart_def assms(1) Some y Let_def)
qed

lemma shouldReplaceCompletion_cong:
  assumes "ms_completionEventId s = ms_completionEventId s'" "toDate (ms_completedAt s) = toDate (ms_completedAt s')"
  shows "shouldReplaceCompletion s e = shouldReplaceCompletion s' e"
proof (cases "ms_completedAt s")
  case None
  thus ?thesis using toDate_cong(1) [OF assms(2)]
    by (cases "ms_completionEventId s'") (simp_all add: shouldReplaceCompletion_def assms(1))
next
  case (Some x)
  then obtain y where y: "ms_completedAt s' = Some y" using toDate_cong(1) [OF assms(2)] by auto
  have "compareOccurredAt (me_occurredAt e) x = compareOccurredAt (me_occurredAt e) y"
    using toDate_cong(2) [OF assms(2) Some y] by (rule compareOccurredAt_cong)
  thus ?thesis
    by (cases "ms_completionEventId s'")
      (simp_all add: shouldReplaceCompletion_def compareCompletionOrder_def assms(1) Some y Let_def)
qed

lemma core_eq_mergeStart:
  assumes "core_eq ks s s'"
  shows "core_eq ks (mergeStart s e) (mergeStart s' e)"
proof -
  have rep: "shouldReplaceStart s e = shouldReplaceStart s' e"
    using assms by (intro shouldReplaceStart_cong) (simp_all add: core_eq_def)
  show ?thesis
  proof (cases "shouldReplaceStart s' e")
    case True
    thus ?thesis using assms rep
      by (auto simp: core_eq_def mergeStart_def Let_def metadataColumn_def split: if_splits)
  next
    case False
    have keep: "mergeStart r e = r\<lparr>ms_lastEventAt := Some (max_neginf (ms_lastEventAt r) (me_receivedAt e))\<rparr>"
      if "\<not> shouldReplaceStart r e" for r
      using that by (simp add: mergeStart_def Let_def)
    have md: "metadataColumn (r\<lparr>ms_lastEventAt := u\<rparr>) = metadataColumn r" for r u
      by (simp add: metadataColumn_def)
    show ?thesis using assms rep False by (simp add: core_eq_def keep md)
  qed
qed

lemma field_or_null_Some: "field_or_null (Some f) k = coalesce (f k) JNull"
  by (simp add: field_or_null_def)

lemma core_eq_mergeCompletion:
  assumes eq: "core_eq ks s s'"
  shows "core_eq ks (mergeCompletion s e st) (mergeCompletion s' e st)"
proof -
  have rep: "shouldReplaceCompletion s e = shouldReplaceCompletion s' e"
    using eq by (intro shouldReplaceCompletion_cong) (simp_all add: core_eq_def)
  have os: "ms_completionFieldOrigins s = ms_completionFieldOrigins s'"
    and md: "metadataColumn s = metadataColumn s'" using eq by (simp_all add: core_eq_def)
  let ?t = "mergeCompletion s e st" and ?t' = "mergeCompletion s' e st"
  have os': "ms_completionFieldOrigins ?t = ms_completionFieldOrigins ?t'"
    by (simp add: mergeCompletion_simps foldCompletionFields_lookup os)
  have fn: "field_or_null (ms_completionFields r) METADATA = coalesce (coalesce (ms_completionFields r) Map.empty METADATA) JNull" for r
    by (simp add: field_or_null_def coalesce_def split: option.split)
  have "metadataColumn ?t = metadataColumn ?t'"
    using md os unfolding metadataColumn_def os' hasCompletionMetadata_def
    by (auto simp: mergeCompletion_simps foldCompletionFields_lookup fn field_or_null_Some
        split: option.splits if_splits)
  thus ?thesis
    using eq rep os' by (auto simp: core_eq_def mergeCompletion_simps)
qed

lemma mergeEvent_Some_cases:
  assumes "mergeEvent (Some s) e = Inr t"
  obtains "me_kind e = KindStart" "t = mergeStart s e"
  | st where "me_kind e = KindCompletion" "me_status e = Some st" "t = mergeCompletion s e st"
  using assms by (cases "me_kind e"; cases "me_status e") (auto simp: mergeEvent_def)

lemma core_eq_mergeEvent:
  assumes "core_eq ks s s'" "mergeEvent (Some s) e = Inr t" "mergeEvent (Some s') e = Inr t'"
  shows "core_eq ks t t'" "ms_lastEventAt s = ms_lastEventAt s' \<Longrightarrow> ms_lastEventAt t = ms_lastEventAt t'"
proof -
  consider "t = mergeStart s e" "t' = mergeStart s' e"
    | st where "t = mergeCompletion s e st" "t' = mergeCompletion s' e st"
    using assms(2,3) by (cases "me_kind e"; cases "me_status e") (auto simp: mergeEvent_def)
  note cs = this
  show "core_eq ks t t'"
    by (rule cs) (simp_all add: assms(1) core_eq_mergeStart core_eq_mergeCompletion)
  show "ms_lastEventAt s = ms_lastEventAt s' \<Longrightarrow> ms_lastEventAt t = ms_lastEventAt t'"
    by (rule cs) (simp_all add: mergeStart_def mergeCompletion_simps Let_def)
qed

lemma mergeCompletion_origin_dom:
  assumes "metadata_only e" "me_kind e = KindCompletion" "dom (ms_completionFieldOrigins s) \<subseteq> {METADATA}"
  shows "dom (ms_completionFieldOrigins (mergeCompletion s e st)) \<subseteq> {METADATA}"
proof
  fix k assume k: "k \<in> dom (ms_completionFieldOrigins (mergeCompletion s e st))"
  have keys: "fst ` set (me_fields e) \<subseteq> {METADATA}"
    using assms(1,2) by (simp add: metadata_only_def METADATA_def)
  show "k \<in> {METADATA}"
  proof (rule ccontr)
    assume n: "k \<notin> {METADATA}"
    hence "map_of (me_fields e) k = None" using keys unfolding map_of_eq_None_iff by blast
    moreover have "ms_completionFieldOrigins s k = None" using n assms(3) by blast
    ultimately show False using k by (simp add: mergeCompletion_simps foldCompletionFields_lookup domIff)
  qed
qed

lemma row_state_step:
  assumes s: "wf_state s" "dom (ms_completionFieldOrigins s) \<subseteq> {METADATA}"
    and "wire_merge_event e" "mergeEvent (Some s) e = Inr t"
  shows "row_state t"
proof -
  have e: "valid_merge_event e" "metadata_only e"
    using assms(3) by (simp_all add: wire_merge_event_def)
  consider "t = mergeStart s e" | st where "me_kind e = KindCompletion" "t = mergeCompletion s e st"
    using assms(4) by (cases "me_kind e"; cases "me_status e") (auto simp: mergeEvent_def)
  thus ?thesis
  proof cases
    case 1
    have "ms_completionFieldOrigins (mergeStart s e) = ms_completionFieldOrigins s"
      "ms_lastEventAt (mergeStart s e) \<noteq> None" by (simp_all add: mergeStart_def Let_def)
    thus ?thesis unfolding 1 row_state_def using s(2) wf_mergeStart [OF s(1) e(1)] by simp
  next
    case (2 st)
    have "ms_lastEventAt (mergeCompletion s e st) \<noteq> None" by (simp add: mergeCompletion_simps)
    thus ?thesis unfolding 2(2) row_state_def
      using mergeCompletion_origin_dom [OF e(2) 2(1) s(2)] wf_mergeCompletion [OF s(1) e(1)] by simp
  qed
qed

lemma row_state_mergeEvent:
  assumes "row_state s" "wire_merge_event e" "mergeEvent (Some s) e = Inr t"
  shows "row_state t"
  using row_state_step [of s e t] assms unfolding row_state_def by blast

lemma row_state_first:
  assumes "wire_merge_event e" "mergeEvent None e = Inr t"
  shows "row_state t"
  using assms row_state_step [of "emptyState (me_entityId e)"] by (simp add: mergeEvent_def emptyState_def wf_emptyState [unfolded emptyState_def])

section \<open>The interface between the fold and a table\<close>

text \<open>A table keeps some columns of a state and gives a state back.  If reloading loses nothing that
  the columns show, and the columns after an event only depend on the columns before, then a
  request boundary in the middle of a fold cannot be seen in the table.\<close>

locale entity_columns =
  fixes cols :: "EntityMergeState \<Rightarrow> 'c option" and reload :: "'c \<Rightarrow> EntityMergeState"
  assumes cols_total: "row_state s \<Longrightarrow> cols s \<noteq> None"
    and cols_reload: "row_state s \<Longrightarrow> cols s = Some c \<Longrightarrow> cols (reload c) = Some c"
    and row_reload: "row_state s \<Longrightarrow> cols s = Some c \<Longrightarrow> row_state (reload c)"
    and cols_cong: "row_state s \<Longrightarrow> row_state s' \<Longrightarrow> cols s = cols s' \<Longrightarrow>
      mergeEvent (Some s) e = Inr t \<Longrightarrow> mergeEvent (Some s') e = Inr t' \<Longrightarrow> cols t = cols t'"
begin

lemma cols_fold:
  assumes "row_state s" "row_state s'" "cols s = cols s'" "\<forall>e \<in> set es. wire_merge_event e"
  shows "\<exists>t t'. mergeEvents (Some s) es = Inr (Some t) \<and> mergeEvents (Some s') es = Inr (Some t') \<and>
    cols t = cols t' \<and> row_state t \<and> row_state t'"
  using assms
proof (induction es arbitrary: s s')
  case (Cons e es)
  have e: "wire_merge_event e" "valid_merge_event e" using Cons.prems(4) by (auto simp: wire_merge_event_def)
  have wf: "pred_option wf_state (Some s)" "pred_option wf_state (Some s')"
    using Cons.prems by (simp_all add: row_state_def)
  obtain t where t: "mergeEvent (Some s) e = Inr t" using mergeEvent_refines [OF wf(1) e(2)] .
  obtain t' where t': "mergeEvent (Some s') e = Inr t'" using mergeEvent_refines [OF wf(2) e(2)] .
  have "cols t = cols t'" using cols_cong Cons.prems(1-3) t t' by blast
  thus ?case
    using Cons.IH [of t t'] Cons.prems row_state_mergeEvent [OF _ e(1)] t t' by simp
qed auto

lemma reload_invisible:
  assumes "row_state s" "cols s = Some c" "\<forall>e \<in> set es. wire_merge_event e"
  shows "\<exists>t t'. mergeEvents (Some s) es = Inr (Some t) \<and> mergeEvents (Some (reload c)) es = Inr (Some t') \<and>
    cols t = cols t' \<and> row_state t \<and> row_state t'"
  using cols_fold [OF assms(1) row_reload [OF assms(1,2)] _ assms(3)] cols_reload [OF assms(1,2)] assms(2)
  by simp

end

lemma toDate_reload:
  assumes "toDate a = Some d"
  shows "toDate (map_option toISOString d) = Some d" "d = None \<longleftrightarrow> a = None"
    "pred_option (\<lambda>t. date_parse t \<noteq> None) (map_option toISOString d)"
proof -
  consider "a = None" "d = None" | x t where "a = Some x" "date_parse x = Some t" "d = Some t"
    using assms by (cases a; cases "date_parse (the a)") (auto simp: toDate_def)
  note cs = this
  have rt: "date_parse (toISOString t) = Some t" if "date_parse x = Some t" for x t
    using date_parse_toISOString [OF date_parse_range [OF that]] .
  show "toDate (map_option toISOString d) = Some d" "d = None \<longleftrightarrow> a = None"
    "pred_option (\<lambda>t. date_parse t \<noteq> None) (map_option toISOString d)"
    by (rule cs; auto simp: toDate_def dest: rt)+
qed

lemma row_state_owns:
  assumes "row_state s"
  shows "hasCompletionMetadata (ms_completionFieldOrigins s) \<longleftrightarrow>
      (\<exists>f x. ms_completionFields s = Some f \<and> f METADATA = Some x)"
    "hasCompletionMetadata (ms_completionFieldOrigins s) \<Longrightarrow> ms_completedAt s \<noteq> None"
    "\<not> hasCompletionMetadata (ms_completionFieldOrigins s) \<Longrightarrow> ms_completionFieldOrigins s = Map.empty"
proof -
  have dom: "dom (ms_completionFieldOrigins s) = dom (coalesce (ms_completionFields s) Map.empty)"
    and c: "ms_completionFields s = None \<longleftrightarrow> ms_completedAt s = None"
    and sub: "dom (ms_completionFieldOrigins s) \<subseteq> {METADATA}"
    using assms unfolding row_state_def wf_state_def by blast+
  show "hasCompletionMetadata (ms_completionFieldOrigins s) \<longleftrightarrow>
      (\<exists>f x. ms_completionFields s = Some f \<and> f METADATA = Some x)"
    using dom unfolding hasCompletionMetadata_def by (cases "ms_completionFields s") (auto simp: dom_def set_eq_iff)
  thus "hasCompletionMetadata (ms_completionFieldOrigins s) \<Longrightarrow> ms_completedAt s \<noteq> None" using c by auto
  assume "\<not> hasCompletionMetadata (ms_completionFieldOrigins s)"
  hence "dom (ms_completionFieldOrigins s) = {}" using sub by (auto simp: hasCompletionMetadata_def)
  thus "ms_completionFieldOrigins s = Map.empty" by simp
qed

text \<open>The shape that both row-to-state functions give back.\<close>

definition reloaded :: "jstr list \<Rightarrow> EntityMergeState \<Rightarrow> EntityMergeState \<Rightarrow> bool" where
  "reloaded ks s r \<longleftrightarrow> ms_status r = ms_status s \<and>
     (\<exists>sa ca. toDate (ms_startedAt s) = Some sa \<and> toDate (ms_completedAt s) = Some ca \<and>
        ms_startedAt r = map_option toISOString sa \<and> ms_completedAt r = map_option toISOString ca \<and>
        ms_startFields r = row_startFields sa (ms_completionFieldOrigins s) (metadataColumn s)
          (map (\<lambda>k. (k, field_or_null (ms_startFields s) k)) ks) \<and>
        ms_completionFields r = row_completionFields ca (ms_completionFieldOrigins s) (metadataColumn s)) \<and>
     ms_completionEventId r = ms_completionEventId s \<and> ms_startEventId r = ms_startEventId s \<and>
     ms_completionFieldOrigins r = ms_completionFieldOrigins s \<and> ms_lastEventAt r \<noteq> None"

lemma map_of_named: "k \<in> set ks \<Longrightarrow> map_of (map (\<lambda>k. (k, f k)) ks) k = Some (f k)"
  by (induction ks) auto

lemma reloaded_core_eq:
  assumes s: "row_state s" and r: "reloaded ks s r" and ks: "METADATA \<notin> set ks"
  shows "core_eq (set ks) s r"
proof -
  obtain sa ca where sa: "toDate (ms_startedAt s) = Some sa" and ca: "toDate (ms_completedAt s) = Some ca"
    and eqs: "ms_startedAt r = map_option toISOString sa" "ms_completedAt r = map_option toISOString ca"
      "ms_startFields r = row_startFields sa (ms_completionFieldOrigins s) (metadataColumn s)
          (map (\<lambda>k. (k, field_or_null (ms_startFields s) k)) ks)"
      "ms_completionFields r = row_completionFields ca (ms_completionFieldOrigins s) (metadataColumn s)"
      "ms_completionFieldOrigins r = ms_completionFieldOrigins s"
    using r unfolding reloaded_def by blast
  have st: "sa = None \<longleftrightarrow> ms_startFields s = None" "ca = None \<longleftrightarrow> ms_completionFields s = None"
    using s toDate_reload(2) [OF sa] toDate_reload(2) [OF ca] by (auto simp: row_state_def wf_state_def)
  have md: "metadataColumn r = metadataColumn s"
  proof (cases "hasCompletionMetadata (ms_completionFieldOrigins s)")
    case True
    hence "ca \<noteq> None" using row_state_owns(2) [OF s] toDate_reload(2) [OF ca] by auto
    thus ?thesis using True
      by (auto simp: metadataColumn_def [of r] eqs row_completionFields_def field_or_null_Some)
  next
    case False
    have none: "map_of (map (\<lambda>k. (k, field_or_null (ms_startFields s) k)) ks) METADATA = None"
      using ks by (auto simp: map_of_eq_None_iff)
    show ?thesis
    proof (cases sa)
      case None
      thus ?thesis using False st(1)
        by (simp add: metadataColumn_def eqs row_startFields_def field_or_null_def)
    next
      case (Some t)
      thus ?thesis using False none
        by (simp add: metadataColumn_def [of r] eqs row_startFields_def field_or_null_Some map_add_def)
    qed
  qed
  have nm: "field_or_null (ms_startFields r) k = field_or_null (ms_startFields s) k" if "k \<in> set ks" for k
  proof (cases sa)
    case None
    thus ?thesis using st(1) by (simp add: eqs row_startFields_def)
  next
    case (Some t)
    have "map_of (if hasCompletionMetadata (ms_completionFieldOrigins s) then []
        else [(METADATA, metadataColumn s)]) k = None" using that ks by auto
    thus ?thesis using Some
      by (simp add: eqs row_startFields_def field_or_null_Some map_add_def map_of_named [OF that])
  qed
  show ?thesis
    using r sa ca toDate_reload(1) [OF sa] toDate_reload(1) [OF ca] md nm
    by (auto simp: core_eq_def reloaded_def)
qed

lemma reloaded_row_state:
  assumes s: "row_state s" and r: "reloaded ks s r"
  shows "row_state r"
proof -
  obtain sa ca where sa: "toDate (ms_startedAt s) = Some sa" and ca: "toDate (ms_completedAt s) = Some ca"
    and eqs: "ms_startedAt r = map_option toISOString sa" "ms_completedAt r = map_option toISOString ca"
      "ms_startFields r = row_startFields sa (ms_completionFieldOrigins s) (metadataColumn s)
          (map (\<lambda>k. (k, field_or_null (ms_startFields s) k)) ks)"
      "ms_completionFields r = row_completionFields ca (ms_completionFieldOrigins s) (metadataColumn s)"
      "ms_completionFieldOrigins r = ms_completionFieldOrigins s" "ms_lastEventAt r \<noteq> None"
      "ms_completionEventId r = ms_completionEventId s" "ms_startEventId r = ms_startEventId s"
    using r unfolding reloaded_def by blast
  note own = row_state_owns [OF s]
  have sub: "dom (ms_completionFieldOrigins s) \<subseteq> {METADATA}" using s by (simp add: row_state_def)
  have "dom (ms_completionFieldOrigins s) =
      dom (coalesce (row_completionFields ca (ms_completionFieldOrigins s) (metadataColumn s)) Map.empty)"
  proof (cases "hasCompletionMetadata (ms_completionFieldOrigins s)")
    case True
    hence "dom (ms_completionFieldOrigins s) = {METADATA}" using sub by (auto simp: hasCompletionMetadata_def)
    moreover have "ca \<noteq> None" using own(2) [OF True] toDate_reload(2) [OF ca] by auto
    ultimately show ?thesis using True by (auto simp: row_completionFields_def)
  next
    case False
    thus ?thesis using own(3) by (auto simp: row_completionFields_def split: option.split)
  qed
  moreover have "ms_startEventId s = None \<longleftrightarrow> sa = None" "ms_completionEventId s = None \<longleftrightarrow> ca = None"
    using s toDate_reload(2) [OF sa] toDate_reload(2) [OF ca] by (auto simp: row_state_def wf_state_def)
  moreover have "\<forall>g \<in> ran (ms_completionFieldOrigins s). ok_origin g"
    using s by (simp add: row_state_def wf_state_def)
  moreover have "row_startFields sa os md nm = None \<longleftrightarrow> sa = None" "row_completionFields ca os md = None \<longleftrightarrow> ca = None"
    for os md nm by (auto simp: row_startFields_def row_completionFields_def split: option.split)
  ultimately show ?thesis
    using toDate_reload(3) [OF sa] toDate_reload(3) [OF ca] sub eqs
    by (simp add: row_state_def wf_state_def)
qed

lemma toOrigins_Some [simp]: "toOrigins (Some os) = os"
  by (simp add: toOrigins_def)

abbreviation run_names :: "jstr list" where
  "run_names \<equiv> [js ''workflowName'', js ''workflowVersion'']"

abbreviation step_names :: "jstr list" where
  "step_names \<equiv> [js ''name'', js ''agentName'', js ''type'', js ''parentStepId'']"

lemma runColumns_eq_iff:
  assumes "row_state s" "row_state s'"
  shows "runColumns s = runColumns s' \<longleftrightarrow> core_eq (set run_names) s s' \<and> ms_lastEventAt s = ms_lastEventAt s'"
    "runColumns s \<noteq> None" "stepColumns s = stepColumns s' \<longleftrightarrow> core_eq (set step_names) s s'"
    "stepColumns s \<noteq> None"
proof -
  have d: "\<exists>sa ca le. toDate (ms_startedAt r) = Some sa \<and> toDate (ms_completedAt r) = Some ca \<and>
      ms_lastEventAt r = Some le" if "row_state r" for r
    using that by (cases "ms_startedAt r"; cases "ms_completedAt r") (auto simp: row_state_def wf_state_def toDate_def)
  obtain sa ca le where s: "toDate (ms_startedAt s) = Some sa" "toDate (ms_completedAt s) = Some ca"
    "ms_lastEventAt s = Some le" using d [OF assms(1)] by blast
  obtain sa' ca' le' where s': "toDate (ms_startedAt s') = Some sa'" "toDate (ms_completedAt s') = Some ca'"
    "ms_lastEventAt s' = Some le'" using d [OF assms(2)] by blast
  show "runColumns s = runColumns s' \<longleftrightarrow> core_eq (set run_names) s s' \<and> ms_lastEventAt s = ms_lastEventAt s'"
    by (auto simp: runColumns_def s s' core_eq_def)
  show "stepColumns s = stepColumns s' \<longleftrightarrow> core_eq (set step_names) s s'"
    by (auto simp: stepColumns_def s s' core_eq_def)
  show "runColumns s \<noteq> None" "stepColumns s \<noteq> None" by (simp_all add: runColumns_def stepColumns_def s)
qed

lemma run_reloaded:
  assumes "runColumns s = Some c"
  shows "reloaded run_names s (runRowToState (row\<lparr>rr_columns := c\<rparr>))"
  using assms by (auto simp: runColumns_def runRowToState_def reloaded_def Let_def split: option.splits)

lemma step_reloaded:
  assumes "stepColumns s = Some c"
  shows "reloaded step_names s (stepRowToState (row\<lparr>sr_columns := c\<rparr>))"
  using assms by (auto simp: stepColumns_def stepRowToState_def reloaded_def Let_def split: option.splits)

lemma run_reload_last: "ms_lastEventAt (runRowToState (row\<lparr>rr_columns := c\<rparr>)) = Some (rc_lastEventAt c)"
  by (simp add: runRowToState_def Let_def)

interpretation run: entity_columns runColumns "\<lambda>c. runRowToState (row\<lparr>rr_columns := c\<rparr>)" for row
proof (unfold_locales, goal_cases)
  case (1 s)
  thus ?case using runColumns_eq_iff(2) by blast
next
  case (2 s c)
  note rel = run_reloaded [OF 2(2), of row]
  have "ms_lastEventAt s = Some (rc_lastEventAt c)"
    using 2(2) by (auto simp: runColumns_def split: option.splits)
  hence "runColumns s = runColumns (runRowToState (row\<lparr>rr_columns := c\<rparr>))"
    using runColumns_eq_iff(1) [OF 2(1) reloaded_row_state [OF 2(1) rel]] reloaded_core_eq [OF 2(1) rel]
    by (simp add: METADATA_def run_reload_last)
  thus ?case using 2(2) by simp
next
  case (3 s c)
  thus ?case using reloaded_row_state run_reloaded by blast
next
  case (4 s s' e t t')
  have "core_eq (set run_names) s s'" "ms_lastEventAt s = ms_lastEventAt s'"
    using runColumns_eq_iff(1) [OF 4(1,2)] 4(3) by blast+
  from core_eq_mergeEvent [OF this(1) 4(4,5)] this(2)
  have c: "core_eq (set run_names) t t'" "ms_lastEventAt t = ms_lastEventAt t'" by auto
  thus ?case by (simp add: runColumns_def core_eq_def split: option.split)
qed

interpretation step: entity_columns stepColumns "\<lambda>c. stepRowToState (row\<lparr>sr_columns := c\<rparr>)" for row
proof (unfold_locales, goal_cases)
  case (1 s)
  thus ?case using runColumns_eq_iff(4) by blast
next
  case (2 s c)
  note rel = step_reloaded [OF 2(2), of row]
  have "stepColumns s = stepColumns (stepRowToState (row\<lparr>sr_columns := c\<rparr>))"
    using runColumns_eq_iff(3) [OF 2(1) reloaded_row_state [OF 2(1) rel]] reloaded_core_eq [OF 2(1) rel]
    by (simp add: METADATA_def)
  thus ?case using 2(2) by simp
next
  case (3 s c)
  thus ?case using reloaded_row_state step_reloaded by blast
next
  case (4 s s' e t t')
  have "core_eq (set step_names) s s'" using runColumns_eq_iff(3) [OF 4(1,2)] 4(3) by blast
  from core_eq_mergeEvent(1) [OF this 4(4,5)]
  show ?case by (simp add: stepColumns_def core_eq_def split: option.split)
qed

text \<open>A save and a reload of the row in the middle of a fold cannot be seen in the table, neither of
  Runs nor of Steps.\<close>

lemmas boundary_invisible = run.reload_invisible step.reload_invisible

section \<open>Liveness and drop counts\<close>

text \<open>A step event moves its run's liveness clock only forward, never creates a run, and touches
  nothing else.\<close>

theorem touchRunLiveness_monotone:
  "ts_runs (touchRunLiveness st runId receivedAt) i =
     (if i = runId then map_option (\<lambda>row. row\<lparr>rr_columns := (rr_columns row)\<lparr>
        rc_lastEventAt := max (rc_lastEventAt (rr_columns row)) receivedAt\<rparr>\<rparr>) (ts_runs st i)
      else ts_runs st i) \<and>
   ts_steps (touchRunLiveness st runId receivedAt) = ts_steps st \<and>
   ts_ingested (touchRunLiveness st runId receivedAt) = ts_ingested st \<and>
   ts_dropDeliveries (touchRunLiveness st runId receivedAt) = ts_dropDeliveries st"
  by (cases "ts_runs st runId") (auto simp: touchRunLiveness_def max_def)

definition dropped_of :: "TelemetryStore \<Rightarrow> jstr \<Rightarrow> int option" where
  "dropped_of st runId = (case ts_runs st runId of None \<Rightarrow> None | Some row \<Rightarrow> rr_droppedTelemetryEventCount row)"

definition credited :: "TelemetryStore \<Rightarrow> jstr \<Rightarrow> jstr set" where
  "credited st runId = {d. ts_dropDeliveries st (runId, d) \<noteq> None}"

lemma increment_known:
  assumes "d \<in> credited st runId" "amount \<noteq> 0"
  shows "incrementDroppedCount st runId amount (Some d) now = st"
  using assms by (auto simp: incrementDroppedCount_def credited_def)

lemma increment_new:
  assumes "d \<notin> credited st runId" "amount \<noteq> 0" "ts_runs st runId \<noteq> None"
  shows "dropped_of (incrementDroppedCount st runId amount (Some d) now) runId =
      Some (min (coalesce (dropped_of st runId) 0 + amount) POSTGRES_INT4_MAX)"
    "credited (incrementDroppedCount st runId amount (Some d) now) runId = insert d (credited st runId)"
    "ts_runs (incrementDroppedCount st runId amount (Some d) now) runId \<noteq> None"
  using assms
  by (auto simp: incrementDroppedCount_def incrementDroppedCountRaw_def dropped_of_def credited_def)

lemma saturating_sum: "0 \<le> b \<Longrightarrow> min (min (x + a) M + b) M = min (x + (a + b)) (M :: int)"
  by auto

lemma drop_reports_fold:
  assumes "ts_runs st runId \<noteq> None" "\<forall>d. 0 < amount d"
  shows "dropped_of (fold (\<lambda>d st. incrementDroppedCount st runId (amount d) (Some d) now) ds st) runId =
     (if set ds \<subseteq> credited st runId then dropped_of st runId
      else Some (min (coalesce (dropped_of st runId) 0 + (\<Sum>d \<in> set ds - credited st runId. amount d)) POSTGRES_INT4_MAX))"
  using assms(1)
proof (induction ds arbitrary: st)
  case (Cons d ds)
  have pos: "0 < amount d" "amount d \<noteq> 0" using assms(2) by (auto simp: less_imp_neq [symmetric])
  have nn: "0 \<le> (\<Sum>d \<in> A. amount d)" for A by (simp add: assms(2) less_imp_le sum_nonneg)
  show ?case
  proof (cases "d \<in> credited st runId")
    case True
    have "set (d # ds) - credited st runId = set ds - credited st runId" using True by auto
    thus ?thesis using Cons True pos by (simp add: increment_known)
  next
    case False
    note new = increment_new [OF False pos(2) Cons.prems, of now]
    have split: "set (d # ds) - credited st runId = insert d (set ds - insert d (credited st runId))"
      using False by auto
    have sum: "(\<Sum>d \<in> set (d # ds) - credited st runId. amount d) =
        amount d + (\<Sum>d \<in> set ds - insert d (credited st runId). amount d)"
      unfolding split by simp
    show ?thesis
    proof (cases "set ds \<subseteq> insert d (credited st runId)")
      case True
      hence none: "set ds - insert d (credited st runId) = {}" by blast
      show ?thesis using Cons.IH [OF new(3)] False new True unfolding sum none by simp
    next
      case nd: False
      thus ?thesis using Cons.IH [OF new(3)] False new saturating_sum [OF nn] unfolding sum by simp
    qed
  qed
qed simp

text \<open>C8. A run is credited once per delivery: however often the reports of its batches are retried
  and in whatever order they arrive, the run's drop count is the sum of the amounts of the distinct
  deliveries, pinned at the largest value its column holds.\<close>

theorem drop_count_credited_once:
  assumes "ts_runs st runId \<noteq> None" "\<forall>d. 0 < amount d" "credited st runId = {}" "dropped_of st runId = None" "ds \<noteq> []"
  shows "dropped_of (fold (\<lambda>d st. incrementDroppedCount st runId (amount d) (Some d) now) ds st) runId =
     Some (min (\<Sum>d \<in> set ds. amount d) 2147483647)"
  using drop_reports_fold [OF assms(1,2), of now ds] assms(3-5) by (simp add: POSTGRES_INT4_MAX_def)

definition one_run_store :: TelemetryStore where
  "one_run_store = \<lparr>ts_runs = [js ''r'' \<mapsto> \<lparr>rr_id = js ''r'', rr_traceId = js ''r'', rr_receivedAt = 0,
       rr_columns = \<lparr>rc_status = RUNNING, rc_startedAt = None, rc_completedAt = None, rc_lastEventAt = 0,
         rc_startEventId = None, rc_completionEventId = None, rc_workflowName = JNull,
         rc_workflowVersion = JNull, rc_metadata = JNull, rc_completionFieldOrigins = None\<rparr>,
       rr_droppedTelemetryEventCount = None\<rparr>],
     ts_steps = Map.empty, ts_ingested = Map.empty, ts_dropDeliveries = Map.empty\<rparr>"

theorem drop_count_credited_once_witness:
  "dropped_of (fold (\<lambda>d st. incrementDroppedCount st (js ''r'') 7 (Some d) 0) [js ''a'', js ''b'', js ''a'']
     one_run_store) (js ''r'') = Some 14"
proof -
  have "ts_runs one_run_store (js ''r'') \<noteq> None" "credited one_run_store (js ''r'') = {}"
    "dropped_of one_run_store (js ''r'') = None"
    by (simp_all add: one_run_store_def credited_def dropped_of_def)
  thus ?thesis
    using drop_count_credited_once [of one_run_store "js ''r''" "\<lambda>_. 7" "[js ''a'', js ''b'', js ''a'']" 0]
    by (simp add: card_insert_if)
qed

section \<open>The store invariant\<close>

text \<open>Every row was written by the fold: it holds the columns of a state the reducer produced.\<close>

definition wf_store :: "TelemetryStore \<Rightarrow> bool" where
  "wf_store st \<longleftrightarrow>
     (\<forall>i row. ts_runs st i = Some row \<longrightarrow> rr_id row = i \<and> (\<exists>s. row_state s \<and> runColumns s = Some (rr_columns row))) \<and>
     (\<forall>i row. ts_steps st i = Some row \<longrightarrow> sr_id row = i \<and> (\<exists>s. row_state s \<and> stepColumns s = Some (sr_columns row)))"

lemma wf_storeD:
  assumes "wf_store st"
  shows "ts_runs st i = Some row \<Longrightarrow> rr_id row = i \<and> (\<exists>s. row_state s \<and> runColumns s = Some (rr_columns row))"
    "ts_steps st i = Some srow \<Longrightarrow> sr_id srow = i \<and> (\<exists>s. row_state s \<and> stepColumns s = Some (sr_columns srow))"
  using assms by (auto simp: wf_store_def)

lemma loaded_run:
  assumes "wf_store st" "ts_runs st i = Some row"
  shows "row_state (runRowToState row)" "runColumns (runRowToState row) = Some (rr_columns row)"
    "ms_entityId (runRowToState row) = i"
proof -
  obtain s where s: "row_state s" "runColumns s = Some (rr_columns row)" and i: "rr_id row = i"
    using wf_storeD(1) [OF assms] by blast
  show "row_state (runRowToState row)" "runColumns (runRowToState row) = Some (rr_columns row)"
    using run.row_reload [OF s, of row] run.cols_reload [OF s, of row] by simp_all
  show "ms_entityId (runRowToState row) = i" using i by (simp add: runRowToState_def Let_def)
qed

lemma loaded_step:
  assumes "wf_store st" "ts_steps st i = Some row"
  shows "row_state (stepRowToState row)" "stepColumns (stepRowToState row) = Some (sr_columns row)"
    "ms_entityId (stepRowToState row) = i"
proof -
  obtain s where s: "row_state s" "stepColumns s = Some (sr_columns row)" and i: "sr_id row = i"
    using wf_storeD(2) [OF assms] by blast
  show "row_state (stepRowToState row)" "stepColumns (stepRowToState row) = Some (sr_columns row)"
    using step.row_reload [OF s, of row] step.cols_reload [OF s, of row] by simp_all
  show "ms_entityId (stepRowToState row) = i" using i by (simp add: stepRowToState_def Let_def)
qed

lemma wf_saveRun:
  assumes "wf_store st" "row_state s"
  shows "\<exists>st'. saveRunWith st i s = Inr st' \<and> wf_store st' \<and> ts_ingested st' = ts_ingested st \<and>
    ts_dropDeliveries st' = ts_dropDeliveries st"
proof -
  obtain c where "runColumns s = Some c" using run.cols_total [OF assms(2)] by auto
  thus ?thesis using assms
    by (auto simp: saveRunWith_def wf_store_def split: option.split)
qed

lemma wf_saveStep:
  assumes "wf_store st" "row_state s"
  shows "\<exists>st'. saveStepWith st i r s = Inr st' \<and> wf_store st' \<and> ts_ingested st' = ts_ingested st \<and>
    ts_dropDeliveries st' = ts_dropDeliveries st"
proof -
  obtain c where c: "stepColumns s = Some c" using step.cols_total [OF assms(2)] by auto
  obtain t where "ms_lastEventAt s = Some t" using assms(2) by (auto simp: row_state_def)
  thus ?thesis using assms c
    by (auto simp: saveStepWith_def wf_store_def split: option.split)
qed

lemma wf_touch: "wf_store st \<Longrightarrow> wf_store (touchRunLiveness st r t)"
proof -
  assume wf: "wf_store st"
  have upd: "\<exists>s. row_state s \<and> runColumns s = Some (c\<lparr>rc_lastEventAt := t\<rparr>)"
    if s: "row_state s" "runColumns s = Some c" for s c
  proof (intro exI [of _ "s\<lparr>ms_lastEventAt := Some t\<rparr>"] conjI)
    show "row_state (s\<lparr>ms_lastEventAt := Some t\<rparr>)" using s(1) by (auto simp: row_state_def wf_state_def)
    show "runColumns (s\<lparr>ms_lastEventAt := Some t\<rparr>) = Some (c\<lparr>rc_lastEventAt := t\<rparr>)"
      using s(2) by (auto simp: runColumns_def metadataColumn_def split: option.splits)
  qed
  show "wf_store (touchRunLiveness st r t)"
  proof (cases "ts_runs st r")
    case (Some row)
    obtain s where "row_state s" "runColumns s = Some (rr_columns row)" using wf_storeD(1) [OF wf Some] by blast
    from upd [OF this] wf Some show ?thesis
      by (auto simp: touchRunLiveness_def wf_store_def)
  qed (use wf in \<open>simp add: touchRunLiveness_def\<close>)
qed

lemma wf_record: "wf_store (recordIngestedEvents st r ids t) \<longleftrightarrow> wf_store st"
  by (simp add: recordIngestedEvents_def wf_store_def)

lemma wf_drop: "wf_store st \<Longrightarrow> wf_store (incrementDroppedCount st r n d t)"
  by (auto simp: incrementDroppedCount_def incrementDroppedCountRaw_def wf_store_def split: option.splits)

text \<open>Saving what was loaded changes nothing.\<close>

lemma saveRun_loaded:
  assumes "wf_store st" "ts_runs st i = Some row"
  shows "saveRunWith st i (runRowToState row) = Inr st"
proof -
  have "(ts_runs st)(i \<mapsto> row\<lparr>rr_columns := rr_columns row\<rparr>) = ts_runs st"
    using assms(2) by (auto simp: fun_eq_iff)
  thus ?thesis using loaded_run(2) [OF assms] assms(2) by (simp add: saveRunWith_def)
qed

lemma saveStep_loaded:
  assumes "wf_store st" "ts_steps st i = Some row"
  shows "saveStepWith st i r (stepRowToState row) = Inr st"
proof -
  have "(ts_steps st)(i \<mapsto> row\<lparr>sr_columns := sr_columns row\<rparr>) = ts_steps st"
    using assms(2) by (auto simp: fun_eq_iff)
  moreover have "ms_lastEventAt (stepRowToState row) \<noteq> None" by (simp add: stepRowToState_def Let_def)
  ultimately show ?thesis using loaded_step(2) [OF assms] assms(2) by (auto simp: saveStepWith_def)
qed

lemma recorded_ids:
  "ts_ingested (recordIngestedEvents st r ids t) (r', e) = None \<longleftrightarrow>
     ts_ingested st (r', e) = None \<and> \<not> (r' = r \<and> e \<in> set ids)"
proof -
  have "fold (\<lambda>e m. if m (r, e) = None then m((r, e) \<mapsto> t) else m) ids m0 (r', e) = None \<longleftrightarrow>
      m0 (r', e) = None \<and> \<not> (r' = r \<and> e \<in> set ids)" for m0 :: "jstr \<times> jstr \<rightharpoonup> int"
    by (induction ids arbitrary: m0) auto
  thus ?thesis by (simp add: recordIngestedEvents_def)
qed

end
