(* ===== verification/Entity_Writers.thy ===== *)
theory Entity_Writers
  imports Telemetry_Store
begin

text \<open>
  The five event types outside the merge fold: \<^verbatim>\<open>platform/api/src/decisions\<close>,
  \<^verbatim>\<open>model-call\<close>, \<^verbatim>\<open>tool-call\<close> and \<^verbatim>\<open>error\<close>.  Each event is resolved into the columns of its
  table and written by one upsert.  A Decision has two independent writers, the recording and the
  attestation; the main fact here is that they commute.
\<close>

section \<open>Rows\<close>

datatype OutcomeAttestedBy = CALLER | ATTESTED_UNKNOWN

record DecisionRow =
  dr_runId :: jstr
  dr_stepId :: json
  dr_decisionType :: json
  dr_contextKey :: json
  dr_contextKeyVersion :: json
  dr_rawContext :: json
  dr_availableOptions :: json
  dr_selectedOption :: json
  dr_outcome :: json
  dr_outcomeAttestedBy :: OutcomeAttestedBy
  dr_outcomeObservedAt :: "int option"

record ModelCallRow =
  mr_runId :: jstr
  mr_stepId :: json
  mr_provider :: json
  mr_model :: json
  mr_latencyMs :: json
  mr_inputTokens :: json
  mr_outputTokens :: json
  mr_status :: json
  mr_metadata :: json

record ToolCallRow =
  tr_runId :: jstr
  tr_stepId :: json
  tr_toolName :: json
  tr_input :: json
  tr_output :: json
  tr_inputTruncated :: json
  tr_outputTruncated :: json
  tr_inputBytes :: json
  tr_outputBytes :: json
  tr_startedAt :: int
  tr_completedAt :: int
  tr_durationMs :: json
  tr_success :: json
  tr_error :: json

record ErrorRow =
  er_runId :: jstr
  er_stepId :: json
  er_type :: json
  er_message :: json
  er_metadata :: json

record PlatformStore =
  ps_telemetry :: TelemetryStore
  ps_decisions :: "jstr \<rightharpoonup> DecisionRow"
  ps_modelCalls :: "jstr \<rightharpoonup> ModelCallRow"
  ps_toolCalls :: "jstr \<rightharpoonup> ToolCallRow"
  ps_errors :: "jstr \<rightharpoonup> ErrorRow"

text \<open>\<^verbatim>\<open>payload.k\<close> of a field the schema makes present, or \<^verbatim>\<open>payload.k ?? null\<close>.\<close>

definition pget :: "TelemetryEvent \<Rightarrow> string \<Rightarrow> json" where
  "pget event k = coalesce (jget (te_payload event) (js k)) JNull"

definition json_date :: "json \<Rightarrow> int option" where
  "json_date v = (case v of JStr s \<Rightarrow> date_parse s | _ \<Rightarrow> None)"

section \<open>Decisions\<close>

record DecisionAttestation =
  da_decisionId :: jstr
  da_runId :: jstr
  da_outcome :: json
  da_outcomeAttestedBy :: OutcomeAttestedBy
  da_outcomeObservedAt :: "int option"

definition toDecisionAttestation :: "TelemetryEvent \<Rightarrow> DecisionAttestation" where
  "toDecisionAttestation event = \<lparr>
     da_decisionId = te_entityId event,
     da_runId = te_runId event,
     da_outcome = pget event ''outcome'',
     da_outcomeAttestedBy = CALLER,
     da_outcomeObservedAt = json_date
       (if nullish (jget (te_payload event) (js ''observedAt'')) then JStr (te_occurredAt event)
        else pget event ''observedAt'')\<rparr>"

record DecisionRecordWrite =
  dw_decisionId :: jstr
  dw_runId :: jstr
  dw_stepId :: json
  dw_decisionType :: json
  dw_contextKey :: json
  dw_contextKeyVersion :: json
  dw_rawContext :: json
  dw_availableOptions :: json
  dw_selectedOption :: json

definition toDecisionRecordWrite :: "TelemetryEvent \<Rightarrow> DecisionRecordWrite" where
  "toDecisionRecordWrite event = \<lparr>
     dw_decisionId = te_entityId event,
     dw_runId = te_runId event,
     dw_stepId = pget event ''stepId'',
     dw_decisionType = pget event ''decisionType'',
     dw_contextKey = pget event ''contextKey'',
     dw_contextKeyVersion = pget event ''contextKeyVersion'',
     dw_rawContext = pget event ''rawContext'',
     dw_availableOptions = pget event ''availableOptions'',
     dw_selectedOption = pget event ''selectedOption''\<rparr>"

text \<open>The columns of a new row that neither writer names are the database's defaults.\<close>

definition blankDecision :: "jstr \<Rightarrow> DecisionRow" where
  "blankDecision runId = \<lparr>dr_runId = runId, dr_stepId = JNull, dr_decisionType = JNull, dr_contextKey = JNull,
     dr_contextKeyVersion = JNull, dr_rawContext = JNull, dr_availableOptions = JNull,
     dr_selectedOption = JNull, dr_outcome = JStr (js ''UNKNOWN''),
     dr_outcomeAttestedBy = ATTESTED_UNKNOWN, dr_outcomeObservedAt = None\<rparr>"

text \<open>The column bags \<^verbatim>\<open>recorded\<close> and \<^verbatim>\<open>attested\<close>, applied to a row.\<close>

definition recordedColumns :: "DecisionRecordWrite \<Rightarrow> DecisionRow \<Rightarrow> DecisionRow" where
  "recordedColumns w row = row\<lparr>dr_runId := dw_runId w, dr_stepId := dw_stepId w,
     dr_decisionType := dw_decisionType w, dr_contextKey := dw_contextKey w,
     dr_contextKeyVersion := dw_contextKeyVersion w, dr_rawContext := dw_rawContext w,
     dr_availableOptions := dw_availableOptions w, dr_selectedOption := dw_selectedOption w\<rparr>"

definition attestedColumns :: "DecisionAttestation \<Rightarrow> int \<Rightarrow> DecisionRow \<Rightarrow> DecisionRow" where
  "attestedColumns a observedAt row = row\<lparr>dr_outcome := da_outcome a,
     dr_outcomeAttestedBy := da_outcomeAttestedBy a, dr_outcomeObservedAt := Some observedAt\<rparr>"

definition recordDecision :: "DecisionRecordWrite \<Rightarrow> PlatformStore \<Rightarrow> PlatformStore" where
  "recordDecision w st =
     (let base = coalesce (ps_decisions st (dw_decisionId w)) (blankDecision (dw_runId w))
      in st\<lparr>ps_decisions := (ps_decisions st)(dw_decisionId w \<mapsto> recordedColumns w base)\<rparr>)"

definition attestOutcome :: "DecisionAttestation \<Rightarrow> PlatformStore \<Rightarrow> PersistError + PlatformStore" where
  "attestOutcome a st =
     (case da_outcomeObservedAt a of
        None \<Rightarrow> Inl InvalidDate
      | Some t \<Rightarrow>
          (let base = coalesce (ps_decisions st (da_decisionId a)) (blankDecision (da_runId a))
           in Inr (st\<lparr>ps_decisions := (ps_decisions st)(da_decisionId a \<mapsto> attestedColumns a t base)\<rparr>)))"

section \<open>Model calls, tool calls, errors\<close>

definition toModelCallWrite :: "TelemetryEvent \<Rightarrow> ModelCallRow" where
  "toModelCallWrite event = \<lparr>mr_runId = te_runId event, mr_stepId = pget event ''stepId'',
     mr_provider = pget event ''provider'', mr_model = pget event ''model'',
     mr_latencyMs = pget event ''latencyMs'', mr_inputTokens = pget event ''inputTokens'',
     mr_outputTokens = pget event ''outputTokens'', mr_status = pget event ''status'',
     mr_metadata = pget event ''metadata''\<rparr>"

definition recordModelCall :: "TelemetryEvent \<Rightarrow> PlatformStore \<Rightarrow> PlatformStore" where
  "recordModelCall event st =
     st\<lparr>ps_modelCalls := (ps_modelCalls st)(te_entityId event \<mapsto> toModelCallWrite event)\<rparr>"

definition toToolCallWrite :: "TelemetryEvent \<Rightarrow> ToolCallRow option" where
  "toToolCallWrite event =
     (case (json_date (pget event ''startedAt''), json_date (pget event ''completedAt'')) of
        (Some sa, Some ca) \<Rightarrow> Some \<lparr>tr_runId = te_runId event, tr_stepId = pget event ''stepId'',
          tr_toolName = pget event ''toolName'', tr_input = pget event ''input'', tr_output = pget event ''output'',
          tr_inputTruncated = pget event ''inputTruncated'', tr_outputTruncated = pget event ''outputTruncated'',
          tr_inputBytes = pget event ''inputBytes'', tr_outputBytes = pget event ''outputBytes'',
          tr_startedAt = sa, tr_completedAt = ca, tr_durationMs = pget event ''durationMs'',
          tr_success = pget event ''success'', tr_error = pget event ''error''\<rparr>
      | _ \<Rightarrow> None)"

definition recordToolCall :: "TelemetryEvent \<Rightarrow> PlatformStore \<Rightarrow> PersistError + PlatformStore" where
  "recordToolCall event st =
     (case toToolCallWrite event of
        None \<Rightarrow> Inl InvalidDate
      | Some row \<Rightarrow> Inr (st\<lparr>ps_toolCalls := (ps_toolCalls st)(te_entityId event \<mapsto> row)\<rparr>))"

definition toErrorRecordWrite :: "TelemetryEvent \<Rightarrow> ErrorRow" where
  "toErrorRecordWrite event = \<lparr>er_runId = te_runId event, er_stepId = pget event ''stepId'',
     er_type = pget event ''type'', er_message = pget event ''message'', er_metadata = pget event ''metadata''\<rparr>"

definition recordError :: "TelemetryEvent \<Rightarrow> PlatformStore \<Rightarrow> PlatformStore" where
  "recordError event st =
     st\<lparr>ps_errors := (ps_errors st)(te_entityId event \<mapsto> toErrorRecordWrite event)\<rparr>"

text \<open>\<^verbatim>\<open>writeEntityEvent\<close> of the telemetry service: the switch over the five types.\<close>

definition writeEntityEvent :: "TelemetryEvent \<Rightarrow> PlatformStore \<Rightarrow> PersistError + PlatformStore" where
  "writeEntityEvent event st = (case te_type event of
     DecisionRecorded \<Rightarrow> Inr (recordDecision (toDecisionRecordWrite event) st)
   | DecisionOutcomeAttested \<Rightarrow> attestOutcome (toDecisionAttestation event) st
   | ModelCallRecorded \<Rightarrow> Inr (recordModelCall event st)
   | ToolCallRecorded \<Rightarrow> recordToolCall event st
   | ErrorRecorded \<Rightarrow> Inr (recordError event st)
   | _ \<Rightarrow> Inr st)"

section \<open>Properties\<close>

lemma writeEntityEvent_telemetry [store_frame]:
  "writeEntityEvent event st = Inr st' \<Longrightarrow> ps_telemetry st' = ps_telemetry st"
  by (auto simp: writeEntityEvent_def recordDecision_def attestOutcome_def recordModelCall_def
      recordToolCall_def recordError_def Let_def split: TelemetryEventType.splits option.splits)

lemma column_bags_commute:
  "recordedColumns w (attestedColumns a t row) = attestedColumns a t (recordedColumns w row)"
  by (cases row) (simp add: recordedColumns_def attestedColumns_def)

lemma column_bags_idempotent:
  "recordedColumns w (recordedColumns w row) = recordedColumns w row"
  "attestedColumns a t (attestedColumns a t row) = attestedColumns a t row"
  by (simp_all add: recordedColumns_def attestedColumns_def)

lemma recordedColumns_blank: "recordedColumns w (blankDecision r) = recordedColumns w (blankDecision r')"
  by (simp add: recordedColumns_def blankDecision_def)

text \<open>The two writers of a Decision are independent: recording a decision and attesting an
  outcome, for the same or for different decisions, give the same table in either order, so an
  attestation that arrives before its decision is neither lost nor blanks anything.\<close>

theorem decision_writers_commute:
  "map_sum id (recordDecision w) (attestOutcome a st) = attestOutcome a (recordDecision w st)"
proof (cases "da_outcomeObservedAt a")
  case (Some t)
  show ?thesis
    by (cases "ps_decisions st (dw_decisionId w)"; cases "ps_decisions st (da_decisionId a)";
        cases "dw_decisionId w = da_decisionId a")
      (simp_all add: attestOutcome_def recordDecision_def Some Let_def column_bags_commute
        recordedColumns_blank [of w "da_runId a" "dw_runId w"] fun_upd_twist)
qed (simp add: attestOutcome_def)

text \<open>A replayed entity event changes nothing: writing any of the five kinds of event twice in a
  row leaves the tables as one write leaves them.\<close>

theorem entity_write_idempotent:
  assumes "writeEntityEvent event st = Inr st'"
  shows "writeEntityEvent event st' = Inr st'"
  using assms
  by (auto simp: writeEntityEvent_def recordDecision_def attestOutcome_def recordModelCall_def
      recordToolCall_def recordError_def Let_def column_bags_idempotent
      split: TelemetryEventType.splits option.splits)

definition empty_platform :: PlatformStore where
  "empty_platform = \<lparr>ps_telemetry = \<lparr>ts_runs = Map.empty, ts_steps = Map.empty, ts_ingested = Map.empty,
       ts_dropDeliveries = Map.empty\<rparr>, ps_decisions = Map.empty, ps_modelCalls = Map.empty,
     ps_toolCalls = Map.empty, ps_errors = Map.empty\<rparr>"

definition ev_attested :: TelemetryEvent where
  "ev_attested = \<lparr>te_eventId = js ''a1'', te_schemaVersion = js ''2'', te_type = DecisionOutcomeAttested,
     te_entityId = js ''d'', te_runId = js ''r'', te_occurredAt = js ''2024-05-01T10:00:00Z'',
     te_payload = JObj [(js ''outcome'', JStr (js ''SUCCESS''))]\<rparr>"

theorem entity_write_idempotent_witness:
  "\<exists>st. writeEntityEvent ev_attested empty_platform = Inr st \<and> writeEntityEvent ev_attested st = Inr st"
proof -
  have "da_outcomeObservedAt (toDecisionAttestation ev_attested) \<noteq> None" by code_simp
  then obtain st where "writeEntityEvent ev_attested empty_platform = Inr st"
    by (auto simp: writeEntityEvent_def attestOutcome_def ev_attested_def Let_def)
  thus ?thesis using entity_write_idempotent by blast
qed

end
