(* ===== verification/Buckets.thy ===== *)
theory Buckets
  imports Prelude
begin

text \<open>
  Grouping a list by a key with a JavaScript \<^verbatim>\<open>Map\<close> of arrays: \<^verbatim>\<open>get\<close> the bucket of the key, create
  it if it is missing, \<^verbatim>\<open>push\<close> the item.  A \<^verbatim>\<open>Map\<close> enumerates its keys in insertion order, so the
  result is a list of buckets in order of first occurrence.  The program groups this way when it
  collects the events of one entity, the decisions of one group and the attempts of one streak.
\<close>

fun bucket_add :: "'k \<Rightarrow> 'v \<Rightarrow> ('k \<times> 'v list) list \<Rightarrow> ('k \<times> 'v list) list" where
  "bucket_add k v [] = [(k, [v])]"
| "bucket_add k v ((k', vs) # bs) =
     (if k' = k then (k', vs @ [v]) # bs else (k', vs) # bucket_add k v bs)"

definition buckets :: "('v \<Rightarrow> 'k) \<Rightarrow> 'v list \<Rightarrow> ('k \<times> 'v list) list" where
  "buckets key xs = fold (\<lambda>x. bucket_add (key x) x) xs []"

lemma buckets_snoc [simp]: "buckets key (xs @ [x]) = bucket_add (key x) x (buckets key xs)"
  by (simp add: buckets_def)

lemma buckets_Nil [simp]: "buckets key [] = []"
  by (simp add: buckets_def)

lemma bucket_add_keys:
  "map fst (bucket_add k v bs) = (if k \<in> fst ` set bs then map fst bs else map fst bs @ [k])"
  by (induction k v bs rule: bucket_add.induct) auto

lemma bucket_add_lookup:
  "map_of (bucket_add k v bs) k' =
     (if k' = k then Some (coalesce (map_of bs k) [] @ [v]) else map_of bs k')"
  by (induction k v bs rule: bucket_add.induct) auto

lemma buckets_keys_set: "fst ` set (buckets key xs) = key ` set xs"
proof (induction xs rule: rev_induct)
  case (snoc x xs)
  have "set (map fst (buckets key (xs @ [x]))) = insert (key x) (set (map fst (buckets key xs)))"
    unfolding buckets_snoc bucket_add_keys by auto
  thus ?case using snoc by simp
qed simp

lemma buckets_distinct: "distinct (map fst (buckets key xs))"
  by (induction xs rule: rev_induct) (auto simp: bucket_add_keys)

lemma buckets_lookup:
  "map_of (buckets key xs) k = (if k \<in> key ` set xs then Some (filter (\<lambda>x. key x = k) xs) else None)"
proof (induction xs rule: rev_induct)
  case (snoc x xs)
  have "filter (\<lambda>x. key x = k) xs = []" if "k \<notin> key ` set xs" using that by (auto simp: filter_empty_conv)
  thus ?case using snoc by (auto simp: bucket_add_lookup)
qed simp

text \<open>Each bucket holds exactly the items of its key, in order, and is never empty.\<close>

lemma bucket_items:
  assumes "(k, vs) \<in> set (buckets key xs)"
  shows "vs = filter (\<lambda>x. key x = k) xs" "vs \<noteq> []" "k \<in> key ` set xs"
proof -
  have "map_of (buckets key xs) k = Some vs"
    using assms buckets_distinct by (metis map_of_is_SomeI)
  thus "vs = filter (\<lambda>x. key x = k) xs" "k \<in> key ` set xs"
    by (auto simp: buckets_lookup split: if_splits)
  thus "vs \<noteq> []" by (auto simp: filter_empty_conv)
qed

lemma bucket_add_mset: "mset (concat (map snd (bucket_add k v bs))) = add_mset v (mset (concat (map snd bs)))"
  by (induction k v bs rule: bucket_add.induct) auto

text \<open>Nothing is lost and nothing is counted twice.\<close>

lemma buckets_mset: "mset (concat (map snd (buckets key xs))) = mset xs"
  by (induction xs rule: rev_induct) (auto simp: bucket_add_mset)

lemma buckets_set: "set (concat (map snd (buckets key xs))) = set xs"
  by (metis buckets_mset set_mset_mset)

lemma buckets_total_length: "sum_list (map (length \<circ> snd) (buckets key xs)) = length xs"
  by (metis buckets_mset length_concat map_map size_mset)

text \<open>Keys come in order of first occurrence.\<close>

lemma buckets_keys: "map fst (buckets key xs) = rev (remdups (rev (map key xs)))"
proof (induction xs rule: rev_induct)
  case (snoc x xs)
  have "key x \<in> fst ` set (buckets key xs) \<longleftrightarrow> key x \<in> key ` set xs" by (simp add: buckets_keys_set)
  thus ?case using snoc by (simp add: bucket_add_keys)
qed simp

end
