(* ===== verification/Json_Size.thy ===== *)
theory Json_Size
  imports Wire_Sanitize
begin

text \<open>
  The number of bytes of the UTF-8 encoding of \<^verbatim>\<open>JSON.stringify(value)\<close>, which both sides of the wire
  compare with the limit of an event.  In a quoted string the two-character escapes, the
  six-character ones (controls and lone surrogates) and plain characters take 2, 6 and 1 to 4
  bytes; \<open>num\<close> is the length of a printed number.
\<close>

definition char_bytes :: "jchar \<Rightarrow> nat" where
  "char_bytes c =
     (if c \<in> {8, 9, 10, 12, 13, 34, 92} then 2 else if c < 32 then 6
      else if c < 0x80 then 1 else if c < 0x800 then 2 else 3)"

fun string_bytes :: "jstr \<Rightarrow> nat" where
  "string_bytes [] = 0"
| "string_bytes (c # s) =
     (if is_high_surrogate c then
        (case s of
           n # s' \<Rightarrow> if is_low_surrogate n then 4 + string_bytes s' else 6 + string_bytes s
         | [] \<Rightarrow> 6)
      else if is_low_surrogate c then 6 + string_bytes s
      else char_bytes c + string_bytes s)"

fun json_bytes :: "(rat \<Rightarrow> nat) \<Rightarrow> json \<Rightarrow> nat" where
  "json_bytes num JNull = 4"
| "json_bytes num (JBool b) = (if b then 4 else 5)"
| "json_bytes num (JNum q) = num q"
| "json_bytes num (JStr s) = 2 + string_bytes s"
| "json_bytes num (JArr xs) = 2 + sum_list (map (json_bytes num) xs) + (length xs - 1)"
| "json_bytes num (JObj kvs) =
     2 + sum_list (map (\<lambda>(k, v). 2 + string_bytes k + 1 + json_bytes num v) kvs) + (length kvs - 1)"

end
