(* ===== verification/Telemetry_Service.thy ===== *)
theory Telemetry_Service
  imports Entity_Writers Buckets Json_Size
begin

text \<open>
  \<^verbatim>\<open>platform/api/src/telemetry/telemetry.service.ts\<close>: one ingest request.  Raw events are triaged
  one by one, the mergeable ones are grouped by entity and each group is folded and saved in one
  transaction, the others are written in batch order, and the reported drop count is folded into
  every run the batch names.  Arguments of the model: the schema library, the length of a printed
  number, the server clock, the response id, and \<open>fails\<close>, which says which database operations
  raise and what.
\<close>

section \<open>Size of an event\<close>

text \<open>\<^verbatim>\<open>Buffer.byteLength(JSON.stringify(raw), 'utf8')\<close>.\<close>

definition serializedByteLength :: "(rat \<Rightarrow> nat) \<Rightarrow> json \<Rightarrow> nat" where
  "serializedByteLength num raw = json_bytes num raw"

section \<open>Results\<close>

datatype IngestResultStatus = ACCEPTED | DUPLICATE | REJECTED

record IngestResult =
  ir_eventId :: jstr
  ir_status :: IngestResultStatus
  ir_error :: "(IngestErrorCode \<times> RejectMessage) option"

definition rejectedResult :: "jstr \<Rightarrow> IngestErrorCode \<Rightarrow> RejectMessage \<Rightarrow> IngestResult" where
  "rejectedResult eventId code message = \<lparr>ir_eventId = eventId, ir_status = REJECTED, ir_error = Some (code, message)\<rparr>"

definition okResult :: "jstr \<Rightarrow> IngestResultStatus \<Rightarrow> IngestResult" where
  "okResult eventId status = \<lparr>ir_eventId = eventId, ir_status = status, ir_error = None\<rparr>"

record IngestResponse =
  rs_batchId :: jstr
  rs_accepted :: nat
  rs_duplicate :: nat
  rs_rejected :: nat
  rs_results :: "IngestResult option list"

section \<open>Triage of one raw event\<close>

datatype EventClassification =
    ClsRejected IngestResult "jstr option"
  | ClsMerge TelemetryEvent
  | ClsWrite TelemetryEvent

definition readEventIdBestEffort :: "zod_parser \<Rightarrow> json \<Rightarrow> jstr" where
  "readEventIdBestEffort safeParse raw =
     (case raw of
        JObj _ \<Rightarrow> (case safeParse IdSchema (jget raw (js ''eventId'')) of Inr (JStr s) \<Rightarrow> s | _ \<Rightarrow> [])
      | _ \<Rightarrow> [])"

text \<open>The event object as the unicode screen walks it.\<close>

definition event_json :: "TelemetryEvent \<Rightarrow> json" where
  "event_json event = JObj [(js ''eventId'', JStr (te_eventId event)),
     (js ''schemaVersion'', JStr (te_schemaVersion event)), (js ''type'', JStr (event_type_name (te_type event))),
     (js ''entityId'', JStr (te_entityId event)), (js ''runId'', JStr (te_runId event)),
     (js ''occurredAt'', JStr (te_occurredAt event)), (js ''payload'', te_payload event)]"

definition classifyEvent :: "zod_parser \<Rightarrow> (rat \<Rightarrow> nat) \<Rightarrow> json \<Rightarrow> EventClassification" where
  "classifyEvent safeParse num raw =
     (if maxEventPayloadBytes < serializedByteLength num raw
      then ClsRejected (rejectedResult (readEventIdBestEffort safeParse raw) EVENT_TOO_LARGE MsgTooLarge) None
      else case parseTelemetryEvent safeParse raw of
        ParseReject eventId code message \<Rightarrow> ClsRejected (rejectedResult eventId code message) None
      | ParseOk event \<Rightarrow>
          (let reject = (\<lambda>code message. ClsRejected (rejectedResult (te_eventId event) code message) (Some (te_runId event)))
           in if exceedsMaxStructuralDepth (te_payload event) MAX_STRUCTURAL_DEPTH
              then reject INVALID_PAYLOAD MsgTooDeep
              else if containsUnsafeUnicode (event_json event) then reject INVALID_PAYLOAD MsgUnsafeUnicode
              else if isPostgresUnrepresentableTimestamp (te_occurredAt event) then reject INVALID_PAYLOAD MsgOccurredAt
              else case unrepresentablePayloadReason event of
                Some message \<Rightarrow> reject INVALID_PAYLOAD message
              | None \<Rightarrow>
                  if isMergeableEvent event then ClsMerge event
                  else if entityKindOf (te_type event) = None
                  then reject EVENT_TYPE_NOT_INGESTIBLE (MsgNotIngestible (event_type_name (te_type event)))
                  else ClsWrite event))"

section \<open>Persistence failures\<close>

definition KNOWN_DEPENDENCY_UNAVAILABLE_CODES :: "jstr list" where
  "KNOWN_DEPENDENCY_UNAVAILABLE_CODES =
     [js ''ECONNREFUSED'', js ''P2021'', js ''P2022'', js ''P2024'', js ''P2028'']"

definition RETRYABLE_RAW_QUERY_SQLSTATES :: "jstr list" where
  "RETRYABLE_RAW_QUERY_SQLSTATES = [js ''57014'']"

definition PRISMA_ERROR_NAMES :: "jstr list" where
  "PRISMA_ERROR_NAMES = [js ''PrismaClientKnownRequestError'', js ''PrismaClientUnknownRequestError'',
     js ''PrismaClientInitializationError'', js ''PrismaClientRustPanicError'']"

definition errorCode :: "JsError \<Rightarrow> jstr option" where
  "errorCode err = (case je_code err of Some (JStr s) \<Rightarrow> Some s | _ \<Rightarrow> None)"

definition rawQuerySqlState :: "JsError \<Rightarrow> jstr option" where
  "rawQuerySqlState err =
     (case je_meta err of None \<Rightarrow> None
      | Some meta \<Rightarrow>
        (case jget meta (js ''driverAdapterError'') of None \<Rightarrow> None
         | Some driverAdapterError \<Rightarrow>
           (case jget driverAdapterError (js ''cause'') of None \<Rightarrow> None
            | Some cause \<Rightarrow>
              (case jget cause (js ''originalCode'') of Some (JStr s) \<Rightarrow> Some s | _ \<Rightarrow> None))))"

text \<open>\<^verbatim>\<open>/^P10\d\d$/\<close>.\<close>

definition is_P10dd :: "jstr \<Rightarrow> bool" where
  "is_P10dd s \<longleftrightarrow> length s = 5 \<and> take 3 s = js ''P10'' \<and> (\<forall>c \<in> set (drop 3 s). 48 \<le> c \<and> c \<le> 57)"

definition isKnownDependencyUnavailable :: "JsError \<Rightarrow> bool" where
  "isKnownDependencyUnavailable err =
     (if \<not> je_isError err \<or> je_name err \<notin> set PRISMA_ERROR_NAMES then False
      else if je_name err \<noteq> js ''PrismaClientKnownRequestError'' then True
      else case errorCode err of None \<Rightarrow> False
      | Some code \<Rightarrow>
          if code = js ''P2010''
          then (case rawQuerySqlState err of None \<Rightarrow> False | Some st \<Rightarrow> st \<in> set RETRYABLE_RAW_QUERY_SQLSTATES)
          else code \<in> set KNOWN_DEPENDENCY_UNAVAILABLE_CODES \<or> is_P10dd code)"

text \<open>The HTTP status the caller sees.  What the reducer and an invalid date raise is not a driver
  error.\<close>

definition classifyPersistenceFailure :: "PersistError \<Rightarrow> nat" where
  "classifyPersistenceFailure err = (case err of
     DriverError e \<Rightarrow> if isKnownDependencyUnavailable e then 503 else 500
   | _ \<Rightarrow> 500)"

datatype IoOp = GroupTransaction EntityKind jstr | EntityWrite nat | DropFold jstr

type_synonym io_failures = "IoOp \<Rightarrow> JsError option"

section \<open>The request\<close>

type_synonym BatchItem = "nat \<times> TelemetryEvent"

record Triage =
  tg_results :: "IngestResult option list"
  tg_rejected :: nat
  tg_merge :: "BatchItem list"
  tg_writes :: "BatchItem list"
  tg_runIds :: "jstr list"

text \<open>\<^verbatim>\<open>Set.add\<close>, in insertion order.\<close>

definition set_add :: "'a \<Rightarrow> 'a list \<Rightarrow> 'a list" where
  "set_add x xs = (if x \<in> set xs then xs else xs @ [x])"

definition triageEvent :: "zod_parser \<Rightarrow> (rat \<Rightarrow> nat) \<Rightarrow> nat \<times> json \<Rightarrow> Triage \<Rightarrow> Triage" where
  "triageEvent safeParse num = (\<lambda>(index, raw) tg.
     case classifyEvent safeParse num raw of
       ClsRejected result runId \<Rightarrow>
         tg\<lparr>tg_results := (tg_results tg)[index := Some result], tg_rejected := tg_rejected tg + 1,
            tg_runIds := (case runId of None \<Rightarrow> tg_runIds tg | Some r \<Rightarrow> set_add r (tg_runIds tg))\<rparr>
     | ClsMerge event \<Rightarrow>
         tg\<lparr>tg_merge := tg_merge tg @ [(index, event)], tg_runIds := set_add (te_runId event) (tg_runIds tg)\<rparr>
     | ClsWrite event \<Rightarrow>
         tg\<lparr>tg_writes := tg_writes tg @ [(index, event)], tg_runIds := set_add (te_runId event) (tg_runIds tg)\<rparr>)"

definition triage :: "zod_parser \<Rightarrow> (rat \<Rightarrow> nat) \<Rightarrow> json list \<Rightarrow> Triage" where
  "triage safeParse num rawEvents =
     fold (triageEvent safeParse num) (enumerate 0 rawEvents)
       \<lparr>tg_results = replicate (length rawEvents) None, tg_rejected = 0, tg_merge = [], tg_writes = [], tg_runIds = []\<rparr>"

definition kind_prefix :: "EntityKind \<Rightarrow> jstr" where
  "kind_prefix kind = (if kind = KRun then js ''run:'' else js ''step:'')"

definition groupKey :: "BatchItem \<Rightarrow> jstr" where
  "groupKey item = kind_prefix (mergeEntityKindOf (snd item)) @ te_entityId (snd item)"

record EntityGroup =
  eg_kind :: EntityKind
  eg_entityId :: jstr
  eg_runId :: jstr
  eg_items :: "BatchItem list"

text \<open>A group takes its kind, entity and run from the event that created it.\<close>

definition entityGroup :: "BatchItem list \<Rightarrow> EntityGroup" where
  "entityGroup items = (let first = snd (hd items) in
     \<lparr>eg_kind = mergeEntityKindOf first, eg_entityId = te_entityId first, eg_runId = te_runId first, eg_items = items\<rparr>)"

definition entityGroups :: "BatchItem list \<Rightarrow> EntityGroup list" where
  "entityGroups items = map (entityGroup \<circ> snd) (buckets groupKey items)"

type_synonym outcome = "nat \<times> IngestResult"

fun foldGroupItems ::
  "int \<Rightarrow> BatchItem list \<Rightarrow> EntityMergeState option \<Rightarrow> jstr list \<Rightarrow>
   PersistError + (EntityMergeState option \<times> jstr list \<times> outcome list)" where
  "foldGroupItems receivedAt [] state seen = Inr (state, [], [])"
| "foldGroupItems receivedAt ((index, event) # rest) state seen =
     (if te_eventId event \<in> set seen then
        (case foldGroupItems receivedAt rest state seen of
           Inl err \<Rightarrow> Inl err
         | Inr (s, ids, outs) \<Rightarrow> Inr (s, ids, (index, okResult (te_eventId event) DUPLICATE) # outs))
      else
        (case toMergeEvent event receivedAt of
           None \<Rightarrow> Inl NotMergeable
         | Some m \<Rightarrow>
           (case mergeEvent state m of
              Inl err \<Rightarrow> Inl (FoldRaised err)
            | Inr s1 \<Rightarrow>
              (case foldGroupItems receivedAt rest (Some s1) (te_eventId event # seen) of
                 Inl err \<Rightarrow> Inl err
               | Inr (s, ids, outs) \<Rightarrow>
                   Inr (s, te_eventId event # ids, (index, okResult (te_eventId event) ACCEPTED) # outs)))))"

definition persistGroup ::
  "io_failures \<Rightarrow> int \<Rightarrow> EntityGroup \<Rightarrow> TelemetryStore \<Rightarrow> PersistError + (TelemetryStore \<times> outcome list)" where
  "persistGroup fails receivedAt grp st =
     (case fails (GroupTransaction (eg_kind grp) (eg_entityId grp)) of
        Some err \<Rightarrow> Inl (DriverError err)
      | None \<Rightarrow> withEntityLock (eg_kind grp) (eg_entityId grp) (eg_runId grp)
          (map (te_eventId \<circ> snd) (eg_items grp)) receivedAt (foldGroupItems receivedAt (eg_items grp)) st)"

record Tally =
  ta_results :: "IngestResult option list"
  ta_accepted :: nat
  ta_duplicate :: nat
  ta_rejected :: nat

definition tallyOutcome :: "outcome \<Rightarrow> Tally \<Rightarrow> Tally" where
  "tallyOutcome = (\<lambda>(index, result) ta.
     (case ir_status result of
        DUPLICATE \<Rightarrow> ta\<lparr>ta_duplicate := ta_duplicate ta + 1\<rparr>
      | REJECTED \<Rightarrow> ta\<lparr>ta_rejected := ta_rejected ta + 1\<rparr>
      | ACCEPTED \<Rightarrow> ta\<lparr>ta_accepted := ta_accepted ta + 1\<rparr>)\<lparr>ta_results := (ta_results ta)[index := Some result]\<rparr>)"

text \<open>A failure ends the request with a status and the store as it is then.\<close>

fun persistGroups ::
  "io_failures \<Rightarrow> int \<Rightarrow> EntityGroup list \<Rightarrow> Tally \<Rightarrow> PlatformStore \<Rightarrow> (nat \<times> PlatformStore) + (Tally \<times> PlatformStore)" where
  "persistGroups fails receivedAt [] ta st = Inr (ta, st)"
| "persistGroups fails receivedAt (grp # rest) ta st =
     (case persistGroup fails receivedAt grp (ps_telemetry st) of
        Inl err \<Rightarrow> Inl (classifyPersistenceFailure err, st)
      | Inr (tst, outs) \<Rightarrow>
          persistGroups fails receivedAt rest (fold tallyOutcome outs ta) (st\<lparr>ps_telemetry := tst\<rparr>))"

fun persistEntityWrites ::
  "io_failures \<Rightarrow> BatchItem list \<Rightarrow> Tally \<Rightarrow> PlatformStore \<Rightarrow> (nat \<times> PlatformStore) + (Tally \<times> PlatformStore)" where
  "persistEntityWrites fails [] ta st = Inr (ta, st)"
| "persistEntityWrites fails ((index, event) # rest) ta st =
     (case (case fails (EntityWrite index) of Some err \<Rightarrow> Inl (DriverError err) | None \<Rightarrow> writeEntityEvent event st) of
        Inl err \<Rightarrow> Inl (classifyPersistenceFailure err, st)
      | Inr st' \<Rightarrow> persistEntityWrites fails rest
          (ta\<lparr>ta_results := (ta_results ta)[index := Some (okResult (te_eventId event) ACCEPTED)],
              ta_accepted := ta_accepted ta + 1\<rparr>) st')"

text \<open>A failing drop fold is logged and skipped.\<close>

definition foldDropped ::
  "io_failures \<Rightarrow> int option \<Rightarrow> jstr option \<Rightarrow> int \<Rightarrow> jstr list \<Rightarrow> TelemetryStore \<Rightarrow> TelemetryStore" where
  "foldDropped fails dropped deliveryId receivedAt runIds st =
     (case dropped of
        None \<Rightarrow> st
      | Some amount \<Rightarrow>
          fold (\<lambda>runId st. case fails (DropFold runId) of
              Some _ \<Rightarrow> st | None \<Rightarrow> incrementDroppedCount st runId amount deliveryId receivedAt) runIds st)"

datatype IngestOutcome = IngestOk IngestResponse PlatformStore | IngestFailed nat PlatformStore

definition ingest ::
  "zod_parser \<Rightarrow> (rat \<Rightarrow> nat) \<Rightarrow> io_failures \<Rightarrow> int \<Rightarrow> jstr \<Rightarrow> json list \<Rightarrow> int option \<Rightarrow> jstr option \<Rightarrow>
   PlatformStore \<Rightarrow> IngestOutcome" where
  "ingest safeParse num fails receivedAt batchId rawEvents droppedSinceLastBatch deliveryId st =
     (let tg = triage safeParse num rawEvents;
          ta0 = \<lparr>ta_results = tg_results tg, ta_accepted = 0, ta_duplicate = 0, ta_rejected = tg_rejected tg\<rparr>
      in case persistGroups fails receivedAt (entityGroups (tg_merge tg)) ta0 st of
           Inl (status, st1) \<Rightarrow> IngestFailed status st1
         | Inr (ta1, st1) \<Rightarrow>
           (case persistEntityWrites fails (tg_writes tg) ta1 st1 of
              Inl (status, st2) \<Rightarrow> IngestFailed status st2
            | Inr (ta2, st2) \<Rightarrow>
                IngestOk \<lparr>rs_batchId = batchId, rs_accepted = ta_accepted ta2, rs_duplicate = ta_duplicate ta2,
                    rs_rejected = ta_rejected ta2, rs_results = ta_results ta2\<rparr>
                  (st2\<lparr>ps_telemetry := foldDropped fails droppedSinceLastBatch deliveryId receivedAt
                        (tg_runIds tg) (ps_telemetry st2)\<rparr>)))"

end
