(* ===== verification/Ingest_Correct.thy ===== *)
theory Ingest_Correct
  imports Telemetry_Service
begin

text \<open>
  What one ingest request guarantees: every raw event gets exactly one verdict and the counts of the
  response are the counts of the verdicts; without a database failure the request never fails,
  whatever was sent; and a replayed batch changes no Run, no Step and no ledger entry.
\<close>

section \<open>Result slots\<close>

definition filled :: "IngestResult option list \<Rightarrow> nat set" where
  "filled rs = {i. i < length rs \<and> rs ! i \<noteq> None}"

definition status_count :: "IngestResultStatus \<Rightarrow> IngestResult option list \<Rightarrow> nat" where
  "status_count st rs = length (filter (pred_option (\<lambda>r. ir_status r = st)) (filter (\<lambda>r. r \<noteq> None) rs))"

lemma filter_update:
  "i < length xs \<Longrightarrow> \<not> P (xs ! i) \<Longrightarrow>
     length (filter P (xs[i := y])) = length (filter P xs) + (if P y then 1 else 0)"
  by (induction xs arbitrary: i) (auto split: nat.splits)

lemma status_count_alt: "status_count st rs = length (filter (\<lambda>r. r \<noteq> None \<and> pred_option (\<lambda>r. ir_status r = st) r) rs)"
  by (simp add: status_count_def conj_commute)

lemma slot_update:
  assumes "i < length rs" "rs ! i = None"
  shows "status_count st (rs[i := Some r]) = status_count st rs + (if ir_status r = st then 1 else 0)"
    "filled (rs[i := Some r]) = insert i (filled rs)"
  using assms by (auto simp: status_count_alt filter_update filled_def nth_list_update)

definition tally_ok :: "nat \<Rightarrow> Tally \<Rightarrow> bool" where
  "tally_ok n ta \<longleftrightarrow> length (ta_results ta) = n \<and> ta_accepted ta = status_count ACCEPTED (ta_results ta) \<and>
     ta_duplicate ta = status_count DUPLICATE (ta_results ta) \<and> ta_rejected ta = status_count REJECTED (ta_results ta)"

lemma tallyOutcome_ok:
  assumes "tally_ok n ta" "i < n" "i \<notin> filled (ta_results ta)"
  shows "tally_ok n (tallyOutcome (i, r) ta)"
    "filled (ta_results (tallyOutcome (i, r) ta)) = insert i (filled (ta_results ta))"
    "ta_results (tallyOutcome (i, r) ta) = (ta_results ta)[i := Some r]"
proof -
  have slot: "i < length (ta_results ta)" "ta_results ta ! i = None"
    using assms by (auto simp: tally_ok_def filled_def)
  show "tally_ok n (tallyOutcome (i, r) ta)"
    "filled (ta_results (tallyOutcome (i, r) ta)) = insert i (filled (ta_results ta))"
    "ta_results (tallyOutcome (i, r) ta) = (ta_results ta)[i := Some r]"
    using assms(1) slot_update [OF slot]
    by (cases "ir_status r"; simp add: tallyOutcome_def tally_ok_def)+
qed

lemma fold_tallyOutcome:
  assumes "tally_ok n ta" "distinct (map fst outs)" "\<forall>(i, _) \<in> set outs. i < n \<and> i \<notin> filled (ta_results ta)"
  shows "tally_ok n (fold tallyOutcome outs ta) \<and>
    filled (ta_results (fold tallyOutcome outs ta)) = fst ` set outs \<union> filled (ta_results ta) \<and>
    (\<forall>i < n. i \<notin> fst ` set outs \<longrightarrow> ta_results (fold tallyOutcome outs ta) ! i = ta_results ta ! i) \<and>
    (\<forall>(i, r) \<in> set outs. ta_results (fold tallyOutcome outs ta) ! i = Some r)"
  using assms
proof (induction outs arbitrary: ta)
  case (Cons out outs)
  obtain i r where out: "out = (i, r)" by force
  have i: "i < n" "i \<notin> filled (ta_results ta)" using Cons.prems(3) out by auto
  note step = tallyOutcome_ok [OF Cons.prems(1) i, of r]
  have dist: "distinct (map fst outs)" "i \<notin> fst ` set outs" using Cons.prems(2) out by auto
  have len: "length (ta_results ta) = n" using Cons.prems(1) by (simp add: tally_ok_def)
  have fresh: "\<forall>(j, _) \<in> set outs. j < n \<and> j \<notin> filled (ta_results (tallyOutcome (i, r) ta))"
  proof (clarify)
    fix j q assume j: "(j, q) \<in> set outs"
    hence "j \<noteq> i" using dist(2) by (metis fst_conv image_eqI)
    thus "j < n \<and> j \<notin> filled (ta_results (tallyOutcome (i, r) ta))"
      using Cons.prems(3) j unfolding step(2) by auto
  qed
  note IH = Cons.IH [OF step(1) dist(1) fresh, unfolded step(2,3)]
  have at_i: "ta_results (fold tallyOutcome outs (tallyOutcome (i, r) ta)) ! i = Some r"
    using conjunct1 [OF conjunct2 [OF conjunct2 [OF IH]]] i(1) dist(2) len by simp
  have other: "ta_results (fold tallyOutcome outs (tallyOutcome (i, r) ta)) ! j = ta_results ta ! j"
    if "j < n" "j \<notin> fst ` set outs" "j \<noteq> i" for j
    using conjunct1 [OF conjunct2 [OF conjunct2 [OF IH]]] that by simp
  show ?case
    using IH at_i other step(2) [unfolded step(3)] unfolding out by simp
qed simp

section \<open>Triage\<close>

definition rejected_slot :: "EventClassification \<Rightarrow> IngestResult option" where
  "rejected_slot c = (case c of ClsRejected r _ \<Rightarrow> Some r | _ \<Rightarrow> None)"

definition merge_slot :: "nat \<Rightarrow> EventClassification \<Rightarrow> BatchItem list" where
  "merge_slot i c = (case c of ClsMerge e \<Rightarrow> [(i, e)] | _ \<Rightarrow> [])"

definition write_slot :: "nat \<Rightarrow> EventClassification \<Rightarrow> BatchItem list" where
  "write_slot i c = (case c of ClsWrite e \<Rightarrow> [(i, e)] | _ \<Rightarrow> [])"

lemma triage_fold:
  "\<exists>ids. fold (triageEvent sp num) (enumerate 0 raws)
     \<lparr>tg_results = replicate (length raws + k) None, tg_rejected = 0, tg_merge = [], tg_writes = [], tg_runIds = []\<rparr> =
   \<lparr>tg_results = map (rejected_slot \<circ> classifyEvent sp num) raws @ replicate k None,
    tg_rejected = length (filter (\<lambda>raw. rejected_slot (classifyEvent sp num raw) \<noteq> None) raws),
    tg_merge = concat (map (\<lambda>(i, raw). merge_slot i (classifyEvent sp num raw)) (enumerate 0 raws)),
    tg_writes = concat (map (\<lambda>(i, raw). write_slot i (classifyEvent sp num raw)) (enumerate 0 raws)),
    tg_runIds = ids\<rparr>"
proof (induction raws arbitrary: k rule: rev_induct)
  case (snoc raw raws)
  have rep: "replicate (length (raws @ [raw]) + k) None = replicate (length raws + Suc k) None" by simp
  obtain ids where IH: "fold (triageEvent sp num) (enumerate 0 raws)
     \<lparr>tg_results = replicate (length raws + Suc k) None, tg_rejected = 0, tg_merge = [], tg_writes = [], tg_runIds = []\<rparr> =
   \<lparr>tg_results = map (rejected_slot \<circ> classifyEvent sp num) raws @ replicate (Suc k) None,
    tg_rejected = length (filter (\<lambda>raw. rejected_slot (classifyEvent sp num raw) \<noteq> None) raws),
    tg_merge = concat (map (\<lambda>(i, raw). merge_slot i (classifyEvent sp num raw)) (enumerate 0 raws)),
    tg_writes = concat (map (\<lambda>(i, raw). write_slot i (classifyEvent sp num raw)) (enumerate 0 raws)),
    tg_runIds = ids\<rparr>"
    using snoc by blast
  show ?case
    unfolding rep enumerate_append_eq fold_append comp_def IH [unfolded comp_def]
    by (cases "classifyEvent sp num raw")
      (simp_all add: triageEvent_def rejected_slot_def merge_slot_def write_slot_def list_update_append)
qed simp

lemma triage_spec:
  "tg_results (triage sp num raws) = map (rejected_slot \<circ> classifyEvent sp num) raws"
  "tg_rejected (triage sp num raws) = length (filter (\<lambda>raw. rejected_slot (classifyEvent sp num raw) \<noteq> None) raws)"
  "tg_merge (triage sp num raws) = concat (map (\<lambda>(i, raw). merge_slot i (classifyEvent sp num raw)) (enumerate 0 raws))"
  "tg_writes (triage sp num raws) = concat (map (\<lambda>(i, raw). write_slot i (classifyEvent sp num raw)) (enumerate 0 raws))"
  using triage_fold [of sp num raws 0] by (auto simp: triage_def)

lemma merge_items_iff:
  "(i, e) \<in> set (tg_merge (triage sp num raws)) \<longleftrightarrow> i < length raws \<and> classifyEvent sp num (raws ! i) = ClsMerge e"
  "(i, e) \<in> set (tg_writes (triage sp num raws)) \<longleftrightarrow> i < length raws \<and> classifyEvent sp num (raws ! i) = ClsWrite e"
proof -
  have slot: "(i, e) \<in> set (merge_slot j c) \<longleftrightarrow> j = i \<and> c = ClsMerge e"
    "(i, e) \<in> set (write_slot j c) \<longleftrightarrow> j = i \<and> c = ClsWrite e" for j c
    by (auto simp: merge_slot_def write_slot_def split: EventClassification.splits)
  have enum: "(\<exists>p \<in> set (enumerate 0 raws). Q (fst p) (snd p)) \<longleftrightarrow> (\<exists>j < length raws. Q j (raws ! j))" for Q
    by (force simp: in_set_enumerate_eq enumerate_eq_zip set_zip)
  show "(i, e) \<in> set (tg_merge (triage sp num raws)) \<longleftrightarrow> i < length raws \<and> classifyEvent sp num (raws ! i) = ClsMerge e"
    "(i, e) \<in> set (tg_writes (triage sp num raws)) \<longleftrightarrow> i < length raws \<and> classifyEvent sp num (raws ! i) = ClsWrite e"
    unfolding triage_spec set_concat set_map using enum [of "\<lambda>j raw. (i, e) \<in> set (merge_slot j (classifyEvent sp num raw))"]
      enum [of "\<lambda>j raw. (i, e) \<in> set (write_slot j (classifyEvent sp num raw))"]
    by (auto simp: slot case_prod_unfold)
qed

lemma slots_distinct:
  assumes "\<And>i c. map fst (f i c) = [] \<or> map fst (f i c) = [i]"
  shows "distinct (map fst (concat (map (\<lambda>(i, raw). f i (g raw)) (enumerate m raws)))) \<and>
    set (map fst (concat (map (\<lambda>(i, raw). f i (g raw)) (enumerate m raws)))) \<subseteq> {m..<m + length raws}"
proof (induction raws arbitrary: m)
  case (Cons raw raws)
  let ?rest = "map fst (concat (map (\<lambda>(i, raw). f i (g raw)) (enumerate (Suc m) raws)))"
  have IH: "distinct ?rest" "set ?rest \<subseteq> {Suc m..<Suc m + length raws}" using Cons by blast+
  have eq: "map fst (concat (map (\<lambda>(i, raw). f i (g raw)) (enumerate m (raw # raws)))) = map fst (f m (g raw)) @ ?rest"
    by simp
  from assms [of m "g raw"] IH show ?case unfolding eq
    by (elim disjE) (auto simp del: set_map)
qed simp

lemma triage_distinct:
  "distinct (map fst (tg_merge (triage sp num raws)))" "distinct (map fst (tg_writes (triage sp num raws)))"
  unfolding triage_spec
  by (rule conjunct1 [OF slots_distinct]; auto simp: merge_slot_def write_slot_def split: EventClassification.split)+

section \<open>Groups\<close>

lemma foldGroupItems_outcomes:
  assumes "foldGroupItems t items s seen = Inr (s', ids, outs)"
  shows "map fst outs = map fst items"
  using assms
  by (induction t items s seen arbitrary: s' ids outs rule: foldGroupItems.induct)
    (auto split: if_splits sum.splits option.splits prod.splits)

lemma withEntityLock_value:
  assumes "withEntityLock kind i r ids t f st = Inr (st', v)"
  shows "\<exists>ex al s new. f ex al = Inr (s, new, v)"
  using assms by (auto simp: withEntityLock_def Let_def split: sum.splits prod.splits if_splits)

lemma persistGroup_outcomes:
  assumes "persistGroup fails t g st = Inr (st', outs)"
  shows "map fst outs = map fst (eg_items g)"
  using assms withEntityLock_value foldGroupItems_outcomes
  by (fastforce simp: persistGroup_def split: option.splits)

lemma entityGroups_items:
  "mset (concat (map eg_items (entityGroups items))) = mset items"
proof -
  have "map eg_items (entityGroups items) = map snd (buckets groupKey items)"
    by (simp add: entityGroups_def entityGroup_def Let_def)
  thus ?thesis by (simp add: buckets_mset)
qed

lemma persistGroups_tally:
  assumes "persistGroups fails t gs ta st = Inr (ta', st')" "tally_ok n ta"
    "distinct (map fst (concat (map eg_items gs)))"
    "\<forall>i \<in> fst ` set (concat (map eg_items gs)). i < n \<and> i \<notin> filled (ta_results ta)"
  shows "tally_ok n ta' \<and>
    filled (ta_results ta') = fst ` set (concat (map eg_items gs)) \<union> filled (ta_results ta) \<and>
    (\<forall>i < n. i \<notin> fst ` set (concat (map eg_items gs)) \<longrightarrow> ta_results ta' ! i = ta_results ta ! i)"
  using assms
proof (induction gs arbitrary: ta st)
  case (Cons g gs)
  obtain tst outs where g: "persistGroup fails t g (ps_telemetry st) = Inr (tst, outs)"
    and rest: "persistGroups fails t gs (fold tallyOutcome outs ta) (st\<lparr>ps_telemetry := tst\<rparr>) = Inr (ta', st')"
    using Cons.prems(1) by (auto split: sum.splits)
  have idx: "map fst outs = map fst (eg_items g)" using persistGroup_outcomes [OF g] .
  hence img: "fst ` set outs = fst ` set (eg_items g)" by (metis set_map)
  have d: "distinct (map fst outs)" "distinct (map fst (concat (map eg_items gs)))"
    "fst ` set outs \<inter> fst ` set (concat (map eg_items gs)) = {}"
    using Cons.prems(3) idx img by (auto simp: image_iff)
  have "\<forall>(i, _) \<in> set outs. i < n \<and> i \<notin> filled (ta_results ta)"
  proof clarify
    fix i r assume "(i, r) \<in> set outs"
    hence "i \<in> fst ` set (eg_items g)" unfolding img [symmetric] by force
    thus "i < n \<and> i \<notin> filled (ta_results ta)" using Cons.prems(4) by auto
  qed
  note one = fold_tallyOutcome [OF Cons.prems(2) d(1) this]
  have fresh: "\<forall>i \<in> fst ` set (concat (map eg_items gs)). i < n \<and> i \<notin> filled (ta_results (fold tallyOutcome outs ta))"
  proof
    fix i assume i: "i \<in> fst ` set (concat (map eg_items gs))"
    hence "i < n \<and> i \<notin> filled (ta_results ta)" using Cons.prems(4) by auto
    thus "i < n \<and> i \<notin> filled (ta_results (fold tallyOutcome outs ta))" using one d(3) i by auto
  qed
  note IH = Cons.IH [OF rest conjunct1 [OF one] d(2) fresh]
  have cat: "fst ` set (concat (map eg_items (g # gs))) = fst ` set outs \<union> fst ` set (concat (map eg_items gs))"
    unfolding img by (simp add: image_Un)
  show ?case unfolding cat using IH one by auto
qed auto

lemma persistEntityWrites_tally:
  assumes "persistEntityWrites fails ws ta st = Inr (ta', st')" "tally_ok n ta" "distinct (map fst ws)"
    "\<forall>i \<in> fst ` set ws. i < n \<and> i \<notin> filled (ta_results ta)"
  shows "tally_ok n ta' \<and> filled (ta_results ta') = fst ` set ws \<union> filled (ta_results ta) \<and>
    (\<forall>i < n. i \<notin> fst ` set ws \<longrightarrow> ta_results ta' ! i = ta_results ta ! i)"
  using assms
proof (induction ws arbitrary: ta st)
  case (Cons w ws)
  obtain i e where w: "w = (i, e)" by force
  let ?r = "okResult (te_eventId e) ACCEPTED"
  let ?ta = "ta\<lparr>ta_results := (ta_results ta)[i := Some ?r], ta_accepted := ta_accepted ta + 1\<rparr>"
  obtain st1 where rest: "persistEntityWrites fails ws ?ta st1 = Inr (ta', st')"
    using Cons.prems(1) unfolding w by (auto split: sum.splits)
  have i: "i < n" "i \<notin> filled (ta_results ta)" using Cons.prems(4) w by auto
  have "tallyOutcome (i, ?r) ta = ?ta" by (simp add: tallyOutcome_def okResult_def)
  note step = tallyOutcome_ok [OF Cons.prems(2) i, of ?r, unfolded this]
  have d: "distinct (map fst ws)" "i \<notin> fst ` set ws" using Cons.prems(3) w by auto
  have len: "length (ta_results ta) = n" using Cons.prems(2) by (simp add: tally_ok_def)
  have "\<forall>j \<in> fst ` set ws. j < n \<and> j \<notin> filled (ta_results ?ta)"
  proof
    fix j assume "j \<in> fst ` set ws"
    thus "j < n \<and> j \<notin> filled (ta_results ?ta)" using Cons.prems(4) d(2) w unfolding step(2) by auto
  qed
  note IH = Cons.IH [OF rest step(1) d(1) this]
  have same: "ta_results ?ta ! j = ta_results ta ! j" if "j \<noteq> i" for j using that by simp
  have cat: "fst ` set (w # ws) = insert i (fst ` set ws)" by (simp add: w)
  show ?case unfolding cat using IH step(2) same by auto
qed auto

lemma classify_rejected_status: "classifyEvent sp num raw = ClsRejected r runId \<Longrightarrow> ir_status r = REJECTED"
  by (auto simp: classifyEvent_def rejectedResult_def Let_def
      split: if_splits TelemetryEventParseResult.splits option.splits)

lemma rejected_slots_count:
  "status_count st (map (rejected_slot \<circ> classifyEvent sp num) raws) =
     (if st = REJECTED then length (filter (\<lambda>raw. rejected_slot (classifyEvent sp num raw) \<noteq> None) raws) else 0)"
proof (induction raws)
  case (Cons raw raws)
  show ?case using Cons classify_rejected_status [of sp num raw]
    by (cases "classifyEvent sp num raw") (auto simp: status_count_def rejected_slot_def)
qed (simp add: status_count_def)

lemma status_counts_sum:
  "None \<notin> set rs \<Longrightarrow> status_count ACCEPTED rs + status_count DUPLICATE rs + status_count REJECTED rs = length rs"
proof (induction rs)
  case (Cons r rs)
  then obtain x where "r = Some x" by (cases r) auto
  thus ?case using Cons by (cases "ir_status x") (auto simp: status_count_def)
qed (simp add: status_count_def)

lemma fst_image_iff: "i \<in> fst ` A \<longleftrightarrow> (\<exists>e. (i, e) \<in> A)"
  by force

lemma triage_tally:
  fixes sp :: zod_parser and num :: "rat \<Rightarrow> nat" and raws :: "json list"
  defines "tg \<equiv> triage sp num raws"
  shows "tally_ok (length raws) \<lparr>ta_results = tg_results tg, ta_accepted = 0, ta_duplicate = 0, ta_rejected = tg_rejected tg\<rparr>"
    "filled (tg_results tg) = {i. i < length raws \<and> rejected_slot (classifyEvent sp num (raws ! i)) \<noteq> None}"
    "filled (tg_results tg) \<union> fst ` set (tg_merge tg) \<union> fst ` set (tg_writes tg) = {..<length raws}"
    "fst ` set (tg_merge tg) \<inter> filled (tg_results tg) = {}" "fst ` set (tg_writes tg) \<inter> filled (tg_results tg) = {}"
    "fst ` set (tg_merge tg) \<inter> fst ` set (tg_writes tg) = {}"
proof -
  have m: "fst ` set (tg_merge tg) = {i. i < length raws \<and> (\<exists>e. classifyEvent sp num (raws ! i) = ClsMerge e)}"
    and w: "fst ` set (tg_writes tg) = {i. i < length raws \<and> (\<exists>e. classifyEvent sp num (raws ! i) = ClsWrite e)}"
    by (simp_all add: set_eq_iff fst_image_iff merge_items_iff tg_def)
  show "tally_ok (length raws) \<lparr>ta_results = tg_results tg, ta_accepted = 0, ta_duplicate = 0, ta_rejected = tg_rejected tg\<rparr>"
    by (simp add: tally_ok_def tg_def triage_spec(1,2) rejected_slots_count)
  show f: "filled (tg_results tg) = {i. i < length raws \<and> rejected_slot (classifyEvent sp num (raws ! i)) \<noteq> None}"
    by (auto simp: filled_def tg_def triage_spec(1))
  show "filled (tg_results tg) \<union> fst ` set (tg_merge tg) \<union> fst ` set (tg_writes tg) = {..<length raws}"
  proof (rule set_eqI)
    fix i
    show "i \<in> filled (tg_results tg) \<union> fst ` set (tg_merge tg) \<union> fst ` set (tg_writes tg) \<longleftrightarrow> i \<in> {..<length raws}"
      unfolding f m w by (cases "classifyEvent sp num (raws ! i)") (auto simp: rejected_slot_def)
  qed
  show "fst ` set (tg_merge tg) \<inter> filled (tg_results tg) = {}" "fst ` set (tg_writes tg) \<inter> filled (tg_results tg) = {}"
    "fst ` set (tg_merge tg) \<inter> fst ` set (tg_writes tg) = {}"
    unfolding f m w by (auto simp: rejected_slot_def)
qed

lemma groups_index:
  "distinct (map fst (concat (map eg_items (entityGroups items)))) = distinct (map fst items)"
  "fst ` set (concat (map eg_items (entityGroups items))) = fst ` set items"
proof -
  note m = entityGroups_items [of items]
  show "distinct (map fst (concat (map eg_items (entityGroups items)))) = distinct (map fst items)"
    using m by (metis mset_eq_imp_distinct_iff mset_map)
  show "fst ` set (concat (map eg_items (entityGroups items))) = fst ` set items"
    using mset_eq_setD [OF m] by simp
qed

lemma one_verdict_per_event:
  assumes "ingest safeParse num fails receivedAt batchId raws dropped deliveryId st = IngestOk resp st'"
  shows "length (rs_results resp) = length raws \<and> None \<notin> set (rs_results resp) \<and>
    rs_accepted resp = status_count ACCEPTED (rs_results resp) \<and>
    rs_duplicate resp = status_count DUPLICATE (rs_results resp) \<and>
    rs_rejected resp = status_count REJECTED (rs_results resp) \<and>
    rs_accepted resp + rs_duplicate resp + rs_rejected resp = length raws \<and>
    (\<forall>i < length raws. \<forall>r runId. classifyEvent safeParse num (raws ! i) = ClsRejected r runId \<longrightarrow>
       rs_results resp ! i = Some r)"
proof -
  define tg where "tg = triage safeParse num raws"
  let ?n = "length raws"
  let ?ta0 = "\<lparr>ta_results = tg_results tg, ta_accepted = 0, ta_duplicate = 0, ta_rejected = tg_rejected tg\<rparr>"
  obtain ta1 st1 ta2 st2 where
    g: "persistGroups fails receivedAt (entityGroups (tg_merge tg)) ?ta0 st = Inr (ta1, st1)" and
    w: "persistEntityWrites fails (tg_writes tg) ta1 st1 = Inr (ta2, st2)" and
    resp: "rs_results resp = ta_results ta2" "rs_accepted resp = ta_accepted ta2"
      "rs_duplicate resp = ta_duplicate ta2" "rs_rejected resp = ta_rejected ta2"
    using assms by (auto simp: ingest_def tg_def Let_def split: sum.splits)
  note tri = triage_tally [where sp = safeParse and num = num and raws = raws, folded tg_def]
  have dm: "distinct (map fst (concat (map eg_items (entityGroups (tg_merge tg)))))"
    using triage_distinct(1) by (simp add: groups_index(1) tg_def)
  have fm: "\<forall>i \<in> fst ` set (concat (map eg_items (entityGroups (tg_merge tg)))). i < ?n \<and> i \<notin> filled (ta_results ?ta0)"
    unfolding groups_index(2) using tri(3,4) by auto
  note one = persistGroups_tally [OF g tri(1) dm fm, unfolded groups_index(2)]
  have dw: "distinct (map fst (tg_writes tg))" using triage_distinct(2) by (simp add: tg_def)
  have fw: "\<forall>i \<in> fst ` set (tg_writes tg). i < ?n \<and> i \<notin> filled (ta_results ta1)"
    using one tri(3,5,6) by auto
  note two = persistEntityWrites_tally [OF w conjunct1 [OF one] dw fw]
  have all: "filled (ta_results ta2) = {..<?n}" using one two tri(3) by auto
  have len: "length (ta_results ta2) = ?n" using two by (simp add: tally_ok_def)
  have nn: "None \<notin> set (ta_results ta2)"
    using all len by (auto simp: filled_def in_set_conv_nth)
  have rej: "ta_results ta2 ! i = Some r"
    if i: "i < ?n" "classifyEvent safeParse num (raws ! i) = ClsRejected r runId" for i r runId
  proof -
    have slot: "tg_results tg ! i = Some r" using i by (simp add: tg_def triage_spec(1) rejected_slot_def)
    hence "i \<in> filled (tg_results tg)" using i(1) by (simp add: filled_def tg_def triage_spec(1))
    hence "i \<notin> fst ` set (tg_merge tg)" "i \<notin> fst ` set (tg_writes tg)" using tri(4,5) by auto
    thus ?thesis using one two i(1) slot by simp
  qed
  show ?thesis
    using two len nn rej status_counts_sum [OF nn] unfolding resp tally_ok_def by simp
qed

text \<open>C3. Every event gets exactly one verdict: in a response, there is one result per raw event, at
  that event's position, an event that triage rejects is reported with its own rejection, and the
  three counts are the numbers of results of each status, so they add up to the batch.\<close>

theorem every_event_one_verdict:
  assumes "ingest safeParse num fails receivedAt batchId raws dropped deliveryId st = IngestOk resp st'"
  shows "length (rs_results resp) = length raws \<and> None \<notin> set (rs_results resp) \<and>
    rs_accepted resp = status_count ACCEPTED (rs_results resp) \<and>
    rs_duplicate resp = status_count DUPLICATE (rs_results resp) \<and>
    rs_rejected resp = status_count REJECTED (rs_results resp) \<and>
    rs_accepted resp + rs_duplicate resp + rs_rejected resp = length raws \<and>
    (\<forall>i < length raws. \<forall>r runId. classifyEvent safeParse num (raws ! i) = ClsRejected r runId \<longrightarrow>
       rs_results resp ! i = Some r)"
  by (rule one_verdict_per_event [OF assms])

section \<open>What reaches the database\<close>

lemma classify_wire:
  assumes "zod_laws sp"
  shows "classifyEvent sp num raw = ClsMerge e \<Longrightarrow> wire_event sp e \<and> isMergeableEvent e"
    "classifyEvent sp num raw = ClsWrite e \<Longrightarrow> wire_event sp e \<and> \<not> isMergeableEvent e"
  using parsed_is_wire_event [OF assms]
  by (auto simp: classifyEvent_def Let_def split: if_splits TelemetryEventParseResult.splits option.splits)

definition mergeable_item :: "zod_parser \<Rightarrow> BatchItem \<Rightarrow> bool" where
  "mergeable_item sp item \<longleftrightarrow> wire_event sp (snd item) \<and> isMergeableEvent (snd item)"

lemma merge_items_wire:
  "zod_laws sp \<Longrightarrow> item \<in> set (tg_merge (triage sp num raws)) \<Longrightarrow> mergeable_item sp item"
  using classify_wire(1) [of sp num] merge_items_iff(1) [of "fst item" "snd item" sp num raws]
  by (auto simp: mergeable_item_def)

lemma write_items_wire:
  "zod_laws sp \<Longrightarrow> item \<in> set (tg_writes (triage sp num raws)) \<Longrightarrow>
     wire_event sp (snd item) \<and> \<not> isMergeableEvent (snd item)"
  using classify_wire(2) [of sp num] merge_items_iff(2) [of "fst item" "snd item" sp num raws] by auto

lemma wire_merge_of_item:
  assumes "zod_laws sp" "mergeable_item sp (i, e)"
  obtains m where "toMergeEvent e now = Some m" "wire_merge_event m" "me_eventId m = te_eventId e"
  using toMergeEvent_valid [OF assms(1), of e now] assms(2) toMergeEvent_ids(1) [of e now]
  by (auto simp: mergeable_item_def wire_merge_event_def)

lemma mergeEvent_wire:
  assumes "wire_merge_event m" "pred_option row_state cur"
  obtains s where "mergeEvent cur m = Inr s" "row_state s"
proof -
  have wf: "pred_option wf_state cur" "valid_merge_event m"
    using assms by (cases cur; simp add: row_state_def wire_merge_event_def)+
  obtain s where s: "mergeEvent cur m = Inr s" using mergeEvent_refines [OF wf] .
  have "row_state s"
    using assms s row_state_first [of m s] row_state_mergeEvent [of _ m s] by (cases cur) auto
  thus thesis using that s by blast
qed

lemma foldGroupItems_total:
  assumes "zod_laws sp" "\<forall>item \<in> set items. mergeable_item sp item" "pred_option row_state cur"
  shows "\<exists>s ids outs. foldGroupItems now items cur seen = Inr (s, ids, outs) \<and> pred_option row_state s \<and>
     (\<forall>(_, e) \<in> set items. te_eventId e \<in> set seen \<union> set ids)"
  using assms(2,3)
proof (induction items arbitrary: cur seen)
  case (Cons item items)
  obtain i e where item: "item = (i, e)" by force
  show ?case
  proof (cases "te_eventId e \<in> set seen")
    case True
    obtain s ids outs where "foldGroupItems now items cur seen = Inr (s, ids, outs)" "pred_option row_state s"
      "\<forall>(_, e) \<in> set items. te_eventId e \<in> set seen \<union> set ids"
      using Cons.IH [of cur seen] Cons.prems by auto
    thus ?thesis using True by (simp add: item)
  next
    case False
    have me: "mergeable_item sp (i, e)" using Cons.prems(1) item by simp
    obtain m where m: "toMergeEvent e now = Some m" "wire_merge_event m"
      using wire_merge_of_item [OF assms(1) me, of now] by blast
    obtain s1 where s1: "mergeEvent cur m = Inr s1" "row_state s1"
      using mergeEvent_wire [OF m(2) Cons.prems(2)] .
    obtain s ids outs where "foldGroupItems now items (Some s1) (te_eventId e # seen) = Inr (s, ids, outs)"
      "pred_option row_state s" "\<forall>(_, e') \<in> set items. te_eventId e' \<in> set (te_eventId e # seen) \<union> set ids"
      using Cons.IH [of "Some s1" "te_eventId e # seen"] Cons.prems(1) s1(2) by auto
    thus ?thesis using False m(1) s1(1) by (auto simp: item)
  qed
qed simp

lemma withEntityLock_total:
  assumes wf: "wf_store st" and
    f: "\<And>ex al. pred_option row_state ex \<Longrightarrow> \<exists>s new v. f ex al = Inr (s, new, v) \<and> pred_option row_state s"
  shows "\<exists>st' v. withEntityLock kind i r ids now f st = Inr (st', v) \<and> wf_store st'"
proof -
  define ex where "ex = (if kind = KRun then loadRunWith st i else loadStepWith st i)"
  have "pred_option row_state ex"
    using loaded_run(1) [OF wf] loaded_step(1) [OF wf]
    by (auto simp: ex_def loadRunWith_def loadStepWith_def option.pred_set)
  from f [OF this, of "loadIngestedEventIds st r ids"] obtain s new v where
    fold: "f ex (loadIngestedEventIds st r ids) = Inr (s, new, v)" "pred_option row_state s" by blast
  have "\<exists>st1. (case s of None \<Rightarrow> Inr st | Some s' \<Rightarrow> if kind = KRun then saveRunWith st i s' else saveStepWith st i r s') = Inr st1 \<and>
      wf_store st1"
  proof (cases s)
    case (Some a)
    hence a: "row_state a" using fold(2) by simp
    show ?thesis using wf_saveRun [OF wf a, of i] wf_saveStep [OF wf a, of i r] Some
      by (cases "kind = KRun") auto
  qed (use wf in simp)
  then obtain st1 where st1: "(case s of None \<Rightarrow> Inr st | Some s' \<Rightarrow> if kind = KRun then saveRunWith st i s'
      else saveStepWith st i r s') = Inr st1" "wf_store st1" by blast
  show ?thesis
    using fold(1) st1 wf_touch [of st1]
    by (auto simp: withEntityLock_def ex_def [symmetric] Let_def wf_record)
qed

lemma persistGroup_total:
  assumes "zod_laws sp" "wf_store st" "\<forall>item \<in> set (eg_items g). mergeable_item sp item"
    "fails (GroupTransaction (eg_kind g) (eg_entityId g)) = None"
  shows "\<exists>st' outs. persistGroup fails now g st = Inr (st', outs) \<and> wf_store st'"
proof -
  have "\<exists>s new v. foldGroupItems now (eg_items g) ex al = Inr (s, new, v) \<and> pred_option row_state s"
    if "pred_option row_state ex" for ex al
    using foldGroupItems_total [OF assms(1,3) that] by blast
  from withEntityLock_total [OF assms(2), of "foldGroupItems now (eg_items g)", OF this]
  show ?thesis by (simp add: persistGroup_def assms(4))
qed

lemma persistGroups_total:
  assumes "zod_laws sp" "wf_store (ps_telemetry st)"
    "\<forall>g \<in> set gs. \<forall>item \<in> set (eg_items g). mergeable_item sp item"
  shows "case persistGroups fails now gs ta st of
     Inr (_, st') \<Rightarrow> wf_store (ps_telemetry st')
   | Inl (code, st') \<Rightarrow> wf_store (ps_telemetry st') \<and> code \<in> {500, 503} \<and> (\<exists>op. fails op \<noteq> None)"
  using assms(2,3)
proof (induction gs arbitrary: ta st)
  case (Cons g gs)
  show ?case
  proof (cases "fails (GroupTransaction (eg_kind g) (eg_entityId g))")
    case None
    obtain tst outs where "persistGroup fails now g (ps_telemetry st) = Inr (tst, outs)" "wf_store tst"
      using persistGroup_total [where fails = fails and g = g and now = now, OF assms(1) Cons.prems(1) _ None]
        Cons.prems(2) by auto
    moreover have "\<forall>g \<in> set gs. \<forall>item \<in> set (eg_items g). mergeable_item sp item" using Cons.prems(2) by simp
    ultimately show ?thesis
      using Cons.IH [where ta = "fold tallyOutcome outs ta" and st = "st\<lparr>ps_telemetry := tst\<rparr>"] by simp
  next
    case (Some err)
    thus ?thesis using Cons.prems(1) by (auto simp: persistGroup_def classifyPersistenceFailure_def)
  qed
qed simp

lemma timestamp_date:
  assumes "zod_laws sp" "sp TimestampSchema (Some x) = Inr y"
  shows "json_date y \<noteq> None"
  using zod_datetime [OF assms(1), of "Some x" y] assms(2) by (auto simp: TimestampSchema_def json_date_def)

lemma attestation_date:
  assumes "zod_laws sp" "wire_event sp e" "te_type e = DecisionOutcomeAttested"
  shows "da_outcomeObservedAt (toDecisionAttestation e) \<noteq> None"
proof -
  let ?fs = "[(js ''outcome'', ZEnum DECISION_OUTCOMES), (js ''observedAt'', ZNullish TimestampSchema)]"
  obtain p where p: "date_parse (te_occurredAt e) \<noteq> None" "sp (ZObject ?fs) (Some p) = Inr (te_payload e)"
    using assms(2,3) by (auto simp: wire_event_def TELEMETRY_PAYLOAD_SCHEMAS_def DecisionOutcomeAttestedPayloadSchema_def)
  have "json_date y \<noteq> None" if y: "jget (te_payload e) (js ''observedAt'') = Some y" "y \<noteq> JNull" for y
  proof -
    obtain x where "sp (ZNullish TimestampSchema) (Some x) = Inr y"
      using zod_object_optional_field [OF assms(1) p(2), of "js ''observedAt''" "ZNullish TimestampSchema" y] y(1) by auto
    from zod_nullish [OF assms(1) this] y(2) show ?thesis using timestamp_date [OF assms(1)] by blast
  qed
  thus ?thesis using p(1)
    by (cases "jget (te_payload e) (js ''observedAt'')")
      (auto simp: toDecisionAttestation_def nullish_def pget_def json_date_def)
qed

lemma tool_call_date:
  assumes "zod_laws sp" "wire_event sp e" "te_type e = ToolCallRecorded"
  shows "toToolCallWrite e \<noteq> None"
proof -
  obtain p where "sp (ZRefine ToolCallRecordedPayloadObjectSchema truncation_measured) (Some p) = Inr (te_payload e)"
    using assms(2,3) by (auto simp: wire_event_def TELEMETRY_PAYLOAD_SCHEMAS_def ToolCallRecordedPayloadSchema_def)
  from conjunct1 [OF zod_refine [OF assms(1) this]]
  have p: "sp ToolCallRecordedPayloadObjectSchema (Some p) = Inr (te_payload e)" .
  note f = zod_object_field [OF assms(1) p [unfolded ToolCallRecordedPayloadObjectSchema_def]]
  have d: "json_date (pget e k) \<noteq> None" if "sp TimestampSchema (Some x) = Inr y" "jget (te_payload e) (js k) = Some y" for k x y
    using timestamp_date [OF assms(1) that(1)] that(2) by (simp add: pget_def)
  have "json_date (pget e ''startedAt'') \<noteq> None"
    using f [of "js ''startedAt''" TimestampSchema] d by auto
  moreover have "json_date (pget e ''completedAt'') \<noteq> None"
    using f [of "js ''completedAt''" TimestampSchema] d by auto
  ultimately show ?thesis by (auto simp: toToolCallWrite_def)
qed

lemma writeEntityEvent_total:
  assumes "zod_laws sp" "wire_event sp e"
  shows "\<exists>st'. writeEntityEvent e st = Inr st'"
  using attestation_date [OF assms] tool_call_date [OF assms]
  by (cases "te_type e") (auto simp: writeEntityEvent_def attestOutcome_def recordToolCall_def Let_def)

lemma persistEntityWrites_total:
  assumes "zod_laws sp" "\<forall>item \<in> set ws. wire_event sp (snd item)"
  shows "case persistEntityWrites fails ws ta st of
     Inr (_, st') \<Rightarrow> ps_telemetry st' = ps_telemetry st
   | Inl (code, st') \<Rightarrow> ps_telemetry st' = ps_telemetry st \<and> code \<in> {500, 503} \<and> (\<exists>op. fails op \<noteq> None)"
  using assms(2)
proof (induction ws arbitrary: ta st)
  case (Cons w ws)
  obtain i e where w: "w = (i, e)" by force
  show ?case
  proof (cases "fails (EntityWrite i)")
    case None
    obtain st1 where st1: "writeEntityEvent e st = Inr st1"
      using writeEntityEvent_total [OF assms(1), of e st] Cons.prems w by auto
    have "\<forall>item \<in> set ws. wire_event sp (snd item)" using Cons.prems by simp
    from Cons.IH [OF this, where st = st1 and ta = "ta\<lparr>ta_results := (ta_results ta)
        [i := Some (okResult (te_eventId e) ACCEPTED)], ta_accepted := ta_accepted ta + 1\<rparr>"]
    show ?thesis unfolding w persistEntityWrites.simps None option.case st1 sum.case
      by (simp only: writeEntityEvent_telemetry [OF st1])
  next
    case (Some err)
    thus ?thesis by (auto simp: w classifyPersistenceFailure_def)
  qed
qed simp

lemma wf_foldDropped: "wf_store st \<Longrightarrow> wf_store (foldDropped fails dropped d now ids st)"
proof -
  assume "wf_store st"
  hence "wf_store (fold (\<lambda>runId st. case fails (DropFold runId) of
              Some _ \<Rightarrow> st | None \<Rightarrow> incrementDroppedCount st runId amount d now) ids st)" for amount
    by (induction ids arbitrary: st) (auto simp: wf_drop split: option.split)
  thus ?thesis using \<open>wf_store st\<close> by (simp add: foldDropped_def split: option.split)
qed

lemma triaged_items_wire:
  assumes "zod_laws sp"
  shows "\<forall>g \<in> set (entityGroups (tg_merge (triage sp num raws))). \<forall>item \<in> set (eg_items g). mergeable_item sp item"
    "\<forall>item \<in> set (tg_writes (triage sp num raws)). wire_event sp (snd item)"
proof -
  show "\<forall>g \<in> set (entityGroups (tg_merge (triage sp num raws))). \<forall>item \<in> set (eg_items g). mergeable_item sp item"
  proof (intro ballI)
    fix g item assume "g \<in> set (entityGroups (tg_merge (triage sp num raws)))" "item \<in> set (eg_items g)"
    hence "item \<in> set (concat (map eg_items (entityGroups (tg_merge (triage sp num raws)))))" by auto
    hence "item \<in> set (tg_merge (triage sp num raws))" using mset_eq_setD [OF entityGroups_items] by blast
    thus "mergeable_item sp item" using merge_items_wire [OF assms] by simp
  qed
  show "\<forall>item \<in> set (tg_writes (triage sp num raws)). wire_event sp (snd item)"
    using write_items_wire [OF assms] by simp
qed

lemma ingest_answers:
  assumes "zod_laws sp" "wf_store (ps_telemetry st)" "\<forall>op. fails op = None"
  shows "\<exists>resp st'. ingest sp num fails now batchId raws dropped d st = IngestOk resp st'"
proof -
  define tg where "tg = triage sp num raws"
  let ?ta0 = "\<lparr>ta_results = tg_results tg, ta_accepted = 0, ta_duplicate = 0, ta_rejected = tg_rejected tg\<rparr>"
  note items = triaged_items_wire [OF assms(1), where num = num and raws = raws, folded tg_def]
  obtain ta1 st1 where g: "persistGroups fails now (entityGroups (tg_merge tg)) ?ta0 st = Inr (ta1, st1)"
    using persistGroups_total [OF assms(1,2) items(1), where fails = fails and now = now and ta = ?ta0] assms(3)
    by (auto split: sum.splits)
  obtain ta2 st2 where "persistEntityWrites fails (tg_writes tg) ta1 st1 = Inr (ta2, st2)"
    using persistEntityWrites_total [OF assms(1) items(2), where fails = fails and ta = ta1 and st = st1] assms(3)
    by (auto split: sum.splits)
  thus ?thesis using g by (simp add: ingest_def Let_def tg_def [symmetric])
qed

lemma ingest_outcome:
  assumes "zod_laws safeParse" "wf_store (ps_telemetry st)"
  shows "case ingest safeParse num fails receivedAt batchId raws dropped deliveryId st of
     IngestOk _ st' \<Rightarrow> wf_store (ps_telemetry st')
   | IngestFailed code st' \<Rightarrow> wf_store (ps_telemetry st') \<and> code \<in> {500, 503} \<and> (\<exists>op. fails op \<noteq> None)"
proof -
  define tg where "tg = triage safeParse num raws"
  note items = triaged_items_wire [OF assms(1), where num = num and raws = raws, folded tg_def]
  note g = persistGroups_total [OF assms items(1), where fails = fails and now = receivedAt]
  note w = persistEntityWrites_total [OF assms(1) items(2), where fails = fails]
  show ?thesis
    unfolding ingest_def Let_def tg_def [symmetric]
    using g [of "\<lparr>ta_results = tg_results tg, ta_accepted = 0, ta_duplicate = 0, ta_rejected = tg_rejected tg\<rparr>"] w
    by (fastforce simp: wf_foldDropped split: sum.splits)
qed

text \<open>C4. Nothing a sender puts into a batch can make the request fail or corrupt the store: from a
  store whose rows the fold wrote, for any raw events, the request keeps that invariant, and it ends
  in a failure only if a database operation itself failed, and then with status 500 or 503.\<close>

theorem ingest_fails_only_with_database:
  assumes "zod_laws safeParse" "wf_store (ps_telemetry st)"
  shows "case ingest safeParse num fails receivedAt batchId raws dropped deliveryId st of
     IngestOk _ st' \<Rightarrow> wf_store (ps_telemetry st')
   | IngestFailed code st' \<Rightarrow> wf_store (ps_telemetry st') \<and> code \<in> {500, 503} \<and> (\<exists>op. fails op \<noteq> None)"
  by (rule ingest_outcome [OF assms])

section \<open>Replay\<close>

text \<open>Every event of the group is in the ledger of the group's run.\<close>

definition ledgered :: "TelemetryStore \<Rightarrow> EntityGroup \<Rightarrow> bool" where
  "ledgered st g \<longleftrightarrow> (\<forall>(_, e) \<in> set (eg_items g). ts_ingested st (eg_runId g, te_eventId e) \<noteq> None)"

definition dup_outcomes :: "BatchItem list \<Rightarrow> outcome list" where
  "dup_outcomes items = map (\<lambda>(i, e). (i, okResult (te_eventId e) DUPLICATE)) items"

lemma foldGroupItems_seen:
  "\<forall>(_, e) \<in> set items. te_eventId e \<in> set seen \<Longrightarrow>
     foldGroupItems now items s seen = Inr (s, [], dup_outcomes items)"
  by (induction items) (auto simp: dup_outcomes_def)

lemma persistGroup_replay:
  assumes "wf_store st" "ledgered st g" "fails (GroupTransaction (eg_kind g) (eg_entityId g)) = None"
  shows "persistGroup fails now g st = Inr (st, dup_outcomes (eg_items g))"
proof -
  have "\<forall>(_, e) \<in> set (eg_items g). te_eventId e \<in>
      set (loadIngestedEventIds st (eg_runId g) (map (te_eventId \<circ> snd) (eg_items g)))"
    using assms(2) by (force simp: ledgered_def loadIngestedEventIds_def)
  note f = foldGroupItems_seen [OF this, of now]
  show ?thesis
    using saveRun_loaded [OF assms(1), of "eg_entityId g"] saveStep_loaded [OF assms(1), of "eg_entityId g"]
    by (cases "ts_runs st (eg_entityId g)"; cases "ts_steps st (eg_entityId g)")
      (simp_all add: persistGroup_def assms(3) withEntityLock_def f loadRunWith_def loadStepWith_def)
qed

lemma save_ledger:
  "saveRunWith st i s = Inr st' \<Longrightarrow> ts_ingested st' = ts_ingested st"
  "saveStepWith st i r s = Inr st' \<Longrightarrow> ts_ingested st' = ts_ingested st"
  "ts_ingested (touchRunLiveness st i t) = ts_ingested st"
  by (auto simp: saveRunWith_def saveStepWith_def touchRunLiveness_def split: option.splits if_splits)

lemma withEntityLock_ledger:
  assumes "withEntityLock kind i r ids now f st = Inr (st', v)"
  shows "\<exists>ex s new. f ex (loadIngestedEventIds st r ids) = Inr (s, new, v) \<and>
    (\<forall>r' e. ts_ingested st' (r', e) = None \<longleftrightarrow> ts_ingested st (r', e) = None \<and> \<not> (r' = r \<and> e \<in> set new))"
proof -
  define ex where "ex = (if kind = KRun then loadRunWith st i else loadStepWith st i)"
  obtain s new where f: "f ex (loadIngestedEventIds st r ids) = Inr (s, new, v)"
    using assms by (auto simp: withEntityLock_def ex_def [symmetric] Let_def split: sum.splits prod.splits if_splits)
  obtain st1 where st1: "(case s of None \<Rightarrow> Inr st | Some s' \<Rightarrow> if kind = KRun then saveRunWith st i s'
      else saveStepWith st i r s') = Inr st1"
    and st': "st' = (if new = [] then st1 else recordIngestedEvents
        (if kind = KStep then touchRunLiveness st1 r now else st1) r new now)"
    using assms f by (cases "new = []") (auto simp: withEntityLock_def ex_def [symmetric] Let_def split: sum.splits)
  have "ts_ingested st1 = ts_ingested st"
    using st1 save_ledger by (auto split: option.splits if_splits)
  hence "ts_ingested st' (r', e) = None \<longleftrightarrow> ts_ingested st (r', e) = None \<and> \<not> (r' = r \<and> e \<in> set new)" for r' e
    by (simp add: st' recorded_ids save_ledger(3))
  thus ?thesis using f by blast
qed

lemma foldGroupItems_covers:
  assumes "foldGroupItems now items s seen = Inr (s', new, outs)" "(i, e) \<in> set items"
  shows "te_eventId e \<in> set seen \<union> set new"
  using assms
proof (induction items arbitrary: s seen new outs)
  case (Cons item items)
  obtain j d where item: "item = (j, d)" by force
  show ?case
  proof (cases "te_eventId d \<in> set seen")
    case True
    then obtain outs' where "foldGroupItems now items s seen = Inr (s', new, outs')"
      using Cons.prems(1) item by (auto split: sum.splits)
    thus ?thesis using Cons.IH Cons.prems(2) True item by auto
  next
    case False
    then obtain s1 new' outs' where "foldGroupItems now items (Some s1) (te_eventId d # seen) = Inr (s', new', outs')"
      "new = te_eventId d # new'"
      using Cons.prems(1) item by (auto split: sum.splits option.splits)
    thus ?thesis using Cons.IH [of "Some s1" "te_eventId d # seen" new' outs'] Cons.prems(2) item by auto
  qed
qed simp

lemma persistGroup_ledgers:
  assumes "persistGroup fails now g st = Inr (st', outs)"
  shows "ledgered st' g" "ledgered st h \<Longrightarrow> ledgered st' h"
proof -
  have "withEntityLock (eg_kind g) (eg_entityId g) (eg_runId g)
          (map (te_eventId \<circ> snd) (eg_items g)) now (foldGroupItems now (eg_items g)) st = Inr (st', outs)"
    using assms by (auto simp: persistGroup_def split: option.splits)
  from withEntityLock_ledger [OF this] obtain ex s new where
    f: "foldGroupItems now (eg_items g) ex
          (loadIngestedEventIds st (eg_runId g) (map (te_eventId \<circ> snd) (eg_items g))) = Inr (s, new, outs)"
    and l: "\<And>r' e. ts_ingested st' (r', e) = None \<longleftrightarrow> ts_ingested st (r', e) = None \<and> \<not> (r' = eg_runId g \<and> e \<in> set new)"
    by blast
  show "ledgered st' g"
    using foldGroupItems_covers [OF f] by (force simp: ledgered_def l loadIngestedEventIds_def)
  show "ledgered st h \<Longrightarrow> ledgered st' h" by (auto simp: ledgered_def l)
qed

lemma persistGroups_ledgers:
  assumes "persistGroups fails now gs ta st = Inr (ta', st')"
  shows "(\<forall>g \<in> set gs. ledgered (ps_telemetry st') g) \<and> (ledgered (ps_telemetry st) h \<longrightarrow> ledgered (ps_telemetry st') h)"
  using assms
proof (induction gs arbitrary: ta st h)
  case (Cons g gs)
  obtain tst outs where g: "persistGroup fails now g (ps_telemetry st) = Inr (tst, outs)"
    and rest: "persistGroups fails now gs (fold tallyOutcome outs ta) (st\<lparr>ps_telemetry := tst\<rparr>) = Inr (ta', st')"
    using Cons.prems(1) by (auto split: sum.splits)
  show ?case using Cons.IH [OF rest, of g] Cons.IH [OF rest, of h] persistGroup_ledgers [OF g] by auto
qed simp

lemma persistGroups_replay:
  assumes "wf_store (ps_telemetry st)" "\<forall>g \<in> set gs. ledgered (ps_telemetry st) g" "\<forall>op. fails op = None"
  shows "persistGroups fails now gs ta st = Inr (fold tallyOutcome (dup_outcomes (concat (map eg_items gs))) ta, st)"
  using assms(2)
proof (induction gs arbitrary: ta)
  case (Cons g gs)
  have "persistGroup fails now g (ps_telemetry st) = Inr (ps_telemetry st, dup_outcomes (eg_items g))"
    using persistGroup_replay [OF assms(1)] Cons.prems assms(3) by simp
  thus ?case using Cons by (simp add: dup_outcomes_def)
qed (simp add: dup_outcomes_def)

lemma foldDropped_ledger: "ts_ingested (foldDropped fails dropped d now ids st) = ts_ingested st"
proof -
  have "ts_ingested (incrementDroppedCount st r amount d now) = ts_ingested st" for st r amount
    by (simp add: incrementDroppedCount_def incrementDroppedCountRaw_def split: option.split)
  hence "ts_ingested (fold (\<lambda>runId st. case fails (DropFold runId) of
              Some _ \<Rightarrow> st | None \<Rightarrow> incrementDroppedCount st runId amount d now) ids st) = ts_ingested st" for amount
    by (induction ids arbitrary: st) (auto split: option.split)
  thus ?thesis by (simp add: foldDropped_def split: option.split)
qed

lemma ingest_stores:
  assumes "zod_laws sp" "wf_store (ps_telemetry st)"
    "ingest sp num fails now batchId raws dropped d st = IngestOk resp st'"
  shows "wf_store (ps_telemetry st')"
    "\<forall>g \<in> set (entityGroups (tg_merge (triage sp num raws))). ledgered (ps_telemetry st') g"
proof -
  define tg where "tg = triage sp num raws"
  let ?ta0 = "\<lparr>ta_results = tg_results tg, ta_accepted = 0, ta_duplicate = 0, ta_rejected = tg_rejected tg\<rparr>"
  obtain ta1 st1 ta2 st2 where
    g: "persistGroups fails now (entityGroups (tg_merge tg)) ?ta0 st = Inr (ta1, st1)" and
    w: "persistEntityWrites fails (tg_writes tg) ta1 st1 = Inr (ta2, st2)" and
    st': "ps_telemetry st' = foldDropped fails dropped d now (tg_runIds tg) (ps_telemetry st2)"
    using assms(3) by (auto simp: ingest_def tg_def Let_def split: sum.splits)
  have same: "ps_telemetry st2 = ps_telemetry st1"
    using persistEntityWrites_total [OF assms(1) triaged_items_wire(2) [OF assms(1), where num = num and raws = raws], where fails = fails and ta = ta1 and st = st1] w
    by (simp add: tg_def)
  have "wf_store (ps_telemetry st1)"
    using persistGroups_total [OF assms(1,2) triaged_items_wire(1) [OF assms(1), where num = num and raws = raws], where fails = fails and now = now and ta = ?ta0] g
    by (simp add: tg_def)
  thus "wf_store (ps_telemetry st')" by (simp add: st' same wf_foldDropped)
  show "\<forall>g \<in> set (entityGroups (tg_merge (triage sp num raws))). ledgered (ps_telemetry st') g"
    using persistGroups_ledgers [OF g] by (simp add: ledgered_def st' same foldDropped_ledger tg_def [symmetric])
qed

text \<open>C2. A replayed batch changes nothing: after a batch was ingested, sending it again (without a
  failing database and without a drop report) is answered, every Run and Step event in it is
  reported as a duplicate, and no run, no step and no ledger entry changes, whatever the clock and
  whatever happened to the first response.\<close>

theorem replayed_batch_changes_nothing:
  assumes "zod_laws safeParse" "wf_store (ps_telemetry st)"
    "ingest safeParse num fails receivedAt batchId raws dropped deliveryId st = IngestOk resp st'"
    "\<forall>op. fails' op = None"
  shows "\<exists>resp' st''. ingest safeParse num fails' later batchId' raws None deliveryId' st' = IngestOk resp' st'' \<and>
    ps_telemetry st'' = ps_telemetry st' \<and>
    (\<forall>i < length raws. \<forall>e. classifyEvent safeParse num (raws ! i) = ClsMerge e \<longrightarrow>
       rs_results resp' ! i = Some (okResult (te_eventId e) DUPLICATE))"
proof -
  define tg where "tg = triage safeParse num raws"
  let ?n = "length raws"
  let ?ta0 = "\<lparr>ta_results = tg_results tg, ta_accepted = 0, ta_duplicate = 0, ta_rejected = tg_rejected tg\<rparr>"
  let ?all = "concat (map eg_items (entityGroups (tg_merge tg)))"
  let ?ta1 = "fold tallyOutcome (dup_outcomes ?all) ?ta0"
  note st' = ingest_stores [OF assms(1-3), folded tg_def]
  note g = persistGroups_replay [OF st' assms(4), of later ?ta0]
  note tri = triage_tally [where sp = safeParse and num = num and raws = raws, folded tg_def]
  have fst_dup: "map fst (dup_outcomes items) = map fst items" for items
    by (simp add: dup_outcomes_def case_prod_unfold)
  have d: "distinct (map fst (dup_outcomes ?all))"
    unfolding fst_dup groups_index(1) using triage_distinct(1) by (simp add: tg_def)
  have img: "fst ` set (dup_outcomes ?all) = fst ` set (tg_merge tg)"
    by (metis fst_dup set_map groups_index(2))
  have fresh: "\<forall>(i, _) \<in> set (dup_outcomes ?all). i < ?n \<and> i \<notin> filled (ta_results ?ta0)"
  proof clarify
    fix i r assume "(i, r) \<in> set (dup_outcomes ?all)"
    hence "i \<in> fst ` set (tg_merge tg)" unfolding img [symmetric] by force
    thus "i < ?n \<and> i \<notin> filled (ta_results ?ta0)" using tri(3,4) by auto
  qed
  note one = fold_tallyOutcome [OF tri(1) d fresh, unfolded img]
  obtain ta2 st2 where w: "persistEntityWrites fails' (tg_writes tg) ?ta1 st' = Inr (ta2, st2)"
    and same: "ps_telemetry st2 = ps_telemetry st'"
    using persistEntityWrites_total [OF assms(1) triaged_items_wire(2) [OF assms(1), where num = num and raws = raws], where fails = fails' and ta = ?ta1 and st = st'] assms(4)
    by (auto simp: tg_def split: sum.splits)
  have fw: "\<forall>i \<in> fst ` set (tg_writes tg). i < ?n \<and> i \<notin> filled (ta_results ?ta1)"
    using one tri(3,5,6) by auto
  have dw: "distinct (map fst (tg_writes tg))" using triage_distinct(2) by (simp add: tg_def)
  note two = persistEntityWrites_tally [OF w conjunct1 [OF one] dw fw]
  have dup: "ta_results ta2 ! i = Some (okResult (te_eventId e) DUPLICATE)"
    if i: "i < ?n" "classifyEvent safeParse num (raws ! i) = ClsMerge e" for i e
  proof -
    have m: "(i, e) \<in> set (tg_merge tg)" using i merge_items_iff(1) by (simp add: tg_def)
    hence "(i, e) \<in> set ?all" using mset_eq_setD [OF entityGroups_items] by blast
    hence "(i, okResult (te_eventId e) DUPLICATE) \<in> set (dup_outcomes ?all)" by (force simp: dup_outcomes_def)
    hence "ta_results ?ta1 ! i = Some (okResult (te_eventId e) DUPLICATE)" using one by fast
    moreover have "i \<notin> fst ` set (tg_writes tg)" using m tri(6) by force
    ultimately show ?thesis using two i(1) by simp
  qed
  show ?thesis
    unfolding ingest_def Let_def tg_def [symmetric] g sum.case prod.case w
    using same dup by (simp add: foldDropped_def)
qed

section \<open>Witnesses\<close>

lemma classify_run_started: "classifyEvent zod_ref (\<lambda>_. 5) raw_run_started = ClsMerge parsed_run_started"
proof -
  have "serializedByteLength (\<lambda>_. 5) raw_run_started \<le> maxEventPayloadBytes"
    by (simp add: serializedByteLength_def raw_run_started_def js_unfold char_bytes_def is_high_surrogate_def
        is_low_surrogate_def maxEventPayloadBytes_def)
  moreover have "\<not> exceedsMaxStructuralDepth (te_payload parsed_run_started) MAX_STRUCTURAL_DEPTH" by code_simp
  moreover have "\<not> containsUnsafeUnicode (event_json parsed_run_started)" by code_simp
  moreover have "\<not> isPostgresUnrepresentableTimestamp (te_occurredAt parsed_run_started)" by code_simp
  moreover have "unrepresentablePayloadReason parsed_run_started = None" by code_simp
  moreover have "isMergeableEvent parsed_run_started" by code_simp
  ultimately show ?thesis by (simp add: classifyEvent_def parse_run_started Let_def)
qed

lemma classify_null:
  "classifyEvent zod_ref (\<lambda>_. 5) JNull = ClsRejected (rejectedResult [] MISSING_REQUIRED_FIELD MsgNotAnObject) None"
  by (simp add: classifyEvent_def serializedByteLength_def maxEventPayloadBytes_def parseTelemetryEvent_def
      isPlainObject_def readEventId_def)

lemma wf_empty: "wf_store (ps_telemetry empty_platform)"
  by (simp add: empty_platform_def wf_store_def)

lemma demo_ingest:
  obtains resp st where "ingest zod_ref (\<lambda>_. 5) (\<lambda>_. None) 7 (js ''b'') [raw_run_started, JNull] None None empty_platform =
    IngestOk resp st"
  using ingest_answers [OF zod_laws_ref wf_empty, where fails = "\<lambda>_. None"] by blast

theorem every_event_one_verdict_witness:
  "\<exists>resp st. ingest zod_ref (\<lambda>_. 5) (\<lambda>_. None) 7 (js ''b'') [raw_run_started, JNull] None None empty_platform = IngestOk resp st \<and>
     length (rs_results resp) = 2 \<and> rs_accepted resp + rs_duplicate resp + rs_rejected resp = 2 \<and>
     rs_results resp ! 1 = Some (rejectedResult [] MISSING_REQUIRED_FIELD MsgNotAnObject)"
proof -
  obtain resp st where i: "ingest zod_ref (\<lambda>_. 5) (\<lambda>_. None) 7 (js ''b'') [raw_run_started, JNull] None None empty_platform =
    IngestOk resp st" using demo_ingest .
  from every_event_one_verdict [OF i] i classify_null show ?thesis by (simp add: numeral_2_eq_2)
qed

theorem ingest_fails_only_with_database_witness:
  "case ingest zod_ref (\<lambda>_. 5) (\<lambda>_. None) 7 (js ''b'') [raw_run_started, JNull] None None empty_platform of
     IngestOk _ st \<Rightarrow> wf_store (ps_telemetry st) | IngestFailed _ _ \<Rightarrow> False"
  using ingest_fails_only_with_database [OF zod_laws_ref wf_empty, where num = "\<lambda>_. 5" and fails = "\<lambda>_. None"
      and receivedAt = 7 and batchId = "js ''b''" and raws = "[raw_run_started, JNull]" and dropped = None and
      deliveryId = None] by (simp split: IngestOutcome.splits)

theorem replayed_batch_changes_nothing_witness:
  "\<exists>resp st resp' st'. ingest zod_ref (\<lambda>_. 5) (\<lambda>_. None) 7 (js ''b'') [raw_run_started, JNull] None None empty_platform = IngestOk resp st \<and>
     ingest zod_ref (\<lambda>_. 5) (\<lambda>_. None) 9 (js ''c'') [raw_run_started, JNull] None None st = IngestOk resp' st' \<and>
     ps_telemetry st' = ps_telemetry st \<and> rs_results resp' ! 0 = Some (okResult (js ''e1'') DUPLICATE)"
proof -
  obtain resp st where i: "ingest zod_ref (\<lambda>_. 5) (\<lambda>_. None) 7 (js ''b'') [raw_run_started, JNull] None None empty_platform =
    IngestOk resp st" using demo_ingest .
  obtain resp' st' where r: "ingest zod_ref (\<lambda>_. 5) (\<lambda>_. None) 9 (js ''c'') [raw_run_started, JNull] None None st = IngestOk resp' st'"
    "ps_telemetry st' = ps_telemetry st" "\<forall>i < length [raw_run_started, JNull]. \<forall>e.
      classifyEvent zod_ref (\<lambda>_. 5) ([raw_run_started, JNull] ! i) = ClsMerge e \<longrightarrow>
      rs_results resp' ! i = Some (okResult (te_eventId e) DUPLICATE)"
    using replayed_batch_changes_nothing [OF zod_laws_ref wf_empty i, where fails' = "\<lambda>_. None" and later = 9 and
      batchId' = "js ''c''" and deliveryId' = None] by blast
  have "rs_results resp' ! 0 = Some (okResult (te_eventId parsed_run_started) DUPLICATE)"
    using r(3) [rule_format, of 0] classify_run_started by simp
  thus ?thesis using i r(1,2) unfolding parsed_run_started_def by auto
qed

end
