(* ===== verification/Ingest_Requests.thy ===== *)
theory Ingest_Requests
  imports Ingest_Correct
begin

text \<open>
  A sequence of ingest requests on one store, each of them \<^verbatim>\<open>TelemetryService.ingest\<close> with its own
  clock, its own database failures and its own drop report: batches that are split, retried, sent
  twice or refused half way.  What a Run's row shows afterwards depends only on the set of its
  events.  Request by request, the row shows the fold of the events that the ledger knows, so
  neither a request boundary nor a repeated event can be seen in it.
\<close>

section \<open>Requests\<close>

record IngestCall =
  ic_fails :: io_failures
  ic_receivedAt :: int
  ic_batchId :: jstr
  ic_events :: "json list"
  ic_dropped :: "int option"
  ic_deliveryId :: "jstr option"

text \<open>The store after the requests, and the requests that were answered.  A request that fails
  leaves what it had committed.\<close>

definition call_ingest :: "zod_parser \<Rightarrow> (rat \<Rightarrow> nat) \<Rightarrow> IngestCall \<Rightarrow> PlatformStore \<Rightarrow> IngestOutcome" where
  "call_ingest safeParse num q st = ingest safeParse num (ic_fails q) (ic_receivedAt q) (ic_batchId q) (ic_events q)
     (ic_dropped q) (ic_deliveryId q) st"

fun serve :: "zod_parser \<Rightarrow> (rat \<Rightarrow> nat) \<Rightarrow> IngestCall list \<Rightarrow> PlatformStore \<Rightarrow> IngestCall list \<times> PlatformStore" where
  "serve safeParse num [] st = ([], st)"
| "serve safeParse num (q # qs) st =
     (case call_ingest safeParse num q st of
        IngestOk _ st' \<Rightarrow> (case serve safeParse num qs st' of (answered, final) \<Rightarrow> (q # answered, final))
      | IngestFailed _ st' \<Rightarrow> serve safeParse num qs st')"

text \<open>The Run and Step events that triage lets through, and those of one Run.\<close>

definition folded_events :: "zod_parser \<Rightarrow> (rat \<Rightarrow> nat) \<Rightarrow> IngestCall list \<Rightarrow> TelemetryEvent set" where
  "folded_events safeParse num qs =
     {event. \<exists>q \<in> set qs. \<exists>raw \<in> set (ic_events q). classifyEvent safeParse num raw = ClsMerge event}"

definition of_run :: "jstr \<Rightarrow> TelemetryEvent \<Rightarrow> bool" where
  "of_run i event \<longleftrightarrow> mergeEntityKindOf event = KRun \<and> te_entityId event = i"

definition merge_at :: "int \<Rightarrow> TelemetryEvent \<Rightarrow> MergeEvent" where
  "merge_at now event = the (toMergeEvent event now)"

section \<open>The moment of arrival only moves the liveness clock\<close>

lemma toMergeEvent_received: "toMergeEvent e now = map_option (\<lambda>m. m\<lparr>me_receivedAt := now\<rparr>) (toMergeEvent e 0)"
  by (cases "te_type e") (simp_all add: toMergeEvent_def Let_def)

lemma replace_received [simp]:
  "shouldReplaceStart s (m\<lparr>me_receivedAt := u\<rparr>) = shouldReplaceStart s m"
  "shouldReplaceCompletion s (m\<lparr>me_receivedAt := u\<rparr>) = shouldReplaceCompletion s m"
  by (simp_all add: shouldReplaceStart_def shouldReplaceCompletion_def Let_def split: option.split)

lemma mergeEvent_received:
  "mergeEvent cur (m\<lparr>me_receivedAt := u\<rparr>) = map_sum id
     (\<lambda>t. t\<lparr>ms_lastEventAt := Some (max_neginf (case cur of None \<Rightarrow> None | Some s \<Rightarrow> ms_lastEventAt s) u)\<rparr>) (mergeEvent cur m)"
  by (cases "me_kind m"; cases "me_status m"; cases cur)
    (simp_all add: mergeEvent_def mergeStart_def mergeCompletion_def emptyState_def Let_def split: prod.split)

lemma core_eq_last [simp]: "core_eq ks t (t'\<lparr>ms_lastEventAt := u\<rparr>) = core_eq ks t t'" "core_eq ks (t\<lparr>ms_lastEventAt := u\<rparr>) t' = core_eq ks t t'"
  by (simp_all add: core_eq_def metadataColumn_def)

lemma core_eq_equiv: "core_eq ks t t" "core_eq ks t u \<Longrightarrow> core_eq ks u v \<Longrightarrow> core_eq ks t v" "core_eq ks t u \<Longrightarrow> core_eq ks u t"
  by (simp_all add: core_eq_def)

text \<open>Two stored states of a Run that differ at most in the liveness clock.\<close>

definition same_run :: "EntityMergeState \<Rightarrow> EntityMergeState \<Rightarrow> bool" where
  "same_run s s' \<longleftrightarrow> row_state s \<and> row_state s' \<and> core_eq (set run_names) s s'"

lemma merge_at_wire:
  assumes "zod_laws sp" "mergeable_item sp (j, e)"
  shows "toMergeEvent e now = Some (merge_at now e)" "wire_merge_event (merge_at now e)"
    "me_eventId (merge_at now e) = te_eventId e" "me_entityId (merge_at now e) = te_entityId e"
    "merge_at now e = (merge_at 0 e)\<lparr>me_receivedAt := now\<rparr>"
proof -
  obtain m where m: "toMergeEvent e now = Some m" "wire_merge_event m" "me_eventId m = te_eventId e"
    using wire_merge_of_item [OF assms] .
  note ids = toMergeEvent_ids [OF m(1)]
  show "toMergeEvent e now = Some (merge_at now e)" "wire_merge_event (merge_at now e)"
    "me_eventId (merge_at now e) = te_eventId e" "me_entityId (merge_at now e) = te_entityId e"
    using m ids by (simp_all add: merge_at_def)
  obtain m0 where m0: "toMergeEvent e 0 = Some m0" "wire_merge_event m0" "me_eventId m0 = te_eventId e"
    using wire_merge_of_item [OF assms] .
  show "merge_at now e = (merge_at 0 e)\<lparr>me_receivedAt := now\<rparr>"
    using toMergeEvent_received [of e now] by (simp add: merge_at_def m0)
qed

lemma same_run_step:
  assumes "zod_laws sp" "mergeable_item sp (j, e)" "rel_option same_run cur cur'"
  shows "\<exists>t t'. mergeEvent cur (merge_at now e) = Inr t \<and> mergeEvent cur' (merge_at 0 e) = Inr t' \<and> same_run t t'"
proof -
  note w = merge_at_wire [OF assms(1,2)]
  have rs: "pred_option row_state cur" "pred_option row_state cur'"
    using assms(3) by (cases cur; cases cur'; simp add: same_run_def)+
  obtain t where t: "mergeEvent cur (merge_at now e) = Inr t" "row_state t" using mergeEvent_wire [OF w(2) rs(1)] .
  obtain t' where t': "mergeEvent cur' (merge_at 0 e) = Inr t'" "row_state t'" using mergeEvent_wire [OF w(2) rs(2)] .
  obtain t0 where t0: "mergeEvent cur (merge_at 0 e) = Inr t0" using mergeEvent_wire [OF w(2) rs(1)] .
  have now: "core_eq (set run_names) t t0"
    using t(1) t0 unfolding w(5) [of now] mergeEvent_received by (auto simp: core_eq_equiv(1))
  have "core_eq (set run_names) t0 t'"
  proof (cases cur)
    case None
    hence "cur' = None" using assms(3) by simp
    thus ?thesis using None t0 t'(1) by (simp add: core_eq_equiv(1))
  next
    case (Some s)
    then obtain s' where s': "cur' = Some s'" "core_eq (set run_names) s s'" using assms(3) by (auto simp: option_rel_Some1 same_run_def)
    from core_eq_mergeEvent(1) [OF s'(2)] show ?thesis using t0 t'(1) Some s'(1) by blast
  qed
  from core_eq_equiv(2) [OF now this] t t' show ?thesis by (simp add: same_run_def)
qed

text \<open>A stored state shows exactly the events of a list: it is their fold, whatever the clock was.\<close>

definition shows_events :: "TelemetryEvent list \<Rightarrow> EntityMergeState option \<Rightarrow> bool" where
  "shows_events es cur \<longleftrightarrow> (\<exists>s. mergeEvents None (map (merge_at 0) es) = Inr s \<and> rel_option same_run cur s)"

lemma shows_nothing: "shows_events [] None"
  by (simp add: shows_events_def)

lemma shows_step:
  assumes "zod_laws sp" "mergeable_item sp (j, e)" "shows_events es cur"
  obtains t where "mergeEvent cur (merge_at now e) = Inr t" "shows_events (es @ [e]) (Some t)"
proof -
  obtain s where s: "mergeEvents None (map (merge_at 0) es) = Inr s" "rel_option same_run cur s"
    using assms(3) unfolding shows_events_def by blast
  from same_run_step [OF assms(1,2) s(2)] obtain t t' where
    t: "mergeEvent cur (merge_at now e) = Inr t" "mergeEvent s (merge_at 0 e) = Inr t'" "same_run t t'" by blast
  have "shows_events (es @ [e]) (Some t)"
    using mergeEvents_append [OF s(1), of "[merge_at 0 e]"] t(2,3) by (simp add: shows_events_def)
  with t(1) that show thesis by blast
qed

lemma shows_something:
  assumes "shows_events es cur" "es \<noteq> []"
  shows "\<exists>s. cur = Some s \<and> row_state s"
proof -
  have "mergeEvents (Some c) ms \<noteq> Inr None" for c ms by (induction ms arbitrary: c) (auto split: sum.split)
  hence "mergeEvents None (map (merge_at 0) es) \<noteq> Inr None" using assms(2) by (cases es) (auto split: sum.split)
  thus ?thesis using assms(1) by (auto simp: shows_events_def option_rel_Some2 same_run_def elim!: option.rel_cases)
qed

lemma shows_same:
  assumes "shows_events es (Some s)" "same_run s s'"
  shows "shows_events es (Some s')"
proof -
  obtain t where t: "mergeEvents None (map (merge_at 0) es) = Inr (Some t)" "same_run s t"
    using assms(1) by (auto simp: shows_events_def option_rel_Some1)
  have "same_run s' t" using assms(2) t(2) core_eq_equiv by (auto simp: same_run_def core_eq_def)
  thus ?thesis using t(1) by (simp add: shows_events_def)
qed

section \<open>One group\<close>

text \<open>Folding a group adds to what the state shows the events that the ledger did not know, each once.\<close>

lemma foldGroupItems_shows:
  assumes "zod_laws sp" "\<forall>item \<in> set items. mergeable_item sp item" "shows_events es cur" "distinct es"
    "\<forall>e \<in> snd ` set items. te_eventId e \<in> set seen \<longleftrightarrow> e \<in> set es" "inj_on te_eventId (snd ` set items)"
  shows "\<exists>s new outs. foldGroupItems now items cur seen = Inr (s, map te_eventId new, outs) \<and>
    shows_events (es @ new) s \<and> distinct (es @ new) \<and> set (es @ new) = set es \<union> snd ` set items"
  using assms(2-)
proof (induction items arbitrary: es cur seen)
  case (Cons item items)
  obtain j e where item: "item = (j, e)" by force
  have inj: "inj_on te_eventId (snd ` set items)" and mi: "\<forall>item \<in> set items. mergeable_item sp item" "mergeable_item sp (j, e)"
    using Cons.prems(1,5) by (auto simp: item)
  show ?case
  proof (cases "te_eventId e \<in> set seen")
    case True
    have known: "\<forall>e \<in> snd ` set items. te_eventId e \<in> set seen \<longleftrightarrow> e \<in> set es" using Cons.prems(4) by simp
    from Cons.IH [OF mi(1) Cons.prems(2,3) this inj] obtain s new outs where
      IH: "foldGroupItems now items cur seen = Inr (s, map te_eventId new, outs)" "shows_events (es @ new) s" "distinct (es @ new)"
        "set (es @ new) = set es \<union> snd ` set items" by blast
    have "e \<in> set es" using True Cons.prems(4) by (simp add: item)
    with IH show ?thesis
      by (intro exI [of _ s] exI [of _ new] exI [of _ "(j, okResult (te_eventId e) DUPLICATE) # outs"]) (auto simp: item True)
  next
    case False
    obtain t where t: "mergeEvent cur (merge_at now e) = Inr t" "shows_events (es @ [e]) (Some t)"
      using shows_step [OF assms(1) mi(2) Cons.prems(2)] .
    have e: "e \<notin> set es" using False Cons.prems(4) by (simp add: item)
    have known: "\<forall>d \<in> snd ` set items. te_eventId d \<in> set (te_eventId e # seen) \<longleftrightarrow> d \<in> set (es @ [e])"
      using Cons.prems(4,5) by (fastforce simp: item inj_on_def)
    have d: "distinct (es @ [e])" using Cons.prems(3) e by simp
    from Cons.IH [OF mi(1) t(2) d known inj] obtain s new outs where
      IH: "foldGroupItems now items (Some t) (te_eventId e # seen) = Inr (s, map te_eventId new, outs)"
        "shows_events ((es @ [e]) @ new) s" "distinct ((es @ [e]) @ new)" "set ((es @ [e]) @ new) = set (es @ [e]) \<union> snd ` set items" by blast
    thus ?thesis
      by (intro exI [of _ s] exI [of _ "e # new"] exI [of _ "(j, okResult (te_eventId e) ACCEPTED) # outs"])
        (auto simp: item False merge_at_wire(1) [OF assms(1) mi(2)] t(1))
  qed
qed (auto intro: exI [of _ "[]"])

lemma foldGroupItems_ids:
  "foldGroupItems now items cur seen = Inr (s, new, outs) \<Longrightarrow> set new \<subseteq> te_eventId ` snd ` set items"
  by (induction now items cur seen arbitrary: s new outs rule: foldGroupItems.induct)
    (fastforce split: if_splits sum.splits option.splits prod.splits)+

lemma group_items:
  assumes "g \<in> set (entityGroups items)" "\<forall>item \<in> set items. isMergeableEvent (snd item)"
  shows "item \<in> set (eg_items g) \<Longrightarrow> item \<in> set items"
    "item \<in> set (eg_items g) \<Longrightarrow> mergeEntityKindOf (snd item) = eg_kind g"
    "item \<in> set (eg_items g) \<Longrightarrow> te_entityId (snd item) = eg_entityId g"
    "\<exists>item \<in> set (eg_items g). te_runId (snd item) = eg_runId g" "eg_kind g = KRun \<or> eg_kind g = KStep"
proof -
  obtain k vs where b: "(k, vs) \<in> set (buckets groupKey items)" and g: "g = entityGroup vs"
    using assms(1) by (auto simp: entityGroups_def)
  note vs = bucket_items [OF b]
  have items: "eg_items g = vs" by (simp add: g entityGroup_def Let_def)
  have hd: "hd vs \<in> set vs" using vs(2) by simp
  have mem: "x \<in> set items" "groupKey x = k" if "x \<in> set vs" for x using that vs(1) by auto
  have kind: "mergeEntityKindOf (snd x) = KRun \<or> mergeEntityKindOf (snd x) = KStep" if "x \<in> set vs" for x
    using assms(2) mem(1) [OF that] by (auto simp: isMergeableEvent_def mergeEntityKindOf_def)
  show "item \<in> set items" if "item \<in> set (eg_items g)" using mem(1) that items by simp
  have "groupKey item = groupKey (hd vs)" if "item \<in> set vs" using mem(2) that hd by simp
  thus "mergeEntityKindOf (snd item) = eg_kind g" "te_entityId (snd item) = eg_entityId g" if "item \<in> set (eg_items g)"
    using kind [OF hd] kind [of item] that items
    by (auto simp: groupKey_def kind_prefix_def g entityGroup_def Let_def js_def)
  show "\<exists>item \<in> set (eg_items g). te_runId (snd item) = eg_runId g"
    using hd by (intro bexI [of _ "hd vs"]) (simp_all add: items, simp add: g entityGroup_def Let_def)
  show "eg_kind g = KRun \<or> eg_kind g = KStep" using kind [OF hd] by (simp add: g entityGroup_def Let_def)
qed

section \<open>What the store knows of one Run\<close>

text \<open>The row of Run \<open>i\<close> shows the events \<open>es\<close>, and the ledger knows these and no other of the Run's
  events \<open>U\<close>.\<close>

definition knows :: "jstr \<Rightarrow> TelemetryEvent set \<Rightarrow> TelemetryEvent list \<Rightarrow> TelemetryStore \<Rightarrow> bool" where
  "knows i U es st \<longleftrightarrow> wf_store st \<and> distinct es \<and> set es \<subseteq> U \<and> shows_events es (loadRunWith st i) \<and>
     (\<forall>e \<in> U. ts_ingested st (i, te_eventId e) \<noteq> None \<longleftrightarrow> e \<in> set es)"

text \<open>Two rows that differ at most in the liveness clock and the drop count.\<close>

definition alike :: "RunRow option \<Rightarrow> RunRow option \<Rightarrow> bool" where
  "alike r r' \<longleftrightarrow> rel_option (\<lambda>r r'. \<exists>t. runRowToState r' = (runRowToState r)\<lparr>ms_lastEventAt := Some t\<rparr>) r r'"

lemma alike_refl [simp]: "alike r r"
proof -
  have "runRowToState q = (runRowToState q)\<lparr>ms_lastEventAt := Some (rc_lastEventAt (rr_columns q))\<rparr>" for q
    by (simp add: runRowToState_def Let_def)
  thus ?thesis unfolding alike_def by (intro option.rel_refl_strong exI)
qed

lemma knows_alike:
  assumes "knows i U es st" "wf_store st'" "alike (ts_runs st i) (ts_runs st' i)"
    "\<And>e. e \<in> U \<Longrightarrow> ts_ingested st' (i, te_eventId e) = None \<longleftrightarrow> ts_ingested st (i, te_eventId e) = None"
  shows "knows i U es st'"
proof -
  obtain s where s: "mergeEvents None (map (merge_at 0) es) = Inr s" "rel_option same_run (loadRunWith st i) s"
    using assms(1) unfolding knows_def shows_events_def by blast
  have "rel_option same_run (loadRunWith st' i) s"
  proof (cases "ts_runs st i")
    case None
    thus ?thesis using assms(3) s(2) by (auto simp: alike_def loadRunWith_def option_rel_Some2)
  next
    case (Some r)
    then obtain r' t where r': "ts_runs st' i = Some r'" "runRowToState r' = (runRowToState r)\<lparr>ms_lastEventAt := Some t\<rparr>"
      using assms(3) by (auto simp: alike_def option_rel_Some1)
    have "row_state (runRowToState r')" using loaded_run(1) [OF assms(2) r'(1)] .
    thus ?thesis using s(2) Some r' by (cases s) (auto simp: loadRunWith_def same_run_def)
  qed
  thus ?thesis using assms(1,2,4) s(1) unfolding knows_def shows_events_def by auto
qed

lemma alike_columns: "runRowToState (r\<lparr>rr_columns := (rr_columns r)\<lparr>rc_lastEventAt := t\<rparr>\<rparr>) = (runRowToState r)\<lparr>ms_lastEventAt := Some t\<rparr>"
  by (simp add: runRowToState_def Let_def)

lemma alike_touch: "alike (ts_runs st i) (ts_runs (touchRunLiveness st r now) i)"
proof (cases "ts_runs st r")
  case (Some row)
  have "alike (Some row) (Some (row\<lparr>rr_columns := (rr_columns row)\<lparr>rc_lastEventAt := now\<rparr>\<rparr>))"
    unfolding alike_def option.rel_inject alike_columns by blast
  thus ?thesis using Some by (auto simp: touchRunLiveness_def)
qed (simp add: touchRunLiveness_def)

lemma alike_drop: "alike (ts_runs st i) (ts_runs (incrementDroppedCount st r n d now) i)"
proof -
  have same: "runRowToState (q\<lparr>rr_droppedTelemetryEventCount := c\<rparr>) = runRowToState q" for q c
    by (simp add: runRowToState_def Let_def)
  have "alike (Some q) (Some (q\<lparr>rr_droppedTelemetryEventCount := c\<rparr>))" for q c
    using alike_refl [of "Some q"] by (simp only: alike_def option.rel_inject same)
  thus ?thesis by (auto simp: incrementDroppedCount_def incrementDroppedCountRaw_def split: option.split)
qed

text \<open>A transaction on another entity.\<close>

lemma withEntityLock_elsewhere:
  assumes "withEntityLock kind j r ids now f st = Inr (st', v)" "\<not> (kind = KRun \<and> j = i)"
  shows "alike (ts_runs st i) (ts_runs st' i)"
proof -
  define ex where "ex = (if kind = KRun then loadRunWith st j else loadStepWith st j)"
  obtain s new where f: "f ex (loadIngestedEventIds st r ids) = Inr (s, new, v)"
    using assms(1) by (auto simp: withEntityLock_def ex_def [symmetric] Let_def split: sum.splits prod.splits if_splits)
  obtain st1 where st1: "(case s of None \<Rightarrow> Inr st | Some s' \<Rightarrow> if kind = KRun then saveRunWith st j s'
      else saveStepWith st j r s') = Inr st1"
    and st': "st' = (if new = [] then st1 else recordIngestedEvents
        (if kind = KStep then touchRunLiveness st1 r now else st1) r new now)"
    using assms(1) f by (cases "new = []") (auto simp: withEntityLock_def ex_def [symmetric] Let_def split: sum.splits)
  have "ts_runs st1 i = ts_runs st i"
    using st1 assms(2) by (auto simp: saveRunWith_def saveStepWith_def split: option.splits if_splits)
  thus ?thesis using alike_touch [of st1 i r now] by (simp add: st' recordIngestedEvents_def)
qed

text \<open>The transaction on the Run itself.\<close>

lemma withEntityLock_run:
  assumes "withEntityLock KRun i r ids now f st = Inr (st', v)"
    "f (loadRunWith st i) (loadIngestedEventIds st r ids) = Inr (Some s, new, v')" "row_state s"
  shows "\<exists>row. ts_runs st' i = Some row \<and> same_run s (runRowToState row)"
proof -
  obtain st1 where st1: "saveRunWith st i s = Inr st1" "ts_runs st' = ts_runs st1"
    using assms(1,2) by (auto simp: withEntityLock_def Let_def recordIngestedEvents_def split: sum.splits if_splits)
  then obtain c where c: "runColumns s = Some c" by (auto simp: saveRunWith_def split: option.splits)
  obtain row where row: "ts_runs st1 i = Some (row\<lparr>rr_columns := c\<rparr>)"
  proof (cases "ts_runs st i")
    case None
    thus ?thesis
      using that [of "\<lparr>rr_id = i, rr_traceId = i, rr_receivedAt = rc_lastEventAt c, rr_columns = c, rr_droppedTelemetryEventCount = None\<rparr>"]
        st1(1) c by (auto simp: saveRunWith_def)
  qed (use that st1(1) c in \<open>auto simp: saveRunWith_def\<close>)
  note rel = run_reloaded [OF c, of row]
  have "same_run s (runRowToState (row\<lparr>rr_columns := c\<rparr>))"
    using reloaded_row_state [OF assms(3) rel] reloaded_core_eq [OF assms(3) rel] assms(3) by (simp add: same_run_def METADATA_def)
  thus ?thesis using row st1(2) by auto
qed

text \<open>A group's transaction enters the group's events into the ledger, and no other event.\<close>

lemma persistGroup_enters:
  assumes step: "persistGroup fails now g st = Inr (st', outs)" and inj: "inj_on te_eventId E"
    and E: "snd ` set (eg_items g) \<subseteq> E" and e: "e \<in> E"
  shows "ts_ingested st' (r, te_eventId e) = None \<longleftrightarrow>
    ts_ingested st (r, te_eventId e) = None \<and> \<not> (r = eg_runId g \<and> e \<in> snd ` set (eg_items g))"
proof -
  let ?seen = "loadIngestedEventIds st (eg_runId g) (map (te_eventId \<circ> snd) (eg_items g))"
  have lock: "withEntityLock (eg_kind g) (eg_entityId g) (eg_runId g)
      (map (te_eventId \<circ> snd) (eg_items g)) now (foldGroupItems now (eg_items g)) st = Inr (st', outs)"
    using step by (simp add: persistGroup_def split: option.splits)
  from withEntityLock_ledger [OF lock] obtain ex s new where
    f: "foldGroupItems now (eg_items g) ex ?seen = Inr (s, new, outs)"
    and led: "\<And>r' e. ts_ingested st' (r', e) = None \<longleftrightarrow> ts_ingested st (r', e) = None \<and> \<not> (r' = eg_runId g \<and> e \<in> set new)" by blast
  have own: "e \<in> snd ` set (eg_items g)" if "te_eventId e \<in> set new"
  proof -
    have "te_eventId e \<in> te_eventId ` snd ` set (eg_items g)" using foldGroupItems_ids [OF f] that by blast
    then obtain d where d: "te_eventId e = te_eventId d" "d \<in> snd ` set (eg_items g)" by (rule imageE)
    have "d \<in> E" using d(2) E by (rule subsetD [rotated])
    with d inj_onD [OF inj d(1) e] show ?thesis by simp
  qed
  have "te_eventId e \<in> set ?seen \<union> set new" if "e \<in> snd ` set (eg_items g)"
    using that foldGroupItems_covers [OF f] by force
  moreover have "te_eventId e \<in> set ?seen \<Longrightarrow> ts_ingested st (eg_runId g, te_eventId e) \<noteq> None"
    by (simp add: loadIngestedEventIds_def)
  ultimately show ?thesis unfolding led using own by blast
qed

text \<open>The group of the Run: what the ledger did not know is added to what the row shows.\<close>

lemma persistGroup_shows:
  assumes sp: "zod_laws sp" "\<forall>item \<in> set (eg_items g). mergeable_item sp item" and items: "eg_items g \<noteq> []"
    and g: "eg_kind g = KRun" "eg_entityId g = i" "eg_runId g = i" and inj: "inj_on te_eventId (snd ` set (eg_items g))"
    and k: "shows_events es (loadRunWith st i)" "distinct es"
      "\<forall>e \<in> snd ` set (eg_items g). ts_ingested st (i, te_eventId e) \<noteq> None \<longleftrightarrow> e \<in> set es"
    and step: "persistGroup fails now g st = Inr (st', outs)"
  shows "\<exists>es'. shows_events es' (loadRunWith st' i) \<and> distinct es' \<and> set es' = set es \<union> snd ` set (eg_items g)"
proof -
  let ?seen = "loadIngestedEventIds st i (map (te_eventId \<circ> snd) (eg_items g))"
  have lock: "withEntityLock KRun i i (map (te_eventId \<circ> snd) (eg_items g)) now (foldGroupItems now (eg_items g)) st = Inr (st', outs)"
    using step g by (simp add: persistGroup_def split: option.splits)
  have "te_eventId e \<in> set ?seen \<longleftrightarrow> ts_ingested st (i, te_eventId e) \<noteq> None" if "e \<in> snd ` set (eg_items g)" for e
    using that by (auto simp: loadIngestedEventIds_def image_iff)
  hence "\<forall>e \<in> snd ` set (eg_items g). te_eventId e \<in> set ?seen \<longleftrightarrow> e \<in> set es" using k(3) by blast
  from foldGroupItems_shows [OF sp k(1,2) this inj, of now] obtain s new outs' where
    fold: "foldGroupItems now (eg_items g) (loadRunWith st i) ?seen = Inr (s, map te_eventId new, outs')"
      "shows_events (es @ new) s" "distinct (es @ new)" "set (es @ new) = set es \<union> snd ` set (eg_items g)" by blast
  have "snd (hd (eg_items g)) \<in> snd ` set (eg_items g)" using items by simp
  hence "es @ new \<noteq> []" using fold(4) by (metis UnI2 empty_iff list.set(1))
  from shows_something [OF fold(2) this] obtain t where t: "s = Some t" "row_state t" by blast
  from withEntityLock_run [OF lock fold(1) [unfolded t(1)] t(2)]
  obtain row where row: "ts_runs st' i = Some row" "same_run t (runRowToState row)" by blast
  have "shows_events (es @ new) (loadRunWith st' i)"
    using shows_same [OF fold(2) [unfolded t(1)] row(2)] row(1) by (simp add: loadRunWith_def)
  thus ?thesis using fold(3,4) by blast
qed

text \<open>The events that take part: ids identify them, and a Run's events name the Run.\<close>

definition well_identified :: "jstr \<Rightarrow> TelemetryEvent set \<Rightarrow> bool" where
  "well_identified i E \<longleftrightarrow> inj_on te_eventId E \<and> (\<forall>event \<in> E. of_run i event \<longrightarrow> te_runId event = i)"

lemma persistGroup_knows:
  assumes sp: "zod_laws sp" and E: "well_identified i E" and k: "knows i {e \<in> E. of_run i e} es st"
    and g: "g \<in> set (entityGroups items)" "\<forall>item \<in> set items. mergeable_item sp item \<and> snd item \<in> E"
    and step: "persistGroup fails now g st = Inr (st', outs)"
  shows "\<exists>es'. knows i {e \<in> E. of_run i e} es' st' \<and> set es' = set es \<union> {e \<in> snd ` set (eg_items g). of_run i e}"
proof -
  let ?U = "{e \<in> E. of_run i e}" and ?G = "snd ` set (eg_items g)"
  have "\<forall>item \<in> set items. isMergeableEvent (snd item)" using g(2) by (auto simp: mergeable_item_def)
  note gi = group_items [OF g(1) this]
  have mem: "set (eg_items g) \<subseteq> set items" using gi(1) by (intro subsetI)
  have mi: "\<forall>item \<in> set (eg_items g). mergeable_item sp item" using mem g(2) by blast
  have inE: "?G \<subseteq> E" using mem g(2) by blast
  have run: "of_run i e \<longleftrightarrow> eg_kind g = KRun \<and> eg_entityId g = i" if "e \<in> ?G" for e
  proof -
    from that obtain item where "item \<in> set (eg_items g)" "e = snd item" by blast
    thus ?thesis using gi(2,3) [of item] by (simp add: of_run_def)
  qed
  have inj: "inj_on te_eventId E" using E by (simp add: well_identified_def)
  have nf: "fails (GroupTransaction (eg_kind g) (eg_entityId g)) = None"
    using step by (auto simp: persistGroup_def split: option.splits)
  have wf: "wf_store st" and kd: "distinct es" "set es \<subseteq> ?U" "shows_events es (loadRunWith st i)"
    and kl: "\<And>e. e \<in> ?U \<Longrightarrow> ts_ingested st (i, te_eventId e) \<noteq> None \<longleftrightarrow> e \<in> set es"
    using k unfolding knows_def by blast+
  obtain st1 outs1 where "persistGroup fails now g st = Inr (st1, outs1)" "wf_store st1"
    using persistGroup_total [where fails = fails and g = g and now = now, OF sp wf mi nf] by blast
  hence wf': "wf_store st'" using step by simp
  note led = persistGroup_enters [OF step inj inE]
  show ?thesis
  proof (cases "eg_kind g = KRun \<and> eg_entityId g = i")
    case False
    have none: "\<not> of_run i e" if "e \<in> ?G" for e using run [OF that] False by simp
    have lock: "withEntityLock (eg_kind g) (eg_entityId g) (eg_runId g)
        (map (te_eventId \<circ> snd) (eg_items g)) now (foldGroupItems now (eg_items g)) st = Inr (st', outs)"
      using step nf by (simp add: persistGroup_def)
    have "ts_ingested st' (i, te_eventId e) = None \<longleftrightarrow> ts_ingested st (i, te_eventId e) = None" if "e \<in> ?U" for e
    proof -
      have "e \<in> E" "e \<notin> ?G" using that none by blast+
      from led [OF this(1), of i] this(2) show ?thesis by simp
    qed
    from knows_alike [OF k wf' withEntityLock_elsewhere [OF lock False] this] have "knows i ?U es st'" .
    moreover have "set es = set es \<union> {e \<in> ?G. of_run i e}" using none by blast
    ultimately show ?thesis by blast
  next
    case True
    have all: "of_run i e" if "e \<in> ?G" for e using run [OF that] True by simp
    hence GU: "?G \<subseteq> ?U" using inE by blast
    obtain item where item: "item \<in> set (eg_items g)" "te_runId (snd item) = eg_runId g" using gi(4) by blast
    have "snd item \<in> ?U" using GU item(1) by blast
    hence r: "eg_runId g = i" using E item(2) unfolding well_identified_def by force
    have ne: "eg_items g \<noteq> []" using item(1) by auto
    have "\<forall>e \<in> ?G. ts_ingested st (i, te_eventId e) \<noteq> None \<longleftrightarrow> e \<in> set es" using subsetD [OF GU] kl by blast
    from persistGroup_shows [OF sp mi ne conjunct1 [OF True] conjunct2 [OF True] r inj_on_subset [OF inj inE] kd(3,1) this step]
    obtain es' where es': "shows_events es' (loadRunWith st' i)" "distinct es'" "set es' = set es \<union> ?G" by blast
    have "ts_ingested st' (i, te_eventId e) \<noteq> None \<longleftrightarrow> e \<in> set es'" if e: "e \<in> ?U" for e
    proof -
      have "e \<in> E" using e by blast
      from led [OF this, of i] kl [OF e] show ?thesis unfolding es'(3) r by simp
    qed
    moreover have "set es' \<subseteq> ?U" unfolding es'(3) by (rule Un_least [OF kd(2) GU])
    ultimately have "knows i ?U es' st'" using wf' es'(1,2) by (simp add: knows_def)
    moreover have "set es' = set es \<union> {e \<in> ?G. of_run i e}" using all es'(3) by blast
    ultimately show ?thesis by blast
  qed
qed

section \<open>One request\<close>

definition entered :: "jstr \<Rightarrow> EntityGroup list \<Rightarrow> TelemetryEvent set" where
  "entered i gs = {event \<in> snd ` set (concat (map eg_items gs)). of_run i event}"

lemma entered_simps: "entered i [] = {}" "entered i (g # gs) = {e \<in> snd ` set (eg_items g). of_run i e} \<union> entered i gs"
  by (auto simp: entered_def image_iff)

lemma persistGroups_knows:
  assumes "zod_laws sp" "well_identified i E" "\<forall>item \<in> set items. mergeable_item sp item \<and> snd item \<in> E"
    "knows i {e \<in> E. of_run i e} es (ps_telemetry st)" "set gs \<subseteq> set (entityGroups items)"
  shows "\<exists>es'. set es \<subseteq> set es' \<and> (case persistGroups fails now gs ta st of
      Inr (_, st') \<Rightarrow> knows i {e \<in> E. of_run i e} es' (ps_telemetry st') \<and>
        set es' = set es \<union> entered i gs
    | Inl (_, st') \<Rightarrow> knows i {e \<in> E. of_run i e} es' (ps_telemetry st') \<and>
        set es' \<subseteq> set es \<union> entered i gs)"
  using assms(4,5)
proof (induction gs arbitrary: es ta st)
  case (Cons g gs)
  show ?case
  proof (cases "persistGroup fails now g (ps_telemetry st)")
    case (Inl err)
    thus ?thesis using Cons.prems(1) by (intro exI [of _ es]) simp
  next
    case (Inr p)
    obtain tst outs where p: "p = (tst, outs)" by force
    have g: "g \<in> set (entityGroups items)" "set gs \<subseteq> set (entityGroups items)" using Cons.prems(2) by auto
    from persistGroup_knows [OF assms(1,2) Cons.prems(1) g(1) assms(3) Inr [unfolded p]]
    obtain es1 where es1: "knows i {e \<in> E. of_run i e} es1 tst" "set es1 = set es \<union> {e \<in> snd ` set (eg_items g). of_run i e}" by blast
    from Cons.IH [of es1 "st\<lparr>ps_telemetry := tst\<rparr>" "fold tallyOutcome outs ta"] es1(1) g(2)
    obtain es' where IH: "set es1 \<subseteq> set es'" "case persistGroups fails now gs (fold tallyOutcome outs ta) (st\<lparr>ps_telemetry := tst\<rparr>) of
        Inr (_, st') \<Rightarrow> knows i {e \<in> E. of_run i e} es' (ps_telemetry st') \<and>
          set es' = set es1 \<union> entered i gs
      | Inl (_, st') \<Rightarrow> knows i {e \<in> E. of_run i e} es' (ps_telemetry st') \<and>
          set es' \<subseteq> set es1 \<union> entered i gs" by auto
    show ?thesis
      using IH es1(2) unfolding persistGroups.simps Inr p sum.case prod.case entered_simps(2)
      by (intro exI [of _ es']) (auto split: sum.splits)
  qed
qed (auto simp: entered_simps intro: exI [of _ es])


lemma knows_foldDropped:
  assumes "knows i U es st"
  shows "knows i U es (foldDropped fails dropped d now ids st)"
proof -
  have "knows i U es (fold (\<lambda>runId st. case fails (DropFold runId) of
      Some _ \<Rightarrow> st | None \<Rightarrow> incrementDroppedCount st runId amount d now) ids st)" for amount
    using assms
  proof (induction ids arbitrary: st)
    case (Cons r ids)
    have ledger: "ts_ingested (incrementDroppedCount st r amount d now) = ts_ingested st"
      by (simp add: incrementDroppedCount_def incrementDroppedCountRaw_def split: option.split)
    have "wf_store st" using Cons.prems by (simp add: knows_def)
    from knows_alike [OF Cons.prems wf_drop [OF this] alike_drop] ledger
    have "knows i U es (incrementDroppedCount st r amount d now)" by simp
    thus ?case using Cons by (simp split: option.split)
  qed simp
  thus ?thesis using assms by (simp add: foldDropped_def split: option.split)
qed

text \<open>One request, answered or not: what the row shows grows by events of the request, and by all of
  them when the request is answered.\<close>

lemma ingest_knows:
  assumes sp: "zod_laws sp" and E: "well_identified i E" "folded_events sp num [q] \<subseteq> E"
    and k: "knows i {e \<in> E. of_run i e} es (ps_telemetry st)"
  shows "\<exists>es'. set es \<subseteq> set es' \<and> set es' \<subseteq> set es \<union> {e \<in> folded_events sp num [q]. of_run i e} \<and>
    (case call_ingest sp num q st of
       IngestOk _ st' \<Rightarrow> knows i {e \<in> E. of_run i e} es' (ps_telemetry st') \<and> {e \<in> folded_events sp num [q]. of_run i e} \<subseteq> set es'
     | IngestFailed _ st' \<Rightarrow> knows i {e \<in> E. of_run i e} es' (ps_telemetry st'))"
proof -
  define tg where "tg = triage sp num (ic_events q)"
  let ?ta0 = "\<lparr>ta_results = tg_results tg, ta_accepted = 0, ta_duplicate = 0, ta_rejected = tg_rejected tg\<rparr>"
  have folded: "folded_events sp num [q] = snd ` set (tg_merge tg)"
  proof (rule set_eqI)
    fix e
    have "e \<in> snd ` set (tg_merge tg) \<longleftrightarrow> (\<exists>j. (j, e) \<in> set (tg_merge tg))" by force
    also have "\<dots> \<longleftrightarrow> (\<exists>raw \<in> set (ic_events q). classifyEvent sp num raw = ClsMerge e)"
      unfolding tg_def merge_items_iff by (metis in_set_conv_nth)
    finally show "e \<in> folded_events sp num [q] \<longleftrightarrow> e \<in> snd ` set (tg_merge tg)" by (simp add: folded_events_def)
  qed
  have items: "\<forall>item \<in> set (tg_merge tg). mergeable_item sp item \<and> snd item \<in> E"
    using merge_items_wire [OF sp] E(2) unfolding folded tg_def by blast
  have all: "entered i (entityGroups (tg_merge tg)) = {e \<in> folded_events sp num [q]. of_run i e}"
    unfolding entered_def folded mset_eq_setD [OF entityGroups_items] ..
  from persistGroups_knows [where gs = "entityGroups (tg_merge tg)" and fails = "ic_fails q" and now = "ic_receivedAt q"
      and ta = ?ta0, OF sp E(1) items k subset_refl] obtain es' where
    es': "set es \<subseteq> set es'" "case persistGroups (ic_fails q) (ic_receivedAt q) (entityGroups (tg_merge tg)) ?ta0 st of
      Inr (_, st') \<Rightarrow> knows i {e \<in> E. of_run i e} es' (ps_telemetry st') \<and> set es' = set es \<union> entered i (entityGroups (tg_merge tg))
    | Inl (_, st') \<Rightarrow> knows i {e \<in> E. of_run i e} es' (ps_telemetry st') \<and> set es' \<subseteq> set es \<union> entered i (entityGroups (tg_merge tg))"
    by blast
  note io = ingest_def Let_def tg_def [symmetric] call_ingest_def
  show ?thesis
  proof (cases "persistGroups (ic_fails q) (ic_receivedAt q) (entityGroups (tg_merge tg)) ?ta0 st")
    case (Inl f)
    thus ?thesis using es' unfolding io all by (intro exI [of _ es']) (auto split: prod.splits)
  next
    case (Inr s)
    obtain ta1 st1 where s: "s = (ta1, st1)" by force
    have st1: "knows i {e \<in> E. of_run i e} es' (ps_telemetry st1)" "set es' = set es \<union> {e \<in> folded_events sp num [q]. of_run i e}"
      using es'(2) unfolding Inr s all by simp_all
    note w = persistEntityWrites_total [OF sp triaged_items_wire(2) [OF sp, where num = num and raws = "ic_events q"],
        where fails = "ic_fails q" and ta = ta1 and st = st1, folded tg_def]
    show ?thesis
    proof (cases "persistEntityWrites (ic_fails q) (tg_writes tg) ta1 st1")
      case (Inl f)
      thus ?thesis using w es'(1) st1 \<open>persistGroups _ _ _ _ _ = Inr s\<close> unfolding io s
        by (intro exI [of _ es']) (auto split: prod.splits)
    next
      case (Inr p)
      obtain ta2 st2 where p: "p = (ta2, st2)" by force
      have "ps_telemetry st2 = ps_telemetry st1" using w unfolding Inr p by simp
      hence "knows i {e \<in> E. of_run i e} es' (foldDropped (ic_fails q) (ic_dropped q) (ic_deliveryId q) (ic_receivedAt q)
          (tg_runIds tg) (ps_telemetry st2))" using knows_foldDropped st1(1) by simp
      thus ?thesis using es'(1) st1(2) Inr \<open>persistGroups _ _ _ _ _ = Inr s\<close> unfolding io s p
        by (intro exI [of _ es']) simp
    qed
  qed
qed

section \<open>Sequences of requests\<close>

lemma folded_events_Cons: "folded_events sp num (q # qs) = folded_events sp num [q] \<union> folded_events sp num qs"
  by (auto simp: folded_events_def)

lemma serve_knows:
  assumes sp: "zod_laws sp" and E: "well_identified i E" and qs: "folded_events sp num qs \<subseteq> E"
    and k: "knows i {e \<in> E. of_run i e} es (ps_telemetry st)" and "serve sp num qs st = (answered, final)"
  shows "\<exists>es'. knows i {e \<in> E. of_run i e} es' (ps_telemetry final) \<and>
    set es \<union> {e \<in> folded_events sp num answered. of_run i e} \<subseteq> set es' \<and>
    set es' \<subseteq> set es \<union> {e \<in> folded_events sp num qs. of_run i e}"
  using qs k assms(5)
proof (induction qs arbitrary: es st answered)
  case Nil
  thus ?case by (intro exI [of _ es]) (auto simp: folded_events_def)
next
  case (Cons q qs)
  have sub: "folded_events sp num [q] \<subseteq> E" "folded_events sp num qs \<subseteq> E"
    using Cons.prems(1) unfolding folded_events_Cons [of _ _ q qs] by blast+
  from ingest_knows [OF sp E sub(1) Cons.prems(2)] obtain es1 where
    es1: "set es \<subseteq> set es1" "set es1 \<subseteq> set es \<union> {e \<in> folded_events sp num [q]. of_run i e}"
    and out: "case call_ingest sp num q st of
       IngestOk _ st' \<Rightarrow> knows i {e \<in> E. of_run i e} es1 (ps_telemetry st') \<and> {e \<in> folded_events sp num [q]. of_run i e} \<subseteq> set es1
     | IngestFailed _ st' \<Rightarrow> knows i {e \<in> E. of_run i e} es1 (ps_telemetry st')" by blast
  show ?case
  proof (cases "call_ingest sp num q st")
    case (IngestOk resp st')
    obtain as where as: "serve sp num qs st' = (as, final)" "answered = q # as"
      using Cons.prems(3) IngestOk by (auto split: prod.splits)
    have st': "knows i {e \<in> E. of_run i e} es1 (ps_telemetry st')" "{e \<in> folded_events sp num [q]. of_run i e} \<subseteq> set es1"
      using out IngestOk by simp_all
    from Cons.IH [OF sub(2) st'(1) as(1)] obtain es' where
      "knows i {e \<in> E. of_run i e} es' (ps_telemetry final)"
      "set es1 \<union> {e \<in> folded_events sp num as. of_run i e} \<subseteq> set es'"
      "set es' \<subseteq> set es1 \<union> {e \<in> folded_events sp num qs. of_run i e}" by blast
    thus ?thesis using es1 st'(2) unfolding as(2) folded_events_Cons [of _ _ q qs] folded_events_Cons [of _ _ q as]
      by (intro exI [of _ es']) blast
  next
    case (IngestFailed code st')
    hence st': "knows i {e \<in> E. of_run i e} es1 (ps_telemetry st')" "serve sp num qs st' = (answered, final)"
      using out Cons.prems(3) by simp_all
    from Cons.IH [OF sub(2) st'] obtain es' where
      "knows i {e \<in> E. of_run i e} es' (ps_telemetry final)"
      "set es1 \<union> {e \<in> folded_events sp num answered. of_run i e} \<subseteq> set es'"
      "set es' \<subseteq> set es1 \<union> {e \<in> folded_events sp num qs. of_run i e}" by blast
    thus ?thesis using es1 unfolding folded_events_Cons [of _ _ q qs] by (intro exI [of _ es']) blast
  qed
qed

text \<open>A store that has never heard of a Run.\<close>

definition no_trace_of :: "jstr \<Rightarrow> PlatformStore \<Rightarrow> bool" where
  "no_trace_of i st \<longleftrightarrow> ts_runs (ps_telemetry st) i = None \<and> (\<forall>eventId. ts_ingested (ps_telemetry st) (i, eventId) = None)"

lemma knows_nothing: "wf_store (ps_telemetry st) \<Longrightarrow> no_trace_of i st \<Longrightarrow> knows i U [] (ps_telemetry st)"
  by (simp add: knows_def no_trace_of_def loadRunWith_def shows_nothing)

lemma same_run_columns:
  "same_run t s \<Longrightarrow> runColumns t = Some a \<Longrightarrow> runColumns s = Some c \<Longrightarrow> a\<lparr>rc_lastEventAt := 0\<rparr> = c\<lparr>rc_lastEventAt := 0\<rparr>"
  by (auto simp: runColumns_def same_run_def core_eq_def split: option.splits)

lemma serve_row:
  assumes "zod_laws sp" "well_identified i E" "folded_events sp num qs \<subseteq> E" "wf_store (ps_telemetry st)" "no_trace_of i st"
    "serve sp num qs st = (answered, final)" "{e \<in> folded_events sp num qs. of_run i e} \<subseteq> folded_events sp num answered"
    "{e \<in> folded_events sp num qs. of_run i e} \<noteq> {}" and enum: "distinct es" "set es = {e \<in> folded_events sp num qs. of_run i e}"
  shows "\<exists>row s c. ts_runs (ps_telemetry final) i = Some row \<and> mergeEvents None (map (merge_at 0) es) = Inr (Some s) \<and>
    runColumns s = Some c \<and> (rr_columns row)\<lparr>rc_lastEventAt := 0\<rparr> = c\<lparr>rc_lastEventAt := 0\<rparr>"
proof -
  let ?U = "{e \<in> folded_events sp num qs. of_run i e}"
  from serve_knows [OF assms(1-3) knows_nothing [OF assms(4,5)] assms(6)] obtain ks where
    ks: "knows i {e \<in> E. of_run i e} ks (ps_telemetry final)" "{e \<in> folded_events sp num answered. of_run i e} \<subseteq> set ks" "set ks \<subseteq> ?U"
    by auto
  have same: "set ks = set es" using ks(2,3) assms(7) enum(2) by blast
  have wire: "mergeable_item sp (0, e)" if e: "e \<in> set es" for e
    using e classify_wire(1) [OF assms(1)] unfolding enum(2) by (auto simp: folded_events_def mergeable_item_def)
  note w = merge_at_wire [OF assms(1) wire]
  have E: "set es \<subseteq> E" using enum(2) assms(3) by blast
  have "inj_on te_eventId (set es)" using assms(2) E unfolding well_identified_def by (blast intro: inj_on_subset)
  hence ids: "distinct (map me_eventId (map (merge_at 0) es))"
    using enum(1) w(3) by (simp add: distinct_map comp_def inj_on_def)
  have valid: "\<forall>m \<in> set (map (merge_at 0) es). valid_merge_event m \<and> me_entityId m = i"
    using w(2,4) enum(2) by (auto simp: wire_merge_event_def of_run_def)
  have "mset (map (merge_at 0) es) = mset (map (merge_at 0) ks)"
    using same enum(1) ks(1) by (metis knows_def mset_map set_eq_iff_mset_eq_distinct)
  from order_independent [OF _ this valid ids, of None]
  have perm: "mergeEvents None (map (merge_at 0) es) = mergeEvents None (map (merge_at 0) ks)" by simp
  have "ks \<noteq> []" using same enum(2) assms(8) by auto
  have wf: "wf_store (ps_telemetry final)" and shown: "shows_events ks (loadRunWith (ps_telemetry final) i)"
    using ks(1) by (simp_all add: knows_def)
  from shows_something [OF shown \<open>ks \<noteq> []\<close>] obtain row where row: "ts_runs (ps_telemetry final) i = Some row"
    by (auto simp: loadRunWith_def)
  note l = loaded_run [OF wf row]
  obtain s where s: "mergeEvents None (map (merge_at 0) ks) = Inr (Some s)" "same_run (runRowToState row) s"
    using ks(1) row by (auto simp: knows_def shows_events_def loadRunWith_def option_rel_Some1)
  obtain c where c: "runColumns s = Some c" using run.cols_total s(2) by (fastforce simp: same_run_def)
  have "(rr_columns row)\<lparr>rc_lastEventAt := 0\<rparr> = c\<lparr>rc_lastEventAt := 0\<rparr>"
    using same_run_columns [OF s(2) l(2) c] .
  thus ?thesis using row s(1) c perm by auto
qed

text \<open>C5. The stored Run is a function of the set of its events.  Take two sequences of ingest requests, on
  stores that know nothing of a Run, with any clocks, drop reports and batch boundaries, with events
  repeated, in any order, and with requests that the database made fail, as long as each of the Run's
  events is in some request that was answered.  If the event ids identify the events, and the Run's
  events name the Run, then both sequences leave a row for the Run whose columns are equal, and equal
  to the columns of one fold over its events in any order; only the liveness clock, the creation time and the
  drop count can differ.\<close>

theorem stored_run_depends_on_event_set:
  assumes "zod_laws safeParse"
    "wf_store (ps_telemetry st)" "no_trace_of i st" "serve safeParse num qs st = (answered, final)"
    "wf_store (ps_telemetry st')" "no_trace_of i st'" "serve safeParse num qs' st' = (answered', final')"
    "well_identified i (folded_events safeParse num (qs @ qs'))"
    "{e \<in> folded_events safeParse num qs. of_run i e} \<subseteq> folded_events safeParse num answered"
    "{e \<in> folded_events safeParse num qs'. of_run i e} \<subseteq> folded_events safeParse num answered'"
    "{e \<in> folded_events safeParse num qs. of_run i e} = {e \<in> folded_events safeParse num qs'. of_run i e}"
    "distinct es" "es \<noteq> []" "set es = {e \<in> folded_events safeParse num qs. of_run i e}"
  shows "\<exists>row row' s c. ts_runs (ps_telemetry final) i = Some row \<and> ts_runs (ps_telemetry final') i = Some row' \<and>
    mergeEvents None (map (merge_at 0) es) = Inr (Some s) \<and> runColumns s = Some c \<and>
    (rr_columns row)\<lparr>rc_lastEventAt := 0\<rparr> = c\<lparr>rc_lastEventAt := 0\<rparr> \<and>
    (rr_columns row')\<lparr>rc_lastEventAt := 0\<rparr> = c\<lparr>rc_lastEventAt := 0\<rparr>"
proof -
  have sub: "folded_events safeParse num qs \<subseteq> folded_events safeParse num (qs @ qs')"
    "folded_events safeParse num qs' \<subseteq> folded_events safeParse num (qs @ qs')" by (auto simp: folded_events_def)
  have ne: "{e \<in> folded_events safeParse num qs. of_run i e} \<noteq> {}" using assms(13,14) by (metis set_empty)
  from serve_row [OF assms(1,8) sub(1) assms(2,3,4,9) ne assms(12,14)]
    serve_row [OF assms(1,8) sub(2) assms(5,6,7,10) ne [unfolded assms(11)] assms(12) assms(14) [unfolded assms(11)]]
  show ?thesis by auto
qed

text \<open>A Run that starts; a request that the database refuses, and its retry later; and the event twice in one answered request.\<close>

definition one_call :: "io_failures \<Rightarrow> int \<Rightarrow> json list \<Rightarrow> IngestCall" where
  "one_call fails now raws = \<lparr>ic_fails = fails, ic_receivedAt = now, ic_batchId = js ''b'', ic_events = raws, ic_dropped = None, ic_deliveryId = None\<rparr>"

definition db_down :: io_failures where
  "db_down op = Some \<lparr>je_isError = True, je_name = js ''PrismaClientInitializationError'', je_code = None, je_meta = None\<rparr>"

lemma folded_one:
  "folded_events zod_ref (\<lambda>_. 5) (one_call f t raws # qs) = {e. \<exists>raw \<in> set raws. classifyEvent zod_ref (\<lambda>_. 5) raw = ClsMerge e} \<union>
     folded_events zod_ref (\<lambda>_. 5) qs" "folded_events zod_ref (\<lambda>_. 5) [] = {}"
  by (auto simp: folded_events_def one_call_def)

lemma call_answers:
  assumes "wf_store (ps_telemetry st)"
  obtains resp st' where "call_ingest zod_ref (\<lambda>_. 5) (one_call (\<lambda>_. None) t raws) st = IngestOk resp st'"
  using ingest_answers [OF zod_laws_ref assms, where fails = "\<lambda>_. None" and now = t and batchId = "js ''b''" and raws = raws and
      dropped = None and d = None and num = "\<lambda>_. 5"] by (auto simp: call_ingest_def one_call_def)

theorem stored_run_depends_on_event_set_witness:
  "\<exists>answered final answered' final' row row'.
     serve zod_ref (\<lambda>_. 5) [one_call db_down 7 [raw_run_started], one_call (\<lambda>_. None) 9 [raw_run_started]] empty_platform = (answered, final) \<and>
     serve zod_ref (\<lambda>_. 5) [one_call (\<lambda>_. None) 3 [raw_run_started, raw_run_started]] empty_platform = (answered', final') \<and>
     ts_runs (ps_telemetry final) (js ''r'') = Some row \<and> ts_runs (ps_telemetry final') (js ''r'') = Some row' \<and>
     (rr_columns row)\<lparr>rc_lastEventAt := 0\<rparr> = (rr_columns row')\<lparr>rc_lastEventAt := 0\<rparr>"
proof -
  let ?first = "one_call db_down 7 [raw_run_started]" and ?retry = "one_call (\<lambda>_. None) 9 [raw_run_started]"
  let ?twice = "one_call (\<lambda>_. None) 3 [raw_run_started, raw_run_started]"
  have f: "folded_events zod_ref (\<lambda>_. 5) [?first, ?retry] = {parsed_run_started}" "folded_events zod_ref (\<lambda>_. 5) [?twice] = {parsed_run_started}"
    "folded_events zod_ref (\<lambda>_. 5) ([?first, ?retry] @ [?twice]) = {parsed_run_started}"
    "folded_events zod_ref (\<lambda>_. 5) [?retry] = {parsed_run_started}"
    by (simp_all add: folded_one classify_run_started)
  have run: "of_run (js ''r'') parsed_run_started" "te_runId parsed_run_started = js ''r''"
    by (simp_all add: of_run_def parsed_run_started_def mergeEntityKindOf_def ENTITY_KIND_BY_EVENT_TYPE_def)
  hence U: "{e \<in> {parsed_run_started}. of_run (js ''r'') e} = {parsed_run_started}" "well_identified (js ''r'') {parsed_run_started}"
    by (auto simp: well_identified_def)
  have none: "no_trace_of (js ''r'') empty_platform" by (simp add: no_trace_of_def empty_platform_def)
  have "\<exists>code st1. call_ingest zod_ref (\<lambda>_. 5) ?first empty_platform = IngestFailed code st1"
    by (simp add: call_ingest_def one_call_def ingest_def triage_def triageEvent_def classify_run_started entityGroups_def
        buckets_def persistGroup_def db_down_def)
  then obtain code st1 where fail: "call_ingest zod_ref (\<lambda>_. 5) ?first empty_platform = IngestFailed code st1" by blast
  have "wf_store (ps_telemetry st1)"
    using ingest_outcome [OF zod_laws_ref wf_empty] fail unfolding call_ingest_def by (metis (no_types, lifting) IngestOutcome.simps(6))
  from call_answers [OF this] obtain resp st2 where ok: "call_ingest zod_ref (\<lambda>_. 5) ?retry st1 = IngestOk resp st2" .
  obtain resp' st3 where ok': "call_ingest zod_ref (\<lambda>_. 5) ?twice empty_platform = IngestOk resp' st3"
    using call_answers [OF wf_empty] .
  have s: "serve zod_ref (\<lambda>_. 5) [?first, ?retry] empty_platform = ([?retry], st2)" "serve zod_ref (\<lambda>_. 5) [?twice] empty_platform = ([?twice], st3)"
    by (simp_all add: fail ok ok')
  have sub: "{e \<in> {parsed_run_started}. of_run (js ''r'') e} \<subseteq> {parsed_run_started}" by blast
  have es: "distinct [parsed_run_started]" "[parsed_run_started] \<noteq> []" by simp_all
  have set: "set [parsed_run_started] = {e \<in> {parsed_run_started}. of_run (js ''r'') e}" unfolding U by simp
  obtain row row' where row: "ts_runs (ps_telemetry st2) (js ''r'') = Some row" "ts_runs (ps_telemetry st3) (js ''r'') = Some row'"
    "(rr_columns row)\<lparr>rc_lastEventAt := 0\<rparr> = (rr_columns row')\<lparr>rc_lastEventAt := 0\<rparr>"
    using stored_run_depends_on_event_set [OF zod_laws_ref wf_empty none s(1) wf_empty none s(2), where es = "[parsed_run_started]",
        unfolded f, OF U(2) sub sub refl es set] by auto
  show ?thesis by (intro exI conjI, rule s(1), rule s(2), rule row(1), rule row(2), rule row(3))
qed

end
