(* ===== verification/Js_Sort.thy ===== *)
theory Js_Sort
  imports Prelude "HOL-Library.Product_Lexorder"
begin

text \<open>
  \<^verbatim>\<open>Array.prototype.sort\<close> with a comparator: an element goes after every element it does not compare
  below, so the sort is stable.  Every comparator of the program compares a key, and then the sort is
  the library's \<open>sort_key\<close>, which carries the facts the components use.
\<close>

fun js_insert :: "('a \<Rightarrow> 'a \<Rightarrow> int) \<Rightarrow> 'a \<Rightarrow> 'a list \<Rightarrow> 'a list" where
  "js_insert cmp x [] = [x]"
| "js_insert cmp x (y # ys) = (if cmp x y < 0 then x # y # ys else y # js_insert cmp x ys)"

definition js_sort :: "('a \<Rightarrow> 'a \<Rightarrow> int) \<Rightarrow> 'a list \<Rightarrow> 'a list" where
  "js_sort cmp xs = fold (js_insert cmp) xs []"

text \<open>\<^verbatim>\<open>a < b ? -1 : a > b ? 1 : 0\<close> on strings: code unit by code unit.\<close>

definition js_compare :: "jstr \<Rightarrow> jstr \<Rightarrow> int" where
  "js_compare a b = (if a < b then -1 else if b < a then 1 else 0)"

definition orders_by :: "('a \<Rightarrow> 'a \<Rightarrow> int) \<Rightarrow> ('a \<Rightarrow> 'k::linorder) \<Rightarrow> bool" where
  "orders_by cmp key \<longleftrightarrow> (\<forall>x y. cmp x y < 0 \<longleftrightarrow> key x < key y)"

lemma js_insert_mset [simp]: "mset (js_insert cmp x ys) = add_mset x (mset ys)"
  by (induction ys) auto

lemma js_insert_sorted:
  assumes "orders_by cmp key" "sorted (map key ys)"
  shows "sorted (map key (js_insert cmp x ys))"
  using assms(2)
proof (induction ys)
  case (Cons y ys)
  have "set (js_insert cmp x ys) = insert x (set ys)"
    using mset_eq_setD [of "js_insert cmp x ys" "x # ys"] by simp
  thus ?case using Cons assms(1) by (auto simp: orders_by_def)
qed simp

lemma js_insert_stable:
  assumes "orders_by cmp key" "sorted (map key ys)"
  shows "filter (\<lambda>z. k = key z) (js_insert cmp x ys) = filter (\<lambda>z. k = key z) ys @ (if k = key x then [x] else [])"
  using assms(2)
proof (induction ys)
  case (Cons y ys)
  have "filter (\<lambda>z. key x = key z) (y # ys) = []" if "key x < key y"
    using Cons.prems that by (auto simp: filter_empty_conv)
  thus ?case using Cons assms(1) by (auto simp: orders_by_def)
qed simp

text \<open>The sort by a key.\<close>

lemma js_sort_key:
  assumes "orders_by cmp key"
  shows "js_sort cmp xs = sort_key key xs"
proof -
  have "mset (js_sort cmp xs) = mset xs \<and> sorted (map key (js_sort cmp xs)) \<and>
    (\<forall>k. filter (\<lambda>z. k = key z) (js_sort cmp xs) = filter (\<lambda>z. k = key z) xs)"
  proof (induction xs rule: rev_induct)
    case (snoc x xs)
    thus ?case
      using js_insert_sorted [OF assms, of "js_sort cmp xs" x] js_insert_stable [OF assms, of "js_sort cmp xs" _ x]
      by (simp add: js_sort_def)
  qed (simp add: js_sort_def)
  thus ?thesis using properties_for_sort_key [of "js_sort cmp xs" xs key] by simp
qed

lemma sort_key_perm:
  assumes "mset xs = mset ys" "inj_on key (set xs)"
  shows "sort_key key xs = sort_key key ys"
  using assms by (intro sort_key_inj_key_eq) auto

lemma sum_list_sort_key [simp]: "sum_list (map f (sort_key key xs)) = (sum_list (map f xs) :: nat)"
  by (metis mset_map mset_sort sum_mset_sum_list)

lemma length_filter_sort_key: "length (filter P (sort_key k xs)) = length (filter P xs)"
  by (metis mset_filter mset_sort size_mset)

end
