(* ===== verification/Decision_Aggregate.thy ===== *)
theory Decision_Aggregate
  imports Buckets Js_Sort
begin

text \<open>
  \<^verbatim>\<open>platform/analysis-engine/src/aggregate.ts\<close> and \<^verbatim>\<open>types.ts\<close>: what is measured of a group of
  decisions.  Ratios are rationals: every ratio is a quotient of two counts, and it is compared
  only with a threshold, where the rounding of the quotient cannot change the answer for counts
  below $2^{26}$.
\<close>

section \<open>Data\<close>

datatype Outcome = SUCCESS | FAILURE | UNKNOWN

datatype DecisionAttestedBy = ByCaller | ByUnknown

record DecisionRecord =
  dr_decisionId :: jstr
  dr_runId :: jstr
  dr_runIsStale :: bool
  dr_workflowName :: jstr
  dr_workflowVersion :: jstr
  dr_decisionType :: jstr
  dr_contextKey :: "jstr option"
  dr_contextKeyVersion :: jstr
  dr_availableOptions :: "jstr list"
  dr_selectedOption :: jstr
  dr_outcome :: Outcome
  dr_outcomeAttestedBy :: DecisionAttestedBy

record GroupKey =
  gk_workflowName :: jstr
  gk_workflowVersion :: jstr
  gk_decisionType :: jstr
  gk_contextKeyVersion :: jstr

record ExclusionCounts =
  ex_staleRun :: nat
  ex_missingContextKey :: nat

record OptionCount =
  oc_option :: jstr
  oc_count :: nat
  oc_share :: rat

record Counterexample =
  cx_decisionId :: jstr
  cx_runId :: jstr
  cx_contextKey :: jstr
  cx_selectedOption :: jstr
  cx_outcome :: Outcome

record ContextConcentration =
  cc_contextKey :: jstr
  cc_count :: nat
  cc_share :: rat

record DecisionAggregate =
  ag_key :: GroupKey
  ag_sampleCount :: nat
  ag_distinctContextKeyCount :: nat
  ag_optionDistribution :: "OptionCount list"
  ag_dominantOption :: "jstr option"
  ag_dominancePercentage :: rat
  ag_attestedCount :: nat
  ag_outcomeCoverage :: rat
  ag_dominantOptionAttestedSuccessRate :: "rat option"
  ag_counterexamples :: "Counterexample list"
  ag_minorityContextConcentration :: "ContextConcentration list"
  ag_excluded :: ExclusionCounts

section \<open>Operations\<close>

definition groupKeyOf :: "DecisionRecord \<Rightarrow> GroupKey" where
  "groupKeyOf r = \<lparr>gk_workflowName = dr_workflowName r, gk_workflowVersion = dr_workflowVersion r,
     gk_decisionType = dr_decisionType r, gk_contextKeyVersion = dr_contextKeyVersion r\<rparr>"

definition serializeGroupKey :: "GroupKey \<Rightarrow> jstr" where
  "serializeGroupKey k = gk_workflowName k @ js '' '' @ gk_workflowVersion k @ js '' '' @
     gk_decisionType k @ js '' '' @ gk_contextKeyVersion k"

definition isEligible :: "DecisionRecord \<Rightarrow> bool" where
  "isEligible r \<longleftrightarrow> \<not> dr_runIsStale r \<and> dr_contextKey r \<noteq> None"

fun countExclusions_loop :: "DecisionRecord list \<Rightarrow> ExclusionCounts \<Rightarrow> ExclusionCounts" where
  "countExclusions_loop [] c = c"
| "countExclusions_loop (r # rs) c = countExclusions_loop rs
     (if dr_runIsStale r then c\<lparr>ex_staleRun := ex_staleRun c + 1\<rparr>
      else if dr_contextKey r = None then c\<lparr>ex_missingContextKey := ex_missingContextKey c + 1\<rparr> else c)"

definition countExclusions :: "DecisionRecord list \<Rightarrow> ExclusionCounts" where
  "countExclusions rs = countExclusions_loop rs \<lparr>ex_staleRun = 0, ex_missingContextKey = 0\<rparr>"

text \<open>\<^verbatim>\<open>counts.set(k, (counts.get(k) ?? 0) + 1)\<close> on a \<^verbatim>\<open>Map\<close>, which enumerates in insertion order.\<close>

fun count_up :: "'k \<Rightarrow> ('k \<times> nat) list \<Rightarrow> ('k \<times> nat) list" where
  "count_up k [] = [(k, 1)]"
| "count_up k ((k', n) # cs) = (if k' = k then (k', n + 1) # cs else (k', n) # count_up k cs)"

definition tally :: "('a \<Rightarrow> 'k) \<Rightarrow> 'a list \<Rightarrow> ('k \<times> nat) list" where
  "tally key xs = fold (\<lambda>x. count_up (key x)) xs []"

definition compareOptionCount :: "OptionCount \<Rightarrow> OptionCount \<Rightarrow> int" where
  "compareOptionCount a b =
     (let d = int (oc_count b) - int (oc_count a) in
      if d \<noteq> 0 then d else if oc_option a < oc_option b then -1 else 1)"

definition distribution :: "DecisionRecord list \<Rightarrow> nat \<Rightarrow> OptionCount list" where
  "distribution eligible totalCount =
     js_sort compareOptionCount
       (map (\<lambda>(option, count). \<lparr>oc_option = option, oc_count = count,
              oc_share = (if totalCount = 0 then 0 else of_nat count / of_nat totalCount)\<rparr>)
         (tally dr_selectedOption eligible))"

definition minoritySelections :: "DecisionRecord list \<Rightarrow> jstr option \<Rightarrow> DecisionRecord list" where
  "minoritySelections eligible dominantOption =
     (case dominantOption of None \<Rightarrow> [] | Some d \<Rightarrow> filter (\<lambda>r. dr_selectedOption r \<noteq> d) eligible)"

definition toCounterexample :: "DecisionRecord \<Rightarrow> Counterexample" where
  "toCounterexample r = \<lparr>cx_decisionId = dr_decisionId r, cx_runId = dr_runId r,
     cx_contextKey = coalesce (dr_contextKey r) [], cx_selectedOption = dr_selectedOption r,
     cx_outcome = dr_outcome r\<rparr>"

definition compareCounterexample :: "Counterexample \<Rightarrow> Counterexample \<Rightarrow> int" where
  "compareCounterexample a b =
     (if cx_contextKey a < cx_contextKey b then -1
      else if cx_contextKey a > cx_contextKey b then 1
      else if cx_decisionId a < cx_decisionId b then -1 else 1)"

definition extractCounterexamples :: "DecisionRecord list \<Rightarrow> jstr option \<Rightarrow> Counterexample list" where
  "extractCounterexamples eligible dominantOption =
     (case dominantOption of None \<Rightarrow> []
      | Some d \<Rightarrow>
        (let dominantFailures = filter (\<lambda>r. dr_selectedOption r = d \<and> dr_outcome r = FAILURE) eligible;
             minoritySuccesses = filter (\<lambda>r. dr_selectedOption r \<noteq> d \<and> dr_outcome r = SUCCESS) eligible
         in js_sort compareCounterexample (map toCounterexample (dominantFailures @ minoritySuccesses))))"

definition compareConcentration :: "ContextConcentration \<Rightarrow> ContextConcentration \<Rightarrow> int" where
  "compareConcentration a b =
     (let d = int (cc_count b) - int (cc_count a) in
      if d \<noteq> 0 then d else if cc_contextKey a < cc_contextKey b then -1 else 1)"

definition concentration :: "DecisionRecord list \<Rightarrow> ContextConcentration list" where
  "concentration minorityRecords =
     (if minorityRecords = [] then []
      else js_sort compareConcentration
        (map (\<lambda>(contextKey, count). \<lparr>cc_contextKey = contextKey, cc_count = count,
               cc_share = of_nat count / of_nat (length minorityRecords)\<rparr>)
          (tally (\<lambda>r. coalesce (dr_contextKey r) []) minorityRecords)))"

definition aggregateGroup :: "GroupKey \<Rightarrow> DecisionRecord list \<Rightarrow> DecisionAggregate" where
  "aggregateGroup key records =
     (let eligible = filter isEligible records;
          excluded = countExclusions records;
          sampleCount = length eligible;
          distinctContextKeyCount = length (remdups (map dr_contextKey eligible));
          optionDistribution = distribution eligible sampleCount;
          dominantOption = (case optionDistribution of [] \<Rightarrow> None | oc # _ \<Rightarrow> Some (oc_option oc));
          dominancePercentage = (case optionDistribution of [] \<Rightarrow> 0 | oc # _ \<Rightarrow> oc_share oc);
          attested = filter (\<lambda>r. dr_outcome r \<noteq> UNKNOWN) eligible;
          dominantAttested = filter (\<lambda>r. Some (dr_selectedOption r) = dominantOption) attested;
          dominantSuccesses = length (filter (\<lambda>r. dr_outcome r = SUCCESS) dominantAttested)
      in \<lparr>ag_key = key, ag_sampleCount = sampleCount, ag_distinctContextKeyCount = distinctContextKeyCount,
          ag_optionDistribution = optionDistribution, ag_dominantOption = dominantOption,
          ag_dominancePercentage = dominancePercentage, ag_attestedCount = length attested,
          ag_outcomeCoverage = (if sampleCount = 0 then 0 else of_nat (length attested) / of_nat sampleCount),
          ag_dominantOptionAttestedSuccessRate =
            (if dominantAttested = [] then None
             else Some (of_nat dominantSuccesses / of_nat (length dominantAttested))),
          ag_counterexamples = extractCounterexamples eligible dominantOption,
          ag_minorityContextConcentration = concentration (minoritySelections eligible dominantOption),
          ag_excluded = excluded\<rparr>)"

text \<open>A bucket keeps the key of the record that created it.\<close>

definition aggregateAll :: "DecisionRecord list \<Rightarrow> DecisionAggregate list" where
  "aggregateAll records =
     map (\<lambda>(_, rs). aggregateGroup (groupKeyOf (hd rs)) rs)
       (js_sort (\<lambda>(a, _) (b, _). js_compare a b) (buckets (serializeGroupKey \<circ> groupKeyOf) records))"

section \<open>Counting\<close>

lemma count_up_buckets:
  "count_up k (map (\<lambda>(k, vs). (k, length vs)) bs) = map (\<lambda>(k, vs). (k, length vs)) (bucket_add k v bs)"
  by (induction k v bs rule: bucket_add.induct) auto

lemma tally_buckets: "tally key xs = map (\<lambda>(k, vs). (k, length vs)) (buckets key xs)"
proof (induction xs rule: rev_induct)
  case (snoc x xs)
  thus ?case using count_up_buckets [of "key x" "buckets key xs" x] by (simp add: tally_def)
qed (simp add: tally_def)

lemma tally_keys: "map fst (tally key xs) = map fst (buckets key xs)"
  by (simp add: tally_buckets case_prod_unfold)

lemma tally_distinct: "distinct (map fst (tally key xs))"
  by (simp add: tally_keys buckets_distinct)

lemma tally_iff:
  "(k, n) \<in> set (tally key xs) \<longleftrightarrow> k \<in> key ` set xs \<and> n = length (filter (\<lambda>x. key x = k) xs)"
proof
  assume "(k, n) \<in> set (tally key xs)"
  then obtain vs where "(k, vs) \<in> set (buckets key xs)" "n = length vs" by (auto simp: tally_buckets)
  thus "k \<in> key ` set xs \<and> n = length (filter (\<lambda>x. key x = k) xs)" using bucket_items [of k vs key xs] by auto
next
  assume k: "k \<in> key ` set xs \<and> n = length (filter (\<lambda>x. key x = k) xs)"
  then obtain vs where vs: "(k, vs) \<in> set (buckets key xs)" using buckets_keys_set [of key xs] by force
  have "(k, length vs) = (\<lambda>(k, vs). (k, length vs)) (k, vs)" by simp
  hence "(k, length vs) \<in> set (tally key xs)" unfolding tally_buckets set_map using vs by blast
  thus "(k, n) \<in> set (tally key xs)" using k bucket_items(1) [OF vs] by simp
qed

lemma tally_sum: "sum_list (map snd (tally key xs)) = length xs"
  using buckets_total_length [of key xs] by (simp add: tally_buckets comp_def case_prod_unfold)

lemma tally_perm:
  assumes "mset xs = mset ys"
  shows "mset (tally key xs) = mset (tally key ys)"
proof (subst set_eq_iff_mset_eq_distinct [symmetric])
  show "distinct (tally key xs)" "distinct (tally key ys)" using tally_distinct by (metis distinct_map)+
  have "length (filter P xs) = length (filter P ys)" for P using assms by (metis mset_filter size_mset)
  thus "set (tally key xs) = set (tally key ys)" using mset_eq_setD [OF assms] by (auto simp: tally_iff)
qed

lemma countExclusions_spec:
  "ex_staleRun (countExclusions rs) = length (filter dr_runIsStale rs)"
  "ex_missingContextKey (countExclusions rs) = length (filter (\<lambda>r. \<not> dr_runIsStale r \<and> dr_contextKey r = None) rs)"
proof -
  have "ex_staleRun (countExclusions_loop rs c) = ex_staleRun c + length (filter dr_runIsStale rs) \<and>
    ex_missingContextKey (countExclusions_loop rs c) =
      ex_missingContextKey c + length (filter (\<lambda>r. \<not> dr_runIsStale r \<and> dr_contextKey r = None) rs)" for c
    by (induction rs c rule: countExclusions_loop.induct) auto
  thus "ex_staleRun (countExclusions rs) = length (filter dr_runIsStale rs)"
    "ex_missingContextKey (countExclusions rs) = length (filter (\<lambda>r. \<not> dr_runIsStale r \<and> dr_contextKey r = None) rs)"
    by (simp_all add: countExclusions_def)
qed

text \<open>Every record is counted once: as a sample, as stale, or as missing its key.\<close>

lemma exclusions_partition:
  "length (filter isEligible rs) + ex_staleRun (countExclusions rs) + ex_missingContextKey (countExclusions rs) = length rs"
  unfolding countExclusions_spec by (induction rs) (auto simp: isEligible_def)

section \<open>The sorted distribution\<close>

definition option_key :: "OptionCount \<Rightarrow> int \<times> jstr" where
  "option_key oc = (- int (oc_count oc), oc_option oc)"

definition concentration_key :: "ContextConcentration \<Rightarrow> int \<times> jstr" where
  "concentration_key cc = (- int (cc_count cc), cc_contextKey cc)"

definition counterexample_key :: "Counterexample \<Rightarrow> jstr \<times> jstr" where
  "counterexample_key c = (cx_contextKey c, cx_decisionId c)"

lemma comparators:
  "orders_by compareOptionCount option_key"
  "orders_by compareConcentration concentration_key"
  "orders_by compareCounterexample counterexample_key"
  "orders_by (\<lambda>(a, _) (b, _). js_compare a b) (fst :: jstr \<times> 'a \<Rightarrow> jstr)"
  by (auto simp: orders_by_def compareOptionCount_def option_key_def compareConcentration_def concentration_key_def
      compareCounterexample_def counterexample_key_def js_compare_def Let_def less_prod_def)

lemmas sorted_by = comparators [THEN js_sort_key]

definition option_count :: "nat \<Rightarrow> jstr \<times> nat \<Rightarrow> OptionCount" where
  "option_count t = (\<lambda>(option, count). \<lparr>oc_option = option, oc_count = count,
     oc_share = (if t = 0 then 0 else of_nat count / of_nat t)\<rparr>)"

lemma distribution_alt:
  "distribution eligible t = sort_key option_key (map (option_count t) (tally dr_selectedOption eligible))"
  by (simp add: distribution_def option_count_def sorted_by)

lemma distribution_iff:
  "oc \<in> set (distribution eligible t) \<longleftrightarrow>
     (\<exists>r \<in> set eligible. oc = option_count t (dr_selectedOption r,
        length (filter (\<lambda>q. dr_selectedOption q = dr_selectedOption r) eligible)))"
  unfolding distribution_alt set_sort set_map image_iff Bex_def split_paired_Ex tally_iff by auto

text \<open>How many of the records chose an option.\<close>

definition chosen :: "DecisionRecord list \<Rightarrow> jstr \<Rightarrow> nat" where
  "chosen eligible d = length (filter (\<lambda>r. dr_selectedOption r = d) eligible)"

lemma chosen_pos: "0 < chosen eligible d \<longleftrightarrow> d \<in> dr_selectedOption ` set eligible"
  by (auto simp: chosen_def filter_empty_conv length_greater_0_conv [symmetric] simp del: length_greater_0_conv)

lemma distribution_members:
  "oc \<in> set (distribution eligible t) \<longleftrightarrow>
     0 < chosen eligible (oc_option oc) \<and> oc = option_count t (oc_option oc, chosen eligible (oc_option oc))"
  unfolding distribution_iff chosen_pos by (auto simp: option_count_def chosen_def)

lemma distribution_pairs:
  "set (map (\<lambda>oc. (oc_option oc, oc_count oc)) (distribution eligible t)) =
     {(d, chosen eligible d) | d. 0 < chosen eligible d}"
proof (intro set_eqI iffI)
  fix p assume "p \<in> set (map (\<lambda>oc. (oc_option oc, oc_count oc)) (distribution eligible t))"
  then obtain r where "r \<in> set eligible" "p = (dr_selectedOption r, chosen eligible (dr_selectedOption r))"
    by (auto simp: distribution_iff chosen_def option_count_def)
  thus "p \<in> {(d, chosen eligible d) | d. 0 < chosen eligible d}" by (auto simp: chosen_pos)
next
  fix p assume "p \<in> {(d, chosen eligible d) | d. 0 < chosen eligible d}"
  then obtain r where r: "r \<in> set eligible" "p = (dr_selectedOption r, chosen eligible (dr_selectedOption r))"
    by (auto simp: chosen_pos)
  let ?oc = "option_count t (dr_selectedOption r, chosen eligible (dr_selectedOption r))"
  have "?oc \<in> set (distribution eligible t)" using r(1) by (auto simp: distribution_iff chosen_def)
  moreover have "p = (oc_option ?oc, oc_count ?oc)" by (simp add: option_count_def r(2))
  ultimately show "p \<in> set (map (\<lambda>oc. (oc_option oc, oc_count oc)) (distribution eligible t))" unfolding set_map by blast
qed

lemma distribution_head:
  assumes "distribution eligible t = oc # ocs"
  shows "oc = option_count t (oc_option oc, chosen eligible (oc_option oc))" "0 < chosen eligible (oc_option oc)"
    "chosen eligible o' \<le> chosen eligible (oc_option oc)"
    "chosen eligible o' = chosen eligible (oc_option oc) \<Longrightarrow> oc_option oc \<le> o'"
proof -
  have oc: "oc \<in> set (distribution eligible t)" by (simp add: assms)
  from oc show eq: "oc = option_count t (oc_option oc, chosen eligible (oc_option oc))"
    and pos: "0 < chosen eligible (oc_option oc)"
    unfolding distribution_members by auto
  have "sorted (map option_key (oc # ocs))" unfolding assms [symmetric] distribution_alt by simp
  hence least: "option_key oc \<le> option_key z" if "z \<in> set (distribution eligible t)" for z
    using that by (auto simp: assms)
  have key: "option_key (option_count t (k, n)) = (- int n, k)" for k n
    by (simp add: option_key_def option_count_def)
  have "(- int (chosen eligible (oc_option oc)), oc_option oc) \<le> (- int (chosen eligible o'), o')"
    if "0 < chosen eligible o'"
  proof -
    have "option_count t (o', chosen eligible o') \<in> set (distribution eligible t)"
      unfolding distribution_members using that by (simp add: option_count_def)
    from least [OF this] show ?thesis using key eq by metis
  qed
  thus "chosen eligible o' \<le> chosen eligible (oc_option oc)"
    "chosen eligible o' = chosen eligible (oc_option oc) \<Longrightarrow> oc_option oc \<le> o'"
    using pos by (cases "chosen eligible o' = 0"; auto simp: less_eq_prod_def)+
qed

lemma distribution_Nil: "distribution eligible t = [] \<longleftrightarrow> eligible = []"
proof -
  have "length (distribution eligible t) = length (buckets dr_selectedOption eligible)"
    by (simp add: distribution_alt tally_buckets)
  moreover have "buckets dr_selectedOption eligible = [] \<longleftrightarrow> eligible = []"
    using buckets_keys_set [of dr_selectedOption eligible] by (metis buckets_Nil image_is_empty set_empty)
  ultimately show ?thesis by (metis length_0_conv)
qed

lemma distribution_total: "sum_list (map oc_count (distribution eligible t)) = length eligible"
proof -
  have "map oc_count (map (option_count t) (tally dr_selectedOption eligible)) = map snd (tally dr_selectedOption eligible)"
    by (simp add: option_count_def case_prod_unfold)
  thus ?thesis unfolding distribution_alt by (simp only: sum_list_sort_key tally_sum)
qed

lemma aggregate_fields:
  fixes key :: GroupKey and rs :: "DecisionRecord list"
  defines "a \<equiv> aggregateGroup key rs" and "el \<equiv> filter isEligible rs"
  shows "ag_key a = key" "ag_sampleCount a = length el" "ag_optionDistribution a = distribution el (length el)"
    "ag_dominantOption a = (case distribution el (length el) of [] \<Rightarrow> None | oc # _ \<Rightarrow> Some (oc_option oc))"
    "ag_dominancePercentage a = (case distribution el (length el) of [] \<Rightarrow> 0 | oc # _ \<Rightarrow> oc_share oc)"
    "ag_distinctContextKeyCount a = card (dr_contextKey ` set el)"
    "ag_attestedCount a = length (filter (\<lambda>r. dr_outcome r \<noteq> UNKNOWN) el)"
    "ag_outcomeCoverage a = (if el = [] then 0 else of_nat (ag_attestedCount a) / of_nat (length el))"
    "ag_counterexamples a = extractCounterexamples el (ag_dominantOption a)"
    "ag_minorityContextConcentration a = concentration (minoritySelections el (ag_dominantOption a))"
    "ag_excluded a = countExclusions rs"
  unfolding a_def el_def by (simp_all add: aggregateGroup_def Let_def length_remdups_card_conv)

lemma dominant_iff:
  fixes key :: GroupKey and rs :: "DecisionRecord list"
  defines "a \<equiv> aggregateGroup key rs" and "el \<equiv> filter isEligible rs"
  shows "ag_dominantOption a = Some d \<longleftrightarrow> 0 < chosen el d \<and>
    (\<forall>o'. chosen el o' < chosen el d \<or> chosen el o' = chosen el d \<and> d \<le> o')"
    "ag_dominantOption a = Some d \<Longrightarrow> ag_dominancePercentage a = of_nat (chosen el d) / of_nat (length el)"
proof -
  have head: "0 < chosen el (oc_option oc) \<and>
      (\<forall>o'. chosen el o' < chosen el (oc_option oc) \<or> chosen el o' = chosen el (oc_option oc) \<and> oc_option oc \<le> o')"
    "el \<noteq> [] \<and> oc_share oc = of_nat (chosen el (oc_option oc)) / of_nat (length el)"
    if "distribution el (length el) = oc # ocs" for oc ocs
  proof -
    note h = distribution_head [OF that]
    show "0 < chosen el (oc_option oc) \<and>
      (\<forall>o'. chosen el o' < chosen el (oc_option oc) \<or> chosen el o' = chosen el (oc_option oc) \<and> oc_option oc \<le> o')"
      using h(2-4) by (metis le_neq_implies_less)
    have ne: "el \<noteq> []" using that distribution_Nil [of el "length el"] by auto
    show "el \<noteq> [] \<and> oc_share oc = of_nat (chosen el (oc_option oc)) / of_nat (length el)"
      using ne by (subst h(1)) (simp add: option_count_def)
  qed
  show "ag_dominantOption a = Some d \<longleftrightarrow> 0 < chosen el d \<and>
    (\<forall>o'. chosen el o' < chosen el d \<or> chosen el o' = chosen el d \<and> d \<le> o')"
  proof (cases "distribution el (length el)")
    case Nil
    thus ?thesis using distribution_Nil [of el "length el"]
      by (simp add: a_def aggregate_fields(4) el_def chosen_def)
  next
    case (Cons oc ocs)
    have "ag_dominantOption a = Some (oc_option oc)" using Cons by (simp add: a_def aggregate_fields(4) el_def)
    thus ?thesis using head(1) [OF Cons] by (metis antisym less_asym less_irrefl option.inject)
  qed
  show "ag_dominantOption a = Some d \<Longrightarrow> ag_dominancePercentage a = of_nat (chosen el d) / of_nat (length el)"
    using head(2) by (auto simp: a_def aggregate_fields(4,5) el_def split: list.splits)
qed

text \<open>What a group measures: every record is a sample, stale or un-keyed, and only one of them;
  the distribution lists each chosen option once, with the number of samples that chose it and its
  share, most frequent first; the counts add up to the samples; and coverage is the attested share.\<close>

theorem aggregate_measures:
  fixes key :: GroupKey and rs :: "DecisionRecord list"
  defines "a \<equiv> aggregateGroup key rs" and "el \<equiv> filter isEligible rs"
  shows "ag_sampleCount a + ex_staleRun (ag_excluded a) + ex_missingContextKey (ag_excluded a) = length rs \<and>
    distinct (map oc_option (ag_optionDistribution a)) \<and>
    set (map (\<lambda>oc. (oc_option oc, oc_count oc)) (ag_optionDistribution a)) = {(d, chosen el d) | d. 0 < chosen el d} \<and>
    sum_list (map oc_count (ag_optionDistribution a)) = ag_sampleCount a \<and>
    sorted (map option_key (ag_optionDistribution a)) \<and>
    ag_attestedCount a \<le> ag_sampleCount a \<and> 0 \<le> ag_outcomeCoverage a \<and> ag_outcomeCoverage a \<le> 1"
proof -
  note f = aggregate_fields [where key = key and rs = rs, folded a_def el_def]
  have "map oc_option (map (option_count t) (tally dr_selectedOption el)) = map fst (tally dr_selectedOption el)" for t
    by (simp add: option_count_def case_prod_unfold)
  hence "mset (map oc_option (ag_optionDistribution a)) = mset (map fst (tally dr_selectedOption el))"
    unfolding f(3) distribution_alt by (metis mset_map mset_sort)
  hence d: "distinct (map oc_option (ag_optionDistribution a))"
    using tally_distinct mset_eq_imp_distinct_iff by blast
  have s: "set (map (\<lambda>oc. (oc_option oc, oc_count oc)) (ag_optionDistribution a)) =
      {(d, chosen el d) | d. 0 < chosen el d}"
    unfolding f(3) by (rule distribution_pairs)
  have le: "ag_attestedCount a \<le> ag_sampleCount a" by (simp add: f(2,7))
  have "ag_outcomeCoverage a \<le> 1" "0 \<le> ag_outcomeCoverage a"
    using le by (simp_all add: f(2,8) divide_le_eq_1)
  moreover have "sum_list (map oc_count (ag_optionDistribution a)) = ag_sampleCount a"
    by (simp add: f(2,3) distribution_total)
  moreover have "sorted (map option_key (ag_optionDistribution a))" by (simp add: f(3) distribution_alt)
  moreover have "ag_sampleCount a + ex_staleRun (ag_excluded a) + ex_missingContextKey (ag_excluded a) = length rs"
    using exclusions_partition [of rs] by (simp add: f(2,11) el_def)
  ultimately show ?thesis using d s le by blast
qed

text \<open>The dominant option is the option most samples chose, the smallest name among equals, and
  there is one exactly if there is a sample; the dominance is its share of the samples.\<close>

theorem dominant_option_exact:
  fixes key :: GroupKey and rs :: "DecisionRecord list"
  defines "a \<equiv> aggregateGroup key rs" and "el \<equiv> filter isEligible rs"
  shows "(ag_dominantOption a = Some d \<longleftrightarrow> 0 < chosen el d \<and>
      (\<forall>o'. chosen el o' < chosen el d \<or> chosen el o' = chosen el d \<and> d \<le> o')) \<and>
    (ag_dominantOption a = None \<longleftrightarrow> el = []) \<and>
    ag_dominancePercentage a = (case ag_dominantOption a of None \<Rightarrow> 0 | Some d' \<Rightarrow> of_nat (chosen el d') / of_nat (length el))"
proof -
  note f = aggregate_fields [where key = key and rs = rs, folded a_def el_def]
  note d = dominant_iff [where key = key and rs = rs, folded a_def el_def]
  have "ag_dominantOption a = None \<longleftrightarrow> el = []"
    unfolding f(4) using distribution_Nil [of el "length el"] by (cases "distribution el (length el)") auto
  moreover have "ag_dominancePercentage a = 0" if "ag_dominantOption a = None"
    using that by (simp add: f(4,5) split: list.splits)
  ultimately show ?thesis using d by (simp split: option.split)
qed

section \<open>Evidence against\<close>

definition counterexample_records :: "DecisionRecord list \<Rightarrow> jstr \<Rightarrow> DecisionRecord list" where
  "counterexample_records el d =
     filter (\<lambda>r. if dr_selectedOption r = d then dr_outcome r = FAILURE else dr_outcome r = SUCCESS) el"

lemma extract_mset:
  "mset (extractCounterexamples el (Some d)) = image_mset toCounterexample (mset (counterexample_records el d))"
proof -
  have "mset (filter (\<lambda>r. dr_selectedOption r = d \<and> dr_outcome r = FAILURE) el) +
      mset (filter (\<lambda>r. dr_selectedOption r \<noteq> d \<and> dr_outcome r = SUCCESS) el) = mset (counterexample_records el d)"
    unfolding counterexample_records_def by (induction el) auto
  thus ?thesis by (simp add: extractCounterexamples_def sorted_by flip: image_mset_union)
qed

lemma extract_sorted: "sorted (map counterexample_key (extractCounterexamples el d))"
  by (cases d) (simp_all add: extractCounterexamples_def Let_def sorted_by)

definition context_count :: "nat \<Rightarrow> jstr \<times> nat \<Rightarrow> ContextConcentration" where
  "context_count n = (\<lambda>(contextKey, count). \<lparr>cc_contextKey = contextKey, cc_count = count,
     cc_share = of_nat count / of_nat n\<rparr>)"

lemma concentration_alt:
  "concentration ms = (if ms = [] then [] else sort_key concentration_key
     (map (context_count (length ms)) (tally (\<lambda>r. coalesce (dr_contextKey r) []) ms)))"
  by (simp add: concentration_def sorted_by context_count_def)

lemma concentration_total: "sum_list (map cc_count (concentration ms)) = length ms"
proof (cases "ms = []")
  case False
  let ?t = "tally (\<lambda>r. coalesce (dr_contextKey r) []) ms"
  have "map cc_count (map (context_count (length ms)) ?t) = map snd ?t"
    by (simp add: context_count_def case_prod_unfold)
  thus ?thesis unfolding concentration_alt using False by (simp only: if_False sum_list_sort_key tally_sum)
qed (simp add: concentration_def)

text \<open>The evidence against a recommendation is complete: the counterexamples are exactly the
  samples where the dominant option failed or another option succeeded, each once, none dropped,
  in order of context and decision; and the contexts of the minority count every sample that chose
  another option, whatever its outcome.\<close>

theorem counterexamples_complete:
  fixes key :: GroupKey and rs :: "DecisionRecord list"
  defines "a \<equiv> aggregateGroup key rs" and "el \<equiv> filter isEligible rs"
  shows "mset (ag_counterexamples a) = (case ag_dominantOption a of None \<Rightarrow> {#}
      | Some d \<Rightarrow> image_mset toCounterexample (mset (counterexample_records el d))) \<and>
    sorted (map counterexample_key (ag_counterexamples a)) \<and>
    sum_list (map cc_count (ag_minorityContextConcentration a)) =
      (case ag_dominantOption a of None \<Rightarrow> 0 | Some d \<Rightarrow> length el - chosen el d)"
proof -
  note f = aggregate_fields [where key = key and rs = rs, folded a_def el_def]
  have m: "length (filter (\<lambda>r. dr_selectedOption r \<noteq> d) el) = length el - chosen el d" for d
    using sum_length_filter_compl [of "\<lambda>r. dr_selectedOption r = d" el] by (simp add: chosen_def)
  have "mset (ag_counterexamples a) = (case ag_dominantOption a of None \<Rightarrow> {#}
      | Some d \<Rightarrow> image_mset toCounterexample (mset (counterexample_records el d)))"
    unfolding f(9) by (cases "ag_dominantOption a") (simp_all only: extract_mset option.case, simp add: extractCounterexamples_def)
  moreover have "sum_list (map cc_count (ag_minorityContextConcentration a)) =
      (case ag_dominantOption a of None \<Rightarrow> 0 | Some d \<Rightarrow> length el - chosen el d)"
    unfolding f(10) concentration_total by (cases "ag_dominantOption a") (simp_all add: minoritySelections_def m)
  ultimately show ?thesis using extract_sorted unfolding f(9) by blast
qed

section \<open>Arrival order\<close>

lemma distribution_perm:
  assumes "mset el = mset el'"
  shows "distribution el t = distribution el' t"
  unfolding distribution_alt
proof (rule sort_key_perm)
  show "mset (map (option_count t) (tally dr_selectedOption el)) = mset (map (option_count t) (tally dr_selectedOption el'))"
    by (simp add: tally_perm [OF assms])
  show "inj_on option_key (set (map (option_count t) (tally dr_selectedOption el)))"
    by (auto simp: inj_on_def option_key_def option_count_def)
qed

lemma concentration_perm:
  assumes "mset ms = mset ms'"
  shows "concentration ms = concentration ms'"
proof -
  have len: "length ms = length ms'" "ms = [] \<longleftrightarrow> ms' = []" using assms by (metis size_mset, metis mset_zero_iff)
  have "sort_key concentration_key (map (context_count n) (tally k ms)) =
      sort_key concentration_key (map (context_count n) (tally k ms'))" for n k
  proof (rule sort_key_perm)
    show "mset (map (context_count n) (tally k ms)) = mset (map (context_count n) (tally k ms'))"
      by (simp add: tally_perm [OF assms])
    show "inj_on concentration_key (set (map (context_count n) (tally k ms)))"
      by (auto simp: inj_on_def concentration_key_def context_count_def)
  qed
  thus ?thesis unfolding concentration_alt len by simp
qed

lemma extract_perm:
  assumes "mset el = mset el'" "inj_on dr_decisionId (set el)"
  shows "extractCounterexamples el d = extractCounterexamples el' d"
proof (cases d)
  case (Some o')
  define xs where "xs el = filter (\<lambda>r. dr_selectedOption r = o' \<and> dr_outcome r = FAILURE) el @
      filter (\<lambda>r. dr_selectedOption r \<noteq> o' \<and> dr_outcome r = SUCCESS) el" for el :: "DecisionRecord list"
  have "sort_key counterexample_key (map toCounterexample (xs el)) = sort_key counterexample_key (map toCounterexample (xs el'))"
  proof (rule sort_key_perm)
    show "mset (map toCounterexample (xs el)) = mset (map toCounterexample (xs el'))"
      unfolding xs_def mset_map mset_append mset_filter assms(1) ..
    have "r = q" if "r \<in> set el" "q \<in> set el" "dr_decisionId r = dr_decisionId q" for r q
      using assms(2) that by (auto simp: inj_on_def)
    note same = this
    show "inj_on counterexample_key (set (map toCounterexample (xs el)))"
    proof (rule inj_onI)
      fix c e
      assume "c \<in> set (map toCounterexample (xs el))" "e \<in> set (map toCounterexample (xs el))"
      then obtain r q where "c = toCounterexample r" "e = toCounterexample q" "r \<in> set el" "q \<in> set el"
        by (auto simp: xs_def)
      moreover assume "counterexample_key c = counterexample_key e"
      ultimately show "c = e" using same [of r q] by (simp add: counterexample_key_def toCounterexample_def)
    qed
  qed
  thus ?thesis by (simp add: Some extractCounterexamples_def sorted_by xs_def)
qed (simp add: extractCounterexamples_def)

lemma length_filter_perm: "mset xs = mset ys \<Longrightarrow> length (filter P xs) = length (filter P ys)"
  by (metis mset_filter size_mset)

text \<open>The measurement of a group depends on which decisions it holds and not on the order they
  arrived in, as long as no two decisions of the group share an id.\<close>

theorem aggregate_order_independent:
  assumes "mset rs = mset rs'" "distinct (map dr_decisionId rs)"
  shows "aggregateGroup key rs = aggregateGroup key rs'"
proof -
  let ?el = "filter isEligible rs" and ?el' = "filter isEligible rs'"
  have m: "mset (filter P rs) = mset (filter P rs')" "mset (filter P ?el) = mset (filter P ?el')" for P
    using assms(1) by simp_all
  have inj: "inj_on dr_decisionId (set ?el)" using assms(2) by (auto simp: distinct_map inj_on_def)
  have len: "length ?el = length ?el'" "length (filter P ?el) = length (filter P ?el')" for P
    using length_filter_perm [OF assms(1)] length_filter_perm [OF m(1)] by blast+
  have emp: "filter Q (filter P ?el) = [] \<longleftrightarrow> filter Q (filter P ?el') = []"
    "length (filter Q (filter P ?el)) = length (filter Q (filter P ?el'))"
    "length (filter R (filter Q (filter P ?el))) = length (filter R (filter Q (filter P ?el')))" for P Q R
    using length_filter_perm [OF m(2)] by (metis length_0_conv, blast) (metis length_filter_perm mset_filter m(2))
  have keys: "length (remdups (map dr_contextKey ?el)) = length (remdups (map dr_contextKey ?el'))"
    unfolding length_remdups_card_conv set_map mset_eq_setD [OF m(1)] ..
  have ex: "countExclusions rs = countExclusions rs'"
    using countExclusions_spec [of rs] countExclusions_spec [of rs'] length_filter_perm [OF assms(1)]
    by (metis ExclusionCounts.equality unit.exhaust)
  have min: "concentration (minoritySelections ?el d) = concentration (minoritySelections ?el' d)" for d
    using m(2) by (cases d) (auto simp: minoritySelections_def intro!: concentration_perm)
  show ?thesis
    unfolding aggregateGroup_def Let_def distribution_perm [OF m(1)] len extract_perm [OF m(1) inj] keys ex min emp ..
qed

section \<open>All groups\<close>

definition key_without_space :: "GroupKey \<Rightarrow> bool" where
  "key_without_space k \<longleftrightarrow> (\<forall>s \<in> {gk_workflowName k, gk_workflowVersion k, gk_decisionType k}. 32 \<notin> set s)"

lemma split_at_space:
  assumes "xs @ 32 # ys = xs' @ 32 # ys'" "32 \<notin> set xs" "32 \<notin> set (xs' :: jstr)"
  shows "xs = xs'" "ys = ys'"
proof -
  have "xs = xs' \<and> ys = ys'" using assms
  proof (induction xs arbitrary: xs')
    case Nil
    thus ?case by (cases xs') auto
  next
    case (Cons x xs)
    thus ?case by (cases xs') auto
  qed
  thus "xs = xs'" "ys = ys'" by auto
qed

lemma serialize_inj:
  assumes "key_without_space k" "key_without_space k'" "serializeGroupKey k = serializeGroupKey k'"
  shows "k = k'"
proof -
  have sp: "js '' '' = [32]" by (simp add: js_unfold)
  note eq = assms(3) [unfolded serializeGroupKey_def sp append_Cons append_Nil]
  note ns = assms(1,2) [unfolded key_without_space_def]
  note 1 = split_at_space [OF eq]
  have w: "gk_workflowName k = gk_workflowName k'" using 1(1) ns by blast
  note 2 = split_at_space [OF 1(2)]
  have v: "gk_workflowVersion k = gk_workflowVersion k'" using 2(1) ns by blast
  note 3 = split_at_space [OF 2(2)]
  have "gk_decisionType k = gk_decisionType k'" "gk_contextKeyVersion k = gk_contextKeyVersion k'"
    using 3 ns by blast+
  thus ?thesis using w v by (intro GroupKey.equality) simp_all
qed

lemma aggregateAll_alt:
  "aggregateAll rs = map (\<lambda>(_, rs). aggregateGroup (groupKeyOf (hd rs)) rs)
     (sort_key fst (buckets (serializeGroupKey \<circ> groupKeyOf) rs))"
  by (simp add: aggregateAll_def sorted_by)

lemma aggregateAll_members:
  "a \<in> set (aggregateAll rs) \<longleftrightarrow>
     (\<exists>k vs. (k, vs) \<in> set (buckets (serializeGroupKey \<circ> groupKeyOf) rs) \<and> a = aggregateGroup (groupKeyOf (hd vs)) vs)"
  unfolding aggregateAll_alt set_map set_sort image_iff Bex_def split_paired_Ex by simp

lemma group_bucket:
  assumes "\<forall>r \<in> set rs. key_without_space (groupKeyOf r)"
    "(k, vs) \<in> set (buckets (serializeGroupKey \<circ> groupKeyOf) rs)"
  shows "k = serializeGroupKey (groupKeyOf (hd vs))" "hd vs \<in> set rs"
    "filter (\<lambda>r. groupKeyOf r = groupKeyOf (hd vs)) rs = vs"
proof -
  note b = bucket_items [OF assms(2)]
  have "set vs = {r \<in> set rs. serializeGroupKey (groupKeyOf r) = k}" unfolding b(1) by simp
  hence hd: "hd vs \<in> set rs" "serializeGroupKey (groupKeyOf (hd vs)) = k"
    using hd_in_set [OF b(2)] by blast+
  thus "k = serializeGroupKey (groupKeyOf (hd vs))" "hd vs \<in> set rs" by simp_all
  have "(serializeGroupKey \<circ> groupKeyOf) r = k \<longleftrightarrow> groupKeyOf r = groupKeyOf (hd vs)" if "r \<in> set rs" for r
  proof
    assume "(serializeGroupKey \<circ> groupKeyOf) r = k"
    thus "groupKeyOf r = groupKeyOf (hd vs)"
      using serialize_inj [of "groupKeyOf r" "groupKeyOf (hd vs)"] assms(1) that hd by simp
  qed (use hd(2) in simp)
  thus "filter (\<lambda>r. groupKeyOf r = groupKeyOf (hd vs)) rs = vs"
    by (subst b(1), intro filter_cong) auto
qed

lemma aggregate_keys:
  assumes "\<forall>r \<in> set rs. key_without_space (groupKeyOf r)"
  shows "map (serializeGroupKey \<circ> ag_key) (aggregateAll rs) =
    map fst (sort_key fst (buckets (serializeGroupKey \<circ> groupKeyOf) rs))"
  unfolding aggregateAll_alt map_map
proof (rule map_cong [OF refl])
  fix p assume "p \<in> set (sort_key fst (buckets (serializeGroupKey \<circ> groupKeyOf) rs))"
  thus "(serializeGroupKey \<circ> ag_key \<circ> (\<lambda>(_, rs). aggregateGroup (groupKeyOf (hd rs)) rs)) p = fst p"
    using group_bucket(1) [OF assms, of "fst p" "snd p"] by (simp add: aggregate_fields(1) case_prod_unfold)
qed

text \<open>When no workflow name, version or decision type contains a space, there is one aggregate for
  every group key that occurs, measured on exactly the records with that key, in the order of the
  serialized keys.\<close>

theorem groups_are_keys:
  assumes "\<forall>r \<in> set rs. key_without_space (groupKeyOf r)"
  shows "set (map ag_key (aggregateAll rs)) = groupKeyOf ` set rs \<and>
    (\<forall>a \<in> set (aggregateAll rs). a = aggregateGroup (ag_key a) (filter (\<lambda>r. groupKeyOf r = ag_key a) rs)) \<and>
    sorted_wrt (<) (map (serializeGroupKey \<circ> ag_key) (aggregateAll rs))"
proof (intro conjI ballI set_eqI iffI)
  fix a assume "a \<in> set (aggregateAll rs)"
  then obtain k vs where vs: "(k, vs) \<in> set (buckets (serializeGroupKey \<circ> groupKeyOf) rs)"
    "a = aggregateGroup (groupKeyOf (hd vs)) vs" using aggregateAll_members by blast
  thus "a = aggregateGroup (ag_key a) (filter (\<lambda>r. groupKeyOf r = ag_key a) rs)"
    using group_bucket(3) [OF assms vs(1)] by (simp add: aggregate_fields(1))
next
  fix g assume "g \<in> set (map ag_key (aggregateAll rs))"
  then obtain k vs where "(k, vs) \<in> set (buckets (serializeGroupKey \<circ> groupKeyOf) rs)" "g = groupKeyOf (hd vs)"
    unfolding set_map by (auto simp: aggregateAll_members aggregate_fields(1))
  thus "g \<in> groupKeyOf ` set rs" using group_bucket(2) [OF assms] by blast
next
  fix g assume "g \<in> groupKeyOf ` set rs"
  then obtain r where r: "r \<in> set rs" "g = groupKeyOf r" by blast
  hence "serializeGroupKey g \<in> fst ` set (buckets (serializeGroupKey \<circ> groupKeyOf) rs)"
    by (auto simp: buckets_keys_set)
  then obtain vs where vs: "(serializeGroupKey g, vs) \<in> set (buckets (serializeGroupKey \<circ> groupKeyOf) rs)" by auto
  have "g = groupKeyOf (hd vs)"
    using group_bucket(1,2) [OF assms vs] serialize_inj [of g "groupKeyOf (hd vs)"] assms r by simp
  hence "ag_key (aggregateGroup (groupKeyOf (hd vs)) vs) = g" by (simp add: aggregate_fields(1))
  moreover have "aggregateGroup (groupKeyOf (hd vs)) vs \<in> set (aggregateAll rs)" using aggregateAll_members vs by blast
  ultimately show "g \<in> set (map ag_key (aggregateAll rs))" unfolding set_map by blast
next
  have "distinct (map fst (sort_key fst (buckets (serializeGroupKey \<circ> groupKeyOf) rs)))"
    using buckets_distinct by (simp add: distinct_map)
  thus "sorted_wrt (<) (map (serializeGroupKey \<circ> ag_key) (aggregateAll rs))"
    unfolding aggregate_keys [OF assms] by (simp add: strict_sorted_iff)
qed

section \<open>Witnesses\<close>

definition a_decision :: "string \<Rightarrow> string \<Rightarrow> string \<Rightarrow> string \<Rightarrow> Outcome \<Rightarrow> DecisionRecord" where
  "a_decision i w v d out = \<lparr>dr_decisionId = js i, dr_runId = js ''r'', dr_runIsStale = False, dr_workflowName = js w,
     dr_workflowVersion = js v, dr_decisionType = js ''t'', dr_contextKey = Some (js ''c''),
     dr_contextKeyVersion = js ''1'', dr_availableOptions = [], dr_selectedOption = js d, dr_outcome = out,
     dr_outcomeAttestedBy = ByCaller\<rparr>"

theorem aggregate_order_independent_witness:
  "aggregateGroup (groupKeyOf (a_decision ''1'' ''w'' ''v'' ''YES'' FAILURE)) [a_decision ''1'' ''w'' ''v'' ''YES'' FAILURE, a_decision ''2'' ''w'' ''v'' ''NO'' SUCCESS] =
   aggregateGroup (groupKeyOf (a_decision ''1'' ''w'' ''v'' ''YES'' FAILURE)) [a_decision ''2'' ''w'' ''v'' ''NO'' SUCCESS, a_decision ''1'' ''w'' ''v'' ''YES'' FAILURE]"
  by (rule aggregate_order_independent) (simp_all add: a_decision_def)

theorem groups_are_keys_witness:
  "set (map ag_key (aggregateAll [a_decision ''1'' ''w'' ''v'' ''YES'' FAILURE, a_decision ''2'' ''x'' ''v'' ''NO'' SUCCESS])) =
     {groupKeyOf (a_decision ''1'' ''w'' ''v'' ''YES'' FAILURE), groupKeyOf (a_decision ''2'' ''x'' ''v'' ''NO'' SUCCESS)}"
  using groups_are_keys [of "[a_decision ''1'' ''w'' ''v'' ''YES'' FAILURE, a_decision ''2'' ''x'' ''v'' ''NO'' SUCCESS]"]
  by (simp add: key_without_space_def groupKeyOf_def a_decision_def js_unfold)

text \<open>The serialized key joins its parts with a space and the parts may contain spaces, so two
  different groups can share a bucket: decisions of workflow \<open>a b\<close>, version \<open>c\<close>, and of workflow \<open>a\<close>,
  version \<open>b c\<close>, are measured as one group under the key of the first.\<close>

theorem colliding_group_keys:
  "groupKeyOf (a_decision ''1'' ''a b'' ''c'' ''YES'' SUCCESS) \<noteq> groupKeyOf (a_decision ''2'' ''a'' ''b c'' ''NO'' FAILURE) \<and>
   aggregateAll [a_decision ''1'' ''a b'' ''c'' ''YES'' SUCCESS, a_decision ''2'' ''a'' ''b c'' ''NO'' FAILURE] =
     [aggregateGroup (groupKeyOf (a_decision ''1'' ''a b'' ''c'' ''YES'' SUCCESS))
        [a_decision ''1'' ''a b'' ''c'' ''YES'' SUCCESS, a_decision ''2'' ''a'' ''b c'' ''NO'' FAILURE]]"
  by (simp add: aggregateAll_def buckets_def groupKeyOf_def a_decision_def serializeGroupKey_def js_unfold js_sort_def)

end
