(* ===== verification/Decision_Gates.thy ===== *)
theory Decision_Gates
  imports Decision_Aggregate
begin

text \<open>
  \<^verbatim>\<open>platform/analysis-engine/src/gates.ts\<close>, \<^verbatim>\<open>gate-contract.ts\<close> and \<^verbatim>\<open>config.ts\<close>: the five safety
  gates over an aggregate and the verdict.  The human-readable comparison of a result is not part
  of the contract and is left out.
\<close>

record AnalyzerConfig =
  cf_minSampleCount :: nat
  cf_minDistinctContexts :: nat
  cf_dominanceThreshold :: rat
  cf_successThreshold :: rat
  cf_coverageThreshold :: rat

definition DEFAULT_CONFIG :: AnalyzerConfig where
  "DEFAULT_CONFIG = \<lparr>cf_minSampleCount = 30, cf_minDistinctContexts = 5, cf_dominanceThreshold = 9/10,
     cf_successThreshold = 9/10, cf_coverageThreshold = 8/10\<rparr>"

datatype GateId = G1_sample_count | G2_context_diversity | G3_dominance | G4_outcome_success | G5_outcome_coverage

datatype GateStatus = PASS | FAIL | NOT_APPLICABLE

datatype Verdict = CANDIDATE | SUPPRESSED

definition GATE_IDS :: "GateId list" where
  "GATE_IDS = [G1_sample_count, G2_context_diversity, G3_dominance, G4_outcome_success, G5_outcome_coverage]"

record GateResult =
  gr_id :: GateId
  gr_status :: GateStatus

record GateEvaluation =
  ge_gates :: "GateResult list"
  ge_failedGates :: "GateId list"
  ge_verdict :: Verdict

type_synonym Gate = "DecisionAggregate \<Rightarrow> AnalyzerConfig \<Rightarrow> GateResult"

definition countGate :: "GateId \<Rightarrow> nat \<Rightarrow> nat \<Rightarrow> GateResult" where
  "countGate i actual threshold = \<lparr>gr_id = i, gr_status = (if threshold \<le> actual then PASS else FAIL)\<rparr>"

definition ratioGate :: "GateId \<Rightarrow> rat \<Rightarrow> rat \<Rightarrow> GateResult" where
  "ratioGate i actual threshold = \<lparr>gr_id = i, gr_status = (if threshold \<le> actual then PASS else FAIL)\<rparr>"

definition sampleCountGate :: Gate where
  "sampleCountGate aggregate config = countGate G1_sample_count (ag_sampleCount aggregate) (cf_minSampleCount config)"

definition contextDiversityGate :: Gate where
  "contextDiversityGate aggregate config =
     countGate G2_context_diversity (ag_distinctContextKeyCount aggregate) (cf_minDistinctContexts config)"

definition dominanceGate :: Gate where
  "dominanceGate aggregate config =
     ratioGate G3_dominance (ag_dominancePercentage aggregate) (cf_dominanceThreshold config)"

definition outcomeSuccessGate :: Gate where
  "outcomeSuccessGate aggregate config =
     (case ag_dominantOptionAttestedSuccessRate aggregate of
        None \<Rightarrow> \<lparr>gr_id = G4_outcome_success, gr_status = NOT_APPLICABLE\<rparr>
      | Some rate \<Rightarrow> ratioGate G4_outcome_success rate (cf_successThreshold config))"

definition outcomeCoverageGate :: Gate where
  "outcomeCoverageGate aggregate config =
     ratioGate G5_outcome_coverage (ag_outcomeCoverage aggregate) (cf_coverageThreshold config)"

definition GATES_IN_ORDER :: "Gate list" where
  "GATES_IN_ORDER = [sampleCountGate, contextDiversityGate, dominanceGate, outcomeSuccessGate, outcomeCoverageGate]"

text \<open>\<open>None\<close> is the throw of \<^verbatim>\<open>assertNever\<close>: no gate produced a result for an id.\<close>

fun order_results :: "GateId list \<Rightarrow> GateResult list \<Rightarrow> GateResult list option" where
  "order_results [] gates = Some []"
| "order_results (i # ids) gates =
     (case find (\<lambda>g. gr_id g = i) gates of
        None \<Rightarrow> None
      | Some g \<Rightarrow> map_option ((#) g) (order_results ids gates))"

definition evaluateGates :: "DecisionAggregate \<Rightarrow> AnalyzerConfig \<Rightarrow> GateEvaluation option" where
  "evaluateGates aggregate config =
     (let gates = map (\<lambda>gate. gate aggregate config) GATES_IN_ORDER
      in case order_results GATE_IDS gates of
           None \<Rightarrow> None
         | Some ordered \<Rightarrow>
             (let failedGates = map gr_id (filter (\<lambda>g. gr_status g = FAIL) ordered)
              in Some \<lparr>ge_gates = ordered, ge_failedGates = failedGates,
                   ge_verdict = (if length failedGates = 0 then CANDIDATE else SUPPRESSED)\<rparr>))"

section \<open>The evaluation\<close>

lemmas gate_defs = sampleCountGate_def contextDiversityGate_def dominanceGate_def outcomeSuccessGate_def
  outcomeCoverageGate_def countGate_def ratioGate_def

lemma gate_ids [simp]:
  "gr_id (sampleCountGate a c) = G1_sample_count" "gr_id (contextDiversityGate a c) = G2_context_diversity"
  "gr_id (dominanceGate a c) = G3_dominance" "gr_id (outcomeSuccessGate a c) = G4_outcome_success"
  "gr_id (outcomeCoverageGate a c) = G5_outcome_coverage"
  by (simp_all add: gate_defs split: option.split)

lemma evaluated:
  "evaluateGates a c = Some \<lparr>ge_gates = map (\<lambda>gate. gate a c) GATES_IN_ORDER,
     ge_failedGates = map gr_id (filter (\<lambda>g. gr_status g = FAIL) (map (\<lambda>gate. gate a c) GATES_IN_ORDER)),
     ge_verdict = (if \<exists>gate \<in> set GATES_IN_ORDER. gr_status (gate a c) = FAIL then SUPPRESSED else CANDIDATE)\<rparr>"
  by (simp add: evaluateGates_def GATE_IDS_def GATES_IN_ORDER_def Let_def)

definition clears :: "DecisionAggregate \<Rightarrow> AnalyzerConfig \<Rightarrow> bool" where
  "clears a c \<longleftrightarrow> cf_minSampleCount c \<le> ag_sampleCount a \<and> cf_minDistinctContexts c \<le> ag_distinctContextKeyCount a \<and>
     cf_dominanceThreshold c \<le> ag_dominancePercentage a \<and>
     (case ag_dominantOptionAttestedSuccessRate a of None \<Rightarrow> True | Some r \<Rightarrow> cf_successThreshold c \<le> r) \<and>
     cf_coverageThreshold c \<le> ag_outcomeCoverage a"

lemma verdict_clears:
  "(\<exists>gate \<in> set GATES_IN_ORDER. gr_status (gate a c) = FAIL) \<longleftrightarrow> \<not> clears a c"
  by (auto simp: GATES_IN_ORDER_def gate_defs clears_def split: option.splits if_splits)

text \<open>An evaluation always exists, reports the five gates in their fixed order, lists exactly the
  failed ones (never only the first, never one that is not applicable), and its verdict is CANDIDATE
  exactly if the samples, contexts, dominance and coverage reach their thresholds and the success
  rate of the dominant option, where it is known, does too.\<close>

theorem evaluation_reports_every_gate:
  "\<exists>e. evaluateGates a c = Some e \<and> map gr_id (ge_gates e) = GATE_IDS \<and>
     ge_failedGates e = filter (\<lambda>i. \<exists>g \<in> set (ge_gates e). gr_id g = i \<and> gr_status g = FAIL) GATE_IDS \<and>
     (ge_verdict e = CANDIDATE \<longleftrightarrow> clears a c)"
proof -
  have "map gr_id (filter (\<lambda>g. gr_status g = FAIL) (map (\<lambda>gate. gate a c) GATES_IN_ORDER)) =
      filter (\<lambda>i. \<exists>g \<in> set (map (\<lambda>gate. gate a c) GATES_IN_ORDER). gr_id g = i \<and> gr_status g = FAIL) GATE_IDS"
    by (simp add: GATES_IN_ORDER_def GATE_IDS_def)
  moreover have "map gr_id (map (\<lambda>gate. gate a c) GATES_IN_ORDER) = GATE_IDS"
    by (simp add: GATES_IN_ORDER_def GATE_IDS_def)
  ultimately show ?thesis using verdict_clears [of a c] by (auto simp: evaluated)
qed

section \<open>The contract's reading of a candidate\<close>

definition all_pass :: "DecisionAggregate \<Rightarrow> AnalyzerConfig \<Rightarrow> bool" where
  "all_pass a c \<longleftrightarrow> (\<forall>gate \<in> set GATES_IN_ORDER. gr_status (gate a c) = PASS)"

lemma rate_None:
  "ag_dominantOptionAttestedSuccessRate (aggregateGroup key rs) = None \<longleftrightarrow>
     (\<forall>r \<in> set (filter isEligible rs). dr_outcome r \<noteq> UNKNOWN \<longrightarrow>
        Some (dr_selectedOption r) \<noteq> ag_dominantOption (aggregateGroup key rs))"
  by (auto simp: aggregateGroup_def Let_def filter_empty_conv)

text \<open>If nothing is attested for the dominant option, dominance and coverage exclude each other.\<close>

lemma unattested_count:
  assumes "\<forall>r \<in> set el. dr_outcome r \<noteq> UNKNOWN \<longrightarrow> dr_selectedOption r \<noteq> d"
  shows "chosen el d + length (filter (\<lambda>r. dr_outcome r \<noteq> UNKNOWN) el) \<le> length el"
  using assms by (induction el) (auto simp: chosen_def)

lemma unattested_dominant:
  assumes "ag_dominantOptionAttestedSuccessRate (aggregateGroup key rs) = None"
  shows "ag_dominancePercentage (aggregateGroup key rs) + ag_outcomeCoverage (aggregateGroup key rs) \<le> 1"
proof -
  define el where "el = filter isEligible rs"
  define a where "a = aggregateGroup key rs"
  note f = aggregate_fields [where key = key and rs = rs, folded el_def a_def]
  show ?thesis unfolding a_def [symmetric]
  proof (cases "ag_dominantOption a")
    case None
    hence "distribution el (length el) = []" by (simp add: f(4) split: list.splits)
    moreover from this have "el = []" by (simp add: distribution_Nil)
    ultimately show "ag_dominancePercentage a + ag_outcomeCoverage a \<le> 1" by (simp add: f(5,8))
  next
    case (Some d)
    note dom = dominant_iff [where key = key and rs = rs and d = d, folded el_def a_def]
    have ne: "0 < length el" using Some dom(1) by (cases el) (simp_all add: chosen_def)
    have "\<forall>r \<in> set el. dr_outcome r \<noteq> UNKNOWN \<longrightarrow> dr_selectedOption r \<noteq> d"
      using assms Some rate_None [where key = key and rs = rs, folded el_def a_def] unfolding a_def [symmetric] by auto
    from unattested_count [OF this] have "chosen el d + ag_attestedCount a \<le> length el" by (simp add: f(7))
    hence "(of_nat (chosen el d) + of_nat (ag_attestedCount a) :: rat) \<le> of_nat (length el)"
      by (metis of_nat_add of_nat_le_iff)
    hence "(of_nat (chosen el d) + of_nat (ag_attestedCount a)) / of_nat (length el) \<le> (1 :: rat)"
      using ne by (simp add: divide_le_eq_1)
    thus "ag_dominancePercentage a + ag_outcomeCoverage a \<le> 1"
      using ne dom(2) [OF Some] by (simp add: f(8) add_divide_distrib)
  qed
qed

lemma all_pass_clears:
  "all_pass a c \<longleftrightarrow> clears a c \<and> ag_dominantOptionAttestedSuccessRate a \<noteq> None"
  by (auto simp: all_pass_def GATES_IN_ORDER_def gate_defs clears_def split: option.splits if_splits)

text \<open>C10. Whenever dominance and coverage thresholds add up to more than one, as the default ones do,
  a measured group is a candidate exactly if every gate passes, as the contract says: a group whose
  success rate is unknown cannot slip through as not applicable.\<close>

theorem candidate_iff_every_gate_passes:
  assumes "1 < cf_dominanceThreshold c + cf_coverageThreshold c"
  shows "ge_verdict (the (evaluateGates (aggregateGroup key rs) c)) = CANDIDATE \<longleftrightarrow> all_pass (aggregateGroup key rs) c"
proof -
  have "\<not> clears (aggregateGroup key rs) c"
    if "ag_dominantOptionAttestedSuccessRate (aggregateGroup key rs) = None"
    using unattested_dominant [OF that] assms unfolding clears_def by linarith
  thus ?thesis using verdict_clears [of "aggregateGroup key rs" c] by (auto simp: evaluated all_pass_clears)
qed

theorem candidate_iff_every_gate_passes_witness:
  "let r = a_decision ''1'' ''w'' ''v'' ''YES'' UNKNOWN; a = aggregateGroup (groupKeyOf r) [r] in
     ge_verdict (the (evaluateGates a DEFAULT_CONFIG)) = CANDIDATE \<longleftrightarrow> all_pass a DEFAULT_CONFIG"
  unfolding Let_def by (rule candidate_iff_every_gate_passes) (simp add: DEFAULT_CONFIG_def)

text \<open>The contract's sentence (a candidate has every status PASS) is not what the code computes for
  every configuration: with a coverage threshold of zero a single unattested decision is a candidate
  although one of its gates is not applicable.\<close>

theorem not_applicable_can_be_candidate:
  "\<exists>c key rs. ge_verdict (the (evaluateGates (aggregateGroup key rs) c)) = CANDIDATE \<and>
     \<not> all_pass (aggregateGroup key rs) c"
proof -
  let ?c = "DEFAULT_CONFIG\<lparr>cf_minSampleCount := 1, cf_minDistinctContexts := 1, cf_coverageThreshold := 0\<rparr>"
  let ?r = "a_decision ''1'' ''w'' ''v'' ''YES'' UNKNOWN"
  have "ge_verdict (the (evaluateGates (aggregateGroup (groupKeyOf ?r) [?r]) ?c)) = CANDIDATE"
    "\<not> all_pass (aggregateGroup (groupKeyOf ?r) [?r]) ?c"
    by (simp_all add: evaluated GATES_IN_ORDER_def gate_defs all_pass_def DEFAULT_CONFIG_def aggregateGroup_def
        a_decision_def isEligible_def distribution_def tally_def js_sort_def Let_def)
  thus ?thesis by blast
qed

end
