(* ===== verification/Repeated_Failed.thy ===== *)
theory Repeated_Failed
  imports Buckets Js_Sort
begin

text \<open>
  \<^verbatim>\<open>platform/analysis-engine/src/repeated-failed-action.ts\<close> and \<^verbatim>\<open>tool-call.ts\<close>: streaks of at least
  three consecutive failed attempts of the same tool with the same input in the same run.  The
  program's bucket key is the JSON text of an array of three strings, which determines them, so
  the key is the triple.
\<close>

datatype ToolCallOutcome = TC_SUCCESS | TC_FAILED

record ToolCallRecord =
  tcr_toolCallId :: jstr
  tcr_runId :: jstr
  tcr_toolName :: jstr
  tcr_inputFingerprint :: jstr
  tcr_outcome :: ToolCallOutcome
  tcr_errorType :: "jstr option"
  tcr_occurredAt :: jstr

record RepeatedFailedAction =
  rf_runId :: jstr
  rf_toolName :: jstr
  rf_inputFingerprint :: jstr
  rf_attemptCount :: nat
  rf_toolCallIds :: "jstr list"

definition MIN_CONSECUTIVE_FAILURES :: nat where
  "MIN_CONSECUTIVE_FAILURES = 3"

definition isFailedAttempt :: "ToolCallRecord \<Rightarrow> bool" where
  "isFailedAttempt call \<longleftrightarrow> tcr_outcome call = TC_FAILED \<or> tcr_errorType call \<noteq> None"

definition streakKey :: "ToolCallRecord \<Rightarrow> jstr \<times> jstr \<times> jstr" where
  "streakKey call = (tcr_runId call, tcr_toolName call, tcr_inputFingerprint call)"

definition finding :: "ToolCallRecord list \<Rightarrow> RepeatedFailedAction" where
  "finding streak = (let first = hd streak in
     \<lparr>rf_runId = tcr_runId first, rf_toolName = tcr_toolName first, rf_inputFingerprint = tcr_inputFingerprint first,
      rf_attemptCount = length streak, rf_toolCallIds = map tcr_toolCallId streak\<rparr>)"

definition flush :: "ToolCallRecord list \<Rightarrow> RepeatedFailedAction list \<Rightarrow> RepeatedFailedAction list" where
  "flush streak found =
     (if MIN_CONSECUTIVE_FAILURES \<le> length streak then
        (case streak of [] \<Rightarrow> found | _ # _ \<Rightarrow> found @ [finding streak])
      else found)"

fun streaks_loop :: "ToolCallRecord list \<Rightarrow> ToolCallRecord list \<Rightarrow> RepeatedFailedAction list \<Rightarrow> RepeatedFailedAction list" where
  "streaks_loop [] streak found = flush streak found"
| "streaks_loop (call # rest) streak found =
     (if isFailedAttempt call then streaks_loop rest (streak @ [call]) found
      else streaks_loop rest [] (flush streak found))"

definition streaksIn :: "ToolCallRecord list \<Rightarrow> RepeatedFailedAction list" where
  "streaksIn ordered = streaks_loop ordered [] []"

definition compareOccurred :: "ToolCallRecord \<Rightarrow> ToolCallRecord \<Rightarrow> int" where
  "compareOccurred a b = js_compare (tcr_occurredAt a) (tcr_occurredAt b)"

definition detectRepeatedFailedActions :: "ToolCallRecord list \<Rightarrow> RepeatedFailedAction list" where
  "detectRepeatedFailedActions calls =
     concat (map (\<lambda>(_, bucket). streaksIn (js_sort compareOccurred bucket)) (buckets streakKey calls))"

section \<open>What is emitted\<close>

text \<open>A maximal run of failed attempts in a sequence: it cannot be extended on either side.\<close>

definition maximal_streak :: "ToolCallRecord list \<Rightarrow> ToolCallRecord list \<Rightarrow> bool" where
  "maximal_streak xs s \<longleftrightarrow> (\<exists>pre post. xs = pre @ s @ post \<and> (\<forall>c \<in> set s. isFailedAttempt c) \<and>
     (pre = [] \<or> \<not> isFailedAttempt (last pre)) \<and> (post = [] \<or> \<not> isFailedAttempt (hd post)))"

lemma flush_members:
  "set (flush s found) = set found \<union> (if MIN_CONSECUTIVE_FAILURES \<le> length s then {finding s} else {})"
  by (cases s) (auto simp: flush_def MIN_CONSECUTIVE_FAILURES_def)

lemma maximal_streak_split:
  assumes "\<forall>c \<in> set streak. isFailedAttempt c" "\<not> isFailedAttempt call" "s \<noteq> []"
  shows "maximal_streak (streak @ call # rest) s \<longleftrightarrow> s = streak \<or> maximal_streak rest s"
proof
  assume "maximal_streak (streak @ call # rest) s"
  then obtain pre post where e: "streak @ call # rest = pre @ s @ post" and s: "\<forall>c \<in> set s. isFailedAttempt c"
    and pre: "pre = [] \<or> \<not> isFailedAttempt (last pre)" and post: "post = [] \<or> \<not> isFailedAttempt (hd post)"
    by (auto simp: maximal_streak_def)
  from e consider (inside) us where "streak = pre @ us" "us @ call # rest = s @ post"
    | (behind) us where "streak @ us = pre" "call # rest = us @ s @ post"
    by (auto simp: append_eq_append_conv2)
  thus "s = streak \<or> maximal_streak rest s"
  proof cases
    case inside
    have "pre = []" using inside(1) pre assms(1) by (metis UnCI last_in_set set_append)
    hence "streak @ call # rest = s @ post" using inside by simp
    then consider (short) vs where "streak = s @ vs" "vs @ call # rest = post"
      | (long) vs where "streak @ vs = s" "call # rest = vs @ post"
      by (auto simp: append_eq_append_conv2)
    thus ?thesis
    proof cases
      case short
      have "vs = []" using short post assms(1) by (cases vs) auto
      thus ?thesis using short by simp
    next
      case long
      have "vs = []" using long s assms(2) by (cases vs) auto
      thus ?thesis using long by simp
    qed
  next
    case behind
    then obtain us' where us: "us = call # us'" "rest = us' @ s @ post" using assms(2,3) s by (cases us; cases s) auto
    moreover have "us' = [] \<or> \<not> isFailedAttempt (last us')" using pre behind(1) us(1) by auto
    ultimately show ?thesis using s post by (auto simp: maximal_streak_def)
  qed
next
  assume "s = streak \<or> maximal_streak rest s"
  thus "maximal_streak (streak @ call # rest) s"
  proof
    assume "s = streak"
    thus ?thesis using assms(1,2) unfolding maximal_streak_def by (intro exI [of _ "[]"] exI [of _ "call # rest"]) simp
  next
    assume "maximal_streak rest s"
    then obtain pre post where "rest = pre @ s @ post" "\<forall>c \<in> set s. isFailedAttempt c"
      "pre = [] \<or> \<not> isFailedAttempt (last pre)" "post = [] \<or> \<not> isFailedAttempt (hd post)"
      by (auto simp: maximal_streak_def)
    thus ?thesis using assms(2) unfolding maximal_streak_def
      by (intro exI [of _ "streak @ call # pre"] exI [of _ post]) auto
  qed
qed

text \<open>The streak that is running when a sequence starts is completed by the leading failures of the
  sequence; the other maximal streaks lie behind the first success.\<close>

lemma maximal_streak_all_failed:
  assumes "\<forall>c \<in> set xs. isFailedAttempt c" "s \<noteq> []"
  shows "maximal_streak xs s \<longleftrightarrow> s = xs"
proof
  assume "maximal_streak xs s"
  then obtain pre post where e: "xs = pre @ s @ post" "pre = [] \<or> \<not> isFailedAttempt (last pre)"
    "post = [] \<or> \<not> isFailedAttempt (hd post)" by (auto simp: maximal_streak_def)
  have "pre = []" using e(1,2) assms(1) by (metis UnCI last_in_set set_append)
  moreover have "post = []" using e(1,3) assms(1) by (cases post) auto
  ultimately show "s = xs" using e by simp
next
  assume "s = xs"
  thus "maximal_streak xs s"
    using assms(1) unfolding maximal_streak_def by (intro exI [of _ "[]"]) simp
qed

definition long_streaks :: "ToolCallRecord list \<Rightarrow> ToolCallRecord list set" where
  "long_streaks xs = {s. MIN_CONSECUTIVE_FAILURES \<le> length s \<and> maximal_streak xs s}"

lemma long_not_Nil: "MIN_CONSECUTIVE_FAILURES \<le> length s \<Longrightarrow> s \<noteq> []"
  by (auto simp: MIN_CONSECUTIVE_FAILURES_def)

lemma long_streaks_all_failed:
  assumes "\<forall>c \<in> set xs. isFailedAttempt c"
  shows "long_streaks xs = (if MIN_CONSECUTIVE_FAILURES \<le> length xs then {xs} else {})"
  using maximal_streak_all_failed [OF assms] long_not_Nil unfolding long_streaks_def by auto

lemma long_streaks_split:
  assumes "\<forall>c \<in> set streak. isFailedAttempt c" "\<not> isFailedAttempt call"
  shows "long_streaks (streak @ call # rest) =
    long_streaks rest \<union> (if MIN_CONSECUTIVE_FAILURES \<le> length streak then {streak} else {})"
  using maximal_streak_split [OF assms] long_not_Nil unfolding long_streaks_def by auto

lemma streaks_loop_members:
  assumes "\<forall>c \<in> set streak. isFailedAttempt c"
  shows "set (streaks_loop xs streak found) = set found \<union> finding ` long_streaks (streak @ xs)"
  using assms
proof (induction xs streak found rule: streaks_loop.induct)
  case (1 streak found)
  thus ?case by (simp add: flush_members long_streaks_all_failed)
next
  case (2 call rest streak found)
  show ?case
  proof (cases "isFailedAttempt call")
    case True
    thus ?thesis using 2 by simp
  next
    case False
    hence "set (streaks_loop rest [] (flush streak found)) = set (flush streak found) \<union> finding ` long_streaks rest"
      using 2(2) by simp
    thus ?thesis using False long_streaks_split [OF 2(3) False, of rest] by (auto simp: flush_members)
  qed
qed

lemma streaksIn_members:
  "set (streaksIn xs) = finding ` {s. MIN_CONSECUTIVE_FAILURES \<le> length s \<and> maximal_streak xs s}"
  using streaks_loop_members [of "[]" xs "[]"] by (simp add: streaksIn_def long_streaks_def)

lemma occurred_sort: "js_sort compareOccurred xs = sort_key tcr_occurredAt xs"
  by (rule js_sort_key) (simp add: orders_by_def compareOccurred_def js_compare_def)

lemma detected_bucket:
  assumes "f \<in> set (detectRepeatedFailedActions calls)"
  obtains k b where "(k, b) \<in> set (buckets streakKey calls)" "f \<in> set (streaksIn (sort_key tcr_occurredAt b))"
  using assms by (auto simp: detectRepeatedFailedActions_def occurred_sort)

lemma detected_streak:
  assumes "f \<in> set (streaksIn xs)"
  obtains s where "f = finding s" "3 \<le> length s" "maximal_streak xs s"
  using assms by (auto simp: streaksIn_members MIN_CONSECUTIVE_FAILURES_def)

lemma streak_detected:
  assumes "3 \<le> length s" "maximal_streak (sort_key tcr_occurredAt (filter (\<lambda>c. streakKey c = k) calls)) s"
  shows "finding s \<in> set (detectRepeatedFailedActions calls)"
proof -
  have "\<not> maximal_streak [] s" using assms(1) by (auto simp: maximal_streak_def)
  hence "filter (\<lambda>c. streakKey c = k) calls \<noteq> []" using assms(2) by (metis sort_key_simps(1))
  hence "k \<in> fst ` set (buckets streakKey calls)" unfolding buckets_keys_set by (auto simp: filter_empty_conv)
  then obtain b where b: "(k, b) \<in> set (buckets streakKey calls)" by auto
  have "finding s \<in> set (streaksIn (sort_key tcr_occurredAt b))"
    using assms unfolding bucket_items(1) [OF b] by (simp add: streaksIn_members MIN_CONSECUTIVE_FAILURES_def)
  thus ?thesis
    unfolding detectRepeatedFailedActions_def occurred_sort set_concat set_map
    by (intro UN_I [OF imageI [OF b]]) simp
qed

text \<open>C11. A repeated failed action is reported exactly for every maximal run of at least three failed
  attempts among the calls of one run, tool and input taken in order of time: calls of other tools,
  inputs or runs never interrupt or extend it, a success of the same key does, and an error counts
  as a failure whatever the outcome says.\<close>

theorem repeated_failures_exact:
  "f \<in> set (detectRepeatedFailedActions calls) \<longleftrightarrow>
     (\<exists>k s. f = finding s \<and> 3 \<le> length s \<and>
        maximal_streak (sort_key tcr_occurredAt (filter (\<lambda>c. streakKey c = k) calls)) s)"
proof
  assume "f \<in> set (detectRepeatedFailedActions calls)"
  then obtain k b where b: "(k, b) \<in> set (buckets streakKey calls)" "f \<in> set (streaksIn (sort_key tcr_occurredAt b))"
    by (rule detected_bucket)
  from detected_streak [OF b(2)] obtain s where "f = finding s" "3 \<le> length s" "maximal_streak (sort_key tcr_occurredAt b) s" .
  thus "\<exists>k s. f = finding s \<and> 3 \<le> length s \<and>
        maximal_streak (sort_key tcr_occurredAt (filter (\<lambda>c. streakKey c = k) calls)) s"
    using bucket_items(1) [OF b(1)] by (intro exI [of _ k] exI [of _ s]) simp
next
  assume "\<exists>k s. f = finding s \<and> 3 \<le> length s \<and>
        maximal_streak (sort_key tcr_occurredAt (filter (\<lambda>c. streakKey c = k) calls)) s"
  then obtain k s where s: "f = finding s" "3 \<le> length s"
    "maximal_streak (sort_key tcr_occurredAt (filter (\<lambda>c. streakKey c = k) calls)) s" by (elim exE conjE)
  show "f \<in> set (detectRepeatedFailedActions calls)" unfolding s(1) using s(2,3) by (rule streak_detected)
qed

text \<open>What a report carries is evidence and not a summary: its ids are those of at least three
  failed calls, as many as it counts, in order of time, all of the run, tool and input it names.\<close>

theorem reported_streak_is_evidence:
  assumes "f \<in> set (detectRepeatedFailedActions calls)"
  shows "\<exists>s. rf_toolCallIds f = map tcr_toolCallId s \<and> rf_attemptCount f = length s \<and> 3 \<le> length s \<and>
    set s \<subseteq> set calls \<and> sorted (map tcr_occurredAt s) \<and>
    (\<forall>c \<in> set s. isFailedAttempt c \<and> streakKey c = (rf_runId f, rf_toolName f, rf_inputFingerprint f))"
proof -
  from detected_bucket [OF assms] obtain k b where
    b: "(k, b) \<in> set (buckets streakKey calls)" "f \<in> set (streaksIn (sort_key tcr_occurredAt b))" .
  from detected_streak [OF b(2)] obtain s where
    s: "f = finding s" "3 \<le> length s" "maximal_streak (sort_key tcr_occurredAt b) s" .
  then obtain pre post where e: "sort_key tcr_occurredAt b = pre @ s @ post" and fl: "\<forall>c \<in> set s. isFailedAttempt c"
    by (auto simp: maximal_streak_def)
  have "sorted (map tcr_occurredAt (pre @ s @ post))" unfolding e [symmetric] by simp
  hence so: "sorted (map tcr_occurredAt s)" by (simp add: sorted_append)
  have "set s \<subseteq> set b" using arg_cong [OF e, of set] by auto
  hence sub: "set s \<subseteq> set calls" "\<forall>c \<in> set s. streakKey c = k" using bucket_items(1) [OF b(1)] by auto
  have "s \<noteq> []" using s(2) by auto
  hence "streakKey (hd s) = k" using sub(2) by simp
  hence "k = (rf_runId f, rf_toolName f, rf_inputFingerprint f)"
    by (simp add: s(1) finding_def Let_def streakKey_def)
  thus ?thesis using s fl so sub by (intro exI [of _ s]) (simp add: finding_def Let_def)
qed

section \<open>Witness\<close>

definition a_call :: "string \<Rightarrow> string \<Rightarrow> jstr option \<Rightarrow> ToolCallOutcome \<Rightarrow> ToolCallRecord" where
  "a_call i t err out = \<lparr>tcr_toolCallId = js i, tcr_runId = js ''r'', tcr_toolName = js ''t'', tcr_inputFingerprint = js ''f'',
     tcr_outcome = out, tcr_errorType = err, tcr_occurredAt = js t\<rparr>"

theorem reported_streak_is_evidence_witness:
  "\<exists>f \<in> set (detectRepeatedFailedActions [a_call ''3'' ''t3'' None TC_FAILED, a_call ''1'' ''t1'' (Some []) TC_SUCCESS,
       a_call ''2'' ''t2'' None TC_FAILED]). 3 \<le> length (rf_toolCallIds f)"
proof -
  let ?cs = "[a_call ''3'' ''t3'' None TC_FAILED, a_call ''1'' ''t1'' (Some []) TC_SUCCESS, a_call ''2'' ''t2'' None TC_FAILED]"
  have "detectRepeatedFailedActions ?cs \<noteq> []"
    by (simp add: detectRepeatedFailedActions_def buckets_def streakKey_def a_call_def js_sort_def compareOccurred_def
        js_compare_def streaksIn_def isFailedAttempt_def flush_def MIN_CONSECUTIVE_FAILURES_def)
  then obtain f where f: "f \<in> set (detectRepeatedFailedActions ?cs)" by (meson list.set_sel(1))
  from reported_streak_is_evidence [OF f] have "3 \<le> length (rf_toolCallIds f)" by (metis length_map)
  with f show ?thesis by blast
qed

end
