(* ===== verification/Sdk_Config.thy ===== *)
theory Sdk_Config
  imports Wire_Contract
begin

text \<open>
  \<^verbatim>\<open>platform/telemetry-sdk/src/config.ts\<close>: the one place where the SDK may throw.  A number that a
  caller supplies may be fractional or not finite, so it is a rational or \<open>NonFinite\<close>.  The URL parser
  of the platform is an argument: it gives the protocol of an absolute URL, or nothing.  Clock, id
  generator, scheduler, redactor and diagnostic sink are passed through unchanged and left out.
\<close>

datatype js_number = Finite rat | NonFinite

record TelemetryConfig =
  tc_endpoint :: "jstr option"
  tc_apiKey :: "jstr option"
  tc_flushIntervalMs :: "js_number option"
  tc_maxBatchSize :: "js_number option"
  tc_maxQueueSize :: "js_number option"
  tc_maxRetries :: "js_number option"
  tc_initialBackoffMs :: "js_number option"
  tc_maxBackoffMs :: "js_number option"
  tc_requestTimeoutMs :: "js_number option"
  tc_shutdownTimeoutMs :: "js_number option"
  tc_maxFieldBytes :: "js_number option"
  tc_captureToolIO :: "bool option"
  tc_hasTransport :: bool

datatype ResolvedTransport = CallerTransport | HttpTransport jstr "jstr option"

record ResolvedTelemetryConfig =
  cfg_flushIntervalMs :: int
  cfg_maxBatchSize :: int
  cfg_maxQueueSize :: int
  cfg_maxRetries :: int
  cfg_initialBackoffMs :: int
  cfg_maxBackoffMs :: int
  cfg_requestTimeoutMs :: int
  cfg_shutdownTimeoutMs :: int
  cfg_maxFieldBytes :: int
  cfg_captureToolIO :: bool
  cfg_transport :: ResolvedTransport

datatype TelemetryConfigError =
    NotIntegerBetween string int int
  | QueueBelowBatch
  | BackoffBelowInitial
  | EndpointRequired
  | EndpointNotAbsolute jstr
  | EndpointProtocol jstr

definition MAX_SAFE_INTEGER :: int where
  "MAX_SAFE_INTEGER = 9007199254740991"

definition DEFAULT_MAX_FIELD_BYTES :: int where "DEFAULT_MAX_FIELD_BYTES = 32 * 1024"
definition MAX_FIELD_BYTES_CEILING :: int where "MAX_FIELD_BYTES_CEILING = int maxEventPayloadBytes"
definition MIN_FIELD_BYTES :: int where "MIN_FIELD_BYTES = 256"

text \<open>\<^verbatim>\<open>Number.isInteger\<close>, with the integer.\<close>

definition integer_of :: "js_number \<Rightarrow> int option" where
  "integer_of x = (case x of Finite q \<Rightarrow> if q = of_int \<lfloor>q\<rfloor> then Some \<lfloor>q\<rfloor> else None | NonFinite \<Rightarrow> None)"

definition boundedInt :: "string \<Rightarrow> js_number option \<Rightarrow> int \<Rightarrow> int \<Rightarrow> int \<Rightarrow> TelemetryConfigError + int" where
  "boundedInt nm v fallback lo hi =
     (case integer_of (coalesce v (Finite (of_int fallback))) of
        None \<Rightarrow> Inl (NotIntegerBetween nm lo hi)
      | Some n \<Rightarrow> if n < lo \<or> hi < n then Inl (NotIntegerBetween nm lo hi) else Inr n)"

definition positiveInt :: "string \<Rightarrow> js_number option \<Rightarrow> int \<Rightarrow> int \<Rightarrow> TelemetryConfigError + int" where
  "positiveInt nm v fallback hi = boundedInt nm v fallback 1 hi"

definition nonNegativeInt :: "string \<Rightarrow> js_number option \<Rightarrow> int \<Rightarrow> int \<Rightarrow> TelemetryConfigError + int" where
  "nonNegativeInt nm v fallback hi = boundedInt nm v fallback 0 hi"

definition resolveTransport :: "(jstr \<Rightarrow> jstr option) \<Rightarrow> TelemetryConfig \<Rightarrow> TelemetryConfigError + ResolvedTransport" where
  "resolveTransport parseUrl c =
     (if tc_hasTransport c then Inr CallerTransport
      else case tc_endpoint c of
        None \<Rightarrow> Inl EndpointRequired
      | Some e \<Rightarrow>
          if e = [] then Inl EndpointRequired
          else (case parseUrl e of
             None \<Rightarrow> Inl (EndpointNotAbsolute e)
           | Some protocol \<Rightarrow>
               if protocol \<noteq> js ''http:'' \<and> protocol \<noteq> js ''https:'' then Inl (EndpointProtocol protocol)
               else Inr (HttpTransport e (tc_apiKey c))))"

definition bind_result :: "'e + 'a \<Rightarrow> ('a \<Rightarrow> 'e + 'b) \<Rightarrow> 'e + 'b" where
  "bind_result r f = (case r of Inl e \<Rightarrow> Inl e | Inr x \<Rightarrow> f x)"

definition resolveConfig :: "(jstr \<Rightarrow> jstr option) \<Rightarrow> TelemetryConfig \<Rightarrow> TelemetryConfigError + ResolvedTelemetryConfig" where
  "resolveConfig parseUrl c =
     bind_result (positiveInt ''maxBatchSize'' (tc_maxBatchSize c) 100 (int maxEventsPerBatch)) (\<lambda>maxBatchSize.
     bind_result (positiveInt ''maxQueueSize'' (tc_maxQueueSize c) 10000 MAX_SAFE_INTEGER) (\<lambda>maxQueueSize.
     if maxQueueSize < maxBatchSize then Inl QueueBelowBatch else
     bind_result (positiveInt ''initialBackoffMs'' (tc_initialBackoffMs c) 200 MAX_SAFE_INTEGER) (\<lambda>initialBackoffMs.
     bind_result (positiveInt ''maxBackoffMs'' (tc_maxBackoffMs c) 5000 MAX_SAFE_INTEGER) (\<lambda>maxBackoffMs.
     if maxBackoffMs < initialBackoffMs then Inl BackoffBelowInitial else
     bind_result (positiveInt ''flushIntervalMs'' (tc_flushIntervalMs c) 1000 MAX_SAFE_INTEGER) (\<lambda>flushIntervalMs.
     bind_result (nonNegativeInt ''maxRetries'' (tc_maxRetries c) 3 100) (\<lambda>maxRetries.
     bind_result (positiveInt ''requestTimeoutMs'' (tc_requestTimeoutMs c) 5000 MAX_SAFE_INTEGER) (\<lambda>requestTimeoutMs.
     bind_result (positiveInt ''shutdownTimeoutMs'' (tc_shutdownTimeoutMs c) 5000 MAX_SAFE_INTEGER) (\<lambda>shutdownTimeoutMs.
     bind_result (boundedInt ''maxFieldBytes'' (tc_maxFieldBytes c) DEFAULT_MAX_FIELD_BYTES MIN_FIELD_BYTES
        MAX_FIELD_BYTES_CEILING) (\<lambda>maxFieldBytes.
     bind_result (resolveTransport parseUrl c) (\<lambda>transport.
     Inr \<lparr>cfg_flushIntervalMs = flushIntervalMs, cfg_maxBatchSize = maxBatchSize, cfg_maxQueueSize = maxQueueSize,
        cfg_maxRetries = maxRetries, cfg_initialBackoffMs = initialBackoffMs, cfg_maxBackoffMs = maxBackoffMs,
        cfg_requestTimeoutMs = requestTimeoutMs, cfg_shutdownTimeoutMs = shutdownTimeoutMs,
        cfg_maxFieldBytes = maxFieldBytes, cfg_captureToolIO = coalesce (tc_captureToolIO c) True,
        cfg_transport = transport\<rparr>))))))))))"

text \<open>\<^verbatim>\<open>backoffFor\<close> of the client.\<close>

definition backoffFor :: "ResolvedTelemetryConfig \<Rightarrow> nat \<Rightarrow> int" where
  "backoffFor cfg attempt = min (cfg_maxBackoffMs cfg) (cfg_initialBackoffMs cfg * 2 ^ (attempt - 1))"

section \<open>What a resolved configuration promises\<close>

lemma bind_result_Inr: "bind_result r f = Inr y \<longleftrightarrow> (\<exists>x. r = Inr x \<and> f x = Inr y)"
  by (cases r) (auto simp: bind_result_def)

lemma boundedInt_Inr:
  "boundedInt nm v fallback lo hi = Inr n \<longleftrightarrow> integer_of (coalesce v (Finite (of_int fallback))) = Some n \<and> lo \<le> n \<and> n \<le> hi"
  by (auto simp: boundedInt_def split: option.splits)

lemma integer_of_int [simp]: "integer_of (Finite (of_int n)) = Some n"
  by (simp add: integer_of_def)

definition config_ok :: "ResolvedTelemetryConfig \<Rightarrow> bool" where
  "config_ok cfg \<longleftrightarrow> 1 \<le> cfg_maxBatchSize cfg \<and> cfg_maxBatchSize cfg \<le> int maxEventsPerBatch \<and>
     cfg_maxBatchSize cfg \<le> cfg_maxQueueSize cfg \<and> cfg_maxQueueSize cfg \<le> MAX_SAFE_INTEGER \<and>
     0 \<le> cfg_maxRetries cfg \<and> cfg_maxRetries cfg \<le> 100 \<and>
     1 \<le> cfg_initialBackoffMs cfg \<and> cfg_initialBackoffMs cfg \<le> cfg_maxBackoffMs cfg \<and>
     1 \<le> cfg_flushIntervalMs cfg \<and> 1 \<le> cfg_requestTimeoutMs cfg \<and> 1 \<le> cfg_shutdownTimeoutMs cfg \<and>
     MIN_FIELD_BYTES \<le> cfg_maxFieldBytes cfg \<and> cfg_maxFieldBytes cfg \<le> int maxEventPayloadBytes"

lemma resolved_config_ok: "resolveConfig parseUrl c = Inr cfg \<Longrightarrow> config_ok cfg"
  unfolding resolveConfig_def bind_result_Inr positiveInt_def nonNegativeInt_def boundedInt_Inr config_ok_def
  by (auto simp: bind_result_Inr boundedInt_Inr MAX_FIELD_BYTES_CEILING_def split: if_splits)

lemma backoff_bounds:
  assumes "config_ok cfg"
  shows "cfg_initialBackoffMs cfg \<le> backoffFor cfg attempt" "backoffFor cfg attempt \<le> cfg_maxBackoffMs cfg"
    "attempt \<le> attempt' \<Longrightarrow> backoffFor cfg attempt \<le> backoffFor cfg attempt'"
proof -
  have pos: "0 \<le> cfg_initialBackoffMs cfg" "cfg_initialBackoffMs cfg \<le> cfg_maxBackoffMs cfg"
    using assms by (auto simp: config_ok_def)
  have "cfg_initialBackoffMs cfg * 1 \<le> cfg_initialBackoffMs cfg * 2 ^ (attempt - 1)"
    using pos(1) by (intro mult_left_mono) simp_all
  thus "cfg_initialBackoffMs cfg \<le> backoffFor cfg attempt" using pos(2) by (simp add: backoffFor_def)
  show "backoffFor cfg attempt \<le> cfg_maxBackoffMs cfg" by (simp add: backoffFor_def)
  assume "attempt \<le> attempt'"
  hence "cfg_initialBackoffMs cfg * 2 ^ (attempt - 1) \<le> cfg_initialBackoffMs cfg * 2 ^ (attempt' - 1)"
    using pos(1) by (intro mult_left_mono power_increasing) simp_all
  thus "backoffFor cfg attempt \<le> backoffFor cfg attempt'" unfolding backoffFor_def by linarith
qed

text \<open>A configuration that resolves is within every bound the rest of the client relies on: batches
  fit the ingest limit and the queue, the retry budget is at most one hundred, fields fit an event,
  and every backoff lies between the initial and the maximal one and never shrinks with the
  attempt.\<close>

theorem resolved_config_bounds:
  assumes "resolveConfig parseUrl c = Inr cfg"
  shows "config_ok cfg \<and> cfg_initialBackoffMs cfg \<le> backoffFor cfg attempt \<and>
    backoffFor cfg attempt \<le> cfg_maxBackoffMs cfg \<and> backoffFor cfg attempt \<le> backoffFor cfg (Suc attempt)"
  using resolved_config_ok [OF assms] backoff_bounds [OF resolved_config_ok [OF assms]] by simp

definition default_config :: TelemetryConfig where
  "default_config = \<lparr>tc_endpoint = Some (js ''http://localhost:3000''), tc_apiKey = None, tc_flushIntervalMs = None,
     tc_maxBatchSize = None, tc_maxQueueSize = None, tc_maxRetries = None, tc_initialBackoffMs = None,
     tc_maxBackoffMs = None, tc_requestTimeoutMs = None, tc_shutdownTimeoutMs = None, tc_maxFieldBytes = None,
     tc_captureToolIO = None, tc_hasTransport = False\<rparr>"

definition default_cfg :: ResolvedTelemetryConfig where
  "default_cfg = \<lparr>cfg_flushIntervalMs = 1000, cfg_maxBatchSize = 100, cfg_maxQueueSize = 10000, cfg_maxRetries = 3,
     cfg_initialBackoffMs = 200, cfg_maxBackoffMs = 5000, cfg_requestTimeoutMs = 5000, cfg_shutdownTimeoutMs = 5000,
     cfg_maxFieldBytes = 32768, cfg_captureToolIO = True,
     cfg_transport = HttpTransport (js ''http://localhost:3000'') None\<rparr>"

lemma resolve_defaults: "resolveConfig (\<lambda>_. Some (js ''http:'')) default_config = Inr default_cfg"
proof -
  have i: "boundedInt nm None fallback lo hi = Inr fallback" if "lo \<le> fallback" "fallback \<le> hi" for nm fallback lo hi
    using that by (simp add: boundedInt_Inr)
  show ?thesis
    by (simp add: resolveConfig_def default_config_def default_cfg_def positiveInt_def nonNegativeInt_def i bind_result_def
        maxEventsPerBatch_def MAX_SAFE_INTEGER_def DEFAULT_MAX_FIELD_BYTES_def MIN_FIELD_BYTES_def MAX_FIELD_BYTES_CEILING_def
        maxEventPayloadBytes_def resolveTransport_def)
qed

theorem resolved_config_bounds_witness:
  "config_ok default_cfg \<and> backoffFor default_cfg 3 \<le> backoffFor default_cfg 4 \<and> backoffFor default_cfg 9 = 5000"
  using resolved_config_bounds [OF resolve_defaults, of 3] by (simp add: backoffFor_def default_cfg_def)

end
