(* ===== verification/Sdk_Queue.thy ===== *)
theory Sdk_Queue
  imports Sdk_Config
begin

text \<open>
  \<^verbatim>\<open>platform/telemetry-sdk/src/bounded-queue.ts\<close>: the buffer that never grows past its capacity and
  drops its oldest items.  \<open>bounded_buffer\<close> is what the client relies on; the class is an instance.
\<close>

section \<open>The contract\<close>

locale bounded_buffer =
  fixes contents :: "'q \<Rightarrow> 'a list"
    and overflow :: "'q \<Rightarrow> nat"
    and room :: "'q \<Rightarrow> nat"
    and put :: "'q \<Rightarrow> 'a \<Rightarrow> 'q \<times> nat"
    and get :: "'q \<Rightarrow> nat \<Rightarrow> 'a list \<times> 'q"
  assumes put_contents: "contents (fst (put q x)) = drop (Suc (length (contents q)) - room q) (contents q @ [x])"
    and put_count: "snd (put q x) = Suc (length (contents q)) - room q"
    and put_overflow: "overflow (fst (put q x)) = overflow q + snd (put q x)"
    and put_room: "room (fst (put q x)) = room q"
    and get_contents: "fst (get q n) = take n (contents q)" "contents (snd (get q n)) = drop n (contents q)"
    and get_keeps: "overflow (snd (get q n)) = overflow q" "room (snd (get q n)) = room q"
begin

lemma put_bounded: "length (contents (fst (put q x))) \<le> room q"
  by (simp add: put_contents)

text \<open>Every item is in the buffer or counted as dropped.\<close>

lemma put_conserves:
  "length (contents (fst (put q x))) + overflow (fst (put q x)) = Suc (length (contents q) + overflow q)"
  by (simp add: put_contents put_overflow put_count)

lemma get_conserves: "length (fst (get q n)) + length (contents (snd (get q n))) = length (contents q)"
  by (simp add: get_contents)

lemma put_keeps_newest: "0 < room q \<Longrightarrow> contents (fst (put q x)) \<noteq> [] \<and> last (contents (fst (put q x))) = x"
  by (simp add: put_contents)

definition put_all :: "'a list \<Rightarrow> 'q \<Rightarrow> 'q" where
  "put_all xs q = fold (\<lambda>x q. fst (put q x)) xs q"

lemma put_all_contents:
  assumes "length (contents q) \<le> room q"
  shows "contents (put_all xs q) = drop (length (contents q) + length xs - room q) (contents q @ xs) \<and>
    overflow (put_all xs q) = overflow q + (length (contents q) + length xs - room q) \<and> room (put_all xs q) = room q"
  using assms
proof (induction xs rule: rev_induct)
  case (snoc x xs)
  let ?n = "length (contents q) + length xs - room q"
  have IH: "contents (put_all xs q) = drop ?n (contents q @ xs)" "overflow (put_all xs q) = overflow q + ?n"
    "room (put_all xs q) = room q" using snoc by auto
  have last: "put_all (xs @ [x]) q = fst (put (put_all xs q) x)" by (simp add: put_all_def)
  have k: "Suc (length (drop ?n (contents q @ xs))) - room q + ?n = length (contents q) + length (xs @ [x]) - room q"
    by simp
  have "drop m (drop ?n (contents q @ xs) @ [x]) = drop (m + ?n) (contents q @ xs @ [x])" for m
  proof -
    have "drop ?n (contents q @ xs) @ [x] = drop ?n ((contents q @ xs) @ [x])" by (simp add: drop_append)
    thus ?thesis by (simp only: drop_drop append_assoc)
  qed
  hence c: "drop (Suc (length (drop ?n (contents q @ xs))) - room q) (drop ?n (contents q @ xs) @ [x]) =
      drop (length (contents q) + length (xs @ [x]) - room q) (contents q @ xs @ [x])" by (simp only: k)
  show ?case unfolding last put_contents put_overflow put_count put_room IH
  proof (intro conjI)
    show "drop (Suc (length (drop ?n (contents q @ xs))) - room q) (drop ?n (contents q @ xs) @ [x]) =
      drop (length (contents q) + length (xs @ [x]) - room q) (contents q @ xs @ [x])" by (rule c)
    show "overflow q + ?n + (Suc (length (drop ?n (contents q @ xs))) - room q) =
      overflow q + (length (contents q) + length (xs @ [x]) - room q)" using k by linarith
  qed simp
qed (simp add: put_all_def)

end

section \<open>The class\<close>

record 'a BoundedQueue =
  bq_items :: "'a list"
  bq_droppedCount :: nat
  bq_capacity :: nat

text \<open>\<open>None\<close> is the \<^verbatim>\<open>RangeError\<close> of the constructor.\<close>

definition newBoundedQueue :: "js_number \<Rightarrow> 'a BoundedQueue option" where
  "newBoundedQueue capacity = (case integer_of capacity of
     Some n \<Rightarrow> if n < 1 then None else Some \<lparr>bq_items = [], bq_droppedCount = 0, bq_capacity = nat n\<rparr>
   | None \<Rightarrow> None)"

fun shift_loop :: "'a list \<Rightarrow> nat \<Rightarrow> nat \<Rightarrow> 'a list \<times> nat" where
  "shift_loop [] capacity dropped = ([], dropped)"
| "shift_loop (x # xs) capacity dropped =
     (if capacity < length (x # xs) then shift_loop xs capacity (dropped + 1) else (x # xs, dropped))"

definition push :: "'a BoundedQueue \<Rightarrow> 'a \<Rightarrow> 'a BoundedQueue \<times> nat" where
  "push q item =
     (let (items, dropped) = shift_loop (bq_items q @ [item]) (bq_capacity q) 0
      in (q\<lparr>bq_items := items, bq_droppedCount := bq_droppedCount q + dropped\<rparr>, dropped))"

definition take_items :: "'a BoundedQueue \<Rightarrow> nat \<Rightarrow> 'a list \<times> 'a BoundedQueue" where
  "take_items q n = (take n (bq_items q), q\<lparr>bq_items := drop n (bq_items q)\<rparr>)"

lemma shift_loop_drop: "shift_loop xs capacity dropped = (drop (length xs - capacity) xs, dropped + (length xs - capacity))"
proof (induction xs capacity dropped rule: shift_loop.induct)
  case (2 x xs capacity dropped)
  show ?case
  proof (cases "capacity < length (x # xs)")
    case True
    hence "length (x # xs) - capacity = Suc (length xs - capacity)" by simp
    thus ?thesis using 2 True by simp
  qed simp
qed simp

interpretation bq: bounded_buffer bq_items bq_droppedCount bq_capacity push take_items
  by unfold_locales (simp_all add: push_def take_items_def shift_loop_drop)

text \<open>The buffer keeps the newest events: after any sequence of pushes into a new queue it holds
  exactly the last \<open>capacity\<close> of them, in order, and counts all the others as dropped.\<close>

theorem queue_keeps_newest:
  assumes "newBoundedQueue capacity = Some q"
  shows "let q' = fold (\<lambda>x q. fst (push q x)) xs q in
    bq_items q' = drop (length xs - bq_capacity q) xs \<and> bq_droppedCount q' = length xs - bq_capacity q \<and>
    length (bq_items q') \<le> bq_capacity q"
proof -
  have "bq_items q = []" "bq_droppedCount q = 0" using assms by (auto simp: newBoundedQueue_def split: option.splits if_splits)
  thus ?thesis using bq.put_all_contents [of q xs] by (simp add: bq.put_all_def)
qed

theorem queue_keeps_newest_witness:
  "\<exists>q. newBoundedQueue (Finite 2) = Some q \<and>
     bq_items (fold (\<lambda>x q. fst (push q x)) [1, 2, 3 :: nat] q) = [2, 3]"
proof -
  let ?q = "\<lparr>bq_items = [] :: nat list, bq_droppedCount = 0, bq_capacity = 2\<rparr>"
  have "integer_of (Finite 2) = Some 2" using integer_of_int [of 2] by simp
  hence q: "newBoundedQueue (Finite 2) = Some ?q" by (simp add: newBoundedQueue_def)
  have "bq_items (fold (\<lambda>x q. fst (push q x)) [1, 2, 3 :: nat] ?q) = [2, 3]"
    using queue_keeps_newest [OF q, of "[1, 2, 3]"] by (simp add: Let_def)
  with q show ?thesis by blast
qed

end
