(* ===== verification/Sdk_Client.thy ===== *)
theory Sdk_Client
  imports Sdk_Queue Json_Size
begin

text \<open>
  \<^verbatim>\<open>platform/telemetry-sdk/src/client.ts\<close> and \<^verbatim>\<open>events.ts\<close>: recording, batching, retrying and shutting
  down.  The client is asynchronous: the host calls it, timers fire, the transport settles and
  continuations of promises run in between, in any order the event loop allows.  The state keeps
  where the pump and the shutdown are suspended, every operation that runs without a pause is a
  function on the state, and \<open>client_step\<close> lists what can run next.  Arguments of the model: the
  schema library, the length of printed numbers, and the ids and times that the injected generators
  return.  A host call is one step, so a transport that calls the client back while it is being
  called is not covered, and neither is an id generator that throws while a batch is started.
\<close>

section \<open>Envelopes\<close>

text \<open>What the caller records.  \<open>ei_generated\<close> is the id and the time of the generators, or nothing
  when one of them throws; \<open>ei_serializable\<close> tells whether \<^verbatim>\<open>JSON.stringify\<close> returns.\<close>

record EnvelopeInput =
  ei_type :: TelemetryEventType
  ei_entityId :: jstr
  ei_runId :: jstr
  ei_payload :: json
  ei_generated :: "(jstr \<times> int) option"
  ei_serializable :: bool

definition buildEnvelope :: "EnvelopeInput \<Rightarrow> jstr \<Rightarrow> int \<Rightarrow> json" where
  "buildEnvelope input eventId now = JObj
     [(js ''eventId'', JStr eventId), (js ''schemaVersion'', JStr TELEMETRY_SCHEMA_VERSION),
      (js ''type'', JStr (event_type_name (ei_type input))), (js ''entityId'', JStr (ei_entityId input)),
      (js ''runId'', JStr (ei_runId input)), (js ''occurredAt'', JStr (toISOString now)), (js ''payload'', ei_payload input)]"

datatype EnvelopeCheck = CheckOk | CheckInvalid | CheckTooLarge

definition checkEnvelope :: "zod_parser \<Rightarrow> (rat \<Rightarrow> nat) \<Rightarrow> bool \<Rightarrow> json \<Rightarrow> EnvelopeCheck" where
  "checkEnvelope safeParse num serializable envelope =
     (case safeParse TelemetryEventEnvelopeSchema (Some envelope) of
        Inl _ \<Rightarrow> CheckInvalid
      | Inr parsed \<Rightarrow>
          (case safeParse (TELEMETRY_PAYLOAD_SCHEMAS (the (event_type_of (str_field parsed (js ''type'')))))
                  (jget envelope (js ''payload'')) of
             Inl _ \<Rightarrow> CheckInvalid
           | Inr _ \<Rightarrow>
               if \<not> serializable then CheckInvalid
               else if maxEventPayloadBytes < json_bytes num envelope then CheckTooLarge else CheckOk))"

section \<open>State\<close>

text \<open>A batch that is being delivered: its events, the attempts made, and the drop report and the
  delivery id that every attempt carries.\<close>

record Delivery =
  dl_batch :: "json list"
  dl_attempt :: nat
  dl_dropped :: int
  dl_id :: jstr

datatype PumpState =
    PumpIdle
  | InFlight Delivery      \<comment> \<open>awaiting the transport\<close>
  | Backoff Delivery       \<comment> \<open>awaiting the backoff timer\<close>
  | PumpLoop               \<comment> \<open>a batch is done, the loop head has not run yet\<close>
  | PumpFinished           \<comment> \<open>the loop is done, \<^verbatim>\<open>pumping\<close> is not cleared yet\<close>

datatype ShutdownState =
    NotShutDown
  | FirstPass | FirstPassDone      \<comment> \<open>\<^verbatim>\<open>flush\<close> awaits its first pump; the pump is done\<close>
  | SecondPass | SecondPassDone
  | ShutDown

record Counters =
  ct_recorded :: nat
  ct_delivered :: nat
  ct_droppedInvalid :: nat
  ct_droppedTooLarge :: nat
  ct_droppedAfterShutdown :: nat
  ct_droppedUndeliverable :: nat
  ct_deliveryFailures :: nat
  ct_serverAccepted :: nat
  ct_serverDuplicate :: nat
  ct_serverRejected :: nat
  ct_serverCountsUnavailable :: nat

record Client =
  cl_queue :: "json BoundedQueue"
  cl_flushTimer :: bool
  cl_pump :: PumpState
  cl_shutdown :: ShutdownState
  cl_closed :: bool
  cl_abandoned :: bool
  cl_draining :: bool
  cl_acknowledgedDrops :: int
  cl_pendingDeliveryId :: "jstr option"
  cl_counters :: Counters

definition no_counts :: Counters where
  "no_counts = \<lparr>ct_recorded = 0, ct_delivered = 0, ct_droppedInvalid = 0, ct_droppedTooLarge = 0,
     ct_droppedAfterShutdown = 0, ct_droppedUndeliverable = 0, ct_deliveryFailures = 0, ct_serverAccepted = 0,
     ct_serverDuplicate = 0, ct_serverRejected = 0, ct_serverCountsUnavailable = 0\<rparr>"

definition createTelemetryClient :: "ResolvedTelemetryConfig \<Rightarrow> Client option" where
  "createTelemetryClient cfg = (case newBoundedQueue (Finite (of_int (cfg_maxQueueSize cfg))) of
     None \<Rightarrow> None
   | Some q \<Rightarrow> Some \<lparr>cl_queue = q, cl_flushTimer = False, cl_pump = PumpIdle, cl_shutdown = NotShutDown,
       cl_closed = False, cl_abandoned = False, cl_draining = False, cl_acknowledgedDrops = 0,
       cl_pendingDeliveryId = None, cl_counters = no_counts\<rparr>)"

definition queue_size :: "Client \<Rightarrow> nat" where
  "queue_size c = length (bq_items (cl_queue c))"

definition totalDropped :: "Client \<Rightarrow> int" where
  "totalDropped c = int (bq_droppedCount (cl_queue c)) + int (ct_droppedInvalid (cl_counters c)) +
     int (ct_droppedTooLarge (cl_counters c)) + int (ct_droppedAfterShutdown (cl_counters c)) +
     int (ct_droppedUndeliverable (cl_counters c))"

definition pendingDropReport :: "Client \<Rightarrow> int" where
  "pendingDropReport c = totalDropped c - cl_acknowledgedDrops c"

definition bump :: "(Counters \<Rightarrow> Counters) \<Rightarrow> Client \<Rightarrow> Client" where
  "bump f c = c\<lparr>cl_counters := f (cl_counters c)\<rparr>"

section \<open>Delivery\<close>

definition maxAttempts :: "ResolvedTelemetryConfig \<Rightarrow> nat" where
  "maxAttempts cfg = nat (cfg_maxRetries cfg) + 1"

text \<open>The end of \<^verbatim>\<open>deliverBatch\<close> when the batch is given up.\<close>

definition giveUp :: "Delivery \<Rightarrow> Client \<Rightarrow> Client" where
  "giveUp d c = (bump (\<lambda>k. k\<lparr>ct_droppedUndeliverable := ct_droppedUndeliverable k + length (dl_batch d)\<rparr>) c)
     \<lparr>cl_pump := PumpLoop\<rparr>"

text \<open>The head of its loop, up to the pause for the transport.\<close>

definition attemptLoop :: "ResolvedTelemetryConfig \<Rightarrow> Delivery \<Rightarrow> Client \<Rightarrow> Client" where
  "attemptLoop cfg d c =
     (if dl_attempt d < maxAttempts cfg \<and> \<not> cl_abandoned c
      then c\<lparr>cl_pump := InFlight (d\<lparr>dl_attempt := dl_attempt d + 1\<rparr>)\<rparr>
      else giveUp d c)"

definition deliverBatch :: "ResolvedTelemetryConfig \<Rightarrow> jstr \<Rightarrow> json list \<Rightarrow> Client \<Rightarrow> Client" where
  "deliverBatch cfg freshId batch c =
     (let droppedSinceLastBatch = pendingDropReport c;
          deliveryId = coalesce (cl_pendingDeliveryId c) freshId
      in attemptLoop cfg \<lparr>dl_batch = batch, dl_attempt = 0, dl_dropped = droppedSinceLastBatch, dl_id = deliveryId\<rparr>
           (c\<lparr>cl_pendingDeliveryId := Some deliveryId\<rparr>))"

datatype TransportResult =
    Delivered "(nat \<times> nat \<times> nat) option"   \<comment> \<open>accepted, duplicate and rejected, when the body could be read\<close>
  | Retryable
  | Permanent

definition settleAttempt :: "ResolvedTelemetryConfig \<Rightarrow> TransportResult \<Rightarrow> Delivery \<Rightarrow> Client \<Rightarrow> Client" where
  "settleAttempt cfg result d c = (case result of
     Delivered response \<Rightarrow>
       (bump (\<lambda>k. case response of
            Some (accepted, duplicate, rejected) \<Rightarrow>
              k\<lparr>ct_delivered := ct_delivered k + length (dl_batch d), ct_serverAccepted := ct_serverAccepted k + accepted,
                ct_serverDuplicate := ct_serverDuplicate k + duplicate, ct_serverRejected := ct_serverRejected k + rejected\<rparr>
          | None \<Rightarrow>
              k\<lparr>ct_delivered := ct_delivered k + length (dl_batch d),
                ct_serverCountsUnavailable := ct_serverCountsUnavailable k + length (dl_batch d)\<rparr>) c)
         \<lparr>cl_acknowledgedDrops := cl_acknowledgedDrops c + dl_dropped d, cl_pendingDeliveryId := None, cl_pump := PumpLoop\<rparr>
   | _ \<Rightarrow>
       (let c1 = bump (\<lambda>k. k\<lparr>ct_deliveryFailures := ct_deliveryFailures k + 1\<rparr>) c
        in if result = Permanent \<or> dl_attempt d = maxAttempts cfg \<or> cl_abandoned c then giveUp d c1
           else c1\<lparr>cl_pump := Backoff d\<rparr>))"

definition pump :: "ResolvedTelemetryConfig \<Rightarrow> jstr \<Rightarrow> Client \<Rightarrow> Client" where
  "pump cfg freshId c =
     (if 0 < queue_size c \<and> \<not> cl_abandoned c
      then (let (batch, q) = take_items (cl_queue c) (nat (cfg_maxBatchSize cfg))
            in deliverBatch cfg freshId batch (c\<lparr>cl_queue := q\<rparr>))
      else c\<lparr>cl_pump := PumpFinished\<rparr>)"

definition requestPump :: "ResolvedTelemetryConfig \<Rightarrow> jstr \<Rightarrow> Client \<Rightarrow> Client" where
  "requestPump cfg freshId c = (if cl_pump c = PumpIdle then pump cfg freshId c else c)"

section \<open>Recording\<close>

definition armFlushTimer :: "Client \<Rightarrow> Client" where
  "armFlushTimer c = (if cl_flushTimer c \<or> cl_closed c then c else c\<lparr>cl_flushTimer := True\<rparr>)"

definition scheduleWork :: "ResolvedTelemetryConfig \<Rightarrow> jstr \<Rightarrow> Client \<Rightarrow> Client" where
  "scheduleWork cfg freshId c =
     (if nat (cfg_maxBatchSize cfg) \<le> queue_size c
      then requestPump cfg freshId (c\<lparr>cl_flushTimer := False\<rparr>)
      else armFlushTimer c)"

definition enqueue :: "zod_parser \<Rightarrow> (rat \<Rightarrow> nat) \<Rightarrow> ResolvedTelemetryConfig \<Rightarrow> jstr \<Rightarrow> EnvelopeInput \<Rightarrow> Client \<Rightarrow> Client" where
  "enqueue safeParse num cfg freshId input c =
     (if cl_closed c then bump (\<lambda>k. k\<lparr>ct_droppedAfterShutdown := ct_droppedAfterShutdown k + 1\<rparr>) c
      else case ei_generated input of
        None \<Rightarrow> bump (\<lambda>k. k\<lparr>ct_droppedInvalid := ct_droppedInvalid k + 1\<rparr>) c
      | Some (eventId, now) \<Rightarrow>
          (let envelope = buildEnvelope input eventId now
           in case checkEnvelope safeParse num (ei_serializable input) envelope of
                CheckTooLarge \<Rightarrow> bump (\<lambda>k. k\<lparr>ct_droppedTooLarge := ct_droppedTooLarge k + 1\<rparr>) c
              | CheckInvalid \<Rightarrow> bump (\<lambda>k. k\<lparr>ct_droppedInvalid := ct_droppedInvalid k + 1\<rparr>) c
              | CheckOk \<Rightarrow>
                  (let c1 = c\<lparr>cl_queue := fst (push (cl_queue c) envelope)\<rparr>
                   in scheduleWork cfg freshId (bump (\<lambda>k. k\<lparr>ct_recorded := ct_recorded k + 1\<rparr>) c1))))"

section \<open>Shutdown\<close>

definition startShutdown :: "ResolvedTelemetryConfig \<Rightarrow> jstr \<Rightarrow> Client \<Rightarrow> Client" where
  "startShutdown cfg freshId c =
     requestPump cfg freshId (c\<lparr>cl_closed := True, cl_draining := True, cl_flushTimer := False, cl_shutdown := FirstPass\<rparr>)"

text \<open>The continuation of \<^verbatim>\<open>flush\<close> after its first pump.\<close>

definition flushAgain :: "ResolvedTelemetryConfig \<Rightarrow> jstr \<Rightarrow> Client \<Rightarrow> Client" where
  "flushAgain cfg freshId c =
     (if 0 < queue_size c \<and> \<not> cl_abandoned c
      then requestPump cfg freshId (c\<lparr>cl_shutdown := SecondPass\<rparr>)
      else c\<lparr>cl_shutdown := ShutDown, cl_draining := False\<rparr>)"

definition pumpDone :: "Client \<Rightarrow> Client" where
  "pumpDone c = c\<lparr>cl_pump := PumpIdle, cl_shutdown := (case cl_shutdown c of
     FirstPass \<Rightarrow> FirstPassDone | SecondPass \<Rightarrow> SecondPassDone | s \<Rightarrow> s)\<rparr>"

definition abandon :: "Client \<Rightarrow> Client" where
  "abandon c = c\<lparr>cl_abandoned := True, cl_draining := False, cl_shutdown := ShutDown\<rparr>"

section \<open>Statistics\<close>

record TelemetryStats =
  st_queued :: nat
  st_droppedOverflow :: nat
  st_counters :: Counters

definition stats :: "Client \<Rightarrow> TelemetryStats" where
  "stats c = \<lparr>st_queued = queue_size c, st_droppedOverflow = bq_droppedCount (cl_queue c), st_counters = cl_counters c\<rparr>"

section \<open>What can run next\<close>

datatype client_label =
    HostRecord EnvelopeInput | HostFlush | HostShutdown
  | TimerFires | TransportSettles TransportResult | BackoffEnds | LoopHead | PumpClears
  | FlushContinues | ShutdownEnds | DeadlinePasses

inductive client_step ::
  "zod_parser \<Rightarrow> (rat \<Rightarrow> nat) \<Rightarrow> ResolvedTelemetryConfig \<Rightarrow> Client \<Rightarrow> client_label \<times> jstr \<Rightarrow> Client \<Rightarrow> bool"
  for safeParse :: zod_parser and num :: "rat \<Rightarrow> nat" and cfg :: ResolvedTelemetryConfig where
  host_record: "client_step safeParse num cfg c (HostRecord input, freshId) (enqueue safeParse num cfg freshId input c)"
| host_flush: "client_step safeParse num cfg c (HostFlush, freshId) (requestPump cfg freshId c)"
| host_shutdown: "cl_shutdown c = NotShutDown \<Longrightarrow>
    client_step safeParse num cfg c (HostShutdown, freshId) (startShutdown cfg freshId c)"
| timer: "cl_flushTimer c \<Longrightarrow>
    client_step safeParse num cfg c (TimerFires, freshId) (requestPump cfg freshId (c\<lparr>cl_flushTimer := False\<rparr>))"
| settles: "cl_pump c = InFlight d \<Longrightarrow>
    client_step safeParse num cfg c (TransportSettles result, freshId) (settleAttempt cfg result d c)"
| backoff: "cl_pump c = Backoff d \<Longrightarrow> client_step safeParse num cfg c (BackoffEnds, freshId) (attemptLoop cfg d c)"
| loop_head: "cl_pump c = PumpLoop \<Longrightarrow> client_step safeParse num cfg c (LoopHead, freshId) (pump cfg freshId c)"
| clears: "cl_pump c = PumpFinished \<Longrightarrow> client_step safeParse num cfg c (PumpClears, freshId) (pumpDone c)"
| again: "cl_shutdown c = FirstPassDone \<Longrightarrow>
    client_step safeParse num cfg c (FlushContinues, freshId) (flushAgain cfg freshId c)"
| ends: "cl_shutdown c = SecondPassDone \<Longrightarrow>
    client_step safeParse num cfg c (ShutdownEnds, freshId) (c\<lparr>cl_shutdown := ShutDown, cl_draining := False\<rparr>)"
| deadline: "cl_shutdown c \<in> {FirstPass, FirstPassDone, SecondPass, SecondPassDone} \<Longrightarrow>
    client_step safeParse num cfg c (DeadlinePasses, freshId) (abandon c)"

inductive reachable :: "zod_parser \<Rightarrow> (rat \<Rightarrow> nat) \<Rightarrow> ResolvedTelemetryConfig \<Rightarrow> Client \<Rightarrow> bool"
  for safeParse :: zod_parser and num :: "rat \<Rightarrow> nat" and cfg :: ResolvedTelemetryConfig where
  created: "createTelemetryClient cfg = Some c \<Longrightarrow> reachable safeParse num cfg c"
| stepped: "reachable safeParse num cfg c \<Longrightarrow> client_step safeParse num cfg c l c' \<Longrightarrow> reachable safeParse num cfg c'"

section \<open>Invariant\<close>

text \<open>\<open>held n\<close>: every recorded event is queued, among the \<open>n\<close> in delivery, delivered, or counted as
  dropped; the other fields are consistent.\<close>

definition held :: "ResolvedTelemetryConfig \<Rightarrow> nat \<Rightarrow> Client \<Rightarrow> bool" where
  "held cfg n c \<longleftrightarrow>
     ct_recorded (cl_counters c) = queue_size c + n + ct_delivered (cl_counters c) + bq_droppedCount (cl_queue c) +
       ct_droppedUndeliverable (cl_counters c) \<and>
     queue_size c \<le> bq_capacity (cl_queue c) \<and> bq_capacity (cl_queue c) = nat (cfg_maxQueueSize cfg) \<and>
     0 \<le> cl_acknowledgedDrops c \<and> cl_acknowledgedDrops c \<le> totalDropped c \<and>
     cl_closed c = (cl_shutdown c \<noteq> NotShutDown) \<and> (cl_closed c \<longrightarrow> \<not> cl_flushTimer c) \<and>
     (cl_abandoned c \<longrightarrow> cl_shutdown c = ShutDown)"

definition in_delivery :: "Client \<Rightarrow> nat" where
  "in_delivery c = (case cl_pump c of InFlight d \<Rightarrow> length (dl_batch d) | Backoff d \<Rightarrow> length (dl_batch d) | _ \<Rightarrow> 0)"

definition delivery_ok :: "ResolvedTelemetryConfig \<Rightarrow> Client \<Rightarrow> Delivery \<Rightarrow> bool" where
  "delivery_ok cfg c d \<longleftrightarrow> dl_batch d \<noteq> [] \<and> length (dl_batch d) \<le> nat (cfg_maxBatchSize cfg) \<and>
     cl_pendingDeliveryId c = Some (dl_id d) \<and> 0 \<le> dl_dropped d \<and> cl_acknowledgedDrops c + dl_dropped d \<le> totalDropped c"

definition pump_ok :: "ResolvedTelemetryConfig \<Rightarrow> Client \<Rightarrow> bool" where
  "pump_ok cfg c \<longleftrightarrow> (case cl_pump c of
     InFlight d \<Rightarrow> delivery_ok cfg c d \<and> 1 \<le> dl_attempt d \<and> dl_attempt d \<le> maxAttempts cfg
   | Backoff d \<Rightarrow> delivery_ok cfg c d \<and> 1 \<le> dl_attempt d \<and> dl_attempt d < maxAttempts cfg
   | _ \<Rightarrow> True)"

definition client_ok :: "ResolvedTelemetryConfig \<Rightarrow> Client \<Rightarrow> bool" where
  "client_ok cfg c \<longleftrightarrow> held cfg (in_delivery c) c \<and> pump_ok cfg c"

lemmas client_defs = bump_def queue_size_def totalDropped_def held_def in_delivery_def delivery_ok_def pump_ok_def

lemma giveUp_ok:
  assumes "held cfg (length (dl_batch d)) c"
  shows "client_ok cfg (giveUp d c)"
  using assms by (auto simp: client_ok_def giveUp_def client_defs)

lemma attemptLoop_ok:
  assumes "held cfg (length (dl_batch d)) c" "delivery_ok cfg c d"
  shows "client_ok cfg (attemptLoop cfg d c)"
proof (cases "dl_attempt d < maxAttempts cfg \<and> \<not> cl_abandoned c")
  case True
  thus ?thesis using assms by (auto simp: client_ok_def attemptLoop_def client_defs)
next
  case False
  thus ?thesis using giveUp_ok [OF assms(1)] by (auto simp: attemptLoop_def)
qed

lemma deliverBatch_ok:
  assumes "held cfg (length batch) c" "batch \<noteq> []" "length batch \<le> nat (cfg_maxBatchSize cfg)"
  shows "client_ok cfg (deliverBatch cfg freshId batch c)"
  unfolding deliverBatch_def Let_def using assms
  by (intro attemptLoop_ok) (auto simp: client_defs pendingDropReport_def)

lemma pump_op_ok:
  assumes "held cfg 0 c" "config_ok cfg"
  shows "client_ok cfg (pump cfg freshId c)"
proof (cases "0 < queue_size c \<and> \<not> cl_abandoned c")
  case True
  let ?n = "nat (cfg_maxBatchSize cfg)"
  let ?c = "c\<lparr>cl_queue := snd (take_items (cl_queue c) ?n)\<rparr>" and ?batch = "fst (take_items (cl_queue c) ?n)"
  have n: "0 < ?n" using assms(2) by (auto simp: config_ok_def)
  have "held cfg (length ?batch) ?c"
    using assms(1) bq.get_conserves [of "cl_queue c" ?n] bq.get_keeps [of "cl_queue c" ?n]
    unfolding held_def queue_size_def totalDropped_def by simp
  moreover have "?batch \<noteq> []" "length ?batch \<le> ?n"
    using True n by (simp_all add: bq.get_contents queue_size_def)
  ultimately have "client_ok cfg (deliverBatch cfg freshId ?batch ?c)" by (rule deliverBatch_ok)
  thus ?thesis using True by (simp add: pump_def case_prod_unfold Let_def)
next
  case False
  thus ?thesis using assms(1) by (auto simp: pump_def client_ok_def client_defs)
qed

lemma requestPump_ok:
  assumes "client_ok cfg c" "config_ok cfg"
  shows "client_ok cfg (requestPump cfg freshId c)"
  using assms pump_op_ok [of cfg c freshId] by (auto simp: requestPump_def client_ok_def in_delivery_def)

lemma settleAttempt_ok:
  assumes "client_ok cfg c" "cl_pump c = InFlight d"
  shows "client_ok cfg (settleAttempt cfg result d c)"
proof (cases result)
  case (Delivered response)
  thus ?thesis using assms
    by (cases response) (auto simp: client_ok_def settleAttempt_def client_defs)
next
  case Retryable
  have "held cfg (length (dl_batch d)) (bump (\<lambda>k. k\<lparr>ct_deliveryFailures := ct_deliveryFailures k + 1\<rparr>) c)"
    using assms by (auto simp: client_ok_def client_defs)
  note up = giveUp_ok [OF this]
  show ?thesis
  proof (cases "dl_attempt d = maxAttempts cfg \<or> cl_abandoned c")
    case True
    thus ?thesis using up Retryable by (auto simp: settleAttempt_def Let_def)
  next
    case False
    thus ?thesis using assms Retryable by (auto simp: client_ok_def settleAttempt_def client_defs Let_def)
  qed
next
  case Permanent
  have "held cfg (length (dl_batch d)) (bump (\<lambda>k. k\<lparr>ct_deliveryFailures := ct_deliveryFailures k + 1\<rparr>) c)"
    using assms by (auto simp: client_ok_def client_defs)
  thus ?thesis using giveUp_ok Permanent by (auto simp: settleAttempt_def Let_def)
qed

lemma count_drop_ok:
  assumes "client_ok cfg c"
  shows "client_ok cfg (bump (\<lambda>k. k\<lparr>ct_droppedAfterShutdown := ct_droppedAfterShutdown k + 1\<rparr>) c)"
    "client_ok cfg (bump (\<lambda>k. k\<lparr>ct_droppedInvalid := ct_droppedInvalid k + 1\<rparr>) c)"
    "client_ok cfg (bump (\<lambda>k. k\<lparr>ct_droppedTooLarge := ct_droppedTooLarge k + 1\<rparr>) c)"
  using assms by (auto simp: client_ok_def client_defs split: PumpState.splits)

lemma scheduleWork_ok:
  assumes "client_ok cfg c" "config_ok cfg"
  shows "client_ok cfg (scheduleWork cfg freshId c)"
proof -
  have "client_ok cfg (c\<lparr>cl_flushTimer := False\<rparr>)"
    using assms(1) by (auto simp: client_ok_def client_defs split: PumpState.splits)
  moreover have "client_ok cfg (armFlushTimer c)"
    using assms(1) by (auto simp: client_ok_def client_defs armFlushTimer_def split: PumpState.splits)
  ultimately show ?thesis using requestPump_ok assms(2) by (auto simp: scheduleWork_def)
qed

lemma push_ok:
  assumes "client_ok cfg c"
  shows "client_ok cfg (bump (\<lambda>k. k\<lparr>ct_recorded := ct_recorded k + 1\<rparr>) (c\<lparr>cl_queue := fst (push (cl_queue c) e)\<rparr>))"
proof -
  note q = bq.put_conserves [of "cl_queue c" e] bq.put_bounded [of "cl_queue c" e] bq.put_room [of "cl_queue c" e]
  have "bq_droppedCount (cl_queue c) \<le> bq_droppedCount (fst (push (cl_queue c) e))" using bq.put_overflow [of "cl_queue c" e] by simp
  thus ?thesis using assms q by (auto simp: client_ok_def client_defs split: PumpState.splits)
qed

lemma enqueue_ok:
  assumes "client_ok cfg c" "config_ok cfg"
  shows "client_ok cfg (enqueue sp num cfg freshId input c)"
  using count_drop_ok [OF assms(1)] scheduleWork_ok [OF push_ok [OF assms(1)] assms(2)]
  by (auto simp: enqueue_def Let_def split: option.splits EnvelopeCheck.splits)

lemma shutdown_ok:
  assumes "client_ok cfg c"
  shows "cl_shutdown c = NotShutDown \<Longrightarrow> config_ok cfg \<Longrightarrow> client_ok cfg (startShutdown cfg freshId c)"
    "cl_shutdown c = FirstPassDone \<Longrightarrow> config_ok cfg \<Longrightarrow> client_ok cfg (flushAgain cfg freshId c)"
    "cl_shutdown c = SecondPassDone \<Longrightarrow> client_ok cfg (c\<lparr>cl_shutdown := ShutDown, cl_draining := False\<rparr>)"
    "cl_shutdown c \<noteq> NotShutDown \<Longrightarrow> client_ok cfg (abandon c)"
    "cl_pump c = PumpFinished \<Longrightarrow> client_ok cfg (pumpDone c)"
proof -
  have "client_ok cfg (c\<lparr>cl_closed := True, cl_draining := True, cl_flushTimer := False, cl_shutdown := FirstPass\<rparr>)"
    if "cl_shutdown c = NotShutDown"
    using assms that by (auto simp: client_ok_def client_defs split: PumpState.splits)
  thus "cl_shutdown c = NotShutDown \<Longrightarrow> config_ok cfg \<Longrightarrow> client_ok cfg (startShutdown cfg freshId c)"
    using requestPump_ok by (auto simp: startShutdown_def)
  have upd: "client_ok cfg (c\<lparr>cl_shutdown := s, cl_draining := b\<rparr>)" if "cl_shutdown c \<noteq> NotShutDown" "s \<noteq> NotShutDown"
    "cl_abandoned c \<longrightarrow> s = ShutDown" for s b
    using assms that by (auto simp: client_ok_def client_defs split: PumpState.splits)
  have sec: "client_ok cfg (c\<lparr>cl_shutdown := SecondPass\<rparr>)" if "cl_shutdown c = FirstPassDone"
    using upd [of SecondPass "cl_draining c"] assms that by (auto simp: client_ok_def held_def)
  show "cl_shutdown c = FirstPassDone \<Longrightarrow> config_ok cfg \<Longrightarrow> client_ok cfg (flushAgain cfg freshId c)"
    using requestPump_ok sec upd [of ShutDown False] by (auto simp: flushAgain_def)
  show "cl_shutdown c = SecondPassDone \<Longrightarrow> client_ok cfg (c\<lparr>cl_shutdown := ShutDown, cl_draining := False\<rparr>)"
    using upd [of ShutDown False] by simp
  show "cl_shutdown c \<noteq> NotShutDown \<Longrightarrow> client_ok cfg (abandon c)"
    using assms by (auto simp: client_ok_def client_defs abandon_def split: PumpState.splits)
  show "cl_pump c = PumpFinished \<Longrightarrow> client_ok cfg (pumpDone c)"
    using assms by (auto simp: client_ok_def client_defs pumpDone_def split: ShutdownState.splits)
qed

lemma step_ok:
  assumes "client_step sp num cfg c l c'" "client_ok cfg c" "config_ok cfg"
  shows "client_ok cfg c'"
  using assms
proof (induction rule: client_step.induct)
  case (timer c freshId)
  have "client_ok cfg (c\<lparr>cl_flushTimer := False\<rparr>)"
    using timer by (auto simp: client_ok_def client_defs split: PumpState.splits)
  thus ?case using requestPump_ok timer by blast
next
  case (backoff c d freshId)
  thus ?case by (intro attemptLoop_ok) (auto simp: client_ok_def client_defs)
next
  case (loop_head c freshId)
  thus ?case by (intro pump_op_ok) (auto simp: client_ok_def in_delivery_def)
next
  case (deadline c freshId)
  thus ?case using shutdown_ok(4) by auto
qed (simp_all add: enqueue_ok requestPump_ok shutdown_ok settleAttempt_ok)

lemma created_ok:
  assumes "createTelemetryClient cfg = Some c" "config_ok cfg"
  shows "client_ok cfg c"
  using assms by (auto simp: createTelemetryClient_def newBoundedQueue_def client_ok_def client_defs no_counts_def
      split: option.splits if_splits)

lemma reachable_ok: "reachable sp num cfg c \<Longrightarrow> config_ok cfg \<Longrightarrow> client_ok cfg c"
  by (induction rule: reachable.induct) (auto intro: created_ok step_ok)

text \<open>C12. No event disappears: in every state that any interleaving of host calls, timers, transport
  results and shutdown can reach, the recorded events are exactly those queued, in the one batch
  being delivered, delivered, dropped by overflow, or given up; and the queue, the batch and its
  attempts stay within the configured bounds.\<close>

theorem every_event_accounted:
  assumes "reachable safeParse num cfg c" "resolveConfig parseUrl config = Inr cfg"
  shows "let s = stats c; k = st_counters s in
    ct_recorded k = st_queued s + in_delivery c + ct_delivered k + st_droppedOverflow s + ct_droppedUndeliverable k \<and>
    int (st_queued s) \<le> cfg_maxQueueSize cfg \<and> int (in_delivery c) \<le> cfg_maxBatchSize cfg \<and>
    (\<forall>d. cl_pump c = InFlight d \<longrightarrow> int (dl_attempt d) \<le> cfg_maxRetries cfg + 1)"
proof -
  have cfg: "config_ok cfg" using assms(2) by (rule resolved_config_ok)
  hence ok: "client_ok cfg c" using reachable_ok assms(1) by blast
  have "int (in_delivery c) \<le> cfg_maxBatchSize cfg"
    using ok cfg by (auto simp: client_ok_def pump_ok_def delivery_ok_def in_delivery_def config_ok_def split: PumpState.splits)
  moreover have "int (dl_attempt d) \<le> cfg_maxRetries cfg + 1" if "cl_pump c = InFlight d" for d
    using ok cfg that by (auto simp: client_ok_def pump_ok_def maxAttempts_def config_ok_def)
  ultimately show ?thesis
    using ok cfg by (auto simp: stats_def Let_def client_ok_def held_def config_ok_def)
qed

section \<open>Shutdown ends\<close>

definition pump_work :: "ResolvedTelemetryConfig \<Rightarrow> PumpState \<Rightarrow> nat" where
  "pump_work cfg p = (case p of
     PumpIdle \<Rightarrow> 0 | PumpFinished \<Rightarrow> 1 | PumpLoop \<Rightarrow> 2
   | Backoff d \<Rightarrow> 2 * (maxAttempts cfg - dl_attempt d) + 2
   | InFlight d \<Rightarrow> 2 * (maxAttempts cfg - dl_attempt d) + 3)"

definition shutdown_work :: "ShutdownState \<Rightarrow> nat" where
  "shutdown_work s = (case s of NotShutDown \<Rightarrow> 5 | FirstPass \<Rightarrow> 4 | FirstPassDone \<Rightarrow> 3 | SecondPass \<Rightarrow> 2
     | SecondPassDone \<Rightarrow> 1 | ShutDown \<Rightarrow> 0)"

definition work :: "ResolvedTelemetryConfig \<Rightarrow> Client \<Rightarrow> nat" where
  "work cfg c = (2 * maxAttempts cfg + 2) * queue_size c + pump_work cfg (cl_pump c) + shutdown_work (cl_shutdown c)"

lemma maxAttempts_pos: "0 < maxAttempts cfg"
  by (simp add: maxAttempts_def)

lemma pump_operation:
  assumes "config_ok cfg"
  shows "cl_shutdown (pump cfg freshId c) = cl_shutdown c \<and> cl_closed (pump cfg freshId c) = cl_closed c \<and>
    cl_abandoned (pump cfg freshId c) = cl_abandoned c \<and>
    (if 0 < queue_size c \<and> \<not> cl_abandoned c
     then queue_size (pump cfg freshId c) < queue_size c \<and> (\<exists>d. cl_pump (pump cfg freshId c) = InFlight d \<and> dl_attempt d = 1)
     else queue_size (pump cfg freshId c) = queue_size c \<and> cl_pump (pump cfg freshId c) = PumpFinished)"
  using assms maxAttempts_pos [of cfg]
  by (auto simp: pump_def take_items_def deliverBatch_def attemptLoop_def Let_def queue_size_def config_ok_def)

lemma pump_works:
  assumes "config_ok cfg" "cl_pump c = PumpLoop \<or> cl_pump c = PumpIdle \<and> 0 < queue_size c \<and> \<not> cl_abandoned c"
  shows "work cfg (pump cfg freshId c) < work cfg c"
proof (cases "0 < queue_size c \<and> \<not> cl_abandoned c")
  case True
  note p = pump_operation [OF assms(1), of freshId c]
  obtain d where d: "cl_pump (pump cfg freshId c) = InFlight d" "dl_attempt d = 1" using p True by auto
  obtain k where k: "queue_size c = queue_size (pump cfg freshId c) + Suc k" using p True by (auto dest: less_imp_Suc_add)
  have "2 * (maxAttempts cfg - 1) + 3 < 2 * maxAttempts cfg + 2" using maxAttempts_pos [of cfg] by simp
  thus ?thesis using p True d k unfolding work_def by (simp add: pump_work_def algebra_simps)
next
  case False
  thus ?thesis using pump_operation [OF assms(1), of freshId c] assms(2) by (auto simp: work_def pump_work_def)
qed

definition internal :: "client_label \<Rightarrow> bool" where
  "internal l \<longleftrightarrow> (case l of HostRecord _ \<Rightarrow> False | HostFlush \<Rightarrow> False | HostShutdown \<Rightarrow> False | _ \<Rightarrow> True)"

lemma attemptLoop_works:
  assumes "cl_pump c = Backoff d" "dl_attempt d < maxAttempts cfg"
  shows "work cfg (attemptLoop cfg d c) < work cfg c"
  using assms by (auto simp: attemptLoop_def work_def pump_work_def giveUp_def bump_def queue_size_def)

lemma settle_works:
  assumes "cl_pump c = InFlight d"
  shows "work cfg (settleAttempt cfg result d c) < work cfg c"
  using assms
  by (auto simp: settleAttempt_def work_def pump_work_def giveUp_def bump_def queue_size_def Let_def
      split: TransportResult.split)

lemma flushAgain_works:
  assumes "cl_shutdown c = FirstPassDone" "config_ok cfg"
  shows "work cfg (flushAgain cfg freshId c) < work cfg c"
proof (cases "0 < queue_size c \<and> \<not> cl_abandoned c")
  case True
  let ?c = "c\<lparr>cl_shutdown := SecondPass\<rparr>"
  have w: "work cfg ?c < work cfg c" using assms(1) by (simp add: work_def queue_size_def shutdown_work_def)
  have "work cfg (requestPump cfg freshId ?c) \<le> work cfg ?c"
    using pump_works [OF assms(2), of ?c freshId] True
    by (auto simp: requestPump_def queue_size_def intro: less_imp_le)
  thus ?thesis using w True by (simp add: flushAgain_def)
next
  case False
  thus ?thesis using assms(1) by (auto simp: flushAgain_def work_def queue_size_def shutdown_work_def)
qed

text \<open>Every step of a closed client that the host does not make is progress.\<close>

lemma internal_step_works:
  assumes "client_step sp num cfg c (l, f) c'" "internal l" "cl_closed c" "client_ok cfg c" "config_ok cfg"
  shows "work cfg c' < work cfg c \<and> cl_closed c'"
  using assms
proof (cases rule: client_step.cases)
  case (timer)
  thus ?thesis using assms(3,4) by (auto simp: client_ok_def held_def)
next
  case (settles d result)
  have "cl_closed c'" using settles assms(3)
    by (auto simp: settleAttempt_def giveUp_def bump_def Let_def split: TransportResult.split)
  thus ?thesis using settles settle_works by blast
next
  case (backoff d)
  hence "dl_attempt d < maxAttempts cfg" using assms(4) by (simp add: client_ok_def pump_ok_def)
  moreover have "cl_closed c'" using backoff assms(3) by (simp add: attemptLoop_def giveUp_def bump_def)
  ultimately show ?thesis using backoff attemptLoop_works by blast
next
  case loop_head
  thus ?thesis using pump_works [OF assms(5)] pump_operation [OF assms(5)] assms(3) by auto
next
  case clears
  thus ?thesis using assms(3)
    by (auto simp: pumpDone_def work_def pump_work_def shutdown_work_def queue_size_def split: ShutdownState.split)
next
  case again
  have "cl_closed c'" using again assms(3) pump_operation [OF assms(5)]
    by (auto simp: flushAgain_def requestPump_def)
  thus ?thesis using again flushAgain_works assms(5) by blast
next
  case ends
  thus ?thesis using assms(3) by (simp add: work_def queue_size_def shutdown_work_def)
next
  case deadline
  thus ?thesis using assms(3) by (auto simp: work_def queue_size_def shutdown_work_def abandon_def)
qed (use assms(2) in \<open>auto simp: internal_def\<close>)

text \<open>While \<^verbatim>\<open>flush\<close> waits for a pump there is one; and once the queue of a closed client was found
  empty it stays empty.\<close>

definition drain_ok :: "Client \<Rightarrow> bool" where
  "drain_ok c \<longleftrightarrow> (cl_shutdown c \<in> {FirstPass, SecondPass} \<longrightarrow> cl_pump c \<noteq> PumpIdle) \<and>
     (\<not> cl_abandoned c \<and> (cl_shutdown c \<in> {SecondPassDone, ShutDown} \<or>
        cl_shutdown c \<in> {FirstPassDone, SecondPass} \<and> cl_pump c = PumpFinished) \<longrightarrow> queue_size c = 0)"

lemma requestPump_operation:
  assumes "config_ok cfg"
  shows "cl_shutdown (requestPump cfg f c) = cl_shutdown c" "cl_closed (requestPump cfg f c) = cl_closed c"
    "cl_abandoned (requestPump cfg f c) = cl_abandoned c" "cl_pump (requestPump cfg f c) \<noteq> PumpIdle"
    "queue_size (requestPump cfg f c) \<le> queue_size c"
    "cl_pump (requestPump cfg f c) = PumpFinished \<Longrightarrow>
       queue_size (requestPump cfg f c) = 0 \<or> cl_abandoned c \<or> cl_pump c = PumpFinished"
  using pump_operation [OF assms, of f c] by (auto simp: requestPump_def split: if_splits)

lemma delivery_frame:
  "cl_shutdown (attemptLoop cfg d c) = cl_shutdown c" "cl_abandoned (attemptLoop cfg d c) = cl_abandoned c"
  "queue_size (attemptLoop cfg d c) = queue_size c" "cl_pump (attemptLoop cfg d c) \<notin> {PumpIdle, PumpFinished}"
  "cl_shutdown (settleAttempt cfg r d c) = cl_shutdown c" "cl_abandoned (settleAttempt cfg r d c) = cl_abandoned c"
  "queue_size (settleAttempt cfg r d c) = queue_size c" "cl_pump (settleAttempt cfg r d c) \<notin> {PumpIdle, PumpFinished}"
  by (auto simp: attemptLoop_def settleAttempt_def giveUp_def bump_def queue_size_def Let_def split: TransportResult.split)

lemma enqueue_shutdown:
  assumes "config_ok cfg"
  shows "cl_shutdown (enqueue sp num cfg f input c) = cl_shutdown c"
  using requestPump_operation(1) [OF assms]
  by (auto simp: enqueue_def bump_def scheduleWork_def armFlushTimer_def Let_def split: option.split EnvelopeCheck.split)

lemma enqueue_closed:
  "cl_closed c \<Longrightarrow> cl_pump (enqueue sp num cfg f input c) = cl_pump c \<and>
     queue_size (enqueue sp num cfg f input c) = queue_size c \<and> cl_abandoned (enqueue sp num cfg f input c) = cl_abandoned c"
  by (simp add: enqueue_def bump_def queue_size_def)

lemma step_drain_ok:
  assumes "client_step sp num cfg c l c'" "client_ok cfg c" "config_ok cfg" "drain_ok c"
  shows "drain_ok c'"
  using assms
proof (induction rule: client_step.induct)
  case (host_record c input f)
  show ?case
  proof (cases "cl_closed c")
    case True
    thus ?thesis using host_record enqueue_closed [OF True] enqueue_shutdown [OF host_record(2)] by (simp add: drain_ok_def)
  next
    case False
    hence "cl_shutdown c = NotShutDown" using host_record(1) by (auto simp: client_ok_def held_def)
    thus ?thesis using enqueue_shutdown [OF host_record(2)] by (simp add: drain_ok_def)
  qed
next
  case (host_flush c f)
  note r = requestPump_operation [OF host_flush(2), of f c]
  show ?case using host_flush(3) r unfolding drain_ok_def r(1,3) by auto
next
  case (host_shutdown c f)
  note r = requestPump_operation [OF host_shutdown(3),
      of f "c\<lparr>cl_closed := True, cl_draining := True, cl_flushTimer := False, cl_shutdown := FirstPass\<rparr>"]
  show ?case using r(1,4) by (simp add: drain_ok_def startShutdown_def)
next
  case (timer c f)
  note r = requestPump_operation [OF timer(3), of f "c\<lparr>cl_flushTimer := False\<rparr>"]
  have "cl_shutdown c = NotShutDown" using timer(1,2) by (auto simp: client_ok_def held_def)
  thus ?case using r(1) by (simp add: drain_ok_def)
next
  case (loop_head c f)
  thus ?case using pump_operation [OF loop_head(3), of f c] by (auto simp: drain_ok_def split: if_splits)
next
  case (clears c f)
  thus ?case by (auto simp: drain_ok_def pumpDone_def queue_size_def split: ShutdownState.splits)
next
  case (again c f)
  let ?c = "c\<lparr>cl_shutdown := SecondPass\<rparr>"
  note r = requestPump_operation [OF again(3), of f ?c]
  have "queue_size ?c = queue_size c" by (simp add: queue_size_def)
  thus ?case using again(1,4) r unfolding flushAgain_def drain_ok_def
    by (auto simp: queue_size_def)
next
  case (ends c f)
  thus ?case by (simp add: drain_ok_def queue_size_def)
next
  case (deadline c f)
  thus ?case by (simp add: drain_ok_def abandon_def)
qed (use delivery_frame in \<open>simp_all add: drain_ok_def\<close>)

lemma reachable_drain_ok: "reachable sp num cfg c \<Longrightarrow> config_ok cfg \<Longrightarrow> drain_ok c"
proof (induction rule: reachable.induct)
  case (created c)
  thus ?case by (auto simp: createTelemetryClient_def drain_ok_def split: option.splits)
next
  case (stepped c l c')
  thus ?case using step_drain_ok reachable_ok by blast
qed

text \<open>As long as the shutdown is not over or the pump has something to do, the client can go on by
  itself: a request that does not settle is ended by its timer.\<close>

lemma internal_step_enabled:
  assumes "cl_closed c" "client_ok cfg c" "drain_ok c" "cl_shutdown c \<noteq> ShutDown \<or> cl_pump c \<noteq> PumpIdle"
  obtains l f c' where "internal l" "client_step sp num cfg c (l, f) c'"
proof (cases "cl_pump c")
  case PumpIdle
  hence "cl_shutdown c = FirstPassDone \<or> cl_shutdown c = SecondPassDone"
    using assms by (cases "cl_shutdown c") (auto simp: client_ok_def held_def drain_ok_def)
  thus ?thesis
  proof
    assume "cl_shutdown c = FirstPassDone"
    from client_step.again [OF this] show ?thesis by (rule that [rotated]) (simp add: internal_def)
  next
    assume "cl_shutdown c = SecondPassDone"
    from client_step.ends [OF this] show ?thesis by (rule that [rotated]) (simp add: internal_def)
  qed
next
  case (InFlight d)
  from client_step.settles [OF this] show ?thesis by (rule that [rotated]) (simp add: internal_def)
next
  case (Backoff d)
  from client_step.backoff [OF this] show ?thesis by (rule that [rotated]) (simp add: internal_def)
next
  case PumpLoop
  from client_step.loop_head [OF this] show ?thesis by (rule that [rotated]) (simp add: internal_def)
next
  case PumpFinished
  from client_step.clears [OF this] show ?thesis by (rule that [rotated]) (simp add: internal_def)
qed

definition internal_step :: "zod_parser \<Rightarrow> (rat \<Rightarrow> nat) \<Rightarrow> ResolvedTelemetryConfig \<Rightarrow> Client \<Rightarrow> Client \<Rightarrow> bool" where
  "internal_step sp num cfg c c' \<longleftrightarrow> (\<exists>l f. internal l \<and> client_step sp num cfg c (l, f) c')"

lemma internal_run_works:
  assumes "(internal_step sp num cfg ^^ n) c c'" "reachable sp num cfg c" "cl_closed c" "config_ok cfg"
  shows "n + work cfg c' \<le> work cfg c \<and> cl_closed c' \<and> reachable sp num cfg c'"
  using assms(1)
proof (induction n arbitrary: c')
  case (Suc n)
  then obtain b where b: "(internal_step sp num cfg ^^ n) c b" "internal_step sp num cfg b c'" by auto
  note IH = Suc.IH [OF b(1)]
  obtain l f where l: "internal l" "client_step sp num cfg b (l, f) c'" using b(2) by (auto simp: internal_step_def)
  have "client_ok cfg b" using IH reachable_ok assms(4) by blast
  hence "work cfg c' < work cfg b \<and> cl_closed c'" using internal_step_works [OF l(2,1)] IH assms(4) by blast
  moreover have "reachable sp num cfg c'" using IH l(2) reachable.stepped by blast
  ultimately show ?case using IH by simp
qed (use assms in simp)

text \<open>C13. Shutdown ends: from a client that is shutting down, no run of its own steps is longer than
  \<open>work\<close> (queue, retries and passes left), whatever the transport answers; a run that cannot go on has
  shut down with an idle pump; and if the time limit was not hit, nothing is left in the queue.\<close>

theorem shutdown_terminates:
  assumes "reachable safeParse num cfg c" "resolveConfig parseUrl config = Inr cfg" "cl_closed c"
    "(internal_step safeParse num cfg ^^ n) c c'"
  shows "n \<le> work cfg c \<and>
    ((\<exists>c''. internal_step safeParse num cfg c' c'') \<or> cl_shutdown c' = ShutDown \<and> cl_pump c' = PumpIdle) \<and>
    (cl_shutdown c' = ShutDown \<and> \<not> cl_abandoned c' \<longrightarrow> queue_size c' = 0)"
proof -
  have cfg: "config_ok cfg" using assms(2) by (rule resolved_config_ok)
  note run = internal_run_works [OF assms(4,1,3) cfg]
  have ok: "client_ok cfg c'" "drain_ok c'" using run reachable_ok reachable_drain_ok cfg by blast+
  have "\<exists>c''. internal_step safeParse num cfg c' c''" if "\<not> (cl_shutdown c' = ShutDown \<and> cl_pump c' = PumpIdle)"
  proof -
    have "cl_closed c'" "cl_shutdown c' \<noteq> ShutDown \<or> cl_pump c' \<noteq> PumpIdle" using run that by auto
    from internal_step_enabled [OF this(1) ok this(2)] show ?thesis unfolding internal_step_def by blast
  qed
  thus ?thesis using run ok(2) by (auto simp: drain_ok_def)
qed

end
