(* ===== verification/Sdk_Wire.thy ===== *)
theory Sdk_Wire
  imports Sdk_Client "HOL-Library.Sublist"
begin

text \<open>
  What the client sends is what the server reads: every event that a client ever holds passes the
  server's size limit and parser, and says there what was recorded.  Witnesses of the client's
  theorems and a schedule under which a full batch waits are here too, on concrete clients.
\<close>

section \<open>The two ends of the wire\<close>

lemma available_now: "eventTypeAvailableAt (event_type_name t) TELEMETRY_SCHEMA_VERSION"
  by (cases t) (simp_all add: eventTypeAvailableAt_def schemaVersionAtLeast_def TELEMETRY_EVENT_TYPE_MIN_SCHEMA_VERSION_def
      VERSION_ORDER_def TELEMETRY_SCHEMA_VERSION_def)

lemma built_envelope_parses:
  assumes "zod_laws sp" "checkEnvelope sp num serializable (buildEnvelope input eventId now) = CheckOk"
  shows "\<exists>payload. parseTelemetryEvent sp (buildEnvelope input eventId now) = ParseOk \<lparr>te_eventId = eventId,
      te_schemaVersion = TELEMETRY_SCHEMA_VERSION, te_type = ei_type input, te_entityId = ei_entityId input,
      te_runId = ei_runId input, te_occurredAt = toISOString now, te_payload = payload\<rparr> \<and>
      sp (TELEMETRY_PAYLOAD_SCHEMAS (ei_type input)) (Some (ei_payload input)) = Inr payload"
proof -
  let ?e = "buildEnvelope input eventId now"
  obtain kvs where e: "?e = JObj kvs" by (simp add: buildEnvelope_def)
  have get: "map_of kvs (js ''eventId'') = Some (JStr eventId)"
    "map_of kvs (js ''schemaVersion'') = Some (JStr TELEMETRY_SCHEMA_VERSION)"
    "map_of kvs (js ''type'') = Some (JStr (event_type_name (ei_type input)))"
    "map_of kvs (js ''entityId'') = Some (JStr (ei_entityId input))" "map_of kvs (js ''runId'') = Some (JStr (ei_runId input))"
    "map_of kvs (js ''occurredAt'') = Some (JStr (toISOString now))" "map_of kvs (js ''payload'') = Some (ei_payload input)"
    using e by (auto simp: buildEnvelope_def)
  obtain env where env: "sp TelemetryEventEnvelopeSchema (Some (JObj kvs)) = Inr env"
    using assms(2) unfolding checkEnvelope_def e by (auto split: sum.splits)
  note f = envelope_field [OF assms(1) env]
  have ids: "str_field env (js k) = i" if "(js k, IdSchema) \<in> set envelope_fields" "map_of kvs (js k) = Some (JStr i)" for k i
    using envelope_id(1) [OF assms(1) env that(1)] that(2) by (simp add: input_str_def)
  have ver: "str_field env (js ''schemaVersion'') = TELEMETRY_SCHEMA_VERSION"
    and ety: "str_field env (js ''type'') = event_type_name (ei_type input)"
    using f [of "js ''schemaVersion''" TelemetrySchemaVersionSchema] f [of "js ''type''" TelemetryEventTypeSchema] get
    by (auto simp: envelope_fields_def TelemetrySchemaVersionSchema_def TelemetryEventTypeSchema_def
        zod_enum [OF assms(1)] str_field_def)
  have occ: "str_field env (js ''occurredAt'') = toISOString now"
    using envelope_occurredAt(1) [OF assms(1) env] get by (simp add: input_str_def)
  have pay: "jget env (js ''payload'') = Some (ei_payload input)"
    using f [of "js ''payload''" ZUnknown] get by (auto simp: envelope_fields_def zod_unknown [OF assms(1)])
  have jp: "jget ?e (js ''payload'') = Some (ei_payload input)" unfolding e jget_def using get by simp
  obtain payload where p: "sp (TELEMETRY_PAYLOAD_SCHEMAS (ei_type input)) (Some (ei_payload input)) = Inr payload"
    using assms(2) env ety jp unfolding checkEnvelope_def e by (auto split: sum.splits)
  have "parseTelemetryEvent sp (JObj kvs) = buildEvent sp (ei_type input) env (readEventId sp (JObj kvs))"
    unfolding parseTelemetryEvent_def using env available_now [of "ei_type input"] by (simp add: isPlainObject_def ety ver Let_def)
  also have "\<dots> = ParseOk \<lparr>te_eventId = eventId, te_schemaVersion = TELEMETRY_SCHEMA_VERSION, te_type = ei_type input,
      te_entityId = ei_entityId input, te_runId = ei_runId input, te_occurredAt = toISOString now, te_payload = payload\<rparr>"
    using ids [of "''eventId''"] ids [of "''entityId''"] ids [of "''runId''"] get
    by (simp add: buildEvent_def pay p ver occ envelope_fields_def)
  finally show ?thesis using p unfolding e by blast
qed

section \<open>What a client holds\<close>

text \<open>The batch that is being delivered, then the queue.\<close>

definition held_list :: "Client \<Rightarrow> json list" where
  "held_list c = (case cl_pump c of InFlight d \<Rightarrow> dl_batch d | Backoff d \<Rightarrow> dl_batch d | _ \<Rightarrow> []) @ bq_items (cl_queue c)"

lemma held_queue: "subseq (bq_items (cl_queue c)) (held_list c)"
  unfolding held_list_def by (rule list_emb_append2) simp

lemma held_delivery:
  "subseq (held_list (attemptLoop cfg d c)) (dl_batch d @ bq_items (cl_queue c))"
  "subseq (held_list (settleAttempt cfg r d c)) (dl_batch d @ bq_items (cl_queue c))"
  by (auto simp: held_list_def attemptLoop_def settleAttempt_def giveUp_def bump_def Let_def split: TransportResult.split)

lemma held_pump: "subseq (held_list (pump cfg f c)) (held_list c)"
proof (cases "0 < queue_size c \<and> \<not> cl_abandoned c")
  case True
  let ?n = "nat (cfg_maxBatchSize cfg)"
  have "subseq (held_list (pump cfg f c)) (take ?n (bq_items (cl_queue c)) @ drop ?n (bq_items (cl_queue c)))"
    using True held_delivery(1) [of cfg "\<lparr>dl_batch = take ?n (bq_items (cl_queue c)), dl_attempt = 0,
        dl_dropped = pendingDropReport (c\<lparr>cl_queue := snd (take_items (cl_queue c) ?n)\<rparr>), dl_id = coalesce (cl_pendingDeliveryId c) f\<rparr>"
        "c\<lparr>cl_queue := snd (take_items (cl_queue c) ?n), cl_pendingDeliveryId := Some (coalesce (cl_pendingDeliveryId c) f)\<rparr>"]
    by (simp add: pump_def deliverBatch_def take_items_def Let_def)
  thus ?thesis using subseq_order.order_trans [OF _ held_queue] by simp
qed (auto simp: pump_def held_list_def)

lemma held_request: "subseq (held_list (requestPump cfg f c)) (held_list c)"
  by (simp add: requestPump_def held_pump)

lemma held_fields [simp]:
  "held_list (c\<lparr>cl_flushTimer := b\<rparr>) = held_list c" "held_list (bump g c) = held_list c"
  "held_list (c\<lparr>cl_shutdown := s\<rparr>) = held_list c" "held_list (c\<lparr>cl_shutdown := s, cl_draining := b\<rparr>) = held_list c"
  by (simp_all add: held_list_def bump_def)

lemma held_schedule: "subseq (held_list (scheduleWork cfg f c)) (held_list c)"
  using held_request [of cfg f "c\<lparr>cl_flushTimer := False\<rparr>"] by (simp add: scheduleWork_def armFlushTimer_def)

lemma subseq_drop: "subseq (drop n xs) xs"
  by (metis append_take_drop_id list_emb_append2 subseq_order.order_refl)

lemma held_push:
  assumes "cl_queue c' = fst (push (cl_queue c) e)" "cl_pump c' = cl_pump c"
  shows "subseq (held_list c') (held_list c @ [e])"
proof -
  let ?held = "case cl_pump c of InFlight d \<Rightarrow> dl_batch d | Backoff d \<Rightarrow> dl_batch d | _ \<Rightarrow> []"
  obtain n where "bq_items (cl_queue c') = drop n (bq_items (cl_queue c) @ [e])"
    unfolding assms(1) bq.put_contents by blast
  hence "subseq (?held @ bq_items (cl_queue c')) (?held @ (bq_items (cl_queue c) @ [e]))"
    by (simp only: subseq_append' subseq_drop)
  thus ?thesis by (simp add: held_list_def assms(2))
qed

text \<open>The envelope of a record call that passed the client's check.\<close>

definition sendable :: "zod_parser \<Rightarrow> (rat \<Rightarrow> nat) \<Rightarrow> EnvelopeInput \<Rightarrow> json \<Rightarrow> bool" where
  "sendable sp num input e \<longleftrightarrow> (\<exists>eventId now. ei_generated input = Some (eventId, now) \<and> e = buildEnvelope input eventId now \<and>
     checkEnvelope sp num (ei_serializable input) e = CheckOk)"

lemma held_enqueue:
  obtains "subseq (held_list (enqueue sp num cfg f input c)) (held_list c)"
    | e where "sendable sp num input e" "subseq (held_list (enqueue sp num cfg f input c)) (held_list c @ [e])"
proof (cases "cl_closed c \<or> ei_generated input = None")
  case True
  hence "held_list (enqueue sp num cfg f input c) = held_list c" by (auto simp: enqueue_def)
  thus thesis using that(1) by simp
next
  case False
  then obtain eventId now where g: "ei_generated input = Some (eventId, now)" "\<not> cl_closed c" by auto
  let ?e = "buildEnvelope input eventId now"
  let ?c = "bump (\<lambda>k. k\<lparr>ct_recorded := ct_recorded k + 1\<rparr>) (c\<lparr>cl_queue := fst (push (cl_queue c) ?e)\<rparr>)"
  show thesis
  proof (cases "checkEnvelope sp num (ei_serializable input) ?e")
    case CheckOk
    have "subseq (held_list ?c) (held_list c @ [?e])" by (rule held_push) (simp_all add: bump_def)
    from subseq_order.order_trans [OF held_schedule this] that(2) [of ?e] CheckOk g show thesis
      by (auto simp: enqueue_def Let_def sendable_def)
  next
    case CheckInvalid
    hence "held_list (enqueue sp num cfg f input c) = held_list c" by (simp add: enqueue_def g Let_def)
    thus thesis using that(1) by simp
  next
    case CheckTooLarge
    hence "held_list (enqueue sp num cfg f input c) = held_list c" by (simp add: enqueue_def g Let_def)
    thus thesis using that(1) by simp
  qed
qed

lemma held_step:
  assumes "client_step sp num cfg c l c'" "\<And>input. fst l \<noteq> HostRecord input"
  shows "subseq (held_list c') (held_list c)"
  using assms
proof (induction rule: client_step.induct)
  case (settles c d result f)
  thus ?case using held_delivery(2) [of cfg result d c] by (simp add: held_list_def)
next
  case (backoff c d f)
  thus ?case using held_delivery(1) [of cfg d c] by (simp add: held_list_def)
next
  case (host_shutdown c f)
  let ?c = "c\<lparr>cl_closed := True, cl_draining := True, cl_flushTimer := False, cl_shutdown := FirstPass\<rparr>"
  have "held_list ?c = held_list c" by (simp add: held_list_def)
  thus ?case using held_request [of cfg f ?c] unfolding startShutdown_def by simp
next
  case (timer c f)
  thus ?case using held_request [of cfg f "c\<lparr>cl_flushTimer := False\<rparr>"] by simp
next
  case (again c f)
  thus ?case using held_request [of cfg f "c\<lparr>cl_shutdown := SecondPass\<rparr>"] by (auto simp: flushAgain_def)
next
  case (deadline c f)
  thus ?case by (simp add: held_list_def abandon_def)
next
  case (host_flush c f)
  show ?case by (rule held_request)
next
  case (loop_head c f)
  show ?case by (rule held_pump)
qed (auto simp: held_list_def pumpDone_def)

text \<open>A client with the record calls the host has made, in their order.\<close>

inductive client_run :: "zod_parser \<Rightarrow> (rat \<Rightarrow> nat) \<Rightarrow> ResolvedTelemetryConfig \<Rightarrow> EnvelopeInput list \<Rightarrow> Client \<Rightarrow> bool"
  for safeParse :: zod_parser and num :: "rat \<Rightarrow> nat" and cfg :: ResolvedTelemetryConfig where
  run_created: "createTelemetryClient cfg = Some c \<Longrightarrow> client_run safeParse num cfg [] c"
| run_records: "client_run safeParse num cfg inputs c \<Longrightarrow> client_step safeParse num cfg c (HostRecord input, f) c' \<Longrightarrow>
    client_run safeParse num cfg (inputs @ [input]) c'"
| run_moves: "client_run safeParse num cfg inputs c \<Longrightarrow> client_step safeParse num cfg c (l, f) c' \<Longrightarrow>
    (\<And>input. l \<noteq> HostRecord input) \<Longrightarrow> client_run safeParse num cfg inputs c'"

lemma reachable_run: "reachable sp num cfg c \<Longrightarrow> \<exists>inputs. client_run sp num cfg inputs c"
proof (induction rule: reachable.induct)
  case (created c)
  thus ?case by (blast intro: run_created)
next
  case (stepped c l c')
  obtain k f where l: "l = (k, f)" by (cases l)
  obtain inputs where inputs: "client_run sp num cfg inputs c" using stepped.IH by blast
  show ?case
  proof (cases "\<exists>input. k = HostRecord input")
    case True
    thus ?thesis using run_records [OF inputs] stepped(2) unfolding l by blast
  next
    case False
    hence "\<And>input. k \<noteq> HostRecord input" by blast
    from run_moves [OF inputs stepped(2) [unfolded l] this] show ?thesis by blast
  qed
qed

lemma list_all2_subseq:
  "subseq ys xs \<Longrightarrow> list_all2 P ks xs \<Longrightarrow> \<exists>ks'. subseq ks' ks \<and> list_all2 P ks' ys"
proof (induction arbitrary: ks rule: list_emb.induct)
  case (list_emb_Nil xs)
  show ?case by (intro exI [of _ "[]"]) simp
next
  case (list_emb_Cons ys xs x)
  then obtain k ks0 where k: "ks = k # ks0" "list_all2 P ks0 xs" by (auto simp: list_all2_Cons2)
  from list_emb_Cons.IH [OF k(2)] obtain ks' where "subseq ks' ks0" "list_all2 P ks' ys" by blast
  thus ?case unfolding k(1) by (intro exI [of _ ks']) auto
next
  case (list_emb_Cons2 x y ys xs)
  then obtain k ks0 where k: "ks = k # ks0" "P k y" "list_all2 P ks0 xs" by (auto simp: list_all2_Cons2)
  from list_emb_Cons2.IH [OF k(3)] obtain ks' where "subseq ks' ks0" "list_all2 P ks' ys" by blast
  thus ?case using k(1,2) list_emb_Cons2.hyps(1) by (intro exI [of _ "k # ks'"]) auto
qed

lemma run_sendable:
  "client_run sp num cfg inputs c \<Longrightarrow> \<exists>kept. subseq kept inputs \<and> list_all2 (sendable sp num) kept (held_list c)"
proof (induction rule: client_run.induct)
  case (run_created c)
  thus ?case by (auto simp: createTelemetryClient_def newBoundedQueue_def held_list_def split: option.splits if_splits)
next
  case (run_records inputs c input f c')
  then obtain kept where kept: "subseq kept inputs" "list_all2 (sendable sp num) kept (held_list c)" by blast
  have c': "c' = enqueue sp num cfg f input c" using run_records(2) by (cases rule: client_step.cases) simp_all
  show ?case
  proof (rule held_enqueue [of sp num cfg f input c, folded c'])
    assume "subseq (held_list c') (held_list c)"
    from list_all2_subseq [OF this kept(2)] kept(1) show ?thesis
      by (meson list_emb_append2 list_emb_prefix subseq_order.order_trans)
  next
    fix e assume e: "sendable sp num input e" "subseq (held_list c') (held_list c @ [e])"
    have "list_all2 (sendable sp num) (kept @ [input]) (held_list c @ [e])" using kept(2) e(1) by (simp add: list_all2_appendI)
    from list_all2_subseq [OF e(2) this] obtain ks where "subseq ks (kept @ [input])" "list_all2 (sendable sp num) ks (held_list c')" by blast
    moreover have "subseq (kept @ [input]) (inputs @ [input])" using kept(1) by simp
    ultimately show ?thesis using subseq_order.order_trans by blast
  qed
next
  case (run_moves inputs c l f c')
  then obtain kept where kept: "subseq kept inputs" "list_all2 (sendable sp num) kept (held_list c)" by blast
  have "subseq (held_list c') (held_list c)" by (rule held_step [OF run_moves(2)]) (simp add: run_moves(3))
  from list_all2_subseq [OF this kept(2)] kept(1) show ?case using subseq_order.order_trans by blast
qed

text \<open>C15. Round trip over the wire: what a client holds, in the batch that is being delivered and then in its queue, are events
  of the record calls its host made, at most one for each call and in the order of the calls; and each is within the
  server's event size limit and parses there, to an event with the type, entity, run and payload of that call and with the id
  and the instant that were generated for it.\<close>

theorem held_event_round_trip:
  assumes "zod_laws safeParse" "client_run safeParse num cfg inputs c"
  shows "\<exists>kept. subseq kept inputs \<and> list_all2 (\<lambda>input e. json_bytes num e \<le> maxEventPayloadBytes \<and>
    (\<exists>eventId now payload. ei_generated input = Some (eventId, now) \<and>
      parseTelemetryEvent safeParse e = ParseOk \<lparr>te_eventId = eventId, te_schemaVersion = TELEMETRY_SCHEMA_VERSION,
        te_type = ei_type input, te_entityId = ei_entityId input, te_runId = ei_runId input,
        te_occurredAt = toISOString now, te_payload = payload\<rparr> \<and>
      safeParse (TELEMETRY_PAYLOAD_SCHEMAS (ei_type input)) (Some (ei_payload input)) = Inr payload \<and>
      (\<bar>now\<bar> \<le> max_time \<longrightarrow> date_parse (toISOString now) = Some now))) kept (held_list c)"
proof -
  obtain kept where kept: "subseq kept inputs" "list_all2 (sendable safeParse num) kept (held_list c)"
    using run_sendable [OF assms(2)] by blast
  have "json_bytes num e \<le> maxEventPayloadBytes \<and> (\<exists>eventId now payload. ei_generated input = Some (eventId, now) \<and>
      parseTelemetryEvent safeParse e = ParseOk \<lparr>te_eventId = eventId, te_schemaVersion = TELEMETRY_SCHEMA_VERSION,
        te_type = ei_type input, te_entityId = ei_entityId input, te_runId = ei_runId input,
        te_occurredAt = toISOString now, te_payload = payload\<rparr> \<and>
      safeParse (TELEMETRY_PAYLOAD_SCHEMAS (ei_type input)) (Some (ei_payload input)) = Inr payload \<and>
      (\<bar>now\<bar> \<le> max_time \<longrightarrow> date_parse (toISOString now) = Some now))" if "sendable safeParse num input e" for input e
  proof -
    from that obtain eventId now where e: "ei_generated input = Some (eventId, now)" "e = buildEnvelope input eventId now"
      and ok: "checkEnvelope safeParse num (ei_serializable input) e = CheckOk" unfolding sendable_def by blast
    have "json_bytes num e \<le> maxEventPayloadBytes" using ok by (auto simp: checkEnvelope_def split: sum.splits if_splits)
    thus ?thesis using built_envelope_parses [OF assms(1) ok [unfolded e(2)]] date_parse_toISOString [of now] e by blast
  qed
  thus ?thesis using kept by (intro exI [of _ kept] conjI) (auto elim: list_all2_mono)
qed

section \<open>A concrete client\<close>

definition started_input :: EnvelopeInput where
  "started_input = \<lparr>ei_type = RunStarted, ei_entityId = js ''r'', ei_runId = js ''r'',
     ei_payload = JObj [(js ''workflowName'', JStr (js ''w'')), (js ''workflowVersion'', JStr (js ''1''))],
     ei_generated = Some (js ''e1'', 1714557600000), ei_serializable = True\<rparr>"

definition started_envelope :: json where
  "started_envelope = buildEnvelope started_input (js ''e1'') 1714557600000"

lemma started_text: "started_envelope = JObj
     [(js ''eventId'', JStr (js ''e1'')), (js ''schemaVersion'', JStr (js ''2'')), (js ''type'', JStr (js ''run.started'')),
      (js ''entityId'', JStr (js ''r'')), (js ''runId'', JStr (js ''r'')),
      (js ''occurredAt'', JStr (js ''2024-05-01T10:00:00.000Z'')),
      (js ''payload'', JObj [(js ''workflowName'', JStr (js ''w'')), (js ''workflowVersion'', JStr (js ''1''))])]"
  by code_simp

lemma check_started: "checkEnvelope zod_ref (\<lambda>_. 5) True started_envelope = CheckOk"
proof -
  have "case zod_ref TelemetryEventEnvelopeSchema (Some started_envelope) of
      Inr parsed \<Rightarrow> (case zod_ref (TELEMETRY_PAYLOAD_SCHEMAS (the (event_type_of (str_field parsed (js ''type'')))))
                  (jget started_envelope (js ''payload'')) of Inr _ \<Rightarrow> True | Inl _ \<Rightarrow> False)
    | Inl _ \<Rightarrow> False"
    by code_simp
  moreover have "json_bytes (\<lambda>_. 5) started_envelope \<le> maxEventPayloadBytes"
    unfolding started_text
    by (simp add: js_unfold char_bytes_def is_high_surrogate_def is_low_surrogate_def maxEventPayloadBytes_def)
  ultimately show ?thesis by (auto simp: checkEnvelope_def split: sum.splits)
qed

lemma started_generated: "ei_generated started_input = Some (js ''e1'', 1714557600000)" "ei_serializable started_input"
  by (simp_all add: started_input_def)

definition new_client :: "ResolvedTelemetryConfig \<Rightarrow> Client" where
  "new_client cfg = \<lparr>cl_queue = \<lparr>bq_items = [], bq_droppedCount = 0, bq_capacity = nat (cfg_maxQueueSize cfg)\<rparr>,
     cl_flushTimer = False, cl_pump = PumpIdle, cl_shutdown = NotShutDown, cl_closed = False, cl_abandoned = False,
     cl_draining = False, cl_acknowledgedDrops = 0, cl_pendingDeliveryId = None, cl_counters = no_counts\<rparr>"

lemma create_new: "1 \<le> cfg_maxQueueSize cfg \<Longrightarrow> createTelemetryClient cfg = Some (new_client cfg)"
  by (simp add: createTelemetryClient_def newBoundedQueue_def new_client_def)

text \<open>The client after one recorded event, and while it shuts down.\<close>

definition one_event_client :: Client where
  "one_event_client = enqueue zod_ref (\<lambda>_. 5) default_cfg (js ''d'') started_input (new_client default_cfg)"

lemma one_event_reachable: "reachable zod_ref (\<lambda>_. 5) default_cfg one_event_client"
  unfolding one_event_client_def
  by (intro reachable.stepped [OF reachable.created host_record] create_new) (simp add: default_cfg_def)

lemma one_event_queue: "cl_queue one_event_client = \<lparr>bq_items = [started_envelope], bq_droppedCount = 0, bq_capacity = 10000\<rparr>"
  using check_started
  by (simp add: one_event_client_def enqueue_def new_client_def started_generated started_envelope_def
      Let_def scheduleWork_def armFlushTimer_def bump_def queue_size_def default_cfg_def push_def)

theorem every_event_accounted_witness:
  "ct_recorded (cl_counters one_event_client) = queue_size one_event_client + in_delivery one_event_client +
     ct_delivered (cl_counters one_event_client) + bq_droppedCount (cl_queue one_event_client) +
     ct_droppedUndeliverable (cl_counters one_event_client) \<and> queue_size one_event_client = 1"
  using every_event_accounted [OF one_event_reachable resolve_defaults] by (simp add: Let_def stats_def queue_size_def one_event_queue)

theorem shutdown_terminates_witness:
  "let c = startShutdown default_cfg (js ''d'') one_event_client in
     \<exists>c'. internal_step zod_ref (\<lambda>_. 5) default_cfg c c'"
proof -
  let ?c = "startShutdown default_cfg (js ''d'') one_event_client"
  have nsd: "cl_shutdown one_event_client = NotShutDown"
    using reachable_ok [OF one_event_reachable] enqueue_shutdown [of default_cfg] resolved_config_ok [OF resolve_defaults]
    by (simp add: one_event_client_def new_client_def)
  have r: "reachable zod_ref (\<lambda>_. 5) default_cfg ?c"
    using reachable.stepped [OF one_event_reachable host_shutdown [OF nsd]] .
  note cfg = resolved_config_ok [OF resolve_defaults]
  have sh: "cl_shutdown ?c = FirstPass" "cl_closed ?c"
    using requestPump_operation(1,2) [OF cfg] by (simp_all add: startShutdown_def)
  have "(internal_step zod_ref (\<lambda>_. 5) default_cfg ^^ 0) ?c ?c" by simp
  from shutdown_terminates [OF r resolve_defaults sh(2) this] sh(1) show ?thesis by (simp add: Let_def)
qed

theorem held_event_round_trip_witness:
  "\<exists>payload. parseTelemetryEvent zod_ref started_envelope = ParseOk \<lparr>te_eventId = js ''e1'',
     te_schemaVersion = js ''2'', te_type = RunStarted, te_entityId = js ''r'', te_runId = js ''r'',
     te_occurredAt = toISOString 1714557600000, te_payload = payload\<rparr>"
proof -
  have "client_run zod_ref (\<lambda>_. 5) default_cfg ([] @ [started_input]) one_event_client"
    unfolding one_event_client_def
    by (intro run_records [OF run_created host_record] create_new) (simp add: default_cfg_def)
  hence run: "client_run zod_ref (\<lambda>_. 5) default_cfg [started_input] one_event_client" by simp
  have held: "held_list one_event_client = [started_envelope]"
    using check_started by (simp add: held_list_def one_event_queue) (simp add: one_event_client_def enqueue_def new_client_def started_generated
      started_envelope_def Let_def scheduleWork_def armFlushTimer_def bump_def queue_size_def default_cfg_def push_def)
  obtain kept where kept: "subseq kept [started_input]" "length kept = 1" and
    r: "\<exists>eventId now payload. ei_generated (hd kept) = Some (eventId, now) \<and>
      parseTelemetryEvent zod_ref started_envelope = ParseOk \<lparr>te_eventId = eventId, te_schemaVersion = TELEMETRY_SCHEMA_VERSION,
        te_type = ei_type (hd kept), te_entityId = ei_entityId (hd kept), te_runId = ei_runId (hd kept),
        te_occurredAt = toISOString now, te_payload = payload\<rparr>"
    using held_event_round_trip [OF zod_laws_ref run] unfolding held by (fastforce simp: list_all2_Cons2)
  have "kept = [started_input]" using kept subseq_same_length by fastforce
  thus ?thesis using r by (auto simp: started_input_def TELEMETRY_SCHEMA_VERSION_def)
qed

section \<open>A full batch can wait without a timer\<close>

definition eager_cfg :: ResolvedTelemetryConfig where
  "eager_cfg = default_cfg\<lparr>cfg_maxBatchSize := 1\<rparr>"

text \<open>A full batch can be left waiting: \<^verbatim>\<open>scheduleWork\<close> cancels the flush timer and relies on
  \<^verbatim>\<open>requestPump\<close>, which returns the pump of a loop that has already found the queue empty but is not
  cleared yet.  So a client can reach a state in which a whole batch is queued, nothing is being
  delivered, no timer is armed and the client is open: the batch waits for the next host call.\<close>

theorem full_batch_can_wait:
  "\<exists>c. reachable zod_ref (\<lambda>_. 5) eager_cfg c \<and> cfg_maxBatchSize eager_cfg \<le> int (queue_size c) \<and>
     cl_pump c = PumpIdle \<and> \<not> cl_flushTimer c \<and> \<not> cl_closed c \<and>
     \<not> (\<exists>c'. internal_step zod_ref (\<lambda>_. 5) eager_cfg c c')"
proof -
  let ?c0 = "new_client eager_cfg"
  let ?c1 = "requestPump eager_cfg (js ''d'') ?c0"
  let ?c2 = "enqueue zod_ref (\<lambda>_. 5) eager_cfg (js ''d'') started_input ?c1"
  let ?c3 = "pumpDone ?c2"
  have r0: "reachable zod_ref (\<lambda>_. 5) eager_cfg ?c0"
    by (intro reachable.created create_new) (simp add: eager_cfg_def default_cfg_def)
  have r1: "reachable zod_ref (\<lambda>_. 5) eager_cfg ?c1" by (rule reachable.stepped [OF r0 host_flush])
  have c1: "?c1 = ?c0\<lparr>cl_pump := PumpFinished\<rparr>" by (simp add: requestPump_def pump_def new_client_def queue_size_def)
  have r2: "reachable zod_ref (\<lambda>_. 5) eager_cfg ?c2" by (rule reachable.stepped [OF r1 host_record])
  have c2: "cl_pump ?c2 = PumpFinished" "bq_items (cl_queue ?c2) = [started_envelope]" "\<not> cl_flushTimer ?c2"
    "\<not> cl_closed ?c2" "cl_shutdown ?c2 = NotShutDown"
    unfolding c1 using check_started started_generated
    by (simp_all add: enqueue_def new_client_def started_envelope_def Let_def scheduleWork_def bump_def queue_size_def
        eager_cfg_def default_cfg_def push_def requestPump_def)
  have r3: "reachable zod_ref (\<lambda>_. 5) eager_cfg ?c3" by (rule reachable.stepped [OF r2 clears [OF c2(1)]])
  have c3: "cl_pump ?c3 = PumpIdle" "queue_size ?c3 = 1" "\<not> cl_flushTimer ?c3" "\<not> cl_closed ?c3" "cl_shutdown ?c3 = NotShutDown"
    using c2 by (simp_all add: pumpDone_def queue_size_def)
  have "\<not> (\<exists>c'. internal_step zod_ref (\<lambda>_. 5) eager_cfg ?c3 c')"
  proof
    assume "\<exists>c'. internal_step zod_ref (\<lambda>_. 5) eager_cfg ?c3 c'"
    then obtain l f c' where l: "internal l" "client_step zod_ref (\<lambda>_. 5) eager_cfg ?c3 (l, f) c'"
      by (auto simp: internal_step_def)
    from l(2) show False using c3 l(1) by (cases rule: client_step.cases) (auto simp: internal_def)
  qed
  thus ?thesis using r3 c3 by (intro exI [of _ ?c3]) (simp add: eager_cfg_def default_cfg_def)
qed

end
