(* ===== verification/Sdk_Drops.thy ===== *)
theory Sdk_Drops
  imports Sdk_Wire Telemetry_Store
begin

text \<open>
  The drop report from end to end: the client counts what it drops, reports the count with its
  batches under a delivery id, and the store adds each report to the run.  Responses are lost,
  attempts are repeated, batches are given up and requests arrive late or twice.  The run's count
  never exceeds what the client dropped.
\<close>

section \<open>What a step of the client does to its report\<close>

text \<open>The id and the amount of the report that is being sent.\<close>

definition delivering :: "Client \<Rightarrow> (jstr \<times> int) option" where
  "delivering c = (case cl_pump c of InFlight d \<Rightarrow> Some (dl_id d, dl_dropped d) | Backoff d \<Rightarrow> Some (dl_id d, dl_dropped d) | _ \<Rightarrow> None)"

definition keeps_report :: "Client \<Rightarrow> Client \<Rightarrow> bool" where
  "keeps_report c c' \<longleftrightarrow> cl_acknowledgedDrops c' = cl_acknowledgedDrops c \<and> cl_pendingDeliveryId c' = cl_pendingDeliveryId c \<and>
     totalDropped c \<le> totalDropped c' \<and> (delivering c' = delivering c \<or> delivering c' = None)"

definition starts_report :: "jstr \<Rightarrow> Client \<Rightarrow> Client \<Rightarrow> bool" where
  "starts_report f c c' \<longleftrightarrow> delivering c = None \<and> cl_acknowledgedDrops c' = cl_acknowledgedDrops c \<and>
     totalDropped c \<le> totalDropped c' \<and> cl_pendingDeliveryId c' = Some (coalesce (cl_pendingDeliveryId c) f) \<and>
     delivering c' = Some (coalesce (cl_pendingDeliveryId c) f, totalDropped c' - cl_acknowledgedDrops c)"

definition carries_report :: "Client \<Rightarrow> Client \<Rightarrow> bool" where
  "carries_report c c' \<longleftrightarrow> (\<exists>i a. delivering c = Some (i, a) \<and> delivering c' = None \<and>
     cl_acknowledgedDrops c' = cl_acknowledgedDrops c + a \<and> cl_pendingDeliveryId c' = None \<and> totalDropped c' = totalDropped c)"

lemma keeps_trans:
  "keeps_report c c1 \<Longrightarrow> keeps_report c1 c' \<Longrightarrow> keeps_report c c'"
  "keeps_report c c1 \<Longrightarrow> delivering c = delivering c1 \<Longrightarrow> starts_report f c1 c' \<Longrightarrow> starts_report f c c'"
  by (auto simp: keeps_report_def starts_report_def)

lemma pump_report:
  assumes "delivering c = None"
  shows "keeps_report c (pump cfg f c) \<or> starts_report f c (pump cfg f c)"
  using assms maxAttempts_pos [of cfg]
  by (auto simp: pump_def take_items_def deliverBatch_def attemptLoop_def Let_def keeps_report_def starts_report_def
      delivering_def totalDropped_def pendingDropReport_def)

lemma requestPump_report: "keeps_report c (requestPump cfg f c) \<or> starts_report f c (requestPump cfg f c)"
  using pump_report [of c cfg f] by (cases "cl_pump c = PumpIdle") (auto simp: requestPump_def delivering_def keeps_report_def)

lemma request_after_keeping:
  assumes "keeps_report c c1" "delivering c = delivering c1"
  shows "keeps_report c (requestPump cfg f c1) \<or> starts_report f c (requestPump cfg f c1)"
  using requestPump_report [of c1 cfg f] keeps_trans [OF assms(1)] assms(2) by metis

lemma scheduleWork_report:
  assumes "keeps_report c c1" "delivering c = delivering c1"
  shows "keeps_report c (scheduleWork cfg f c1) \<or> starts_report f c (scheduleWork cfg f c1)"
proof (cases "nat (cfg_maxBatchSize cfg) \<le> queue_size c1")
  case True
  have "keeps_report c (c1\<lparr>cl_flushTimer := False\<rparr>)" "delivering c = delivering (c1\<lparr>cl_flushTimer := False\<rparr>)"
    using assms by (simp_all add: keeps_report_def delivering_def totalDropped_def)
  from request_after_keeping [OF this] True show ?thesis by (simp add: scheduleWork_def)
next
  case False
  thus ?thesis using assms by (simp add: scheduleWork_def armFlushTimer_def keeps_report_def delivering_def totalDropped_def)
qed

lemma enqueue_report: "keeps_report c (enqueue sp num cfg f input c) \<or> starts_report f c (enqueue sp num cfg f input c)"
proof -
  have "keeps_report c (bump (\<lambda>k. k\<lparr>ct_recorded := ct_recorded k + 1\<rparr>) (c\<lparr>cl_queue := fst (push (cl_queue c) e)\<rparr>))"
    "delivering c = delivering (bump (\<lambda>k. k\<lparr>ct_recorded := ct_recorded k + 1\<rparr>) (c\<lparr>cl_queue := fst (push (cl_queue c) e)\<rparr>))" for e
    using bq.put_overflow [of "cl_queue c" e] by (simp_all add: keeps_report_def delivering_def totalDropped_def bump_def)
  note s = scheduleWork_report [OF this]
  have "keeps_report c (bump (\<lambda>k. k\<lparr>ct_droppedAfterShutdown := ct_droppedAfterShutdown k + 1\<rparr>) c)"
    "keeps_report c (bump (\<lambda>k. k\<lparr>ct_droppedInvalid := ct_droppedInvalid k + 1\<rparr>) c)"
    "keeps_report c (bump (\<lambda>k. k\<lparr>ct_droppedTooLarge := ct_droppedTooLarge k + 1\<rparr>) c)"
    by (simp_all add: keeps_report_def delivering_def totalDropped_def bump_def)
  thus ?thesis using s by (auto simp: enqueue_def Let_def split: option.split EnvelopeCheck.split)
qed

lemma client_step_report:
  assumes "client_step sp num cfg c (l, f) c'"
  shows "keeps_report c c' \<or> starts_report f c c' \<or> carries_report c c'"
  using assms
proof (cases rule: client_step.cases)
  case (host_record input)
  thus ?thesis using enqueue_report by blast
next
  case host_flush
  thus ?thesis using requestPump_report by blast
next
  case host_shutdown
  let ?c = "c\<lparr>cl_closed := True, cl_draining := True, cl_flushTimer := False, cl_shutdown := FirstPass\<rparr>"
  have "keeps_report c ?c" "delivering c = delivering ?c" by (simp_all add: keeps_report_def delivering_def totalDropped_def)
  from request_after_keeping [OF this] host_shutdown show ?thesis by (auto simp: startShutdown_def)
next
  case timer
  let ?c = "c\<lparr>cl_flushTimer := False\<rparr>"
  have "keeps_report c ?c" "delivering c = delivering ?c" by (simp_all add: keeps_report_def delivering_def totalDropped_def)
  from request_after_keeping [OF this] timer show ?thesis by auto
next
  case (settles d result)
  thus ?thesis
    by (cases result) (auto simp: settleAttempt_def giveUp_def bump_def keeps_report_def carries_report_def delivering_def
        totalDropped_def Let_def split: option.splits)
next
  case (backoff d)
  thus ?thesis by (auto simp: attemptLoop_def giveUp_def bump_def keeps_report_def delivering_def totalDropped_def)
next
  case loop_head
  thus ?thesis using pump_report [of c cfg f] by (auto simp: delivering_def)
next
  case again
  let ?c = "c\<lparr>cl_shutdown := SecondPass\<rparr>"
  have "keeps_report c ?c" "delivering c = delivering ?c" by (simp_all add: keeps_report_def delivering_def totalDropped_def)
  note r = request_after_keeping [OF this]
  have "keeps_report c (c\<lparr>cl_shutdown := ShutDown, cl_draining := False\<rparr>)"
    by (simp add: keeps_report_def delivering_def totalDropped_def)
  thus ?thesis using again r [of cfg f] by (cases "0 < queue_size c \<and> \<not> cl_abandoned c") (simp_all only: flushAgain_def if_True if_False simp_thms, blast+)
qed (auto simp: keeps_report_def delivering_def totalDropped_def pumpDone_def abandon_def)

section \<open>Client, network and store\<close>

text \<open>The network remembers every report ever sent and may hand any of them to the store at any time,
  any number of times.\<close>

record DropWorld =
  dw_client :: Client
  dw_used :: "jstr set"
  dw_sent :: "(jstr \<times> int) set"
  dw_store :: TelemetryStore

inductive world_step :: "zod_parser \<Rightarrow> (rat \<Rightarrow> nat) \<Rightarrow> ResolvedTelemetryConfig \<Rightarrow> jstr \<Rightarrow> DropWorld \<Rightarrow> DropWorld \<Rightarrow> bool"
  for safeParse :: zod_parser and num :: "rat \<Rightarrow> nat" and cfg :: ResolvedTelemetryConfig and runId :: jstr where
  client_moves: "client_step safeParse num cfg (dw_client w) (l, f) c' \<Longrightarrow> f \<notin> dw_used w \<Longrightarrow>
    world_step safeParse num cfg runId w
      (w\<lparr>dw_client := c', dw_used := insert f (dw_used w),
         dw_sent := dw_sent w \<union> (case cl_pump c' of InFlight d \<Rightarrow> {(dl_id d, dl_dropped d)} | _ \<Rightarrow> {})\<rparr>)"
| report_arrives: "(d, amount) \<in> dw_sent w \<Longrightarrow>
    world_step safeParse num cfg runId w
      (w\<lparr>dw_store := incrementDroppedCount (dw_store w) runId amount (Some d) now\<rparr>)"
| store_moves: "dropped_of st runId = dropped_of (dw_store w) runId \<Longrightarrow> credited st runId = credited (dw_store w) runId \<Longrightarrow>
    world_step safeParse num cfg runId w (w\<lparr>dw_store := st\<rparr>)"

inductive reachable_world :: "zod_parser \<Rightarrow> (rat \<Rightarrow> nat) \<Rightarrow> ResolvedTelemetryConfig \<Rightarrow> jstr \<Rightarrow> DropWorld \<Rightarrow> bool"
  for safeParse :: zod_parser and num :: "rat \<Rightarrow> nat" and cfg :: ResolvedTelemetryConfig and runId :: jstr where
  fresh_world: "createTelemetryClient cfg = Some c \<Longrightarrow> coalesce (dropped_of st runId) 0 = 0 \<Longrightarrow> credited st runId = {} \<Longrightarrow>
    reachable_world safeParse num cfg runId \<lparr>dw_client = c, dw_used = {}, dw_sent = {}, dw_store = st\<rparr>"
| world_moves: "reachable_world safeParse num cfg runId w \<Longrightarrow> world_step safeParse num cfg runId w w' \<Longrightarrow>
    reachable_world safeParse num cfg runId w'"

text \<open>What may still be reported under the pending id.\<close>

definition report_bound :: "Client \<Rightarrow> int" where
  "report_bound c = (case delivering c of Some (_, a) \<Rightarrow> a | None \<Rightarrow> pendingDropReport c)"

text \<open>\<open>M d\<close> bounds every report sent under \<open>d\<close>; the bounds of the retired ids add up to what the client
  regards as reported.\<close>

definition reports_ok :: "(jstr \<Rightarrow> int) \<Rightarrow> Client \<Rightarrow> jstr set \<Rightarrow> (jstr \<times> int) set \<Rightarrow> bool" where
  "reports_ok M c used sent \<longleftrightarrow> finite sent \<and> fst ` sent \<subseteq> used \<and> set_option (cl_pendingDeliveryId c) \<subseteq> used \<and>
     (\<forall>(d, a) \<in> sent. 0 \<le> a \<and> a \<le> M d) \<and> (\<forall>d. 0 \<le> M d) \<and>
     (\<Sum>d \<in> fst ` sent - set_option (cl_pendingDeliveryId c). M d) \<le> cl_acknowledgedDrops c \<and>
     (\<forall>p \<in> set_option (cl_pendingDeliveryId c). M p \<le> report_bound c) \<and>
     cl_acknowledgedDrops c + report_bound c \<le> totalDropped c \<and> 0 \<le> report_bound c \<and>
     (\<forall>i a. delivering c = Some (i, a) \<longrightarrow> cl_pendingDeliveryId c = Some i)"

definition credits_ok :: "(jstr \<Rightarrow> int) \<Rightarrow> (jstr \<times> int) set \<Rightarrow> TelemetryStore \<Rightarrow> jstr \<Rightarrow> bool" where
  "credits_ok M sent st runId \<longleftrightarrow> credited st runId \<subseteq> fst ` sent \<and>
     coalesce (dropped_of st runId) 0 \<le> (\<Sum>d \<in> credited st runId. M d)"

section \<open>The bound\<close>

lemma reports_after_keeping:
  assumes ok: "reports_ok M c used sent" and k: "keeps_report c c'"
    and sent': "sent \<subseteq> sent'" "sent' \<subseteq> sent \<union> set_option (delivering c')"
  shows "\<exists>M'. reports_ok M' c' (insert f used) sent' \<and> (\<forall>d \<in> fst ` sent. M d \<le> M' d)"
proof -
  have bound: "report_bound c \<le> report_bound c'" "cl_acknowledgedDrops c' + report_bound c' \<le> totalDropped c'"
    using ok k by (auto simp: reports_ok_def keeps_report_def report_bound_def pendingDropReport_def split: option.splits)
  show ?thesis
  proof (cases "delivering c'")
    case None
    hence "sent' = sent" using sent' by auto
    hence "reports_ok M c' (insert f used) sent'"
      using ok k bound None unfolding reports_ok_def keeps_report_def by (auto intro: order_trans)
    thus ?thesis by blast
  next
    case (Some r)
    obtain i a where r: "r = (i, a)" by force
    have d: "delivering c = Some (i, a)" using k Some r by (auto simp: keeps_report_def)
    have p: "cl_pendingDeliveryId c = Some i" "cl_pendingDeliveryId c' = Some i"
      using ok k d by (auto simp: reports_ok_def keeps_report_def)
    have ba: "report_bound c = a" "report_bound c' = a" using d Some r by (simp_all add: report_bound_def)
    have Mi: "M i \<le> a" "0 \<le> a" using ok p ba by (auto simp: reports_ok_def)
    have fs: "fst ` sent' - {i} = fst ` sent - {i}" using sent' Some r by auto
    have fin: "finite sent'" using ok sent'(2) by (auto simp: reports_ok_def intro: finite_subset)
    have "(\<Sum>d \<in> fst ` sent' - {i}. (M(i := a)) d) = (\<Sum>d \<in> fst ` sent - {i}. M d)"
      unfolding fs by (intro sum.cong) auto
    hence "reports_ok (M(i := a)) c' (insert f used) sent'"
      using ok k p ba Mi fin sent' Some r bound(2) unfolding reports_ok_def keeps_report_def by fastforce
    thus ?thesis using Mi by (intro exI [of _ "M(i := a)"]) auto
  qed
qed

lemma reports_after_start:
  assumes ok: "reports_ok M c used sent" and k: "starts_report f c c'" and f: "f \<notin> used"
    and sent': "sent \<subseteq> sent'" "sent' \<subseteq> sent \<union> set_option (delivering c')"
  shows "\<exists>M'. reports_ok M' c' (insert f used) sent' \<and> (\<forall>d \<in> fst ` sent. M d \<le> M' d)"
proof -
  define p where "p = coalesce (cl_pendingDeliveryId c) f"
  define a where "a = totalDropped c' - cl_acknowledgedDrops c"
  have k': "delivering c = None" "delivering c' = Some (p, a)" "cl_pendingDeliveryId c' = Some p"
    "cl_acknowledgedDrops c' = cl_acknowledgedDrops c" "totalDropped c \<le> totalDropped c'"
    using k by (auto simp: starts_report_def p_def a_def)
  have b: "report_bound c = totalDropped c - cl_acknowledgedDrops c" "report_bound c' = a"
    using k' by (simp_all add: report_bound_def pendingDropReport_def)
  have a0: "0 \<le> a" using ok b k' unfolding reports_ok_def a_def by linarith
  have Mp: "M p \<le> a" if "p \<in> fst ` sent"
  proof (cases "cl_pendingDeliveryId c")
    case None
    thus ?thesis using that ok f by (auto simp: reports_ok_def p_def)
  next
    case (Some q)
    hence "M p \<le> report_bound c" using ok by (auto simp: reports_ok_def p_def)
    thus ?thesis using b(1) k'(5) unfolding a_def by linarith
  qed
  have pu: "p \<in> insert f used" using ok by (cases "cl_pendingDeliveryId c") (auto simp: p_def reports_ok_def)
  have fs: "fst ` sent' - {p} \<subseteq> fst ` sent - set_option (cl_pendingDeliveryId c)"
    "fst ` sent' \<subseteq> insert p (fst ` sent)"
    using sent' k'(2) by (cases "cl_pendingDeliveryId c"; auto simp: p_def)+
  have fin: "finite sent'" "finite (fst ` sent)" using ok sent'(2) by (auto simp: reports_ok_def intro: finite_subset)
  have "(\<Sum>d \<in> fst ` sent' - {p}. (M(p := a)) d) = (\<Sum>d \<in> fst ` sent' - {p}. M d)" by (intro sum.cong) auto
  also have "\<dots> \<le> (\<Sum>d \<in> fst ` sent - set_option (cl_pendingDeliveryId c). M d)"
    using fs(1) fin ok by (intro sum_mono2) (auto simp: reports_ok_def)
  also have "\<dots> \<le> cl_acknowledgedDrops c" using ok by (simp add: reports_ok_def)
  finally have sum: "(\<Sum>d \<in> fst ` sent' - {p}. (M(p := a)) d) \<le> cl_acknowledgedDrops c'" by (simp add: k'(4))
  have each: "0 \<le> y \<and> y \<le> (M(p := a)) x" if "(x, y) \<in> sent'" for x y
  proof (cases "(x, y) \<in> sent")
    case True
    hence "0 \<le> y \<and> y \<le> M x" using ok by (auto simp: reports_ok_def)
    moreover have "x = p \<longrightarrow> M p \<le> a" using Mp True by force
    ultimately show ?thesis by auto
  next
    case False
    hence "(x, y) = (p, a)" using that sent'(2) k'(2) by auto
    thus ?thesis using a0 by simp
  qed
  have "reports_ok (M(p := a)) c' (insert f used) sent'"
    unfolding reports_ok_def k'(2,3) b(2)
  proof (intro conjI)
    show "fst ` sent' \<subseteq> insert f used" using fs(2) pu ok by (auto simp: reports_ok_def)
    show "\<forall>(d, y) \<in> sent'. 0 \<le> y \<and> y \<le> (M(p := a)) d" using each by blast
    show "cl_acknowledgedDrops c' + a \<le> totalDropped c'" by (simp add: k'(4) a_def)
  qed (use fin pu a0 sum ok in \<open>auto simp: reports_ok_def\<close>)
  thus ?thesis using Mp by (intro exI [of _ "M(p := a)"]) auto
qed

lemma reports_after_carrying:
  assumes ok: "reports_ok M c used sent" and k: "carries_report c c'"
    and sent': "sent \<subseteq> sent'" "sent' \<subseteq> sent \<union> set_option (delivering c')"
  shows "reports_ok M c' (insert f used) sent'"
proof -
  obtain i a where k': "delivering c = Some (i, a)" "delivering c' = None" "cl_acknowledgedDrops c' = cl_acknowledgedDrops c + a"
    "cl_pendingDeliveryId c' = None" "totalDropped c' = totalDropped c"
    using k by (auto simp: carries_report_def)
  have p: "cl_pendingDeliveryId c = Some i" using ok k' by (auto simp: reports_ok_def)
  have s: "sent' = sent" using sent' k'(2) by auto
  have b: "report_bound c = a" "report_bound c' = totalDropped c - cl_acknowledgedDrops c - a"
    using k' by (simp_all add: report_bound_def pendingDropReport_def)
  have Mi: "M i \<le> a" "0 \<le> M i" using ok p b(1) by (auto simp: reports_ok_def)
  have "(\<Sum>d \<in> fst ` sent. M d) \<le> (\<Sum>d \<in> insert i (fst ` sent - {i}). M d)"
    using ok by (intro sum_mono2) (auto simp: reports_ok_def)
  also have "\<dots> = M i + (\<Sum>d \<in> fst ` sent - {i}. M d)" using ok by (subst sum.insert) (auto simp: reports_ok_def)
  also have "\<dots> \<le> cl_acknowledgedDrops c'" using ok p k'(3) Mi by (simp add: reports_ok_def)
  finally have sum: "(\<Sum>d \<in> fst ` sent. M d) \<le> cl_acknowledgedDrops c'" .
  have "0 \<le> report_bound c'" using ok b unfolding reports_ok_def by linarith
  thus ?thesis using ok k' b sum unfolding reports_ok_def s by auto
qed

lemma increment_bound:
  assumes "0 \<le> a"
  shows "coalesce (dropped_of (incrementDroppedCount st r a (Some d) now) r) 0 \<le>
      coalesce (dropped_of st r) 0 + (if d \<in> credited st r then 0 else a)"
    "credited (incrementDroppedCount st r a (Some d) now) r = credited st r \<union> (if a = 0 then {} else {d})"
  using assms
  by (cases "ts_runs st r"; auto simp: incrementDroppedCount_def incrementDroppedCountRaw_def dropped_of_def credited_def)+

lemma credits_mono:
  assumes "credits_ok M sent st r" "\<forall>d \<in> fst ` sent. M d \<le> M' d" "sent \<subseteq> sent'"
  shows "credits_ok M' sent' st r"
proof -
  have "(\<Sum>d \<in> credited st r. M d) \<le> (\<Sum>d \<in> credited st r. M' d)"
    using assms by (intro sum_mono) (auto simp: credits_ok_def)
  moreover have "credited st r \<subseteq> fst ` sent'" using assms(1) image_mono [OF assms(3)] unfolding credits_ok_def by (metis subset_trans)
  ultimately show ?thesis using assms(1) unfolding credits_ok_def by linarith
qed

lemma credits_after_arrival:
  assumes ok: "credits_ok M sent st r" "reports_ok M c used sent" and s: "(d, a) \<in> sent"
  shows "credits_ok M sent (incrementDroppedCount st r a (Some d) now) r"
proof -
  have a: "0 \<le> a" "a \<le> M d" "0 \<le> M d" using ok(2) s by (auto simp: reports_ok_def)
  note i = increment_bound [OF a(1), of st r d now]
  have cr: "coalesce (dropped_of st r) 0 \<le> (\<Sum>d \<in> credited st r. M d)" "credited st r \<subseteq> fst ` sent"
    using ok(1) by (simp_all add: credits_ok_def)
  have "finite (fst ` sent)" using ok(2) by (simp add: reports_ok_def)
  hence fin: "finite (credited st r)" using cr(2) by (rule rev_finite_subset)
  have d: "d \<in> fst ` sent" using s by force
  show ?thesis
  proof (cases "d \<in> credited st r \<or> a = 0")
    case True
    hence same: "credited (incrementDroppedCount st r a (Some d) now) r = credited st r" using i(2) by auto
    have "coalesce (dropped_of (incrementDroppedCount st r a (Some d) now) r) 0 \<le> coalesce (dropped_of st r) 0"
      using i(1) True by (simp split: if_splits)
    thus ?thesis unfolding credits_ok_def same using cr by linarith
  next
    case False
    hence more: "credited (incrementDroppedCount st r a (Some d) now) r = insert d (credited st r)" using i(2) by simp
    have "(\<Sum>d \<in> insert d (credited st r). M d) = M d + (\<Sum>d \<in> credited st r. M d)" using fin False by simp
    moreover have "coalesce (dropped_of (incrementDroppedCount st r a (Some d) now) r) 0 \<le> coalesce (dropped_of st r) 0 + a"
      using i(1) False by simp
    ultimately show ?thesis unfolding credits_ok_def more using cr d a(2) by simp
  qed
qed

lemma reachable_world_ok:
  "reachable_world sp num cfg r w \<Longrightarrow>
     \<exists>M. reports_ok M (dw_client w) (dw_used w) (dw_sent w) \<and> credits_ok M (dw_sent w) (dw_store w) r"
proof (induction rule: reachable_world.induct)
  case (fresh_world c st)
  have "reports_ok (\<lambda>_. 0) c {} {}"
    using fresh_world by (auto simp: createTelemetryClient_def newBoundedQueue_def reports_ok_def report_bound_def delivering_def
        pendingDropReport_def totalDropped_def no_counts_def split: option.splits if_splits)
  thus ?case using fresh_world by (intro exI [of _ "\<lambda>_. 0"]) (simp add: credits_ok_def)
next
  case (world_moves w w')
  then obtain M where ok: "reports_ok M (dw_client w) (dw_used w) (dw_sent w)" "credits_ok M (dw_sent w) (dw_store w) r" by blast
  from world_moves(2) show ?case
  proof (cases rule: world_step.cases)
    case (client_moves l f c')
    let ?sent = "dw_sent w \<union> (case cl_pump c' of InFlight d \<Rightarrow> {(dl_id d, dl_dropped d)} | _ \<Rightarrow> {})"
    have sub: "dw_sent w \<subseteq> ?sent" "?sent \<subseteq> dw_sent w \<union> set_option (delivering c')"
      by (auto simp: delivering_def split: PumpState.split)
    have "\<exists>M'. reports_ok M' c' (insert f (dw_used w)) ?sent \<and> (\<forall>d \<in> fst ` dw_sent w. M d \<le> M' d)"
      using client_step_report [OF client_moves(2)] reports_after_keeping [OF ok(1) _ sub]
        reports_after_start [OF ok(1) _ client_moves(3) sub] reports_after_carrying [OF ok(1) _ sub] by blast
    then obtain M' where "reports_ok M' c' (insert f (dw_used w)) ?sent" "\<forall>d \<in> fst ` dw_sent w. M d \<le> M' d" by blast
    thus ?thesis using credits_mono [OF ok(2) _ sub(1)] client_moves(1) by auto
  next
    case (report_arrives d amount now)
    thus ?thesis using credits_after_arrival [OF ok(2,1)] ok(1) by auto
  next
    case (store_moves st)
    thus ?thesis using ok by (auto simp: credits_ok_def)
  qed
qed

text \<open>C14. The drop count of a run is never too high: whatever is lost, retried, given up, delayed or
  duplicated between the client and the store, the count the store shows for the run is at most the
  number of events the client dropped.\<close>

theorem stored_drops_bounded:
  assumes "reachable_world safeParse num cfg runId w"
  shows "coalesce (dropped_of (dw_store w) runId) 0 \<le> totalDropped (dw_client w)"
proof -
  obtain M where ok: "reports_ok M (dw_client w) (dw_used w) (dw_sent w)" "credits_ok M (dw_sent w) (dw_store w) runId"
    using reachable_world_ok [OF assms] by blast
  let ?ids = "fst ` dw_sent w" and ?p = "set_option (cl_pendingDeliveryId (dw_client w))"
  have fin: "finite ?ids" "finite ?p" using ok(1) by (auto simp: reports_ok_def)
  have nn: "0 \<le> M d" for d using ok(1) by (auto simp: reports_ok_def)
  have "(\<Sum>d \<in> ?p. M d) \<le> report_bound (dw_client w)"
    using ok(1) by (cases "cl_pendingDeliveryId (dw_client w)") (auto simp: reports_ok_def)
  moreover have "(\<Sum>d \<in> credited (dw_store w) runId. M d) \<le> (\<Sum>d \<in> (?ids - ?p) \<union> ?p. M d)"
    using ok(2) fin nn by (intro sum_mono2) (auto simp: credits_ok_def)
  moreover have "(\<Sum>d \<in> (?ids - ?p) \<union> ?p. M d) = (\<Sum>d \<in> ?ids - ?p. M d) + (\<Sum>d \<in> ?p. M d)"
    using fin by (intro sum.union_disjoint) auto
  ultimately show ?thesis using ok unfolding credits_ok_def reports_ok_def by linarith
qed

text \<open>The bound is reached: one event has no id and is dropped, the next one is sent with the report,
  and the report arrives.\<close>

definition dropped_one :: Client where
  "dropped_one = bump (\<lambda>k. k\<lparr>ct_droppedInvalid := ct_droppedInvalid k + 1\<rparr>) (new_client default_cfg)"

definition queued_one :: Client where
  "queued_one = enqueue zod_ref (\<lambda>_. 5) default_cfg (js ''b'') started_input dropped_one"

definition sent_one :: Client where
  "sent_one = requestPump default_cfg (js ''d'') queued_one"

definition reported_one :: DropWorld where
  "reported_one = \<lparr>dw_client = sent_one, dw_used = {js ''a'', js ''b'', js ''d''}, dw_sent = {(js ''d'', 1)},
     dw_store = incrementDroppedCount one_run_store (js ''r'') 1 (Some (js ''d'')) 0\<rparr>"

lemma dropped_one_enqueue:
  "dropped_one = enqueue zod_ref (\<lambda>_. 5) default_cfg (js ''a'') (started_input\<lparr>ei_generated := None\<rparr>) (new_client default_cfg)"
  by (simp add: dropped_one_def enqueue_def new_client_def)

lemma queued_one_state:
  "cl_pump queued_one = PumpIdle" "bq_items (cl_queue queued_one) = [started_envelope]" "totalDropped queued_one = 1"
  "cl_acknowledgedDrops queued_one = 0" "cl_pendingDeliveryId queued_one = None" "\<not> cl_abandoned queued_one"
  using check_started
  by (simp_all add: queued_one_def dropped_one_def enqueue_def new_client_def started_generated started_envelope_def no_counts_def
      Let_def scheduleWork_def armFlushTimer_def bump_def queue_size_def default_cfg_def push_def totalDropped_def)

lemma sent_one_pump:
  "cl_pump sent_one = InFlight \<lparr>dl_batch = [started_envelope], dl_attempt = 1, dl_dropped = 1, dl_id = js ''d''\<rparr>"
  "totalDropped sent_one = 1"
  using queued_one_state
  by (simp_all add: sent_one_def requestPump_def pump_def queue_size_def take_items_def deliverBatch_def attemptLoop_def Let_def
      pendingDropReport_def totalDropped_def maxAttempts_def default_cfg_def)

lemma world_of_client_step:
  assumes "reachable_world sp num cfg r \<lparr>dw_client = c, dw_used = u, dw_sent = s, dw_store = st\<rparr>"
    and "client_step sp num cfg c (l, f) c'" "f \<notin> u"
  shows "reachable_world sp num cfg r \<lparr>dw_client = c', dw_used = insert f u,
     dw_sent = s \<union> (case cl_pump c' of InFlight d \<Rightarrow> {(dl_id d, dl_dropped d)} | _ \<Rightarrow> {}), dw_store = st\<rparr>"
  using reachable_world.world_moves [OF assms(1) world_step.client_moves, of l f c'] assms(2,3) by simp

lemma reported_one_reachable: "reachable_world zod_ref (\<lambda>_. 5) default_cfg (js ''r'') reported_one"
proof -
  let ?w = "\<lambda>c u s. \<lparr>dw_client = c, dw_used = u, dw_sent = s, dw_store = one_run_store\<rparr>"
  let ?R = "reachable_world zod_ref (\<lambda>_. 5) default_cfg (js ''r'')"
  let ?step = "client_step zod_ref (\<lambda>_. 5) default_cfg"
  have idle: "cl_pump dropped_one = PumpIdle" by (simp add: dropped_one_def new_client_def bump_def)
  have "createTelemetryClient default_cfg = Some (new_client default_cfg)"
    by (intro create_new) (simp add: default_cfg_def)
  hence r0: "?R (?w (new_client default_cfg) {} {})"
    by (rule reachable_world.fresh_world) (simp_all add: one_run_store_def dropped_of_def credited_def)
  have "?step (new_client default_cfg) (HostRecord (started_input\<lparr>ei_generated := None\<rparr>), js ''a'') dropped_one"
    unfolding dropped_one_enqueue by (rule host_record)
  from world_of_client_step [OF r0 this] have r1: "?R (?w dropped_one {js ''a''} {})" by (simp add: idle)
  have "?step dropped_one (HostRecord started_input, js ''b'') queued_one" unfolding queued_one_def by (rule host_record)
  from world_of_client_step [OF r1 this] have r2: "?R (?w queued_one {js ''a'', js ''b''} {})"
    by (simp add: queued_one_state(1) insert_commute)
  have "?step queued_one (HostFlush, js ''d'') sent_one" unfolding sent_one_def by (rule host_flush)
  from world_of_client_step [OF r2 this] have r3: "?R (?w sent_one {js ''a'', js ''b'', js ''d''} {(js ''d'', 1)})"
    by (simp add: sent_one_pump(1) insert_commute)
  from reachable_world.world_moves [OF r3 world_step.report_arrives [of "js ''d''" 1 _ _ _ _ _ 0]]
  show ?thesis by (simp add: reported_one_def)
qed

theorem stored_drops_bounded_witness:
  "coalesce (dropped_of (dw_store reported_one) (js ''r'')) 0 = 1 \<and> totalDropped (dw_client reported_one) = 1 \<and>
     coalesce (dropped_of (dw_store reported_one) (js ''r'')) 0 \<le> totalDropped (dw_client reported_one)"
  using stored_drops_bounded [OF reported_one_reachable] sent_one_pump(2)
  by (simp add: reported_one_def dropped_of_def incrementDroppedCount_def incrementDroppedCountRaw_def one_run_store_def
      POSTGRES_INT4_MAX_def)

end
