(* ===== verification/Json_Text.thy ===== *)
theory Json_Text
  imports Json_Size
begin

text \<open>
  \<^verbatim>\<open>JSON.stringify\<close> as text, \<^verbatim>\<open>TextEncoder.encode\<close>, and own properties of an object being built.
  The byte count of the text is the one that \<open>Json_Size\<close> computes without building it.  How a number
  is printed is the argument \<open>numText\<close>, of which only that it is ASCII is used.
\<close>

section \<open>Decimal and hexadecimal text\<close>

definition hex_char :: "nat \<Rightarrow> jchar" where
  "hex_char d = (if d < 10 then word_of_nat (48 + d) else word_of_nat (87 + d))"

fun show_nat :: "nat \<Rightarrow> jstr" where
  "show_nat n = (if n < 10 then [hex_char n] else show_nat (n div 10) @ [hex_char (n mod 10)])"

declare show_nat.simps [simp del]

fun hex_digits :: "nat \<Rightarrow> nat \<Rightarrow> jstr" where
  "hex_digits 0 n = []"
| "hex_digits (Suc w) n = hex_digits w (n div 16) @ [hex_char (n mod 16)]"

lemma length_hex_digits [simp]: "length (hex_digits w n) = w"
  by (induction w arbitrary: n) auto

section \<open>Stringify\<close>

definition unicode_escape :: "jchar \<Rightarrow> jstr" where
  "unicode_escape c = js [CHR 0x5C, CHR ''u''] @ hex_digits 4 (unat c)"

definition escape_char :: "jchar \<Rightarrow> jstr" where
  "escape_char c =
     (if c = 8 then js [CHR 0x5C, CHR ''b''] else if c = 9 then js [CHR 0x5C, CHR ''t'']
      else if c = 10 then js [CHR 0x5C, CHR ''n''] else if c = 12 then js [CHR 0x5C, CHR ''f'']
      else if c = 13 then js [CHR 0x5C, CHR ''r''] else if c = 34 then js [CHR 0x5C, CHR 0x22]
      else if c = 92 then js [CHR 0x5C, CHR 0x5C] else if c < 32 then unicode_escape c else [c])"

fun quoted :: "jstr \<Rightarrow> jstr" where
  "quoted [] = []"
| "quoted (c # s) =
     (if is_high_surrogate c then
        (case s of
           n # s' \<Rightarrow> if is_low_surrogate n then c # n # quoted s' else unicode_escape c @ quoted s
         | [] \<Rightarrow> unicode_escape c)
      else if is_low_surrogate c then unicode_escape c @ quoted s
      else escape_char c @ quoted s)"

definition json_string :: "jstr \<Rightarrow> jstr" where
  "json_string s = js [CHR 0x22] @ quoted s @ js [CHR 0x22]"

fun join_comma :: "jstr list \<Rightarrow> jstr" where
  "join_comma [] = []"
| "join_comma [t] = t"
| "join_comma (t # u # ts) = t @ js '','' @ join_comma (u # ts)"

fun json_text :: "(rat \<Rightarrow> jstr) \<Rightarrow> json \<Rightarrow> jstr" where
  "json_text numText JNull = js ''null''"
| "json_text numText (JBool b) = (if b then js ''true'' else js ''false'')"
| "json_text numText (JNum q) = numText q"
| "json_text numText (JStr s) = json_string s"
| "json_text numText (JArr xs) = js ''['' @ join_comma (map (json_text numText) xs) @ js '']''"
| "json_text numText (JObj kvs) =
     js ''{'' @ join_comma (map (\<lambda>(k, v). json_string k @ js '':'' @ json_text numText v) kvs) @ js ''}''"

section \<open>UTF-8\<close>

definition unit_bytes :: "jchar \<Rightarrow> 8 word list" where
  "unit_bytes c =
     (let cp = unat c in
      if cp < 0x80 then [word_of_nat cp]
      else if cp < 0x800 then [word_of_nat (0xC0 + cp div 64), word_of_nat (0x80 + cp mod 64)]
      else [word_of_nat (0xE0 + cp div 4096), word_of_nat (0x80 + cp div 64 mod 64), word_of_nat (0x80 + cp mod 64)])"

definition pair_bytes :: "jchar \<Rightarrow> jchar \<Rightarrow> 8 word list" where
  "pair_bytes h l =
     (let cp = 0x10000 + (unat h - 0xD800) * 0x400 + (unat l - 0xDC00) in
      [word_of_nat (0xF0 + cp div 262144), word_of_nat (0x80 + cp div 4096 mod 64),
       word_of_nat (0x80 + cp div 64 mod 64), word_of_nat (0x80 + cp mod 64)])"

text \<open>A lone surrogate is encoded as the replacement character.\<close>

definition replacement_bytes :: "8 word list" where
  "replacement_bytes = [0xEF, 0xBF, 0xBD]"

fun utf8 :: "jstr \<Rightarrow> 8 word list" where
  "utf8 [] = []"
| "utf8 (c # s) =
     (if is_high_surrogate c then
        (case s of
           n # s' \<Rightarrow> if is_low_surrogate n then pair_bytes c n @ utf8 s' else replacement_bytes @ utf8 s
         | [] \<Rightarrow> replacement_bytes)
      else if is_low_surrogate c then replacement_bytes @ utf8 s
      else unit_bytes c @ utf8 s)"

section \<open>The size of the text\<close>

definition ascii :: "jstr \<Rightarrow> bool" where
  "ascii t \<longleftrightarrow> (\<forall>c \<in> set t. c < 128)"

lemma ascii_simps [simp]:
  "ascii []" "ascii (c # t) \<longleftrightarrow> c < 128 \<and> ascii t" "ascii (s @ t) \<longleftrightarrow> ascii s \<and> ascii t"
  by (auto simp: ascii_def)

lemma not_surrogate_small [simp]: "c < 128 \<Longrightarrow> \<not> is_high_surrogate c" "c < 128 \<Longrightarrow> \<not> is_low_surrogate c"
  by (auto simp: surrogate_iff word_less_nat_alt)

lemma utf8_ascii: "ascii a \<Longrightarrow> length (utf8 (a @ t)) = length a + length (utf8 t)"
  by (induction a) (auto simp: unit_bytes_def word_less_nat_alt)

lemma ascii_digit [simp]: "d < 16 \<Longrightarrow> ascii [hex_char d]"
proof -
  assume "d < 16"
  hence "unat (hex_char d) < 128"
    using unat_word16 [of "48 + d"] unat_word16 [of "87 + d"] by (auto simp: hex_char_def)
  thus ?thesis by (simp add: word_less_nat_alt)
qed

lemma ascii_hex [simp]: "ascii (hex_digits w n)"
  by (induction w arbitrary: n) (auto simp del: ascii_simps(2))

lemma ascii_show_nat [simp]: "ascii (show_nat n)"
  by (induction n rule: show_nat.induct) (subst show_nat.simps, auto simp del: ascii_simps(2))

lemma ascii_js: "\<forall>c \<in> set s. of_char c < (128 :: nat) \<Longrightarrow> ascii (js s)"
  by (induction s) (auto simp: js_unfold word_less_nat_alt)

lemma unicode_escape_size: "ascii (unicode_escape c)" "length (unicode_escape c) = 6"
  by (simp_all add: unicode_escape_def ascii_js)


lemma escape_char_size:
  assumes "\<not> is_high_surrogate c" "\<not> is_low_surrogate c"
  shows "length (utf8 (escape_char c @ t)) = char_bytes c + length (utf8 t)"
proof (cases "c \<in> {8, 9, 10, 12, 13, 34, 92} \<or> c < 32")
  case True
  have "ascii (escape_char c) \<and> length (escape_char c) = char_bytes c"
    using True unicode_escape_size [of c] by (auto simp: escape_char_def char_bytes_def ascii_js)
  thus ?thesis by (simp add: utf8_ascii)
next
  case False
  hence "escape_char c = [c]" by (auto simp: escape_char_def)
  thus ?thesis using False assms
    by (auto simp: char_bytes_def unit_bytes_def Let_def word_less_nat_alt)
qed

lemma utf8_pair: "is_high_surrogate h \<Longrightarrow> is_low_surrogate l \<Longrightarrow> length (utf8 (h # l # t)) = 4 + length (utf8 t)"
  by (simp add: pair_bytes_def Let_def)

lemma unicode_escape_utf8: "length (utf8 (unicode_escape c @ t)) = 6 + length (utf8 t)"
  by (simp add: utf8_ascii unicode_escape_size)

declare utf8.simps(2) [simp del]

lemma quoted_size: "length (utf8 (quoted s @ t)) = string_bytes s + length (utf8 t)"
proof (induction s arbitrary: t rule: quoted.induct)
  case (2 c s)
  show ?case
  proof (cases "is_high_surrogate c")
    case True
    show ?thesis
    proof (cases s)
      case Nil
      thus ?thesis using True by (simp add: unicode_escape_utf8)
    next
      case (Cons n s')
      thus ?thesis using True 2(1,2) by (cases "is_low_surrogate n") (simp_all add: unicode_escape_utf8 utf8_pair)
    qed
  next
    case False
    thus ?thesis using 2(3,4) by (cases "is_low_surrogate c") (simp_all add: unicode_escape_utf8 escape_char_size)
  qed
qed simp

lemma json_string_size: "length (utf8 (json_string s @ t)) = 2 + string_bytes s + length (utf8 t)"
  by (simp add: json_string_def utf8_ascii ascii_js quoted_size)

lemma join_comma_size:
  assumes "\<And>x t. x \<in> set xs \<Longrightarrow> length (utf8 (f x @ t)) = g x + length (utf8 t)"
  shows "length (utf8 (join_comma (map f xs) @ t)) = sum_list (map g xs) + (length xs - 1) + length (utf8 t)"
  using assms
proof (induction xs arbitrary: t)
  case (Cons x xs)
  thus ?case by (cases xs) (auto simp: utf8_ascii ascii_js)
qed simp

lemma json_text_size_append:
  assumes "\<forall>q. ascii (numText q)"
  shows "length (utf8 (json_text numText v @ t)) = json_bytes (\<lambda>q. length (numText q)) v + length (utf8 t)"
  using assms
proof (induction v arbitrary: t)
  case (JArr xs)
  have "length (utf8 (join_comma (map (json_text numText) xs) @ u)) =
      sum_list (map (json_bytes (\<lambda>q. length (numText q))) xs) + (length xs - 1) + length (utf8 u)" for u
    using JArr by (intro join_comma_size) auto
  thus ?case by (simp add: utf8_ascii ascii_js)
next
  case (JObj kvs)
  have "length (utf8 (join_comma (map (\<lambda>(k, v). json_string k @ js '':'' @ json_text numText v) kvs) @ u)) =
      sum_list (map (\<lambda>(k, v). 2 + string_bytes k + 1 + json_bytes (\<lambda>q. length (numText q)) v) kvs) +
      (length kvs - 1) + length (utf8 u)" for u
    using JObj by (intro join_comma_size) (fastforce simp: json_string_size utf8_ascii ascii_js)
  thus ?case by (simp add: utf8_ascii ascii_js)
qed (auto simp: utf8_ascii ascii_js json_string_size)

text \<open>The two ways to measure a value agree.\<close>

lemma json_text_size:
  assumes "\<forall>q. ascii (numText q)"
  shows "length (utf8 (json_text numText v)) = json_bytes (\<lambda>q. length (numText q)) v"
  using json_text_size_append [OF assms, of v "[]"] by simp

end
