(* ===== verification/Sdk_Cap.thy ===== *)
theory Sdk_Cap
  imports Json_Text Sdk_Config
begin

text \<open>
  The size cap of \<^verbatim>\<open>platform/telemetry-sdk/src/payload-safety.ts\<close>: what a field is cut down to when
  its JSON text is over the limit.  Values are JSON here, since the cap runs after sanitizing;
  \<^const>\<open>None\<close> is \<^verbatim>\<open>undefined\<close>.
\<close>

section \<open>Objects under construction\<close>

text \<open>The array indices among property names: canonical decimals below \<open>2\<^sup>3\<^sup>2 - 1\<close>.\<close>

definition is_digit :: "jchar \<Rightarrow> bool" where
  "is_digit c \<longleftrightarrow> 48 \<le> c \<and> c \<le> 57"

definition decimal_value :: "jstr \<Rightarrow> nat" where
  "decimal_value s = foldl (\<lambda>n c. 10 * n + (unat c - 48)) 0 s"

definition array_index :: "jstr \<Rightarrow> nat option" where
  "array_index k =
     (if k \<noteq> [] \<and> list_all is_digit k \<and> (hd k \<noteq> 48 \<or> length k = 1) \<and> decimal_value k < 2 ^ 32 - 1
      then Some (decimal_value k) else None)"

fun insert_index :: "nat \<Rightarrow> jstr \<times> 'v \<Rightarrow> (jstr \<times> 'v) list \<Rightarrow> (jstr \<times> 'v) list" where
  "insert_index i e [] = [e]"
| "insert_index i e (x # xs) =
     (case array_index (fst x) of
        Some j \<Rightarrow> if j < i then x # insert_index i e xs else e # x # xs
      | None \<Rightarrow> e # x # xs)"

text \<open>\<^verbatim>\<open>out[key] = value\<close> on an object literal: an existing key keeps its place, array indices come first
  in ascending order, other keys in the order they were added, and \<^verbatim>\<open>__proto__\<close> is not an own key.\<close>

definition js_put :: "jstr \<Rightarrow> 'v \<Rightarrow> (jstr \<times> 'v) list \<Rightarrow> (jstr \<times> 'v) list" where
  "js_put k v out =
     (if k = js ''__proto__'' then out
      else if k \<in> fst ` set out then map (\<lambda>(k', v'). if k' = k then (k', v) else (k', v')) out
      else case array_index k of Some i \<Rightarrow> insert_index i (k, v) out | None \<Rightarrow> out @ [(k, v)])"

section \<open>Measuring\<close>

definition REDACTED :: jstr where "REDACTED = js ''[REDACTED]''"
definition TRUNCATION_KEY :: jstr where "TRUNCATION_KEY = js ''__lengenticTruncated''"
definition REPLACED_KEY :: jstr where "REPLACED_KEY = js ''__lengenticValue''"
definition OVERFLOW_KEY :: jstr where "OVERFLOW_KEY = js ''__lengenticOverflow''"
definition TRUNCATION_SUFFIX :: jstr where "TRUNCATION_SUFFIX = 0x2026 # js ''[truncated]''"

text \<open>A sanitized value always has a JSON text, so the guard of \<^verbatim>\<open>safeStringify\<close> never fires.\<close>

definition safeStringify :: "(rat \<Rightarrow> jstr) \<Rightarrow> json option \<Rightarrow> jstr" where
  "safeStringify numText v = (case v of Some w \<Rightarrow> json_text numText w | None \<Rightarrow> js ''null'')"

definition jsonBytes :: "(rat \<Rightarrow> jstr) \<Rightarrow> json option \<Rightarrow> nat" where
  "jsonBytes numText v = length (utf8 (safeStringify numText v))"

definition isRecord :: "json \<Rightarrow> bool" where
  "isRecord v = (case v of JObj _ \<Rightarrow> True | _ \<Rightarrow> False)"

definition moreMark :: "nat \<Rightarrow> string \<Rightarrow> jstr" where
  "moreMark n noun = js ''[truncated: '' @ show_nat n @ js '' more '' @ js noun @ js ''(s)]''"

section \<open>Cutting a string\<close>

definition prefixOf :: "jstr \<Rightarrow> nat \<Rightarrow> jstr" where
  "prefixOf text len =
     (let cut = take len text
      in if cut \<noteq> [] \<and> 0xd800 \<le> last cut \<and> last cut \<le> 0xdbff then butlast cut else cut)"

function truncate_search :: "(rat \<Rightarrow> jstr) \<Rightarrow> jstr \<Rightarrow> nat \<Rightarrow> nat \<Rightarrow> nat \<Rightarrow> nat" where
  "truncate_search numText text budget low high =
     (if low < high then
        (let mid = (low + high + 1) div 2
         in if jsonBytes numText (Some (JStr (prefixOf text mid @ TRUNCATION_SUFFIX))) \<le> budget
            then truncate_search numText text budget mid high
            else truncate_search numText text budget low (mid - 1))
      else low)"
  by auto
termination
  by (relation "measure (\<lambda>(_, _, _, low, high). high - low)") auto

declare truncate_search.simps [simp del]

definition truncateString :: "(rat \<Rightarrow> jstr) \<Rightarrow> jstr \<Rightarrow> nat \<Rightarrow> jstr" where
  "truncateString numText text budget =
     prefixOf text (truncate_search numText text budget 0 (min (length text) budget)) @ TRUNCATION_SUFFIX"

section \<open>Shrinking\<close>

text \<open>The loops of \<^verbatim>\<open>shrinkList\<close> and \<^verbatim>\<open>shrinkRecord\<close> take what has been kept and its size.\<close>

function (sequential) shrink :: "(rat \<Rightarrow> jstr) \<Rightarrow> json \<Rightarrow> nat \<Rightarrow> json"
  and shrinkList_loop :: "(rat \<Rightarrow> jstr) \<Rightarrow> nat \<Rightarrow> nat \<Rightarrow> json list \<Rightarrow> json list \<Rightarrow> nat \<Rightarrow> json list"
  and shrinkRecord_loop :: "(rat \<Rightarrow> jstr) \<Rightarrow> nat \<Rightarrow> nat \<Rightarrow> (jstr \<times> json) list \<Rightarrow> (jstr \<times> json) list \<Rightarrow> nat \<Rightarrow> nat \<Rightarrow> (jstr \<times> json) list"
where
  "shrink numText v budget =
     (if jsonBytes numText (Some v) \<le> budget then v
      else case v of
        JStr s \<Rightarrow> JStr (truncateString numText s budget)
      | JArr items \<Rightarrow>
          (let reserve = jsonBytes numText (Some (JStr (moreMark (length items) ''item''))) + 1;
               out = shrinkList_loop numText budget reserve items [] 2
           in JArr (out @ [JStr (moreMark (length items - length out) ''item'')]))
      | JObj record \<Rightarrow>
          (let reserve = jsonBytes numText (Some (JStr TRUNCATION_KEY)) + 6;
               out = shrinkRecord_loop numText budget reserve record [] 2 0
           in JObj (js_put TRUNCATION_KEY (JBool True) out))
      | _ \<Rightarrow> JStr (truncateString numText (safeStringify numText (Some v)) budget))"
| "shrinkList_loop numText budget reserve [] out used = out"
| "shrinkList_loop numText budget reserve (item # items) out used =
     (let piece = shrink numText item (budget - used - reserve);
          cost = jsonBytes numText (Some piece) + (if out \<noteq> [] then 1 else 0)
      in if budget < used + cost + reserve then out
         else shrinkList_loop numText budget reserve items (out @ [piece]) (used + cost))"
| "shrinkRecord_loop numText budget reserve [] out used cnt = out"
| "shrinkRecord_loop numText budget reserve (entry # entries) out used cnt =
     (case entry of (key, item) \<Rightarrow>
        (let piece = shrink numText item (budget - used - reserve);
             cost = jsonBytes numText (Some (JStr key)) + 1 + jsonBytes numText (Some piece) + (if 0 < cnt then 1 else 0)
         in if budget < used + cost + reserve then out
            else shrinkRecord_loop numText budget reserve entries (js_put key piece out) (used + cost) (cnt + 1)))"
  by pat_completeness auto
termination
  by (relation "measure (\<lambda>x. case x of Inl (_, v, _) \<Rightarrow> size v
      | Inr (Inl (_, _, _, xs, _, _)) \<Rightarrow> size_list size xs
      | Inr (Inr (_, _, _, kvs, _, _, _)) \<Rightarrow> size_list (size_prod (\<lambda>_. 0) size) kvs)")
     auto

declare shrink.simps [simp del]

definition hardPreview :: "(rat \<Rightarrow> jstr) \<Rightarrow> json option \<Rightarrow> nat \<Rightarrow> json" where
  "hardPreview numText v maxBytes =
     (case v of
        Some (JObj _) \<Rightarrow> JObj [(TRUNCATION_KEY, JBool True)]
      | _ \<Rightarrow> JStr (truncateString numText (safeStringify numText v) maxBytes))"

record CappedField =
  cp_value :: "json option"
  cp_truncated :: bool
  cp_bytes :: nat
  cp_originalBytes :: nat

text \<open>\<^verbatim>\<open>undefined\<close> reaches the last line of \<^verbatim>\<open>shrink\<close>.\<close>

definition shrink_opt :: "(rat \<Rightarrow> jstr) \<Rightarrow> json option \<Rightarrow> nat \<Rightarrow> json option" where
  "shrink_opt numText v budget =
     (case v of
        Some w \<Rightarrow> Some (shrink numText w budget)
      | None \<Rightarrow> if jsonBytes numText None \<le> budget then None
                else Some (JStr (truncateString numText (safeStringify numText None) budget)))"

definition capField :: "(rat \<Rightarrow> jstr) \<Rightarrow> json option \<Rightarrow> nat \<Rightarrow> bool \<Rightarrow> CappedField" where
  "capField numText v maxBytes elided =
     (let originalBytes = jsonBytes numText v
      in if originalBytes \<le> maxBytes
         then \<lparr>cp_value = v, cp_truncated = elided, cp_bytes = originalBytes, cp_originalBytes = originalBytes\<rparr>
         else
           let shrunk = shrink_opt numText v maxBytes;
               bytes = jsonBytes numText shrunk;
               kept = (if maxBytes < bytes then Some (hardPreview numText v maxBytes) else shrunk)
           in \<lparr>cp_value = kept, cp_truncated = True, cp_bytes = jsonBytes numText kept,
                cp_originalBytes = originalBytes\<rparr>)"

section \<open>Cutting is exact\<close>

lemma jsonBytes_string: "jsonBytes numText (Some (JStr s)) = 2 + string_bytes s"
  using json_string_size [of s "[]"] by (simp add: jsonBytes_def safeStringify_def)

lemma string_bytes_append:
  assumes "a = [] \<or> b = [] \<or> \<not> is_high_surrogate (last a) \<or> \<not> is_low_surrogate (hd b)"
  shows "string_bytes (a @ b) = string_bytes a + string_bytes b"
  using assms
proof (induction a rule: string_bytes.induct)
  case (2 c s)
  show ?case
  proof (cases s)
    case Nil
    thus ?thesis using 2(5) by (cases b) auto
  next
    case (Cons n s')
    hence "s' = [] \<or> last (c # s) = last s'" "last (c # s) = last s" by auto
    thus ?thesis using 2 Cons by (cases "is_high_surrogate c"; cases "is_low_surrogate n"; cases "s' = []") auto
  qed
qed simp

lemma char_bytes_pos: "1 \<le> char_bytes c"
  by (simp add: char_bytes_def)

lemma string_bytes_length: "length s \<le> string_bytes s"
proof (induction s rule: string_bytes.induct)
  case (2 c s)
  thus ?case using char_bytes_pos [of c] by (cases s; cases "is_high_surrogate c"; cases "is_low_surrogate c") auto
qed simp

lemma prefixOf_0 [simp]: "prefixOf u 0 = []"
  by (simp add: prefixOf_def)

lemma take_snoc_last: "n < length u \<Longrightarrow> take (Suc n) u = take n u @ [u ! n]"
  by (simp add: take_Suc_conv_app_nth)

text \<open>A prefix ends where it was asked to, or one unit earlier, before a high surrogate.\<close>

lemma prefixOf_cases:
  obtains (whole) "prefixOf u n = take n u" "take n u = [] \<or> \<not> is_high_surrogate (last (take n u))"
  | (cut) m where "m < length u" "min n (length u) = Suc m" "prefixOf u n = take m u" "is_high_surrogate (u ! m)"
proof (cases "take n u \<noteq> [] \<and> is_high_surrogate (last (take n u))")
  case True
  then obtain m where m: "min n (length u) = Suc m" by (cases n; cases u) auto
  hence "take n u = take (Suc m) u" "m < length u" by (metis min.commute take_take take_all_iff nle_le, linarith)
  thus thesis using True m cut by (simp add: prefixOf_def Let_def take_snoc_last is_high_surrogate_def)
next
  case False
  thus thesis using whole by (auto simp: prefixOf_def Let_def is_high_surrogate_def)
qed

lemma prefixOf_length: "length (prefixOf u n) \<le> n" "n \<le> length u \<Longrightarrow> n \<le> length (prefixOf u n) + 1"
  by (rule prefixOf_cases [where n = n and u = u]; simp)+

lemma last_take: "0 < m \<Longrightarrow> m \<le> length u \<Longrightarrow> last (take m u) = u ! (m - 1)"
  by (cases m) (simp_all add: take_snoc_last)

lemma take_bytes_mono:
  assumes "m \<le> n" "\<not> (0 < m \<and> m < length u \<and> is_high_surrogate (u ! (m - 1)) \<and> is_low_surrogate (u ! m))"
  shows "string_bytes (take m u) \<le> string_bytes (take n u)"
proof -
  define r where "r = take (n - m) (drop m u)"
  have n: "take n u = take m u @ r" using assms(1) take_add [of m "n - m" u] by (simp add: r_def)
  have "take m u = [] \<or> r = [] \<or> \<not> is_high_surrogate (last (take m u)) \<or> \<not> is_low_surrogate (hd r)"
  proof (cases "take m u = [] \<or> r = []")
    case False
    hence m: "0 < m" "m < length u" "m < n" by (auto simp: r_def)
    hence "last (take m u) = u ! (m - 1)" "hd r = u ! m" by (simp_all add: r_def last_take hd_take hd_drop_conv_nth)
    thus ?thesis using assms(2) m by auto
  qed auto
  thus ?thesis by (simp add: n string_bytes_append)
qed

lemma not_high_and_low: "is_high_surrogate c \<Longrightarrow> \<not> is_low_surrogate c"
  by (simp add: surrogate_iff)

lemma prefixOf_bytes_mono:
  assumes "m \<le> n"
  shows "string_bytes (prefixOf u m) \<le> string_bytes (prefixOf u n)"
proof -
  obtain i where i: "prefixOf u m = take i u" "i \<le> m" "i \<le> length u"
    "\<not> (0 < i \<and> i < length u \<and> is_high_surrogate (u ! (i - 1)) \<and> is_low_surrogate (u ! i))"
    "i = min m (length u) \<or> Suc i = min m (length u) \<and> is_high_surrogate (u ! i)"
  proof (rule prefixOf_cases [where n = m and u = u])
    assume "prefixOf u m = take m u" "take m u = [] \<or> \<not> is_high_surrogate (last (take m u))"
    thus thesis using that [of "min m (length u)"] last_take [of m u]
      by (cases "m \<le> length u"; cases "m = 0") auto
  next
    fix k assume "k < length u" "min m (length u) = Suc k" "prefixOf u m = take k u" "is_high_surrogate (u ! k)"
    thus thesis using that [of k] not_high_and_low by auto
  qed
  obtain j where j: "prefixOf u n = take j u" "i \<le> j"
  proof (rule prefixOf_cases [where n = n and u = u])
    assume "prefixOf u n = take n u"
    thus thesis using that i(2) assms by simp
  next
    fix k assume k: "k < length u" "min n (length u) = Suc k" "prefixOf u n = take k u" "is_high_surrogate (u ! k)"
    have "i \<le> k"
    proof (rule ccontr)
      assume "\<not> i \<le> k"
      hence "i = Suc k" using i(5) k(2) assms by linarith
      hence "prefixOf u m = take (Suc k) u" "min m (length u) = Suc k" using i k assms by auto
      moreover from this(2) have "take m u = take (Suc k) u" by (metis min.commute take_take take_all_iff nle_le)
      ultimately show False using k(1,4) by (auto simp: prefixOf_def Let_def is_high_surrogate_def take_snoc_last split: if_splits)
    qed
    thus thesis using that k by blast
  qed
  show ?thesis unfolding i(1) j(1) using take_bytes_mono [OF j(2) i(4)] .
qed

lemma suffix_bytes: "string_bytes (p @ TRUNCATION_SUFFIX) = string_bytes p + 14"
proof -
  have "\<not> is_low_surrogate (hd TRUNCATION_SUFFIX)" by (simp add: TRUNCATION_SUFFIX_def is_low_surrogate_def)
  hence "string_bytes (p @ TRUNCATION_SUFFIX) = string_bytes p + string_bytes TRUNCATION_SUFFIX"
    by (intro string_bytes_append) auto
  moreover have "string_bytes TRUNCATION_SUFFIX = 14"
    by (simp add: TRUNCATION_SUFFIX_def js_unfold char_bytes_def is_high_surrogate_def is_low_surrogate_def)
  ultimately show ?thesis by simp
qed

text \<open>The size of a string that is cut after \<open>n\<close> units.\<close>

lemma cut_bytes: "jsonBytes numText (Some (JStr (prefixOf u n @ TRUNCATION_SUFFIX))) = string_bytes (prefixOf u n) + 16"
  by (simp add: jsonBytes_string suffix_bytes)

lemma truncate_search_correct:
  assumes "low \<le> high" "string_bytes (prefixOf u low) + 16 \<le> budget"
  shows "low \<le> truncate_search numText u budget low high \<and> truncate_search numText u budget low high \<le> high \<and>
    string_bytes (prefixOf u (truncate_search numText u budget low high)) + 16 \<le> budget \<and>
    (\<forall>n. truncate_search numText u budget low high < n \<and> n \<le> high \<longrightarrow> budget < string_bytes (prefixOf u n) + 16)"
  using assms
proof (induction numText u budget low high rule: truncate_search.induct)
  case (1 numText u budget low high)
  show ?case
  proof (cases "low < high")
    case False
    thus ?thesis using 1(3,4) by (subst (1 2 3 4) truncate_search.simps) auto
  next
    case True
    define mid where "mid = (low + high + 1) div 2"
    have m: "low < mid" "mid \<le> high" using True by (auto simp: mid_def)
    show ?thesis
    proof (cases "string_bytes (prefixOf u mid) + 16 \<le> budget")
      case fits: True
      hence "truncate_search numText u budget low high = truncate_search numText u budget mid high"
        using True by (subst truncate_search.simps) (simp add: cut_bytes mid_def)
      thus ?thesis using 1(1) [OF True mid_def] fits m by (auto simp: cut_bytes)
    next
      case over: False
      hence eq: "truncate_search numText u budget low high = truncate_search numText u budget low (mid - 1)"
        using True by (subst truncate_search.simps) (simp add: cut_bytes mid_def)
      have beyond: "budget < string_bytes (prefixOf u n) + 16" if "mid - 1 < n" for n
        using prefixOf_bytes_mono [of mid n u] that over m(1) by linarith
      have ih: "low \<le> truncate_search numText u budget low (mid - 1)"
        "truncate_search numText u budget low (mid - 1) \<le> mid - 1"
        "string_bytes (prefixOf u (truncate_search numText u budget low (mid - 1))) + 16 \<le> budget"
        "\<forall>n. truncate_search numText u budget low (mid - 1) < n \<and> n \<le> mid - 1 \<longrightarrow> budget < string_bytes (prefixOf u n) + 16"
        using 1(2) [OF True mid_def] over m 1(4) by (simp_all add: cut_bytes)
      show ?thesis unfolding eq using ih beyond m by (meson le_trans diff_le_self not_le_imp_less)
    qed
  qed
qed


lemma truncateString_fits:
  assumes "16 \<le> budget"
  shows "jsonBytes numText (Some (JStr (truncateString numText u budget))) \<le> budget"
  using truncate_search_correct [of 0 "min (length u) budget" u budget numText] assms
  by (simp add: truncateString_def cut_bytes)

lemma safe_take:
  assumes "\<not> hasNulOrLoneSurrogate u" "take n u = [] \<or> \<not> is_high_surrogate (last (take n u))"
    "\<not> hasNulOrLoneSurrogate t"
  shows "\<not> hasNulOrLoneSurrogate (take n u @ t)"
  using assms
proof (induction u arbitrary: n rule: hasNulOrLoneSurrogate.induct)
  case (2 c s)
  show ?case
  proof (cases n)
    case (Suc m)
    show ?thesis
    proof (cases "is_high_surrogate c")
      case True
      then obtain l s' where s: "s = l # s'" "is_low_surrogate l" "\<not> hasNulOrLoneSurrogate s'" "c \<noteq> 0"
        using 2(3) by (auto split: list.splits if_splits)
      obtain m' where m: "m = Suc m'" using 2(4) True Suc by (cases m) auto
      have "take m' s' = [] \<or> \<not> is_high_surrogate (last (take m' s'))" using 2(4) Suc m s(1) by (auto split: if_splits)
      hence "\<not> hasNulOrLoneSurrogate (take m' s' @ t)" using 2(1) [of l s' m'] s True 2(5) by auto
      thus ?thesis using s True Suc m by simp
    next
      case False
      hence s: "c \<noteq> 0" "\<not> is_low_surrogate c" "\<not> hasNulOrLoneSurrogate s" using 2(3) by (auto split: if_splits)
      have "take m s = [] \<or> \<not> is_high_surrogate (last (take m s))" using 2(4) Suc by (auto split: if_splits)
      hence "\<not> hasNulOrLoneSurrogate (take m s @ t)" using 2(2) [of m] s False 2(5) by auto
      thus ?thesis using s False Suc by simp
    qed
  qed (use 2 in simp)
qed simp

lemma high_then_low:
  assumes "\<not> hasNulOrLoneSurrogate u" "Suc m < length u" "is_high_surrogate (u ! m)"
  shows "is_low_surrogate (u ! Suc m)"
  using assms
proof (induction u arbitrary: m rule: hasNulOrLoneSurrogate.induct)
  case (2 c s)
  show ?case
  proof (cases m)
    case 0
    thus ?thesis using 2(3,4,5) by (auto split: list.splits if_splits)
  next
    case (Suc k)
    show ?thesis
    proof (cases "is_high_surrogate c")
      case True
      then obtain l s' where s: "s = l # s'" "is_low_surrogate l" "\<not> hasNulOrLoneSurrogate s'" "c \<noteq> 0"
        using 2(3) by (auto split: list.splits if_splits)
      obtain j where "k = Suc j" using 2(5) Suc s not_high_and_low by (cases k) auto
      thus ?thesis using 2(1) [of l s' j] 2(4,5) s True Suc by auto
    next
      case False
      thus ?thesis using 2(2) [of k] 2(3,4,5) Suc by (auto split: if_splits)
    qed
  qed
qed simp

lemma safe_prefix:
  assumes "\<not> hasNulOrLoneSurrogate u" "\<not> hasNulOrLoneSurrogate t"
  shows "\<not> hasNulOrLoneSurrogate (prefixOf u n @ t)"
proof (rule prefixOf_cases [where n = n and u = u])
  assume "prefixOf u n = take n u" "take n u = [] \<or> \<not> is_high_surrogate (last (take n u))"
  thus ?thesis using safe_take [OF assms(1) _ assms(2)] by simp
next
  fix m assume m: "m < length u" "prefixOf u n = take m u" "is_high_surrogate (u ! m)"
  have "take m u = [] \<or> \<not> is_high_surrogate (last (take m u))"
  proof (cases m)
    case (Suc k)
    hence "\<not> is_high_surrogate (u ! k)" using high_then_low [OF assms(1), of k] m not_high_and_low by auto
    thus ?thesis using last_take [of m u] m(1) Suc by simp
  qed simp
  thus ?thesis using safe_take [OF assms(1) _ assms(2)] m(2) by simp
qed

lemma safe_suffix: "\<not> hasNulOrLoneSurrogate TRUNCATION_SUFFIX"
  by (simp add: TRUNCATION_SUFFIX_def js_unfold is_high_surrogate_def is_low_surrogate_def)

text \<open>A string that is too long is cut at the best place: the result fits, it is a prefix of the text
  with the marker, no other cut that fits keeps more, and text that the server can store stays so,
  since no surrogate pair is split.\<close>

theorem truncation_is_longest_prefix:
  assumes "16 \<le> budget"
  shows "\<exists>k. truncateString numText u budget = prefixOf u k @ TRUNCATION_SUFFIX \<and>
      jsonBytes numText (Some (JStr (prefixOf u k @ TRUNCATION_SUFFIX))) \<le> budget \<and>
      (\<forall>n \<le> length u. jsonBytes numText (Some (JStr (prefixOf u n @ TRUNCATION_SUFFIX))) \<le> budget \<longrightarrow>
         string_bytes (prefixOf u n) \<le> string_bytes (prefixOf u k)) \<and>
      (\<not> hasNulOrLoneSurrogate u \<longrightarrow> \<not> hasNulOrLoneSurrogate (truncateString numText u budget))"
proof -
  define k where "k = truncate_search numText u budget 0 (min (length u) budget)"
  have k: "k \<le> min (length u) budget" "string_bytes (prefixOf u k) + 16 \<le> budget"
    "\<forall>n. k < n \<and> n \<le> min (length u) budget \<longrightarrow> budget < string_bytes (prefixOf u n) + 16"
    using truncate_search_correct [of 0 "min (length u) budget" u budget numText] assms by (simp_all add: k_def)
  have best: "string_bytes (prefixOf u n) \<le> string_bytes (prefixOf u k)"
    if n: "n \<le> length u" "string_bytes (prefixOf u n) + 16 \<le> budget" for n
  proof -
    have "n \<le> budget" using prefixOf_length(2) [of n u] string_bytes_length [of "prefixOf u n"] n by linarith
    hence "n \<le> k" using k(3) n by (meson min.boundedI not_le)
    thus ?thesis by (rule prefixOf_bytes_mono)
  qed
  have t: "truncateString numText u budget = prefixOf u k @ TRUNCATION_SUFFIX" by (simp add: truncateString_def k_def)
  show ?thesis using t k(2) best safe_prefix [OF _ safe_suffix, of u k] by (intro exI [of _ k]) (simp add: cut_bytes)
qed

section \<open>The cap holds\<close>

lemma jsonBytes_Some: "\<forall>q. ascii (numText q) \<Longrightarrow> jsonBytes numText (Some v) = json_bytes (\<lambda>q. length (numText q)) v"
  by (simp add: jsonBytes_def safeStringify_def json_text_size)

lemma insert_index_mset: "mset (insert_index i e xs) = add_mset e (mset xs)"
  by (induction xs) (auto split: option.split)

lemma insert_index_keys: "fst ` set (insert_index i e xs) = insert (fst e) (fst ` set xs)"
  using arg_cong [OF insert_index_mset, of "\<lambda>m. fst ` set_mset m" i e xs] by simp

definition entry_bytes :: "(rat \<Rightarrow> nat) \<Rightarrow> jstr \<times> json \<Rightarrow> nat" where
  "entry_bytes num e = 2 + string_bytes (fst e) + 1 + json_bytes num (snd e)"

lemma json_bytes_object: "json_bytes num (JObj kvs) = 2 + sum_list (map (entry_bytes num) kvs) + (length kvs - 1)"
proof -
  have "entry_bytes num = (\<lambda>(k, v). 2 + string_bytes k + 1 + json_bytes num v)" by (auto simp: entry_bytes_def)
  thus ?thesis by simp
qed

lemma object_bytes_add:
  assumes "mset ys = add_mset e (mset xs)"
  shows "json_bytes num (JObj ys) = json_bytes num (JObj xs) + entry_bytes num e + (if xs = [] then 0 else 1)"
proof -
  have "mset (map (entry_bytes num) ys) = mset (entry_bytes num e # map (entry_bytes num) xs)"
    using arg_cong [OF assms, of "image_mset (entry_bytes num)"] by simp
  hence "sum_list (map (entry_bytes num) ys) = entry_bytes num e + sum_list (map (entry_bytes num) xs)"
    by (metis sum_mset_sum_list sum_list.Cons)
  moreover have "length ys = Suc (length xs)" using arg_cong [OF assms, of size] by simp
  ultimately show ?thesis by (cases xs) (simp_all add: json_bytes_object del: json_bytes.simps)
qed

lemma overwrite_bytes:
  assumes "distinct (map fst xs)"
  shows "sum_list (map (entry_bytes num) (map (\<lambda>(k', v'). if k' = k then (k', v) else (k', v')) xs))
    \<le> sum_list (map (entry_bytes num) xs) + entry_bytes num (k, v)"
  using assms
proof (induction xs)
  case (Cons x xs)
  show ?case
  proof (cases "fst x = k")
    case True
    hence "fst y \<noteq> k" if "y \<in> set xs" for y using Cons.prems that by (auto simp: image_iff)
    hence "map (\<lambda>(k', v'). if k' = k then (k', v) else (k', v')) xs = xs" by (intro map_idI) (auto simp: case_prod_unfold)
    thus ?thesis using True by (cases x) simp
  qed (use Cons in \<open>simp add: case_prod_unfold\<close>)
qed simp

lemma js_put_bytes:
  assumes "distinct (map fst out)"
  shows "json_bytes num (JObj (js_put k v out)) \<le>
    json_bytes num (JObj out) + entry_bytes num (k, v) + (if out = [] then 0 else 1)"
proof (cases "k = js ''__proto__'' \<or> k \<in> fst ` set out")
  case True
  thus ?thesis using overwrite_bytes [OF assms, of num k v]
    by (auto simp: js_put_def json_bytes_object simp del: json_bytes.simps)
next
  case False
  have "mset (js_put k v out) = add_mset (k, v) (mset out)"
    using False by (auto simp: js_put_def insert_index_mset split: option.split)
  from object_bytes_add [OF this, of num] show ?thesis by simp
qed

lemma js_put_distinct:
  assumes "distinct (map fst out)"
  shows "distinct (map fst (js_put k v out))"
proof (cases "k = js ''__proto__'' \<or> k \<in> fst ` set out")
  case True
  have keys: "map fst (map (\<lambda>(k', v'). if k' = k then (k', v) else (k', v')) out) = map fst out" by (auto simp: case_prod_unfold)
  have "distinct (map fst (map (\<lambda>(k', v'). if k' = k then (k', v) else (k', v')) out))" unfolding keys by (rule assms)
  thus ?thesis using True assms by (auto simp: js_put_def simp del: map_map)
next
  case False
  have "mset (js_put k v out) = add_mset (k, v) (mset out)"
    using False by (auto simp: js_put_def insert_index_mset split: option.split)
  hence "mset (map fst (js_put k v out)) = mset (k # map fst out)"
    using arg_cong [of _ _ "image_mset fst"] by fastforce
  hence "distinct (map fst (js_put k v out)) = distinct (k # map fst out)" by (rule mset_eq_imp_distinct_iff)
  thus ?thesis using False assms by auto
qed


definition list_fits :: "(rat \<Rightarrow> nat) \<Rightarrow> nat \<Rightarrow> nat \<Rightarrow> json list \<Rightarrow> nat \<Rightarrow> bool" where
  "list_fits num budget reserve out used \<longleftrightarrow> json_bytes num (JArr out) \<le> used \<and> used + reserve \<le> budget"

lemma list_bytes_add: "json_bytes num (JArr (out @ [v])) = json_bytes num (JArr out) + json_bytes num v + (if out = [] then 0 else 1)"
  by (cases out) auto

lemma shrinkList_loop_fits:
  assumes "\<forall>q. ascii (numText q)" "list_fits (\<lambda>q. length (numText q)) budget reserve out used"
  shows "\<exists>used'. list_fits (\<lambda>q. length (numText q)) budget reserve (shrinkList_loop numText budget reserve items out used) used'"
  using assms(2)
proof (induction items arbitrary: out used)
  case (Cons item items)
  let ?piece = "shrink numText item (budget - used - reserve)"
  let ?cost = "jsonBytes numText (Some ?piece) + (if out \<noteq> [] then 1 else 0)"
  show ?case
  proof (cases "budget < used + ?cost + reserve")
    case False
    hence "list_fits (\<lambda>q. length (numText q)) budget reserve (out @ [?piece]) (used + ?cost)"
      using Cons.prems unfolding list_fits_def list_bytes_add jsonBytes_Some [OF assms(1)] by (auto simp del: json_bytes.simps)
    from Cons.IH [OF this] False show ?thesis by (simp add: Let_def)
  qed (use Cons.prems in \<open>auto simp: Let_def\<close>)
qed auto

definition record_fits :: "(rat \<Rightarrow> nat) \<Rightarrow> nat \<Rightarrow> nat \<Rightarrow> (jstr \<times> json) list \<Rightarrow> nat \<Rightarrow> nat \<Rightarrow> bool" where
  "record_fits num budget reserve out used cnt \<longleftrightarrow> json_bytes num (JObj out) \<le> used \<and> used + reserve \<le> budget \<and>
     distinct (map fst out) \<and> (cnt = 0 \<longrightarrow> out = [])"

lemma shrinkRecord_loop_fits:
  assumes "\<forall>q. ascii (numText q)" "record_fits (\<lambda>q. length (numText q)) budget reserve out used cnt"
  shows "\<exists>used' cnt'. record_fits (\<lambda>q. length (numText q)) budget reserve
    (shrinkRecord_loop numText budget reserve entries out used cnt) used' cnt'"
  using assms(2)
proof (induction entries arbitrary: out used cnt)
  case (Cons entry entries)
  obtain key item where e: "entry = (key, item)" by force
  let ?num = "\<lambda>q. length (numText q)"
  let ?piece = "shrink numText item (budget - used - reserve)"
  let ?cost = "jsonBytes numText (Some (JStr key)) + 1 + jsonBytes numText (Some ?piece) + (if 0 < cnt then 1 else 0)"
  show ?case
  proof (cases "budget < used + ?cost + reserve")
    case True
    thus ?thesis using Cons.prems e by (auto simp: Let_def)
  next
    case False
    have "json_bytes ?num (JObj (js_put key ?piece out)) \<le>
        json_bytes ?num (JObj out) + entry_bytes ?num (key, ?piece) + (if out = [] then 0 else 1)"
      using Cons.prems by (intro js_put_bytes) (simp add: record_fits_def)
    also have "\<dots> \<le> used + ?cost"
      using Cons.prems by (auto simp: record_fits_def entry_bytes_def jsonBytes_Some [OF assms(1)] simp del: json_bytes.simps(6))
    finally have "record_fits ?num budget reserve (js_put key ?piece out) (used + ?cost) (cnt + 1)"
      using Cons.prems False js_put_distinct [of out key ?piece] by (auto simp: record_fits_def simp del: json_bytes.simps)
    from Cons.IH [OF this] False e show ?thesis by (simp add: Let_def)
  qed
qed auto

lemma show_nat_length: "n \<le> m \<Longrightarrow> length (show_nat n) \<le> length (show_nat m)"
proof (induction m arbitrary: n rule: show_nat.induct)
  case (1 m)
  show ?case
  proof (cases "n < 10")
    case True
    thus ?thesis by (subst show_nat.simps, subst (2) show_nat.simps) (simp add: Suc_le_eq)
  next
    case False
    hence "length (show_nat (n div 10)) \<le> length (show_nat (m div 10))" using 1 by (auto intro: div_le_mono)
    thus ?thesis using False 1(2) by (subst show_nat.simps, subst (2) show_nat.simps) simp
  qed
qed

lemma show_nat_small: "n \<le> 1001 \<Longrightarrow> length (show_nat n) \<le> 4"
  using show_nat_length [of n 1001] by (simp add: show_nat.simps)

lemma string_bytes_ascii: "ascii s \<Longrightarrow> \<forall>c \<in> set s. 32 \<le> c \<and> c \<noteq> 34 \<and> c \<noteq> 92 \<Longrightarrow> string_bytes s = length s"
proof (induction s)
  case (Cons c s)
  hence c: "32 \<le> c" "c \<noteq> 34" "c \<noteq> 92" "c < 0x80" by simp_all
  moreover from this have "c \<notin> {8, 9, 10, 12, 13, 34, 92}" by auto
  ultimately have "char_bytes c = 1" by (simp add: char_bytes_def linorder_not_less)
  thus ?case using Cons by simp
qed simp


lemma moreMark_bytes: "n \<le> m \<Longrightarrow> jsonBytes numText (Some (JStr (moreMark n ''item''))) \<le> jsonBytes numText (Some (JStr (moreMark m ''item'')))"
  "m \<le> 1001 \<Longrightarrow> jsonBytes numText (Some (JStr (moreMark m ''item''))) \<le> 40"
proof -
  have digit: "32 \<le> c \<and> c \<noteq> 34 \<and> c \<noteq> 92" if "c \<in> set (show_nat i)" for c i
    using that
  proof (induction i rule: show_nat.induct)
    case (1 i)
    have "unat (hex_char d) = 48 + d" if "d < 10" for d using that unat_word16 [of "48 + d"] by (simp add: hex_char_def)
    hence "32 \<le> hex_char d \<and> hex_char d \<noteq> 34 \<and> hex_char d \<noteq> 92" if "d < 10" for d
      using that by (force simp: word_le_nat_alt)
    thus ?case using 1 by (subst (asm) show_nat.simps) (auto split: if_splits)
  qed
  have size: "jsonBytes numText (Some (JStr (moreMark i ''item''))) = length (show_nat i) + 28" for i
  proof -
    have "string_bytes (moreMark i ''item'') = length (moreMark i ''item'')"
      using digit by (intro string_bytes_ascii) (auto simp: moreMark_def js_unfold)
    thus ?thesis by (simp add: jsonBytes_string moreMark_def)
  qed
  show "n \<le> m \<Longrightarrow> jsonBytes numText (Some (JStr (moreMark n ''item''))) \<le> jsonBytes numText (Some (JStr (moreMark m ''item'')))"
    "m \<le> 1001 \<Longrightarrow> jsonBytes numText (Some (JStr (moreMark m ''item''))) \<le> 40"
    using show_nat_length show_nat_small [of m] by (auto simp: size)
qed

lemma truncation_key_bytes: "jsonBytes numText (Some (JStr TRUNCATION_KEY)) = 22"
  by (simp add: jsonBytes_string TRUNCATION_KEY_def js_unfold char_bytes_def is_high_surrogate_def is_low_surrogate_def)

lemma shrink_list_fits:
  assumes "\<forall>q. ascii (numText q)" "64 \<le> budget" "length items \<le> 1001"
  shows "jsonBytes numText (Some (shrink numText (JArr items) budget)) \<le> budget"
proof (cases "jsonBytes numText (Some (JArr items)) \<le> budget")
  case False
  let ?num = "\<lambda>q. length (numText q)"
  define reserve where "reserve = jsonBytes numText (Some (JStr (moreMark (length items) ''item''))) + 1"
  define out where "out = shrinkList_loop numText budget reserve items [] 2"
  have "2 + reserve \<le> budget" using moreMark_bytes(2) [OF assms(3), of numText] assms(2) by (simp add: reserve_def)
  hence "list_fits ?num budget reserve [] 2" by (simp add: list_fits_def)
  then obtain used where u: "json_bytes ?num (JArr out) \<le> used" "used + reserve \<le> budget"
    using shrinkList_loop_fits [OF assms(1)] unfolding list_fits_def out_def by blast
  let ?mark = "JStr (moreMark (length items - length out) ''item'')"
  have "json_bytes ?num ?mark + 1 \<le> reserve"
    using moreMark_bytes(1) [of "length items - length out" "length items" numText]
    by (simp add: reserve_def jsonBytes_Some [OF assms(1)] del: json_bytes.simps)
  hence "json_bytes ?num (JArr (out @ [?mark])) \<le> budget" using u unfolding list_bytes_add by (cases "out = []") (simp_all del: json_bytes.simps)
  thus ?thesis using False
    by (subst shrink.simps) (simp add: Let_def out_def reserve_def jsonBytes_Some [OF assms(1)] del: json_bytes.simps)
qed (simp add: shrink.simps)

lemma shrink_record_fits:
  assumes "\<forall>q. ascii (numText q)" "64 \<le> budget"
  shows "jsonBytes numText (Some (shrink numText (JObj kvs) budget)) \<le> budget"
proof (cases "jsonBytes numText (Some (JObj kvs)) \<le> budget")
  case False
  let ?num = "\<lambda>q. length (numText q)"
  define reserve where "reserve = jsonBytes numText (Some (JStr TRUNCATION_KEY)) + 6"
  define out where "out = shrinkRecord_loop numText budget reserve kvs [] 2 0"
  have r: "reserve = 28" by (simp add: reserve_def truncation_key_bytes)
  hence "record_fits ?num budget reserve [] 2 0" using assms(2) by (simp add: record_fits_def)
  then obtain used cnt where u: "json_bytes ?num (JObj out) \<le> used" "used + reserve \<le> budget" "distinct (map fst out)"
    using shrinkRecord_loop_fits [OF assms(1)] unfolding record_fits_def out_def by blast
  have "entry_bytes ?num (TRUNCATION_KEY, JBool True) = 27"
    using truncation_key_bytes [of numText] by (simp add: entry_bytes_def jsonBytes_string)
  hence "json_bytes ?num (JObj (js_put TRUNCATION_KEY (JBool True) out)) \<le> budget"
    using js_put_bytes [OF u(3), of ?num TRUNCATION_KEY "JBool True"] u(1,2) r by (simp del: json_bytes.simps split: if_splits)
  thus ?thesis using False
    by (subst shrink.simps) (simp add: Let_def out_def reserve_def jsonBytes_Some [OF assms(1)] del: json_bytes.simps)
qed (simp add: shrink.simps)

text \<open>The greedy estimate of \<^verbatim>\<open>shrink\<close> is never too low, so the fallback after it is not needed for
  values that the sanitizer produces.\<close>

lemma shrink_fits:
  assumes "\<forall>q. ascii (numText q)" "64 \<le> budget" "\<And>xs. v = JArr xs \<Longrightarrow> length xs \<le> 1001"
  shows "jsonBytes numText (Some (shrink numText v budget)) \<le> budget"
proof (cases v)
  case (JArr xs)
  thus ?thesis using shrink_list_fits [OF assms(1,2)] assms(3) by simp
next
  case (JObj kvs)
  thus ?thesis using shrink_record_fits [OF assms(1,2)] by simp
qed (use assms(2) truncateString_fits in \<open>simp_all add: shrink.simps\<close>)

lemma shrink_record: "\<exists>kvs'. shrink numText (JObj kvs) budget = JObj kvs'"
  by (subst shrink.simps) (simp add: Let_def)

lemma hardPreview_fits:
  assumes "\<forall>q. ascii (numText q)" "64 \<le> maxBytes"
  shows "jsonBytes numText (Some (hardPreview numText v maxBytes)) \<le> maxBytes"
proof -
  have "json_bytes num (JObj [(TRUNCATION_KEY, JBool True)]) = 29" for num
    using truncation_key_bytes [of numText] by (simp add: jsonBytes_string)
  thus ?thesis using assms truncateString_fits [of maxBytes numText "safeStringify numText v"]
    by (auto simp: hardPreview_def jsonBytes_Some [OF assms(1)] simp del: json_bytes.simps split: option.split json.split)
qed

lemma capField_correct:
  assumes "\<forall>q. ascii (numText q)" "MIN_FIELD_BYTES \<le> int maxBytes"
  shows "jsonBytes numText (cp_value (capField numText v maxBytes elided)) \<le> maxBytes"
    "cp_bytes (capField numText v maxBytes elided) = jsonBytes numText (cp_value (capField numText v maxBytes elided))"
    "cp_originalBytes (capField numText v maxBytes elided) = jsonBytes numText v"
    "jsonBytes numText v \<le> maxBytes \<Longrightarrow> cp_value (capField numText v maxBytes elided) = v"
    "v = Some (JObj kvs) \<Longrightarrow> \<exists>kvs'. cp_value (capField numText v maxBytes elided) = Some (JObj kvs')"
    "cp_truncated (capField numText v maxBytes elided) \<longleftrightarrow> elided \<or> maxBytes < jsonBytes numText v"
proof -
  have m: "64 \<le> maxBytes" using assms(2) by (simp add: MIN_FIELD_BYTES_def)
  have "\<exists>kvs'. shrink_opt numText v maxBytes = Some (JObj kvs')" "\<exists>kvs'. hardPreview numText v maxBytes = JObj kvs'"
    if "v = Some (JObj kvs)" using that shrink_record [of numText kvs maxBytes] by (auto simp: shrink_opt_def hardPreview_def)
  thus "v = Some (JObj kvs) \<Longrightarrow> \<exists>kvs'. cp_value (capField numText v maxBytes elided) = Some (JObj kvs')"
    by (auto simp: capField_def Let_def)
qed (use hardPreview_fits [OF assms(1), of maxBytes v] assms(2) in \<open>auto simp: capField_def Let_def MIN_FIELD_BYTES_def\<close>)

text \<open>A capped field fits: for any value and any limit the configuration allows, what ships is within
  the limit and its reported size is its real size, the measured size is the one before the cap, a
  field within the limit is untouched, an object stays an object, and a field is marked truncated
  exactly if it was cut here or before.\<close>

theorem capped_field_fits:
  assumes "\<forall>q. ascii (numText q)" "MIN_FIELD_BYTES \<le> int maxBytes"
  shows "let f = capField numText v maxBytes elided in
     cp_bytes f \<le> maxBytes \<and> cp_bytes f = jsonBytes numText (cp_value f) \<and>
     cp_originalBytes f = jsonBytes numText v \<and>
     (jsonBytes numText v \<le> maxBytes \<longrightarrow> cp_value f = v) \<and>
     ((\<exists>kvs. v = Some (JObj kvs)) \<longrightarrow> (\<exists>kvs. cp_value f = Some (JObj kvs))) \<and>
     (cp_truncated f \<longleftrightarrow> elided \<or> maxBytes < jsonBytes numText v)"
  using capField_correct [OF assms, where v = v and elided = elided] by (auto simp: Let_def)

text \<open>The number zero is printed as one character, and so are the other numbers of this instance.\<close>

theorem capped_field_fits_witness:
  "let f = capField (\<lambda>_. js ''7'') (Some (JArr (replicate 200 (JNum 7)))) 256 False in
     cp_bytes f \<le> 256 \<and> cp_originalBytes f = 401 \<and> cp_truncated f"
proof -
  have "\<forall>q :: rat. ascii (js ''7'')" by (simp add: js_unfold)
  moreover from this have "jsonBytes (\<lambda>_. js ''7'') (Some (JArr (replicate 200 (JNum 7)))) = 401"
    by (simp add: jsonBytes_Some sum_list_replicate)
  ultimately show ?thesis
    using capped_field_fits [of "\<lambda>_. js ''7''" 256 "Some (JArr (replicate 200 (JNum 7)))" False]
    by (simp add: MIN_FIELD_BYTES_def Let_def)
qed

theorem truncation_is_longest_prefix_witness:
  "\<exists>k. truncateString (\<lambda>_. js ''7'') (js ''a long line'') 20 = prefixOf (js ''a long line'') k @ TRUNCATION_SUFFIX \<and>
     string_bytes (prefixOf (js ''a long line'') k) = 4"
proof -
  let ?t = "js ''a long line''"
  have four: "string_bytes (prefixOf ?t 4) = 4" by code_simp
  have le: "(16 :: nat) \<le> 20" "(4 :: nat) \<le> length ?t" "string_bytes (prefixOf ?t 4) + 16 \<le> 20" using four by simp_all
  show ?thesis
    using truncation_is_longest_prefix [OF le(1), of "\<lambda>_. js ''7''" ?t] unfolding cut_bytes
  proof (elim exE conjE)
    fix k
    assume k: "truncateString (\<lambda>_. js ''7'') ?t 20 = prefixOf ?t k @ TRUNCATION_SUFFIX"
      "string_bytes (prefixOf ?t k) + 16 \<le> 20"
      "\<forall>n \<le> length ?t. string_bytes (prefixOf ?t n) + 16 \<le> 20 \<longrightarrow> string_bytes (prefixOf ?t n) \<le> string_bytes (prefixOf ?t k)"
    have "string_bytes (prefixOf ?t 4) \<le> string_bytes (prefixOf ?t k)" using k(3) le(2,3) by blast
    hence "string_bytes (prefixOf ?t k) = 4" using four k(2) by linarith
    with k(1) show ?thesis by (intro exI [of _ k] conjI)
  qed
qed

end
