(* ===== verification/Sdk_Sanitize.thy ===== *)
theory Sdk_Sanitize
  imports Sdk_Cap
begin

text \<open>
  The walk of \<^verbatim>\<open>platform/telemetry-sdk/src/payload-safety.ts\<close>: it turns any JavaScript value into JSON and
  offers every part of it to the redactor.  Objects live in a heap, so that shared and circular
  structures are what they are; property reads, iterations and \<^verbatim>\<open>toJSON\<close> may throw.  The heap does not
  change during a walk: getters, iterators and redactors that mutate objects are not covered.  An
  exception that leaves the walk is \<open>Inl\<close>.
\<close>

section \<open>Values\<close>

text \<open>A number that is not finite, a bigint, a function and a symbol carry the text that
  \<^verbatim>\<open>String\<close> gives for them.\<close>

datatype jsval =
    VUndefined
  | VNull
  | VBool bool
  | VNum rat
  | VNonFinite jstr
  | VStr jstr
  | VBigint jstr
  | VFunction jstr
  | VSymbol jstr
  | VRef nat

text \<open>A read returns or throws; a thrown error carries the text that \<^verbatim>\<open>unreadable\<close> prints.\<close>

datatype js_read = Reads jsval | Throws jstr

datatype js_toJSON = NoToJSON | ToJSON js_read | ToJSONUnreadable jstr

datatype js_object =
    ODate "int option"
  | ORegExp jstr
  | OError jstr jstr
  | OMap "jstr + (jsval \<times> jsval) list"
  | OSet "jstr + jsval list"
  | OArray "js_read list"
  | OView "jsval list"
  | OPlain js_toJSON "jstr + (jstr \<times> js_read) list"

record js_heap =
  hp_object :: "nat \<Rightarrow> js_object"
  hp_constructorName :: "nat \<Rightarrow> jstr + jstr option"

section \<open>Redaction\<close>

text \<open>\<open>None\<close> is a redactor that throws.\<close>

type_synonym Redactor = "jsval \<Rightarrow> jstr \<Rightarrow> jsval option"

definition lower_ascii :: "jchar \<Rightarrow> jchar" where
  "lower_ascii c = (if 65 \<le> c \<and> c \<le> 90 then c + 32 else c)"

text \<open>\<^verbatim>\<open>\s\<close>.\<close>

definition is_space :: "jchar \<Rightarrow> bool" where
  "is_space c \<longleftrightarrow> 9 \<le> c \<and> c \<le> 13 \<or> c = 32 \<or> c = 0xA0 \<or> c = 0x1680 \<or> 0x2000 \<le> c \<and> c \<le> 0x200A \<or>
     c = 0x2028 \<or> c = 0x2029 \<or> c = 0x202F \<or> c = 0x205F \<or> c = 0x3000 \<or> c = 0xFEFF"

definition AUTHORIZATION_KEY :: "jstr \<Rightarrow> bool" where
  "AUTHORIZATION_KEY k \<longleftrightarrow> map lower_ascii k = js ''authorization''"

fun starts_with :: "jstr \<Rightarrow> jstr \<Rightarrow> bool" where
  "starts_with [] s = True"
| "starts_with (p # ps) [] = False"
| "starts_with (p # ps) (c # s) = (p = c \<and> starts_with ps s)"

fun contains_at :: "(jstr \<Rightarrow> bool) \<Rightarrow> jstr \<Rightarrow> bool" where
  "contains_at P [] = P []"
| "contains_at P (c # s) = (P (c # s) \<or> contains_at P s)"

definition API_KEY_KEY :: "jstr \<Rightarrow> bool" where
  "API_KEY_KEY k \<longleftrightarrow> contains_at (\<lambda>s. starts_with (js ''apikey'') s \<or> starts_with (js ''api_key'') s \<or>
     starts_with (js ''api-key'') s) (map lower_ascii k)"

definition BEARER_VALUE :: "jstr \<Rightarrow> bool" where
  "BEARER_VALUE s =
     (let r = dropWhile is_space s; rest = drop 6 r
      in starts_with (js ''bearer'') (map lower_ascii r) \<and> rest \<noteq> [] \<and> is_space (hd rest) \<and> dropWhile is_space rest \<noteq> [])"

fun lastSegment_from :: "jstr \<Rightarrow> jstr \<Rightarrow> jstr" where
  "lastSegment_from acc [] = acc"
| "lastSegment_from acc (c # s) = (if c \<in> {46, 91, 93} then lastSegment_from s s else lastSegment_from acc s)"

definition lastSegment :: "jstr \<Rightarrow> jstr" where
  "lastSegment path = lastSegment_from path path"

definition defaultRedactor :: "jsval \<Rightarrow> jstr \<Rightarrow> jsval" where
  "defaultRedactor v path =
     (let key = lastSegment path
      in if AUTHORIZATION_KEY key \<or> API_KEY_KEY key then VStr REDACTED
         else case v of
           VStr s \<Rightarrow> if BEARER_VALUE s then VStr REDACTED else v
         | _ \<Rightarrow> v)"

definition composeRedactors :: "Redactor option \<Rightarrow> Redactor" where
  "composeRedactors hook =
     (case hook of
        None \<Rightarrow> (\<lambda>v path. Some (defaultRedactor v path))
      | Some h \<Rightarrow> (\<lambda>v path. case h v path of
          None \<Rightarrow> Some (VStr REDACTED)
        | Some intermediate \<Rightarrow> Some (defaultRedactor intermediate path)))"

definition NO_REDACTION :: Redactor where
  "NO_REDACTION v path = Some v"

definition safeRedact :: "jsval \<Rightarrow> jstr \<Rightarrow> Redactor \<Rightarrow> jsval" where
  "safeRedact v path redact = coalesce (redact v path) (VStr REDACTED)"

section \<open>The walk\<close>

definition CIRCULAR_MARK :: jstr where "CIRCULAR_MARK = js ''[Circular]''"
definition DEPTH_MARK :: jstr where "DEPTH_MARK = js ''[MaxDepth]''"
definition FUNCTION_MARK :: jstr where "FUNCTION_MARK = js ''[Function]''"
definition INVALID_DATE_MARK :: jstr where "INVALID_DATE_MARK = js ''[InvalidDate]''"
definition MAX_DEPTH :: nat where "MAX_DEPTH = 32"
definition MAX_ITEMS :: nat where "MAX_ITEMS = 1000"

record Walk =
  wk_redact :: Redactor
  wk_seen :: "nat list"

text \<open>A walked value and whether a part of it was elided.\<close>

type_synonym walked = "jstr + (json option \<times> bool)"

definition unreadable :: "jstr \<Rightarrow> jstr" where
  "unreadable message = js ''[Unreadable: '' @ message @ js '']''"

definition strict_equals :: "jsval \<Rightarrow> jsval \<Rightarrow> bool" where
  "strict_equals a b \<longleftrightarrow> a = b \<and> a \<noteq> VNonFinite (js ''NaN'')"

text \<open>The functions below call each other down to \<open>MAX_DEPTH\<close>.  Each takes as \<open>descend\<close> the walk one
  level deeper; \<open>jsonSafe\<close> ties the knot by recursion on the levels that are left,
  \<^verbatim>\<open>MAX_DEPTH - depth\<close>.\<close>

definition sanitize :: "(Walk \<Rightarrow> jsval \<Rightarrow> jstr \<Rightarrow> walked) \<Rightarrow> Walk \<Rightarrow> jsval \<Rightarrow> jstr \<Rightarrow> walked" where
  "sanitize descend walk v path =
     (let redacted = safeRedact v path (wk_redact walk);
          next = (if strict_equals redacted v then walk else walk\<lparr>wk_redact := NO_REDACTION\<rparr>)
      in descend next redacted path)"

fun sanitizeList_loop ::
  "(Walk \<Rightarrow> jsval \<Rightarrow> jstr \<Rightarrow> walked) \<Rightarrow> Walk \<Rightarrow> jstr \<Rightarrow> nat \<Rightarrow> js_read list \<Rightarrow> jstr + (json list \<times> bool)" where
  "sanitizeList_loop descend walk path index [] = Inr ([], False)"
| "sanitizeList_loop descend walk path index (item # items) =
     (case item of
        Throws message \<Rightarrow> Inl message
      | Reads v \<Rightarrow>
          (case sanitize descend walk v (path @ js ''['' @ show_nat index @ js '']'') of
             Inl message \<Rightarrow> Inl message
           | Inr (child, elided) \<Rightarrow>
               (case sanitizeList_loop descend walk path (index + 1) items of
                  Inl message \<Rightarrow> Inl message
                | Inr (out, elided') \<Rightarrow> Inr (coalesce child JNull # out, elided \<or> elided'))))"

definition sanitizeList :: "(Walk \<Rightarrow> jsval \<Rightarrow> jstr \<Rightarrow> walked) \<Rightarrow> Walk \<Rightarrow> js_read list \<Rightarrow> jstr \<Rightarrow> walked" where
  "sanitizeList descend walk items path =
     (case sanitizeList_loop descend walk path 0 (take MAX_ITEMS items) of
        Inl message \<Rightarrow> Inl message
      | Inr (out, elided) \<Rightarrow>
          if MAX_ITEMS < length items
          then Inr (Some (JArr (out @ [JStr (moreMark (length items - MAX_ITEMS) ''item'')])), True)
          else Inr (Some (JArr out), elided))"

fun sanitizeRecord_loop ::
  "(Walk \<Rightarrow> jsval \<Rightarrow> jstr \<Rightarrow> walked) \<Rightarrow> Walk \<Rightarrow> jstr \<Rightarrow> (jstr \<times> jsval) list \<Rightarrow> (jstr \<times> json) list \<Rightarrow> bool \<Rightarrow>
   jstr + ((jstr \<times> json) list \<times> bool)" where
  "sanitizeRecord_loop descend walk path [] out elided = Inr (out, elided)"
| "sanitizeRecord_loop descend walk path ((key, raw) # entries) out elided =
     (case sanitize descend walk raw (if path = [] then key else path @ js ''.'' @ key) of
        Inl message \<Rightarrow> Inl message
      | Inr (child, elided') \<Rightarrow>
          sanitizeRecord_loop descend walk path entries
            (case child of None \<Rightarrow> out | Some c \<Rightarrow> js_put key c out) (elided \<or> elided'))"

definition sanitizeRecord :: "(Walk \<Rightarrow> jsval \<Rightarrow> jstr \<Rightarrow> walked) \<Rightarrow> Walk \<Rightarrow> (jstr \<times> jsval) list \<Rightarrow> jstr \<Rightarrow> walked" where
  "sanitizeRecord descend walk entries path =
     (case sanitizeRecord_loop descend walk path (take MAX_ITEMS entries) [] False of
        Inl message \<Rightarrow> Inl message
      | Inr (out, elided) \<Rightarrow>
          if MAX_ITEMS < length entries
          then Inr (Some (JObj (js_put OVERFLOW_KEY (JStr (moreMark (length entries - MAX_ITEMS) ''key'')) out)), True)
          else Inr (Some (JObj out), elided))"

definition ownEntries :: "jstr + (jstr \<times> js_read) list \<Rightarrow> (jstr \<times> jsval) list" where
  "ownEntries keys =
     (case keys of
        Inl message \<Rightarrow> [(REPLACED_KEY, VStr (unreadable message))]
      | Inr props \<Rightarrow> map (\<lambda>(key, r). (key, case r of Reads v \<Rightarrow> v | Throws message \<Rightarrow> VStr (unreadable message))) props)"

definition describeKey :: "(rat \<Rightarrow> jstr) \<Rightarrow> js_heap \<Rightarrow> jsval \<Rightarrow> jstr + jstr" where
  "describeKey numText hp key =
     (case key of
        VStr s \<Rightarrow> Inr s
      | VRef a \<Rightarrow> (case hp_constructorName hp a of
            Inl message \<Rightarrow> Inl message
          | Inr nm \<Rightarrow> Inr (js ''['' @ coalesce nm (js ''object'') @ js '']''))
      | VFunction t \<Rightarrow> Inr t
      | VUndefined \<Rightarrow> Inr (js ''undefined'')
      | VNull \<Rightarrow> Inr (js ''null'')
      | VBool b \<Rightarrow> Inr (if b then js ''true'' else js ''false'')
      | VNum q \<Rightarrow> Inr (numText q)
      | VNonFinite t \<Rightarrow> Inr t | VBigint t \<Rightarrow> Inr t | VSymbol t \<Rightarrow> Inr t)"

fun mapEntries_loop :: "(rat \<Rightarrow> jstr) \<Rightarrow> js_heap \<Rightarrow> (jsval \<times> jsval) list \<Rightarrow> jstr + (jstr \<times> jsval) list" where
  "mapEntries_loop numText hp [] = Inr []"
| "mapEntries_loop numText hp ((key, v) # entries) =
     (case describeKey numText hp key of
        Inl message \<Rightarrow> Inl message
      | Inr k \<Rightarrow> (case mapEntries_loop numText hp entries of
            Inl message \<Rightarrow> Inl message
          | Inr rest \<Rightarrow> Inr ((k, v) # rest)))"

definition mapEntries :: "(rat \<Rightarrow> jstr) \<Rightarrow> js_heap \<Rightarrow> jstr + (jsval \<times> jsval) list \<Rightarrow> (jstr \<times> jsval) list" where
  "mapEntries numText hp entries =
     (case (case entries of Inl message \<Rightarrow> Inl message | Inr kvs \<Rightarrow> mapEntries_loop numText hp kvs) of
        Inl message \<Rightarrow> [(REPLACED_KEY, VStr (unreadable message))]
      | Inr kvs \<Rightarrow> kvs)"

definition setItems :: "jstr + jsval list \<Rightarrow> jsval list" where
  "setItems items = (case items of Inl message \<Rightarrow> [VStr (unreadable message)] | Inr vs \<Rightarrow> vs)"

text \<open>The property \<^verbatim>\<open>toJSON\<close> itself is read outside the guard.\<close>

definition callToJson :: "js_toJSON \<Rightarrow> jstr + jsval option" where
  "callToJson candidate =
     (case candidate of
        NoToJSON \<Rightarrow> Inr None
      | ToJSON (Reads v) \<Rightarrow> Inr (Some v)
      | ToJSON (Throws message) \<Rightarrow> Inr (Some (VStr (unreadable message)))
      | ToJSONUnreadable message \<Rightarrow> Inl message)"

definition sanitizeObject ::
  "(rat \<Rightarrow> jstr) \<Rightarrow> js_heap \<Rightarrow> (Walk \<Rightarrow> jsval \<Rightarrow> jstr \<Rightarrow> walked) \<Rightarrow> Walk \<Rightarrow> nat \<Rightarrow> jstr \<Rightarrow> walked" where
  "sanitizeObject numText hp descend walk a path =
     (case hp_object hp a of
        ODate t \<Rightarrow> Inr (Some (JStr (case t of None \<Rightarrow> INVALID_DATE_MARK | Some ms \<Rightarrow> toISOString ms)), False)
      | ORegExp t \<Rightarrow> Inr (Some (JStr t), False)
      | OError nm message \<Rightarrow> Inr (Some (JObj [(js ''name'', JStr nm), (js ''message'', JStr message)]), False)
      | OMap entries \<Rightarrow> sanitizeRecord descend walk (mapEntries numText hp entries) path
      | OSet items \<Rightarrow> sanitizeList descend walk (map Reads (setItems items)) path
      | OArray items \<Rightarrow> sanitizeList descend walk items path
      | OView items \<Rightarrow> sanitizeList descend walk (map Reads items) path
      | OPlain toJSON keys \<Rightarrow>
          (case callToJson toJSON of
             Inl message \<Rightarrow> Inl message
           | Inr viaToJson \<Rightarrow>
               (case viaToJson of
                  Some v \<Rightarrow> if v = VRef a then sanitizeRecord descend walk (ownEntries keys) path else descend walk v path
                | None \<Rightarrow> sanitizeRecord descend walk (ownEntries keys) path)))"

text \<open>\<^verbatim>\<open>jsonSafe\<close> on what is not an object.\<close>

definition scalar_json :: "jsval \<Rightarrow> json option" where
  "scalar_json v =
     (case v of
        VNull \<Rightarrow> Some JNull | VStr s \<Rightarrow> Some (JStr s) | VBool b \<Rightarrow> Some (JBool b) | VNum q \<Rightarrow> Some (JNum q)
      | VNonFinite t \<Rightarrow> Some (JStr t) | VBigint t \<Rightarrow> Some (JStr t) | VUndefined \<Rightarrow> None
      | VFunction _ \<Rightarrow> Some (JStr FUNCTION_MARK) | VSymbol t \<Rightarrow> Some (JStr t) | VRef _ \<Rightarrow> None)"

primrec jsonSafe :: "(rat \<Rightarrow> jstr) \<Rightarrow> js_heap \<Rightarrow> nat \<Rightarrow> Walk \<Rightarrow> jsval \<Rightarrow> jstr \<Rightarrow> walked" where
  "jsonSafe numText hp 0 = (\<lambda>walk v path.
     (case v of
        VRef a \<Rightarrow> if a \<in> set (wk_seen walk) then Inr (Some (JStr CIRCULAR_MARK), False)
                  else Inr (Some (JStr DEPTH_MARK), True)
      | _ \<Rightarrow> Inr (scalar_json v, False)))"
| "jsonSafe numText hp (Suc levels) = (\<lambda>walk v path.
     (case v of
        VRef a \<Rightarrow> if a \<in> set (wk_seen walk) then Inr (Some (JStr CIRCULAR_MARK), False)
                  else sanitizeObject numText hp (jsonSafe numText hp levels) (walk\<lparr>wk_seen := a # wk_seen walk\<rparr>) a path
      | _ \<Rightarrow> Inr (scalar_json v, False)))"

definition sanitizeValue :: "(rat \<Rightarrow> jstr) \<Rightarrow> js_heap \<Rightarrow> jsval \<Rightarrow> jstr \<Rightarrow> Redactor \<Rightarrow> walked" where
  "sanitizeValue numText hp v path redact =
     sanitize (jsonSafe numText hp MAX_DEPTH) \<lparr>wk_redact = redact, wk_seen = []\<rparr> v path"

section \<open>What holds of every result\<close>

lemma js_put_entries: "(k', v') \<in> set (js_put k v out) \<Longrightarrow> (k', v') = (k, v) \<or> (k', v') \<in> set out"
proof -
  have "set (insert_index i (k, v) out) = insert (k, v) (set out)" for i
    using arg_cong [OF insert_index_mset, of set_mset] by simp
  thus "(k', v') \<in> set (js_put k v out) \<Longrightarrow> (k', v') = (k, v) \<or> (k', v') \<in> set out"
    by (auto simp: js_put_def split: if_splits option.splits)
qed

lemma lastSegment_from_sep:
  "c \<in> {46, 91, 93} \<Longrightarrow> lastSegment_from acc (p @ c # s) = lastSegment_from s s"
  by (induction p arbitrary: acc) auto

lemma lastSegment_dot: "lastSegment (p @ js ''.'' @ k) = lastSegment k"
  by (simp add: lastSegment_def js_unfold lastSegment_from_sep)

text \<open>The contract of a property that the walk establishes: it holds of scalars, is built up level by
  level, and knows what the redactor does to the entries of an object.\<close>

locale walk_property =
  fixes ok_redactor :: "Redactor \<Rightarrow> bool"
    and good :: "nat \<Rightarrow> json \<Rightarrow> bool"
    and entry :: "jstr \<Rightarrow> json \<Rightarrow> bool"
  assumes scalar: "(\<And>xs. w \<noteq> JArr xs) \<Longrightarrow> (\<And>kvs. w \<noteq> JObj kvs) \<Longrightarrow> good n w"
    and array: "(\<And>x. x \<in> set xs \<Longrightarrow> good n x) \<Longrightarrow> length xs \<le> Suc MAX_ITEMS \<Longrightarrow> good (Suc n) (JArr xs)"
    and object: "(\<And>key item. (key, item) \<in> set kvs \<Longrightarrow> good n item \<and> entry key item) \<Longrightarrow> good (Suc n) (JObj kvs)"
    and grows: "good n w \<Longrightarrow> good (Suc n) w"
    and stays: "ok_redactor r \<Longrightarrow> safeRedact v p r = VRef a \<Longrightarrow> v = VRef a \<or> ok_redactor NO_REDACTION"
    and child_scalar: "ok_redactor r \<Longrightarrow> lastSegment p = lastSegment k \<Longrightarrow>
      (\<And>a. safeRedact v p r \<noteq> VRef a) \<Longrightarrow> scalar_json (safeRedact v p r) = Some w \<Longrightarrow> entry k w"
    and child_object: "ok_redactor r \<Longrightarrow> lastSegment p = lastSegment k \<Longrightarrow> safeRedact v p r = VRef a \<Longrightarrow> entry k w"
    and own_keys: "entry (js ''name'') w" "entry (js ''message'') w" "entry OVERFLOW_KEY w"
begin

definition descends :: "(Walk \<Rightarrow> jsval \<Rightarrow> jstr \<Rightarrow> walked) \<Rightarrow> nat \<Rightarrow> bool" where
  "descends descend n \<longleftrightarrow> 
     (\<forall>walk a path j e. descend walk (VRef a) path = Inr (Some j, e) \<longrightarrow> ok_redactor (wk_redact walk) \<longrightarrow> good n j) \<and>
     (\<forall>walk v path j e. descend walk v path = Inr (Some j, e) \<longrightarrow> (\<forall>a. v \<noteq> VRef a) \<longrightarrow> scalar_json v = Some j)"

lemma scalar_good: "scalar_json v = Some j \<Longrightarrow> good n j"
  by (cases v) (auto simp: scalar_json_def intro!: scalar)

lemma sanitize_good:
  assumes d: "descends descend n" and ok: "ok_redactor (wk_redact walk)" and s: "sanitize descend walk v path = Inr (Some j, e)"
  shows "good n j" and "lastSegment path = lastSegment k \<Longrightarrow> entry k j"
proof -
  define x where "x = safeRedact v path (wk_redact walk)"
  define w where "w = (if strict_equals x v then walk else walk\<lparr>wk_redact := NO_REDACTION\<rparr>)"
  have r: "descend w x path = Inr (Some j, e)" using s by (simp add: sanitize_def Let_def x_def w_def)
  have "good n j \<and> (lastSegment path = lastSegment k \<longrightarrow> entry k j)"
  proof (cases "\<exists>a. x = VRef a")
    case True
    then obtain a where a: "x = VRef a" by blast
    have "ok_redactor (wk_redact w)"
      using stays [OF ok, of v path a] a ok by (auto simp: x_def w_def strict_equals_def)
    hence "good n j" using r d a unfolding descends_def by blast
    thus ?thesis using a child_object [OF ok, of path k v a j] by (simp add: x_def)
  next
    case False
    have "scalar_json x = Some j" using r d False unfolding descends_def by blast
    thus ?thesis using False child_scalar [OF ok, of path k v j] scalar_good by (auto simp: x_def)
  qed
  thus "good n j" "lastSegment path = lastSegment k \<Longrightarrow> entry k j" by blast+
qed

lemma list_loop_good:
  assumes "descends descend n" "ok_redactor (wk_redact walk)"
    "sanitizeList_loop descend walk path i items = Inr (out, e)"
  shows "length out = length items \<and> (\<forall>x \<in> set out. good n x)"
  using assms(3)
proof (induction items arbitrary: i out e)
  case (Cons item items)
  from Cons.prems obtain v c e1 out' e2 where
    c: "sanitize descend walk v (path @ js ''['' @ show_nat i @ js '']'') = Inr (c, e1)"
    "sanitizeList_loop descend walk path (i + 1) items = Inr (out', e2)" "out = coalesce c JNull # out'"
    by (auto split: js_read.splits sum.splits prod.splits)
  have "good n (coalesce c JNull)"
    using sanitize_good(1) [OF assms(1,2)] c(1) by (cases c) (auto intro!: scalar)
  thus ?case using Cons.IH [OF c(2)] c(3) by simp
qed simp

lemma sanitizeList_good:
  assumes "descends descend n" "ok_redactor (wk_redact walk)" "sanitizeList descend walk items path = Inr (Some j, e)"
  shows "good (Suc n) j"
proof -
  obtain out e1 where l: "sanitizeList_loop descend walk path 0 (take MAX_ITEMS items) = Inr (out, e1)"
    using assms(3) by (auto simp: sanitizeList_def split: sum.splits)
  from list_loop_good [OF assms(1,2) l] have o: "length out \<le> MAX_ITEMS" "\<forall>x \<in> set out. good n x" by auto
  have "good n (JStr t)" for t by (auto intro!: scalar)
  hence "good (Suc n) (JArr (out @ [JStr t]))" "good (Suc n) (JArr out)" for t using o by (auto intro!: array)
  thus ?thesis using assms(3) l by (auto simp: sanitizeList_def split: if_splits)
qed

lemma record_loop_good:
  assumes "descends descend n" "ok_redactor (wk_redact walk)"
    "sanitizeRecord_loop descend walk path entries out e = Inr (out', e')"
    "\<forall>(k, v) \<in> set out. good n v \<and> entry k v"
  shows "\<forall>(k, v) \<in> set out'. good n v \<and> entry k v"
  using assms(3,4)
proof (induction entries arbitrary: out e)
  case (Cons en entries)
  obtain key raw where en: "en = (key, raw)" by force
  let ?p = "if path = [] then key else path @ js ''.'' @ key"
  from Cons.prems en obtain c e1 where
    c: "sanitize descend walk raw ?p = Inr (c, e1)"
    "sanitizeRecord_loop descend walk path entries (case c of None \<Rightarrow> out | Some j \<Rightarrow> js_put key j out) (e \<or> e1) = Inr (out', e')"
    by (auto split: sum.splits prod.splits)
  have seg: "lastSegment ?p = lastSegment key" by (simp add: lastSegment_dot)
  have "\<forall>(k, v) \<in> set (case c of None \<Rightarrow> out | Some j \<Rightarrow> js_put key j out). good n v \<and> entry k v"
  proof (cases c)
    case (Some j)
    have "good n j" "entry key j" using sanitize_good [OF assms(1,2)] c(1) Some seg by auto
    thus ?thesis using Cons.prems(2) Some js_put_entries [of _ _ key j out] by fastforce
  qed (use Cons.prems in simp)
  from Cons.IH [OF c(2) this] show ?case .
qed simp

lemma sanitizeRecord_good:
  assumes "descends descend n" "ok_redactor (wk_redact walk)" "sanitizeRecord descend walk entries path = Inr (Some j, e)"
  shows "good (Suc n) j"
proof -
  obtain out e1 where l: "sanitizeRecord_loop descend walk path (take MAX_ITEMS entries) [] False = Inr (out, e1)"
    using assms(3) by (auto simp: sanitizeRecord_def split: sum.splits)
  from record_loop_good [OF assms(1,2) l] have o: "\<forall>(k, v) \<in> set out. good n v \<and> entry k v" by simp
  have "good n (JStr t)" for t by (auto intro!: scalar)
  hence "\<forall>(k, v) \<in> set (js_put OVERFLOW_KEY (JStr t) out). good n v \<and> entry k v" for t
    using o own_keys(3) js_put_entries [of _ _ OVERFLOW_KEY "JStr t" out] by fastforce
  hence "good (Suc n) (JObj (js_put OVERFLOW_KEY (JStr t) out))" "good (Suc n) (JObj out)" for t
    using o by (auto intro!: object)
  thus ?thesis using assms(3) l by (auto simp: sanitizeRecord_def split: if_splits)
qed

lemma sanitizeObject_good:
  assumes d: "descends descend n" and ok: "ok_redactor (wk_redact walk)"
    and s: "sanitizeObject numText hp descend walk a path = Inr (Some j, e)"
  shows "good (Suc n) j"
proof -
  have str: "good m (JStr t)" for m t by (auto intro!: scalar)
  have err: "good (Suc n) (JObj [(js ''name'', JStr x), (js ''message'', JStr y)])" for x y
    using own_keys str by (auto intro!: object)
  have via: "good (Suc n) j" if "descend walk v path = Inr (Some j, e)" for v
    
  proof (cases "\<exists>a. v = VRef a")
    case True
    thus ?thesis using that d ok grows unfolding descends_def by blast
  next
    case False
    thus ?thesis using that d scalar_good unfolding descends_def by blast
  qed
  show ?thesis
    using s str err via sanitizeRecord_good [OF d ok] sanitizeList_good [OF d ok] unfolding sanitizeObject_def
    by (auto split: js_object.splits sum.splits option.splits if_splits)
qed

lemma jsonSafe_descends: "descends (jsonSafe numText hp n) n"
proof (induction n)
  case 0
  have "good 0 (JStr t)" for t by (auto intro!: scalar)
  thus ?case by (auto simp: descends_def split: if_splits jsval.splits)
next
  case (Suc n)
  have str: "good m (JStr t)" for m t by (auto intro!: scalar)
  have "good (Suc n) j" if "sanitizeObject numText hp (jsonSafe numText hp n) (walk\<lparr>wk_seen := seen\<rparr>) a path = Inr (Some j, e)"
    "ok_redactor (wk_redact walk)" for walk seen a path j e
    using sanitizeObject_good [OF Suc _ that(1)] that(2) by simp
  thus ?case using str by (auto simp: descends_def split: if_splits jsval.splits)
qed

lemma sanitizeValue_good:
  assumes "ok_redactor redact" "sanitizeValue numText hp v path redact = Inr (Some j, e)"
  shows "good MAX_DEPTH j"
  using sanitize_good(1) [OF jsonSafe_descends, of "\<lparr>wk_redact = redact, wk_seen = []\<rparr>"] assms by (simp add: sanitizeValue_def)

end

text \<open>No array is longer than the walk allows.\<close>

fun narrow :: "json \<Rightarrow> bool" where
  "narrow (JArr xs) \<longleftrightarrow> length xs \<le> Suc MAX_ITEMS \<and> (\<forall>x \<in> set xs. narrow x)"
| "narrow (JObj kvs) \<longleftrightarrow> (\<forall>e \<in> set kvs. narrow (snd e))"
| "narrow _ \<longleftrightarrow> True"

lemma depth_array: "json_depth (JArr xs) \<le> Suc n \<longleftrightarrow> (\<forall>x \<in> set xs. json_depth x \<le> n)"
  using less_json_depth [of "Suc n" "JArr xs"] unfolding json_children_def not_less [symmetric] by auto

lemma depth_object: "json_depth (JObj kvs) \<le> Suc n \<longleftrightarrow> (\<forall>e \<in> set kvs. json_depth (snd e) \<le> n)"
  using less_json_depth [of "Suc n" "JObj kvs"] unfolding json_children_def not_less [symmetric] by auto

interpretation shape: walk_property "\<lambda>_. True" "\<lambda>n v. json_depth v \<le> n \<and> narrow v" "\<lambda>_ _. True"
proof unfold_locales
  fix w :: json and n
  assume "\<And>xs. w \<noteq> JArr xs" "\<And>kvs. w \<noteq> JObj kvs"
  thus "json_depth w \<le> n \<and> narrow w" by (cases w) auto
next
  fix xs n assume "\<And>x. x \<in> set xs \<Longrightarrow> json_depth x \<le> n \<and> narrow x" "length xs \<le> Suc MAX_ITEMS"
  thus "json_depth (JArr xs) \<le> Suc n \<and> narrow (JArr xs)" unfolding depth_array by simp
next
  fix kvs :: "(jstr \<times> json) list" and n
  assume "\<And>key item. (key, item) \<in> set kvs \<Longrightarrow> (json_depth item \<le> n \<and> narrow item) \<and> True"
  thus "json_depth (JObj kvs) \<le> Suc n \<and> narrow (JObj kvs)" unfolding depth_object by auto
qed auto

text \<open>Every entry whose key names a credential is redacted.\<close>

definition sensitive :: "jstr \<Rightarrow> bool" where
  "sensitive k \<longleftrightarrow> AUTHORIZATION_KEY (lastSegment k) \<or> API_KEY_KEY (lastSegment k)"

fun redacted_tree :: "json \<Rightarrow> bool" where
  "redacted_tree (JArr xs) \<longleftrightarrow> (\<forall>x \<in> set xs. redacted_tree x)"
| "redacted_tree (JObj kvs) \<longleftrightarrow> (\<forall>e \<in> set kvs. redacted_tree (snd e) \<and> (sensitive (fst e) \<longrightarrow> snd e = JStr REDACTED))"
| "redacted_tree _ \<longleftrightarrow> True"

text \<open>A hook that keeps a value or replaces it by something that is not an object.\<close>

definition scalar_hook :: "Redactor \<Rightarrow> bool" where
  "scalar_hook h \<longleftrightarrow> (\<forall>v p r. h v p = Some r \<longrightarrow> r = v \<or> (\<forall>a. r \<noteq> VRef a))"

definition floor_redactor :: "Redactor \<Rightarrow> bool" where
  "floor_redactor r \<longleftrightarrow> (\<exists>hook. r = composeRedactors hook \<and> pred_option scalar_hook hook)"

lemma defaultRedactor_object: "defaultRedactor v p = VRef a \<Longrightarrow> v = VRef a"
  by (auto simp: defaultRedactor_def Let_def split: jsval.splits if_splits)

lemma defaultRedactor_sensitive: "lastSegment p = lastSegment k \<Longrightarrow> sensitive k \<Longrightarrow> defaultRedactor v p = VStr REDACTED"
  by (simp add: defaultRedactor_def sensitive_def)

lemma composed:
  assumes "floor_redactor r"
  shows "safeRedact v p r = VRef a \<Longrightarrow> v = VRef a"
    "lastSegment p = lastSegment k \<Longrightarrow> sensitive k \<Longrightarrow> safeRedact v p r = VStr REDACTED"
proof -
  obtain hook where h: "r = composeRedactors hook" "pred_option scalar_hook hook" using assms by (auto simp: floor_redactor_def)
  show "safeRedact v p r = VRef a \<Longrightarrow> v = VRef a"
    using h by (cases hook) (auto simp: composeRedactors_def safeRedact_def scalar_hook_def dest!: defaultRedactor_object split: option.splits)
  show "lastSegment p = lastSegment k \<Longrightarrow> sensitive k \<Longrightarrow> safeRedact v p r = VStr REDACTED"
    using h(1) defaultRedactor_sensitive
    by (cases hook) (auto simp: composeRedactors_def safeRedact_def split: option.splits)
qed

lemma own_keys_plain: "\<not> sensitive (js ''name'')" "\<not> sensitive (js ''message'')" "\<not> sensitive OVERFLOW_KEY"
  unfolding OVERFLOW_KEY_def by code_simp+

interpretation floor: walk_property floor_redactor "\<lambda>_. redacted_tree" "\<lambda>k v. sensitive k \<longrightarrow> v = JStr REDACTED"
proof unfold_locales
  fix w :: json
  assume "\<And>xs. w \<noteq> JArr xs" "\<And>kvs. w \<noteq> JObj kvs"
  thus "redacted_tree w" by (cases w) auto
next
  fix r p k v w
  assume "floor_redactor r" "lastSegment p = lastSegment k" "scalar_json (safeRedact v p r) = Some w"
  thus "sensitive k \<longrightarrow> w = JStr REDACTED" using composed(2) [of r p k v] by (auto simp: scalar_json_def)
next
  fix r p k v a w
  assume "floor_redactor r" "lastSegment p = lastSegment k" "safeRedact v p r = VRef a"
  thus "sensitive k \<longrightarrow> w = JStr REDACTED" using composed(2) [of r p k v] by auto
qed (use composed(1) own_keys_plain in force)+

section \<open>What the walk guarantees\<close>

text \<open>Every element of an array and every property \<^verbatim>\<open>toJSON\<close> can be read.\<close>

definition readable :: "js_object \<Rightarrow> bool" where
  "readable ob \<longleftrightarrow> (case ob of
     OArray items \<Rightarrow> (\<forall>r \<in> set items. \<exists>v. r = Reads v)
   | OPlain (ToJSONUnreadable _) _ \<Rightarrow> False
   | _ \<Rightarrow> True)"

definition returns :: "(Walk \<Rightarrow> jsval \<Rightarrow> jstr \<Rightarrow> walked) \<Rightarrow> bool" where
  "returns descend \<longleftrightarrow> (\<forall>walk v path. \<exists>r. descend walk v path = Inr r)"

lemma sanitize_returns: "returns descend \<Longrightarrow> \<exists>c e. sanitize descend walk v path = Inr (c, e)"
  by (metis returns_def sanitize_def surj_pair)

lemma list_loop_returns:
  assumes "returns descend" "\<forall>r \<in> set items. \<exists>v. r = Reads v"
  shows "\<exists>out e. sanitizeList_loop descend walk path i items = Inr (out, e)"
  using assms(2)
proof (induction items arbitrary: i)
  case (Cons item items)
  obtain v where v: "item = Reads v" using Cons.prems by auto
  obtain c e where c: "sanitize descend walk v (path @ js ''['' @ show_nat i @ js '']'') = Inr (c, e)"
    using sanitize_returns [OF assms(1)] by blast
  moreover obtain out e' where "sanitizeList_loop descend walk path (i + 1) items = Inr (out, e')"
    using Cons.IH [of "i + 1"] Cons.prems by auto
  ultimately show ?case using v by simp
qed auto

lemma record_loop_returns:
  assumes "returns descend"
  shows "\<exists>out' e'. sanitizeRecord_loop descend walk path entries out e = Inr (out', e')"
proof (induction entries arbitrary: out e)
  case (Cons en entries)
  obtain key raw where en: "en = (key, raw)" by force
  obtain c e1 where "sanitize descend walk raw (if path = [] then key else path @ js ''.'' @ key) = Inr (c, e1)"
    using sanitize_returns [OF assms] by blast
  thus ?case using Cons en by simp
qed simp

lemma sanitizeList_returns:
  "returns descend \<Longrightarrow> \<forall>r \<in> set items. \<exists>v. r = Reads v \<Longrightarrow> \<exists>r. sanitizeList descend walk items path = Inr r"
  using list_loop_returns [of descend "take MAX_ITEMS items" walk path 0] by (fastforce simp: sanitizeList_def dest: in_set_takeD)

lemma sanitizeRecord_returns: "returns descend \<Longrightarrow> \<exists>r. sanitizeRecord descend walk entries path = Inr r"
  using record_loop_returns [of descend walk path "take MAX_ITEMS entries" "[]" False] by (fastforce simp: sanitizeRecord_def)

lemma sanitizeObject_returns:
  assumes "returns descend" "readable (hp_object hp a)"
  shows "\<exists>r. sanitizeObject numText hp descend walk a path = Inr r"
proof (cases "hp_object hp a")
  case (OPlain toJSON keys)
  show ?thesis
  proof (cases "callToJson toJSON")
    case (Inl m)
    thus ?thesis using assms(2) OPlain by (auto simp: callToJson_def readable_def split: js_toJSON.splits js_read.splits)
  next
    case (Inr via)
    have "\<exists>r. descend walk v path = Inr r" for v using assms(1) by (simp add: returns_def)
    thus ?thesis using Inr OPlain sanitizeRecord_returns [OF assms(1)] by (auto simp: sanitizeObject_def split: option.split)
  qed
qed (use assms(2) sanitizeRecord_returns [OF assms(1)] sanitizeList_returns [OF assms(1)] in
      \<open>auto simp: sanitizeObject_def readable_def\<close>)

lemma jsonSafe_returns:
  assumes "\<And>a. readable (hp_object hp a)"
  shows "returns (jsonSafe numText hp n)"
proof (induction n)
  case 0
  show ?case by (auto simp: returns_def split: jsval.split)
next
  case (Suc n)
  show ?case using sanitizeObject_returns [OF Suc assms] by (auto simp: returns_def split: jsval.split)
qed

text \<open>Any value becomes JSON that the server stores: if elements and \<^verbatim>\<open>toJSON\<close> can be read, the walk
  returns for every value, circular or endlessly nested ones included and whatever the redactor does,
  and what it returns is at most \<open>MAX_DEPTH\<close> deep, has no array of more than \<open>MAX_ITEMS + 1\<close> elements and
  passes the server's depth screen.\<close>

theorem sanitized_value_bounded:
  assumes "\<And>a. readable (hp_object hp a)"
  shows "\<exists>j e. sanitizeValue numText hp v path redact = Inr (j, e) \<and>
     pred_option (\<lambda>w. json_depth w \<le> MAX_DEPTH \<and> narrow w \<and> \<not> exceedsMaxStructuralDepth w MAX_STRUCTURAL_DEPTH) j"
proof -
  obtain j e where r: "sanitizeValue numText hp v path redact = Inr (j, e)"
    using sanitize_returns [OF jsonSafe_returns [OF assms]] by (fastforce simp: sanitizeValue_def)
  have "json_depth w \<le> MAX_DEPTH \<and> narrow w \<and> \<not> exceedsMaxStructuralDepth w MAX_STRUCTURAL_DEPTH" if "j = Some w" for w
    using shape.sanitizeValue_good [OF TrueI, of numText hp v path redact w e] r that
    by (simp add: exceedsMaxStructuralDepth_def depth_loop_iff MAX_STRUCTURAL_DEPTH_def MAX_DEPTH_def)
  thus ?thesis using r by (cases j) auto
qed

text \<open>An array that contains itself.\<close>

definition knot_heap :: js_heap where
  "knot_heap = \<lparr>hp_object = (\<lambda>_. OArray [Reads (VRef 0)]), hp_constructorName = (\<lambda>_. Inr None)\<rparr>"

theorem sanitized_value_bounded_witness:
  "\<exists>j e. sanitizeValue (\<lambda>_. js ''7'') knot_heap (VRef 0) (js ''input'') (composeRedactors None) = Inr (j, e) \<and>
     pred_option (\<lambda>w. json_depth w \<le> MAX_DEPTH \<and> narrow w \<and> \<not> exceedsMaxStructuralDepth w MAX_STRUCTURAL_DEPTH) j"
  by (rule sanitized_value_bounded) (simp add: knot_heap_def readable_def)

text \<open>C16. Credentials are redacted by their key: with the default redactor, or with any hook that keeps a
  value or replaces it by something that is not an object, also one that throws, every entry at any
  depth of the result whose key ends in an authorization or API key name holds only the redaction mark.\<close>

theorem credentials_redacted:
  assumes "pred_option scalar_hook hook" "sanitizeValue numText hp v path (composeRedactors hook) = Inr (Some j, e)"
  shows "redacted_tree j"
proof -
  have "floor_redactor (composeRedactors hook)" using assms(1) by (auto simp: floor_redactor_def)
  from floor.sanitizeValue_good [OF this assms(2)] show ?thesis .
qed

text \<open>An object with a credential, a copy of it, and an error with a bearer token.\<close>

definition secret_heap :: js_heap where
  "secret_heap = \<lparr>hp_object = (\<lambda>a. if a = 2 then OError (js ''Error'') (js ''Bearer abc'')
       else OPlain NoToJSON (Inr [(js ''apiKey'', Reads (VStr (js ''s''))), (js ''n'', Reads (VNum 1))])),
     hp_constructorName = (\<lambda>_. Inr None)\<rparr>"

theorem credentials_redacted_witness:
  "sanitizeValue (\<lambda>_. js ''7'') secret_heap (VRef 0) (js ''input'') (composeRedactors (Some (\<lambda>_ _. None))) =
     Inr (Some (JStr REDACTED), False) \<and>
   sanitizeValue (\<lambda>_. js ''7'') secret_heap (VRef 0) (js ''input'') (composeRedactors None) =
     Inr (Some (JObj [(js ''apiKey'', JStr REDACTED), (js ''n'', JNum 1)]), False) \<and>
   redacted_tree (JObj [(js ''apiKey'', JStr REDACTED), (js ''n'', JNum 1)])"
proof -
  have s: "sanitizeValue (\<lambda>_. js ''7'') secret_heap (VRef 0) (js ''input'') (composeRedactors (Some (\<lambda>_ _. None))) =
      Inr (Some (JStr REDACTED), False)"
    "sanitizeValue (\<lambda>_. js ''7'') secret_heap (VRef 0) (js ''input'') (composeRedactors None) =
      Inr (Some (JObj [(js ''apiKey'', JStr REDACTED), (js ''n'', JNum 1)]), False)"
    by code_simp+
  from s credentials_redacted [OF _ s(2)] show ?thesis by simp
qed

text \<open>Redaction is not complete: a hook that returns a copy of an object turns all redaction off
  below it, so that a credential under its key is kept; the message of an error object is never shown to the
  redactor, so that a bearer token in it is kept, although the same text elsewhere is redacted; and an
  element of an array whose read throws makes the walk throw.\<close>

theorem redaction_gaps:
  "sanitizeValue (\<lambda>_. js ''7'') secret_heap (VRef 0) (js ''input'') (composeRedactors (Some (\<lambda>v _. Some (if v = VRef 0 then VRef 1 else v)))) =
     Inr (Some (JObj [(js ''apiKey'', JStr (js ''s'')), (js ''n'', JNum 1)]), False) \<and>
   sanitizeValue (\<lambda>_. js ''7'') secret_heap (VRef 2) (js ''input'') (composeRedactors None) =
     Inr (Some (JObj [(js ''name'', JStr (js ''Error'')), (js ''message'', JStr (js ''Bearer abc''))]), False) \<and>
   sanitizeValue (\<lambda>_. js ''7'') secret_heap (VStr (js ''Bearer abc'')) (js ''input'') (composeRedactors None) =
     Inr (Some (JStr REDACTED), False) \<and>
   sanitizeValue (\<lambda>_. js ''7'') (secret_heap\<lparr>hp_object := \<lambda>_. OArray [Throws (js ''no'')]\<rparr>) (VRef 0) (js ''input'') (composeRedactors None) =
     Inl (js ''no'')"
  by code_simp

end
