(* ===== verification/Sdk_Payload.thy ===== *)
theory Sdk_Payload
  imports Sdk_Sanitize Js_Sort
begin

text \<open>
  The serializer that \<^verbatim>\<open>createPayloadSafety\<close> of \<^verbatim>\<open>platform/telemetry-sdk/src/payload-safety.ts\<close> returns:
  sanitize, redact and cap metadata, free text and tool input and output, and fingerprints.  \<open>Inl\<close>
  is an exception that leaves the serializer.
\<close>

record PayloadSafety =
  ps_redact :: Redactor
  ps_maxFieldBytes :: nat
  ps_captureToolIO :: bool

definition createPayloadSafety :: "Redactor option \<Rightarrow> nat option \<Rightarrow> bool option \<Rightarrow> PayloadSafety" where
  "createPayloadSafety redact maxFieldBytes captureToolIO =
     \<lparr>ps_redact = composeRedactors redact, ps_maxFieldBytes = coalesce maxFieldBytes (nat DEFAULT_MAX_FIELD_BYTES),
      ps_captureToolIO = coalesce captureToolIO True\<rparr>"

definition prepare :: "(rat \<Rightarrow> jstr) \<Rightarrow> js_heap \<Rightarrow> PayloadSafety \<Rightarrow> jsval \<Rightarrow> jstr \<Rightarrow> jstr + CappedField" where
  "prepare numText hp ps v path =
     (case sanitizeValue numText hp v path (ps_redact ps) of
        Inl message \<Rightarrow> Inl message
      | Inr (j, elided) \<Rightarrow> Inr (capField numText j (ps_maxFieldBytes ps) elided))"

definition metadata :: "(rat \<Rightarrow> jstr) \<Rightarrow> js_heap \<Rightarrow> PayloadSafety \<Rightarrow> jsval \<Rightarrow> jstr \<Rightarrow> jstr + json option" where
  "metadata numText hp ps v path =
     (if v = VUndefined \<or> v = VNull then Inr None
      else case prepare numText hp ps v path of
        Inl message \<Rightarrow> Inl message
      | Inr capped \<Rightarrow>
          (case cp_value capped of
             Some (JObj kvs) \<Rightarrow> Inr (Some (JObj kvs))
           | Some w \<Rightarrow> Inr (Some (JObj [(REPLACED_KEY, w)]))
           | None \<Rightarrow> Inr (Some (JObj []))))"

text \<open>\<^verbatim>\<open>String\<close> of the capped text, which is a string.\<close>

definition text_of :: "json option \<Rightarrow> jstr" where
  "text_of v = (case v of Some (JStr s) \<Rightarrow> s | _ \<Rightarrow> [])"

definition safe_text :: "(rat \<Rightarrow> jstr) \<Rightarrow> js_heap \<Rightarrow> PayloadSafety \<Rightarrow> jstr \<Rightarrow> jstr \<Rightarrow> jstr + jstr" where
  "safe_text numText hp ps v path =
     (case sanitizeValue numText hp (VStr v) path (ps_redact ps) of
        Inl message \<Rightarrow> Inl message
      | Inr (redacted, _) \<Rightarrow>
          (let asText = (case redacted of Some (JStr s) \<Rightarrow> s | _ \<Rightarrow> safeStringify numText redacted)
           in Inr (text_of (cp_value (capField numText (Some (JStr asText)) (ps_maxFieldBytes ps) False)))))"

record SafeToolIO =
  io_input :: json
  io_output :: json
  io_inputTruncated :: bool
  io_outputTruncated :: bool
  io_inputBytes :: "nat option"
  io_outputBytes :: "nat option"

definition toolIO :: "(rat \<Rightarrow> jstr) \<Rightarrow> js_heap \<Rightarrow> PayloadSafety \<Rightarrow> jsval \<Rightarrow> jsval \<Rightarrow> jstr + SafeToolIO" where
  "toolIO numText hp ps input output =
     (if \<not> ps_captureToolIO ps
      then Inr \<lparr>io_input = JNull, io_output = JNull, io_inputTruncated = False, io_outputTruncated = False,
             io_inputBytes = None, io_outputBytes = None\<rparr>
      else case prepare numText hp ps input (js ''input'') of
        Inl message \<Rightarrow> Inl message
      | Inr safeInput \<Rightarrow>
          (case prepare numText hp ps output (js ''output'') of
             Inl message \<Rightarrow> Inl message
           | Inr safeOutput \<Rightarrow>
               Inr \<lparr>io_input = coalesce (cp_value safeInput) JNull, io_output = coalesce (cp_value safeOutput) JNull,
                 io_inputTruncated = cp_truncated safeInput, io_outputTruncated = cp_truncated safeOutput,
                 io_inputBytes = Some (cp_originalBytes safeInput), io_outputBytes = Some (cp_originalBytes safeOutput)\<rparr>))"

section \<open>Fingerprints\<close>

definition put_sorted :: "(jstr \<times> json) list \<Rightarrow> (jstr \<times> json) list" where
  "put_sorted kvs = fold (\<lambda>(k, v). js_put k v) (sort_key fst kvs) []"

fun canonicalize :: "json \<Rightarrow> json" where
  "canonicalize (JArr xs) = JArr (map canonicalize xs)"
| "canonicalize (JObj kvs) = JObj (put_sorted (map (\<lambda>(k, v). (k, canonicalize v)) kvs))"
| "canonicalize v = v"

definition FNV_OFFSET_BASIS :: "64 word" where "FNV_OFFSET_BASIS = 0xcbf29ce484222325"
definition FNV_PRIME :: "64 word" where "FNV_PRIME = 0x100000001b3"

unbundle bit_operations_syntax

text \<open>Arithmetic on bigints that is masked to 64 bits after every step.\<close>

definition fnv1a64 :: "jstr \<Rightarrow> jstr" where
  "fnv1a64 s = hex_digits 16 (unat (fold (\<lambda>byte hash. (hash XOR ucast byte) * FNV_PRIME) (utf8 s) FNV_OFFSET_BASIS))"

definition fingerprint :: "(rat \<Rightarrow> jstr) \<Rightarrow> js_heap \<Rightarrow> PayloadSafety \<Rightarrow> jsval \<Rightarrow> jstr \<Rightarrow> jstr + jstr" where
  "fingerprint numText hp ps v path =
     (case sanitizeValue numText hp v path (ps_redact ps) of
        Inl message \<Rightarrow> Inl message
      | Inr (j, _) \<Rightarrow> Inr (fnv1a64 (safeStringify numText (map_option canonicalize j))))"

definition fingerprintOf :: "(rat \<Rightarrow> jstr) \<Rightarrow> js_heap \<Rightarrow> jsval \<Rightarrow> jstr + jstr" where
  "fingerprintOf numText hp v = fingerprint numText hp (createPayloadSafety None None None) v (js ''input'')"

section \<open>Sizes\<close>

lemma capField_text: "\<exists>s. cp_value (capField numText (Some (JStr t)) maxBytes e) = Some (JStr s)"
  by (auto simp: capField_def Let_def shrink_opt_def shrink.simps hardPreview_def)

lemma jsonBytes_null: "jsonBytes numText (Some (coalesce v JNull)) = jsonBytes numText v"
  by (cases v) (simp_all add: jsonBytes_def safeStringify_def)

lemma prepare_correct:
  assumes "\<forall>q. ascii (numText q)" "MIN_FIELD_BYTES \<le> int (ps_maxFieldBytes ps)" "prepare numText hp ps v path = Inr f"
  shows "jsonBytes numText (Some (coalesce (cp_value f) JNull)) \<le> ps_maxFieldBytes ps"
    "\<not> cp_truncated f \<Longrightarrow> cp_originalBytes f = jsonBytes numText (Some (coalesce (cp_value f) JNull))"
    "cp_truncated f \<Longrightarrow> ps_maxFieldBytes ps < cp_originalBytes f \<or>
       (\<exists>j. sanitizeValue numText hp v path (ps_redact ps) = Inr (j, True))"
proof -
  obtain j e where j: "sanitizeValue numText hp v path (ps_redact ps) = Inr (j, e)" "f = capField numText j (ps_maxFieldBytes ps) e"
    using assms(3) by (auto simp: prepare_def split: sum.splits)
  note c = capField_correct [OF assms(1,2), where v = j and elided = e]
  show "jsonBytes numText (Some (coalesce (cp_value f) JNull)) \<le> ps_maxFieldBytes ps"
    "\<not> cp_truncated f \<Longrightarrow> cp_originalBytes f = jsonBytes numText (Some (coalesce (cp_value f) JNull))"
    "cp_truncated f \<Longrightarrow> ps_maxFieldBytes ps < cp_originalBytes f \<or>
       (\<exists>j. sanitizeValue numText hp v path (ps_redact ps) = Inr (j, True))"
    using c j by (auto simp: jsonBytes_null)
qed

text \<open>What a tool call ships is within the limit and truthfully measured: input and output each fit
  the limit; a size is missing only when capture is off, and then nothing ships and nothing is called
  truncated; an untruncated field has exactly the size that is reported; and a truncated one was over the
  limit or lost a part in the walk.\<close>

theorem tool_io_measured:
  assumes "\<forall>q. ascii (numText q)" "MIN_FIELD_BYTES \<le> int (ps_maxFieldBytes ps)" "toolIO numText hp ps input output = Inr io"
  shows "jsonBytes numText (Some (io_input io)) \<le> ps_maxFieldBytes ps \<and> jsonBytes numText (Some (io_output io)) \<le> ps_maxFieldBytes ps \<and>
     (io_inputBytes io = None \<or> io_outputBytes io = None \<longrightarrow> \<not> ps_captureToolIO ps \<and> io_input io = JNull \<and>
        io_output io = JNull \<and> \<not> io_inputTruncated io \<and> \<not> io_outputTruncated io) \<and>
     (\<forall>n. io_inputBytes io = Some n \<longrightarrow>
        (if io_inputTruncated io then ps_maxFieldBytes ps < n \<or> (\<exists>j. sanitizeValue numText hp input (js ''input'') (ps_redact ps) = Inr (j, True))
         else n = jsonBytes numText (Some (io_input io)))) \<and>
     (\<forall>n. io_outputBytes io = Some n \<longrightarrow>
        (if io_outputTruncated io then ps_maxFieldBytes ps < n \<or> (\<exists>j. sanitizeValue numText hp output (js ''output'') (ps_redact ps) = Inr (j, True))
         else n = jsonBytes numText (Some (io_output io))))"
proof (cases "ps_captureToolIO ps")
  case False
  hence "io = \<lparr>io_input = JNull, io_output = JNull, io_inputTruncated = False, io_outputTruncated = False,
      io_inputBytes = None, io_outputBytes = None\<rparr>" using assms(3) by (simp add: toolIO_def)
  moreover have "jsonBytes numText (Some JNull) \<le> ps_maxFieldBytes ps"
    using assms(2) by (simp add: jsonBytes_Some [OF assms(1)] MIN_FIELD_BYTES_def)
  ultimately show ?thesis using False by simp
next
  case True
  obtain fi fo where f: "prepare numText hp ps input (js ''input'') = Inr fi" "prepare numText hp ps output (js ''output'') = Inr fo"
    "io = \<lparr>io_input = coalesce (cp_value fi) JNull, io_output = coalesce (cp_value fo) JNull,
       io_inputTruncated = cp_truncated fi, io_outputTruncated = cp_truncated fo,
       io_inputBytes = Some (cp_originalBytes fi), io_outputBytes = Some (cp_originalBytes fo)\<rparr>"
    using assms(3) True by (auto simp: toolIO_def split: sum.splits)
  show ?thesis using prepare_correct [OF assms(1,2) f(1)] prepare_correct [OF assms(1,2) f(2)] by (auto simp: f(3))
qed

section \<open>Key order\<close>

text \<open>Two JSON values that differ only in the order of keys.\<close>

inductive same_context :: "json \<Rightarrow> json \<Rightarrow> bool" where
  same_refl: "same_context v v"
| same_array: "list_all2 same_context xs ys \<Longrightarrow> same_context (JArr xs) (JArr ys)"
| same_object: "distinct (map fst kvs) \<Longrightarrow> list_all2 (\<lambda>e e'. fst e = fst e' \<and> same_context (snd e) (snd e')) kvs kvs' \<Longrightarrow>
    mset kvs' = mset kvs'' \<Longrightarrow> same_context (JObj kvs) (JObj kvs'')"

lemma hex_digits_chars: "set (hex_digits w n) \<subseteq> set (js ''0123456789abcdef'')"
proof -
  have "\<forall>d \<in> set [0..<16]. hex_char d \<in> set (js ''0123456789abcdef'')" by code_simp
  hence "hex_char d \<in> set (js ''0123456789abcdef'')" if "d < 16" for d using that by simp
  thus ?thesis by (induction w arbitrary: n) auto
qed

lemma canonicalize_same: "same_context a b \<Longrightarrow> canonicalize a = canonicalize b"
proof (induction rule: same_context.induct)
  case (same_array xs ys)
  thus ?case by (induction rule: list_all2_induct) auto
next
  case (same_object kvs kvs' kvs'')
  let ?f = "\<lambda>(k, v). (k, canonicalize v)"
  have "map ?f kvs = map ?f kvs' \<and> map fst kvs = map fst kvs'"
    using same_object.IH by (induction rule: list_all2_induct) auto
  hence eq: "map ?f kvs = map ?f kvs'" "map fst kvs = map fst kvs'" by simp_all
  have "mset (map ?f kvs') = mset (map ?f kvs'')" using same_object.hyps by simp
  moreover have "distinct (map fst (map ?f kvs'))" using same_object.hyps(1) eq(2) by (simp add: comp_def case_prod_unfold)
  hence "inj_on fst (set (map ?f kvs'))" unfolding distinct_map by blast
  ultimately have "sort_key fst (map ?f kvs') = sort_key fst (map ?f kvs'')" by (rule sort_key_perm)
  thus ?case by (simp add: put_sorted_def eq(1))
qed simp

text \<open>Key order is not information: values whose sanitized forms differ only in the order of keys, at
  any depth, have the same fingerprint, and a fingerprint is 16 lower-case hexadecimal digits.\<close>

theorem fingerprint_ignores_key_order:
  assumes "sanitizeValue numText hp v path (ps_redact ps) = Inr (Some j, e)"
    "sanitizeValue numText hp' v' path' (ps_redact ps) = Inr (Some j', e')" "same_context j j'"
  shows "\<exists>f. fingerprint numText hp ps v path = Inr f \<and> fingerprint numText hp' ps v' path' = Inr f \<and>
     length f = 16 \<and> set f \<subseteq> set (js ''0123456789abcdef'')"
  using assms canonicalize_same [OF assms(3)]
  by (auto simp: fingerprint_def fnv1a64_def hex_digits_chars)

section \<open>At work\<close>

definition two_orders_heap :: js_heap where
  "two_orders_heap = \<lparr>hp_object = (\<lambda>a. OPlain NoToJSON (Inr (if a = 0 then [(js ''a'', Reads (VNum 1)), (js ''b'', Reads VNull)]
       else [(js ''b'', Reads VNull), (js ''a'', Reads (VNum 1))]))), hp_constructorName = (\<lambda>_. Inr None)\<rparr>"

lemma two_orders_sanitized:
  "sanitizeValue (\<lambda>_. js ''7'') two_orders_heap (VRef 0) (js ''input'') (composeRedactors None) =
     Inr (Some (JObj [(js ''a'', JNum 1), (js ''b'', JNull)]), False)"
  "sanitizeValue (\<lambda>_. js ''7'') two_orders_heap (VRef 1) (js ''input'') (composeRedactors None) =
     Inr (Some (JObj [(js ''b'', JNull), (js ''a'', JNum 1)]), False)"
  by code_simp+

theorem fingerprint_ignores_key_order_witness:
  "\<exists>f. fingerprintOf (\<lambda>_. js ''7'') two_orders_heap (VRef 0) = Inr f \<and> fingerprintOf (\<lambda>_. js ''7'') two_orders_heap (VRef 1) = Inr f \<and>
     length f = 16"
proof -
  have p: "ps_redact (createPayloadSafety None None None) = composeRedactors None" by (simp add: createPayloadSafety_def)
  have "same_context (JObj [(js ''a'', JNum 1), (js ''b'', JNull)]) (JObj [(js ''b'', JNull), (js ''a'', JNum 1)])"
    by (rule same_object [where kvs' = "[(js ''a'', JNum 1), (js ''b'', JNull)]"]) (simp_all add: same_refl add_mset_commute)
  from fingerprint_ignores_key_order [OF two_orders_sanitized(1) [folded p] two_orders_sanitized(2) [folded p] this]
  show ?thesis by (auto simp: fingerprintOf_def)
qed

theorem tool_io_measured_witness:
  "\<exists>io. toolIO (\<lambda>_. js ''7'') two_orders_heap (createPayloadSafety None None None) (VRef 0) VUndefined = Inr io \<and>
     jsonBytes (\<lambda>_. js ''7'') (Some (io_input io)) \<le> 32768 \<and> io_inputBytes io \<noteq> None"
proof -
  let ?ps = "createPayloadSafety None None None"
  have a: "\<forall>q :: rat. ascii (js ''7'')" "MIN_FIELD_BYTES \<le> int (ps_maxFieldBytes ?ps)" "ps_captureToolIO ?ps"
    "ps_maxFieldBytes ?ps = 32768"
    by (simp_all add: js_unfold createPayloadSafety_def MIN_FIELD_BYTES_def DEFAULT_MAX_FIELD_BYTES_def)
  have p: "ps_redact ?ps = composeRedactors None" by (simp add: createPayloadSafety_def)
  have "sanitizeValue (\<lambda>_. js ''7'') two_orders_heap VUndefined (js ''output'') (composeRedactors None) = Inr (None, False)"
    by code_simp
  hence "\<exists>io. toolIO (\<lambda>_. js ''7'') two_orders_heap ?ps (VRef 0) VUndefined = Inr io"
    using two_orders_sanitized(1) a(3) by (simp add: toolIO_def prepare_def p)
  then obtain io where io: "toolIO (\<lambda>_. js ''7'') two_orders_heap ?ps (VRef 0) VUndefined = Inr io" by blast
  show ?thesis using tool_io_measured [OF a(1,2) io] io a(3,4) by auto
qed

end
