(* ===== verification/Sdk_Handles.thy ===== *)
theory Sdk_Handles
  imports Sdk_Payload
begin

text \<open>
  \<^verbatim>\<open>platform/telemetry-sdk/src/handles.ts\<close>: the payload of every event is built here, in the shape of a
  tree of runs and steps.  An operation gives the event it passes to \<^verbatim>\<open>recorder.record\<close>, or \<open>Inl\<close> when it
  throws into the host before that.  \<open>host_step\<close> is a program that uses its handles in any order; the
  ids come from the generator, which the steps assume not to repeat an id.
\<close>

section \<open>Inputs\<close>

record StartRunInput =
  sr_workflowName :: jstr
  sr_workflowVersion :: jstr
  sr_metadata :: jsval

record StartStepInput =
  ss_name :: jstr
  ss_agentName :: jstr
  ss_type :: jstr
  ss_metadata :: jsval

record CompleteInput =
  ci_status :: "jstr option"
  ci_metadata :: jsval

text \<open>A \<^verbatim>\<open>Date\<close> is its time value; \<^const>\<open>None\<close> is an invalid date.\<close>

record RecordToolCallInput =
  rt_toolName :: jstr
  rt_input :: jsval
  rt_output :: jsval
  rt_startedAt :: "int option"
  rt_completedAt :: "int option"
  rt_success :: bool
  rt_error :: "jstr option"

record RecordModelCallInput =
  rm_provider :: jstr
  rm_model :: jstr
  rm_latencyMs :: js_number
  rm_inputTokens :: "js_number option"
  rm_outputTokens :: "js_number option"
  rm_status :: jstr
  rm_metadata :: jsval

record RecordErrorInput =
  re_type :: jstr
  re_message :: jstr
  re_metadata :: jsval

record RecordDecisionInput =
  rd_decisionType :: jstr
  rd_contextKey :: "jstr option"
  rd_contextKeyVersion :: "jstr option"
  rd_rawContext :: jsval
  rd_availableOptions :: "jstr list"
  rd_selectedOption :: jstr

section \<open>Payloads\<close>

record RecordedEvent =
  ev_type :: TelemetryEventType
  ev_entityId :: jstr
  ev_runId :: jstr
  ev_payload :: json

text \<open>\<^verbatim>\<open>toISOString\<close> throws a \<^verbatim>\<open>RangeError\<close> on an invalid date.\<close>

definition iso_text :: "int option \<Rightarrow> jstr + jstr" where
  "iso_text t = (case t of None \<Rightarrow> Inl (js ''Invalid time value'') | Some ms \<Rightarrow> Inr (toISOString ms))"

text \<open>A payload is JSON here; a number that is not finite is \<^verbatim>\<open>null\<close>, which the number schemas refuse just
  as they refuse \<^verbatim>\<open>NaN\<close>.\<close>

definition number_json :: "js_number \<Rightarrow> json" where
  "number_json x = (case x of Finite q \<Rightarrow> JNum q | NonFinite \<Rightarrow> JNull)"

definition optional :: "string \<Rightarrow> json option \<Rightarrow> (jstr \<times> json) list" where
  "optional k v = (case v of None \<Rightarrow> [] | Some j \<Rightarrow> [(js k, j)])"

definition metadataOf :: "(rat \<Rightarrow> jstr) \<Rightarrow> js_heap \<Rightarrow> PayloadSafety \<Rightarrow> jsval \<Rightarrow> jstr + (jstr \<times> json) list" where
  "metadataOf numText hp ps v = map_sum id (optional ''metadata'') (metadata numText hp ps v (js ''metadata''))"

definition createRun :: "(rat \<Rightarrow> jstr) \<Rightarrow> js_heap \<Rightarrow> PayloadSafety \<Rightarrow> jstr \<Rightarrow> StartRunInput \<Rightarrow> jstr + RecordedEvent" where
  "createRun numText hp ps runId input =
     bind_result (metadataOf numText hp ps (sr_metadata input)) (\<lambda>meta.
       Inr \<lparr>ev_type = RunStarted, ev_entityId = runId, ev_runId = runId,
         ev_payload = JObj ([(js ''workflowName'', JStr (sr_workflowName input)),
           (js ''workflowVersion'', JStr (sr_workflowVersion input))] @ meta)\<rparr>)"

definition createStep ::
  "(rat \<Rightarrow> jstr) \<Rightarrow> js_heap \<Rightarrow> PayloadSafety \<Rightarrow> jstr \<Rightarrow> jstr option \<Rightarrow> jstr \<Rightarrow> StartStepInput \<Rightarrow> jstr + RecordedEvent" where
  "createStep numText hp ps runId parentStepId stepId input =
     bind_result (metadataOf numText hp ps (ss_metadata input)) (\<lambda>meta.
       Inr \<lparr>ev_type = StepStarted, ev_entityId = stepId, ev_runId = runId,
         ev_payload = JObj ([(js ''name'', JStr (ss_name input)), (js ''agentName'', JStr (ss_agentName input)),
           (js ''type'', JStr (ss_type input)),
           (js ''parentStepId'', case parentStepId of None \<Rightarrow> JNull | Some p \<Rightarrow> JStr p)] @ meta)\<rparr>)"

definition recordToolCallEvent ::
  "(rat \<Rightarrow> jstr) \<Rightarrow> js_heap \<Rightarrow> PayloadSafety \<Rightarrow> jstr \<Rightarrow> jstr \<Rightarrow> jstr \<Rightarrow> RecordToolCallInput \<Rightarrow> jstr + RecordedEvent" where
  "recordToolCallEvent numText hp ps runId stepId toolCallId call =
     bind_result (toolIO numText hp ps (rt_input call) (rt_output call)) (\<lambda>io.
     bind_result (iso_text (rt_startedAt call)) (\<lambda>startedAt.
     bind_result (iso_text (rt_completedAt call)) (\<lambda>completedAt.
     bind_result (case rt_error call of None \<Rightarrow> Inr None
       | Some e \<Rightarrow> map_sum id Some (safe_text numText hp ps e (js ''error''))) (\<lambda>err.
       (let bytes = (\<lambda>n. case n of None \<Rightarrow> JNull | Some k \<Rightarrow> JNum (of_nat k));
            durationMs = max 0 (the (rt_completedAt call) - the (rt_startedAt call))
        in Inr \<lparr>ev_type = ToolCallRecorded, ev_entityId = toolCallId, ev_runId = runId,
             ev_payload = JObj ([(js ''stepId'', JStr stepId), (js ''toolName'', JStr (rt_toolName call)),
               (js ''input'', io_input io), (js ''output'', io_output io),
               (js ''inputTruncated'', JBool (io_inputTruncated io)), (js ''outputTruncated'', JBool (io_outputTruncated io)),
               (js ''inputBytes'', bytes (io_inputBytes io)), (js ''outputBytes'', bytes (io_outputBytes io)),
               (js ''startedAt'', JStr startedAt), (js ''completedAt'', JStr completedAt),
               (js ''durationMs'', JNum (of_int durationMs)), (js ''success'', JBool (rt_success call))]
               @ optional ''error'' (map_option JStr err))\<rparr>)))))"

definition recordModelCallEvent ::
  "(rat \<Rightarrow> jstr) \<Rightarrow> js_heap \<Rightarrow> PayloadSafety \<Rightarrow> jstr \<Rightarrow> jstr \<Rightarrow> jstr \<Rightarrow> RecordModelCallInput \<Rightarrow> jstr + RecordedEvent" where
  "recordModelCallEvent numText hp ps runId stepId modelCallId call =
     bind_result (metadataOf numText hp ps (rm_metadata call)) (\<lambda>meta.
       Inr \<lparr>ev_type = ModelCallRecorded, ev_entityId = modelCallId, ev_runId = runId,
         ev_payload = JObj ([(js ''stepId'', JStr stepId), (js ''provider'', JStr (rm_provider call)),
           (js ''model'', JStr (rm_model call)),
           (js ''latencyMs'', case rm_latencyMs call of
              Finite q \<Rightarrow> JNum (of_int (max 0 \<lfloor>q + 1 / 2\<rfloor>)) | NonFinite \<Rightarrow> number_json NonFinite)]
           @ optional ''inputTokens'' (map_option number_json (rm_inputTokens call))
           @ optional ''outputTokens'' (map_option number_json (rm_outputTokens call))
           @ [(js ''status'', JStr (rm_status call))] @ meta)\<rparr>)"

definition recordErrorEvent ::
  "(rat \<Rightarrow> jstr) \<Rightarrow> js_heap \<Rightarrow> PayloadSafety \<Rightarrow> jstr \<Rightarrow> jstr \<Rightarrow> jstr \<Rightarrow> RecordErrorInput \<Rightarrow> jstr + RecordedEvent" where
  "recordErrorEvent numText hp ps runId stepId errorId failure =
     bind_result (safe_text numText hp ps (re_message failure) (js ''message'')) (\<lambda>message.
     bind_result (metadataOf numText hp ps (re_metadata failure)) (\<lambda>meta.
       Inr \<lparr>ev_type = ErrorRecorded, ev_entityId = errorId, ev_runId = runId,
         ev_payload = JObj ([(js ''stepId'', JStr stepId), (js ''type'', JStr (re_type failure)),
           (js ''message'', JStr message)] @ meta)\<rparr>))"

definition recordDecisionEvent ::
  "(rat \<Rightarrow> jstr) \<Rightarrow> js_heap \<Rightarrow> PayloadSafety \<Rightarrow> jstr \<Rightarrow> jstr \<Rightarrow> jstr \<Rightarrow> RecordDecisionInput \<Rightarrow> jstr + RecordedEvent" where
  "recordDecisionEvent numText hp ps runId stepId decisionId input =
     bind_result (metadata numText hp ps (rd_rawContext input) (js ''rawContext'')) (\<lambda>rawContext.
       Inr \<lparr>ev_type = DecisionRecorded, ev_entityId = decisionId, ev_runId = runId,
         ev_payload = JObj ([(js ''stepId'', JStr stepId), (js ''decisionType'', JStr (rd_decisionType input))]
           @ optional ''contextKey'' (map_option JStr (rd_contextKey input))
           @ optional ''contextKeyVersion'' (map_option JStr (rd_contextKeyVersion input))
           @ optional ''rawContext'' rawContext
           @ [(js ''availableOptions'', JArr (map JStr (rd_availableOptions input))),
              (js ''selectedOption'', JStr (rd_selectedOption input))])\<rparr>)"

text \<open>\<open>observedAt\<close> is absent or a date.\<close>

definition recordAttestation :: "jstr \<Rightarrow> jstr \<Rightarrow> jstr \<Rightarrow> int option option \<Rightarrow> jstr + RecordedEvent" where
  "recordAttestation decisionId runId outcome observedAt =
     bind_result (case observedAt of None \<Rightarrow> Inr None | Some t \<Rightarrow> map_sum id Some (iso_text t)) (\<lambda>observed.
       Inr \<lparr>ev_type = DecisionOutcomeAttested, ev_entityId = decisionId, ev_runId = runId,
         ev_payload = JObj ([(js ''outcome'', JStr outcome)] @ optional ''observedAt'' (map_option JStr observed))\<rparr>)"

text \<open>A completer: the first call closes it, before the payload is built; later calls are ignored.\<close>

definition complete_handle ::
  "(rat \<Rightarrow> jstr) \<Rightarrow> js_heap \<Rightarrow> PayloadSafety \<Rightarrow> TelemetryEventType \<Rightarrow> jstr \<Rightarrow> jstr \<Rightarrow> bool \<Rightarrow> CompleteInput \<Rightarrow>
   bool \<times> (jstr + RecordedEvent option)" where
  "complete_handle numText hp ps type entityId runId completed input =
     (if completed then (True, Inr None)
      else (True, bind_result (metadataOf numText hp ps (ci_metadata input)) (\<lambda>meta.
        Inr (Some \<lparr>ev_type = type, ev_entityId = entityId, ev_runId = runId,
          ev_payload = JObj ([(js ''status'', JStr (coalesce (ci_status input) (js ''COMPLETED'')))] @ meta)\<rparr>))))"

section \<open>A program that uses its handles\<close>

text \<open>The run handles, the step handles with their run, the handles whose completer is closed, the ids drawn
  from the generator, and the events passed to the recorder.\<close>

record Host =
  ho_runs :: "jstr list"
  ho_steps :: "(jstr \<times> jstr) list"
  ho_closed :: "jstr list"
  ho_used :: "jstr list"
  ho_events :: "RecordedEvent list"

definition new_host :: Host where
  "new_host = \<lparr>ho_runs = [], ho_steps = [], ho_closed = [], ho_used = [], ho_events = []\<rparr>"

definition emit :: "RecordedEvent \<Rightarrow> Host \<Rightarrow> Host" where
  "emit e h = h\<lparr>ho_events := ho_events h @ [e]\<rparr>"

definition draw :: "jstr \<Rightarrow> Host \<Rightarrow> Host" where
  "draw i h = h\<lparr>ho_used := i # ho_used h\<rparr>"

definition step_records :: "(rat \<Rightarrow> jstr) \<Rightarrow> PayloadSafety \<Rightarrow> jstr \<Rightarrow> jstr \<Rightarrow> jstr \<Rightarrow> RecordedEvent \<Rightarrow> bool" where
  "step_records numText ps runId stepId i e \<longleftrightarrow> (\<exists>hp.
     (\<exists>call. recordToolCallEvent numText hp ps runId stepId i call = Inr e) \<or>
     (\<exists>call. recordModelCallEvent numText hp ps runId stepId i call = Inr e) \<or>
     (\<exists>failure. recordErrorEvent numText hp ps runId stepId i failure = Inr e) \<or>
     (\<exists>input. recordDecisionEvent numText hp ps runId stepId i input = Inr e))"

definition close_handle ::
  "(rat \<Rightarrow> jstr) \<Rightarrow> js_heap \<Rightarrow> PayloadSafety \<Rightarrow> TelemetryEventType \<Rightarrow> jstr \<Rightarrow> jstr \<Rightarrow> CompleteInput \<Rightarrow> Host \<Rightarrow> Host" where
  "close_handle numText hp ps type i runId input h =
     (let (completed, result) = complete_handle numText hp ps type i runId (i \<in> set (ho_closed h)) input;
          h1 = (if completed then h\<lparr>ho_closed := i # ho_closed h\<rparr> else h)
      in case result of Inr (Some e) \<Rightarrow> emit e h1 | _ \<Rightarrow> h1)"

inductive host_step :: "(rat \<Rightarrow> jstr) \<Rightarrow> PayloadSafety \<Rightarrow> Host \<Rightarrow> Host \<Rightarrow> bool" for numText :: "rat \<Rightarrow> jstr" and ps :: PayloadSafety where
  starts_run: "i \<notin> set (ho_used h) \<Longrightarrow> createRun numText hp ps i input = Inr e \<Longrightarrow>
    host_step numText ps h (emit e (draw i (h\<lparr>ho_runs := i # ho_runs h\<rparr>)))"
| starts_step: "r \<in> set (ho_runs h) \<Longrightarrow> i \<notin> set (ho_used h) \<Longrightarrow> createStep numText hp ps r None i input' = Inr e \<Longrightarrow>
    host_step numText ps h (emit e (draw i (h\<lparr>ho_steps := (i, r) # ho_steps h\<rparr>)))"
| starts_child: "(s, r) \<in> set (ho_steps h) \<Longrightarrow> i \<notin> set (ho_used h) \<Longrightarrow> createStep numText hp ps r (Some s) i input' = Inr e \<Longrightarrow>
    host_step numText ps h (emit e (draw i (h\<lparr>ho_steps := (i, r) # ho_steps h\<rparr>)))"
| records: "(s, r) \<in> set (ho_steps h) \<Longrightarrow> i \<notin> set (ho_used h) \<Longrightarrow> step_records numText ps r s i e \<Longrightarrow>
    host_step numText ps h (emit e (draw i h))"
| throws: "i \<notin> set (ho_used h) \<Longrightarrow> host_step numText ps h (draw i h)"
| attests: "recordAttestation d r outcome observedAt = Inr e \<Longrightarrow> host_step numText ps h (emit e h)"
| completes_run: "r \<in> set (ho_runs h) \<Longrightarrow> host_step numText ps h (close_handle numText hp ps RunCompleted r r c h)"
| completes_step: "(s, r) \<in> set (ho_steps h) \<Longrightarrow> host_step numText ps h (close_handle numText hp ps StepCompleted s r c h)"

inductive host_reachable :: "(rat \<Rightarrow> jstr) \<Rightarrow> PayloadSafety \<Rightarrow> Host \<Rightarrow> bool" for numText :: "rat \<Rightarrow> jstr" and ps :: PayloadSafety where
  host_new: "host_reachable numText ps new_host"
| host_moves: "host_reachable numText ps h \<Longrightarrow> host_step numText ps h h' \<Longrightarrow> host_reachable numText ps h'"

section \<open>The recorded events form a tree\<close>

definition started :: "TelemetryEventType \<Rightarrow> jstr \<Rightarrow> jstr \<Rightarrow> RecordedEvent list \<Rightarrow> bool" where
  "started type i r evs \<longleftrightarrow> (\<exists>e \<in> set evs. ev_type e = type \<and> ev_entityId e = i \<and> ev_runId e = r)"

text \<open>What an event may follow.\<close>

definition follows :: "RecordedEvent list \<Rightarrow> RecordedEvent \<Rightarrow> bool" where
  "follows evs e \<longleftrightarrow> (let i = ev_entityId e; r = ev_runId e in case ev_type e of
     RunStarted \<Rightarrow> i = r \<and> \<not> (\<exists>e' \<in> set evs. ev_type e' \<in> {RunStarted, StepStarted} \<and> ev_entityId e' = i)
   | StepStarted \<Rightarrow> started RunStarted r r evs \<and>
       \<not> (\<exists>e' \<in> set evs. ev_type e' \<in> {RunStarted, StepStarted} \<and> ev_entityId e' = i) \<and>
       (jget (ev_payload e) (js ''parentStepId'') = Some JNull \<or>
        (\<exists>p. jget (ev_payload e) (js ''parentStepId'') = Some (JStr p) \<and> started StepStarted p r evs))
   | RunCompleted \<Rightarrow> i = r \<and> started RunStarted r r evs \<and> \<not> (\<exists>e' \<in> set evs. ev_type e' \<in> {RunCompleted, StepCompleted} \<and> ev_entityId e' = i)
   | StepCompleted \<Rightarrow> started StepStarted i r evs \<and> \<not> (\<exists>e' \<in> set evs. ev_type e' \<in> {RunCompleted, StepCompleted} \<and> ev_entityId e' = i)
   | DecisionOutcomeAttested \<Rightarrow> True
   | _ \<Rightarrow> (\<exists>s. jget (ev_payload e) (js ''stepId'') = Some (JStr s) \<and> started StepStarted s r evs))"

fun trace_ok :: "RecordedEvent list \<Rightarrow> RecordedEvent list \<Rightarrow> bool" where
  "trace_ok past [] = True"
| "trace_ok past (e # evs) = (follows past e \<and> trace_ok (past @ [e]) evs)"

lemma trace_ok_snoc: "trace_ok past (evs @ [e]) \<longleftrightarrow> trace_ok past evs \<and> follows (past @ evs) e"
  by (induction evs arbitrary: past) auto

lemma started_snoc: "started ty i r evs \<Longrightarrow> started ty i r (evs @ [e])"
  by (auto simp: started_def)

definition host_ok :: "Host \<Rightarrow> bool" where
  "host_ok h \<longleftrightarrow> trace_ok [] (ho_events h) \<and>
     (\<forall>r \<in> set (ho_runs h). started RunStarted r r (ho_events h)) \<and>
     (\<forall>(s, r) \<in> set (ho_steps h). started StepStarted s r (ho_events h) \<and> started RunStarted r r (ho_events h)) \<and>
     (\<forall>e \<in> set (ho_events h). ev_type e \<in> {RunStarted, StepStarted} \<longrightarrow> ev_entityId e \<in> set (ho_used h)) \<and>
     (\<forall>e \<in> set (ho_events h). ev_type e \<in> {RunCompleted, StepCompleted} \<longrightarrow> ev_entityId e \<in> set (ho_closed h))"

lemma createRun_event: "createRun numText hp ps i input = Inr e \<Longrightarrow> ev_type e = RunStarted \<and> ev_entityId e = i \<and> ev_runId e = i"
  by (auto simp: createRun_def bind_result_Inr)

lemma createStep_event: "createStep numText hp ps r p i input = Inr e \<Longrightarrow> ev_type e = StepStarted \<and> ev_entityId e = i \<and> ev_runId e = r \<and>
    jget (ev_payload e) (js ''parentStepId'') = Some (case p of None \<Rightarrow> JNull | Some q \<Rightarrow> JStr q)"
  by (auto simp: createStep_def bind_result_Inr)

lemma step_records_event: "step_records numText ps r s i e \<Longrightarrow>
    ev_type e \<in> {ToolCallRecorded, ModelCallRecorded, ErrorRecorded, DecisionRecorded} \<and> ev_runId e = r \<and>
    jget (ev_payload e) (js ''stepId'') = Some (JStr s)"
  by (auto simp: step_records_def recordToolCallEvent_def recordModelCallEvent_def recordErrorEvent_def recordDecisionEvent_def bind_result_Inr Let_def)

lemma recordAttestation_event: "recordAttestation d r outcome t = Inr e \<Longrightarrow> ev_type e = DecisionOutcomeAttested"
  by (auto simp: recordAttestation_def bind_result_Inr)

lemma close_handle_cases:
  "close_handle numText hp ps type i r c h = h\<lparr>ho_closed := i # ho_closed h\<rparr> \<or>
   (\<exists>e. i \<notin> set (ho_closed h) \<and> ev_type e = type \<and> ev_entityId e = i \<and> ev_runId e = r \<and>
     close_handle numText hp ps type i r c h = emit e (h\<lparr>ho_closed := i # ho_closed h\<rparr>))"
proof (cases "i \<in> set (ho_closed h)")
  case True
  thus ?thesis by (simp add: close_handle_def complete_handle_def)
next
  case False
  show ?thesis
  proof (cases "metadataOf numText hp ps (ci_metadata c)")
    case (Inl m)
    thus ?thesis using False by (simp add: close_handle_def complete_handle_def bind_result_def)
  next
    case (Inr meta)
    define e where "e = \<lparr>ev_type = type, ev_entityId = i, ev_runId = r,
      ev_payload = JObj ([(js ''status'', JStr (coalesce (ci_status c) (js ''COMPLETED'')))] @ meta)\<rparr>"
    have "close_handle numText hp ps type i r c h = emit e (h\<lparr>ho_closed := i # ho_closed h\<rparr>)"
      using Inr False by (simp add: close_handle_def complete_handle_def bind_result_def e_def)
    thus ?thesis using False by (intro disjI2 exI [of _ e]) (simp add: e_def)
  qed
qed

text \<open>Adding an event that may follow, with its id drawn or its handle closed, keeps the invariant.\<close>

lemma host_ok_emit:
  assumes "host_ok h" "follows (ho_events h) e"
    and "ev_type e \<in> {RunStarted, StepStarted} \<Longrightarrow> ev_entityId e \<in> set (ho_used h')"
    and "ev_type e \<in> {RunCompleted, StepCompleted} \<Longrightarrow> ev_entityId e \<in> set (ho_closed h')"
    and h': "ho_events h' = ho_events h" "set (ho_used h) \<subseteq> set (ho_used h')" "set (ho_closed h) \<subseteq> set (ho_closed h')"
    "\<forall>r \<in> set (ho_runs h'). r \<in> set (ho_runs h) \<or> ev_type e = RunStarted \<and> ev_entityId e = r \<and> ev_runId e = r"
    "\<forall>(s, r) \<in> set (ho_steps h'). (s, r) \<in> set (ho_steps h) \<or>
       ev_type e = StepStarted \<and> ev_entityId e = s \<and> ev_runId e = r \<and> started RunStarted r r (ho_events h)"
  shows "host_ok (emit e h')"
proof -
  have ev: "ho_events (emit e h') = ho_events h @ [e]" "ho_runs (emit e h') = ho_runs h'" "ho_steps (emit e h') = ho_steps h'"
    "ho_used (emit e h') = ho_used h'" "ho_closed (emit e h') = ho_closed h'"
    using h'(1) by (simp_all add: emit_def)
  have new: "started (ev_type e) (ev_entityId e) (ev_runId e) (ho_events h @ [e])" by (auto simp: started_def)
  have "started RunStarted r r (ho_events h @ [e])" if "r \<in> set (ho_runs h')" for r
    using that h'(4) assms(1) new started_snoc by (force simp: host_ok_def)
  moreover have "started StepStarted s r (ho_events h @ [e]) \<and> started RunStarted r r (ho_events h @ [e])"
    if "(s, r) \<in> set (ho_steps h')" for s r
    using that h'(5) assms(1) new started_snoc by (force simp: host_ok_def)
  moreover have "trace_ok [] (ho_events h @ [e])" using assms(1,2) by (simp add: host_ok_def trace_ok_snoc)
  ultimately show ?thesis using assms(1,3,4) h'(2,3) unfolding host_ok_def ev by (auto simp: subset_iff)
qed

lemma host_step_ok:
  assumes "host_ok h" "host_step numText ps h h'"
  shows "host_ok h'"
  using assms(2)
proof (cases rule: host_step.cases)
  case (starts_run i hp input e)
  have "follows (ho_events h) e"
    using createRun_event [OF starts_run(3)] starts_run(2) assms(1) by (auto simp: follows_def host_ok_def)
  thus ?thesis unfolding starts_run(1) using createRun_event [OF starts_run(3)]
    by (intro host_ok_emit [OF assms(1)]) (auto simp: draw_def)
next
  case (starts_step r i hp input e)
  have "follows (ho_events h) e" "started RunStarted r r (ho_events h)"
    using createStep_event [OF starts_step(4)] starts_step(2,3) assms(1) by (auto simp: follows_def host_ok_def)
  thus ?thesis unfolding starts_step(1) using createStep_event [OF starts_step(4)]
    by (intro host_ok_emit [OF assms(1)]) (auto simp: draw_def)
next
  case (starts_child s r i hp input e)
  have "follows (ho_events h) e" "started RunStarted r r (ho_events h)"
    using createStep_event [OF starts_child(4)] starts_child(2,3) assms(1) by (auto simp: follows_def host_ok_def)
  thus ?thesis unfolding starts_child(1) using createStep_event [OF starts_child(4)]
    by (intro host_ok_emit [OF assms(1)]) (auto simp: draw_def)
next
  case (records s r i e)
  have "follows (ho_events h) e"
    using step_records_event [OF records(4)] records(2) assms(1) by (auto simp: follows_def host_ok_def)
  thus ?thesis unfolding records(1) using step_records_event [OF records(4)]
    by (intro host_ok_emit [OF assms(1)]) (auto simp: draw_def)
next
  case (throws i)
  thus ?thesis using assms(1) by (auto simp: host_ok_def draw_def)
next
  case (attests d r outcome observedAt e)
  have "follows (ho_events h) e" using recordAttestation_event [OF attests(2)] by (simp add: follows_def)
  thus ?thesis unfolding attests(1) using recordAttestation_event [OF attests(2)]
    by (intro host_ok_emit [OF assms(1)]) auto
next
  case (completes_run r hp c)
  have closed: "host_ok (h\<lparr>ho_closed := r # ho_closed h\<rparr>)" using assms(1) by (auto simp: host_ok_def)
  have "host_ok (emit e (h\<lparr>ho_closed := r # ho_closed h\<rparr>))"
    if "r \<notin> set (ho_closed h)" "ev_type e = RunCompleted" "ev_entityId e = r" "ev_runId e = r" for e
    using that completes_run(2) assms(1) by (intro host_ok_emit [OF assms(1)]) (auto simp: follows_def host_ok_def)
  thus ?thesis unfolding completes_run(1) using close_handle_cases [of numText hp ps RunCompleted r r c h] closed by metis
next
  case (completes_step s r hp c)
  have closed: "host_ok (h\<lparr>ho_closed := s # ho_closed h\<rparr>)" using assms(1) by (auto simp: host_ok_def)
  have "host_ok (emit e (h\<lparr>ho_closed := s # ho_closed h\<rparr>))"
    if "s \<notin> set (ho_closed h)" "ev_type e = StepCompleted" "ev_entityId e = s" "ev_runId e = r" for e
    using that completes_step(2) assms(1) by (intro host_ok_emit [OF assms(1)]) (auto simp: follows_def host_ok_def)
  thus ?thesis unfolding completes_step(1) using close_handle_cases [of numText hp ps StepCompleted s r c h] closed by metis
qed

text \<open>C17. The recorded events form a tree: whatever order a program uses its handles in, a run starts once and
  before everything in it, the parent of a step is a step that started earlier in the same run, calls,
  errors and decisions name a step of their run that started earlier, and every run and step completes at
  most once and only after it started.\<close>

theorem recorded_events_form_tree:
  assumes "host_reachable numText ps h"
  shows "trace_ok [] (ho_events h)"
proof -
  have "host_ok h" using assms
  proof (induction rule: host_reachable.induct)
    case host_new
    show ?case by (simp add: host_ok_def new_host_def)
  next
    case (host_moves h h')
    thus ?case using host_step_ok by blast
  qed
  thus ?thesis by (simp add: host_ok_def)
qed

lemma sanitizeValue_returns:
  assumes "\<And>a. readable (hp_object hp a)"
  shows "\<exists>j e. sanitizeValue numText hp v path redact = Inr (j, e)"
  using sanitize_returns [OF jsonSafe_returns [OF assms]] by (fastforce simp: sanitizeValue_def)

lemma serializer_returns:
  assumes "\<And>a. readable (hp_object hp a)"
  shows "\<exists>io. toolIO numText hp ps input output = Inr io" "\<exists>t. safe_text numText hp ps s path = Inr t"
    "\<exists>m. metadataOf numText hp ps v = Inr m"
proof -
  have p: "\<exists>f. prepare numText hp ps x q = Inr f" for x q
    using sanitizeValue_returns [OF assms, of numText x q "ps_redact ps"] by (fastforce simp: prepare_def)
  show "\<exists>io. toolIO numText hp ps input output = Inr io"
    using p [of input "js ''input''"] p [of "output" "js ''output''"] by (fastforce simp: toolIO_def)
  show "\<exists>t. safe_text numText hp ps s path = Inr t"
    using sanitizeValue_returns [OF assms, of numText "VStr s" path "ps_redact ps"] by (fastforce simp: safe_text_def)
  show "\<exists>m. metadataOf numText hp ps v = Inr m"
  proof -
    obtain f where "prepare numText hp ps v (js ''metadata'') = Inr f" using p by blast
    hence "\<exists>m. metadata numText hp ps v (js ''metadata'') = Inr m"
      by (cases "cp_value f") (auto simp: metadata_def split: json.split)
    thus ?thesis by (auto simp: metadataOf_def)
  qed
qed

text \<open>Recording a tool call: on objects that can be read it throws into the host exactly when one of the
  two dates is invalid; otherwise the event it records never has a truncation flag without a
  measurement, so that the server's contract does not refuse it for that, and its duration is the time between the
  dates, and not negative.\<close>

theorem tool_call_recorded_or_thrown:
  assumes "\<And>a. readable (hp_object hp a)"
  shows "case recordToolCallEvent numText hp ps runId stepId i call of
     Inl _ \<Rightarrow> rt_startedAt call = None \<or> rt_completedAt call = None
   | Inr e \<Rightarrow> truncation_measured (ev_payload e) \<and>
       (\<exists>t1 t2. rt_startedAt call = Some t1 \<and> rt_completedAt call = Some t2 \<and>
          jget (ev_payload e) (js ''durationMs'') = Some (JNum (of_int (max 0 (t2 - t1)))))"
proof (cases "rt_startedAt call = None \<or> rt_completedAt call = None")
  case True
  obtain io where "toolIO numText hp ps (rt_input call) (rt_output call) = Inr io" using serializer_returns(1) [OF assms] by blast
  hence "\<exists>m. recordToolCallEvent numText hp ps runId stepId i call = Inl m"
    using True by (auto simp: recordToolCallEvent_def bind_result_def iso_text_def split: sum.split option.split)
  thus ?thesis using True by auto
next
  case False
  then obtain t1 t2 where t: "rt_startedAt call = Some t1" "rt_completedAt call = Some t2" by auto
  obtain io where io: "toolIO numText hp ps (rt_input call) (rt_output call) = Inr io" using serializer_returns(1) [OF assms] by blast
  have m: "io_inputTruncated io \<Longrightarrow> io_inputBytes io \<noteq> None" "io_outputTruncated io \<Longrightarrow> io_outputBytes io \<noteq> None"
    using io by (auto simp: toolIO_def split: if_splits sum.splits)
  obtain err where err: "(case rt_error call of None \<Rightarrow> Inr None | Some e \<Rightarrow> map_sum id Some (safe_text numText hp ps e (js ''error''))) = Inr err"
  proof (cases "rt_error call")
    case (Some s)
    obtain t where "safe_text numText hp ps s (js ''error'') = Inr t" using serializer_returns(2) [OF assms] by blast
    thus thesis using Some that by simp
  qed (use that in simp)
  have "truncation_measured (ev_payload e) \<and> jget (ev_payload e) (js ''durationMs'') = Some (JNum (of_int (max 0 (t2 - t1))))"
    if "recordToolCallEvent numText hp ps runId stepId i call = Inr e" for e
    using that m by (auto simp: recordToolCallEvent_def bind_result_Inr io t err Let_def truncation_measured_def nullish_def)
  moreover have "\<exists>e. recordToolCallEvent numText hp ps runId stepId i call = Inr e"
    using t by (simp add: recordToolCallEvent_def bind_result_def io err iso_text_def Let_def)
  ultimately show ?thesis using t by auto
qed

section \<open>At work\<close>

lemma small_tree_reachable:
  "\<exists>h. host_reachable (\<lambda>_. js ''7'') (createPayloadSafety None None None) h \<and> length (ho_events h) = 2"
proof -
  let ?ps = "createPayloadSafety None None None" and ?num = "\<lambda>_ :: rat. js ''7''"
  let ?run = "\<lparr>sr_workflowName = js ''w'', sr_workflowVersion = js ''1'', sr_metadata = VUndefined\<rparr>"
  let ?step = "\<lparr>ss_name = js ''s'', ss_agentName = js ''a'', ss_type = js ''t'', ss_metadata = VUndefined\<rparr>"
  obtain e where e: "createRun ?num knot_heap ?ps (js ''r'') ?run = Inr e"
    by (simp add: createRun_def metadataOf_def metadata_def bind_result_def)
  obtain e' where e': "createStep ?num knot_heap ?ps (js ''r'') None (js ''s'') ?step = Inr e'"
    by (simp add: createStep_def metadataOf_def metadata_def bind_result_def)
  let ?h1 = "emit e (draw (js ''r'') (new_host\<lparr>ho_runs := js ''r'' # ho_runs new_host\<rparr>))"
  have "host_reachable ?num ?ps ?h1"
    by (rule host_reachable.host_moves [OF host_reachable.host_new starts_run [OF _ e]]) (simp add: new_host_def)
  hence "host_reachable ?num ?ps (emit e' (draw (js ''s'') (?h1\<lparr>ho_steps := (js ''s'', js ''r'') # ho_steps ?h1\<rparr>)))"
    by (rule host_reachable.host_moves [OF _ starts_step [OF _ _ e']]) (simp_all add: emit_def draw_def new_host_def)
  thus ?thesis by (intro exI conjI) (auto simp: emit_def draw_def new_host_def)
qed

theorem recorded_events_form_tree_witness: "\<exists>h :: Host. length (ho_events h) = 2 \<and> trace_ok [] (ho_events h)"
  using small_tree_reachable recorded_events_form_tree by blast

theorem tool_call_recorded_or_thrown_witness:
  "case recordToolCallEvent (\<lambda>_. js ''7'') knot_heap (createPayloadSafety None None None) (js ''r'') (js ''s'') (js ''t'')
      \<lparr>rt_toolName = js ''search'', rt_input = VRef 0, rt_output = VNull, rt_startedAt = Some 5, rt_completedAt = Some 3,
       rt_success = True, rt_error = None\<rparr> of
     Inl _ \<Rightarrow> False
   | Inr e \<Rightarrow> jget (ev_payload e) (js ''durationMs'') = Some (JNum 0)"
proof -
  have "readable (hp_object knot_heap a)" for a by (simp add: knot_heap_def readable_def)
  from tool_call_recorded_or_thrown [OF this, where numText = "\<lambda>_. js ''7''" and ps = "createPayloadSafety None None None" and
      runId = "js ''r''" and stepId = "js ''s''" and i = "js ''t''" and
      call = "\<lparr>rt_toolName = js ''search'', rt_input = VRef 0, rt_output = VNull, rt_startedAt = Some 5, rt_completedAt = Some 3,
       rt_success = True, rt_error = None\<rparr>"]
  show ?thesis by (simp split: sum.splits)
qed

end
