(* ===== verification/Runs_Read.thy ===== *)
theory Runs_Read
  imports Telemetry_Store Entity_Writers Js_Sort
begin

text \<open>
  \<^verbatim>\<open>platform/api/src/runs\<close>: reading runs back, with the views of \<^verbatim>\<open>platform/shared/read\<close>.  A query
  sees the rows of a table in some physical order, which is the argument \<open>rows\<close>; the database sorts
  them as the query asks, texts by its collation, whose rank is the argument \<open>collate\<close>.  Times are
  printed in the views.
\<close>

section \<open>Records and views\<close>

definition toMetadata :: "zod_parser \<Rightarrow> json \<Rightarrow> json" where
  "toMetadata safeParse v =
     (if v = JNull then JNull
      else case safeParse MetadataSchema (Some v) of Inr parsed \<Rightarrow> parsed | Inl _ \<Rightarrow> JNull)"

record RunRecord =
  rd_id :: jstr
  rd_traceId :: jstr
  rd_workflowName :: json
  rd_workflowVersion :: json
  rd_status :: MergeEntityStatus
  rd_startedAt :: "int option"
  rd_completedAt :: "int option"
  rd_receivedAt :: int
  rd_lastEventAt :: int
  rd_metadata :: json
  rd_droppedTelemetryEventCount :: "int option"

definition toRunRecord :: "zod_parser \<Rightarrow> RunRow \<Rightarrow> RunRecord" where
  "toRunRecord safeParse row = \<lparr>rd_id = rr_id row, rd_traceId = rr_traceId row,
     rd_workflowName = rc_workflowName (rr_columns row), rd_workflowVersion = rc_workflowVersion (rr_columns row),
     rd_status = rc_status (rr_columns row), rd_startedAt = rc_startedAt (rr_columns row),
     rd_completedAt = rc_completedAt (rr_columns row), rd_receivedAt = rr_receivedAt row,
     rd_lastEventAt = rc_lastEventAt (rr_columns row), rd_metadata = toMetadata safeParse (rc_metadata (rr_columns row)),
     rd_droppedTelemetryEventCount = rr_droppedTelemetryEventCount row\<rparr>"

record StepView =
  sv_id :: jstr
  sv_runId :: jstr
  sv_parentStepId :: "jstr option"
  sv_name :: json
  sv_agentName :: json
  sv_type :: json
  sv_status :: MergeEntityStatus
  sv_startedAt :: "jstr option"
  sv_completedAt :: "jstr option"
  sv_receivedAt :: jstr
  sv_metadata :: json

text \<open>The column \<^verbatim>\<open>parentStepId\<close> holds a text or nothing.\<close>

definition text_column :: "json \<Rightarrow> jstr option" where
  "text_column v = (case v of JStr s \<Rightarrow> Some s | _ \<Rightarrow> None)"

definition toIsoOrNull :: "int option \<Rightarrow> jstr option" where
  "toIsoOrNull instant = map_option toISOString instant"

definition toStepView :: "zod_parser \<Rightarrow> StepRow \<Rightarrow> StepView" where
  "toStepView safeParse row = \<lparr>sv_id = sr_id row, sv_runId = sr_runId row,
     sv_parentStepId = text_column (sc_parentStepId (sr_columns row)), sv_name = sc_name (sr_columns row),
     sv_agentName = sc_agentName (sr_columns row), sv_type = sc_type (sr_columns row), sv_status = sc_status (sr_columns row),
     sv_startedAt = toIsoOrNull (sc_startedAt (sr_columns row)), sv_completedAt = toIsoOrNull (sc_completedAt (sr_columns row)),
     sv_receivedAt = toISOString (sr_receivedAt row), sv_metadata = toMetadata safeParse (sc_metadata (sr_columns row))\<rparr>"

section \<open>Staleness\<close>

datatype RunViewStatus = ViewRunning | ViewCompleted | ViewFailed | ViewStale

definition stored_view_status :: "MergeEntityStatus \<Rightarrow> RunViewStatus" where
  "stored_view_status st = (case st of RUNNING \<Rightarrow> ViewRunning | COMPLETED \<Rightarrow> ViewCompleted | FAILED \<Rightarrow> ViewFailed)"

definition deriveRunViewStatus :: "MergeEntityStatus \<Rightarrow> int \<Rightarrow> int \<Rightarrow> int \<Rightarrow> RunViewStatus" where
  "deriveRunViewStatus storedStatus lastEventAt now staleThresholdMs =
     (if storedStatus \<noteq> RUNNING then stored_view_status storedStatus
      else let idleMs = now - lastEventAt in if staleThresholdMs < idleMs then ViewStale else ViewRunning)"

record RunSummaryView =
  rv_id :: jstr
  rv_traceId :: jstr
  rv_workflowName :: json
  rv_workflowVersion :: json
  rv_status :: RunViewStatus
  rv_startedAt :: "jstr option"
  rv_completedAt :: "jstr option"
  rv_receivedAt :: jstr
  rv_lastEventAt :: jstr
  rv_metadata :: json

definition toRunSummaryView :: "int \<Rightarrow> RunRecord \<Rightarrow> int \<Rightarrow> RunSummaryView" where
  "toRunSummaryView staleThresholdMs r now = \<lparr>rv_id = rd_id r, rv_traceId = rd_traceId r,
     rv_workflowName = rd_workflowName r, rv_workflowVersion = rd_workflowVersion r,
     rv_status = deriveRunViewStatus (rd_status r) (rd_lastEventAt r) now staleThresholdMs,
     rv_startedAt = toIsoOrNull (rd_startedAt r), rv_completedAt = toIsoOrNull (rd_completedAt r),
     rv_receivedAt = toISOString (rd_receivedAt r), rv_lastEventAt = toISOString (rd_lastEventAt r),
     rv_metadata = rd_metadata r\<rparr>"

section \<open>Queries\<close>

definition run_list_key :: "(jstr \<Rightarrow> int) \<Rightarrow> RunRow \<Rightarrow> int \<times> int" where
  "run_list_key collate row = (- rr_receivedAt row, - collate (rr_id row))"

definition listRuns :: "zod_parser \<Rightarrow> (jstr \<Rightarrow> int) \<Rightarrow> RunRow list \<Rightarrow> nat \<Rightarrow> nat \<Rightarrow> RunRecord list" where
  "listRuns safeParse collate rows tak skip =
     map (toRunRecord safeParse) (take tak (drop skip (sort_key (run_list_key collate) rows)))"

record RunListView =
  rl_runs :: "RunSummaryView list"
  rl_limit :: nat
  rl_offset :: nat
  rl_hasMore :: bool

definition list_runs :: "zod_parser \<Rightarrow> (jstr \<Rightarrow> int) \<Rightarrow> int \<Rightarrow> RunRow list \<Rightarrow> int \<Rightarrow> nat \<Rightarrow> nat \<Rightarrow> RunListView" where
  "list_runs safeParse collate staleThresholdMs rows now limit offset =
     (let records = listRuns safeParse collate rows (limit + 1) offset;
          page = take limit records
      in \<lparr>rl_runs = map (\<lambda>r. toRunSummaryView staleThresholdMs r now) page, rl_limit = limit, rl_offset = offset,
           rl_hasMore = limit < length records\<rparr>)"

definition step_list_key :: "(jstr \<Rightarrow> int) \<Rightarrow> StepRow \<Rightarrow> int \<times> int" where
  "step_list_key collate row = (sr_receivedAt row, collate (sr_id row))"

definition listSteps :: "zod_parser \<Rightarrow> (jstr \<Rightarrow> int) \<Rightarrow> StepRow list \<Rightarrow> jstr \<Rightarrow> StepView list" where
  "listSteps safeParse collate rows runId =
     map (toStepView safeParse) (sort_key (step_list_key collate) (filter (\<lambda>r. sr_runId r = runId) rows))"

section \<open>The roll-up of a run\<close>

record ModelCallMetrics =
  mm_latencyMs :: int
  mm_inputTokens :: "int option"
  mm_outputTokens :: "int option"

record RunSummary =
  su_runId :: jstr
  su_modelCallCount :: nat
  su_inputTokens :: int
  su_outputTokens :: int
  su_modelCallsMissingInputTokens :: nat
  su_modelCallsMissingOutputTokens :: nat
  su_totalModelLatencyMs :: int
  su_toolCallCount :: nat
  su_failedToolCallCount :: nat
  su_droppedTelemetryEventCount :: "int option"

text \<open>The body of the loop over model calls, on the five counters.\<close>

definition add_model_call :: "ModelCallMetrics \<Rightarrow> RunSummary \<Rightarrow> RunSummary" where
  "add_model_call call s =
     (let s1 = s\<lparr>su_totalModelLatencyMs := su_totalModelLatencyMs s + mm_latencyMs call\<rparr>;
          s2 = (case mm_inputTokens call of
                  None \<Rightarrow> s1\<lparr>su_modelCallsMissingInputTokens := su_modelCallsMissingInputTokens s1 + 1\<rparr>
                | Some n \<Rightarrow> s1\<lparr>su_inputTokens := su_inputTokens s1 + n\<rparr>)
      in case mm_outputTokens call of
           None \<Rightarrow> s2\<lparr>su_modelCallsMissingOutputTokens := su_modelCallsMissingOutputTokens s2 + 1\<rparr>
         | Some n \<Rightarrow> s2\<lparr>su_outputTokens := su_outputTokens s2 + n\<rparr>)"

definition aggregateRunSummary :: "jstr \<Rightarrow> ModelCallMetrics list \<Rightarrow> bool list \<Rightarrow> int option \<Rightarrow> RunSummary" where
  "aggregateRunSummary runId modelCalls toolCalls dropped =
     fold (\<lambda>success s. if \<not> success then s\<lparr>su_failedToolCallCount := su_failedToolCallCount s + 1\<rparr> else s) toolCalls
       (fold add_model_call modelCalls
         \<lparr>su_runId = runId, su_modelCallCount = length modelCalls, su_inputTokens = 0, su_outputTokens = 0,
          su_modelCallsMissingInputTokens = 0, su_modelCallsMissingOutputTokens = 0, su_totalModelLatencyMs = 0,
          su_toolCallCount = length toolCalls, su_failedToolCallCount = 0, su_droppedTelemetryEventCount = dropped\<rparr>)"

section \<open>Paging\<close>

lemma page_alt:
  "rl_runs (list_runs safeParse collate thr rows now limit offset) =
     map (\<lambda>row. toRunSummaryView thr (toRunRecord safeParse row) now) (take limit (drop offset (sort_key (run_list_key collate) rows)))"
  "rl_hasMore (list_runs safeParse collate thr rows now limit offset) \<longleftrightarrow> offset + limit < length rows"
  by (auto simp: list_runs_def listRuns_def Let_def take_map)

lemma pages_concat: "concat (map (\<lambda>k. take n (drop (k * n) xs)) [0..<m]) = take (m * n) xs"
proof (induction m)
  case (Suc m)
  have "take (Suc m * n) xs = take (m * n) xs @ take n (drop (m * n) xs)"
    using take_add [of "m * n" n xs] by (simp add: add.commute)
  thus ?case using Suc by simp
qed simp

text \<open>The pages of the run list are a partition: read one after the other, the pages of any size are the
  whole list in its order, so that no run is repeated or skipped; the list does not depend on the
  physical order of the rows; and \<^verbatim>\<open>hasMore\<close> is true exactly if the next page is not empty.\<close>

theorem run_pages_partition:
  assumes "0 < limit" "inj_on collate (rr_id ` set rows)" "distinct (map rr_id rows)" "mset rows' = mset rows"
    "length rows \<le> m * limit"
  shows "concat (map (\<lambda>k. rl_runs (list_runs safeParse collate thr rows' now limit (k * limit))) [0..<m]) =
      map (\<lambda>row. toRunSummaryView thr (toRunRecord safeParse row) now) (sort_key (run_list_key collate) rows) \<and>
    (\<forall>k. rl_hasMore (list_runs safeParse collate thr rows' now limit (k * limit)) \<longleftrightarrow>
       rl_runs (list_runs safeParse collate thr rows' now limit (Suc k * limit)) \<noteq> [])"
proof -
  have "inj_on (run_list_key collate) (set rows)"
    using assms(2,3) by (fastforce simp: inj_on_def run_list_key_def distinct_map)
  hence s: "sort_key (run_list_key collate) rows' = sort_key (run_list_key collate) rows"
    using sort_key_perm [of rows rows' "run_list_key collate"] assms(4) by simp
  have len: "length rows' = length rows" using arg_cong [OF assms(4), of size] by simp
  let ?f = "\<lambda>row. toRunSummaryView thr (toRunRecord safeParse row) now"
  let ?xs = "sort_key (run_list_key collate) rows"
  have "concat (map (\<lambda>k. map ?f (take limit (drop (k * limit) ?xs))) [0..<m]) =
      map ?f (concat (map (\<lambda>k. take limit (drop (k * limit) ?xs)) [0..<m]))"
    by (simp add: map_concat comp_def)
  also have "\<dots> = map ?f ?xs" using assms(5) by (simp add: pages_concat)
  finally show ?thesis using assms(1) by (auto simp: page_alt s len)
qed

section \<open>Liveness\<close>

text \<open>A run is stale only after real silence: when an event of one of its steps is ingested at some time,
  the run is not shown as stale at any moment up to the threshold after it; a run that is shown as stale
  stays so while nothing arrives; and a run that has ended is never shown as stale.\<close>

theorem stale_means_silent:
  assumes "ts_runs st runId = Some row" "0 \<le> thr"
  shows "\<exists>row'. ts_runs (touchRunLiveness st runId t) runId = Some row' \<and>
     (now \<le> t + thr \<longrightarrow> deriveRunViewStatus (rc_status (rr_columns row')) (rc_lastEventAt (rr_columns row')) now thr \<noteq> ViewStale) \<and>
     (deriveRunViewStatus (rc_status (rr_columns row)) (rc_lastEventAt (rr_columns row)) now thr = ViewStale \<and> now \<le> later \<longrightarrow>
        deriveRunViewStatus (rc_status (rr_columns row)) (rc_lastEventAt (rr_columns row)) later thr = ViewStale) \<and>
     (rc_status (rr_columns row) \<noteq> RUNNING \<longrightarrow>
        deriveRunViewStatus (rc_status (rr_columns row')) (rc_lastEventAt (rr_columns row')) now thr \<noteq> ViewStale)"
  using assms
  by (cases "rc_status (rr_columns row)")
     (auto simp: touchRunLiveness_def deriveRunViewStatus_def stored_view_status_def Let_def)

section \<open>The roll-up\<close>

lemma add_model_calls:
  "fold add_model_call calls s = s\<lparr>
     su_inputTokens := su_inputTokens s + (\<Sum>c\<leftarrow>calls. coalesce (mm_inputTokens c) 0),
     su_outputTokens := su_outputTokens s + (\<Sum>c\<leftarrow>calls. coalesce (mm_outputTokens c) 0),
     su_modelCallsMissingInputTokens := su_modelCallsMissingInputTokens s + length (filter (\<lambda>c. mm_inputTokens c = None) calls),
     su_modelCallsMissingOutputTokens := su_modelCallsMissingOutputTokens s + length (filter (\<lambda>c. mm_outputTokens c = None) calls),
     su_totalModelLatencyMs := su_totalModelLatencyMs s + (\<Sum>c\<leftarrow>calls. mm_latencyMs c)\<rparr>"
  by (induction calls arbitrary: s) (auto simp: add_model_call_def Let_def split: option.split)

lemma failed_calls:
  "fold (\<lambda>success s. if \<not> success then s\<lparr>su_failedToolCallCount := su_failedToolCallCount s + 1\<rparr> else s) calls s =
     s\<lparr>su_failedToolCallCount := su_failedToolCallCount s + length (filter Not calls)\<rparr>"
  by (induction calls arbitrary: s) auto

text \<open>The roll-up counts what is stored and says what is missing: totals are the sums over the calls that
  reported a count, the calls that did not are counted apart, failures are the calls without success, the drop
  count is passed on without turning nothing into zero, and the order of the rows does not matter.\<close>

theorem run_summary_exact:
  assumes "mset modelCalls' = mset modelCalls" "mset toolCalls' = mset toolCalls"
  shows "aggregateRunSummary runId modelCalls' toolCalls' dropped = \<lparr>su_runId = runId, su_modelCallCount = length modelCalls,
     su_inputTokens = (\<Sum>c\<leftarrow>modelCalls. coalesce (mm_inputTokens c) 0),
     su_outputTokens = (\<Sum>c\<leftarrow>modelCalls. coalesce (mm_outputTokens c) 0),
     su_modelCallsMissingInputTokens = length (filter (\<lambda>c. mm_inputTokens c = None) modelCalls),
     su_modelCallsMissingOutputTokens = length (filter (\<lambda>c. mm_outputTokens c = None) modelCalls),
     su_totalModelLatencyMs = (\<Sum>c\<leftarrow>modelCalls. mm_latencyMs c), su_toolCallCount = length toolCalls,
     su_failedToolCallCount = length (filter Not toolCalls), su_droppedTelemetryEventCount = dropped\<rparr>"
proof -
  have perm: "sum_list (map f xs) = sum_list (map f ys)" "length (filter P xs) = length (filter P ys)" "length xs = length ys"
    if "mset xs = mset ys" for xs ys :: "'x list" and f :: "'x \<Rightarrow> int" and P
    using that by (metis mset_map sum_mset_sum_list, metis mset_filter size_mset, metis size_mset)
  show ?thesis
    using perm [OF assms(1)] perm [OF assms(2)] by (simp add: aggregateRunSummary_def add_model_calls failed_calls)
qed

section \<open>At work\<close>

definition listed_row :: "jstr \<Rightarrow> RunRow" where
  "listed_row i = \<lparr>rr_id = i, rr_traceId = i, rr_receivedAt = 5, rr_columns = \<lparr>rc_status = RUNNING, rc_startedAt = None,
     rc_completedAt = None, rc_lastEventAt = 5, rc_startEventId = None, rc_completionEventId = None, rc_workflowName = JNull,
     rc_workflowVersion = JNull, rc_metadata = JNull, rc_completionFieldOrigins = None\<rparr>, rr_droppedTelemetryEventCount = None\<rparr>"

theorem run_pages_partition_witness:
  "concat (map (\<lambda>k. rl_runs (list_runs zod_ref (\<lambda>s. int (length s)) 10 [listed_row (js ''a''), listed_row (js ''bb'')] 7 1 (k * 1))) [0..<2]) =
     map (\<lambda>row. toRunSummaryView 10 (toRunRecord zod_ref row) 7) [listed_row (js ''bb''), listed_row (js ''a'')]"
proof -
  let ?rows = "[listed_row (js ''a''), listed_row (js ''bb'')]" and ?c = "\<lambda>s :: jstr. int (length s)"
  have "inj_on ?c (rr_id ` set ?rows)" "distinct (map rr_id ?rows)" by (simp_all add: listed_row_def inj_on_def)
  moreover have "sort_key (run_list_key ?c) ?rows = [listed_row (js ''bb''), listed_row (js ''a'')]"
    by (simp add: run_list_key_def listed_row_def)
  ultimately show ?thesis
    using run_pages_partition [of 1 ?c ?rows ?rows 2 zod_ref 10 7] by simp
qed

theorem stale_means_silent_witness:
  "\<exists>row'. ts_runs (touchRunLiveness (one_run_store\<lparr>ts_runs := [js ''r'' \<mapsto> listed_row (js ''r'')]\<rparr>) (js ''r'') 8) (js ''r'') = Some row' \<and>
     deriveRunViewStatus (rc_status (rr_columns row')) (rc_lastEventAt (rr_columns row')) 18 10 \<noteq> ViewStale"
  using stale_means_silent [of "one_run_store\<lparr>ts_runs := [js ''r'' \<mapsto> listed_row (js ''r'')]\<rparr>" "js ''r''" "listed_row (js ''r'')" 10 8 18]
  by auto

theorem run_summary_exact_witness:
  "su_inputTokens (aggregateRunSummary (js ''r'') [\<lparr>mm_latencyMs = 3, mm_inputTokens = Some 4, mm_outputTokens = None\<rparr>] [True, False] None) = 4"
  using run_summary_exact [of "[\<lparr>mm_latencyMs = 3, mm_inputTokens = Some 4, mm_outputTokens = None\<rparr>]"
      "[\<lparr>mm_latencyMs = 3, mm_inputTokens = Some 4, mm_outputTokens = None\<rparr>]" "[True, False]" "[True, False]" "js ''r''" None]
  by simp

end
