(* ===== verification/Run_Detail.thy ===== *)
theory Run_Detail
  imports Runs_Read
begin

text \<open>
  The rest of \<^verbatim>\<open>platform/api/src/runs\<close>: one run with everything recorded against it, its roll-up, and
  the controller that answers requests.  What the database decides is the record \<open>Database\<close>: the
  order in which it scans the rows of each table, its collation, and the creation times its clock gave.
\<close>

section \<open>The database's side of a query\<close>

record Database =
  db_collate :: "jstr \<Rightarrow> int"
  db_runs :: "jstr list"
  db_steps :: "jstr list"
  db_decisions :: "jstr list"
  db_modelCalls :: "jstr list"
  db_toolCalls :: "jstr list"
  db_errors :: "jstr list"
  db_decisionCreatedAt :: "jstr \<Rightarrow> int"
  db_modelCallCreatedAt :: "jstr \<Rightarrow> int"
  db_errorCreatedAt :: "jstr \<Rightarrow> int"

definition table_rows :: "jstr list \<Rightarrow> (jstr \<rightharpoonup> 'r) \<Rightarrow> (jstr \<times> 'r) list" where
  "table_rows ids tab = List.map_filter (\<lambda>i. map_option (Pair i) (tab i)) ids"

text \<open>\<^verbatim>\<open>findMany\<close> with \<^verbatim>\<open>where: { runId }\<close> and an order by an instant, ties broken on the id.\<close>

definition findManyOfRun :: "Database \<Rightarrow> jstr list \<Rightarrow> (jstr \<rightharpoonup> 'r) \<Rightarrow> ('r \<Rightarrow> jstr) \<Rightarrow> (jstr \<Rightarrow> 'r \<Rightarrow> int) \<Rightarrow> jstr \<Rightarrow> (jstr \<times> 'r) list" where
  "findManyOfRun db ids tab runIdOf instant runId =
     sort_key (\<lambda>(i, r). (instant i r, db_collate db i)) (filter (\<lambda>(i, r). runIdOf r = runId) (table_rows ids tab))"

section \<open>Records and views\<close>

definition OptionListSchema :: zod where "OptionListSchema = ZArray (ZString 0 None) 0 None"

definition toOptionList :: "zod_parser \<Rightarrow> json \<Rightarrow> json" where
  "toOptionList safeParse v =
     (if v = JNull then JNull
      else case safeParse OptionListSchema (Some v) of Inr parsed \<Rightarrow> parsed | Inl _ \<Rightarrow> JNull)"

record DecisionReadRecord =
  dd_id :: jstr
  dd_runId :: jstr
  dd_stepId :: json
  dd_decisionType :: json
  dd_contextKey :: json
  dd_contextKeyVersion :: json
  dd_rawContext :: json
  dd_availableOptions :: json
  dd_selectedOption :: json
  dd_outcome :: json
  dd_outcomeAttestedBy :: OutcomeAttestedBy
  dd_outcomeObservedAt :: "int option"
  dd_createdAt :: int

definition toDecisionRecord :: "zod_parser \<Rightarrow> jstr \<Rightarrow> DecisionRow \<Rightarrow> int \<Rightarrow> DecisionReadRecord" where
  "toDecisionRecord safeParse i row createdAt = \<lparr>dd_id = i, dd_runId = dr_runId row, dd_stepId = dr_stepId row,
     dd_decisionType = dr_decisionType row, dd_contextKey = dr_contextKey row,
     dd_contextKeyVersion = dr_contextKeyVersion row, dd_rawContext = toMetadata safeParse (dr_rawContext row),
     dd_availableOptions = toOptionList safeParse (dr_availableOptions row), dd_selectedOption = dr_selectedOption row,
     dd_outcome = dr_outcome row, dd_outcomeAttestedBy = dr_outcomeAttestedBy row,
     dd_outcomeObservedAt = dr_outcomeObservedAt row, dd_createdAt = createdAt\<rparr>"

record DecisionView =
  dv_id :: jstr
  dv_runId :: jstr
  dv_stepId :: json
  dv_decisionType :: json
  dv_contextKey :: json
  dv_contextKeyVersion :: json
  dv_rawContext :: json
  dv_availableOptions :: json
  dv_selectedOption :: json
  dv_outcome :: json
  dv_outcomeAttestedBy :: OutcomeAttestedBy
  dv_outcomeObservedAt :: "jstr option"
  dv_createdAt :: jstr

definition toDecisionView :: "DecisionReadRecord \<Rightarrow> DecisionView" where
  "toDecisionView r = \<lparr>dv_id = dd_id r, dv_runId = dd_runId r, dv_stepId = dd_stepId r,
     dv_decisionType = dd_decisionType r, dv_contextKey = dd_contextKey r, dv_contextKeyVersion = dd_contextKeyVersion r,
     dv_rawContext = dd_rawContext r, dv_availableOptions = dd_availableOptions r, dv_selectedOption = dd_selectedOption r,
     dv_outcome = dd_outcome r, dv_outcomeAttestedBy = dd_outcomeAttestedBy r,
     dv_outcomeObservedAt = toIsoOrNull (dd_outcomeObservedAt r), dv_createdAt = toISOString (dd_createdAt r)\<rparr>"

record ModelCallRecord =
  md_id :: jstr
  md_runId :: jstr
  md_stepId :: json
  md_provider :: json
  md_model :: json
  md_latencyMs :: json
  md_inputTokens :: json
  md_outputTokens :: json
  md_status :: json
  md_metadata :: json
  md_createdAt :: int

definition toModelCallRecord :: "zod_parser \<Rightarrow> jstr \<Rightarrow> ModelCallRow \<Rightarrow> int \<Rightarrow> ModelCallRecord" where
  "toModelCallRecord safeParse i row createdAt = \<lparr>md_id = i, md_runId = mr_runId row, md_stepId = mr_stepId row,
     md_provider = mr_provider row, md_model = mr_model row, md_latencyMs = mr_latencyMs row,
     md_inputTokens = mr_inputTokens row, md_outputTokens = mr_outputTokens row, md_status = mr_status row,
     md_metadata = toMetadata safeParse (mr_metadata row), md_createdAt = createdAt\<rparr>"

record ModelCallView =
  mv_id :: jstr
  mv_runId :: jstr
  mv_stepId :: json
  mv_provider :: json
  mv_model :: json
  mv_latencyMs :: json
  mv_inputTokens :: json
  mv_outputTokens :: json
  mv_status :: json
  mv_metadata :: json
  mv_createdAt :: jstr

definition toModelCallView :: "ModelCallRecord \<Rightarrow> ModelCallView" where
  "toModelCallView r = \<lparr>mv_id = md_id r, mv_runId = md_runId r, mv_stepId = md_stepId r, mv_provider = md_provider r,
     mv_model = md_model r, mv_latencyMs = md_latencyMs r, mv_inputTokens = md_inputTokens r,
     mv_outputTokens = md_outputTokens r, mv_status = md_status r, mv_metadata = md_metadata r,
     mv_createdAt = toISOString (md_createdAt r)\<rparr>"

record ToolCallReadRecord =
  td_id :: jstr
  td_runId :: jstr
  td_stepId :: json
  td_toolName :: json
  td_input :: json
  td_output :: json
  td_inputTruncated :: json
  td_outputTruncated :: json
  td_inputBytes :: json
  td_outputBytes :: json
  td_startedAt :: int
  td_completedAt :: int
  td_durationMs :: json
  td_success :: json
  td_error :: json

definition toToolCallRecord :: "jstr \<Rightarrow> ToolCallRow \<Rightarrow> ToolCallReadRecord" where
  "toToolCallRecord i row = \<lparr>td_id = i, td_runId = tr_runId row, td_stepId = tr_stepId row,
     td_toolName = tr_toolName row, td_input = tr_input row, td_output = tr_output row,
     td_inputTruncated = tr_inputTruncated row, td_outputTruncated = tr_outputTruncated row,
     td_inputBytes = tr_inputBytes row, td_outputBytes = tr_outputBytes row, td_startedAt = tr_startedAt row,
     td_completedAt = tr_completedAt row, td_durationMs = tr_durationMs row, td_success = tr_success row,
     td_error = tr_error row\<rparr>"

record ToolCallView =
  tv_id :: jstr
  tv_runId :: jstr
  tv_stepId :: json
  tv_toolName :: json
  tv_input :: json
  tv_output :: json
  tv_inputTruncated :: json
  tv_outputTruncated :: json
  tv_inputBytes :: json
  tv_outputBytes :: json
  tv_startedAt :: jstr
  tv_completedAt :: jstr
  tv_durationMs :: json
  tv_success :: json
  tv_error :: json

definition toToolCallView :: "ToolCallReadRecord \<Rightarrow> ToolCallView" where
  "toToolCallView r = \<lparr>tv_id = td_id r, tv_runId = td_runId r, tv_stepId = td_stepId r, tv_toolName = td_toolName r,
     tv_input = td_input r, tv_output = td_output r, tv_inputTruncated = td_inputTruncated r,
     tv_outputTruncated = td_outputTruncated r, tv_inputBytes = td_inputBytes r, tv_outputBytes = td_outputBytes r,
     tv_startedAt = toISOString (td_startedAt r), tv_completedAt = toISOString (td_completedAt r),
     tv_durationMs = td_durationMs r, tv_success = td_success r, tv_error = td_error r\<rparr>"

record ErrorRecord =
  ed_id :: jstr
  ed_runId :: jstr
  ed_stepId :: json
  ed_type :: json
  ed_message :: json
  ed_metadata :: json
  ed_createdAt :: int

definition toErrorRecord :: "zod_parser \<Rightarrow> jstr \<Rightarrow> ErrorRow \<Rightarrow> int \<Rightarrow> ErrorRecord" where
  "toErrorRecord safeParse i row createdAt = \<lparr>ed_id = i, ed_runId = er_runId row, ed_stepId = er_stepId row,
     ed_type = er_type row, ed_message = er_message row, ed_metadata = toMetadata safeParse (er_metadata row),
     ed_createdAt = createdAt\<rparr>"

record ErrorView =
  ev_id :: jstr
  ev_runId :: jstr
  ev_stepId :: json
  ev_type :: json
  ev_message :: json
  ev_metadata :: json
  ev_createdAt :: jstr

definition toErrorView :: "ErrorRecord \<Rightarrow> ErrorView" where
  "toErrorView r = \<lparr>ev_id = ed_id r, ev_runId = ed_runId r, ev_stepId = ed_stepId r, ev_type = ed_type r,
     ev_message = ed_message r, ev_metadata = ed_metadata r, ev_createdAt = toISOString (ed_createdAt r)\<rparr>"

section \<open>The repository\<close>

definition findRun :: "zod_parser \<Rightarrow> PlatformStore \<Rightarrow> jstr \<Rightarrow> RunRecord option" where
  "findRun safeParse st runId = map_option (toRunRecord safeParse) (ts_runs (ps_telemetry st) runId)"

definition listDecisions :: "zod_parser \<Rightarrow> Database \<Rightarrow> PlatformStore \<Rightarrow> jstr \<Rightarrow> DecisionReadRecord list" where
  "listDecisions safeParse db st runId =
     map (\<lambda>(i, row). toDecisionRecord safeParse i row (db_decisionCreatedAt db i))
       (findManyOfRun db (db_decisions db) (ps_decisions st) dr_runId (\<lambda>i _. db_decisionCreatedAt db i) runId)"

definition listModelCalls :: "zod_parser \<Rightarrow> Database \<Rightarrow> PlatformStore \<Rightarrow> jstr \<Rightarrow> ModelCallRecord list" where
  "listModelCalls safeParse db st runId =
     map (\<lambda>(i, row). toModelCallRecord safeParse i row (db_modelCallCreatedAt db i))
       (findManyOfRun db (db_modelCalls db) (ps_modelCalls st) mr_runId (\<lambda>i _. db_modelCallCreatedAt db i) runId)"

definition listToolCalls :: "Database \<Rightarrow> PlatformStore \<Rightarrow> jstr \<Rightarrow> ToolCallReadRecord list" where
  "listToolCalls db st runId =
     map (\<lambda>(i, row). toToolCallRecord i row)
       (findManyOfRun db (db_toolCalls db) (ps_toolCalls st) tr_runId (\<lambda>_ row. tr_startedAt row) runId)"

definition listErrors :: "zod_parser \<Rightarrow> Database \<Rightarrow> PlatformStore \<Rightarrow> jstr \<Rightarrow> ErrorRecord list" where
  "listErrors safeParse db st runId =
     map (\<lambda>(i, row). toErrorRecord safeParse i row (db_errorCreatedAt db i))
       (findManyOfRun db (db_errors db) (ps_errors st) er_runId (\<lambda>i _. db_errorCreatedAt db i) runId)"

text \<open>An integer column; \<^verbatim>\<open>latencyMs\<close> is never null and \<^verbatim>\<open>success\<close> is a boolean column.\<close>

definition int_column :: "json \<Rightarrow> int option" where
  "int_column v = (case v of JNum q \<Rightarrow> Some \<lfloor>q\<rfloor> | _ \<Rightarrow> None)"

definition listModelCallMetrics :: "Database \<Rightarrow> PlatformStore \<Rightarrow> jstr \<Rightarrow> ModelCallMetrics list" where
  "listModelCallMetrics db st runId =
     map (\<lambda>(i, row). \<lparr>mm_latencyMs = coalesce (int_column (mr_latencyMs row)) 0,
         mm_inputTokens = int_column (mr_inputTokens row), mm_outputTokens = int_column (mr_outputTokens row)\<rparr>)
       (filter (\<lambda>(i, row). mr_runId row = runId) (table_rows (db_modelCalls db) (ps_modelCalls st)))"

definition listToolCallMetrics :: "Database \<Rightarrow> PlatformStore \<Rightarrow> jstr \<Rightarrow> bool list" where
  "listToolCallMetrics db st runId =
     map (\<lambda>(i, row). tr_success row = JBool True)
       (filter (\<lambda>(i, row). tr_runId row = runId) (table_rows (db_toolCalls db) (ps_toolCalls st)))"

section \<open>The service and the controller\<close>

record RunDetailView = RunSummaryView +
  rt_steps :: "StepView list"
  rt_decisions :: "DecisionView list"
  rt_modelCalls :: "ModelCallView list"
  rt_toolCalls :: "ToolCallView list"
  rt_errors :: "ErrorView list"

definition findById :: "zod_parser \<Rightarrow> Database \<Rightarrow> int \<Rightarrow> PlatformStore \<Rightarrow> int \<Rightarrow> jstr \<Rightarrow> RunDetailView option" where
  "findById safeParse db staleThresholdMs st now runId =
     (case findRun safeParse st runId of
        None \<Rightarrow> None
      | Some r \<Rightarrow> Some (RunSummaryView.extend (toRunSummaryView staleThresholdMs r now) (RunDetailView.fields
          (listSteps safeParse (db_collate db) (map snd (table_rows (db_steps db) (ts_steps (ps_telemetry st)))) runId)
          (map toDecisionView (listDecisions safeParse db st runId))
          (map toModelCallView (listModelCalls safeParse db st runId))
          (map toToolCallView (listToolCalls db st runId))
          (map toErrorView (listErrors safeParse db st runId)))))"

definition summaryFor :: "zod_parser \<Rightarrow> Database \<Rightarrow> PlatformStore \<Rightarrow> jstr \<Rightarrow> RunSummary option" where
  "summaryFor safeParse db st runId =
     (case findRun safeParse st runId of
        None \<Rightarrow> None
      | Some r \<Rightarrow> Some (aggregateRunSummary (rd_id r) (listModelCallMetrics db st runId) (listToolCallMetrics db st runId)
          (rd_droppedTelemetryEventCount r)))"

datatype HttpError = BadRequest "zod_issue list" | NotFound

definition validated_id :: "zod_parser \<Rightarrow> jstr \<Rightarrow> HttpError + jstr" where
  "validated_id safeParse i =
     (case safeParse IdSchema (Some (JStr i)) of Inl issues \<Rightarrow> Inl (BadRequest issues) | Inr _ \<Rightarrow> Inr i)"

definition run_detail :: "zod_parser \<Rightarrow> Database \<Rightarrow> int \<Rightarrow> PlatformStore \<Rightarrow> int \<Rightarrow> jstr \<Rightarrow> HttpError + RunDetailView" where
  "run_detail safeParse db staleThresholdMs st now i =
     (case validated_id safeParse i of
        Inl e \<Rightarrow> Inl e
      | Inr runId \<Rightarrow> (case findById safeParse db staleThresholdMs st now runId of None \<Rightarrow> Inl NotFound | Some v \<Rightarrow> Inr v))"

definition run_summary :: "zod_parser \<Rightarrow> Database \<Rightarrow> PlatformStore \<Rightarrow> jstr \<Rightarrow> HttpError + RunSummary" where
  "run_summary safeParse db st i =
     (case validated_id safeParse i of
        Inl e \<Rightarrow> Inl e
      | Inr runId \<Rightarrow> (case summaryFor safeParse db st runId of None \<Rightarrow> Inl NotFound | Some v \<Rightarrow> Inr v))"

section \<open>What a query returns\<close>

text \<open>A scan of a table meets every row once; the collation tells different ids apart.\<close>

definition scans :: "Database \<Rightarrow> jstr list \<Rightarrow> (jstr \<rightharpoonup> 'r) \<Rightarrow> bool" where
  "scans db ids tab \<longleftrightarrow> distinct ids \<and> set ids = dom tab \<and> inj_on (db_collate db) (set ids)"

definition database_of :: "Database \<Rightarrow> PlatformStore \<Rightarrow> bool" where
  "database_of db st \<longleftrightarrow> scans db (db_steps db) (ts_steps (ps_telemetry st)) \<and> scans db (db_decisions db) (ps_decisions st) \<and>
     scans db (db_modelCalls db) (ps_modelCalls st) \<and> scans db (db_toolCalls db) (ps_toolCalls st) \<and>
     scans db (db_errors db) (ps_errors st)"

lemma set_table_rows [simp]: "set (table_rows ids tab) = {(i, r). i \<in> set ids \<and> tab i = Some r}"
  by (induction ids) (auto simp: table_rows_def split: option.split)

lemma map_fst_table_rows: "map fst (table_rows ids tab) = filter (\<lambda>i. tab i \<noteq> None) ids"
  by (induction ids) (auto simp: table_rows_def split: option.split)

lemma distinct_filter_fst:
  assumes "distinct (map fst xs)"
  shows "distinct (map fst (filter P xs))"
  using assms by (induction xs) auto

lemma distinct_table_rows:
  assumes "distinct ids"
  shows "distinct (map fst (filter P (table_rows ids tab)))"
  using assms by (simp add: distinct_filter_fst map_fst_table_rows)

lemma findManyOfRun_rows:
  assumes "scans db ids tab"
  shows "set (findManyOfRun db ids tab runIdOf instant runId) = {(i, r). tab i = Some r \<and> runIdOf r = runId}"
    and "distinct (map fst (findManyOfRun db ids tab runIdOf instant runId))"
    and "sorted (map (\<lambda>(i, r). (instant i r, db_collate db i)) (findManyOfRun db ids tab runIdOf instant runId))"
proof -
  let ?xs = "filter (\<lambda>(i, r). runIdOf r = runId) (table_rows ids tab)"
  have "mset (map fst (findManyOfRun db ids tab runIdOf instant runId)) = mset (map fst ?xs)"
    by (simp add: findManyOfRun_def)
  thus "distinct (map fst (findManyOfRun db ids tab runIdOf instant runId))"
    using assms distinct_table_rows mset_eq_imp_distinct_iff unfolding scans_def by blast
qed (use assms in \<open>auto simp: findManyOfRun_def scans_def\<close>)

lemma findManyOfRun_order:
  assumes "scans db ids tab" "scans db' ids' tab" "db_collate db' = db_collate db"
  shows "findManyOfRun db' ids' tab runIdOf instant runId = findManyOfRun db ids tab runIdOf instant runId"
proof -
  let ?xs = "\<lambda>ids. filter (\<lambda>(i, r). runIdOf r = runId) (table_rows ids tab)"
  have "distinct (?xs ids)" "distinct (?xs ids')"
    using assms(1,2) distinct_table_rows distinct_map unfolding scans_def by blast+
  moreover have "set (?xs ids) = set (?xs ids')" using assms(1,2) by (auto simp: scans_def)
  ultimately have "mset (?xs ids) = mset (?xs ids')" using set_eq_iff_mset_eq_distinct by blast
  moreover have "inj_on (\<lambda>(i, r). (instant i r, db_collate db i)) (set (?xs ids))"
    using assms(1) by (fastforce simp: inj_on_def scans_def)
  ultimately show ?thesis
    using sort_key_perm [of "?xs ids" "?xs ids'" "\<lambda>(i, r). (instant i r, db_collate db i)"] assms(3)
    by (simp add: findManyOfRun_def)
qed

text \<open>Steps carry their id as a column, which is their key in the table.\<close>

definition keyed_steps :: "TelemetryStore \<Rightarrow> bool" where
  "keyed_steps st \<longleftrightarrow> (\<forall>i r. ts_steps st i = Some r \<longrightarrow> sr_id r = i)"

lemma keyed_stepsD: "keyed_steps st \<Longrightarrow> ts_steps st i = Some r \<Longrightarrow> sr_id r = i"
  by (simp add: keyed_steps_def)

lemma wf_store_keyed: "wf_store st \<Longrightarrow> keyed_steps st"
  using wf_storeD(2) keyed_steps_def by blast

lemma sort_key_map: "sort_key k (map g xs) = map g (sort_key (k \<circ> g) xs)"
proof -
  have "insort_key k (g x) (map g ys) = map g (insort_key (k \<circ> g) x ys)" for x ys by (induction ys) auto
  thus ?thesis by (induction xs) auto
qed

lemma sort_key_cong_on:
  assumes "\<And>x. x \<in> set xs \<Longrightarrow> k x = k' x"
  shows "sort_key k xs = sort_key k' xs"
proof -
  have ins: "insort_key k x ys = insort_key k' x ys" if "\<forall>y \<in> insert x (set ys). k y = k' y" for x ys
    using that by (induction ys) auto
  show ?thesis using assms
  proof (induction xs)
    case (Cons x xs)
    thus ?case using ins [of x "sort_key k' xs"] by simp
  qed simp
qed

lemma listSteps_rows:
  assumes "\<And>i r. tab i = Some r \<Longrightarrow> sr_id r = i"
  shows "listSteps safeParse (db_collate db) (map snd (table_rows ids tab)) runId =
    map (\<lambda>(i, r). toStepView safeParse r) (findManyOfRun db ids tab sr_runId (\<lambda>_. sr_receivedAt) runId)"
proof -
  let ?xs = "filter (\<lambda>(i, r). sr_runId r = runId) (table_rows ids tab)"
  have "filter (\<lambda>r. sr_runId r = runId) (map snd (table_rows ids tab)) = map snd ?xs"
    by (simp add: filter_map comp_def case_prod_unfold)
  moreover have "sort_key (step_list_key (db_collate db) \<circ> snd) ?xs = sort_key (\<lambda>(i, r). (sr_receivedAt r, db_collate db i)) ?xs"
    by (rule sort_key_cong_on) (auto simp: step_list_key_def assms)
  ultimately show ?thesis by (simp add: listSteps_def findManyOfRun_def sort_key_map comp_def case_prod_unfold)
qed

definition same_answers :: "Database \<Rightarrow> Database \<Rightarrow> bool" where
  "same_answers db db' \<longleftrightarrow> db_collate db' = db_collate db \<and> db_decisionCreatedAt db' = db_decisionCreatedAt db \<and>
     db_modelCallCreatedAt db' = db_modelCallCreatedAt db \<and> db_errorCreatedAt db' = db_errorCreatedAt db"

lemmas detail_defs = findById_def findRun_def listDecisions_def listModelCalls_def listToolCalls_def listErrors_def
  RunSummaryView.defs RunDetailView.defs
lemmas view_defs = toDecisionView_def toDecisionRecord_def toModelCallView_def toModelCallRecord_def
  toToolCallView_def toToolCallRecord_def toErrorView_def toErrorRecord_def toStepView_def

text \<open>The collections of a detail view are queries of the tables.\<close>

lemma detail_parts:
  assumes "findById safeParse db thr st now runId = Some v" "keyed_steps (ps_telemetry st)"
  shows "rt_steps v = map (\<lambda>(i, r). toStepView safeParse r)
      (findManyOfRun db (db_steps db) (ts_steps (ps_telemetry st)) sr_runId (\<lambda>_. sr_receivedAt) runId)"
    "rt_decisions v = map toDecisionView (listDecisions safeParse db st runId)"
    "rt_modelCalls v = map toModelCallView (listModelCalls safeParse db st runId)"
    "rt_toolCalls v = map toToolCallView (listToolCalls db st runId)"
    "rt_errors v = map toErrorView (listErrors safeParse db st runId)"
  using assms(1) listSteps_rows [of "ts_steps (ps_telemetry st)" safeParse db "db_steps db" runId] keyed_stepsD [OF assms(2)]
  by (auto simp: findById_def RunSummaryView.defs RunDetailView.defs split: option.splits)

lemma map_via_fst:
  assumes "\<And>x. f x = fst x"
  shows "map f xs = map fst xs"
  using assms by simp

lemma detail_ids:
  assumes "findById safeParse db thr st now runId = Some v" "keyed_steps (ps_telemetry st)" "database_of db st"
  shows "map sv_id (rt_steps v) = map fst (findManyOfRun db (db_steps db) (ts_steps (ps_telemetry st)) sr_runId (\<lambda>_. sr_receivedAt) runId)"
    "map dv_id (rt_decisions v) = map fst (findManyOfRun db (db_decisions db) (ps_decisions st) dr_runId (\<lambda>i _. db_decisionCreatedAt db i) runId)"
    "map mv_id (rt_modelCalls v) = map fst (findManyOfRun db (db_modelCalls db) (ps_modelCalls st) mr_runId (\<lambda>i _. db_modelCallCreatedAt db i) runId)"
    "map tv_id (rt_toolCalls v) = map fst (findManyOfRun db (db_toolCalls db) (ps_toolCalls st) tr_runId (\<lambda>_ row. tr_startedAt row) runId)"
    "map ev_id (rt_errors v) = map fst (findManyOfRun db (db_errors db) (ps_errors st) er_runId (\<lambda>i _. db_errorCreatedAt db i) runId)"
proof -
  have "scans db (db_steps db) (ts_steps (ps_telemetry st))" using assms(3) by (simp add: database_of_def)
  note rows = findManyOfRun_rows(1) [OF this, of sr_runId "\<lambda>_. sr_receivedAt" runId]
  have "sr_id r = i" if "(i, r) \<in> set (findManyOfRun db (db_steps db) (ts_steps (ps_telemetry st)) sr_runId (\<lambda>_. sr_receivedAt) runId)" for i r
    using that keyed_stepsD [OF assms(2)] unfolding rows by blast
  thus "map sv_id (rt_steps v) = map fst (findManyOfRun db (db_steps db) (ts_steps (ps_telemetry st)) sr_runId (\<lambda>_. sr_receivedAt) runId)"
    by (auto simp: detail_parts [OF assms(1,2)] toStepView_def)
qed (auto simp: detail_parts [OF assms(1,2)] view_defs listDecisions_def listModelCalls_def listToolCalls_def listErrors_def)

lemma listed_ids:
  assumes "scans db ids tab" "map f xs = map fst (findManyOfRun db ids tab rid t runId)"
  shows "distinct (map f xs)" "f ` set xs = {i. \<exists>r. tab i = Some r \<and> rid r = runId}"
proof -
  note rows = findManyOfRun_rows(1,2) [OF assms(1), of rid t runId]
  show "distinct (map f xs)" unfolding assms(2) by (rule rows)
  have "f ` set xs = fst ` set (findManyOfRun db ids tab rid t runId)" using assms(2) by (metis set_map)
  thus "f ` set xs = {i. \<exists>r. tab i = Some r \<and> rid r = runId}" unfolding rows(1) by (auto simp: image_iff)
qed

text \<open>The detail view of a run is complete: it exists exactly for a stored run, and each of its five
  collections shows exactly the stored rows of the run, each once.  It does not depend on the order in which the
  database scans its tables.\<close>

theorem run_detail_complete:
  assumes "keyed_steps (ps_telemetry st)" "database_of db st"
  shows "(findById safeParse db thr st now runId = None \<longleftrightarrow> ts_runs (ps_telemetry st) runId = None) \<and>
    (\<forall>v. findById safeParse db thr st now runId = Some v \<longrightarrow>
       distinct (map sv_id (rt_steps v)) \<and> sv_id ` set (rt_steps v) = {i. \<exists>r. ts_steps (ps_telemetry st) i = Some r \<and> sr_runId r = runId} \<and>
       distinct (map dv_id (rt_decisions v)) \<and> dv_id ` set (rt_decisions v) = {i. \<exists>r. ps_decisions st i = Some r \<and> dr_runId r = runId} \<and>
       distinct (map mv_id (rt_modelCalls v)) \<and> mv_id ` set (rt_modelCalls v) = {i. \<exists>r. ps_modelCalls st i = Some r \<and> mr_runId r = runId} \<and>
       distinct (map tv_id (rt_toolCalls v)) \<and> tv_id ` set (rt_toolCalls v) = {i. \<exists>r. ps_toolCalls st i = Some r \<and> tr_runId r = runId} \<and>
       distinct (map ev_id (rt_errors v)) \<and> ev_id ` set (rt_errors v) = {i. \<exists>r. ps_errors st i = Some r \<and> er_runId r = runId}) \<and>
    (\<forall>db'. database_of db' st \<and> same_answers db db' \<longrightarrow>
       findById safeParse db' thr st now runId = findById safeParse db thr st now runId)"
proof (intro conjI allI impI)
  show "findById safeParse db thr st now runId = None \<longleftrightarrow> ts_runs (ps_telemetry st) runId = None"
    by (simp add: findById_def findRun_def split: option.splits)
next
  fix db' assume a: "database_of db' st \<and> same_answers db db'"
  have perm: "findManyOfRun db' ids' tab f g runId = findManyOfRun db ids tab f g runId"
    if "scans db ids tab" "scans db' ids' tab" for ids ids' and tab :: "jstr \<rightharpoonup> 'r" and f g
    using findManyOfRun_order [OF that] a by (simp add: same_answers_def)
  let ?tab = "ts_steps (ps_telemetry st)"
  note d = assms(2) [unfolded database_of_def] and d' = conjunct1 [OF a, unfolded database_of_def]
    and s = conjunct2 [OF a, unfolded same_answers_def]
  have "\<And>i r. ?tab i = Some r \<Longrightarrow> sr_id r = i" using keyed_stepsD [OF assms(1)] by blast
  hence "listSteps safeParse (db_collate db') (map snd (table_rows (db_steps db') ?tab)) runId =
      listSteps safeParse (db_collate db) (map snd (table_rows (db_steps db) ?tab)) runId"
    using perm [of "db_steps db" ?tab "db_steps db'"] d d' listSteps_rows [of ?tab] by metis
  thus "findById safeParse db' thr st now runId = findById safeParse db thr st now runId"
    unfolding findById_def listDecisions_def listModelCalls_def listToolCalls_def listErrors_def
    using d d' s by (simp add: perm [of "db_decisions db"] perm [of "db_modelCalls db"] perm [of "db_toolCalls db"]
        perm [of "db_errors db"] cong: option.case_cong)
next
  fix v assume v: "findById safeParse db thr st now runId = Some v"
  note d = assms(2) [unfolded database_of_def] and i = detail_ids [OF v assms]
  show "distinct (map sv_id (rt_steps v))" "sv_id ` set (rt_steps v) = {i. \<exists>r. ts_steps (ps_telemetry st) i = Some r \<and> sr_runId r = runId}"
    using listed_ids [OF _ i(1)] d by simp_all
  show "distinct (map dv_id (rt_decisions v))" "dv_id ` set (rt_decisions v) = {i. \<exists>r. ps_decisions st i = Some r \<and> dr_runId r = runId}"
    using listed_ids [OF _ i(2)] d by simp_all
  show "distinct (map mv_id (rt_modelCalls v))" "mv_id ` set (rt_modelCalls v) = {i. \<exists>r. ps_modelCalls st i = Some r \<and> mr_runId r = runId}"
    using listed_ids [OF _ i(3)] d by simp_all
  show "distinct (map tv_id (rt_toolCalls v))" "tv_id ` set (rt_toolCalls v) = {i. \<exists>r. ps_toolCalls st i = Some r \<and> tr_runId r = runId}"
    using listed_ids [OF _ i(4)] d by simp_all
  show "distinct (map ev_id (rt_errors v))" "ev_id ` set (rt_errors v) = {i. \<exists>r. ps_errors st i = Some r \<and> er_runId r = runId}"
    using listed_ids [OF _ i(5)] d by simp_all
qed

text \<open>A view of an entity shows what the payload of its event said.\<close>

definition shows_tool_call :: "TelemetryEvent \<Rightarrow> ToolCallView \<Rightarrow> bool" where
  "shows_tool_call event t \<longleftrightarrow> tv_id t = te_entityId event \<and> tv_runId t = te_runId event \<and>
     tv_stepId t = pget event ''stepId'' \<and> tv_toolName t = pget event ''toolName'' \<and>
     tv_input t = pget event ''input'' \<and> tv_output t = pget event ''output'' \<and>
     tv_inputTruncated t = pget event ''inputTruncated'' \<and> tv_outputTruncated t = pget event ''outputTruncated'' \<and>
     tv_inputBytes t = pget event ''inputBytes'' \<and> tv_outputBytes t = pget event ''outputBytes'' \<and>
     Some (tv_startedAt t) = map_option toISOString (json_date (pget event ''startedAt'')) \<and>
     Some (tv_completedAt t) = map_option toISOString (json_date (pget event ''completedAt'')) \<and>
     tv_durationMs t = pget event ''durationMs'' \<and> tv_success t = pget event ''success'' \<and> tv_error t = pget event ''error''"

definition shows_model_call :: "TelemetryEvent \<Rightarrow> ModelCallView \<Rightarrow> bool" where
  "shows_model_call event m \<longleftrightarrow> mv_id m = te_entityId event \<and> mv_runId m = te_runId event \<and>
     mv_stepId m = pget event ''stepId'' \<and> mv_provider m = pget event ''provider'' \<and> mv_model m = pget event ''model'' \<and>
     mv_latencyMs m = pget event ''latencyMs'' \<and> mv_inputTokens m = pget event ''inputTokens'' \<and>
     mv_outputTokens m = pget event ''outputTokens'' \<and> mv_status m = pget event ''status''"

definition shows_error :: "TelemetryEvent \<Rightarrow> ErrorView \<Rightarrow> bool" where
  "shows_error event x \<longleftrightarrow> ev_id x = te_entityId event \<and> ev_runId x = te_runId event \<and>
     ev_stepId x = pget event ''stepId'' \<and> ev_type x = pget event ''type'' \<and> ev_message x = pget event ''message''"

definition shows_decision :: "TelemetryEvent \<Rightarrow> DecisionView \<Rightarrow> bool" where
  "shows_decision event d \<longleftrightarrow> dv_id d = te_entityId event \<and> dv_runId d = te_runId event \<and>
     dv_stepId d = pget event ''stepId'' \<and> dv_decisionType d = pget event ''decisionType'' \<and>
     dv_contextKey d = pget event ''contextKey'' \<and> dv_contextKeyVersion d = pget event ''contextKeyVersion'' \<and>
     dv_selectedOption d = pget event ''selectedOption''"

text \<open>A row of the run is listed.\<close>

lemma row_listed:
  assumes "scans db ids tab" "tab i = Some row" "runIdOf row = runId"
  shows "shown i row \<in> set (map (\<lambda>(i, row). shown i row) (findManyOfRun db ids tab runIdOf instant runId))"
  using findManyOfRun_rows(1) [OF assms(1), of runIdOf instant runId] assms(2,3) by force

lemma rows_listed:
  assumes "database_of db st"
  shows "ps_decisions st i = Some d \<Longrightarrow> dr_runId d = runId \<Longrightarrow>
      toDecisionRecord safeParse i d (db_decisionCreatedAt db i) \<in> set (listDecisions safeParse db st runId)"
    "ps_modelCalls st i = Some m \<Longrightarrow> mr_runId m = runId \<Longrightarrow>
      toModelCallRecord safeParse i m (db_modelCallCreatedAt db i) \<in> set (listModelCalls safeParse db st runId)"
    "ps_toolCalls st i = Some t \<Longrightarrow> tr_runId t = runId \<Longrightarrow> toToolCallRecord i t \<in> set (listToolCalls db st runId)"
    "ps_errors st i = Some e \<Longrightarrow> er_runId e = runId \<Longrightarrow>
      toErrorRecord safeParse i e (db_errorCreatedAt db i) \<in> set (listErrors safeParse db st runId)"
  unfolding listDecisions_def listModelCalls_def listToolCalls_def listErrors_def
  using assms by (intro row_listed; simp add: database_of_def)+

text \<open>What was ingested is what is read: after an event of one of the four types that record an entity was
  written, the detail view of its run shows the entity with the fields of the payload unchanged and
  times as the instants the payload named.\<close>

theorem written_entity_read_back:
  assumes "writeEntityEvent event st = Inr st'" "keyed_steps (ps_telemetry st')" "database_of db st'"
    "findById safeParse db thr st' now (te_runId event) = Some v"
  shows "(te_type event = ToolCallRecorded \<longrightarrow> (\<exists>t \<in> set (rt_toolCalls v). shows_tool_call event t)) \<and>
    (te_type event = ModelCallRecorded \<longrightarrow> (\<exists>m \<in> set (rt_modelCalls v). shows_model_call event m)) \<and>
    (te_type event = ErrorRecorded \<longrightarrow> (\<exists>x \<in> set (rt_errors v). shows_error event x)) \<and>
    (te_type event = DecisionRecorded \<longrightarrow> (\<exists>d \<in> set (rt_decisions v). shows_decision event d))"
proof (intro conjI impI)
  let ?i = "te_entityId event" and ?r = "te_runId event"
  note p = detail_parts [OF assms(4,2)] and l = rows_listed [OF assms(3), of ?i _ ?r]
  have w: "Inr st' = writeEntityEvent event st" using assms(1) by simp
  {
    assume "te_type event = ToolCallRecorded"
    then obtain row where r: "toToolCallWrite event = Some row" "ps_toolCalls st' ?i = Some row"
      using w by (auto simp: writeEntityEvent_def recordToolCall_def split: option.splits)
    moreover from r(1) have "shows_tool_call event (toToolCallView (toToolCallRecord ?i row)) \<and> tr_runId row = ?r"
      by (auto simp: toToolCallWrite_def shows_tool_call_def toToolCallView_def toToolCallRecord_def split: option.splits)
    ultimately show "\<exists>t \<in> set (rt_toolCalls v). shows_tool_call event t" using l(3) unfolding p by auto
  next
    assume "te_type event = ModelCallRecorded"
    hence "ps_modelCalls st' ?i = Some (toModelCallWrite event)" using w by (simp add: writeEntityEvent_def recordModelCall_def)
    moreover have "shows_model_call event (toModelCallView (toModelCallRecord safeParse ?i (toModelCallWrite event) t)) \<and>
        mr_runId (toModelCallWrite event) = ?r" for t
      by (simp add: shows_model_call_def toModelCallWrite_def toModelCallView_def toModelCallRecord_def)
    ultimately show "\<exists>m \<in> set (rt_modelCalls v). shows_model_call event m" using l(2) unfolding p by force
  next
    assume "te_type event = ErrorRecorded"
    hence "ps_errors st' ?i = Some (toErrorRecordWrite event)" using w by (simp add: writeEntityEvent_def recordError_def)
    moreover have "shows_error event (toErrorView (toErrorRecord safeParse ?i (toErrorRecordWrite event) t)) \<and>
        er_runId (toErrorRecordWrite event) = ?r" for t
      by (simp add: shows_error_def toErrorRecordWrite_def toErrorView_def toErrorRecord_def)
    ultimately show "\<exists>x \<in> set (rt_errors v). shows_error event x" using l(4) unfolding p by force
  next
    assume "te_type event = DecisionRecorded"
    then obtain base where "ps_decisions st' ?i = Some (recordedColumns (toDecisionRecordWrite event) base)"
      using w by (auto simp: writeEntityEvent_def recordDecision_def toDecisionRecordWrite_def Let_def)
    moreover have "shows_decision event (toDecisionView (toDecisionRecord safeParse ?i
          (recordedColumns (toDecisionRecordWrite event) base) t)) \<and>
        dr_runId (recordedColumns (toDecisionRecordWrite event) base) = ?r" for t
      by (simp add: shows_decision_def toDecisionRecordWrite_def recordedColumns_def toDecisionView_def toDecisionRecord_def)
    ultimately show "\<exists>d \<in> set (rt_decisions v). shows_decision event d" using l(1) unfolding p by force
  }
qed

text \<open>The two views of a run agree: the roll-up counts exactly the model calls and tool calls that the
  detail view lists, and its failures are the listed tool calls that did not succeed.\<close>

theorem summary_agrees_with_detail:
  "(case (summaryFor safeParse db st runId, findById safeParse db thr st now runId) of
      (None, None) \<Rightarrow> True
    | (Some s, Some v) \<Rightarrow> su_runId s = rv_id v \<and> su_modelCallCount s = length (rt_modelCalls v) \<and>
        su_toolCallCount s = length (rt_toolCalls v) \<and>
        su_failedToolCallCount s = length (filter (\<lambda>t. tv_success t \<noteq> JBool True) (rt_toolCalls v)) \<and>
        su_modelCallsMissingInputTokens s = length (filter (\<lambda>m. int_column (mv_inputTokens m) = None) (rt_modelCalls v)) \<and>
        su_inputTokens s = (\<Sum>m\<leftarrow>rt_modelCalls v. coalesce (int_column (mv_inputTokens m)) 0)
    | _ \<Rightarrow> False)"
proof -
  have len: "length (filter P (sort_key k xs)) = length (filter P xs)" for P and xs :: "'x list" and k :: "'x \<Rightarrow> int \<times> int"
    by (metis mset_filter mset_sort size_mset)
  have sum: "sum_list (map f (sort_key k xs)) = sum_list (map f xs)" for f :: "'x \<Rightarrow> int" and xs and k :: "'x \<Rightarrow> int \<times> int"
    by (metis mset_map mset_sort sum_mset_sum_list)
  show ?thesis
    by (auto simp: summaryFor_def findById_def findRun_def RunSummaryView.defs RunDetailView.defs aggregateRunSummary_def
        add_model_calls failed_calls listModelCallMetrics_def listToolCallMetrics_def listModelCalls_def listToolCalls_def
        findManyOfRun_def toModelCallView_def toModelCallRecord_def toToolCallView_def toToolCallRecord_def
        toRunSummaryView_def comp_def case_prod_unfold filter_map len sum simp del: filter_filter split: option.split)
qed

section \<open>At work\<close>

definition one_run_platform :: PlatformStore where
  "one_run_platform = empty_platform\<lparr>ps_telemetry := one_run_store\<rparr>"

definition ev_error :: TelemetryEvent where
  "ev_error = \<lparr>te_eventId = js ''x1'', te_schemaVersion = js ''2'', te_type = ErrorRecorded,
     te_entityId = js ''x'', te_runId = js ''r'', te_occurredAt = js ''2024-05-01T10:00:00Z'',
     te_payload = JObj [(js ''stepId'', JStr (js ''s'')), (js ''type'', JStr (js ''T'')), (js ''message'', JStr (js ''m''))]\<rparr>"

definition one_error_database :: Database where
  "one_error_database = \<lparr>db_collate = \<lambda>s. int (length s), db_runs = [js ''r''], db_steps = [], db_decisions = [], db_modelCalls = [],
     db_toolCalls = [], db_errors = [js ''x''], db_decisionCreatedAt = \<lambda>_. 0, db_modelCallCreatedAt = \<lambda>_. 0, db_errorCreatedAt = \<lambda>_. 4\<rparr>"

lemma one_error_scanned:
  "database_of one_error_database (recordError ev_error one_run_platform)"
  "keyed_steps (ps_telemetry (recordError ev_error one_run_platform))"
  by (simp_all add: database_of_def scans_def one_error_database_def recordError_def one_run_platform_def empty_platform_def
      one_run_store_def keyed_steps_def ev_error_def)

lemma one_run_found: "\<exists>v. findById zod_ref db 10 (recordError ev_error one_run_platform) 7 (js ''r'') = Some v"
  by (simp add: findById_def findRun_def recordError_def one_run_platform_def one_run_store_def)

theorem run_detail_complete_witness:
  "\<exists>v. findById zod_ref one_error_database 10 (recordError ev_error one_run_platform) 7 (js ''r'') = Some v \<and>
     ev_id ` set (rt_errors v) = {js ''x''}"
proof -
  have "{i. \<exists>r. ps_errors (recordError ev_error one_run_platform) i = Some r \<and> er_runId r = js ''r''} = {js ''x''}"
    by (auto simp: recordError_def one_run_platform_def empty_platform_def ev_error_def toErrorRecordWrite_def)
  thus ?thesis
    using run_detail_complete [OF one_error_scanned(2,1), of zod_ref 10 7 "js ''r''"] one_run_found [of one_error_database] by auto
qed

theorem written_entity_read_back_witness:
  "\<exists>v. findById zod_ref one_error_database 10 (recordError ev_error one_run_platform) 7 (js ''r'') = Some v \<and>
     (\<exists>x \<in> set (rt_errors v). shows_error ev_error x)"
proof -
  obtain v where v: "findById zod_ref one_error_database 10 (recordError ev_error one_run_platform) 7 (js ''r'') = Some v"
    using one_run_found by blast
  have t: "te_type ev_error = ErrorRecorded" "te_runId ev_error = js ''r''" by (simp_all add: ev_error_def)
  have "writeEntityEvent ev_error one_run_platform = Inr (recordError ev_error one_run_platform)"
    by (simp add: writeEntityEvent_def t)
  from written_entity_read_back [OF this one_error_scanned(2,1), of zod_ref 10 7 v] show ?thesis using v t by auto
qed

end
