(* ===== verification/Step_Tree.thy ===== *)
theory Step_Tree
  imports Runs_Read Buckets
begin

text \<open>
  \<^verbatim>\<open>platform/dashboard/src/lib/step-tree.ts\<close>: the tree of a run's steps, built from the flat list the
  API returns.  \<^verbatim>\<open>descend\<close> threads the set of placed ids through its calls.  Its recursion follows the
  parents that clients reported, which may run in a circle, so it takes fuel; one more than the number
  of steps is enough, because each level of the recursion places a step.
\<close>

datatype StepPlacement = PlacedRoot | PlacedNested | PlacedOrphaned | PlacedCycle

datatype StepNode = StepNode (node_step: StepView) (node_placement: StepPlacement) (node_children: "StepNode list")

section \<open>Building the tree\<close>

text \<open>The loop that sorts the steps: \<^verbatim>\<open>childrenByParent\<close> and \<^verbatim>\<open>topLevel\<close>.\<close>

definition sortStep :: "jstr list \<Rightarrow> StepView \<Rightarrow> (jstr \<times> StepView list) list \<times> (StepView \<times> StepPlacement) list \<Rightarrow>
    (jstr \<times> StepView list) list \<times> (StepView \<times> StepPlacement) list" where
  "sortStep byId step acc =
     (case acc of (childrenByParent, topLevel) \<Rightarrow>
       (case sv_parentStepId step of
          None \<Rightarrow> (childrenByParent, topLevel @ [(step, PlacedRoot)])
        | Some parentId \<Rightarrow>
            if parentId \<notin> set byId then (childrenByParent, topLevel @ [(step, PlacedOrphaned)])
            else (bucket_add parentId step childrenByParent, topLevel)))"

text \<open>\<^verbatim>\<open>xs.map(f)\<close> where \<open>f\<close> changes a set it shares.\<close>

fun map_threaded :: "('a \<Rightarrow> 's \<Rightarrow> ('b \<times> 's) option) \<Rightarrow> 'a list \<Rightarrow> 's \<Rightarrow> ('b list \<times> 's) option" where
  "map_threaded f [] s = Some ([], s)"
| "map_threaded f (x # xs) s =
     (case f x s of
        None \<Rightarrow> None
      | Some (y, s1) \<Rightarrow> (case map_threaded f xs s1 of None \<Rightarrow> None | Some (ys, s2) \<Rightarrow> Some (y # ys, s2)))"

lemma map_threaded_map: "map_threaded f (map g xs) s = map_threaded (f \<circ> g) xs s"
  by (induction xs arbitrary: s) (auto split: option.split)

fun descend :: "nat \<Rightarrow> (jstr \<times> StepView list) list \<Rightarrow> StepView \<Rightarrow> StepPlacement \<Rightarrow> jstr set \<Rightarrow> (StepNode \<times> jstr set) option" where
  "descend 0 childrenByParent step placement placed = None"
| "descend (Suc fuel) childrenByParent step placement placed =
     (let placed1 = insert (sv_id step) placed;
          todo = filter (\<lambda>child. sv_id child \<notin> placed1) (coalesce (map_of childrenByParent (sv_id step)) [])
      in case map_threaded (\<lambda>child p. descend fuel childrenByParent child PlacedNested p) todo placed1 of
           None \<Rightarrow> None
         | Some (children, placed2) \<Rightarrow> Some (StepNode step placement children, placed2))"

text \<open>The loop over the steps that no root reaches.\<close>

fun strand :: "nat \<Rightarrow> (jstr \<times> StepView list) list \<Rightarrow> StepView list \<Rightarrow> jstr set \<Rightarrow> StepNode list option" where
  "strand fuel childrenByParent [] placed = Some []"
| "strand fuel childrenByParent (step # steps) placed =
     (if sv_id step \<in> placed then strand fuel childrenByParent steps placed
      else case descend fuel childrenByParent step PlacedCycle placed of
             None \<Rightarrow> None
           | Some (node, placed1) \<Rightarrow> map_option ((#) node) (strand fuel childrenByParent steps placed1))"

definition buildStepTree :: "StepView list \<Rightarrow> StepNode list option" where
  "buildStepTree steps =
     (let fuel = Suc (length steps);
          (childrenByParent, topLevel) = fold (sortStep (map sv_id steps)) steps ([], [])
      in case map_threaded (\<lambda>(step, placement) p. descend fuel childrenByParent step placement p) topLevel {} of
           None \<Rightarrow> None
         | Some (nodes, placed) \<Rightarrow> map_option ((@) nodes) (strand fuel childrenByParent steps placed))"

fun countStepNode :: "StepNode \<Rightarrow> nat" where
  "countStepNode (StepNode step placement children) = 1 + sum_list (map countStepNode children)"

definition countStepNodes :: "StepNode list \<Rightarrow> nat" where
  "countStepNodes nodes = sum_list (map countStepNode nodes)"

fun countNodePlacement :: "StepPlacement \<Rightarrow> StepNode \<Rightarrow> nat" where
  "countNodePlacement p (StepNode step placement children) =
     (if placement = p then 1 else 0) + sum_list (map (countNodePlacement p) children)"

definition countPlacement :: "StepNode list \<Rightarrow> StepPlacement \<Rightarrow> nat" where
  "countPlacement nodes p = sum_list (map (countNodePlacement p) nodes)"

fun nat_text :: "nat \<Rightarrow> jstr" where
  "nat_text n = (if n < 10 then [digit_char (int n)] else nat_text (n div 10) @ [digit_char (int (n mod 10))])"

declare nat_text.simps [simp del]

definition MIDDLE_DOT :: jstr where "MIDDLE_DOT = js '' '' @ [183] @ js '' ''"

definition describeStepAnomalies :: "StepNode list \<Rightarrow> jstr" where
  "describeStepAnomalies nodes =
     (let orphaned = countPlacement nodes PlacedOrphaned; cycle = countPlacement nodes PlacedCycle
      in (if 0 < orphaned then MIDDLE_DOT @ nat_text orphaned @ js '' orphaned'' else []) @
         (if 0 < cycle then MIDDLE_DOT @ nat_text cycle @ js '' in a parent cycle'' else []))"

section \<open>The steps of a node\<close>

fun node_steps :: "StepNode \<Rightarrow> StepView list" where
  "node_steps (StepNode step placement children) = step # concat (map node_steps children)"

abbreviation forest_steps :: "StepNode list \<Rightarrow> StepView list" where
  "forest_steps nodes \<equiv> concat (map node_steps nodes)"

definition forest_ids :: "StepNode list \<Rightarrow> jstr set" where
  "forest_ids nodes = sv_id ` set (forest_steps nodes)"

lemma forest_ids_simps [simp]:
  "forest_ids [] = {}" "forest_ids (ns @ ms) = forest_ids ns \<union> forest_ids ms"
  "forest_ids (n # ns) = sv_id ` set (node_steps n) \<union> forest_ids ns"
  by (simp_all add: forest_ids_def image_Un)

text \<open>Below a node, every step hangs under the parent it names.\<close>

fun nested_below :: "StepNode \<Rightarrow> bool" where
  "nested_below (StepNode step placement children) \<longleftrightarrow>
     (\<forall>c \<in> set children. node_placement c = PlacedNested \<and> sv_parentStepId (node_step c) = Some (sv_id step) \<and> nested_below c)"

lemma countStepNode_steps: "countStepNode = (\<lambda>n. length (node_steps n))"
proof
  fix n show "countStepNode n = length (node_steps n)"
    by (induction n) (simp add: length_concat comp_def cong: map_cong)
qed

lemma node_steps_head: "node_step n \<in> set (node_steps n)"
  by (cases n) simp

lemma nested_parent:
  assumes "nested_below n" "x \<in> set (node_steps n)" "x \<noteq> node_step n"
  shows "\<exists>p. sv_parentStepId x = Some p \<and> p \<in> sv_id ` set (node_steps n)"
  using assms
proof (induction n)
  case (StepNode step placement children)
  then obtain c where c: "c \<in> set children" "x \<in> set (node_steps c)" by auto
  show ?case
  proof (cases "x = node_step c")
    case True
    thus ?thesis using StepNode.prems(1) c by auto
  next
    case False
    with StepNode.IH [OF c(1)] StepNode.prems(1) c show ?thesis by auto
  qed
qed

section \<open>Sorting the steps\<close>

definition top_placement :: "jstr set \<Rightarrow> StepView \<Rightarrow> StepPlacement option" where
  "top_placement ids step = (case sv_parentStepId step of None \<Rightarrow> Some PlacedRoot
     | Some p \<Rightarrow> if p \<notin> ids then Some PlacedOrphaned else None)"

lemma sorted_steps:
  "fold (sortStep byId) steps ([], []) =
     (buckets (\<lambda>s. the (sv_parentStepId s)) (filter (\<lambda>s. top_placement (set byId) s = None) steps),
      map (\<lambda>s. (s, the (top_placement (set byId) s))) (filter (\<lambda>s. top_placement (set byId) s \<noteq> None) steps))"
  by (induction steps rule: rev_induct) (auto simp: sortStep_def top_placement_def split: option.splits)

lemma children_of:
  assumes "p \<in> set byId"
  shows "coalesce (map_of (fst (fold (sortStep byId) steps ([], []))) p) [] = filter (\<lambda>s. sv_parentStepId s = Some p) steps"
proof -
  have "filter (\<lambda>s. the (sv_parentStepId s) = p) (filter (\<lambda>s. top_placement (set byId) s = None) steps) =
      filter (\<lambda>s. sv_parentStepId s = Some p) steps"
    unfolding filter_filter using assms by (intro filter_cong) (auto simp: top_placement_def split: option.splits if_splits)
  moreover have "filter (\<lambda>s. the (sv_parentStepId s) = p) (filter (\<lambda>s. top_placement (set byId) s = None) steps) = []"
    if "p \<notin> (\<lambda>s. the (sv_parentStepId s)) ` set (filter (\<lambda>s. top_placement (set byId) s = None) steps)"
    using that by (auto simp: filter_empty_conv)
  ultimately show ?thesis by (auto simp: sorted_steps buckets_lookup simp del: filter_filter set_filter)
qed

section \<open>The walk\<close>

text \<open>What a call of \<^verbatim>\<open>descend\<close> or a loop over such calls establishes: the new nodes hold steps of the run that
  were not placed yet, each once, they are what was added to \<^verbatim>\<open>placed\<close>, and no child of theirs is left out.\<close>

definition placed_ok :: "StepView list \<Rightarrow> jstr set \<Rightarrow> StepNode list \<Rightarrow> jstr set \<Rightarrow> bool" where
  "placed_ok steps placed nodes placed' \<longleftrightarrow> placed' = placed \<union> forest_ids nodes \<and> forest_ids nodes \<inter> placed = {} \<and>
     distinct (map sv_id (forest_steps nodes)) \<and> set (forest_steps nodes) \<subseteq> set steps \<and> (\<forall>n \<in> set nodes. nested_below n) \<and>
     (\<forall>x \<in> set steps. \<forall>p. sv_parentStepId x = Some p \<and> p \<in> forest_ids nodes \<longrightarrow> sv_id x \<in> placed')"

text \<open>A step whose parent is placed or missing: no other subtree can contain it.\<close>

definition anchored :: "StepView list \<Rightarrow> jstr set \<Rightarrow> StepView \<Rightarrow> bool" where
  "anchored steps placed s \<longleftrightarrow> (\<forall>p. sv_parentStepId s = Some p \<longrightarrow> p \<in> placed \<or> p \<notin> sv_id ` set steps)"

lemma placed_ok_Nil [simp]: "placed_ok steps placed [] placed"
  by (simp add: placed_ok_def)

lemma placed_okD:
  assumes "placed_ok steps placed nodes placed'"
  shows "placed' = placed \<union> forest_ids nodes" "forest_ids nodes \<inter> placed = {}" "distinct (map sv_id (forest_steps nodes))"
    "set (forest_steps nodes) \<subseteq> set steps" "n \<in> set nodes \<Longrightarrow> nested_below n"
    "x \<in> set steps \<Longrightarrow> sv_parentStepId x = Some p \<Longrightarrow> p \<in> forest_ids nodes \<Longrightarrow> sv_id x \<in> placed'"
  using assms unfolding placed_ok_def by blast+

lemma placed_ok_append:
  assumes "placed_ok steps p0 ns p1" "placed_ok steps p1 ms p2"
  shows "placed_ok steps p0 (ns @ ms) p2"
proof -
  note a = placed_okD [OF assms(1)] and b = placed_okD [OF assms(2)]
  have d: "forest_ids ns \<inter> forest_ids ms = {}" using a(1) b(2) by blast
  have "distinct (map sv_id (forest_steps (ns @ ms)))" using a(3) b(3) d by (simp add: forest_ids_def)
  moreover have "sv_id x \<in> p2" if "x \<in> set steps" "sv_parentStepId x = Some p" "p \<in> forest_ids (ns @ ms)" for x p
    using a(6) [OF that(1,2)] b(6) [OF that(1,2)] b(1) that(3) by auto
  moreover have "p2 = p0 \<union> forest_ids (ns @ ms)" "forest_ids (ns @ ms) \<inter> p0 = {}" using a(1,2) b(1,2) by auto
  moreover have "set (forest_steps (ns @ ms)) \<subseteq> set steps" "\<forall>n \<in> set (ns @ ms). nested_below n" using a(4,5) b(4,5) by auto
  ultimately show ?thesis unfolding placed_ok_def by blast
qed

lemma anchored_outside:
  assumes "placed_ok steps placed [n] placed'" "anchored steps placed s" "s \<in> set (node_steps n)"
  shows "s = node_step n"
proof (rule ccontr)
  assume "s \<noteq> node_step n"
  then obtain p where "sv_parentStepId s = Some p" "p \<in> sv_id ` set (node_steps n)"
    using nested_parent [of n s] placed_okD(5) [OF assms(1), of n] assms(3) by auto
  moreover have "sv_id ` set (node_steps n) \<inter> placed = {}" "set (node_steps n) \<subseteq> set steps"
    using placed_okD(2,4) [OF assms(1)] by auto
  ultimately show False using assms(2) by (auto simp: anchored_def)
qed

definition walk_total :: "StepView list \<Rightarrow> (StepView \<Rightarrow> StepPlacement \<Rightarrow> jstr set \<Rightarrow> (StepNode \<times> jstr set) option) \<Rightarrow> nat \<Rightarrow> bool" where
  "walk_total steps walk n \<longleftrightarrow> (\<forall>s placement placed. s \<in> set steps \<and> sv_id s \<notin> placed \<and>
     card (sv_id ` set steps - placed) \<le> n \<longrightarrow>
     (\<exists>node placed'. walk s placement placed = Some (node, placed') \<and> node_step node = s \<and>
        node_placement node = placement \<and> placed_ok steps placed [node] placed'))"

lemma walk_forest:
  assumes "walk_total steps walk n" "distinct (map sv_id steps)"
    "distinct (map (sv_id \<circ> fst) todo)" "\<forall>(s, pl) \<in> set todo. s \<in> set steps \<and> sv_id s \<notin> placed \<and> anchored steps placed s"
    "card (sv_id ` set steps - placed) \<le> n"
  shows "\<exists>nodes placed'. map_threaded (\<lambda>(s, pl). walk s pl) todo placed = Some (nodes, placed') \<and>
    map (\<lambda>n. (node_step n, node_placement n)) nodes = todo \<and> placed_ok steps placed nodes placed'"
  using assms(3-)
proof (induction todo arbitrary: placed)
  case (Cons a todo)
  obtain s pl where a: "a = (s, pl)" by force
  obtain node placed1 where w: "walk s pl placed = Some (node, placed1)" "node_step node = s" "node_placement node = pl"
      and ok: "placed_ok steps placed [node] placed1"
    using assms(1) [unfolded walk_total_def, rule_format, of s placed pl] Cons.prems(2,3) by (auto simp: a)
  have new: "placed1 = placed \<union> sv_id ` set (node_steps node)" and inS: "set (node_steps node) \<subseteq> set steps"
    using placed_okD(1,4) [OF ok] by simp_all
  hence sub: "placed \<subseteq> placed1" by blast
  have "x \<in> set steps \<and> sv_id x \<notin> placed1 \<and> anchored steps placed1 x" if "(x, y) \<in> set todo" for x y
  proof -
    have x: "x \<in> set steps" "sv_id x \<notin> placed" "anchored steps placed x" using Cons.prems(2) that by auto
    have "x \<notin> set (node_steps node)"
      using anchored_outside [OF ok x(3)] w(2) Cons.prems(1) that by (force simp: a)
    moreover have "x = z" if "z \<in> set (node_steps node)" "sv_id x = sv_id z" for z
      using assms(2) x(1) inS that by (auto simp: distinct_map inj_on_def)
    ultimately have "sv_id x \<notin> placed1" using x(2) unfolding new by auto
    thus ?thesis using x sub by (auto simp: anchored_def)
  qed
  moreover have "card (sv_id ` set steps - placed1) \<le> n"
    using Cons.prems(3) sub card_mono [of "sv_id ` set steps - placed" "sv_id ` set steps - placed1"] by fastforce
  ultimately obtain nodes placed' where r: "map_threaded (\<lambda>(s, pl). walk s pl) todo placed1 = Some (nodes, placed')"
      "map (\<lambda>n. (node_step n, node_placement n)) nodes = todo" "placed_ok steps placed1 nodes placed'"
    using Cons.IH [of placed1] Cons.prems(1) by auto
  show ?case using w r placed_ok_append [OF ok r(3)] by (simp add: a)
qed simp

lemma placed_ok_node:
  assumes ok: "placed_ok steps (insert (sv_id s) placed) nodes placed'" and s: "s \<in> set steps" "sv_id s \<notin> placed"
    and todo: "map node_step nodes = filter (\<lambda>c. sv_id c \<notin> insert (sv_id s) placed) (filter (\<lambda>c. sv_parentStepId c = Some (sv_id s)) steps)"
    and pl: "\<forall>n \<in> set nodes. node_placement n = PlacedNested"
  shows "placed_ok steps placed [StepNode s placement nodes] placed'"
proof -
  note o = placed_okD [OF ok]
  have heads: "sv_parentStepId (node_step n) = Some (sv_id s)" if "n \<in> set nodes" for n
    using arg_cong [OF todo, of set] that by auto
  have ids: "forest_ids [StepNode s placement nodes] = insert (sv_id s) (forest_ids nodes)"
    by (simp add: forest_ids_def)
  have "sv_id x \<in> placed'" if "x \<in> set steps" "sv_parentStepId x = Some p" "p \<in> insert (sv_id s) (forest_ids nodes)" for x p
  proof (cases "p \<in> forest_ids nodes")
    case False
    hence p: "p = sv_id s" using that by blast
    show ?thesis
    proof (cases "sv_id x \<in> insert (sv_id s) placed")
      case False
      hence "x \<in> set (map node_step nodes)" unfolding todo using that p by simp
      then obtain n where "n \<in> set nodes" "x = node_step n" by auto
      hence "sv_id x \<in> forest_ids nodes" using node_steps_head [of n] by (auto simp: forest_ids_def)
      thus ?thesis using o(1) by blast
    qed (use o(1) in blast)
  qed (use o(6) that in blast)
  moreover have "distinct (map sv_id (forest_steps [StepNode s placement nodes]))"
    using o(2,3) by (auto simp: forest_ids_def)
  ultimately show ?thesis
    unfolding placed_ok_def ids using o(1,2,4,5) s pl heads by auto
qed

text \<open>Enough fuel: one unit for every step that is not placed.\<close>

lemma descend_total:
  assumes "distinct (map sv_id steps)" "cs = fst (fold (sortStep (map sv_id steps)) steps ([], []))"
  shows "walk_total steps (descend n cs) n"
proof (induction n)
  case 0
  have "\<not> card (sv_id ` set steps - placed) \<le> 0" if "s \<in> set steps" "sv_id s \<notin> placed" for s placed
    using that by (auto simp: card_eq_0_iff)
  thus ?case unfolding walk_total_def by blast
next
  case (Suc n)
  have "\<exists>node placed'. descend (Suc n) cs s placement placed = Some (node, placed') \<and> node_step node = s \<and>
      node_placement node = placement \<and> placed_ok steps placed [node] placed'"
    if s: "s \<in> set steps" "sv_id s \<notin> placed" "card (sv_id ` set steps - placed) \<le> Suc n" for s placement placed
  proof -
    let ?p1 = "insert (sv_id s) placed"
    let ?todo = "filter (\<lambda>c. sv_id c \<notin> ?p1) (filter (\<lambda>c. sv_parentStepId c = Some (sv_id s)) steps)"
    have kids: "coalesce (map_of cs (sv_id s)) [] = filter (\<lambda>c. sv_parentStepId c = Some (sv_id s)) steps"
      using children_of [of "sv_id s" "map sv_id steps" steps] s(1) assms(2) by simp
    have "sv_id ` set steps - ?p1 \<subset> sv_id ` set steps - placed" using s(1,2) by blast
    from psubset_card_mono [OF _ this] have "card (sv_id ` set steps - ?p1) \<le> n" using s(3) by simp
    moreover have "distinct (map (sv_id \<circ> fst) (map (\<lambda>c. (c, PlacedNested)) ?todo))"
      using assms(1) by (simp add: comp_def distinct_map_filter)
    moreover have "\<forall>(c, pl) \<in> set (map (\<lambda>c. (c, PlacedNested)) ?todo). c \<in> set steps \<and> sv_id c \<notin> ?p1 \<and> anchored steps ?p1 c"
      by (auto simp: anchored_def)
    ultimately obtain nodes placed' where
      m: "map_threaded (\<lambda>(c, pl). descend n cs c pl) (map (\<lambda>c. (c, PlacedNested)) ?todo) ?p1 = Some (nodes, placed')" and
      n: "map (\<lambda>n. (node_step n, node_placement n)) nodes = map (\<lambda>c. (c, PlacedNested)) ?todo" and
      ok: "placed_ok steps ?p1 nodes placed'"
      using walk_forest [OF Suc.IH assms(1)] by blast
    have d: "descend (Suc n) cs s placement placed = Some (StepNode s placement nodes, placed')"
      using m by (simp add: Let_def map_threaded_map comp_def kids del: filter_filter)
    have "map node_step nodes = ?todo" using arg_cong [OF n, of "map fst"] by (simp add: comp_def)
    moreover have "\<forall>n \<in> set nodes. node_placement n = PlacedNested"
    proof -
      have "map node_placement nodes = map (\<lambda>_. PlacedNested) ?todo" using arg_cong [OF n, of "map snd"] by (simp add: comp_def)
      hence "set (map node_placement nodes) \<subseteq> {PlacedNested}" by (simp only:) (auto simp only: set_map)
      thus ?thesis by auto
    qed
    ultimately have "placed_ok steps placed [StepNode s placement nodes] placed'" using placed_ok_node [OF ok s(1,2)] by blast
    thus ?thesis using d by simp
  qed
  thus ?case unfolding walk_total_def by blast
qed

section \<open>Where a step is placed\<close>

text \<open>The parents of a step lead to a root or to a missing parent.\<close>

inductive grounded :: "StepView list \<Rightarrow> jstr \<Rightarrow> bool" for steps where
  grounded_top: "s \<in> set steps \<Longrightarrow> top_placement (sv_id ` set steps) s \<noteq> None \<Longrightarrow> grounded steps (sv_id s)"
| grounded_below: "s \<in> set steps \<Longrightarrow> sv_parentStepId s = Some p \<Longrightarrow> grounded steps p \<Longrightarrow> grounded steps (sv_id s)"

lemma grounded_node:
  assumes "nested_below n" "set (node_steps n) \<subseteq> set steps" "grounded steps (sv_id (node_step n))" "x \<in> set (node_steps n)"
  shows "grounded steps (sv_id x)"
  using assms
proof (induction n)
  case (StepNode s placement children)
  show ?case
  proof (cases "x = s")
    case False
    then obtain c where c: "c \<in> set children" "x \<in> set (node_steps c)" using StepNode.prems(4) by auto
    have p: "sv_parentStepId (node_step c) = Some (sv_id s)" "nested_below c" using StepNode.prems(1) c(1) by auto
    have sub: "set (node_steps c) \<subseteq> set steps" using StepNode.prems(2) c(1) by auto
    hence "grounded steps (sv_id (node_step c))"
      using grounded_below [OF _ p(1)] StepNode.prems(3) node_steps_head [of c] by auto
    from StepNode.IH [OF c(1) p(2) sub this c(2)] show ?thesis .
  qed (use StepNode.prems(3) in simp)
qed

lemma reached_grounded:
  assumes ok: "placed_ok steps {} nodes placed'" and d: "distinct (map sv_id steps)"
    and heads: "map node_step nodes = filter (\<lambda>s. top_placement (sv_id ` set steps) s \<noteq> None) steps"
  shows "forest_ids nodes = {i. grounded steps i}"
proof
  note o = placed_okD [OF ok]
  show "forest_ids nodes \<subseteq> {i. grounded steps i}"
  proof
    fix i assume "i \<in> forest_ids nodes"
    then obtain n x where n: "n \<in> set nodes" "x \<in> set (node_steps n)" "i = sv_id x" by (auto simp: forest_ids_def)
    have "node_step n \<in> set (map node_step nodes)" using n(1) by simp
    hence "grounded steps (sv_id (node_step n))" unfolding heads by (auto intro: grounded_top)
    moreover have "set (node_steps n) \<subseteq> set steps" using o(4) n(1) by auto
    ultimately show "i \<in> {i. grounded steps i}" using grounded_node [OF o(5) [OF n(1)]] n by blast
  qed
  have "i \<in> forest_ids nodes" if "grounded steps i" for i
    using that
  proof induction
    case (grounded_top s)
    hence "s \<in> set (map node_step nodes)" unfolding heads by simp
    thus ?case using node_steps_head by (force simp: forest_ids_def)
  next
    case (grounded_below s p)
    thus ?case using o(6) o(1) by auto
  qed
  thus "{i. grounded steps i} \<subseteq> forest_ids nodes" by blast
qed

lemma strand_total:
  assumes "walk_total steps (descend fuel cs) fuel" "distinct (map sv_id steps)" "set todo \<subseteq> set steps" "length steps \<le> fuel"
    "\<forall>x \<in> set steps. \<forall>p. sv_parentStepId x = Some p \<and> p \<in> placed \<longrightarrow> sv_id x \<in> placed"
  shows "\<exists>nodes placed'. strand fuel cs todo placed = Some nodes \<and> placed_ok steps placed nodes placed' \<and>
    sv_id ` set todo \<subseteq> placed' \<and> (\<forall>n \<in> set nodes. node_placement n = PlacedCycle)"
  using assms(3,5)
proof (induction todo arbitrary: placed)
  case (Cons s todo)
  show ?case
  proof (cases "sv_id s \<in> placed")
    case True
    from Cons.IH [of placed] Cons.prems obtain nodes placed' where
      "strand fuel cs todo placed = Some nodes" "placed_ok steps placed nodes placed'" "sv_id ` set todo \<subseteq> placed'"
      "\<forall>n \<in> set nodes. node_placement n = PlacedCycle" by auto
    thus ?thesis using True placed_okD(1) by force
  next
    case False
    have "card (sv_id ` set steps - placed) \<le> fuel"
      using assms(4) card_mono [of "sv_id ` set steps" "sv_id ` set steps - placed"] card_image_le [of "set steps" sv_id]
        card_length [of steps] by fastforce
    then obtain node placed1 where w: "descend fuel cs s PlacedCycle placed = Some (node, placed1)"
        "node_step node = s" "node_placement node = PlacedCycle" and ok: "placed_ok steps placed [node] placed1"
      using assms(1) [unfolded walk_total_def, rule_format, of s placed PlacedCycle] Cons.prems(1) False by auto
    note o = placed_okD [OF ok]
    have "\<forall>x \<in> set steps. \<forall>p. sv_parentStepId x = Some p \<and> p \<in> placed1 \<longrightarrow> sv_id x \<in> placed1"
      using o(1,6) Cons.prems(2) by blast
    from Cons.IH [OF _ this] Cons.prems(1) obtain nodes placed' where r: "strand fuel cs todo placed1 = Some nodes"
      "placed_ok steps placed1 nodes placed'" "sv_id ` set todo \<subseteq> placed'" "\<forall>n \<in> set nodes. node_placement n = PlacedCycle"
      by auto
    have "sv_id s \<in> placed'" using o(1) placed_okD(1) [OF r(2)] w(2) node_steps_head [of node] by auto
    thus ?thesis using False w r placed_ok_append [OF ok r(2)] by auto
  qed
qed (simp, blast intro: placed_ok_Nil)

lemma buildStepTree_parts:
  assumes d: "distinct (map sv_id steps)"
  shows "\<exists>tops stranded. buildStepTree steps = Some (tops @ stranded) \<and> placed_ok steps {} (tops @ stranded) (sv_id ` set steps) \<and>
    (\<forall>n \<in> set tops. top_placement (sv_id ` set steps) (node_step n) = Some (node_placement n)) \<and>
    forest_ids tops = {i. grounded steps i} \<and> (\<forall>n \<in> set stranded. node_placement n = PlacedCycle)"
proof -
  let ?ids = "sv_id ` set steps" and ?fuel = "Suc (length steps)"
  let ?top = "map (\<lambda>s. (s, the (top_placement ?ids s))) (filter (\<lambda>s. top_placement ?ids s \<noteq> None) steps)"
  obtain cs where f: "fold (sortStep (map sv_id steps)) steps ([], []) = (cs, ?top)"
    using sorted_steps [of "map sv_id steps" steps] by simp
  hence w: "walk_total steps (descend ?fuel cs) ?fuel" by (intro descend_total d) simp
  have len: "card ?ids \<le> length steps" using card_image_le [of "set steps" sv_id] card_length [of steps] by simp
  have "distinct (map (sv_id \<circ> fst) ?top)" using d by (simp add: comp_def distinct_map_filter)
  moreover have "\<forall>(s, pl) \<in> set ?top. s \<in> set steps \<and> sv_id s \<notin> {} \<and> anchored steps {} s"
    by (auto simp: anchored_def top_placement_def split: option.splits if_splits)
  ultimately obtain tops p1 where t: "map_threaded (\<lambda>(s, pl). descend ?fuel cs s pl) ?top {} = Some (tops, p1)"
      "map (\<lambda>n. (node_step n, node_placement n)) tops = ?top" and ok: "placed_ok steps {} tops p1"
    using walk_forest [OF w d, of ?top "{}"] len by auto
  have heads: "map node_step tops = filter (\<lambda>s. top_placement ?ids s \<noteq> None) steps"
    using arg_cong [OF t(2), of "map fst"] by (simp add: comp_def)
  have tp: "top_placement ?ids (node_step n) = Some (node_placement n)" if "n \<in> set tops" for n
  proof -
    have "(node_step n, node_placement n) \<in> set ?top" using that unfolding t(2) [symmetric] by force
    thus ?thesis by auto
  qed
  note o = placed_okD [OF ok]
  have "\<forall>x \<in> set steps. \<forall>p. sv_parentStepId x = Some p \<and> p \<in> p1 \<longrightarrow> sv_id x \<in> p1" using o(1,6) by auto
  then obtain stranded p2 where s: "strand ?fuel cs steps p1 = Some stranded" "placed_ok steps p1 stranded p2"
      "?ids \<subseteq> p2" "\<forall>n \<in> set stranded. node_placement n = PlacedCycle"
    using strand_total [OF w d subset_refl, of p1] by auto
  have all: "placed_ok steps {} (tops @ stranded) p2" using placed_ok_append [OF ok s(2)] .
  have "p2 = ?ids" using s(3) placed_okD(1,4) [OF all] by (auto simp: forest_ids_def)
  moreover have "buildStepTree steps = Some (tops @ stranded)" using f t(1) s(1) by (simp add: buildStepTree_def case_prod_unfold)
  ultimately show ?thesis using all tp reached_grounded [OF ok d heads] s(4) by blast
qed

lemma count_top_placement:
  assumes "nested_below n" "p \<noteq> PlacedNested"
  shows "countNodePlacement p n = (if node_placement n = p then 1 else 0)"
  using assms(1)
proof (induction n)
  case (StepNode s placement children)
  hence "map (countNodePlacement p) children = map (\<lambda>_. 0) children" using assms(2) by simp
  hence "sum_list (map (countNodePlacement p) children) = 0" by (simp only:) simp
  thus ?case by simp
qed

lemma no_cycle_count:
  assumes "\<And>n. n \<in> set nodes \<Longrightarrow> nested_below n"
  shows "countPlacement nodes PlacedCycle = 0 \<longleftrightarrow> (\<forall>n \<in> set nodes. node_placement n \<noteq> PlacedCycle)"
proof -
  have "countPlacement nodes PlacedCycle = sum_list (map (\<lambda>n. if node_placement n = PlacedCycle then 1 else 0) nodes)"
    unfolding countPlacement_def using assms by (intro arg_cong [of _ _ sum_list] map_cong refl) (simp add: count_top_placement)
  thus ?thesis by (auto simp: sum_list_eq_0_iff)
qed

lemma every_step_once:
  assumes "placed_ok steps {} nodes (sv_id ` set steps)" "distinct (map sv_id steps)"
  shows "mset (forest_steps nodes) = mset steps"
proof (rule set_eq_iff_mset_eq_distinct [THEN iffD1])
  note o = placed_okD [OF assms(1)]
  show "distinct (forest_steps nodes)" "distinct steps" using o(3) assms(2) distinct_map by blast+
  have "x \<in> set (forest_steps nodes)" if "x \<in> set steps" for x
  proof -
    have "sv_id x \<in> sv_id ` set (forest_steps nodes)" using o(1) that unfolding forest_ids_def by blast
    then obtain y where y: "y \<in> set (forest_steps nodes)" "sv_id y = sv_id x" by (metis imageE)
    thus ?thesis using assms(2) that o(4) by (metis distinct_map inj_onD subsetD)
  qed
  thus "set (forest_steps nodes) = set steps" using o(4) by blast
qed

text \<open>C18. The tree of a run loses no step: whatever parents the clients named, building it returns, and every
  step is in the tree exactly once, below the parent it names or at the top.  A root is a step without a parent, an
  orphan a step whose parent is missing, and a step is in a subtree marked as a cycle exactly if its parents
  never lead to either; the count that the page shows is zero exactly if there is no such step.\<close>

theorem step_tree_total_and_exact:
  assumes "distinct (map sv_id steps)"
  shows "\<exists>nodes. buildStepTree steps = Some nodes \<and> mset (forest_steps nodes) = mset steps \<and> countStepNodes nodes = length steps \<and>
    (\<forall>n \<in> set nodes. nested_below n \<and> node_placement n \<noteq> PlacedNested \<and>
       (node_placement n = PlacedRoot \<longleftrightarrow> sv_parentStepId (node_step n) = None) \<and>
       (node_placement n = PlacedOrphaned \<longleftrightarrow> (\<exists>p. sv_parentStepId (node_step n) = Some p \<and> p \<notin> sv_id ` set steps)) \<and>
       (\<forall>x \<in> set (node_steps n). node_placement n = PlacedCycle \<longleftrightarrow> \<not> grounded steps (sv_id x))) \<and>
    (countPlacement nodes PlacedCycle = 0 \<longleftrightarrow> (\<forall>s \<in> set steps. grounded steps (sv_id s)))"
proof -
  let ?ids = "sv_id ` set steps"
  obtain tops stranded where b: "buildStepTree steps = Some (tops @ stranded)" and ok: "placed_ok steps {} (tops @ stranded) ?ids"
    and tp: "\<And>n. n \<in> set tops \<Longrightarrow> top_placement ?ids (node_step n) = Some (node_placement n)"
    and g: "forest_ids tops = {i. grounded steps i}" and cy: "\<And>n. n \<in> set stranded \<Longrightarrow> node_placement n = PlacedCycle"
    using buildStepTree_parts [OF assms] by blast
  let ?nodes = "tops @ stranded"
  note o = placed_okD [OF ok]
  note same = every_step_once [OF ok assms]
  have apart: "forest_ids tops \<inter> forest_ids stranded = {}"
    using o(3) by (auto simp: forest_ids_def)
  have groundedness: "node_placement n = PlacedCycle \<longleftrightarrow> \<not> grounded steps (sv_id x)" if "n \<in> set ?nodes" "x \<in> set (node_steps n)" for n x
  proof (cases "n \<in> set tops")
    case True
    hence "sv_id x \<in> forest_ids tops" using that(2) by (auto simp: forest_ids_def)
    moreover have "node_placement n \<noteq> PlacedCycle" using tp [OF True] by (auto simp: top_placement_def split: option.splits if_splits)
    ultimately show ?thesis using g by blast
  next
    case False
    hence n: "n \<in> set stranded" using that(1) by simp
    hence "sv_id x \<in> forest_ids stranded" using that(2) by (auto simp: forest_ids_def)
    thus ?thesis using cy [OF n] apart g by blast
  qed
  have head: "grounded steps (sv_id (node_step n))" if "top_placement ?ids (node_step n) \<noteq> None" "n \<in> set ?nodes" for n
    using that o(4) node_steps_head [of n] by (intro grounded_top) auto
  have placement: "node_placement n \<noteq> PlacedNested \<and> (node_placement n = PlacedRoot \<longleftrightarrow> sv_parentStepId (node_step n) = None) \<and>
      (node_placement n = PlacedOrphaned \<longleftrightarrow> (\<exists>p. sv_parentStepId (node_step n) = Some p \<and> p \<notin> ?ids))" if n: "n \<in> set ?nodes" for n
  proof (cases "n \<in> set tops")
    case True
    thus ?thesis using tp [OF True] by (auto simp: top_placement_def split: option.splits if_splits)
  next
    case False
    hence c: "node_placement n = PlacedCycle" using n cy by simp
    hence "top_placement ?ids (node_step n) = None" using head [OF _ n] groundedness [OF n node_steps_head] by blast
    thus ?thesis using c by (auto simp: top_placement_def split: option.splits if_splits)
  qed
  have "countPlacement ?nodes PlacedCycle = 0 \<longleftrightarrow> (\<forall>n \<in> set ?nodes. node_placement n \<noteq> PlacedCycle)"
    by (rule no_cycle_count) (rule o(5))
  also have "\<dots> \<longleftrightarrow> (\<forall>x \<in> set (forest_steps ?nodes). grounded steps (sv_id x))"
    using groundedness node_steps_head by fastforce
  also have "\<dots> \<longleftrightarrow> (\<forall>s \<in> set steps. grounded steps (sv_id s))" using mset_eq_setD [OF same] by simp
  finally have count: "countPlacement ?nodes PlacedCycle = 0 \<longleftrightarrow> (\<forall>s \<in> set steps. grounded steps (sv_id s))" .
  have "countStepNodes ?nodes = length steps"
    using arg_cong [OF same, of size] by (simp add: countStepNodes_def countStepNode_steps length_concat comp_def)
  thus ?thesis by (intro exI [of _ ?nodes] conjI ballI b same count groundedness o(5)) (use placement in blast)+
qed

definition step_view :: "string \<Rightarrow> string option \<Rightarrow> StepView" where
  "step_view i p = \<lparr>sv_id = js i, sv_runId = js ''r'', sv_parentStepId = map_option js p, sv_name = JNull, sv_agentName = JNull,
     sv_type = JNull, sv_status = RUNNING, sv_startedAt = None, sv_completedAt = None, sv_receivedAt = js ''t'', sv_metadata = JNull\<rparr>"

theorem step_tree_total_and_exact_witness:
  "\<exists>nodes. buildStepTree [step_view ''a'' (Some ''b''), step_view ''b'' (Some ''a''), step_view ''r'' None, step_view ''x'' (Some ''g'')] = Some nodes \<and>
     countStepNodes nodes = 4 \<and> countPlacement nodes PlacedCycle \<noteq> 0"
proof -
  let ?steps = "[step_view ''a'' (Some ''b''), step_view ''b'' (Some ''a''), step_view ''r'' None, step_view ''x'' (Some ''g'')]"
  have "i \<noteq> js ''a'' \<and> i \<noteq> js ''b''" if "grounded ?steps i" for i
    using that by induction (auto simp: step_view_def top_placement_def)
  hence "\<not> grounded ?steps (sv_id (step_view ''a'' (Some ''b'')))" by (auto simp: step_view_def)
  moreover have "distinct (map sv_id ?steps)" by (simp add: step_view_def)
  ultimately show ?thesis using step_tree_total_and_exact [of ?steps] by auto
qed

end
