(* ===== verification/Timeline.thy ===== *)
theory Timeline
  imports Run_Detail Step_Tree
begin

text \<open>
  \<^verbatim>\<open>platform/dashboard/src/lib/timeline.ts\<close>: the execution timeline of a run, from client clocks only.
  Percentages are exact rationals.
\<close>

datatype TimelineShape = ShapeClosed | ShapeOpen | ShapeEndOnly | ShapeReversed
datatype UnplacedReason = NoClientClock

record TimelineWindow =
  tw_startMs :: int
  tw_endMs :: int
  tw_spanMs :: int
  tw_startedAt :: jstr
  tw_endsAt :: jstr

record TimelineEntry =
  tl_step :: StepView
  tl_shape :: TimelineShape
  tl_startedAt :: "jstr option"
  tl_completedAt :: "jstr option"
  tl_durationMs :: "int option"
  tl_offsetPercent :: "rat option"
  tl_widthPercent :: "rat option"

record UnplacedStep =
  un_step :: StepView
  un_reason :: UnplacedReason

record RunTimeline =
  rtl_window :: "TimelineWindow option"
  rtl_entries :: "TimelineEntry list"
  rtl_unplaced :: "UnplacedStep list"
  rtl_runDurationMs :: "int option"

section \<open>The functions\<close>

definition epochOf :: "jstr option \<Rightarrow> int option" where
  "epochOf instant = (case instant of None \<Rightarrow> None | Some s \<Rightarrow> date_parse s)"

definition anchorOf :: "StepView \<Rightarrow> jstr option" where
  "anchorOf step = (case sv_startedAt step of Some s \<Rightarrow> Some s | None \<Rightarrow> sv_completedAt step)"

definition byClientClockThenId :: "StepView \<Rightarrow> StepView \<Rightarrow> int" where
  "byClientClockThenId left right =
     (case (epochOf (anchorOf left), epochOf (anchorOf right)) of
        (Some leftMs, Some rightMs) \<Rightarrow> if leftMs \<noteq> rightMs then leftMs - rightMs else js_compare (sv_id left) (sv_id right)
      | _ \<Rightarrow> js_compare (sv_id left) (sv_id right))"

definition run_instants :: "RunDetailView \<Rightarrow> jstr list" where
  "run_instants run = List.map_filter id
     ([rv_startedAt run, rv_completedAt run] @ concat (map (\<lambda>step. [sv_startedAt step, sv_completedAt step]) (rt_steps run)))"

definition computeWindow :: "RunDetailView \<Rightarrow> TimelineWindow option" where
  "computeWindow run =
     (let epochs = List.map_filter (\<lambda>i. epochOf (Some i)) (run_instants run)
      in if epochs = [] then None
         else let startMs = Min (set epochs); endMs = Max (set epochs)
              in Some \<lparr>tw_startMs = startMs, tw_endMs = endMs, tw_spanMs = endMs - startMs,
                       tw_startedAt = toISOString startMs, tw_endsAt = toISOString endMs\<rparr>)"

definition closedDuration :: "jstr option \<Rightarrow> jstr option \<Rightarrow> int option" where
  "closedDuration startedAt completedAt =
     (case (epochOf startedAt, epochOf completedAt) of
        (Some startMs, Some endMs) \<Rightarrow> if endMs < startMs then None else Some (endMs - startMs)
      | _ \<Rightarrow> None)"

definition shapeOf :: "StepView \<Rightarrow> TimelineShape" where
  "shapeOf step =
     (if sv_startedAt step = None then ShapeEndOnly
      else if sv_completedAt step = None then ShapeOpen
      else case (epochOf (sv_startedAt step), epochOf (sv_completedAt step)) of
             (Some startMs, Some completedMs) \<Rightarrow> if completedMs < startMs then ShapeReversed else ShapeClosed
           | _ \<Rightarrow> ShapeOpen)"

definition boundedEndMs :: "StepView \<Rightarrow> TimelineShape \<Rightarrow> TimelineWindow option \<Rightarrow> int option" where
  "boundedEndMs step shape window =
     (case shape of
        ShapeClosed \<Rightarrow> epochOf (sv_completedAt step)
      | ShapeOpen \<Rightarrow> map_option tw_endMs window
      | ShapeEndOnly \<Rightarrow> epochOf (anchorOf step)
      | ShapeReversed \<Rightarrow> epochOf (anchorOf step))"

definition place :: "StepView \<Rightarrow> TimelineWindow option \<Rightarrow> TimelineEntry" where
  "place step window =
     (let shape = shapeOf step;
          anchorMs = epochOf (anchorOf step);
          endMs = boundedEndMs step shape window;
          positioned =
            (case (window, anchorMs, endMs) of
               (Some w, Some a, Some e) \<Rightarrow>
                 if 0 < tw_spanMs w
                 then (Some (rat_of_int (a - tw_startMs w) / rat_of_int (tw_spanMs w) * 100),
                       Some (rat_of_int (e - a) / rat_of_int (tw_spanMs w) * 100))
                 else (None, None)
             | _ \<Rightarrow> (None, None))
      in \<lparr>tl_step = step, tl_shape = shape, tl_startedAt = sv_startedAt step, tl_completedAt = sv_completedAt step,
          tl_durationMs = (if shape = ShapeClosed then closedDuration (sv_startedAt step) (sv_completedAt step) else None),
          tl_offsetPercent = fst positioned, tl_widthPercent = snd positioned\<rparr>)"

definition buildRunTimeline :: "RunDetailView \<Rightarrow> RunTimeline" where
  "buildRunTimeline run =
     (let window = computeWindow run;
          placeable = filter (\<lambda>step. anchorOf step \<noteq> None) (rt_steps run);
          unplaced = map (\<lambda>step. \<lparr>un_step = step, un_reason = NoClientClock\<rparr>) (filter (\<lambda>step. anchorOf step = None) (rt_steps run))
      in \<lparr>rtl_window = window, rtl_entries = map (\<lambda>step. place step window) (js_sort byClientClockThenId placeable),
          rtl_unplaced = unplaced, rtl_runDurationMs = closedDuration (rv_startedAt run) (rv_completedAt run)\<rparr>)"

definition countTimelineSteps :: "RunTimeline \<Rightarrow> nat" where
  "countTimelineSteps timeline = length (rtl_entries timeline) + length (rtl_unplaced timeline)"

definition describeTimelineAnomalies :: "RunTimeline \<Rightarrow> jstr" where
  "describeTimelineAnomalies timeline =
     (let endOnly = length (filter (\<lambda>e. tl_shape e = ShapeEndOnly) (rtl_entries timeline));
          reversed = length (filter (\<lambda>e. tl_shape e = ShapeReversed) (rtl_entries timeline));
          unplaced = length (rtl_unplaced timeline)
      in (if 0 < endOnly then MIDDLE_DOT @ nat_text endOnly @ js '' completed before any start'' else []) @
         (if 0 < reversed then MIDDLE_DOT @ nat_text reversed @ js '' with a reversed client clock'' else []) @
         (if 0 < unplaced then MIDDLE_DOT @ nat_text unplaced @ js '' with no client clock'' else []))"

text \<open>\<^verbatim>\<open>String(ms)\<close> and \<^verbatim>\<open>(ms / 1000).toFixed(3)\<close> of a whole number of milliseconds.\<close>

definition int_text :: "int \<Rightarrow> jstr" where
  "int_text k = (if k < 0 then js ''-'' @ nat_text (nat (- k)) else nat_text (nat k))"

definition formatDuration :: "int option \<Rightarrow> jstr" where
  "formatDuration d =
     (case d of
        None \<Rightarrow> [8212]
      | Some ms \<Rightarrow> if ms < 1000 then int_text ms @ js ''ms''
                   else int_text (ms div 1000) @ js ''.'' @ pad_digits 3 (ms mod 1000) @ js ''s'')"

section \<open>Every step is on the page\<close>

lemma mset_js_sort [simp]: "mset (js_sort cmp xs) = mset xs"
  by (induction xs rule: rev_induct) (simp_all add: js_sort_def)

lemma set_js_sort [simp]: "set (js_sort cmp xs) = set xs"
  using mset_eq_setD [OF mset_js_sort] .

lemma length_js_sort [simp]: "length (js_sort cmp xs) = length xs"
  by (metis mset_js_sort size_mset)

lemma js_sort_map:
  assumes "\<And>x y. cmp (g x) (g y) = cmp x y"
  shows "js_sort cmp (map g xs) = map g (js_sort cmp xs)"
proof -
  have "js_insert cmp (g x) (map g ys) = map g (js_insert cmp x ys)" for x ys by (induction ys) (simp_all add: assms)
  thus ?thesis by (induction xs rule: rev_induct) (simp_all add: js_sort_def)
qed

lemma js_sort_cong:
  assumes "\<And>x y. x \<in> set xs \<Longrightarrow> y \<in> set xs \<Longrightarrow> cmp x y = cmp' x y"
  shows "js_sort cmp xs = js_sort cmp' xs"
  using assms
proof (induction xs rule: rev_induct)
  case (snoc x xs)
  have "js_insert cmp x ys = js_insert cmp' x ys" if "set ys \<subseteq> set (xs @ [x])" for ys
    using that snoc.prems by (induction ys) auto
  from this [of "js_sort cmp' xs"] have "js_insert cmp x (js_sort cmp' xs) = js_insert cmp' x (js_sort cmp' xs)" by fastforce
  thus ?case using snoc by (simp add: js_sort_def [of _ "xs @ [x]"] flip: js_sort_def)
qed (simp add: js_sort_def)

lemma place_parts [simp]:
  "tl_step (place s w) = s" "tl_shape (place s w) = shapeOf s"
  by (simp_all add: place_def Let_def)

lemma nat_text_ne [simp]: "nat_text n \<noteq> []"
  by (subst nat_text.simps) simp

lemma timeline_step_count: "countTimelineSteps (buildRunTimeline run) = length (rt_steps run)"
  using sum_length_filter_compl [of "\<lambda>s. anchorOf s \<noteq> None" "rt_steps run"]
  by (simp add: countTimelineSteps_def buildRunTimeline_def Let_def)

text \<open>The timeline accounts for every step: each is either an entry or unplaced, exactly once; it is unplaced
  exactly if the client sent neither a start nor an end; and the header mentions an anomaly exactly if some step has no
  start or an end before its start.\<close>

theorem timeline_accounts_for_every_step:
  "mset (map tl_step (rtl_entries (buildRunTimeline run)) @ map un_step (rtl_unplaced (buildRunTimeline run))) = mset (rt_steps run) \<and>
   countTimelineSteps (buildRunTimeline run) = length (rt_steps run) \<and>
   un_step ` set (rtl_unplaced (buildRunTimeline run)) = {s \<in> set (rt_steps run). sv_startedAt s = None \<and> sv_completedAt s = None} \<and>
   (describeTimelineAnomalies (buildRunTimeline run) = [] \<longleftrightarrow>
      {s \<in> set (rt_steps run). sv_startedAt s = None \<or> shapeOf s = ShapeReversed} = {})"
proof (intro conjI)
  let ?t = "buildRunTimeline run"
  have e: "map tl_step (rtl_entries ?t) = js_sort byClientClockThenId (filter (\<lambda>s. anchorOf s \<noteq> None) (rt_steps run))"
    and u: "map un_step (rtl_unplaced ?t) = filter (\<lambda>s. anchorOf s = None) (rt_steps run)"
    by (simp_all add: buildRunTimeline_def Let_def comp_def)
  show m: "mset (map tl_step (rtl_entries ?t) @ map un_step (rtl_unplaced ?t)) = mset (rt_steps run)"
    unfolding e u using multiset_partition [of "mset (rt_steps run)" "\<lambda>s. anchorOf s = None"] by (simp add: union_commute)
  show "countTimelineSteps ?t = length (rt_steps run)" by (rule timeline_step_count)
  have un: "un_step ` set (rtl_unplaced ?t) = {s \<in> set (rt_steps run). anchorOf s = None}"
    using arg_cong [OF u, of set] by simp
  moreover have none: "anchorOf s = None \<longleftrightarrow> sv_startedAt s = None \<and> sv_completedAt s = None" for s
    by (simp add: anchorOf_def split: option.split)
  ultimately show "un_step ` set (rtl_unplaced ?t) = {s \<in> set (rt_steps run). sv_startedAt s = None \<and> sv_completedAt s = None}"
    by simp
  have "(\<forall>e \<in> set (rtl_entries ?t). tl_shape e \<noteq> k) \<longleftrightarrow> (\<forall>s \<in> set (rt_steps run). anchorOf s \<noteq> None \<longrightarrow> shapeOf s \<noteq> k)" for k
    by (auto simp: buildRunTimeline_def Let_def)
  note shape = this
  have empty: "rtl_unplaced ?t = [] \<longleftrightarrow> (\<forall>s \<in> set (rt_steps run). anchorOf s \<noteq> None)"
    by (simp add: buildRunTimeline_def Let_def filter_empty_conv)
  have header: "describeTimelineAnomalies ?t = [] \<longleftrightarrow> rtl_unplaced ?t = [] \<and>
      (\<forall>e \<in> set (rtl_entries ?t). tl_shape e \<noteq> ShapeEndOnly) \<and> (\<forall>e \<in> set (rtl_entries ?t). tl_shape e \<noteq> ShapeReversed)"
    by (auto simp: describeTimelineAnomalies_def Let_def MIDDLE_DOT_def filter_empty_conv)
  have "sv_startedAt s = None \<longleftrightarrow> anchorOf s = None \<or> shapeOf s = ShapeEndOnly" for s
    by (auto simp: none shapeOf_def split: option.splits if_splits)
  thus "describeTimelineAnomalies ?t = [] \<longleftrightarrow> {s \<in> set (rt_steps run). sv_startedAt s = None \<or> shapeOf s = ShapeReversed} = {}"
    unfolding header empty shape by auto
qed

section \<open>Bars stay inside the window\<close>

text \<open>Every instant of the run is a date; responses are parsed against a schema that requires it.\<close>

definition readable_run :: "RunDetailView \<Rightarrow> bool" where
  "readable_run run \<longleftrightarrow> (\<forall>i \<in> set (run_instants run). date_parse i \<noteq> None)"

definition clock_key :: "StepView \<Rightarrow> int \<times> jstr" where
  "clock_key s = (coalesce (epochOf (anchorOf s)) 0, sv_id s)"

lemma set_map_filter_eq: "set (List.map_filter f xs) = {y. \<exists>x \<in> set xs. f x = Some y}"
  by (induction xs) (auto split: option.split)

lemma set_run_instants: "set (run_instants run) = {i. rv_startedAt run = Some i \<or> rv_completedAt run = Some i \<or>
    (\<exists>s \<in> set (rt_steps run). sv_startedAt s = Some i \<or> sv_completedAt s = Some i)}"
  unfolding run_instants_def set_map_filter_eq by (auto, metis+)

lemma readable_epoch:
  assumes "readable_run run" "s \<in> set (rt_steps run)"
  shows "sv_startedAt s = Some i \<Longrightarrow> \<exists>t. epochOf (Some i) = Some t" "sv_completedAt s = Some i \<Longrightarrow> \<exists>t. epochOf (Some i) = Some t"
    "anchorOf s = Some i \<Longrightarrow> \<exists>t. epochOf (Some i) = Some t"
  using assms by (auto simp: readable_run_def set_run_instants epochOf_def anchorOf_def split: option.splits)

lemma entries_sorted:
  assumes "readable_run run"
  shows "map tl_step (rtl_entries (buildRunTimeline run)) = sort_key clock_key (filter (\<lambda>s. anchorOf s \<noteq> None) (rt_steps run))"
proof -
  let ?cmp = "\<lambda>l r. if fst (clock_key l) \<noteq> fst (clock_key r) then fst (clock_key l) - fst (clock_key r) else js_compare (sv_id l) (sv_id r)"
  let ?xs = "filter (\<lambda>s. anchorOf s \<noteq> None) (rt_steps run)"
  have "\<exists>t. epochOf (anchorOf s) = Some t" if "s \<in> set ?xs" for s
    using that readable_epoch(3) [OF assms, of s] by (cases "anchorOf s") auto
  hence "js_sort byClientClockThenId ?xs = js_sort ?cmp ?xs"
    by (intro js_sort_cong) (fastforce simp: byClientClockThenId_def clock_key_def split: option.split)
  also have "\<dots> = sort_key clock_key (filter (\<lambda>s. anchorOf s \<noteq> None) (rt_steps run))"
    by (rule js_sort_key) (auto simp: orders_by_def clock_key_def js_compare_def)
  finally show ?thesis by (simp add: buildRunTimeline_def Let_def comp_def)
qed

lemma window_bounds:
  assumes "computeWindow run = Some w" "i \<in> set (run_instants run)" "epochOf (Some i) = Some t"
  shows "tw_startMs w \<le> t \<and> t \<le> tw_endMs w" "tw_spanMs w = tw_endMs w - tw_startMs w"
proof -
  let ?E = "set (List.map_filter (\<lambda>i. epochOf (Some i)) (run_instants run))"
  have "t \<in> ?E" using assms(2,3) unfolding set_map_filter_eq by blast
  hence "Min ?E \<le> t" "t \<le> Max ?E" by simp_all
  thus "tw_startMs w \<le> t \<and> t \<le> tw_endMs w" "tw_spanMs w = tw_endMs w - tw_startMs w"
    using assms(1) by (auto simp: computeWindow_def Let_def split: if_splits)
qed

text \<open>The bars of the timeline are inside the axis and in order: when every instant of the run is a date, entries are
  sorted by client clock and then by id, whatever the order of the steps; in a window of some width every entry has a
  position from 0 to 100 and ends at 100 at most, a closed one with the width of its duration; and every duration is
  at least zero.\<close>

theorem timeline_bars_fit:
  assumes "readable_run run" "e \<in> set (rtl_entries (buildRunTimeline run))" "rtl_window (buildRunTimeline run) = Some w" "0 < tw_spanMs w"
  shows "\<exists>off width. tl_offsetPercent e = Some off \<and> tl_widthPercent e = Some width \<and> 0 \<le> off \<and> 0 \<le> width \<and> off + width \<le> 100 \<and>
     (case tl_durationMs e of None \<Rightarrow> True | Some d \<Rightarrow> 0 \<le> d \<and> width = rat_of_int d / rat_of_int (tw_spanMs w) * 100) \<and>
     map tl_step (rtl_entries (buildRunTimeline run)) = sort_key clock_key (filter (\<lambda>s. anchorOf s \<noteq> None) (rt_steps run))"
proof -
  obtain s where s: "s \<in> set (rt_steps run)" "anchorOf s \<noteq> None" "e = place s (Some w)" and w: "computeWindow run = Some w"
    using assms(2,3) by (auto simp: buildRunTimeline_def Let_def)
  have inW: "tw_startMs w \<le> t \<and> t \<le> tw_endMs w" if "sv_startedAt s = Some i \<or> sv_completedAt s = Some i" "epochOf (Some i) = Some t" for i t
    using window_bounds(1) [OF w _ that(2)] that(1) s(1) by (auto simp: set_run_instants)
  obtain i a where a: "anchorOf s = Some i" "epochOf (Some i) = Some a"
    using s(2) readable_epoch(3) [OF assms(1) s(1)] by auto
  have "sv_startedAt s = Some i \<or> sv_completedAt s = Some i" using a(1) by (auto simp: anchorOf_def split: option.splits)
  note A = inW [OF this a(2)]
  obtain b where b: "boundedEndMs s (shapeOf s) (Some w) = Some b" "a \<le> b" "b \<le> tw_endMs w"
    and d: "shapeOf s = ShapeClosed \<Longrightarrow> closedDuration (sv_startedAt s) (sv_completedAt s) = Some (b - a)"
  proof (cases "shapeOf s")
    case ShapeClosed
    then obtain i' j t where t: "sv_startedAt s = Some i'" "sv_completedAt s = Some j" "epochOf (Some j) = Some t" "a \<le> t"
      using a by (auto simp: shapeOf_def anchorOf_def split: option.splits if_splits)
    thus ?thesis using that [of t] ShapeClosed inW [of j t] a by (simp add: boundedEndMs_def closedDuration_def anchorOf_def)
  qed (use that A a in \<open>auto simp: boundedEndMs_def\<close>)
  let ?span = "rat_of_int (tw_spanMs w)"
  have span: "0 < ?span" "tw_spanMs w = tw_endMs w - tw_startMs w" using assms(4) window_bounds(2) [OF w _ a(2)] w
    by (auto simp: computeWindow_def Let_def split: if_splits)
  have pos: "tl_offsetPercent e = Some (rat_of_int (a - tw_startMs w) / ?span * 100)"
      "tl_widthPercent e = Some (rat_of_int (b - a) / ?span * 100)"
    using a b(1) assms(4) by (simp_all add: s(3) place_def Let_def)
  have "rat_of_int (a - tw_startMs w) / ?span * 100 + rat_of_int (b - a) / ?span * 100 = rat_of_int (b - tw_startMs w) / ?span * 100"
    by (simp add: diff_divide_distrib left_diff_distrib)
  also have "\<dots> \<le> 100" using b(3) span by (simp add: divide_le_eq)
  finally have "rat_of_int (a - tw_startMs w) / ?span * 100 + rat_of_int (b - a) / ?span * 100 \<le> 100" .
  moreover have "tl_durationMs e = (if shapeOf s = ShapeClosed then Some (b - a) else None)"
    using d by (simp add: s(3) place_def Let_def)
  ultimately show ?thesis using pos A b(2) span(1) entries_sorted [OF assms(1)] by simp
qed

section \<open>Server clocks play no part\<close>

lemma clock_functions_receivedAt [simp]:
  fixes s :: StepView
  shows "anchorOf (s\<lparr>sv_receivedAt := t\<rparr>) = anchorOf s" "shapeOf (s\<lparr>sv_receivedAt := t\<rparr>) = shapeOf s"
  by (simp_all add: anchorOf_def shapeOf_def split: option.split)

lemma placement_receivedAt [simp]:
  fixes s :: StepView
  shows "boundedEndMs (s\<lparr>sv_receivedAt := t\<rparr>) sh w = boundedEndMs s sh w"
    "byClientClockThenId (s\<lparr>sv_receivedAt := t\<rparr>) (z\<lparr>sv_receivedAt := t'\<rparr>) = byClientClockThenId s z"
  by (simp_all add: boundedEndMs_def byClientClockThenId_def split: TimelineShape.split option.split)

lemma place_receivedAt [simp]: "place (s\<lparr>sv_receivedAt := t\<rparr>) w = (place s w)\<lparr>tl_step := s\<lparr>sv_receivedAt := t\<rparr>\<rparr>"
  by (simp add: place_def Let_def)

text \<open>The timeline reads client clocks only: changing every server time of the response, the run's and the
  steps', changes no window, no duration, no position and no order.\<close>

theorem timeline_ignores_server_clocks:
  "buildRunTimeline (run\<lparr>rv_receivedAt := ra, rv_lastEventAt := la, rt_steps := map (\<lambda>s. s\<lparr>sv_receivedAt := f s\<rparr>) (rt_steps run)\<rparr>) =
   (buildRunTimeline run)\<lparr>
     rtl_entries := map (\<lambda>e. e\<lparr>tl_step := (tl_step e)\<lparr>sv_receivedAt := f (tl_step e)\<rparr>\<rparr>) (rtl_entries (buildRunTimeline run)),
     rtl_unplaced := map (\<lambda>u. u\<lparr>un_step := (un_step u)\<lparr>sv_receivedAt := f (un_step u)\<rparr>\<rparr>) (rtl_unplaced (buildRunTimeline run))\<rparr>"
proof -
  let ?g = "\<lambda>s. s\<lparr>sv_receivedAt := f s\<rparr>"
  let ?run = "run\<lparr>rv_receivedAt := ra, rv_lastEventAt := la, rt_steps := map ?g (rt_steps run)\<rparr>"
  have "run_instants ?run = run_instants run" by (simp add: run_instants_def comp_def)
  hence w: "computeWindow ?run = computeWindow run" by (simp add: computeWindow_def)
  have "js_sort byClientClockThenId (map ?g xs) = map ?g (js_sort byClientClockThenId xs)" for xs
    by (rule js_sort_map) simp
  thus ?thesis by (simp add: buildRunTimeline_def Let_def w filter_map comp_def)
qed

section \<open>What the API returns can be drawn\<close>

lemma stored_instants:
  assumes "wf_store (ps_telemetry st)" "findById safeParse db thr st now runId = Some v"
  shows "pred_option (\<lambda>t. date_parse t \<noteq> None) (rv_startedAt v)" "pred_option (\<lambda>t. date_parse t \<noteq> None) (rv_completedAt v)"
    "s \<in> set (rt_steps v) \<Longrightarrow> pred_option (\<lambda>t. date_parse t \<noteq> None) (sv_startedAt s)"
    "s \<in> set (rt_steps v) \<Longrightarrow> pred_option (\<lambda>t. date_parse t \<noteq> None) (sv_completedAt s)"
proof -
  obtain row where row: "ts_runs (ps_telemetry st) runId = Some row" and
    v: "rv_startedAt v = map_option toISOString (rc_startedAt (rr_columns row))"
       "rv_completedAt v = map_option toISOString (rc_completedAt (rr_columns row))"
    using assms(2) by (auto simp: findById_def findRun_def RunSummaryView.defs toRunSummaryView_def toRunRecord_def toIsoOrNull_def split: option.splits)
  obtain z where "Some (rr_columns row) = runColumns z" using wf_storeD(1) [OF assms(1) row] by metis
  hence "toDate (ms_startedAt z) = Some (rc_startedAt (rr_columns row))" "toDate (ms_completedAt z) = Some (rc_completedAt (rr_columns row))"
    by (auto simp: runColumns_def split: option.splits)
  thus "pred_option (\<lambda>t. date_parse t \<noteq> None) (rv_startedAt v)" "pred_option (\<lambda>t. date_parse t \<noteq> None) (rv_completedAt v)"
    using toDate_reload(3) by (simp_all add: v)
next
  assume "s \<in> set (rt_steps v)"
  then obtain i r where "ts_steps (ps_telemetry st) i = Some r" "s = toStepView safeParse r"
    unfolding detail_parts(1) [OF assms(2) wf_store_keyed [OF assms(1)]] by (auto simp: findManyOfRun_def)
  moreover then obtain z where "Some (sr_columns r) = stepColumns z" using wf_storeD(2) [OF assms(1)] by metis
  hence "toDate (ms_startedAt z) = Some (sc_startedAt (sr_columns r))" "toDate (ms_completedAt z) = Some (sc_completedAt (sr_columns r))"
    by (auto simp: stepColumns_def split: option.splits)
  ultimately show "pred_option (\<lambda>t. date_parse t \<noteq> None) (sv_startedAt s)" "pred_option (\<lambda>t. date_parse t \<noteq> None) (sv_completedAt s)"
    using toDate_reload(3) by (simp_all add: toStepView_def toIsoOrNull_def)
qed

text \<open>What is stored can be drawn: for every run the API returns from a store that ingestion wrote, all instants
  are dates, the tree of steps is built, and both the tree and the timeline have exactly one place for every
  stored step of the run.\<close>

theorem stored_run_can_be_drawn:
  assumes "wf_store (ps_telemetry st)" "database_of db st" "findById safeParse db thr st now runId = Some v"
  shows "readable_run v \<and> countTimelineSteps (buildRunTimeline v) = card {i. \<exists>r. ts_steps (ps_telemetry st) i = Some r \<and> sr_runId r = runId} \<and>
    (\<exists>nodes. buildStepTree (rt_steps v) = Some nodes \<and>
       countStepNodes nodes = card {i. \<exists>r. ts_steps (ps_telemetry st) i = Some r \<and> sr_runId r = runId})"
proof -
  have scan: "scans db (db_steps db) (ts_steps (ps_telemetry st))" using assms(2) by (simp add: database_of_def)
  note ids = listed_ids [OF scan detail_ids(1) [OF assms(3) wf_store_keyed [OF assms(1)] assms(2)]]
  have n: "card {i. \<exists>r. ts_steps (ps_telemetry st) i = Some r \<and> sr_runId r = runId} = length (rt_steps v)"
    unfolding ids(2) [symmetric] using ids(1) by (metis distinct_card length_map set_map)
  obtain nodes where t: "buildStepTree (rt_steps v) = Some nodes" "placed_ok (rt_steps v) {} nodes (sv_id ` set (rt_steps v))"
    using buildStepTree_parts [OF ids(1)] by blast
  have "countStepNodes nodes = length (rt_steps v)"
    using arg_cong [OF every_step_once [OF t(2) ids(1)], of size] by (simp add: countStepNodes_def countStepNode_steps length_concat comp_def)
  moreover have "readable_run v"
    using stored_instants [OF assms(1,3)] unfolding readable_run_def set_run_instants by (auto simp: pred_option_def)
  ultimately show ?thesis using t(1) by (simp add: n timeline_step_count)
qed

section \<open>At work\<close>

definition drawn_step :: StepView where
  "drawn_step = (step_view ''a'' None)\<lparr>sv_startedAt := Some (js ''2024-05-01T10:00:01Z''), sv_completedAt := Some (js ''2024-05-01T10:00:03Z'')\<rparr>"

definition drawn_run :: RunDetailView where
  "drawn_run = RunSummaryView.extend \<lparr>rv_id = js ''r'', rv_traceId = js ''r'', rv_workflowName = JNull, rv_workflowVersion = JNull,
     rv_status = ViewRunning, rv_startedAt = Some (js ''2024-05-01T10:00:00Z''), rv_completedAt = Some (js ''2024-05-01T10:00:04Z''),
     rv_receivedAt = js ''2024-05-02T00:00:00Z'', rv_lastEventAt = js ''2024-05-02T00:00:00Z'', rv_metadata = JNull\<rparr>
     (RunDetailView.fields [drawn_step] [] [] [] [])"

lemma drawn_run_parts [simp]:
  "rt_steps drawn_run = [drawn_step]" "rv_startedAt drawn_run = Some (js ''2024-05-01T10:00:00Z'')"
  "rv_completedAt drawn_run = Some (js ''2024-05-01T10:00:04Z'')"
  "sv_startedAt drawn_step = Some (js ''2024-05-01T10:00:01Z'')" "sv_completedAt drawn_step = Some (js ''2024-05-01T10:00:03Z'')"
  by (simp_all add: drawn_run_def drawn_step_def RunSummaryView.defs RunDetailView.defs)

lemma drawn_dates:
  "date_parse (js ''2024-05-01T10:00:00Z'') = Some 1714557600000" "date_parse (js ''2024-05-01T10:00:01Z'') = Some 1714557601000"
  "date_parse (js ''2024-05-01T10:00:03Z'') = Some 1714557603000" "date_parse (js ''2024-05-01T10:00:04Z'') = Some 1714557604000"
  by code_simp+

theorem timeline_bars_fit_witness:
  "\<exists>e off width. rtl_entries (buildRunTimeline drawn_run) = [e] \<and> tl_offsetPercent e = Some off \<and> tl_widthPercent e = Some width \<and>
     0 \<le> off \<and> off + width \<le> 100"
proof -
  have i: "run_instants drawn_run = [js ''2024-05-01T10:00:00Z'', js ''2024-05-01T10:00:04Z'', js ''2024-05-01T10:00:01Z'', js ''2024-05-01T10:00:03Z'']"
    by (simp add: run_instants_def)
  have r: "readable_run drawn_run" by (simp add: readable_run_def i drawn_dates)
  obtain w where w: "rtl_window (buildRunTimeline drawn_run) = Some w" "tw_spanMs w = 4000"
    by (simp add: buildRunTimeline_def computeWindow_def i epochOf_def drawn_dates Let_def)
  have "rtl_entries (buildRunTimeline drawn_run) = [place drawn_step (Some w)]"
    using w(1) by (simp add: buildRunTimeline_def js_sort_def anchorOf_def Let_def)
  thus ?thesis using timeline_bars_fit [OF r _ w(1), of "place drawn_step (Some w)"] w(2) by auto
qed

theorem stored_run_can_be_drawn_witness:
  "\<exists>st db v. findById zod_ref db 10 st 7 (js ''r'') = Some v \<and> readable_run v \<and> countTimelineSteps (buildRunTimeline v) = 1"
proof -
  have "metadata_only ev_start" by (simp add: metadata_only_def ev_start_def)
  hence e: "wire_merge_event ev_start" by (simp add: wire_merge_event_def sample_valid)
  obtain s where s: "row_state s" using row_state_first [OF e] by (auto simp: mergeEvent_def ev_start_def)
  have w0: "wf_store (ps_telemetry empty_platform)" by (simp add: empty_platform_def wf_store_def)
  obtain t1 where t1: "saveRunWith (ps_telemetry empty_platform) (js ''r'') s = Inr t1" "wf_store t1" using wf_saveRun [OF w0 s] by blast
  obtain t2 where t2: "saveStepWith t1 (js ''x'') (js ''r'') s = Inr t2" "wf_store t2" using wf_saveStep [OF t1(2) s] by blast
  let ?st = "empty_platform\<lparr>ps_telemetry := t2\<rparr>" and ?db = "one_error_database\<lparr>db_steps := [js ''x''], db_errors := []\<rparr>"
  obtain row where x: "ts_runs t2 (js ''r'') \<noteq> None" "ts_steps t2 = [js ''x'' \<mapsto> row]" "sr_runId row = js ''r''"
    using t1(1) t2(1) by (auto simp: saveRunWith_def saveStepWith_def empty_platform_def split: option.splits)
  have "database_of ?db ?st" using x by (simp add: database_of_def scans_def one_error_database_def empty_platform_def)
  moreover obtain v where "findById zod_ref ?db 10 ?st 7 (js ''r'') = Some v" using x(1) by (auto simp: findById_def findRun_def)
  moreover have "{i. \<exists>r. ts_steps t2 i = Some r \<and> sr_runId r = js ''r''} = {js ''x''}" using x by auto
  ultimately show ?thesis using stored_run_can_be_drawn [of ?st ?db zod_ref 10 7 "js ''r''"] t2(2) by fastforce
qed

end
