(* ===== verification/Run_Telemetry.thy ===== *)
theory Run_Telemetry
  imports Timeline
begin

text \<open>
  \<^verbatim>\<open>platform/dashboard/src/lib/run-telemetry.ts\<close>: the collections of a run as the dashboard reads them, where a
  collection may be missing from the response, and the health report over them.
\<close>

record RunDetailResponse =
  rr_decisions :: "DecisionView list option"
  rr_modelCalls :: "ModelCallView list option"
  rr_toolCalls :: "ToolCallView list option"
  rr_errors :: "ErrorView list option"

text \<open>What the service of the API answers: every collection is present.\<close>

definition response_of :: "RunDetailView \<Rightarrow> RunDetailResponse" where
  "response_of v = \<lparr>rr_decisions = Some (rt_decisions v), rr_modelCalls = Some (rt_modelCalls v),
     rr_toolCalls = Some (rt_toolCalls v), rr_errors = Some (rt_errors v)\<rparr>"

datatype CollectionPresence = PresenceAbsent | PresenceNone | PresenceSome

record 'r TelemetryCollection =
  tc_presence :: CollectionPresence
  tc_rows :: "'r list"

definition collect :: "'r list option \<Rightarrow> 'r TelemetryCollection" where
  "collect rows = (case rows of
     None \<Rightarrow> \<lparr>tc_presence = PresenceAbsent, tc_rows = []\<rparr>
   | Some xs \<Rightarrow> \<lparr>tc_presence = (if length xs = 0 then PresenceNone else PresenceSome), tc_rows = xs\<rparr>)"

record RunTelemetry =
  tm_decisions :: "DecisionView TelemetryCollection"
  tm_modelCalls :: "ModelCallView TelemetryCollection"
  tm_toolCalls :: "ToolCallView TelemetryCollection"
  tm_errors :: "ErrorView TelemetryCollection"

definition readRunTelemetry :: "RunDetailResponse \<Rightarrow> RunTelemetry" where
  "readRunTelemetry run = \<lparr>tm_decisions = collect (rr_decisions run), tm_modelCalls = collect (rr_modelCalls run),
     tm_toolCalls = collect (rr_toolCalls run), tm_errors = collect (rr_errors run)\<rparr>"

datatype CollectionSentence = NotCarried jstr | ReportedNone jstr | NoSentence

definition describeCollection :: "CollectionPresence \<Rightarrow> jstr \<Rightarrow> CollectionSentence" where
  "describeCollection presence plural = (case presence of
     PresenceAbsent \<Rightarrow> NotCarried plural | PresenceNone \<Rightarrow> ReportedNone plural | PresenceSome \<Rightarrow> NoSentence)"

section \<open>Health\<close>

record ToolCallClock =
  tk_instantsReversed :: bool
  tk_durationNegative :: bool

definition json_negative :: "json \<Rightarrow> bool" where
  "json_negative v = (case v of JNum q \<Rightarrow> q < 0 | _ \<Rightarrow> False)"

text \<open>A comparison with \<^verbatim>\<open>NaN\<close> is false.\<close>

definition readToolCallClock :: "ToolCallView \<Rightarrow> ToolCallClock" where
  "readToolCallClock call = \<lparr>
     tk_instantsReversed = (case (date_parse (tv_startedAt call), date_parse (tv_completedAt call)) of
        (Some startMs, Some completedMs) \<Rightarrow> completedMs < startMs | _ \<Rightarrow> False),
     tk_durationNegative = json_negative (tv_durationMs call)\<rparr>"

record CollectionReport =
  cr_label :: string
  cr_presence :: CollectionPresence
  cr_count :: nat

definition report :: "string \<Rightarrow> 'r TelemetryCollection \<Rightarrow> CollectionReport" where
  "report label collection = \<lparr>cr_label = label, cr_presence = tc_presence collection, cr_count = length (tc_rows collection)\<rparr>"

record IngestionHealth =
  ih_collections :: "CollectionReport list"
  ih_toolInputsTruncated :: "nat option"
  ih_toolOutputsTruncated :: "nat option"
  ih_truncatedOriginalBytes :: "int option"
  ih_toolCallsWithClockAnomaly :: "nat option"
  ih_modelCallsMissingInputTokens :: "nat option"
  ih_modelCallsMissingOutputTokens :: "nat option"

record ToolCallTruncationTally =
  ty_toolInputsTruncated :: nat
  ty_toolOutputsTruncated :: nat
  ty_truncatedOriginalBytes :: int
  ty_truncatedBytesUnknown :: bool
  ty_toolCallsWithClockAnomaly :: nat

text \<open>Adding the bytes of a truncated payload, or noting that they are unknown.\<close>

definition add_truncated_bytes :: "json \<Rightarrow> ToolCallTruncationTally \<Rightarrow> ToolCallTruncationTally" where
  "add_truncated_bytes bytes t = (case int_column bytes of
     None \<Rightarrow> t\<lparr>ty_truncatedBytesUnknown := True\<rparr>
   | Some n \<Rightarrow> t\<lparr>ty_truncatedOriginalBytes := ty_truncatedOriginalBytes t + n\<rparr>)"

definition tally_tool_call :: "ToolCallView \<Rightarrow> ToolCallTruncationTally \<Rightarrow> ToolCallTruncationTally" where
  "tally_tool_call call t =
     (let t1 = (if tv_inputTruncated call = JBool True
                then add_truncated_bytes (tv_inputBytes call) (t\<lparr>ty_toolInputsTruncated := ty_toolInputsTruncated t + 1\<rparr>) else t);
          t2 = (if tv_outputTruncated call = JBool True
                then add_truncated_bytes (tv_outputBytes call) (t1\<lparr>ty_toolOutputsTruncated := ty_toolOutputsTruncated t1 + 1\<rparr>) else t1);
          clock = readToolCallClock call
      in if tk_instantsReversed clock \<or> tk_durationNegative clock
         then t2\<lparr>ty_toolCallsWithClockAnomaly := ty_toolCallsWithClockAnomaly t2 + 1\<rparr> else t2)"

definition tallyToolCallTruncation :: "ToolCallView list \<Rightarrow> ToolCallTruncationTally" where
  "tallyToolCallTruncation rows = fold tally_tool_call rows
     \<lparr>ty_toolInputsTruncated = 0, ty_toolOutputsTruncated = 0, ty_truncatedOriginalBytes = 0,
      ty_truncatedBytesUnknown = False, ty_toolCallsWithClockAnomaly = 0\<rparr>"

definition assessIngestionHealth :: "RunDetailResponse \<Rightarrow> IngestionHealth" where
  "assessIngestionHealth run =
     (let telemetry = readRunTelemetry run;
          toolCallsAnswered = (tc_presence (tm_toolCalls telemetry) \<noteq> PresenceAbsent);
          modelCallsAnswered = (tc_presence (tm_modelCalls telemetry) \<noteq> PresenceAbsent);
          tally = tallyToolCallTruncation (tc_rows (tm_toolCalls telemetry));
          missing = (\<lambda>tokens. fold (\<lambda>call n. if tokens call = JNull then n + 1 else n) (tc_rows (tm_modelCalls telemetry)) (0 :: nat))
      in \<lparr>ih_collections = [report ''Decisions'' (tm_decisions telemetry), report ''Model calls'' (tm_modelCalls telemetry),
            report ''Tool calls'' (tm_toolCalls telemetry), report ''Errors'' (tm_errors telemetry)],
          ih_toolInputsTruncated = (if toolCallsAnswered then Some (ty_toolInputsTruncated tally) else None),
          ih_toolOutputsTruncated = (if toolCallsAnswered then Some (ty_toolOutputsTruncated tally) else None),
          ih_truncatedOriginalBytes = (if toolCallsAnswered \<and> \<not> ty_truncatedBytesUnknown tally
             then Some (ty_truncatedOriginalBytes tally) else None),
          ih_toolCallsWithClockAnomaly = (if toolCallsAnswered then Some (ty_toolCallsWithClockAnomaly tally) else None),
          ih_modelCallsMissingInputTokens = (if modelCallsAnswered then Some (missing mv_inputTokens) else None),
          ih_modelCallsMissingOutputTokens = (if modelCallsAnswered then Some (missing mv_outputTokens) else None)\<rparr>)"

section \<open>Numbers on the page\<close>

text \<open>The replacement \<^verbatim>\<open>/\B(?=(\d{3})+(?!\d))/g\<close> on the text of a whole number: a comma goes between two digits
  when the number of digits that follow is a multiple of three.\<close>

definition decimal_digit :: "jchar \<Rightarrow> bool" where
  "decimal_digit c \<longleftrightarrow> 48 \<le> c \<and> c \<le> 57"

fun group_digits :: "bool \<Rightarrow> jstr \<Rightarrow> jstr" where
  "group_digits after_digit [] = []"
| "group_digits after_digit (c # cs) =
     (if after_digit \<and> decimal_digit c \<and> length (c # cs) mod 3 = 0 then js '','' else []) @ c # group_digits (decimal_digit c) cs"

definition group :: "int \<Rightarrow> jstr" where
  "group value = group_digits False (int_text value)"

definition formatByteCount :: "int option \<Rightarrow> jstr" where
  "formatByteCount bytes = (case bytes of
     None \<Rightarrow> js ''not reported''
   | Some n \<Rightarrow> group n @ js '' '' @ (if n = 1 then js ''byte'' else js ''bytes''))"

definition formatCount :: "int option \<Rightarrow> jstr" where
  "formatCount value = (case value of None \<Rightarrow> js ''not reported'' | Some n \<Rightarrow> group n)"

section \<open>What the report says\<close>

definition input_truncated :: "ToolCallView \<Rightarrow> bool" where
  "input_truncated c \<longleftrightarrow> tv_inputTruncated c = JBool True"

definition output_truncated :: "ToolCallView \<Rightarrow> bool" where
  "output_truncated c \<longleftrightarrow> tv_outputTruncated c = JBool True"

definition clock_anomaly :: "ToolCallView \<Rightarrow> bool" where
  "clock_anomaly c \<longleftrightarrow> tk_instantsReversed (readToolCallClock c) \<or> tk_durationNegative (readToolCallClock c)"

text \<open>The original sizes of the truncated payloads of a call; \<^const>\<open>None\<close> is a size nobody reported.\<close>

definition truncated_sizes :: "ToolCallView \<Rightarrow> int option list" where
  "truncated_sizes c = (if input_truncated c then [int_column (tv_inputBytes c)] else []) @
     (if output_truncated c then [int_column (tv_outputBytes c)] else [])"

lemma tally_rows:
  "fold tally_tool_call rows t = \<lparr>
     ty_toolInputsTruncated = ty_toolInputsTruncated t + length (filter input_truncated rows),
     ty_toolOutputsTruncated = ty_toolOutputsTruncated t + length (filter output_truncated rows),
     ty_truncatedOriginalBytes = ty_truncatedOriginalBytes t + (\<Sum>n\<leftarrow>concat (map truncated_sizes rows). coalesce n 0),
     ty_truncatedBytesUnknown = (ty_truncatedBytesUnknown t \<or> None \<in> set (concat (map truncated_sizes rows))),
     ty_toolCallsWithClockAnomaly = ty_toolCallsWithClockAnomaly t + length (filter clock_anomaly rows)\<rparr>"
proof (induction rows arbitrary: t)
  case (Cons c rows)
  show ?case unfolding fold_simps(2) comp_apply Cons.IH
    by (cases "int_column (tv_inputBytes c)"; cases "int_column (tv_outputBytes c)")
       (simp_all add: tally_tool_call_def add_truncated_bytes_def truncated_sizes_def [of c] input_truncated_def [of c]
          output_truncated_def [of c] clock_anomaly_def [of c] Let_def)
qed simp

lemma fold_count: "fold (\<lambda>x n. if P x then n + 1 else n) xs n = n + length (filter P xs)"
  by (induction xs arbitrary: n) auto

text \<open>The health report claims only what the response carried: a count is missing exactly if its collection is,
  and otherwise it is the number of such rows; the total of the truncated bytes is missing also when the size of one
  truncated payload is unknown, and otherwise it is the sum of all of them.\<close>

theorem health_report_exact:
  "(case rr_toolCalls run of
      None \<Rightarrow> ih_toolInputsTruncated (assessIngestionHealth run) = None \<and> ih_toolOutputsTruncated (assessIngestionHealth run) = None \<and>
        ih_truncatedOriginalBytes (assessIngestionHealth run) = None \<and> ih_toolCallsWithClockAnomaly (assessIngestionHealth run) = None
    | Some calls \<Rightarrow> ih_toolInputsTruncated (assessIngestionHealth run) = Some (length (filter input_truncated calls)) \<and>
        ih_toolOutputsTruncated (assessIngestionHealth run) = Some (length (filter output_truncated calls)) \<and>
        ih_truncatedOriginalBytes (assessIngestionHealth run) =
          (if None \<in> set (concat (map truncated_sizes calls)) then None
           else Some (\<Sum>n\<leftarrow>concat (map truncated_sizes calls). coalesce n 0)) \<and>
        ih_toolCallsWithClockAnomaly (assessIngestionHealth run) = Some (length (filter clock_anomaly calls))) \<and>
   ih_modelCallsMissingInputTokens (assessIngestionHealth run) =
     map_option (\<lambda>calls. length (filter (\<lambda>c. mv_inputTokens c = JNull) calls)) (rr_modelCalls run) \<and>
   ih_modelCallsMissingOutputTokens (assessIngestionHealth run) =
     map_option (\<lambda>calls. length (filter (\<lambda>c. mv_outputTokens c = JNull) calls)) (rr_modelCalls run)"
  by (auto simp: assessIngestionHealth_def readRunTelemetry_def collect_def tallyToolCallTruncation_def tally_rows fold_count Let_def
      split: option.split)

lemma group_digits_round_trip:
  assumes "44 \<notin> set s"
  shows "filter (\<lambda>c. c \<noteq> 44) (group_digits b s) = s"
proof -
  have comma: "js '','' = [44]" by (simp add: js_unfold)
  show ?thesis using assms by (induction b s rule: group_digits.induct) (auto simp: comma)
qed

lemma digit_char_range:
  assumes "n < 10"
  shows "decimal_digit (digit_char (int n))"
proof -
  have "n \<in> {0, 1, 2, 3, 4, 5, 6, 7, 8, 9}" using assms by auto
  thus ?thesis by (auto simp: decimal_digit_def digit_char_def)
qed

lemma nat_text_digits: "c \<in> set (nat_text n) \<Longrightarrow> decimal_digit c"
proof (induction n rule: nat_text.induct)
  case (1 n)
  thus ?case by (subst (asm) nat_text.simps) (auto simp: digit_char_range split: if_splits)
qed

text \<open>Grouping digits only adds commas: without them the text of a count is the plain number.\<close>

theorem grouping_only_adds_commas: "filter (\<lambda>c. c \<noteq> 44) (group v) = int_text v"
proof -
  have "\<not> decimal_digit 44" by (simp add: decimal_digit_def)
  hence "44 \<notin> set (nat_text n)" for n using nat_text_digits by blast
  hence "44 \<notin> set (int_text v)" by (auto simp: int_text_def js_unfold)
  thus ?thesis by (simp add: group_def group_digits_round_trip)
qed

text \<open>The dashboard's report and the API's roll-up never disagree on the calls that reported no tokens, where the token
  columns hold numbers or nothing.\<close>

theorem health_agrees_with_summary:
  assumes "\<forall>i m. ps_modelCalls st i = Some m \<longrightarrow> (mr_inputTokens m = JNull \<or> int_column (mr_inputTokens m) \<noteq> None) \<and>
      (mr_outputTokens m = JNull \<or> int_column (mr_outputTokens m) \<noteq> None)"
    "findById safeParse db thr st now runId = Some v" "summaryFor safeParse db st runId = Some s"
  shows "ih_modelCallsMissingInputTokens (assessIngestionHealth (response_of v)) = Some (su_modelCallsMissingInputTokens s) \<and>
    ih_modelCallsMissingOutputTokens (assessIngestionHealth (response_of v)) = Some (su_modelCallsMissingOutputTokens s)"
proof -
  let ?rows = "filter (\<lambda>(i, row). mr_runId row = runId) (table_rows (db_modelCalls db) (ps_modelCalls st))"
  have typed: "mr_inputTokens m = JNull \<longleftrightarrow> int_column (mr_inputTokens m) = None"
      "mr_outputTokens m = JNull \<longleftrightarrow> int_column (mr_outputTokens m) = None" if "(i, m) \<in> set ?rows" for i m
  proof -
    have "int_column JNull = None" by (simp add: int_column_def)
    moreover have "ps_modelCalls st i = Some m" using that by simp
    ultimately show "mr_inputTokens m = JNull \<longleftrightarrow> int_column (mr_inputTokens m) = None"
      "mr_outputTokens m = JNull \<longleftrightarrow> int_column (mr_outputTokens m) = None" using assms(1) by metis+
  qed
  have v: "rt_modelCalls v = map (\<lambda>(i, row). toModelCallView (toModelCallRecord safeParse i row (db_modelCallCreatedAt db i)))
      (findManyOfRun db (db_modelCalls db) (ps_modelCalls st) mr_runId (\<lambda>i _. db_modelCallCreatedAt db i) runId)"
    using assms(2) by (auto simp: findById_def listModelCalls_def RunSummaryView.defs RunDetailView.defs split: option.splits)
  have health: "length (filter (\<lambda>c. f c = JNull) (rt_modelCalls v)) = length (filter (\<lambda>(i, m). g m = JNull) ?rows)"
    if "\<And>i m t. f (toModelCallView (toModelCallRecord safeParse i m t)) = g m" for f g
  proof -
    have "length (filter (\<lambda>c. f c = JNull) (rt_modelCalls v)) = length (filter (\<lambda>(i, m). g m = JNull)
        (findManyOfRun db (db_modelCalls db) (ps_modelCalls st) mr_runId (\<lambda>i _. db_modelCallCreatedAt db i) runId))"
      by (simp add: v filter_map comp_def case_prod_unfold that)
    also have "\<dots> = length (filter (\<lambda>(i, m). g m = JNull) ?rows)" unfolding findManyOfRun_def by (rule length_filter_sort_key)
    finally show ?thesis .
  qed
  have summary: "su_modelCallsMissingInputTokens s = length (filter (\<lambda>(i, m). int_column (mr_inputTokens m) = None) ?rows)"
    "su_modelCallsMissingOutputTokens s = length (filter (\<lambda>(i, m). int_column (mr_outputTokens m) = None) ?rows)"
    using assms(3) by (auto simp: summaryFor_def aggregateRunSummary_def add_model_calls failed_calls listModelCallMetrics_def
        filter_map comp_def case_prod_unfold simp del: filter_filter split: option.splits)
  have same: "filter (\<lambda>(i, m). mr_inputTokens m = JNull) ?rows = filter (\<lambda>(i, m). int_column (mr_inputTokens m) = None) ?rows"
    "filter (\<lambda>(i, m). mr_outputTokens m = JNull) ?rows = filter (\<lambda>(i, m). int_column (mr_outputTokens m) = None) ?rows"
    using typed by (auto intro!: filter_cong simp del: filter_filter set_filter)
  have "ih_modelCallsMissingInputTokens (assessIngestionHealth (response_of v)) = Some (length (filter (\<lambda>c. mv_inputTokens c = JNull) (rt_modelCalls v)))"
    "ih_modelCallsMissingOutputTokens (assessIngestionHealth (response_of v)) = Some (length (filter (\<lambda>c. mv_outputTokens c = JNull) (rt_modelCalls v)))"
    by (simp_all add: assessIngestionHealth_def readRunTelemetry_def collect_def response_of_def fold_count Let_def)
  thus ?thesis unfolding summary same [symmetric]
    using health [of mv_inputTokens mr_inputTokens] health [of mv_outputTokens mr_outputTokens]
    by (simp add: toModelCallView_def toModelCallRecord_def del: filter_filter)
qed

theorem health_agrees_with_summary_witness:
  "\<exists>v s. findById zod_ref one_error_database 10 (recordError ev_error one_run_platform) 7 (js ''r'') = Some v \<and>
     summaryFor zod_ref one_error_database (recordError ev_error one_run_platform) (js ''r'') = Some s \<and>
     ih_modelCallsMissingInputTokens (assessIngestionHealth (response_of v)) = Some (su_modelCallsMissingInputTokens s)"
proof -
  let ?st = "recordError ev_error one_run_platform"
  obtain v where v: "findById zod_ref one_error_database 10 ?st 7 (js ''r'') = Some v" using one_run_found by blast
  then obtain s where s: "summaryFor zod_ref one_error_database ?st (js ''r'') = Some s"
    by (auto simp: findById_def summaryFor_def split: option.splits)
  have "ps_modelCalls ?st = Map.empty" by (simp add: recordError_def one_run_platform_def empty_platform_def)
  thus ?thesis using health_agrees_with_summary [OF _ v s] v s by auto
qed

end
