(* ===== verification/Sdk_Ids.thy ===== *)
theory Sdk_Ids
  imports Wire_Contract
begin

text \<open>
  \<^verbatim>\<open>platform/telemetry-sdk/src\<close>: \<^verbatim>\<open>prng.ts\<close>, \<^verbatim>\<open>ids.ts\<close> and \<^verbatim>\<open>clock.ts\<close>.  The generator works on 32-bit integers
  that wrap around.  The system's clock and its source of random bytes are arguments.
\<close>

unbundle bit_operations_syntax

section \<open>mulberry32\<close>

definition mulberry32 :: "int \<Rightarrow> 32 word" where
  "mulberry32 seed = word_of_int seed"

text \<open>One call of the closure: the new state and the 32 bits whose quotient by \<^verbatim>\<open>4294967296\<close> is returned.\<close>

definition mulberry32_call :: "32 word \<Rightarrow> 32 word \<times> 32 word" where
  "mulberry32_call state0 =
     (let state = state0 + 0x6d2b79f5;
          t1 = (state XOR drop_bit 15 state) * (1 OR state);
          t2 = (t1 + (t1 XOR drop_bit 7 t1) * (61 OR t1)) XOR t1
      in (state, t2 XOR drop_bit 14 t2))"

definition random_of :: "32 word \<Rightarrow> rat" where
  "random_of bits = rat_of_int (uint bits) / 4294967296"

section \<open>Ids\<close>

definition nibble_char :: "int \<Rightarrow> jchar" where
  "nibble_char d = (if d < 10 then word_of_int (48 + d) else word_of_int (87 + d))"

text \<open>\<^verbatim>\<open>byte.toString(16).padStart(2, '0')\<close>.\<close>

definition byte_hex :: "8 word \<Rightarrow> jstr" where
  "byte_hex b = [nibble_char (uint b div 16), nibble_char (uint b mod 16)]"

definition toUuidString :: "8 word list \<Rightarrow> jstr" where
  "toUuidString bytes =
     (let hex = concat (map byte_hex bytes);
          slice = (\<lambda>a b. take (b - a) (drop a hex))
      in slice 0 8 @ js ''-'' @ slice 8 12 @ js ''-'' @ slice 12 16 @ js ''-'' @ slice 16 20 @ js ''-'' @ drop 20 hex)"

definition uuidv7 :: "int \<Rightarrow> 8 word list \<Rightarrow> jstr" where
  "uuidv7 ms random =
     toUuidString
       (map (\<lambda>k. word_of_int (drop_bit k ms AND 0xff)) [40, 32, 24, 16, 8, 0] @
        [0x70 OR (random ! 0 AND 0x0f), random ! 1, 0x80 OR (random ! 2 AND 0x3f)] @ drop 3 random)"

text \<open>The loop that fills the bytes of a seeded id.\<close>

fun fill_bytes :: "nat \<Rightarrow> 32 word \<Rightarrow> 8 word list \<times> 32 word" where
  "fill_bytes 0 state = ([], state)"
| "fill_bytes (Suc n) state =
     (case mulberry32_call state of (state1, bits) \<Rightarrow>
      (case fill_bytes n state1 of (bytes, state2) \<Rightarrow> (word_of_int \<lfloor>random_of bits * 256\<rfloor> # bytes, state2)))"

definition seeded_next :: "32 word \<Rightarrow> jstr \<times> 32 word" where
  "seeded_next state =
     (case fill_bytes 16 state of (bytes, state1) \<Rightarrow>
        (toUuidString (bytes[6 := 0xf0 OR (bytes ! 6 AND 0x0f), 8 := 0x80 OR (bytes ! 8 AND 0x3f)]), state1))"

section \<open>Clock\<close>

definition REFERENCE_EPOCH_MS :: int where "REFERENCE_EPOCH_MS = 1767225600000"
definition ONE_YEAR_MS :: int where "ONE_YEAR_MS = 365 * 24 * 60 * 60 * 1000"

definition seededStartMs :: "int \<Rightarrow> int" where
  "seededStartMs seed = REFERENCE_EPOCH_MS + \<lfloor>random_of (snd (mulberry32_call (mulberry32 seed))) * rat_of_int ONE_YEAR_MS\<rfloor>"

record SeededClock =
  ck_startMs :: int
  ck_stepMs :: int
  ck_ticks :: int

definition newSeededClock :: "int \<Rightarrow> int option \<Rightarrow> SeededClock" where
  "newSeededClock seed stepMs = \<lparr>ck_startMs = seededStartMs seed, ck_stepMs = coalesce stepMs 1000, ck_ticks = 0\<rparr>"

definition seeded_now :: "SeededClock \<Rightarrow> int \<times> SeededClock" where
  "seeded_now c = (ck_startMs c + ck_ticks c * ck_stepMs c, c\<lparr>ck_ticks := ck_ticks c + 1\<rparr>)"

section \<open>The generator\<close>

lemma random_of_range: "0 \<le> random_of bits" "random_of bits < 1"
proof -
  obtain k where "uint bits = k" "0 \<le> k" "k < 4294967296" using uint_lt2p [of bits] uint_ge_0 [of bits] by auto
  thus "0 \<le> random_of bits" "random_of bits < 1" unfolding random_of_def by simp_all
qed

lemma fst_mulberry32_call: "fst (mulberry32_call s) = s + 0x6d2b79f5"
  by (simp add: mulberry32_call_def Let_def)

lemma mulberry_state: "((\<lambda>s. fst (mulberry32_call s)) ^^ n) s = s + of_nat n * 0x6d2b79f5"
  by (induction n) (simp_all add: fst_mulberry32_call algebra_simps)

lemma length_fill_bytes [simp]: "length (fst (fill_bytes n s)) = n"
  by (induction n arbitrary: s) (simp_all split: prod.split, metis fst_conv)

section \<open>Hexadecimal text\<close>

lemma uint_hex_char:
  assumes "0 \<le> d" "d < 16"
  shows "uint (nibble_char d) = (if d < 10 then 48 + d else 87 + d)"
proof -
  have "uint (word_of_int k :: jchar) = k" if "0 \<le> k" "k < 65536" for k using that by (simp add: uint_word_of_int)
  note k = this
  show ?thesis
  proof (cases "d < 10")
    case True
    have "uint (word_of_int (48 + d) :: jchar) = 48 + d" by (rule k) (use assms in linarith)+
    thus ?thesis unfolding nibble_char_def if_P [OF True] .
  next
    case False
    have "uint (word_of_int (87 + d) :: jchar) = 87 + d" by (rule k) (use assms in linarith)+
    thus ?thesis unfolding nibble_char_def if_not_P [OF False] .
  qed
qed

lemma hex_char_less:
  assumes "0 \<le> d" "d < e" "e < 16"
  shows "nibble_char d < nibble_char e"
  using assms uint_hex_char [of d] uint_hex_char [of e] by (simp add: word_less_def)

lemma hex_char_inj:
  assumes "0 \<le> d" "d < 16" "0 \<le> e" "e < 16" "nibble_char d = nibble_char e"
  shows "d = e"
  using hex_char_less [of d e] hex_char_less [of e d] assms by (cases d e rule: linorder_cases) auto

lemma append_less:
  fixes xs ys :: "'a::linorder list"
  assumes "length xs = length ys"
  shows "xs @ u < ys @ v \<longleftrightarrow> xs < ys \<or> xs = ys \<and> u < v"
  using assms by (induction xs ys rule: list_induct2) auto

lemma byte_hex_less: "byte_hex a < byte_hex b \<longleftrightarrow> a < b"
proof -
  have r: "0 \<le> uint x div 16" "uint x div 16 < 16" "0 \<le> uint x mod 16" "uint x mod 16 < 16" for x :: "8 word"
    using uint_lt2p [of x] by (simp_all add: pos_imp_zdiv_nonneg_iff)
  have nibbles: "a div 16 < b div 16 \<or> a div 16 = b div 16 \<and> a mod 16 < b mod 16" if "a < b" for a b :: int
    using that zdiv_mono1 [of a b 16] mult_div_mod_eq [of 16 a] mult_div_mod_eq [of 16 b] by linarith
  have less: "byte_hex x < byte_hex y" if "x < y" for x y
  proof -
    have "uint x < uint y" using that by (simp add: word_less_def)
    hence "uint x div 16 < uint y div 16 \<or> uint x div 16 = uint y div 16 \<and> uint x mod 16 < uint y mod 16"
      using nibbles by blast
    thus ?thesis using hex_char_less r by (auto simp: byte_hex_def)
  qed
  show ?thesis using less [of a b] less [of b a] by (cases a b rule: linorder_cases) (auto dest: less_asym)
qed

lemma byte_hex_eq [simp]: "byte_hex a = byte_hex b \<longleftrightarrow> a = b"
  using byte_hex_less [of a b] byte_hex_less [of b a] by (cases a b rule: linorder_cases) auto

lemma length_byte_hex [simp]: "length (byte_hex b) = 2"
  by (simp add: byte_hex_def)

definition hex_text :: "8 word list \<Rightarrow> jstr" where
  "hex_text bytes = concat (map byte_hex bytes)"

lemma hex_text_simps [simp]: "hex_text [] = []" "hex_text (b # bs) = byte_hex b @ hex_text bs"
  by (simp_all add: hex_text_def)

lemma length_hex_text [simp]: "length (hex_text bytes) = 2 * length bytes"
  by (induction bytes) simp_all

lemma hex_text_take_drop: "take (2 * k) (hex_text bs) = hex_text (take k bs)" "drop (2 * k) (hex_text bs) = hex_text (drop k bs)"
proof (induction bs arbitrary: k)
  case (Cons b bs)
  { case 1 show ?case using Cons(1) by (cases k) simp_all }
  { case 2 show ?case using Cons(2) by (cases k) simp_all }
qed simp_all

lemma hex_text_less:
  assumes "length xs = length ys"
  shows "hex_text xs < hex_text ys \<longleftrightarrow> xs < ys" "hex_text xs = hex_text ys \<longleftrightarrow> xs = ys"
  using assms
proof (induction xs ys rule: list_induct2)
  case (Cons x xs y ys)
  { case 1 show ?case using Cons by (simp add: append_less byte_hex_less) }
  { case 2 show ?case using Cons by simp }
qed simp_all

text \<open>The text of an id, group by group.\<close>

lemma toUuidString_groups:
  "toUuidString bytes = hex_text (take 4 bytes) @ js ''-'' @ hex_text (take 2 (drop 4 bytes)) @ js ''-'' @
     hex_text (take 2 (drop 6 bytes)) @ js ''-'' @ hex_text (take 2 (drop 8 bytes)) @ js ''-'' @ hex_text (drop 10 bytes)"
  using hex_text_take_drop(1) [of 4 bytes] hex_text_take_drop(1) [of 2 "drop 4 bytes"] hex_text_take_drop(1) [of 2 "drop 6 bytes"]
    hex_text_take_drop(1) [of 2 "drop 8 bytes"] hex_text_take_drop(2) [of 4 bytes] hex_text_take_drop(2) [of 6 bytes]
    hex_text_take_drop(2) [of 8 bytes] hex_text_take_drop(2) [of 10 bytes]
  by (simp add: toUuidString_def Let_def flip: hex_text_def)

lemma split_less:
  fixes xs ys :: "'a::linorder list"
  assumes "length xs = length ys"
  shows "xs < ys \<longleftrightarrow> take n xs < take n ys \<or> take n xs = take n ys \<and> drop n xs < drop n ys"
  using append_less [of "take n xs" "take n ys" "drop n xs" "drop n ys"] assms by simp

lemma toUuidString_less:
  assumes "length a = 16" "length b = 16"
  shows "toUuidString a < toUuidString b \<longleftrightarrow> a < b"
proof -
  have dash: "js ''-'' @ u < js ''-'' @ v \<longleftrightarrow> u < v" for u v by (simp add: append_less)
  have "a < b \<longleftrightarrow> take 4 a < take 4 b \<or> take 4 a = take 4 b \<and> drop 4 a < drop 4 b"
    using assms by (intro split_less) simp
  moreover have "drop 4 a < drop 4 b \<longleftrightarrow> take 2 (drop 4 a) < take 2 (drop 4 b) \<or> take 2 (drop 4 a) = take 2 (drop 4 b) \<and> drop 6 a < drop 6 b"
    using assms split_less [of "drop 4 a" "drop 4 b" 2] by simp
  moreover have "drop 6 a < drop 6 b \<longleftrightarrow> take 2 (drop 6 a) < take 2 (drop 6 b) \<or> take 2 (drop 6 a) = take 2 (drop 6 b) \<and> drop 8 a < drop 8 b"
    using assms split_less [of "drop 6 a" "drop 6 b" 2] by simp
  moreover have "drop 8 a < drop 8 b \<longleftrightarrow> take 2 (drop 8 a) < take 2 (drop 8 b) \<or> take 2 (drop 8 a) = take 2 (drop 8 b) \<and> drop 10 a < drop 10 b"
    using assms split_less [of "drop 8 a" "drop 8 b" 2] by simp
  ultimately show ?thesis
    unfolding toUuidString_groups using assms by (simp add: append_less hex_text_less dash del: append_assoc)
qed

section \<open>Runtime ids\<close>

fun be_bytes :: "nat \<Rightarrow> int \<Rightarrow> 8 word list" where
  "be_bytes 0 k = []"
| "be_bytes (Suc n) k = word_of_int (k div 256 ^ n mod 256) # be_bytes n k"

lemma byte_of_int_less:
  assumes "0 \<le> x" "x < 256" "0 \<le> y" "y < 256"
  shows "(word_of_int x :: 8 word) < word_of_int y \<longleftrightarrow> x < y" "(word_of_int x :: 8 word) = word_of_int y \<longleftrightarrow> x = y"
proof -
  have u: "uint (word_of_int z :: 8 word) = z" if "0 \<le> z" "z < 256" for z using that by (simp add: uint_word_of_int)
  show "(word_of_int x :: 8 word) < word_of_int y \<longleftrightarrow> x < y" using u assms by (simp add: word_less_def)
  show "(word_of_int x :: 8 word) = word_of_int y \<longleftrightarrow> x = y" using u assms by metis
qed

lemma be_bytes_mod: "be_bytes n (k mod 256 ^ n) = be_bytes n k"
proof -
  have "be_bytes m (k mod 256 ^ n) = be_bytes m k" if "m \<le> n" for m
    using that
  proof (induction m)
    case (Suc m)
    have "k mod 256 ^ n div 256 ^ m mod 256 = k div 256 ^ m mod 256"
    proof -
      obtain d where d: "n = m + Suc d" using Suc.prems less_iff_Suc_add by (metis Suc_le_eq add_Suc_right)
      have "(256 :: int) ^ n = 256 ^ m * 256 ^ Suc d" by (simp add: d power_add)
      hence "k mod 256 ^ n div 256 ^ m = k div 256 ^ m mod 256 ^ Suc d"
        by (simp only: zmod_zmult2_eq [of "256 ^ Suc d"] zero_le_power zero_le_numeral) simp
      thus ?thesis by (simp add: mod_mod_cancel)
    qed
    thus ?case using Suc by simp
  qed simp
  thus ?thesis by simp
qed

lemma be_bytes_less:
  assumes "0 \<le> a" "a < b" "b < 256 ^ n"
  shows "be_bytes n a < be_bytes n b"
  using assms
proof (induction n arbitrary: a b)
  case (Suc n)
  have P: "(0 :: int) < 256 ^ n" by simp
  have "x div 256 ^ n < 256" if "x < 256 ^ Suc n" for x :: int
  proof -
    have "256 ^ n * (x div 256 ^ n) \<le> x" using mult_div_mod_eq [of "256 ^ n" x] pos_mod_sign [OF P, of x] by linarith
    also have "x < 256 ^ n * 256" using that by simp
    finally have "256 ^ n * (x div 256 ^ n) < 256 ^ n * 256" .
    thus ?thesis using P mult_less_cancel_left_pos by blast
  qed
  hence hi: "a div 256 ^ n < 256" "b div 256 ^ n < 256" "0 \<le> a div 256 ^ n" "0 \<le> b div 256 ^ n"
    using Suc.prems P by (simp_all add: pos_imp_zdiv_nonneg_iff)
  hence m: "a div 256 ^ n mod 256 = a div 256 ^ n" "b div 256 ^ n mod 256 = b div 256 ^ n" by simp_all
  show ?case
  proof (cases "a div 256 ^ n = b div 256 ^ n")
    case True
    have "a mod 256 ^ n < b mod 256 ^ n"
      using Suc.prems(2) mult_div_mod_eq [of "256 ^ n" a, unfolded True] mult_div_mod_eq [of "256 ^ n" b] by linarith
    hence "be_bytes n (a mod 256 ^ n) < be_bytes n (b mod 256 ^ n)" using P by (intro Suc.IH) simp_all
    thus ?thesis using True by (simp add: be_bytes_mod)
  next
    case False
    hence "a div 256 ^ n < b div 256 ^ n" using zdiv_mono1 [of a b "256 ^ n"] Suc.prems(2) P by linarith
    thus ?thesis using byte_of_int_less hi by (simp add: m)
  qed
qed simp

lemma runtime_bytes:
  "map (\<lambda>k. word_of_int (drop_bit k ms AND 0xff)) [40, 32, 24, 16, 8, 0] = be_bytes 6 ms"
proof -
  have "x AND 255 = take_bit 8 x" for x :: int by (simp add: take_bit_eq_mask mask_eq_exp_minus_1)
  hence "x AND 255 = x mod 256" for x :: int by (simp add: take_bit_eq_mod)
  thus ?thesis by (simp add: drop_bit_eq_div eval_nat_numeral)
qed

text \<open>The first digit of a byte whose high bits are fixed.\<close>

lemma high_digit:
  fixes b :: "8 word"
  shows "uint (0xf0 OR (b AND 0x0f)) div 16 = 15" "uint (0x70 OR (b AND 0x0f)) div 16 = 7"
    "uint (0x80 OR (b AND 0x3f)) div 16 = 8 OR (uint b div 16 AND 3)"
proof -
  have d: "x div 16 = drop_bit 4 x" for x :: int by (simp add: drop_bit_eq_div)
  show "uint (0xf0 OR (b AND 0x0f)) div 16 = 15" "uint (0x70 OR (b AND 0x0f)) div 16 = 7"
    "uint (0x80 OR (b AND 0x3f)) div 16 = 8 OR (uint b div 16 AND 3)"
    by (simp_all add: d unsigned_or_eq unsigned_and_eq drop_bit_or drop_bit_and)
qed

lemma version_digit:
  assumes "length bytes = 16"
  shows "toUuidString bytes ! 14 = nibble_char (uint (bytes ! 6) div 16)" "length (toUuidString bytes) = 36"
proof -
  have d6: "drop 6 bytes = bytes ! 6 # drop 7 bytes" using assms Cons_nth_drop_Suc [of 6 bytes] by simp
  have "take 2 (drop 6 bytes) = bytes ! 6 # take 1 (drop 7 bytes)" unfolding d6 by simp
  thus "toUuidString bytes ! 14 = nibble_char (uint (bytes ! 6) div 16)"
    using assms unfolding toUuidString_groups by (simp add: nth_append byte_hex_def)
  show "length (toUuidString bytes) = 36" using assms unfolding toUuidString_groups by simp
qed

lemma uuidv7_bytes:
  assumes "length random = 10"
  shows "uuidv7 ms random = toUuidString (be_bytes 6 ms @ [0x70 OR (random ! 0 AND 0x0f), random ! 1, 0x80 OR (random ! 2 AND 0x3f)] @ drop 3 random)"
  unfolding uuidv7_def runtime_bytes ..

lemma length_be_bytes [simp]: "length (be_bytes n k) = n"
  by (induction n) simp_all

text \<open>Runtime ids are ordered by time: of two ids of different milliseconds the later is the greater string, whatever
  the random bytes; every runtime and every seeded id is a valid id of the wire contract; and no seeded id is ever equal to
  a runtime id.\<close>

theorem ids_ordered_and_apart:
  assumes "zod_laws safeParse" "length r = 10" "length r' = 10" "0 \<le> ms" "ms < ms'" "ms' < 2 ^ 48"
  shows "uuidv7 ms r < uuidv7 ms' r' \<and> fst (seeded_next state) \<noteq> uuidv7 ms r \<and>
    safeParse IdSchema (Some (JStr (uuidv7 ms r))) = Inr (JStr (uuidv7 ms r)) \<and>
    safeParse IdSchema (Some (JStr (fst (seeded_next state)))) = Inr (JStr (fst (seeded_next state)))"
proof -
  obtain bytes s1 where f: "fill_bytes 16 state = (bytes, s1)" by force
  let ?seeded = "bytes[6 := 0xf0 OR (bytes ! 6 AND 0x0f), 8 := 0x80 OR (bytes ! 8 AND 0x3f)]"
  have len: "length bytes = 16" using length_fill_bytes [of 16 state] f by simp
  have sd: "fst (seeded_next state) = toUuidString ?seeded" by (simp add: seeded_next_def f)
  have "be_bytes 6 ms < be_bytes 6 ms'" using assms(4-6) by (intro be_bytes_less) simp_all
  hence "uuidv7 ms r < uuidv7 ms' r'" using assms(2,3) by (simp add: uuidv7_bytes toUuidString_less append_less)
  moreover have "fst (seeded_next state) ! 14 = nibble_char 15"
    unfolding sd using len by (subst version_digit(1)) (simp_all add: high_digit(1))
  moreover have "uuidv7 ms r ! 14 = nibble_char 7" "length (uuidv7 ms r) = 36"
    using assms(2) version_digit [of "be_bytes 6 ms @ [0x70 OR (r ! 0 AND 0x0f), r ! 1, 0x80 OR (r ! 2 AND 0x3f)] @ drop 3 r"]
    by (simp_all add: uuidv7_bytes nth_append high_digit(2))
  moreover have "nibble_char 15 \<noteq> nibble_char 7" by (simp add: nibble_char_def)
  moreover have "length (fst (seeded_next state)) = 36" unfolding sd using version_digit(2) len by simp
  ultimately show ?thesis using assms(1) by (auto simp: IdSchema_def MAX_ID_LENGTH_def zod_string)
qed

theorem ids_ordered_and_apart_witness:
  "uuidv7 1767225600000 (replicate 10 255) < uuidv7 1767225600001 (replicate 10 0)"
  using ids_ordered_and_apart [of zod_ref "replicate 10 255" "replicate 10 0" 1767225600000 1767225600001] zod_laws_ref by simp

section \<open>Seeded time\<close>

text \<open>The seeded clock starts in the reference year, every reading is later than the ones before it when the step is
  positive, and its state alone decides what it returns: after \<open>n\<close> readings from one seed it shows the start plus
  \<open>n\<close> steps.\<close>

theorem seeded_clock_readings:
  "REFERENCE_EPOCH_MS \<le> seededStartMs seed \<and> seededStartMs seed < REFERENCE_EPOCH_MS + ONE_YEAR_MS \<and>
   fst (seeded_now (((\<lambda>c. snd (seeded_now c)) ^^ n) (newSeededClock seed step))) = seededStartMs seed + int n * coalesce step 1000"
proof -
  have "((\<lambda>c. snd (seeded_now c)) ^^ n) (newSeededClock seed step) = (newSeededClock seed step)\<lparr>ck_ticks := int n\<rparr>"
    by (induction n) (simp_all add: seeded_now_def newSeededClock_def)
  moreover have "0 \<le> \<lfloor>random_of b * rat_of_int ONE_YEAR_MS\<rfloor> \<and> \<lfloor>random_of b * rat_of_int ONE_YEAR_MS\<rfloor> < ONE_YEAR_MS" for b
  proof -
    have "random_of b * rat_of_int ONE_YEAR_MS < 1 * rat_of_int ONE_YEAR_MS"
      using random_of_range(2) by (intro mult_strict_right_mono) (simp_all add: ONE_YEAR_MS_def)
    moreover have "0 \<le> random_of b * rat_of_int ONE_YEAR_MS" using random_of_range(1) by (simp add: ONE_YEAR_MS_def)
    ultimately show ?thesis by (simp add: floor_less_iff)
  qed
  ultimately show ?thesis by (simp add: seededStartMs_def seeded_now_def newSeededClock_def)
qed

end
