(* ===== verification/Http_Edge.thy ===== *)
theory Http_Edge
  imports Ingest_Correct Sdk_Wire
begin

text \<open>
  The HTTP edge: \<^verbatim>\<open>platform/api/src/common\<close> with the ingest controller on one side and
  \<^verbatim>\<open>platform/telemetry-sdk/src/transport.ts\<close> on the other.  A JSON text is represented by its value, whose
  size is \<^const>\<open>json_bytes\<close>.  The body parser of the web framework, the names of status codes and the
  texts of rejection messages are arguments.
\<close>

section \<open>Errors\<close>

text \<open>What the filter looks at in a thrown value: \<^verbatim>\<open>getResponse()\<close> of an HTTP exception is a text or an object, which
  may have a message.\<close>

datatype ExceptionPayload = PayloadText jstr | PayloadMessages "jstr list" | PayloadMessage jstr | PayloadOther

datatype ThrownValue = HttpException nat ExceptionPayload jstr | OtherThrown

record ErrorBody =
  eb_statusCode :: nat
  eb_error :: jstr
  eb_message :: jstr
  eb_path :: jstr
  eb_timestamp :: jstr

fun join_with :: "jstr \<Rightarrow> jstr list \<Rightarrow> jstr" where
  "join_with sep [] = []"
| "join_with sep [x] = x"
| "join_with sep (x # xs) = x @ sep @ join_with sep xs"

definition clientSafeMessage :: "ThrownValue \<Rightarrow> nat \<Rightarrow> jstr" where
  "clientSafeMessage exception status =
     (if 500 \<le> status then js ''Internal server error''
      else case exception of
             HttpException s (PayloadText t) m \<Rightarrow> t
           | HttpException s (PayloadMessages ms) m \<Rightarrow> join_with (js ''; '') ms
           | HttpException s (PayloadMessage t) m \<Rightarrow> t
           | HttpException s PayloadOther m \<Rightarrow> m
           | OtherThrown \<Rightarrow> js ''Request failed'')"

definition exceptionStatus :: "ThrownValue \<Rightarrow> nat" where
  "exceptionStatus exception = (case exception of HttpException s p m \<Rightarrow> s | OtherThrown \<Rightarrow> 500)"

definition catch_exception :: "(nat \<Rightarrow> jstr option) \<Rightarrow> int \<Rightarrow> jstr \<Rightarrow> ThrownValue \<Rightarrow> ErrorBody" where
  "catch_exception statusName now path exception =
     (let status = exceptionStatus exception
      in \<lparr>eb_statusCode = status, eb_error = coalesce (statusName status) (js ''ERROR''),
          eb_message = clientSafeMessage exception status, eb_path = path, eb_timestamp = toISOString now\<rparr>)"

text \<open>An error of the body parser: its own properties \<^verbatim>\<open>status\<close>, \<^verbatim>\<open>statusCode\<close> and \<^verbatim>\<open>type\<close>, and whether it is a
  \<^verbatim>\<open>SyntaxError\<close>.\<close>

record ParserError =
  pe_status :: "nat option"
  pe_statusCode :: "nat option"
  pe_type :: "jstr option"
  pe_syntax :: bool

definition classify_parser_error :: "ParserError \<Rightarrow> jstr option" where
  "classify_parser_error err =
     (let status = (case pe_status err of Some s \<Rightarrow> Some s | None \<Rightarrow> pe_statusCode err)
      in if pe_type err = Some (js ''entity.too.large'') \<or> status = Some 413
         then Some (js ''request body exceeds the maximum size'')
         else if pe_type err = Some (js ''entity.parse.failed'') \<or> pe_syntax err
         then Some (js ''request body is not valid JSON'')
         else None)"

text \<open>\<^const>\<open>None\<close> passes the error on.\<close>

definition bodyParserErrorHandler :: "ParserError \<Rightarrow> int \<Rightarrow> jstr \<Rightarrow> ErrorBody option" where
  "bodyParserErrorHandler err now path =
     (case classify_parser_error err of
        None \<Rightarrow> None
      | Some message \<Rightarrow> Some \<lparr>eb_statusCode = 400, eb_error = js ''Bad Request'', eb_message = message, eb_path = path,
          eb_timestamp = toISOString now\<rparr>)"

definition zod_transform :: "zod_parser \<Rightarrow> zod \<Rightarrow> json \<Rightarrow> ThrownValue + json" where
  "zod_transform safeParse schema v =
     (case safeParse schema (Some v) of
        Inr out \<Rightarrow> Inr out
      | Inl issues \<Rightarrow> Inl (HttpException 400 (PayloadMessage (js ''Request validation failed'')) (js ''Bad Request Exception'')))"

section \<open>The ingest endpoint\<close>

text \<open>A body is the JSON text of a value, or bytes that are no JSON.\<close>

datatype RawBody = JsonBody json | OtherBody nat

type_synonym body_parser = "nat \<Rightarrow> RawBody \<Rightarrow> ParserError + json"

record HttpResponse =
  hr_status :: nat
  hr_body :: "json option"

definition status_name :: "IngestResultStatus \<Rightarrow> jstr" where
  "status_name s = (case s of ACCEPTED \<Rightarrow> js ''ACCEPTED'' | DUPLICATE \<Rightarrow> js ''DUPLICATE'' | REJECTED \<Rightarrow> js ''REJECTED'')"

definition result_json :: "(IngestErrorCode \<Rightarrow> RejectMessage \<Rightarrow> jstr \<times> jstr) \<Rightarrow> IngestResult \<Rightarrow> json" where
  "result_json texts r = JObj ([(js ''eventId'', JStr (ir_eventId r)), (js ''status'', JStr (status_name (ir_status r)))] @
     (case ir_error r of
        None \<Rightarrow> []
      | Some (code, message) \<Rightarrow>
          [(js ''error'', JObj [(js ''code'', JStr (fst (texts code message))), (js ''message'', JStr (snd (texts code message)))])]))"

definition response_json :: "(IngestErrorCode \<Rightarrow> RejectMessage \<Rightarrow> jstr \<times> jstr) \<Rightarrow> IngestResponse \<Rightarrow> json" where
  "response_json texts resp = JObj
     [(js ''batchId'', JStr (rs_batchId resp)), (js ''accepted'', JNum (of_nat (rs_accepted resp))),
      (js ''duplicate'', JNum (of_nat (rs_duplicate resp))), (js ''rejected'', JNum (of_nat (rs_rejected resp))),
      (js ''results'', JArr (map (\<lambda>r. case r of Some x \<Rightarrow> result_json texts x | None \<Rightarrow> JNull) (rs_results resp)))]"

definition error_json :: "ErrorBody \<Rightarrow> json" where
  "error_json b = JObj [(js ''statusCode'', JNum (of_nat (eb_statusCode b))), (js ''error'', JStr (eb_error b)),
     (js ''message'', JStr (eb_message b)), (js ''path'', JStr (eb_path b)), (js ''timestamp'', JStr (eb_timestamp b))]"

definition TELEMETRY_INGEST_PATH :: jstr where "TELEMETRY_INGEST_PATH = js ''/v1/telemetry/events''"

record IngestRequest =
  rq_events :: "json list"
  rq_dropped :: "int option"
  rq_deliveryId :: "jstr option"

definition request_of :: "json \<Rightarrow> IngestRequest" where
  "request_of v = \<lparr>rq_events = (case jget v (js ''events'') of Some (JArr xs) \<Rightarrow> xs | _ \<Rightarrow> []),
     rq_dropped = (case jget v (js ''droppedSinceLastBatch'') of Some (JNum q) \<Rightarrow> Some \<lfloor>q\<rfloor> | _ \<Rightarrow> None),
     rq_deliveryId = (case jget v (js ''deliveryId'') of Some (JStr s) \<Rightarrow> Some s | _ \<Rightarrow> None)\<rparr>"

text \<open>The server's surroundings at one request.\<close>

record ServerEnv =
  se_safeParse :: zod_parser
  se_num :: "rat \<Rightarrow> nat"
  se_parser :: body_parser
  se_passedOn :: "ParserError \<Rightarrow> HttpResponse"
  se_fails :: io_failures
  se_now :: int
  se_batchId :: jstr
  se_texts :: "IngestErrorCode \<Rightarrow> RejectMessage \<Rightarrow> jstr \<times> jstr"
  se_statusName :: "nat \<Rightarrow> jstr option"

definition thrown_response :: "ServerEnv \<Rightarrow> ThrownValue \<Rightarrow> HttpResponse" where
  "thrown_response env thrown =
     (let b = catch_exception (se_statusName env) (se_now env) TELEMETRY_INGEST_PATH thrown
      in \<lparr>hr_status = eb_statusCode b, hr_body = Some (error_json b)\<rparr>)"

definition post_events :: "ServerEnv \<Rightarrow> RawBody \<Rightarrow> PlatformStore \<Rightarrow> HttpResponse \<times> PlatformStore" where
  "post_events env raw st =
     (case se_parser env maxRequestBodyBytes raw of
        Inl err \<Rightarrow>
          ((case bodyParserErrorHandler err (se_now env) TELEMETRY_INGEST_PATH of
              None \<Rightarrow> se_passedOn env err
            | Some b \<Rightarrow> \<lparr>hr_status = 400, hr_body = Some (error_json b)\<rparr>), st)
      | Inr value \<Rightarrow>
          (case zod_transform (se_safeParse env) IngestRequestSchema value of
             Inl thrown \<Rightarrow> (thrown_response env thrown, st)
           | Inr body \<Rightarrow>
               (let rq = request_of body
                in case ingest (se_safeParse env) (se_num env) (se_fails env) (se_now env) (se_batchId env)
                          (rq_events rq) (rq_dropped rq) (rq_deliveryId rq) st of
                     IngestOk resp st' \<Rightarrow> (\<lparr>hr_status = 200, hr_body = Some (response_json (se_texts env) resp)\<rparr>, st')
                   | IngestFailed status st' \<Rightarrow>
                       (thrown_response env (HttpException status PayloadOther (js ''Service unavailable'')), st'))))"

section \<open>The transport\<close>

definition isRetryableStatus :: "nat \<Rightarrow> bool" where
  "isRetryableStatus status \<longleftrightarrow> status = 408 \<or> status = 425 \<or> status = 429 \<or> 500 \<le> status"

definition IngestResultErrorSchema :: zod where
  "IngestResultErrorSchema = ZObject [(js ''code'', ZString 0 None), (js ''message'', ZString 0 None)]"

definition IngestResultSchema :: zod where
  "IngestResultSchema = ZObject [(js ''eventId'', ZString 0 None),
     (js ''status'', ZEnum [js ''ACCEPTED'', js ''DUPLICATE'', js ''REJECTED'']), (js ''error'', ZOptional IngestResultErrorSchema)]"

definition IngestResponseSchema :: zod where
  "IngestResponseSchema = ZObject [(js ''batchId'', ZString 0 None), (js ''accepted'', ZInt None), (js ''duplicate'', ZInt None),
     (js ''rejected'', ZInt None), (js ''results'', ZArray IngestResultSchema 0 None)]"

definition nat_field :: "json \<Rightarrow> string \<Rightarrow> nat" where
  "nat_field v k = (case jget v (js k) of Some (JNum q) \<Rightarrow> nat \<lfloor>q\<rfloor> | _ \<Rightarrow> 0)"

definition readIngestResponse :: "zod_parser \<Rightarrow> HttpResponse \<Rightarrow> (nat \<times> nat \<times> nat) option" where
  "readIngestResponse safeParse response =
     (case hr_body response of
        None \<Rightarrow> None
      | Some v \<Rightarrow>
          (case safeParse IngestResponseSchema (Some v) of
             Inl _ \<Rightarrow> None
           | Inr out \<Rightarrow> Some (nat_field out ''accepted'', nat_field out ''duplicate'', nat_field out ''rejected'')))"

definition request_json :: "json list \<Rightarrow> int option \<Rightarrow> jstr option \<Rightarrow> json" where
  "request_json events dropped deliveryId = JObj ([(js ''events'', JArr events)] @
     (case dropped of None \<Rightarrow> [] | Some n \<Rightarrow> [(js ''droppedSinceLastBatch'', JNum (of_int n))]) @
     (case deliveryId of None \<Rightarrow> [] | Some d \<Rightarrow> [(js ''deliveryId'', JStr d)]))"

text \<open>\<^verbatim>\<open>send\<close>: \<open>serializable\<close> tells whether \<^verbatim>\<open>JSON.stringify\<close> returns, and \<open>fetch\<close> is the network, which may reject.\<close>

definition send :: "zod_parser \<Rightarrow> bool \<Rightarrow> (RawBody \<Rightarrow> 's \<Rightarrow> HttpResponse option \<times> 's) \<Rightarrow>
    json list \<Rightarrow> int option \<Rightarrow> jstr option \<Rightarrow> 's \<Rightarrow> TransportResult \<times> 's" where
  "send safeParse serializable fetch events dropped deliveryId s =
     (if \<not> serializable then (Permanent, s)
      else case fetch (JsonBody (request_json events dropped deliveryId)) s of
             (None, s') \<Rightarrow> (Retryable, s')
           | (Some response, s') \<Rightarrow>
               (if 200 \<le> hr_status response \<and> hr_status response \<le> 299 then Delivered (readIngestResponse safeParse response)
                else if isRetryableStatus (hr_status response) then Retryable else Permanent, s'))"

section \<open>What the libraries promise\<close>

text \<open>An array whose elements parse is accepted, and unchanged if they are; a count parses to itself.\<close>

definition zod_collection_laws :: "zod_parser \<Rightarrow> bool" where
  "zod_collection_laws safeParse \<longleftrightarrow>
     (\<forall>s lo hi xs. lo \<le> length xs \<and> pred_option (\<lambda>h. length xs \<le> h) hi \<and> (\<forall>x \<in> set xs. parses (safeParse s (Some x))) \<longrightarrow>
        parses (safeParse (ZArray s lo hi) (Some (JArr xs)))) \<and>
     (\<forall>s lo hi xs out. safeParse (ZArray s lo hi) (Some (JArr xs)) = Inr out \<longrightarrow>
        (\<forall>x \<in> set xs. safeParse s (Some x) = Inr x) \<longrightarrow> out = JArr xs) \<and>
     (\<forall>hi n. pred_option (\<lambda>h. n \<le> h) hi \<longrightarrow>
        safeParse (ZInt hi) (Some (JNum (of_nat n))) = Inr (JNum (of_nat n))) \<and>
     (\<forall>s v. safeParse (ZOptional s) (Some v) = safeParse s (Some v))"

text \<open>The JSON parser of the web framework: an object within the limit arrives as it was sent, one over the limit is an
  error of its documented type.\<close>

definition body_parser_laws :: "(rat \<Rightarrow> nat) \<Rightarrow> body_parser \<Rightarrow> bool" where
  "body_parser_laws num parser \<longleftrightarrow>
     (\<forall>limit kvs. json_bytes num (JObj kvs) \<le> limit \<longrightarrow> parser limit (JsonBody (JObj kvs)) = Inr (JObj kvs)) \<and>
     (\<forall>limit kvs. limit < json_bytes num (JObj kvs) \<longrightarrow>
        (\<exists>err. parser limit (JsonBody (JObj kvs)) = Inl err \<and> pe_type err = Some (js ''entity.too.large'')))"

definition edge_laws :: "zod_parser \<Rightarrow> ServerEnv \<Rightarrow> bool" where
  "edge_laws safeParse env \<longleftrightarrow> zod_laws safeParse \<and> zod_collection_laws safeParse \<and>
     se_safeParse env = safeParse \<and> body_parser_laws (se_num env) (se_parser env)"

lemma edge_lawsD:
  assumes "edge_laws sp env"
  shows "zod_laws sp" "zod_collection_laws sp" "se_safeParse env = sp" "body_parser_laws (se_num env) (se_parser env)"
  using assms by (auto simp: edge_laws_def)

lemma zod_count:
  "zod_collection_laws sp \<Longrightarrow> pred_option (\<lambda>h. n \<le> h) hi \<Longrightarrow>
     sp (ZInt hi) (Some (JNum (of_nat n))) = Inr (JNum (of_nat n))"
  unfolding zod_collection_laws_def by blast

lemma zod_opt: "zod_collection_laws sp \<Longrightarrow> sp (ZOptional s) (Some v) = sp s (Some v)"
  unfolding zod_collection_laws_def by blast

lemma zod_array_parses:
  "zod_collection_laws sp \<Longrightarrow> lo \<le> length xs \<Longrightarrow> pred_option (\<lambda>h. length xs \<le> h) hi \<Longrightarrow>
     \<forall>x \<in> set xs. parses (sp s (Some x)) \<Longrightarrow> parses (sp (ZArray s lo hi) (Some (JArr xs)))"
  unfolding zod_collection_laws_def by blast

lemma zod_array_same:
  "zod_collection_laws sp \<Longrightarrow> sp (ZArray s lo hi) (Some (JArr xs)) = Inr out \<Longrightarrow>
     \<forall>x \<in> set xs. sp s (Some x) = Inr x \<Longrightarrow> out = JArr xs"
  unfolding zod_collection_laws_def by blast

lemma zod_string_same: "zod_laws sp \<Longrightarrow> lo \<le> length s \<Longrightarrow> pred_option (\<lambda>h. length s \<le> h) hi \<Longrightarrow>
    sp (ZString lo hi) (Some (JStr s)) = Inr (JStr s)"
  by (simp add: zod_string)

text \<open>A present key of an accepted object is parsed.\<close>

lemma zod_object_present:
  assumes "zod_laws sp" "sp (ZObject fs) (Some (JObj kvs)) = Inr out" "(k, s) \<in> set fs" "distinct (map fst fs)"
    "map_of kvs k = Some x" "sp s (Some x) = Inr y"
  shows "jget out k = Some y"
proof -
  obtain kvs' outs where o: "Some (JObj kvs) = Some (JObj kvs')" "out = JObj outs" and
    f: "\<forall>(k, s) \<in> set fs. field_ok sp s (map_of kvs' k) \<and>
              (case map_of kvs' k of None \<Rightarrow> map_of outs k = None
               | Some x \<Rightarrow> \<exists>y. sp s (Some x) = Inr y \<and> map_of outs k = Some y)"
    using assms(1,2,4) unfolding zod_laws_def zod_object_laws_def by blast
  from bspec [OF f assms(3)] assms(5,6) o show ?thesis by auto
qed

section \<open>Errors carry no internal detail\<close>

text \<open>A response to a server error says nothing about what was thrown: two errors with the same status of 500 or
  more give the same body, an unknown thrown value counts as 500, and the message is the generic one.\<close>

theorem server_errors_reveal_nothing:
  assumes "500 \<le> exceptionStatus e" "exceptionStatus e' = exceptionStatus e"
  shows "catch_exception names now path e = catch_exception names now path e' \<and>
    eb_message (catch_exception names now path e) = js ''Internal server error''"
  using assms by (simp add: catch_exception_def clientSafeMessage_def Let_def)

section \<open>One request over the wire\<close>

definition over_http :: "ServerEnv \<Rightarrow> RawBody \<Rightarrow> PlatformStore \<Rightarrow> HttpResponse option \<times> PlatformStore" where
  "over_http env raw st = (let (response, st') = post_events env raw st in (Some response, st'))"

lemma request_parses:
  assumes "zod_laws sp" "zod_collection_laws sp" "1 \<le> length events" "length events \<le> maxEventsPerBatch"
    "n \<le> MAX_DROPPED_SINCE_LAST_BATCH" "1 \<le> length d" "length d \<le> MAX_ID_LENGTH"
  shows "\<exists>out. sp IngestRequestSchema (Some (request_json events (Some (int n)) (Some d))) = Inr out \<and>
    request_of out = \<lparr>rq_events = events, rq_dropped = Some (int n), rq_deliveryId = Some d\<rparr>"
proof -
  let ?kvs = "[(js ''events'', JArr events), (js ''droppedSinceLastBatch'', JNum (of_int (int n))), (js ''deliveryId'', JStr d)]"
  let ?fs = "[(js ''events'', ZArray ZUnknown 1 (Some maxEventsPerBatch)),
      (js ''droppedSinceLastBatch'', ZOptional (ZInt (Some MAX_DROPPED_SINCE_LAST_BATCH))), (js ''deliveryId'', ZOptional IdSchema)]"
  have rq: "request_json events (Some (int n)) (Some d) = JObj ?kvs" by (simp add: request_json_def)
  have u: "\<forall>x \<in> set events. sp ZUnknown (Some x) = Inr x" using zod_unknown [OF assms(1)] by blast
  have i: "sp (ZOptional IdSchema) (Some (JStr d)) = Inr (JStr d)"
    using assms(6,7) zod_string_same [OF assms(1), of 1 d "Some MAX_ID_LENGTH"] by (simp add: zod_opt [OF assms(2)] IdSchema_def)
  have c: "sp (ZOptional (ZInt (Some MAX_DROPPED_SINCE_LAST_BATCH))) (Some (JNum (of_int (int n)))) = Inr (JNum (of_int (int n)))"
    using zod_count [OF assms(2), of n "Some MAX_DROPPED_SINCE_LAST_BATCH"] assms(5) by (simp add: zod_opt [OF assms(2)])
  have "parses (sp (ZArray ZUnknown 1 (Some maxEventsPerBatch)) (Some (JArr events)))"
    using assms(3,4) u by (intro zod_array_parses [OF assms(2)]) auto
  hence a: "sp (ZArray ZUnknown 1 (Some maxEventsPerBatch)) (Some (JArr events)) = Inr (JArr events)"
    using zod_array_same [OF assms(2) _ u] by (cases "sp (ZArray ZUnknown 1 (Some maxEventsPerBatch)) (Some (JArr events))") auto
  have "\<forall>(k, s) \<in> set ?fs. field_ok sp s (map_of ?kvs k)" using a i c by (simp add: field_ok_def)
  then obtain out where out: "sp (ZObject ?fs) (Some (JObj ?kvs)) = Inr out" using zod_object_parses [OF assms(1)] by blast
  note p = zod_object_present [OF assms(1) out]
  have "jget out (js ''events'') = Some (JArr events)" by (rule p [OF _ _ _ a]) simp_all
  moreover have "jget out (js ''droppedSinceLastBatch'') = Some (JNum (of_int (int n)))" by (rule p [OF _ _ _ c]) simp_all
  moreover have "jget out (js ''deliveryId'') = Some (JStr d)" by (rule p [OF _ _ _ i]) simp_all
  ultimately show ?thesis using out unfolding rq IngestRequestSchema_def by (simp add: request_of_def)
qed

lemma result_parses:
  assumes "zod_laws sp" "zod_collection_laws sp"
  shows "parses (sp IngestResultSchema (Some (result_json texts r)))"
proof -
  have e: "parses (sp IngestResultErrorSchema (Some (JObj [(js ''code'', JStr a), (js ''message'', JStr b)])))" for a b
    unfolding IngestResultErrorSchema_def using zod_object_parses [OF assms(1), of
        "[(js ''code'', ZString 0 None), (js ''message'', ZString 0 None)]" "[(js ''code'', JStr a), (js ''message'', JStr b)]"]
    by (auto simp: field_ok_def zod_string_same [OF assms(1)])
  have s: "sp (ZEnum [js ''ACCEPTED'', js ''DUPLICATE'', js ''REJECTED'']) (Some (JStr (status_name t))) = Inr (JStr (status_name t))" for t
    by (simp add: zod_enum [OF assms(1)] status_name_def split: IngestResultStatus.split)
  obtain kvs where kvs: "result_json texts r = JObj kvs" by (simp add: result_json_def)
  have "\<forall>(k, s) \<in> set [(js ''eventId'', ZString 0 None),
     (js ''status'', ZEnum [js ''ACCEPTED'', js ''DUPLICATE'', js ''REJECTED'']), (js ''error'', ZOptional IngestResultErrorSchema)].
     field_ok sp s (map_of kvs k)"
    using kvs by (auto simp: result_json_def field_ok_def zod_string_same [OF assms(1)] s zod_opt [OF assms(2)] e zod_optional_def
        split: option.splits)
  from zod_object_parses [OF assms(1) this] show ?thesis by (auto simp: IngestResultSchema_def kvs)
qed

lemma response_read:
  assumes "zod_laws sp" "zod_collection_laws sp" "None \<notin> set (rs_results resp)"
  shows "readIngestResponse sp \<lparr>hr_status = 200, hr_body = Some (response_json texts resp)\<rparr> =
    Some (rs_accepted resp, rs_duplicate resp, rs_rejected resp)"
proof -
  let ?fs = "[(js ''batchId'', ZString 0 None), (js ''accepted'', ZInt None), (js ''duplicate'', ZInt None),
     (js ''rejected'', ZInt None), (js ''results'', ZArray IngestResultSchema 0 None)]"
  obtain kvs where kvs: "response_json texts resp = JObj kvs" by (simp add: response_json_def)
  note c = zod_count [OF assms(2), of _ None, simplified]
  have "parses (sp (ZArray IngestResultSchema 0 None) (Some (JArr (map (\<lambda>r. case r of Some x \<Rightarrow> result_json texts x | None \<Rightarrow> JNull)
      (rs_results resp)))))"
    using assms(3) result_parses [OF assms(1,2)]
    by (intro zod_array_parses [OF assms(2)]) (auto split: option.splits)
  hence "\<forall>(k, s) \<in> set ?fs. field_ok sp s (map_of kvs k)"
    using kvs by (auto simp: response_json_def field_ok_def zod_string_same [OF assms(1)] c)
  then obtain out where out: "sp (ZObject ?fs) (Some (JObj kvs)) = Inr out" using zod_object_parses [OF assms(1)] by blast
  note p = zod_object_present [OF assms(1) out]
  have "jget out (js ''accepted'') = Some (JNum (of_nat (rs_accepted resp)))"
    by (rule p [OF _ _ _ c]) (use kvs in \<open>auto simp: response_json_def\<close>)
  moreover have "jget out (js ''duplicate'') = Some (JNum (of_nat (rs_duplicate resp)))"
    by (rule p [OF _ _ _ c]) (use kvs in \<open>auto simp: response_json_def\<close>)
  moreover have "jget out (js ''rejected'') = Some (JNum (of_nat (rs_rejected resp)))"
    by (rule p [OF _ _ _ c]) (use kvs in \<open>auto simp: response_json_def\<close>)
  ultimately show ?thesis using out by (simp add: readIngestResponse_def kvs IngestResponseSchema_def nat_field_def)
qed

text \<open>A batch sent by the SDK's transport reaches the service unchanged and its answer comes back: within the
  request limits the transport's result is what \<^const>\<open>ingest\<close> did with exactly these events, drop count and delivery
  id.  If the service answered, the batch is delivered with the three counts the service reported, which add up to
  the events sent; if a database operation failed, the batch is to be sent again, never given up.\<close>

theorem delivery_answers_for_every_event:
  assumes "edge_laws safeParse env" "wf_store (ps_telemetry st)"
    "1 \<le> length events" "length events \<le> maxEventsPerBatch" "n \<le> MAX_DROPPED_SINCE_LAST_BATCH"
    "1 \<le> length d" "length d \<le> MAX_ID_LENGTH"
    "json_bytes (se_num env) (request_json events (Some (int n)) (Some d)) \<le> maxRequestBodyBytes"
  shows "case ingest safeParse (se_num env) (se_fails env) (se_now env) (se_batchId env) events (Some (int n)) (Some d) st of
      IngestOk resp st' \<Rightarrow>
        send safeParse True (over_http env) events (Some (int n)) (Some d) st =
          (Delivered (Some (rs_accepted resp, rs_duplicate resp, rs_rejected resp)), st') \<and>
        rs_accepted resp + rs_duplicate resp + rs_rejected resp = length events
    | IngestFailed status st' \<Rightarrow>
        send safeParse True (over_http env) events (Some (int n)) (Some d) st = (Retryable, st')"
proof -
  note laws = edge_lawsD [OF assms(1)]
  let ?i = "ingest safeParse (se_num env) (se_fails env) (se_now env) (se_batchId env) events (Some (int n)) (Some d) st"
  let ?rq = "request_json events (Some (int n)) (Some d)"
  obtain kvs where kvs: "?rq = JObj kvs" by (simp add: request_json_def)
  have b: "se_parser env maxRequestBodyBytes (JsonBody ?rq) = Inr ?rq"
    using laws(4) assms(8) unfolding body_parser_laws_def kvs by blast
  obtain out where out: "safeParse IngestRequestSchema (Some ?rq) = Inr out"
    "request_of out = \<lparr>rq_events = events, rq_dropped = Some (int n), rq_deliveryId = Some d\<rparr>"
    using request_parses [OF laws(1,2) assms(3-7)] by blast
  have post: "post_events env (JsonBody ?rq) st = (case ?i of
       IngestOk resp st' \<Rightarrow> (\<lparr>hr_status = 200, hr_body = Some (response_json (se_texts env) resp)\<rparr>, st')
     | IngestFailed status st' \<Rightarrow> (thrown_response env (HttpException status PayloadOther (js ''Service unavailable'')), st'))"
    by (simp add: post_events_def b zod_transform_def out laws(3) Let_def)
  show ?thesis
  proof (cases ?i)
    case (IngestOk resp st')
    note v = one_verdict_per_event [OF IngestOk]
    thus ?thesis using response_read [OF laws(1,2), of resp "se_texts env"]
      by (simp add: send_def over_http_def post IngestOk)
  next
    case (IngestFailed status st')
    hence "status \<in> {500, 503}" using ingest_outcome [OF laws(1) assms(2), where num = "se_num env" and fails = "se_fails env" and
        receivedAt = "se_now env" and batchId = "se_batchId env" and raws = events and dropped = "Some (int n)" and
        deliveryId = "Some d"] by simp
    thus ?thesis by (auto simp: send_def over_http_def post IngestFailed thrown_response_def catch_exception_def exceptionStatus_def
        isRetryableStatus_def Let_def)
  qed
qed

section \<open>Batches over the body limit\<close>

lemma oversized_body_refused:
  assumes "edge_laws safeParse env"
    "maxRequestBodyBytes < json_bytes (se_num env) (request_json events dropped d)"
  shows "send safeParse True (over_http env) events dropped d st = (Permanent, st)"
proof -
  obtain kvs where kvs: "request_json events dropped d = JObj kvs" by (simp add: request_json_def)
  obtain err where "se_parser env maxRequestBodyBytes (JsonBody (JObj kvs)) = Inl err" "pe_type err = Some (js ''entity.too.large'')"
    using edge_lawsD(4) [OF assms(1)] assms(2) unfolding kvs body_parser_laws_def by blast
  thus ?thesis by (simp add: send_def over_http_def kvs post_events_def bodyParserErrorHandler_def classify_parser_error_def
      isRetryableStatus_def Let_def)
qed

lemma request_bytes: "sum_list (map (json_bytes num) events) \<le> json_bytes num (request_json events dropped d)"
  by (simp add: request_json_def)

text \<open>An event with a large note in its metadata, well under every per-event and per-field limit.\<close>

definition noted_input :: EnvelopeInput where
  "noted_input = started_input\<lparr>ei_payload := JObj [(js ''workflowName'', JStr (js ''w'')), (js ''workflowVersion'', JStr (js ''1'')),
     (js ''metadata'', JObj [(js ''note'', JStr (replicate 12000 97))])]\<rparr>"

definition noted_envelope :: json where
  "noted_envelope = buildEnvelope noted_input (js ''e1'') 1714557600000"

lemma string_bytes_plain: "string_bytes (replicate n 97) = n"
  by (induction n) (simp_all add: char_bytes_def is_high_surrogate_def is_low_surrogate_def)

lemma noted_text: "noted_envelope = JObj
     [(js ''eventId'', JStr (js ''e1'')), (js ''schemaVersion'', JStr (js ''2'')), (js ''type'', JStr (js ''run.started'')),
      (js ''entityId'', JStr (js ''r'')), (js ''runId'', JStr (js ''r'')),
      (js ''occurredAt'', JStr (js ''2024-05-01T10:00:00.000Z'')),
      (js ''payload'', JObj [(js ''workflowName'', JStr (js ''w'')), (js ''workflowVersion'', JStr (js ''1'')),
         (js ''metadata'', JObj [(js ''note'', JStr (replicate 12000 97))])])]"
  using started_text unfolding noted_envelope_def noted_input_def started_envelope_def buildEnvelope_def started_input_def by simp

lemma literal_bytes:
  "string_bytes (js ''eventId'') = 7" "string_bytes (js ''e1'') = 2" "string_bytes (js ''schemaVersion'') = 13"
  "string_bytes (js ''2'') = 1" "string_bytes (js ''type'') = 4" "string_bytes (js ''run.started'') = 11"
  "string_bytes (js ''entityId'') = 8" "string_bytes (js ''r'') = 1" "string_bytes (js ''runId'') = 5"
  "string_bytes (js ''occurredAt'') = 10" "string_bytes (js ''2024-05-01T10:00:00.000Z'') = 24" "string_bytes (js ''payload'') = 7"
  "string_bytes (js ''workflowName'') = 12" "string_bytes (js ''w'') = 1" "string_bytes (js ''workflowVersion'') = 15"
  "string_bytes (js ''1'') = 1" "string_bytes (js ''metadata'') = 8" "string_bytes (js ''note'') = 4"
  by code_simp+

lemma noted_bytes: "12000 \<le> json_bytes num noted_envelope" "json_bytes num noted_envelope \<le> 16000"
  unfolding noted_text
  by (simp_all add: literal_bytes string_bytes_plain del: replicate.simps)

lemma noted_metadata_irrelevant:
  "parses (zod_ref RunStartedPayloadSchema (Some (JObj [(js ''workflowName'', JStr (js ''w'')), (js ''workflowVersion'', JStr (js ''1'')),
     (js ''metadata'', JObj kvs)])))"
  by (simp add: RunStartedPayloadSchema_def NameSchema_def MAX_NAME_LENGTH_def MetadataSchema_def zod_field_def nullish_def js_unfold)

lemma noted_envelope_ok:
  "case zod_ref TelemetryEventEnvelopeSchema (Some (JObj
     [(js ''eventId'', JStr (js ''e1'')), (js ''schemaVersion'', JStr (js ''2'')), (js ''type'', JStr (js ''run.started'')),
      (js ''entityId'', JStr (js ''r'')), (js ''runId'', JStr (js ''r'')),
      (js ''occurredAt'', JStr (js ''2024-05-01T10:00:00.000Z'')), (js ''payload'', payload)])) of
     Inr parsed \<Rightarrow> event_type_of (str_field parsed (js ''type'')) = Some RunStarted | Inl _ \<Rightarrow> False"
  by code_simp

lemma noted_checked: "checkEnvelope zod_ref num True noted_envelope = CheckOk"
proof -
  note ok = noted_envelope_ok [of "JObj [(js ''workflowName'', JStr (js ''w'')), (js ''workflowVersion'', JStr (js ''1'')),
         (js ''metadata'', JObj [(js ''note'', JStr (replicate 12000 97))])]", folded noted_text]
  have p: "jget noted_envelope (js ''payload'') = Some (JObj [(js ''workflowName'', JStr (js ''w'')), (js ''workflowVersion'', JStr (js ''1'')),
         (js ''metadata'', JObj [(js ''note'', JStr (replicate 12000 97))])])"
    unfolding noted_text by (simp del: replicate.simps)
  have "json_bytes num noted_envelope \<le> maxEventPayloadBytes" using noted_bytes(2) [of num] by (simp add: maxEventPayloadBytes_def)
  thus ?thesis using ok noted_metadata_irrelevant [of "[(js ''note'', JStr (replicate 12000 97))]"]
    by (auto simp: checkEnvelope_def p TELEMETRY_PAYLOAD_SCHEMAS_def parses_def split: sum.splits)
qed

text \<open>C19. Limits that do not compose: the client checks every event against the event limit and a batch against the
  number of events, but never the size of the request.  A batch of as many events as a configuration may allow, each
  accepted by the client and a quarter of the event limit in size, is over the server's body limit; the server
  refuses it before it reads an event, the transport takes that as permanent, and the client counts the whole batch as
  undeliverable, although each of its events could have been delivered in a smaller batch.\<close>

theorem checked_events_can_be_refused_as_a_batch:
  assumes "edge_laws zod_ref env"
  shows "\<exists>events. length events = maxEventsPerBatch \<and>
    (\<forall>e \<in> set events. checkEnvelope zod_ref (se_num env) True e = CheckOk \<and> 4 * json_bytes (se_num env) e \<le> maxEventPayloadBytes) \<and>
    send zod_ref True (over_http env) events dropped d st = (Permanent, st) \<and>
    (\<forall>cfg delivery c. dl_batch delivery = events \<longrightarrow>
       ct_droppedUndeliverable (cl_counters (settleAttempt cfg Permanent delivery c)) =
       ct_droppedUndeliverable (cl_counters c) + maxEventsPerBatch)"
proof (intro exI conjI)
  let ?events = "replicate maxEventsPerBatch noted_envelope"
  show "length ?events = maxEventsPerBatch" by simp
  show "\<forall>e \<in> set ?events. checkEnvelope zod_ref (se_num env) True e = CheckOk \<and> 4 * json_bytes (se_num env) e \<le> maxEventPayloadBytes"
    using noted_checked noted_bytes(2) [of "se_num env"] by (auto simp: maxEventPayloadBytes_def)
  have "maxEventsPerBatch * 12000 \<le> sum_list (map (json_bytes (se_num env)) ?events)"
    using noted_bytes(1) by (simp add: sum_list_replicate)
  from order_trans [OF this request_bytes]
  have "maxEventsPerBatch * 12000 \<le> json_bytes (se_num env) (request_json ?events dropped d)" .
  hence "maxRequestBodyBytes < json_bytes (se_num env) (request_json ?events dropped d)"
    by (simp add: maxEventsPerBatch_def maxRequestBodyBytes_def)
  thus "send zod_ref True (over_http env) ?events dropped d st = (Permanent, st)" by (rule oversized_body_refused [OF assms])
  show "\<forall>cfg delivery c. dl_batch delivery = ?events \<longrightarrow>
       ct_droppedUndeliverable (cl_counters (settleAttempt cfg Permanent delivery c)) =
       ct_droppedUndeliverable (cl_counters c) + maxEventsPerBatch"
    by (simp add: settleAttempt_def giveUp_def bump_def)
qed

section \<open>A concrete edge\<close>

definition body_parser_ref :: "(rat \<Rightarrow> nat) \<Rightarrow> body_parser" where
  "body_parser_ref num limit raw = (case raw of
     JsonBody v \<Rightarrow> if json_bytes num v \<le> limit then Inr v
       else Inl \<lparr>pe_status = Some 413, pe_statusCode = Some 413, pe_type = Some (js ''entity.too.large''), pe_syntax = False\<rparr>
   | OtherBody n \<Rightarrow> Inl \<lparr>pe_status = Some 400, pe_statusCode = Some 400, pe_type = Some (js ''entity.parse.failed''), pe_syntax = True\<rparr>)"

definition plain_env :: ServerEnv where
  "plain_env = \<lparr>se_safeParse = zod_ref, se_num = (\<lambda>_. 5), se_parser = body_parser_ref (\<lambda>_. 5),
     se_passedOn = (\<lambda>_. \<lparr>hr_status = 500, hr_body = None\<rparr>), se_fails = (\<lambda>_. None), se_now = 7, se_batchId = js ''b'',
     se_texts = (\<lambda>_ _. ([], [])), se_statusName = (\<lambda>_. None)\<rparr>"

lemma zod_collection_laws_ref: "zod_collection_laws zod_ref"
  by (auto simp: zod_collection_laws_def int_json_def split: option.splits if_splits)

lemma plain_edge: "edge_laws zod_ref plain_env"
  by (auto simp: edge_laws_def zod_laws_ref zod_collection_laws_ref plain_env_def body_parser_laws_def body_parser_ref_def)

theorem server_errors_reveal_nothing_witness:
  "catch_exception (\<lambda>_. None) 0 [] (HttpException 500 (PayloadText (js ''secret'')) (js ''m'')) = catch_exception (\<lambda>_. None) 0 [] OtherThrown"
  using server_errors_reveal_nothing [of "HttpException 500 (PayloadText (js ''secret'')) (js ''m'')" OtherThrown "\<lambda>_. None" 0 "[]"]
  by (simp add: exceptionStatus_def)

theorem delivery_answers_for_every_event_witness:
  "\<exists>a b c st'. send zod_ref True (over_http plain_env) [raw_run_started, JNull] (Some 0) (Some (js ''d'')) empty_platform =
     (Delivered (Some (a, b, c)), st') \<and> a + b + c = 2"
proof -
  have bytes: "json_bytes (se_num plain_env) (request_json [raw_run_started, JNull] (Some (int 0)) (Some (js ''d''))) \<le> maxRequestBodyBytes"
    by (simp add: raw_run_started_def request_json_def js_unfold char_bytes_def is_high_surrogate_def is_low_surrogate_def
        maxRequestBodyBytes_def plain_env_def)
  obtain resp st' where "ingest zod_ref (se_num plain_env) (se_fails plain_env) (se_now plain_env) (se_batchId plain_env)
      [raw_run_started, JNull] (Some (int 0)) (Some (js ''d'')) empty_platform = IngestOk resp st'"
    using ingest_answers [OF zod_laws_ref wf_empty, where fails = "se_fails plain_env"] by (simp add: plain_env_def) blast
  thus ?thesis
    using delivery_answers_for_every_event [OF plain_edge wf_empty, of "[raw_run_started, JNull]" 0 "js ''d''"] bytes
    by (auto simp: maxEventsPerBatch_def MAX_ID_LENGTH_def)
qed

theorem checked_events_can_be_refused_as_a_batch_witness:
  "\<exists>events. length events = 500 \<and> (\<forall>e \<in> set events. checkEnvelope zod_ref (se_num plain_env) True e = CheckOk) \<and>
    send zod_ref True (over_http plain_env) events (Some 0) (Some (js ''d'')) empty_platform = (Permanent, empty_platform)"
  using checked_events_can_be_refused_as_a_batch [OF plain_edge, of "Some 0" "Some (js ''d'')" empty_platform]
  by (auto simp: maxEventsPerBatch_def)

end
