(* ===== verification/Delivery_Oracle.thy ===== *)
theory Delivery_Oracle
  imports Js_Sort "HOL-Library.AList"
begin

text \<open>
  The delivery oracle, \<^verbatim>\<open>scripts/oracle.ts\<close>: which packets of the plan are done by their probes, which can
  start, and in which parallel wave of its phase a packet is.  What a probe looks at on disk is the argument
  \<open>Repo\<close>.  A \<^verbatim>\<open>Map\<close> is an association list, whose order is the order of insertion: \<^verbatim>\<open>set\<close> is \<^const>\<open>AList.update\<close>.
\<close>

section \<open>The graph\<close>

datatype ProbeSpec =
    ProbePath jstr | ProbeAbsent jstr | ProbeScript jstr | ProbeGrep jstr "jstr option" jstr
  | ProbeCmd jstr | ProbeManual jstr

datatype Risk = RiskLow | RiskMedium | RiskHigh

record Ownership =
  ow_allowed :: "jstr list"
  ow_forbidden :: "jstr list option"

record Node =
  nd_id :: jstr
  nd_phase :: int
  nd_lane :: jstr
  nd_title :: jstr
  nd_owner :: jstr
  nd_needs :: "jstr list"
  nd_probes :: "ProbeSpec list"
  nd_note :: "jstr option"
  nd_optional :: bool
  nd_own :: "Ownership option"
  nd_validate :: "jstr list option"
  nd_risk :: "Risk option"
  nd_changeClass :: "jstr option"

record PlanDecision =
  pd_id :: jstr
  pd_answered :: bool
  pd_blocks :: "jstr list"

record Graph =
  gr_executionOrder :: "jstr list option"
  gr_segments :: "(jstr \<times> jstr list) list option"
  gr_decisions :: "PlanDecision list"
  gr_nodes :: "Node list"

datatype State = DONE | PARTIAL | TODO

datatype Readiness = READY | R_BLOCKED | R_DONE | IN_PROGRESS

record Resolved = Node +
  rn_state :: State
  rn_hits :: nat
  rn_blockedBy :: "jstr list"
  rn_readiness :: Readiness
  rn_depth :: nat
  rn_wave :: nat

type_synonym by_id = "(jstr \<times> Resolved) list"

section \<open>Probes\<close>

text \<open>The repository at one moment: the paths that exist, the scripts of \<^verbatim>\<open>package.json\<close>, the files below a path that
  \<^verbatim>\<open>walk\<close> lists, their contents where they can be read, the language's regular expressions and the exit
  statuses of commands.\<close>

record Repo =
  rp_exists :: "jstr \<Rightarrow> bool"
  rp_scripts :: "(jstr \<times> jstr) list"
  rp_isDirectory :: "jstr \<Rightarrow> bool"
  rp_walk :: "jstr \<Rightarrow> jstr list"
  rp_read :: "jstr \<Rightarrow> jstr option"
  rp_test :: "jstr \<Rightarrow> jstr \<Rightarrow> bool"
  rp_status :: "jstr \<Rightarrow> int option"

definition runProbe :: "Repo \<Rightarrow> ProbeSpec \<Rightarrow> bool" where
  "runProbe repo p = (case p of
     ProbePath path \<Rightarrow> rp_exists repo path
   | ProbeAbsent path \<Rightarrow> \<not> rp_exists repo path
   | ProbeScript name \<Rightarrow> (case map_of (rp_scripts repo) name of Some s \<Rightarrow> s \<noteq> [] | None \<Rightarrow> False)
   | ProbeGrep dir file pattern \<Rightarrow>
       (let target = (case file of Some f \<Rightarrow> if f = [] then dir else dir @ js ''/'' @ f | None \<Rightarrow> dir)
        in rp_exists repo target \<and>
           list_ex (\<lambda>f. case rp_read repo f of Some text \<Rightarrow> rp_test repo pattern text | None \<Rightarrow> False)
             (if rp_isDirectory repo target then rp_walk repo target else [target]))
   | ProbeCmd run \<Rightarrow> rp_status repo run = Some 0
   | ProbeManual evidence \<Rightarrow> rp_exists repo evidence)"

definition probe_state :: "nat \<Rightarrow> nat \<Rightarrow> State" where
  "probe_state hits probes = (if hits = probes then DONE else if 0 < hits then PARTIAL else TODO)"

definition probed :: "Repo \<Rightarrow> Node \<Rightarrow> Resolved" where
  "probed repo n =
     (let hits = length (filter (runProbe repo) (nd_probes n))
      in Node.extend n \<lparr>rn_state = probe_state hits (length (nd_probes n)), rn_hits = hits, rn_blockedBy = [],
           rn_readiness = R_BLOCKED, rn_depth = 0, rn_wave = 0\<rparr>)"

section \<open>Resolution\<close>

definition unansweredBlocks :: "PlanDecision list \<Rightarrow> (jstr \<times> jstr list) list" where
  "unansweredBlocks ds = fold (\<lambda>d m. if pd_answered d then m
     else fold (\<lambda>target m. AList.update target (coalesce (map_of m target) [] @ [pd_id d]) m) (pd_blocks d) m) ds []"

definition probe_nodes :: "Repo \<Rightarrow> Node list \<Rightarrow> by_id" where
  "probe_nodes repo ns = fold (\<lambda>n m. AList.update (nd_id n) (probed repo n) m) ns []"

lemma card_unseen:
  assumes "map_of byId i = Some n" "i \<notin> set seen"
  shows "card (fst ` set byId - set (i # seen)) < card (fst ` set byId - set seen)"
proof -
  have "i \<in> fst ` set byId" using assms(1) by (force dest: map_of_SomeD)
  hence "fst ` set byId - set (i # seen) \<subset> fst ` set byId - set seen" using assms(2) by auto
  thus ?thesis by (simp add: psubset_card_mono)
qed

text \<open>\<^verbatim>\<open>depthOf\<close> copies the visited set for every need.\<close>

function depthOf :: "by_id \<Rightarrow> jstr list \<Rightarrow> jstr \<Rightarrow> nat" where
  "depthOf byId seen i =
     (case map_of byId i of
        None \<Rightarrow> 0
      | Some n \<Rightarrow>
          if i \<in> set seen \<or> nd_needs n = [] then 0
          else 1 + Max (set (map (\<lambda>d. depthOf byId (i # seen) d) (nd_needs n))))"
  by auto
termination
proof (relation "measure (\<lambda>(byId, seen, i). card (fst ` set byId - set seen))")
  fix byId :: by_id and seen i n d
  assume a: "map_of byId i = Some n" "\<not> (i \<in> set seen \<or> nd_needs n = [])"
  thus "((byId, i # seen, d), byId, seen, i) \<in> measure (\<lambda>(byId, seen, i). card (fst ` set byId - set seen))"
    using card_unseen [of byId i n seen] a by simp
qed simp

declare depthOf.simps [simp del]

definition needs_done :: "by_id \<Rightarrow> jstr \<Rightarrow> bool" where
  "needs_done byId d \<longleftrightarrow> (case map_of byId d of Some n \<Rightarrow> rn_state n = DONE | None \<Rightarrow> False)"

definition readiness_of :: "State \<Rightarrow> jstr list \<Rightarrow> Readiness" where
  "readiness_of st blockedBy = (case st of
     DONE \<Rightarrow> R_DONE | PARTIAL \<Rightarrow> IN_PROGRESS | TODO \<Rightarrow> if blockedBy = [] then READY else R_BLOCKED)"

definition resolve_node :: "(jstr \<times> jstr list) list \<Rightarrow> by_id \<Rightarrow> Resolved \<Rightarrow> Resolved" where
  "resolve_node open_decisions byId n =
     (let blockedBy = filter (\<lambda>d. \<not> needs_done byId d) (nd_needs n) @ coalesce (map_of open_decisions (nd_id n)) []
      in n\<lparr>rn_depth := depthOf byId [] (nd_id n), rn_blockedBy := blockedBy,
           rn_readiness := readiness_of (rn_state n) blockedBy\<rparr>)"

section \<open>Waves\<close>

definition wave_ready :: "by_id \<Rightarrow> int \<Rightarrow> jstr list \<Rightarrow> Resolved \<Rightarrow> bool" where
  "wave_ready byId phase placed n \<longleftrightarrow> (\<forall>d \<in> set (nd_needs n). case map_of byId d of
     None \<Rightarrow> True | Some dep \<Rightarrow> rn_state dep = DONE \<or> d \<in> set placed \<or> nd_phase dep \<noteq> phase)"

text \<open>The loop over the waves of one phase; its result lists the packets it places with their waves.\<close>

function wave_loop :: "by_id \<Rightarrow> int \<Rightarrow> nat \<Rightarrow> jstr list \<Rightarrow> Resolved list \<Rightarrow> (jstr \<times> nat) list" where
  "wave_loop byId phase wave placed remaining =
     (if remaining = [] \<or> \<not> wave < 20 then []
      else let batch = filter (wave_ready byId phase placed) remaining
           in if batch = [] then []
              else let placed' = map nd_id batch @ placed
                   in map (\<lambda>n. (nd_id n, wave)) batch @
                      wave_loop byId phase (wave + 1) placed' (filter (\<lambda>n. nd_id n \<notin> set placed') remaining))"
  by auto
termination by (relation "measure (\<lambda>(_, _, wave, _). 20 - wave)") auto

declare wave_loop.simps [simp del]

definition phase_waves :: "by_id \<Rightarrow> int \<Rightarrow> (jstr \<times> nat) list" where
  "phase_waves byId phase =
     wave_loop byId phase 1 [] (filter (\<lambda>n. nd_phase n = phase \<and> rn_state n \<noteq> DONE) (map snd byId))"

definition phase_list :: "by_id \<Rightarrow> int list" where
  "phase_list byId = remdups (map (nd_phase \<circ> snd) byId)"

definition set_waves :: "by_id \<Rightarrow> by_id" where
  "set_waves byId = (let ws = concat (map (phase_waves byId) (phase_list byId))
     in map (\<lambda>(id, n). (id, n\<lparr>rn_wave := coalesce (map_of ws (nd_id n)) (rn_wave n)\<rparr>)) byId)"

definition resolveGraph :: "Repo \<Rightarrow> Graph \<Rightarrow> by_id" where
  "resolveGraph repo graph =
     (let byId = probe_nodes repo (gr_nodes graph);
          blocks = unansweredBlocks (gr_decisions graph);
          resolved = map (\<lambda>(id, n). (id, resolve_node blocks byId n)) byId
      in set_waves resolved)"

section \<open>Root causes\<close>

text \<open>\<^verbatim>\<open>rootCauses\<close> shares one visited set among all its calls, so it returns that set beside its result.  The first
  argument bounds the depth of the recursion: it is never reached when it is the number of ids.\<close>

fun rootCauses :: "nat \<Rightarrow> by_id \<Rightarrow> jstr \<Rightarrow> jstr list \<Rightarrow> (jstr list \<times> jstr list) option"
  and root_loop :: "nat \<Rightarrow> by_id \<Rightarrow> jstr list \<Rightarrow> jstr list \<Rightarrow> jstr list \<Rightarrow> (jstr list \<times> jstr list) option" where
  "rootCauses 0 byId i seen = None"
| "rootCauses (Suc k) byId i seen =
     (if i \<in> set seen then Some ([], seen)
      else case map_of byId i of
             None \<Rightarrow> Some ([i], i # seen)
           | Some n \<Rightarrow>
               if rn_readiness n = READY \<or> rn_readiness n = IN_PROGRESS then Some ([i], i # seen)
               else root_loop k byId (rn_blockedBy n) [] (i # seen))"
| "root_loop k byId [] roots seen = Some (roots, seen)"
| "root_loop k byId (b # bs) roots seen =
     (case rootCauses k byId b seen of
        None \<Rightarrow> None
      | Some (rs, seen') \<Rightarrow> root_loop k byId bs (roots @ filter (\<lambda>r. r \<notin> set roots) rs) seen')"

section \<open>The resolved graph\<close>

text \<open>A map of packets is keyed by their ids.\<close>

definition keyed :: "by_id \<Rightarrow> bool" where
  "keyed byId \<longleftrightarrow> distinct (map fst byId) \<and> (\<forall>(i, n) \<in> set byId. nd_id n = i)"

lemma keyed_id: "keyed byId \<Longrightarrow> map_of byId i = Some n \<Longrightarrow> nd_id n = i"
  unfolding keyed_def by (auto dest: map_of_SomeD)

lemma keyed_value: "keyed byId \<Longrightarrow> n \<in> snd ` set byId \<longleftrightarrow> map_of byId (nd_id n) = Some n"
  unfolding keyed_def by (force simp: map_of_eq_Some_iff)

lemma keyed_map: "keyed byId \<Longrightarrow> (\<And>n. nd_id (f n) = nd_id n) \<Longrightarrow> keyed (map (\<lambda>(i, n). (i, f n)) byId)"
  unfolding keyed_def by (auto simp: comp_def case_prod_beta)

lemma map_of_values: "map_of (map (\<lambda>(i, n). (i, f n)) xs) i = map_option f (map_of xs i)"
  by (simp add: map_of_map)

lemma probed_fields [simp]:
  "nd_id (probed repo n) = nd_id n" "nd_needs (probed repo n) = nd_needs n" "nd_phase (probed repo n) = nd_phase n"
  "Node.truncate (probed repo n) = n"
  "rn_state (probed repo n) = probe_state (length (filter (runProbe repo) (nd_probes n))) (length (nd_probes n))"
  by (simp_all add: probed_def Let_def Node.defs)

lemma probe_nodes_snoc: "probe_nodes repo (ns @ [n]) = AList.update (nd_id n) (probed repo n) (probe_nodes repo ns)"
  by (simp add: probe_nodes_def)

lemma probe_nodes_keyed: "keyed (probe_nodes repo ns)"
proof (induction ns rule: rev_induct)
  case Nil
  show ?case by (simp add: probe_nodes_def keyed_def)
next
  case (snoc n ns)
  hence d: "distinct (map fst (AList.update (nd_id n) (probed repo n) (probe_nodes repo ns)))"
    unfolding keyed_def by (simp add: distinct_update)
  have "nd_id m = i" if "(i, m) \<in> set (AList.update (nd_id n) (probed repo n) (probe_nodes repo ns))" for i m
    using that d snoc keyed_id [OF snoc, of i m]
    by (auto simp: map_of_eq_Some_iff [symmetric] update_conv' split: if_splits)
  thus ?case using d unfolding probe_nodes_snoc keyed_def by blast
qed

lemma probe_nodes_wave: "map_of (probe_nodes repo ns) i = Some r \<Longrightarrow> rn_wave r = 0"
  by (induction ns arbitrary: r rule: rev_induct)
    (auto simp: probe_nodes_def update_conv' probed_def Let_def Node.defs split: if_splits)

lemma probe_nodes_lookup:
  assumes "distinct (map nd_id ns)"
  shows "map_of (probe_nodes repo ns) i = Some r \<longleftrightarrow> (\<exists>n \<in> set ns. nd_id n = i \<and> r = probed repo n)"
  using assms
proof (induction ns rule: rev_induct)
  case Nil
  show ?case by (simp add: probe_nodes_def)
next
  case (snoc n ns)
  from snoc(2) have "nd_id n \<notin> nd_id ` set ns" by simp
  hence "\<forall>m \<in> set ns. nd_id m \<noteq> nd_id n" by (metis image_eqI)
  moreover have "(map_of (probe_nodes repo ns) i = Some r) \<longleftrightarrow> (\<exists>n \<in> set ns. nd_id n = i \<and> r = probed repo n)"
    using snoc by simp
  ultimately show ?case unfolding probe_nodes_snoc by (cases "i = nd_id n") (auto simp: update_conv')
qed

lemma probe_state_done: "probe_state (length (filter P xs)) (length xs) = DONE \<longleftrightarrow> list_all P xs"
proof (cases "filter P xs = xs")
  case True
  thus ?thesis by (simp add: probe_state_def filter_id_conv list_all_iff)
next
  case False
  then obtain x where "x \<in> set xs" "\<not> P x" by (auto simp: filter_id_conv)
  moreover from this have "length (filter P xs) < length xs" by (rule length_filter_less)
  ultimately show ?thesis by (auto simp: probe_state_def list_all_iff)
qed

lemma open_decisions_inner:
  "d \<in> set (coalesce (map_of (fold (\<lambda>target m. AList.update target (coalesce (map_of m target) [] @ [e]) m) ts m) t) []) \<longleftrightarrow>
     d = e \<and> t \<in> set ts \<or> d \<in> set (coalesce (map_of m t) [])"
  by (induction ts arbitrary: m) (auto simp: update_conv')

lemma open_decisions:
  "d \<in> set (coalesce (map_of (unansweredBlocks ds) t) []) \<longleftrightarrow> (\<exists>p \<in> set ds. \<not> pd_answered p \<and> t \<in> set (pd_blocks p) \<and> pd_id p = d)"
proof (induction ds rule: rev_induct)
  case Nil
  show ?case by (simp add: unansweredBlocks_def)
next
  case (snoc p ds)
  have "unansweredBlocks (ds @ [p]) = (if pd_answered p then unansweredBlocks ds else
     fold (\<lambda>target m. AList.update target (coalesce (map_of m target) [] @ [pd_id p]) m) (pd_blocks p) (unansweredBlocks ds))"
    by (simp add: unansweredBlocks_def)
  thus ?case using snoc open_decisions_inner [of d "pd_id p" "pd_blocks p"] by auto
qed

lemma resolve_node_fields [simp]:
  "nd_id (resolve_node b m n) = nd_id n" "nd_needs (resolve_node b m n) = nd_needs n" "nd_phase (resolve_node b m n) = nd_phase n"
  "rn_state (resolve_node b m n) = rn_state n" "Node.truncate (resolve_node b m n) = Node.truncate n"
  by (simp_all add: resolve_node_def Let_def Node.defs)

lemma truncate_wave [simp]: "Node.truncate (r\<lparr>rn_wave := w\<rparr>) = Node.truncate (r :: Resolved)"
  by (simp add: Node.defs)

definition resolved_nodes :: "Repo \<Rightarrow> Graph \<Rightarrow> by_id" where
  "resolved_nodes repo g = map (\<lambda>(i, n). (i, resolve_node (unansweredBlocks (gr_decisions g))
     (probe_nodes repo (gr_nodes g)) n)) (probe_nodes repo (gr_nodes g))"

lemma resolveGraph_alt: "resolveGraph repo g = set_waves (resolved_nodes repo g)"
  by (simp add: resolveGraph_def resolved_nodes_def Let_def)

lemma resolved_nodes_keyed: "keyed (resolved_nodes repo g)"
  unfolding resolved_nodes_def by (rule keyed_map [OF probe_nodes_keyed]) simp

lemma set_waves_lookup:
  "keyed byId \<Longrightarrow> map_of (set_waves byId) i = map_option (\<lambda>n. n\<lparr>rn_wave := coalesce (map_of
     (concat (map (phase_waves byId) (phase_list byId))) i) (rn_wave n)\<rparr>) (map_of byId i)"
  unfolding set_waves_def Let_def map_of_values by (cases "map_of byId i") (auto dest: keyed_id)

lemma resolveGraph_lookup:
  assumes "map_of (resolveGraph repo g) i = Some r"
  obtains n where "map_of (resolved_nodes repo g) i = Some n" "r = n\<lparr>rn_wave := rn_wave r\<rparr>"
  using assms unfolding resolveGraph_alt set_waves_lookup [OF resolved_nodes_keyed] by auto

text \<open>C24. What can start: the oracle reports a packet as done exactly if all its probes pass, and as ready exactly if no
  probe passes yet, every packet it needs is in the graph with all its probes passing, and every decision that blocks it
  is answered.\<close>

theorem resolved_readiness_exact:
  assumes "distinct (map nd_id (gr_nodes g))" "n \<in> set (gr_nodes g)"
  shows "\<exists>r. map_of (resolveGraph repo g) (nd_id n) = Some r \<and> Node.truncate r = n \<and>
    (rn_readiness r = R_DONE \<longleftrightarrow> list_all (runProbe repo) (nd_probes n)) \<and>
    (rn_readiness r = READY \<longleftrightarrow> nd_probes n \<noteq> [] \<and> list_all (\<lambda>p. \<not> runProbe repo p) (nd_probes n) \<and>
       (\<forall>d \<in> set (nd_needs n). \<exists>m \<in> set (gr_nodes g). nd_id m = d \<and> list_all (runProbe repo) (nd_probes m)) \<and>
       (\<forall>p \<in> set (gr_decisions g). nd_id n \<in> set (pd_blocks p) \<longrightarrow> pd_answered p))"
proof -
  let ?b = "unansweredBlocks (gr_decisions g)" and ?m = "probe_nodes repo (gr_nodes g)"
  let ?r = "resolve_node ?b ?m (probed repo n)"
  have lk: "map_of ?m (nd_id n) = Some (probed repo n)" using probe_nodes_lookup [OF assms(1)] assms(2) by blast
  hence "map_of (resolved_nodes repo g) (nd_id n) = Some ?r" by (simp add: resolved_nodes_def map_of_values)
  then obtain w where w: "map_of (resolveGraph repo g) (nd_id n) = Some (?r\<lparr>rn_wave := w\<rparr>)"
    unfolding resolveGraph_alt set_waves_lookup [OF resolved_nodes_keyed] by simp
  have needs: "needs_done ?m d \<longleftrightarrow> (\<exists>m \<in> set (gr_nodes g). nd_id m = d \<and> list_all (runProbe repo) (nd_probes m))" for d
  proof -
    have "needs_done ?m d \<longleftrightarrow> (\<exists>r. map_of ?m d = Some r \<and> rn_state r = DONE)" by (auto simp: needs_done_def split: option.splits)
    thus ?thesis unfolding probe_nodes_lookup [OF assms(1)] by (metis probe_state_done probed_fields(5))
  qed
  have dec: "coalesce (map_of ?b (nd_id n)) [] = [] \<longleftrightarrow> (\<forall>p \<in> set (gr_decisions g). nd_id n \<in> set (pd_blocks p) \<longrightarrow> pd_answered p)"
    using open_decisions [of _ "gr_decisions g" "nd_id n"] by (metis list.set_intros(1) neq_Nil_conv empty_iff empty_set)
  have todo: "rn_state (probed repo n) = TODO \<longleftrightarrow> nd_probes n \<noteq> [] \<and> list_all (\<lambda>p. \<not> runProbe repo p) (nd_probes n)"
    by (auto simp: probe_state_def list_all_iff filter_empty_conv)
  have "rn_readiness ?r = R_DONE \<longleftrightarrow> list_all (runProbe repo) (nd_probes n)"
    using probe_state_done [of "runProbe repo" "nd_probes n"]
    by (auto simp: resolve_node_def readiness_of_def Let_def split: State.splits if_splits)
  moreover have "rn_readiness ?r = READY \<longleftrightarrow> rn_state (probed repo n) = TODO \<and> (\<forall>d \<in> set (nd_needs n). needs_done ?m d) \<and>
      coalesce (map_of ?b (nd_id n)) [] = []"
    by (auto simp: resolve_node_def readiness_of_def Let_def filter_empty_conv split: State.splits)
  ultimately show ?thesis using w unfolding needs dec todo by (intro exI [of _ "?r\<lparr>rn_wave := w\<rparr>"]) simp
qed

section \<open>Waves respect needs\<close>

definition open_need :: "by_id \<Rightarrow> int \<Rightarrow> Resolved \<Rightarrow> jstr \<Rightarrow> bool" where
  "open_need byId phase n d \<longleftrightarrow> d \<in> set (nd_needs n) \<and>
     (\<exists>dep. map_of byId d = Some dep \<and> rn_state dep \<noteq> DONE \<and> nd_phase dep = phase)"

lemma wave_ready_iff: "wave_ready byId phase placed n \<longleftrightarrow> (\<forall>d. open_need byId phase n d \<longrightarrow> d \<in> set placed)"
  by (auto simp: wave_ready_def open_need_def split: option.splits)

lemma wave_loop_ok:
  assumes "distinct (map nd_id remaining)" "ws = wave_loop byId phase wave placed remaining"
  shows "distinct (map fst ws) \<and> (\<forall>(i, v) \<in> set ws. wave \<le> v \<and> i \<in> nd_id ` set remaining) \<and>
    (\<forall>n \<in> set remaining. \<forall>v d. (nd_id n, v) \<in> set ws \<longrightarrow> open_need byId phase n d \<longrightarrow>
       d \<in> set placed \<or> (\<exists>v' < v. (d, v') \<in> set ws))"
  using assms
proof (induction byId phase wave placed remaining arbitrary: ws rule: wave_loop.induct)
  case (1 byId phase wave placed remaining)
  define batch where "batch = filter (wave_ready byId phase placed) remaining"
  define placed' where "placed' = map nd_id batch @ placed"
  define rest where "rest = filter (\<lambda>n. nd_id n \<notin> set placed') remaining"
  define ws' where "ws' = wave_loop byId phase (wave + 1) placed' rest"
  note defs = batch_def placed'_def rest_def
  show ?case
  proof (cases "remaining = [] \<or> \<not> wave < 20 \<or> batch = []")
    case True
    hence "ws = []" using 1(3) unfolding batch_def by (subst (asm) wave_loop.simps) (auto simp: Let_def)
    thus ?thesis by simp
  next
    case False
    hence ws: "ws = map (\<lambda>n. (nd_id n, wave)) batch @ ws'"
      using 1(3) unfolding ws'_def defs by (subst (asm) wave_loop.simps) (simp add: Let_def)
    have inj: "inj_on nd_id (set remaining)" using 1(2) by (simp add: distinct_map)
    have "distinct (map nd_id rest)" using 1(2) by (simp add: rest_def distinct_map_filter)
    from 1(1) [OF _ batch_def _ placed'_def this [unfolded rest_def] ws'_def [unfolded rest_def]] False
    have ih: "distinct (map fst ws')" "\<forall>(i, v) \<in> set ws'. wave + 1 \<le> v \<and> i \<in> nd_id ` set rest"
      "\<forall>n \<in> set rest. \<forall>v d. (nd_id n, v) \<in> set ws' \<longrightarrow> open_need byId phase n d \<longrightarrow>
         d \<in> set placed' \<or> (\<exists>v' < v. (d, v') \<in> set ws')"
      unfolding rest_def by blast+
    have "distinct (map nd_id batch)" using 1(2) by (simp add: batch_def distinct_map_filter)
    moreover have "fst ` set ws' \<inter> nd_id ` set batch = {}" using ih(2) by (fastforce simp: rest_def placed'_def)
    ultimately have "distinct (map fst ws)" using ih(1) by (auto simp: ws comp_def)
    moreover have "\<forall>(i, v) \<in> set ws. wave \<le> v \<and> i \<in> nd_id ` set remaining" using ih(2) by (fastforce simp: ws rest_def batch_def)
    moreover have "d \<in> set placed \<or> (\<exists>v' < v. (d, v') \<in> set ws)"
      if n: "n \<in> set remaining" "(nd_id n, v) \<in> set ws" "open_need byId phase n d" for n v d
    proof (cases "n \<in> set batch")
      case True
      thus ?thesis using n(3) by (auto simp: batch_def wave_ready_iff)
    next
      case False
      have "(nd_id n, v) \<notin> set (map (\<lambda>n. (nd_id n, wave)) batch)" using False n(1) inj by (auto simp: batch_def dest: inj_onD)
      hence v: "(nd_id n, v) \<in> set ws'" using n(2) by (simp add: ws)
      hence "wave < v" "nd_id n \<in> nd_id ` set rest" using ih(2) by auto
      hence "n \<in> set rest" using n(1) inj by (auto simp: rest_def dest: inj_onD)
      hence "d \<in> set placed' \<or> (\<exists>v' < v. (d, v') \<in> set ws')" using ih(3) v n(3) by blast
      thus ?thesis using \<open>wave < v\<close> by (auto simp: ws placed'_def)
    qed
    ultimately show ?thesis by blast
  qed
qed

lemma phase_waves_ok:
  assumes "keyed byId"
  shows "distinct (map fst (phase_waves byId p))"
    "(i, v) \<in> set (phase_waves byId p) \<Longrightarrow> 1 \<le> v \<and> (\<exists>n. map_of byId i = Some n \<and> nd_phase n = p \<and> rn_state n \<noteq> DONE)"
    "(i, v) \<in> set (phase_waves byId p) \<Longrightarrow> map_of byId i = Some n \<Longrightarrow> open_need byId p n d \<Longrightarrow>
       \<exists>v' < v. (d, v') \<in> set (phase_waves byId p)"
proof -
  let ?rem = "filter (\<lambda>n. nd_phase n = p \<and> rn_state n \<noteq> DONE) (map snd byId)"
  have "map nd_id (map snd byId) = map fst byId" using assms by (auto simp: keyed_def)
  hence "distinct (map nd_id (map snd byId))" using assms by (simp only: keyed_def)
  hence "distinct (map nd_id ?rem)" by (rule distinct_map_filter)
  note ok = wave_loop_ok [OF this phase_waves_def]
  note ok2 = conjunct1 [OF conjunct2 [OF ok]] and ok3 = conjunct2 [OF conjunct2 [OF ok]]
  have rem: "n \<in> set ?rem \<longleftrightarrow> map_of byId (nd_id n) = Some n \<and> nd_phase n = p \<and> rn_state n \<noteq> DONE" for n
    using keyed_value [OF assms, of n] by auto
  show "distinct (map fst (phase_waves byId p))" using conjunct1 [OF ok] .
  show in_rem: "1 \<le> v \<and> (\<exists>n. map_of byId i = Some n \<and> nd_phase n = p \<and> rn_state n \<noteq> DONE)"
    if i: "(i, v) \<in> set (phase_waves byId p)" for i v
  proof -
    from bspec [OF ok2 i] obtain n where "1 \<le> v" "n \<in> set ?rem" "i = nd_id n" by auto
    thus ?thesis unfolding rem by auto
  qed
  show "\<exists>v' < v. (d, v') \<in> set (phase_waves byId p)"
    if a: "(i, v) \<in> set (phase_waves byId p)" "map_of byId i = Some n" "open_need byId p n d" for i v n d
  proof -
    have n: "nd_id n = i" using keyed_id [OF assms a(2)] .
    hence "n \<in> set ?rem" unfolding rem using in_rem [OF a(1)] a(2) by auto
    from bspec [OF ok3 this] a(1,3) show ?thesis unfolding n by auto
  qed
qed

lemma map_of_concat_one:
  assumes "\<forall>p \<in> set ps. p \<noteq> q \<longrightarrow> i \<notin> fst ` set (f p)"
  shows "map_of (concat (map f ps)) i = (if q \<in> set ps then map_of (f q) i else None)"
  using assms
proof (induction ps)
  case (Cons p ps)
  hence ih: "map_of (concat (map f ps)) i = (if q \<in> set ps then map_of (f q) i else None)" by simp
  show ?case
  proof (cases "p = q")
    case True
    thus ?thesis using ih by (auto simp: map_add_def split: option.splits)
  next
    case False
    hence "map_of (f p) i = None" using Cons.prems by (simp add: map_of_eq_None_iff)
    thus ?thesis using ih False by (simp add: map_add_def)
  qed
qed simp

lemma wave_of_node:
  assumes "keyed byId" "map_of byId i = Some n"
  shows "map_of (concat (map (phase_waves byId) (phase_list byId))) i = map_of (phase_waves byId (nd_phase n)) i"
proof -
  have "i \<notin> fst ` set (phase_waves byId p)" if "p \<noteq> nd_phase n" for p
    using phase_waves_ok(2) [OF assms(1), of i _ p] assms(2) that by fastforce
  moreover have "nd_phase n \<in> set (phase_list byId)" using map_of_SomeD [OF assms(2)] by (force simp: phase_list_def)
  ultimately show ?thesis using map_of_concat_one [of "phase_list byId" "nd_phase n" i "phase_waves byId"] by simp
qed

lemma resolved_wave:
  assumes "map_of (resolveGraph repo g) i = Some r"
  obtains n where "map_of (resolved_nodes repo g) i = Some n" "nd_needs r = nd_needs n" "nd_phase r = nd_phase n"
    "rn_state r = rn_state n" "rn_readiness r = rn_readiness n"
    "rn_wave r = coalesce (map_of (phase_waves (resolved_nodes repo g) (nd_phase n)) i) 0"
proof -
  obtain n where n: "map_of (resolved_nodes repo g) i = Some n" "r = n\<lparr>rn_wave := coalesce (map_of
     (concat (map (phase_waves (resolved_nodes repo g)) (phase_list (resolved_nodes repo g)))) i) (rn_wave n)\<rparr>"
    using assms unfolding resolveGraph_alt set_waves_lookup [OF resolved_nodes_keyed] by auto
  moreover have "rn_wave n = 0"
    using n(1) probe_nodes_keyed [of repo "gr_nodes g"]
    by (auto simp: resolved_nodes_def map_of_values resolve_node_def Let_def probe_nodes_wave)
  ultimately show ?thesis using that wave_of_node [OF resolved_nodes_keyed n(1)] by simp
qed

text \<open>C25. Packets of one wave can run side by side: an unfinished packet of the same phase that a packet of some wave
  needs is in an earlier wave, so no two packets of a wave depend on each other; a finished packet is in no wave.\<close>

theorem waves_respect_needs:
  assumes "map_of (resolveGraph repo g) i = Some n" "map_of (resolveGraph repo g) d = Some dep"
    "d \<in> set (nd_needs n)" "nd_phase dep = nd_phase n" "rn_state dep \<noteq> DONE" "0 < rn_wave n"
  shows "0 < rn_wave dep \<and> rn_wave dep < rn_wave n \<and> rn_state n \<noteq> DONE"
proof -
  let ?m = "resolved_nodes repo g"
  note k = resolved_nodes_keyed [of repo g]
  obtain n' where n: "map_of ?m i = Some n'" "nd_needs n = nd_needs n'" "nd_phase n = nd_phase n'" "rn_state n = rn_state n'"
    "rn_wave n = coalesce (map_of (phase_waves ?m (nd_phase n')) i) 0"
    by (rule resolved_wave [OF assms(1)])
  obtain d' where d: "map_of ?m d = Some d'" "nd_phase dep = nd_phase d'" "rn_state dep = rn_state d'"
    "rn_wave dep = coalesce (map_of (phase_waves ?m (nd_phase d')) d) 0"
    by (rule resolved_wave [OF assms(2)])
  obtain v where v: "map_of (phase_waves ?m (nd_phase n')) i = Some v" "rn_wave n = v"
    using n(5) assms(6) by (cases "map_of (phase_waves ?m (nd_phase n')) i") auto
  have "open_need ?m (nd_phase n') n' d" using assms(3-5) n d by (simp add: open_need_def)
  from phase_waves_ok(3) [OF k map_of_SomeD [OF v(1)] n(1) this]
  obtain v' where v': "v' < v" "(d, v') \<in> set (phase_waves ?m (nd_phase n'))" by blast
  hence "map_of (phase_waves ?m (nd_phase n')) d = Some v'" using phase_waves_ok(1) [OF k] by simp
  hence "rn_wave dep = v'" using d(2,4) n(3) assms(4) by simp
  moreover have "1 \<le> v'" using phase_waves_ok(2) [OF k v'(2)] by blast
  moreover have "rn_state n \<noteq> DONE" using phase_waves_ok(2) [OF k map_of_SomeD [OF v(1)]] n(1,4) by auto
  ultimately show ?thesis using v' v by simp
qed

section \<open>Root causes are what can be acted on\<close>

definition actionable :: "by_id \<Rightarrow> jstr \<Rightarrow> bool" where
  "actionable byId r \<longleftrightarrow> (case map_of byId r of None \<Rightarrow> True | Some n \<Rightarrow> rn_readiness n \<in> {READY, IN_PROGRESS})"

definition waits_for :: "by_id \<Rightarrow> jstr \<Rightarrow> jstr \<Rightarrow> bool" where
  "waits_for byId x y \<longleftrightarrow> \<not> actionable byId x \<and> (\<exists>n. map_of byId x = Some n \<and> y \<in> set (rn_blockedBy n))"

definition searched :: "by_id \<Rightarrow> jstr list \<Rightarrow> jstr list \<Rightarrow> jstr list \<Rightarrow> bool" where
  "searched byId seen roots seen' \<longleftrightarrow> set seen \<subseteq> set seen' \<and> set roots = {r \<in> set seen' - set seen. actionable byId r} \<and>
     (\<forall>v \<in> set seen' - set seen. \<forall>y. waits_for byId v y \<longrightarrow> y \<in> set seen')"

lemma searchedD:
  assumes "searched byId seen roots seen'"
  shows "set seen \<subseteq> set seen'" "set roots = {r \<in> set seen' - set seen. actionable byId r}"
    "v \<in> set seen' \<Longrightarrow> v \<notin> set seen \<Longrightarrow> waits_for byId v y \<Longrightarrow> y \<in> set seen'"
  using assms unfolding searched_def by blast+

lemma searchedI:
  assumes "set seen \<subseteq> set seen'" "set roots = {r \<in> set seen' - set seen. actionable byId r}"
    "\<And>v y. v \<in> set seen' \<Longrightarrow> v \<notin> set seen \<Longrightarrow> waits_for byId v y \<Longrightarrow> y \<in> set seen'"
  shows "searched byId seen roots seen'"
  using assms unfolding searched_def by blast

lemma searched_trans:
  assumes "searched byId s r1 s1" "searched byId s1 r2 s2"
  shows "searched byId s (r1 @ r2) s2"
proof (rule searchedI)
  note d = searchedD [OF assms(1)] searchedD [OF assms(2)]
  show "set s \<subseteq> set s2" using d(1,4) by (rule order_trans)
  show "set (r1 @ r2) = {r \<in> set s2 - set s. actionable byId r}" using d(1,4) by (auto simp: d(2,5))
  show "y \<in> set s2" if "v \<in> set s2" "v \<notin> set s" "waits_for byId v y" for v y
    using d(3) [of v y] d(6) [of v y] d(4) that by (cases "v \<in> set s1") auto
qed

lemma searched_none: "searched byId seen [] seen" by (simp add: searched_def)

lemma searched_one: "i \<notin> set seen \<Longrightarrow> actionable byId i \<Longrightarrow> searched byId seen [i] (i # seen)"
  by (auto simp: searched_def waits_for_def)

lemma searched_node:
  assumes "searched byId (i # seen) new seen'" "i \<notin> set seen" "\<not> actionable byId i" "\<And>y. waits_for byId i y \<Longrightarrow> y \<in> set seen'"
    "set roots = set new"
  shows "searched byId seen roots seen'"
proof (rule searchedI)
  note d = searchedD [OF assms(1)]
  show "set seen \<subseteq> set seen'" using d(1) by simp
  show "set roots = {r \<in> set seen' - set seen. actionable byId r}" using assms(3) by (auto simp: assms(5) d(2))
  show "y \<in> set seen'" if "v \<in> set seen'" "v \<notin> set seen" "waits_for byId v y" for v y
    using d(3) [of v y] assms(4) [of y] that by (cases "v = i") simp_all
qed

lemma root_search_ok:
  "rootCauses k byId i seen = Some (roots, seen') \<Longrightarrow>
     searched byId seen roots seen' \<and> i \<in> set seen' \<and> (\<forall>v \<in> set seen' - set seen. (waits_for byId)\<^sup>*\<^sup>* i v)"
  "root_loop k byId bs rs seen = Some (roots, seen') \<Longrightarrow>
     \<exists>new. set roots = set rs \<union> set new \<and> searched byId seen new seen' \<and> set bs \<subseteq> set seen' \<and>
       (\<forall>v \<in> set seen' - set seen. \<exists>b \<in> set bs. (waits_for byId)\<^sup>*\<^sup>* b v)"
proof (induction k byId i seen and k byId bs rs seen arbitrary: roots seen' and roots seen' rule: rootCauses_root_loop.induct)
  case (2 k byId i seen)
  show ?case
  proof (cases "i \<in> set seen \<or> actionable byId i")
    case True
    hence "roots = [] \<and> seen' = seen \<and> i \<in> set seen \<or> roots = [i] \<and> seen' = i # seen \<and> i \<notin> set seen \<and> actionable byId i"
      using 2(2) by (auto simp: actionable_def split: option.splits if_splits)
    thus ?thesis using searched_none searched_one by auto
  next
    case False
    then obtain n where n: "map_of byId i = Some n" "\<not> (rn_readiness n = READY \<or> rn_readiness n = IN_PROGRESS)"
      by (auto simp: actionable_def split: option.splits)
    hence r: "root_loop k byId (rn_blockedBy n) [] (i # seen) = Some (roots, seen')" using 2(2) False by simp
    have w: "waits_for byId i y \<longleftrightarrow> y \<in> set (rn_blockedBy n)" for y using n False by (auto simp: waits_for_def)
    from 2(1) [OF _ n r] False obtain new where new: "set roots = set new" "searched byId (i # seen) new seen'"
      "set (rn_blockedBy n) \<subseteq> set seen'" "\<forall>v \<in> set seen' - set (i # seen). \<exists>b \<in> set (rn_blockedBy n). (waits_for byId)\<^sup>*\<^sup>* b v"
      by auto
    have "searched byId seen roots seen'" using False w new(1,3) by (intro searched_node [OF new(2)]) auto
    moreover have "(waits_for byId)\<^sup>*\<^sup>* i v" if "v \<in> set seen' - set seen" for v
      using new(4) that w by (cases "v = i") (auto intro: converse_rtranclp_into_rtranclp)
    ultimately show ?thesis using searchedD(1) [OF new(2)] by simp
  qed
next
  case (3 k byId roots seen)
  thus ?case using searched_none [of byId seen] by (intro exI [of _ "[]"]) simp
next
  case (4 k byId b bs rs seen)
  obtain r1 s1 where r1: "rootCauses k byId b seen = Some (r1, s1)"
    "root_loop k byId bs (rs @ filter (\<lambda>r. r \<notin> set rs) r1) s1 = Some (roots, seen')"
    using 4(3) by (auto split: option.splits)
  note a = 4(1) [OF r1(1)]
  from 4(2) [OF r1(1) refl r1(2)] obtain new where new: "set roots = set (rs @ filter (\<lambda>r. r \<notin> set rs) r1) \<union> set new"
    "searched byId s1 new seen'" "set bs \<subseteq> set seen'" "\<forall>v \<in> set seen' - set s1. \<exists>b \<in> set bs. (waits_for byId)\<^sup>*\<^sup>* b v" by blast
  have "searched byId seen (r1 @ new) seen'" using searched_trans [OF conjunct1 [OF a] new(2)] .
  moreover have "set roots = set rs \<union> set (r1 @ new)" using new(1) by auto
  moreover have "set s1 \<subseteq> set seen'" by (rule searchedD(1) [OF new(2)])
  hence "set (b # bs) \<subseteq> set seen'" using a new(3) by auto
  moreover have "\<forall>v \<in> set seen' - set seen. \<exists>x \<in> set (b # bs). (waits_for byId)\<^sup>*\<^sup>* x v" using a new(4) by auto
  ultimately show ?case by blast
qed simp

lemma root_search_total:
  "card (fst ` set byId - set seen) < k \<Longrightarrow> rootCauses k byId i seen \<noteq> None"
  "card (fst ` set byId - set seen) < k \<Longrightarrow> root_loop k byId bs rs seen \<noteq> None"
proof (induction k byId i seen and k byId bs rs seen rule: rootCauses_root_loop.induct)
  case (2 k byId i seen)
  have "card (fst ` set byId - set (i # seen)) < k" if "map_of byId i = Some n" "i \<notin> set seen" for n
    using card_unseen [OF that] 2(2) by simp
  thus ?case using 2(1) by (auto split: option.splits)
next
  case (4 k byId b bs rs seen)
  obtain r1 s1 where r1: "rootCauses k byId b seen = Some (r1, s1)" using 4(1,3) by auto
  have "fst ` set byId - set s1 \<subseteq> fst ` set byId - set seen" using searchedD(1) [OF conjunct1 [OF root_search_ok(1) [OF r1]]] by auto
  hence "card (fst ` set byId - set s1) < k" using 4(3) by (meson card_mono finite_Diff finite_imageI finite_set le_less_trans)
  thus ?case using 4(2) [OF r1 refl] r1 by simp
qed simp_all

text \<open>C26. Root causes: with the number of packets as bound the search always ends, also on circular needs, and it finds
  exactly the things a blocked packet waits for, directly or through other blocked packets, that can be acted on:
  packets that are ready or in progress, and ids that are no packet, which are the open decisions.\<close>

theorem root_causes_exact:
  "\<exists>roots seen. rootCauses (Suc (length byId)) byId i [] = Some (roots, seen) \<and>
     set roots = {r. (waits_for byId)\<^sup>*\<^sup>* i r \<and> actionable byId r}"
proof -
  have "card (fst ` set byId - set []) < Suc (length byId)"
    using card_length [of "map fst byId"] by simp
  from root_search_total(1) [OF this] obtain roots seen where r: "rootCauses (Suc (length byId)) byId i [] = Some (roots, seen)"
    by (metis not_None_eq prod.exhaust)
  note ok = root_search_ok(1) [OF r]
  note d = searchedD [OF conjunct1 [OF ok]]
  have "v \<in> set seen" if "(waits_for byId)\<^sup>*\<^sup>* i v" for v
    using that by (induction rule: rtranclp_induct) (use ok d(3) in auto)
  moreover have "(waits_for byId)\<^sup>*\<^sup>* i v" if "v \<in> set seen" for v using ok that by simp
  ultimately have "set roots = {r. (waits_for byId)\<^sup>*\<^sup>* i r \<and> actionable byId r}" unfolding d(2) by auto
  thus ?thesis using r by blast
qed

section \<open>A small plan\<close>

definition demo_node :: "jstr \<Rightarrow> jstr list \<Rightarrow> ProbeSpec list \<Rightarrow> Node" where
  "demo_node i needs probes = \<lparr>nd_id = i, nd_phase = 1, nd_lane = js ''api'', nd_title = i, nd_owner = js ''builder'', nd_needs = needs,
     nd_probes = probes, nd_note = None, nd_optional = False, nd_own = None, nd_validate = None, nd_risk = None,
     nd_changeClass = None\<rparr>"

definition demo_graph :: Graph where
  "demo_graph = \<lparr>gr_executionOrder = Some [js ''1''], gr_segments = None, gr_decisions = [\<lparr>pd_id = js ''OD'', pd_answered = False,
     pd_blocks = [js ''c'']\<rparr>],
     gr_nodes = [demo_node (js ''a'') [] [ProbePath (js ''x'')], demo_node (js ''b'') [js ''a''] [ProbePath (js ''y'')],
       demo_node (js ''c'') [js ''b''] [ProbePath (js ''x''), ProbePath (js ''y'')]]\<rparr>"

definition demo_repo :: Repo where
  "demo_repo = \<lparr>rp_exists = (\<lambda>p. p = js ''x''), rp_scripts = [], rp_isDirectory = (\<lambda>_. False), rp_walk = (\<lambda>_. []),
     rp_read = (\<lambda>_. None), rp_test = (\<lambda>_ _. False), rp_status = (\<lambda>_. None)\<rparr>"

lemma demo_resolved:
  "map (\<lambda>(i, n). (i, rn_state n, rn_readiness n, rn_wave n, rn_blockedBy n)) (resolveGraph demo_repo demo_graph) =
     [(js ''a'', DONE, R_DONE, 0, []), (js ''b'', TODO, READY, 1, []),
      (js ''c'', PARTIAL, IN_PROGRESS, 2, [js ''b'', js ''OD''])]"
  by code_simp

theorem resolved_readiness_exact_witness:
  "\<exists>r. map_of (resolveGraph demo_repo demo_graph) (js ''b'') = Some r \<and> rn_readiness r = READY"
proof -
  let ?b = "demo_node (js ''b'') [js ''a''] [ProbePath (js ''y'')]"
  have "distinct (map nd_id (gr_nodes demo_graph))" "?b \<in> set (gr_nodes demo_graph)" by (simp_all add: demo_graph_def demo_node_def)
  from resolved_readiness_exact [OF this, of demo_repo] show ?thesis
    by (auto simp: demo_graph_def demo_node_def demo_repo_def runProbe_def)
qed

theorem waves_respect_needs_witness:
  "\<exists>n dep. map_of (resolveGraph demo_repo demo_graph) (js ''c'') = Some n \<and> map_of (resolveGraph demo_repo demo_graph) (js ''b'') = Some dep \<and>
     rn_wave dep < rn_wave n"
proof -
  let ?m = "resolveGraph demo_repo demo_graph"
  have "case map_of ?m (js ''c'') of None \<Rightarrow> False | Some n \<Rightarrow> js ''b'' \<in> set (nd_needs n) \<and> nd_phase n = 1 \<and> 0 < rn_wave n"
    by code_simp
  moreover have "case map_of ?m (js ''b'') of None \<Rightarrow> False | Some n \<Rightarrow> nd_phase n = 1 \<and> rn_state n \<noteq> DONE" by code_simp
  ultimately obtain n dep where "map_of ?m (js ''c'') = Some n" "map_of ?m (js ''b'') = Some dep" "js ''b'' \<in> set (nd_needs n)"
    "nd_phase dep = nd_phase n" "rn_state dep \<noteq> DONE" "0 < rn_wave n" by (auto split: option.splits)
  from this(1,2) waves_respect_needs [OF this] show ?thesis by blast
qed

text \<open>A packet with some of its probes passing counts as in progress whatever it waits for: the oracle lists it as
  unblocked, and as a root cause that can be dispatched, although a packet it needs is missing and a decision that
  blocks it is not answered.\<close>

theorem partial_packet_ignores_its_blockers:
  "\<exists>n. map_of (resolveGraph demo_repo demo_graph) (js ''c'') = Some n \<and> rn_readiness n = IN_PROGRESS \<and>
     rn_blockedBy n = [js ''b'', js ''OD''] \<and> actionable (resolveGraph demo_repo demo_graph) (js ''c'')"
proof -
  have "case map_of (resolveGraph demo_repo demo_graph) (js ''c'') of None \<Rightarrow> False
     | Some n \<Rightarrow> rn_readiness n = IN_PROGRESS \<and> rn_blockedBy n = [js ''b'', js ''OD'']" by code_simp
  thus ?thesis by (auto simp: actionable_def split: option.splits)
qed

end
