(* ===== verification/Flow_Control.thy ===== *)
theory Flow_Control
  imports Delivery_Oracle
begin

text \<open>
  The control plane, \<^verbatim>\<open>scripts/flow.ts\<close>: from the resolved graph, the gate records and the checkpoint it
  derives the one next action of a delivery.  The steps printed for a reader are not modelled; a reason is a value of a
  datatype.  The lane decision is the injected function \<open>fi_decide\<close>; the number a segment id denotes and the agent
  files that exist are arguments.
\<close>

section \<open>Segments\<close>

record Segment =
  sg_id :: jstr
  sg_phase :: int
  sg_nodeIds :: "jstr list"

datatype SegmentError =
    OrderMissing | UnknownNode jstr jstr | TwoSegments jstr | EmptySegment jstr | NotAPhase jstr | OwnsNoNodes jstr
  | InNoSegment jstr

text \<open>The first loop, over the entries of \<^verbatim>\<open>graph.segments\<close>.\<close>

fun claim_ids :: "by_id \<Rightarrow> jstr \<Rightarrow> jstr list \<Rightarrow> (jstr \<times> jstr) list \<Rightarrow> SegmentError + (jstr \<times> jstr) list" where
  "claim_ids byId seg [] claimed = Inr claimed"
| "claim_ids byId seg (i # ids) claimed =
     (if map_of byId i = None then Inl (UnknownNode seg i)
      else if map_of claimed i \<noteq> None then Inl (TwoSegments i)
      else claim_ids byId seg ids (claimed @ [(i, seg)]))"

fun claim_segments :: "by_id \<Rightarrow> (jstr \<times> jstr list) list \<Rightarrow> (jstr \<times> jstr) list \<Rightarrow> SegmentError + (jstr \<times> jstr) list" where
  "claim_segments byId [] claimed = Inr claimed"
| "claim_segments byId ((seg, ids) # named) claimed =
     (case claim_ids byId seg ids claimed of Inl e \<Rightarrow> Inl e | Inr claimed' \<Rightarrow> claim_segments byId named claimed')"

text \<open>The body of the second loop: a named segment owns its list, a phase number owns the unclaimed packets of the phase.\<close>

definition order_segment :: "(jstr \<Rightarrow> int option) \<Rightarrow> by_id \<Rightarrow> (jstr \<times> jstr list) list \<Rightarrow> (jstr \<times> jstr) list \<Rightarrow> jstr \<Rightarrow>
    SegmentError + Segment" where
  "order_segment number byId named claimed seg =
     (case map_of named seg of
        Some ids \<Rightarrow>
          (case map_of byId (case ids of i # _ \<Rightarrow> i | [] \<Rightarrow> []) of
             None \<Rightarrow> Inl (EmptySegment seg)
           | Some n \<Rightarrow> Inr \<lparr>sg_id = seg, sg_phase = nd_phase n, sg_nodeIds = ids\<rparr>)
      | None \<Rightarrow>
          (case number seg of
             None \<Rightarrow> Inl (NotAPhase seg)
           | Some phase \<Rightarrow>
               (let nodeIds = js_sort js_compare (map nd_id (filter (\<lambda>n. nd_phase n = phase \<and> map_of claimed (nd_id n) = None)
                      (map snd byId)))
                in if nodeIds = [] then Inl (OwnsNoNodes seg)
                   else Inr \<lparr>sg_id = seg, sg_phase = phase, sg_nodeIds = nodeIds\<rparr>)))"

fun order_segments :: "(jstr \<Rightarrow> SegmentError + Segment) \<Rightarrow> jstr list \<Rightarrow> SegmentError + Segment list" where
  "order_segments f [] = Inr []"
| "order_segments f (seg # order) =
     (case f seg of
        Inl e \<Rightarrow> Inl e
      | Inr s \<Rightarrow> (case order_segments f order of Inl e \<Rightarrow> Inl e | Inr ss \<Rightarrow> Inr (s # ss)))"

definition segmentsOf :: "(jstr \<Rightarrow> int option) \<Rightarrow> Graph \<Rightarrow> by_id \<Rightarrow> SegmentError + Segment list" where
  "segmentsOf number graph byId =
     (let order = coalesce (gr_executionOrder graph) []; named = coalesce (gr_segments graph) []
      in if order = [] then Inl OrderMissing
         else case claim_segments byId named [] of
                Inl e \<Rightarrow> Inl e
              | Inr claimed \<Rightarrow>
                  (case order_segments (order_segment number byId named claimed) order of
                     Inl e \<Rightarrow> Inl e
                   | Inr out \<Rightarrow>
                       (let splitPhases = map sg_phase (filter (\<lambda>s. map_of named (sg_id s) \<noteq> None) out)
                        in case find (\<lambda>n. nd_phase n \<in> set splitPhases \<and> map_of claimed (nd_id n) = None) (map snd byId) of
                             Some n \<Rightarrow> Inl (InNoSegment (nd_id n))
                           | None \<Rightarrow> Inr out)))"

section \<open>Gate records\<close>

datatype GateKind = WaveGate | PhaseGate

record GateRecord =
  gt_gate :: GateKind
  gt_segment :: jstr
  gt_packets :: "jstr list"
  gt_evidence :: "jstr list"
  gt_head :: jstr
  gt_recordedAt :: jstr

datatype PacketRefusal = NoSuchNode jstr | NotDone jstr State

definition unrecordablePackets :: "jstr list \<Rightarrow> by_id \<Rightarrow> PacketRefusal list" where
  "unrecordablePackets packets byId = concat (map (\<lambda>i. case map_of byId i of
     None \<Rightarrow> [NoSuchNode i]
   | Some n \<Rightarrow> if rn_state n \<noteq> DONE then [NotDone i (rn_state n)] else []) packets)"

text \<open>Runs of other characters become one dash.  The second argument tells whether a run is being skipped.\<close>

definition alnum :: "jchar \<Rightarrow> bool" where
  "alnum c \<longleftrightarrow> 48 \<le> c \<and> c \<le> 57 \<or> 65 \<le> c \<and> c \<le> 90 \<or> 97 \<le> c \<and> c \<le> 122"

fun slug_from :: "bool \<Rightarrow> jstr \<Rightarrow> jstr" where
  "slug_from skipping [] = []"
| "slug_from skipping (c # s) =
     (if alnum c then c # slug_from False s else if skipping then slug_from True s else 45 # slug_from True s)"

definition slugify :: "jstr \<Rightarrow> jstr" where "slugify s = slug_from False s"

fun join_plus :: "jstr list \<Rightarrow> jstr" where
  "join_plus [] = []"
| "join_plus [x] = x"
| "join_plus (x # xs) = x @ js ''+'' @ join_plus xs"

definition gate_file :: "GateKind \<Rightarrow> jstr \<Rightarrow> jstr list \<Rightarrow> jstr" where
  "gate_file gate segment packets = (case gate of
     PhaseGate \<Rightarrow> js ''phase-'' @ slugify segment @ js ''.json''
   | WaveGate \<Rightarrow> js ''wave-'' @ slugify segment @ js ''-'' @ slugify (join_plus packets) @ js ''.json'')"

datatype RecordRefusal = BadUsage | MissingEvidence "jstr list" | Unrecordable "PacketRefusal list"

text \<open>\<^verbatim>\<open>pnpm flow record\<close>.  The directory of records maps file names to records; \<open>exists\<close> tells which evidence paths exist.\<close>

definition flow_record :: "(jstr \<Rightarrow> bool) \<Rightarrow> jstr \<Rightarrow> jstr \<Rightarrow> by_id \<Rightarrow> GateKind \<Rightarrow> jstr option \<Rightarrow> jstr list \<Rightarrow> jstr list \<Rightarrow>
    (jstr \<times> GateRecord) list \<Rightarrow> RecordRefusal + (jstr \<times> GateRecord) list" where
  "flow_record exists head now byId gate segment packets evidence gates =
     (case segment of
        None \<Rightarrow> Inl BadUsage
      | Some seg \<Rightarrow>
          if seg = [] \<or> evidence = [] \<or> gate = WaveGate \<and> packets = [] then Inl BadUsage
          else let missing = filter (\<lambda>e. \<not> exists e) evidence; unrecordable = unrecordablePackets packets byId
               in if missing \<noteq> [] then Inl (MissingEvidence missing)
                  else if gate = WaveGate \<and> unrecordable \<noteq> [] then Inl (Unrecordable unrecordable)
                  else let sorted = js_sort js_compare packets
                       in Inr (AList.update (gate_file gate seg sorted)
                            \<lparr>gt_gate = gate, gt_segment = seg, gt_packets = sorted, gt_evidence = evidence, gt_head = head,
                              gt_recordedAt = now\<rparr> gates))"

section \<open>Agents of a gate\<close>

record ClassLifecycle =
  cy_perPacket :: "jstr list"
  cy_perWave :: "jstr list"
  cy_perPhase :: "jstr list"
  cy_conditional :: "jstr list"

record Activation =
  ac_capabilities :: "(jstr \<times> jstr list) list"
  ac_classes :: "(jstr \<times> ClassLifecycle) list"

definition lifecycleOf :: "jstr \<Rightarrow> Activation \<Rightarrow> ClassLifecycle option" where
  "lifecycleOf changeClass activation = map_of (ac_classes activation) changeClass"

definition resolve_role :: "(jstr \<Rightarrow> bool) \<Rightarrow> Activation \<Rightarrow> jstr \<Rightarrow> jstr" where
  "resolve_role agentFile activation cap =
     coalesce (find agentFile (coalesce (map_of (ac_capabilities activation) cap) [cap])) (cap @ js '' (NO AGENT FILE)'')"

definition add_once :: "'a \<Rightarrow> 'a list \<Rightarrow> 'a list" where
  "add_once x xs = (if x \<in> set xs then xs else xs @ [x])"

definition resolveRoles :: "(jstr \<Rightarrow> bool) \<Rightarrow> jstr list \<Rightarrow> Activation \<Rightarrow> jstr list" where
  "resolveRoles agentFile capabilities activation =
     fold (\<lambda>cap out. add_once (resolve_role agentFile activation cap) out) capabilities []"

definition gateAgents :: "(jstr \<Rightarrow> bool) \<Rightarrow> Activation \<Rightarrow> Resolved list \<Rightarrow> (ClassLifecycle \<Rightarrow> jstr list) \<Rightarrow> jstr list" where
  "gateAgents agentFile activation nodes bucket =
     (let caps = fold add_once (concat (map (\<lambda>n. case nd_changeClass n of
            None \<Rightarrow> []
          | Some c \<Rightarrow> if c = [] then [] else (case lifecycleOf c activation of None \<Rightarrow> [] | Some rule \<Rightarrow> bucket rule)) nodes)) []
      in resolveRoles agentFile (js_sort js_compare caps) activation)"

section \<open>Dependencies\<close>

text \<open>\<^verbatim>\<open>dependsOn\<close> shares one visited set among its calls and returns it here.  The first argument bounds the depth; the
  number of packets is enough.\<close>

fun dependsOn :: "nat \<Rightarrow> by_id \<Rightarrow> jstr list \<Rightarrow> jstr \<Rightarrow> jstr list \<Rightarrow> (bool \<times> jstr list) option"
  and depends_loop :: "nat \<Rightarrow> by_id \<Rightarrow> jstr list \<Rightarrow> jstr list \<Rightarrow> jstr list \<Rightarrow> (bool \<times> jstr list) option" where
  "dependsOn 0 byId targets i seen = None"
| "dependsOn (Suc k) byId targets i seen =
     (if i \<in> set seen then Some (False, seen)
      else case map_of byId i of
             None \<Rightarrow> Some (False, i # seen)
           | Some n \<Rightarrow> depends_loop k byId targets (nd_needs n) (i # seen))"
| "depends_loop k byId targets [] seen = Some (False, seen)"
| "depends_loop k byId targets (d # ds) seen =
     (if d \<in> set targets then Some (True, seen)
      else case dependsOn k byId targets d seen of
             None \<Rightarrow> None
           | Some (True, seen') \<Rightarrow> Some (True, seen')
           | Some (False, seen') \<Rightarrow> depends_loop k byId targets ds seen')"

definition depends :: "by_id \<Rightarrow> jstr list \<Rightarrow> jstr \<Rightarrow> bool" where
  "depends byId targets i = (case dependsOn (Suc (length byId)) byId targets i [] of Some (b, _) \<Rightarrow> b | None \<Rightarrow> False)"

section \<open>The transition function\<close>

datatype FlowActionKind =
  FLOW_ERROR | FLOW_REPAIR | INTEGRATE | WAVE_GATE | DISPATCH | FLOW_BLOCKED | PHASE_GATE | ADVANCE_PHASE | COMPLETE

datatype DispatchMode = Sequential | Parallel

datatype FlowReason =
    BadConfig SegmentError | Recovering | EverySegmentDone | Waiting "(jstr \<times> jstr list) list" | SegmentDone jstr

record FlowAction =
  fa_action :: FlowActionKind
  fa_segment :: "jstr option"
  fa_phase :: "int option"
  fa_packets :: "jstr list option"
  fa_mode :: "DispatchMode option"
  fa_agents :: "jstr list option"
  fa_reason :: "FlowReason option"
  fa_from :: "jstr option"
  fa_to :: "jstr option"

definition flow_action :: "FlowActionKind \<Rightarrow> FlowAction" where
  "flow_action k = \<lparr>fa_action = k, fa_segment = None, fa_phase = None, fa_packets = None, fa_mode = None, fa_agents = None,
     fa_reason = None, fa_from = None, fa_to = None\<rparr>"

definition segment_action :: "FlowActionKind \<Rightarrow> Segment \<Rightarrow> FlowAction" where
  "segment_action k s = (flow_action k)\<lparr>fa_segment := Some (sg_id s), fa_phase := Some (sg_phase s)\<rparr>"

record FlowInputs =
  fi_byId :: by_id
  fi_records :: "GateRecord list"
  fi_step :: "jstr option"
  fi_checkpointSegment :: "jstr option"
  fi_integratable :: "jstr list"
  fi_segments :: "SegmentError + Segment list"
  fi_decide :: "jstr list \<Rightarrow> DispatchMode \<times> jstr list"
  fi_activation :: Activation
  fi_agentFile :: "jstr \<Rightarrow> bool"

definition seg_nodes :: "by_id \<Rightarrow> Segment \<Rightarrow> Resolved list" where
  "seg_nodes byId s = filter (\<lambda>n. \<not> nd_optional n) (List.map_filter (map_of byId) (sg_nodeIds s))"

definition outstanding_nodes :: "by_id \<Rightarrow> Segment \<Rightarrow> Resolved list" where
  "outstanding_nodes byId s = filter (\<lambda>n. rn_state n \<noteq> DONE) (seg_nodes byId s)"

definition laterWorkStarted :: "by_id \<Rightarrow> Segment list \<Rightarrow> nat \<Rightarrow> bool" where
  "laterWorkStarted byId segs i \<longleftrightarrow> list_ex (\<lambda>s. list_ex (\<lambda>n. rn_state n \<noteq> TODO) (seg_nodes byId s)) (drop (i + 1) segs)"

definition waveCoveredIn :: "GateRecord list \<Rightarrow> jstr \<Rightarrow> jstr list" where
  "waveCoveredIn records segment = concat (map gt_packets (filter (\<lambda>r. gt_gate r = WaveGate \<and> gt_segment r = segment) records))"

definition phase_gated :: "GateRecord list \<Rightarrow> jstr \<Rightarrow> bool" where
  "phase_gated records segment \<longleftrightarrow> list_ex (\<lambda>r. gt_gate r = PhaseGate \<and> gt_segment r = segment) records"

definition uncovered_nodes :: "by_id \<Rightarrow> GateRecord list \<Rightarrow> Segment \<Rightarrow> Resolved list" where
  "uncovered_nodes byId records s = filter (\<lambda>n. rn_state n = DONE \<and> nd_id n \<notin> set (waveCoveredIn records (sg_id s))) (seg_nodes byId s)"

text \<open>The condition of the selecting loop.\<close>

definition is_current :: "by_id \<Rightarrow> GateRecord list \<Rightarrow> Segment list \<Rightarrow> nat \<Rightarrow> Segment \<Rightarrow> bool" where
  "is_current byId records segs i s =
     (let owesGate = (\<not> phase_gated records (sg_id s) \<or> uncovered_nodes byId records s \<noteq> []);
          inRegime = list_ex (\<lambda>r. gt_segment r = sg_id s) records;
          closedByHistory = (\<not> inRegime \<and> laterWorkStarted byId segs i)
      in outstanding_nodes byId s \<noteq> [] \<or> owesGate \<and> \<not> closedByHistory)"

definition current_segment :: "by_id \<Rightarrow> GateRecord list \<Rightarrow> Segment list \<Rightarrow> (nat \<times> Segment) option" where
  "current_segment byId records segs = find (\<lambda>(i, s). is_current byId records segs i s) (List.enumerate 0 segs)"

fun findIndex :: "('a \<Rightarrow> bool) \<Rightarrow> 'a list \<Rightarrow> nat option" where
  "findIndex P [] = None"
| "findIndex P (x # xs) = (if P x then Some 0 else map_option Suc (findIndex P xs))"

definition advances :: "FlowInputs \<Rightarrow> Segment list \<Rightarrow> Segment \<Rightarrow> jstr option" where
  "advances inputs segs current =
     (case fi_checkpointSegment inputs of
        None \<Rightarrow> None
      | Some c \<Rightarrow>
          (case findIndex (\<lambda>s. sg_id s = c) segs of
             None \<Rightarrow> None
           | Some checkpointIndex \<Rightarrow>
               (case findIndex (\<lambda>s. sg_id s = sg_id current) segs of
                  None \<Rightarrow> None
                | Some currentIndex \<Rightarrow> if c \<noteq> sg_id current \<and> checkpointIndex < currentIndex then Some c else None)))"

definition sorted_ids :: "Resolved list \<Rightarrow> jstr list" where
  "sorted_ids ns = js_sort js_compare (map nd_id ns)"

text \<open>The actions inside the current segment, in the order the code considers them.\<close>

definition segment_step :: "FlowInputs \<Rightarrow> Segment \<Rightarrow> FlowAction" where
  "segment_step inputs current =
     (let byId = fi_byId inputs; records = fi_records inputs;
          segNodes = seg_nodes byId current;
          outstanding = outstanding_nodes byId current;
          uncovered = uncovered_nodes byId records current;
          toIntegrate = filter (\<lambda>n. nd_id n \<in> set (fi_integratable inputs)) segNodes;
          ready = filter (\<lambda>n. rn_readiness n = READY \<or> rn_readiness n = IN_PROGRESS) outstanding;
          dispatchable = filter (\<lambda>n. \<not> depends byId (map nd_id uncovered) (nd_id n)) ready
      in if toIntegrate \<noteq> [] then
           (segment_action INTEGRATE current)\<lparr>fa_packets := Some (snd (fi_decide inputs (sorted_ids toIntegrate)))\<rparr>
         else if dispatchable \<noteq> [] then
           (let decision = fi_decide inputs (sorted_ids dispatchable)
            in (segment_action DISPATCH current)\<lparr>fa_packets := Some (snd decision), fa_mode := Some (fst decision)\<rparr>)
         else if uncovered \<noteq> [] then
           (segment_action WAVE_GATE current)\<lparr>fa_packets := Some (sorted_ids uncovered),
             fa_agents := Some (gateAgents (fi_agentFile inputs) (fi_activation inputs) uncovered cy_perWave)\<rparr>
         else if outstanding \<noteq> [] then
           (segment_action FLOW_BLOCKED current)\<lparr>fa_reason := Some (Waiting (map (\<lambda>n. (nd_id n, rn_blockedBy n)) outstanding))\<rparr>
         else if \<not> phase_gated records (sg_id current) then
           (segment_action PHASE_GATE current)\<lparr>fa_agents :=
             Some (gateAgents (fi_agentFile inputs) (fi_activation inputs) segNodes cy_perPhase)\<rparr>
         else (flow_action COMPLETE)\<lparr>fa_reason := Some (SegmentDone (sg_id current))\<rparr>)"

definition transition :: "FlowInputs \<Rightarrow> FlowAction" where
  "transition inputs =
     (case fi_segments inputs of
        Inl e \<Rightarrow> (flow_action FLOW_ERROR)\<lparr>fa_reason := Some (BadConfig e)\<rparr>
      | Inr segs \<Rightarrow>
          if fi_step inputs = Some (js ''recovering'') then (flow_action FLOW_REPAIR)\<lparr>fa_reason := Some Recovering\<rparr>
          else case current_segment (fi_byId inputs) (fi_records inputs) segs of
                 None \<Rightarrow> (flow_action COMPLETE)\<lparr>fa_reason := Some EverySegmentDone\<rparr>
               | Some (i, current) \<Rightarrow>
                   (case advances inputs segs current of
                      Some from \<Rightarrow> (flow_action ADVANCE_PHASE)\<lparr>fa_from := Some from, fa_to := Some (sg_id current)\<rparr>
                    | None \<Rightarrow> segment_step inputs current))"

end
