(* ===== verification/Flow_Safe.thy ===== *)
theory Flow_Safe
  imports Flow_Control
begin

text \<open>
  What the control plane guarantees: dependencies are found exactly, no segment is left behind while it owes work or a
  gate, a packet is dispatched only if nothing it builds on is ungated, and recording a gate moves the delivery on.
\<close>

section \<open>Dependencies\<close>

definition needs_edge :: "by_id \<Rightarrow> jstr \<Rightarrow> jstr \<Rightarrow> bool" where
  "needs_edge byId x y \<longleftrightarrow> (\<exists>n. map_of byId x = Some n \<and> y \<in> set (nd_needs n))"

definition explored :: "by_id \<Rightarrow> jstr list \<Rightarrow> jstr list \<Rightarrow> jstr list \<Rightarrow> bool" where
  "explored byId targets seen seen' \<longleftrightarrow> set seen \<subseteq> set seen' \<and>
     (\<forall>v y. v \<in> set seen' \<and> v \<notin> set seen \<and> needs_edge byId v y \<longrightarrow> y \<in> set seen' \<and> y \<notin> set targets)"

lemma exploredD:
  "explored byId targets seen seen' \<Longrightarrow> set seen \<subseteq> set seen'"
  "explored byId targets seen seen' \<Longrightarrow> v \<in> set seen' \<Longrightarrow> v \<notin> set seen \<Longrightarrow> needs_edge byId v y \<Longrightarrow> y \<in> set seen' \<and> y \<notin> set targets"
  unfolding explored_def by blast+

lemma explored_trans:
  assumes "explored byId targets s s1" "explored byId targets s1 s2"
  shows "explored byId targets s s2"
  unfolding explored_def
proof (intro conjI allI impI)
  note d = exploredD(1) [OF assms(1)] exploredD(1) [OF assms(2)]
  show "set s \<subseteq> set s2" using d by (rule order_trans)
  fix v y
  assume v: "v \<in> set s2 \<and> v \<notin> set s \<and> needs_edge byId v y"
  show "y \<in> set s2" "y \<notin> set targets"
    using exploredD(2) [OF assms(1), of v y] exploredD(2) [OF assms(2), of v y] d(2) v by (cases "v \<in> set s1"; auto)+
qed

lemma dependsOn_false:
  "dependsOn k byId targets i seen = Some (False, seen') \<Longrightarrow> explored byId targets seen seen' \<and> i \<in> set seen'"
  "depends_loop k byId targets ds seen = Some (False, seen') \<Longrightarrow>
     explored byId targets seen seen' \<and> set ds \<subseteq> set seen' \<and> set ds \<inter> set targets = {}"
proof (induction k byId targets i seen and k byId targets ds seen arbitrary: seen' and seen' rule: dependsOn_depends_loop.induct)
  case (2 k byId targets i seen)
  show ?case
  proof (cases "i \<in> set seen \<or> map_of byId i = None")
    case True
    hence "seen' = seen \<and> i \<in> set seen \<or> seen' = i # seen \<and> map_of byId i = None" using 2(2) by (auto split: if_splits)
    thus ?thesis by (auto simp: explored_def needs_edge_def)
  next
    case False
    then obtain n where n: "map_of byId i = Some n" "i \<notin> set seen" by auto
    note ih = 2(1) [OF n(2,1)]
    have "depends_loop k byId targets (nd_needs n) (i # seen) = Some (False, seen')" using 2(2) n by simp
    note e = ih [OF this]
    have "y \<in> set seen' \<and> y \<notin> set targets" if "v \<in> set seen'" "v \<notin> set seen" "needs_edge byId v y" for v y
      using e exploredD(2) [OF conjunct1 [OF e], of v y] that n(1) by (cases "v = i") (auto simp: needs_edge_def)
    thus ?thesis using exploredD(1) [OF conjunct1 [OF e]] unfolding explored_def by auto
  qed
next
  case (3 k byId targets seen)
  thus ?case by (auto simp: explored_def)
next
  case (4 k byId targets d ds seen)
  obtain s1 where s1: "dependsOn k byId targets d seen = Some (False, s1)" "depends_loop k byId targets ds s1 = Some (False, seen')"
    "d \<notin> set targets"
    using 4(3) by (auto split: if_splits option.splits bool.splits)
  note a = 4(1) [OF s1(3,1)] and b = 4(2) [OF s1(3,1) refl _ s1(2)]
  show ?case using explored_trans [of byId targets seen s1 seen'] a b s1(3) exploredD(1) [of byId targets s1 seen'] by auto
qed simp

lemma dependsOn_true:
  "dependsOn k byId targets i seen = Some (True, seen') \<Longrightarrow> \<exists>t \<in> set targets. (needs_edge byId)\<^sup>+\<^sup>+ i t"
  "depends_loop k byId targets ds seen = Some (True, seen') \<Longrightarrow> \<exists>d \<in> set ds. \<exists>t \<in> set targets. (needs_edge byId)\<^sup>*\<^sup>* d t"
proof (induction k byId targets i seen and k byId targets ds seen arbitrary: seen' and seen' rule: dependsOn_depends_loop.induct)
  case (2 k byId targets i seen)
  then obtain n where n: "map_of byId i = Some n" "i \<notin> set seen" by (auto split: if_splits option.splits)
  hence "depends_loop k byId targets (nd_needs n) (i # seen) = Some (True, seen')" using 2(2) by simp
  from 2(1) [OF n(2,1) this] obtain d t where d: "d \<in> set (nd_needs n)" "t \<in> set targets" "(needs_edge byId)\<^sup>*\<^sup>* d t" by blast
  have "needs_edge byId i d" using d(1) n(1) by (auto simp: needs_edge_def)
  from rtranclp_into_tranclp2 [OF this d(3)] show ?case using d(2) by blast
next
  case (4 k byId targets d ds seen)
  show ?case
  proof (cases "d \<in> set targets")
    case False
    obtain b s1 where s0: "dependsOn k byId targets d seen = Some (b, s1)" using 4(3) False by (auto split: option.splits)
    hence s1: "dependsOn k byId targets d seen = Some (b, s1)" "b \<or> depends_loop k byId targets ds s1 = Some (True, seen')"
      using 4(3) False by (cases b; simp)+
    show ?thesis
    proof (cases b)
      case True
      hence "dependsOn k byId targets d seen = Some (True, s1)" using s1(1) by simp
      from 4(1) [OF False this] obtain t where t: "t \<in> set targets" "(needs_edge byId)\<^sup>+\<^sup>+ d t" by blast
      thus ?thesis using tranclp_into_rtranclp [OF t(2)] by auto
    next
      case False
      note b = False
      hence s1': "dependsOn k byId targets d seen = Some (False, s1)" "depends_loop k byId targets ds s1 = Some (True, seen')"
        using s1 by auto
      from 4(2) [OF \<open>d \<notin> set targets\<close> s1'(1) refl _ s1'(2)] show ?thesis by auto
    qed
  qed auto
qed simp_all

lemma dependsOn_total:
  "card (fst ` set byId - set seen) < k \<Longrightarrow> dependsOn k byId targets i seen \<noteq> None"
  "card (fst ` set byId - set seen) < k \<Longrightarrow> depends_loop k byId targets ds seen \<noteq> None"
proof (induction k byId targets i seen and k byId targets ds seen rule: dependsOn_depends_loop.induct)
  case (2 k byId targets i seen)
  have "card (fst ` set byId - set (i # seen)) < k" if "map_of byId i = Some n" "i \<notin> set seen" for n
    using card_unseen [OF that] 2(2) by simp
  thus ?case using 2(1) by (auto split: option.splits)
next
  case (4 k byId targets d ds seen)
  show ?case
  proof (cases "d \<in> set targets")
    case False
    then obtain b s1 where s1: "dependsOn k byId targets d seen = Some (b, s1)" using 4(1,3) by auto
    show ?thesis
    proof (cases b)
      case False
      hence "dependsOn k byId targets d seen = Some (False, s1)" using s1 by simp
      from exploredD(1) [OF conjunct1 [OF dependsOn_false(1) [OF this]]]
      have "fst ` set byId - set s1 \<subseteq> fst ` set byId - set seen" by auto
      hence "card (fst ` set byId - set s1) < k" using 4(3) by (meson card_mono finite_Diff finite_imageI finite_set le_less_trans)
      thus ?thesis using 4(2) [OF \<open>d \<notin> set targets\<close> s1 refl] s1 False \<open>d \<notin> set targets\<close> by simp
    qed (use s1 \<open>d \<notin> set targets\<close> in simp)
  qed simp
qed simp_all

lemma depends_search:
  "depends byId targets i \<longleftrightarrow> (\<exists>t \<in> set targets. (needs_edge byId)\<^sup>+\<^sup>+ i t)"
proof -
  have "card (fst ` set byId - set []) < Suc (length byId)" using card_length [of "map fst byId"] by simp
  from dependsOn_total(1) [OF this] obtain b s where r: "dependsOn (Suc (length byId)) byId targets i [] = Some (b, s)"
    by (metis not_None_eq prod.exhaust)
  show ?thesis
  proof (cases b)
    case True
    hence t: "dependsOn (Suc (length byId)) byId targets i [] = Some (True, s)" using r by (simp only:)
    show ?thesis using dependsOn_true(1) [OF t] unfolding depends_def t by simp
  next
    case False
    hence f: "dependsOn (Suc (length byId)) byId targets i [] = Some (False, s)" using r by (simp only:)
    note e = dependsOn_false(1) [OF f]
    have "y \<in> set s \<and> y \<notin> set targets" if "(needs_edge byId)\<^sup>+\<^sup>+ i y" for y
      using that by (induction rule: tranclp_induct) (use e exploredD(2) in auto)
    thus ?thesis unfolding depends_def r using False by auto
  qed
qed

text \<open>A packet counts as building on ungated work exactly if some chain of needs leads from it to a packet whose gate
  is missing; the search ends on every graph, also a circular one.\<close>

theorem depends_exact:
  "depends byId targets i \<longleftrightarrow> (\<exists>t \<in> set targets. (needs_edge byId)\<^sup>+\<^sup>+ i t)"
  by (rule depends_search)

section \<open>Segments that are settled\<close>

text \<open>The packets of a segment that count: those in the graph that are not optional.\<close>

definition counts :: "by_id \<Rightarrow> Segment \<Rightarrow> Resolved \<Rightarrow> bool" where
  "counts byId s n \<longleftrightarrow> (\<exists>i \<in> set (sg_nodeIds s). map_of byId i = Some n) \<and> \<not> nd_optional n"

definition delivered :: "by_id \<Rightarrow> Segment \<Rightarrow> bool" where
  "delivered byId s \<longleftrightarrow> (\<forall>n. counts byId s n \<longrightarrow> rn_state n = DONE)"

definition wave_recorded :: "GateRecord list \<Rightarrow> Segment \<Rightarrow> jstr \<Rightarrow> bool" where
  "wave_recorded records s i \<longleftrightarrow> (\<exists>r \<in> set records. gt_gate r = WaveGate \<and> gt_segment r = sg_id s \<and> i \<in> set (gt_packets r))"

definition phase_recorded :: "GateRecord list \<Rightarrow> Segment \<Rightarrow> bool" where
  "phase_recorded records s \<longleftrightarrow> (\<exists>r \<in> set records. gt_gate r = PhaseGate \<and> gt_segment r = sg_id s)"

definition gated :: "by_id \<Rightarrow> GateRecord list \<Rightarrow> Segment \<Rightarrow> bool" where
  "gated byId records s \<longleftrightarrow> phase_recorded records s \<and>
     (\<forall>n. counts byId s n \<and> rn_state n = DONE \<longrightarrow> wave_recorded records s (nd_id n))"

text \<open>A segment that has no record at all is closed by history once work on a later segment has started.\<close>

definition closed_by_history :: "by_id \<Rightarrow> GateRecord list \<Rightarrow> Segment list \<Rightarrow> nat \<Rightarrow> bool" where
  "closed_by_history byId records segs k \<longleftrightarrow> (\<forall>r \<in> set records. gt_segment r \<noteq> sg_id (segs ! k)) \<and>
     (\<exists>j n. k < j \<and> j < length segs \<and> counts byId (segs ! j) n \<and> rn_state n \<noteq> TODO)"

definition settled :: "by_id \<Rightarrow> GateRecord list \<Rightarrow> Segment list \<Rightarrow> nat \<Rightarrow> bool" where
  "settled byId records segs k \<longleftrightarrow> delivered byId (segs ! k) \<and>
     (gated byId records (segs ! k) \<or> closed_by_history byId records segs k)"

lemma set_seg_nodes: "n \<in> set (seg_nodes byId s) \<longleftrightarrow> counts byId s n"
  by (force simp: seg_nodes_def counts_def List.map_filter_def)

lemma outstanding_Nil: "outstanding_nodes byId s = [] \<longleftrightarrow> delivered byId s"
  by (auto simp: outstanding_nodes_def filter_empty_conv set_seg_nodes delivered_def)

lemma covered_iff: "i \<in> set (waveCoveredIn records (sg_id s)) \<longleftrightarrow> wave_recorded records s i"
  by (auto simp: waveCoveredIn_def wave_recorded_def)

lemma set_uncovered:
  "n \<in> set (uncovered_nodes byId records s) \<longleftrightarrow> counts byId s n \<and> rn_state n = DONE \<and> \<not> wave_recorded records s (nd_id n)"
  by (auto simp: uncovered_nodes_def set_seg_nodes covered_iff)

lemma phase_gated_iff: "phase_gated records (sg_id s) \<longleftrightarrow> phase_recorded records s"
  by (auto simp: phase_gated_def phase_recorded_def list_ex_iff)

lemma gated_iff: "gated byId records s \<longleftrightarrow> phase_gated records (sg_id s) \<and> uncovered_nodes byId records s = []"
  unfolding gated_def phase_gated_iff using set_uncovered [of _ byId records s]
  by (metis empty_iff list.set(1) list.set_intros(1) neq_Nil_conv)

lemma later_iff: "laterWorkStarted byId segs k \<longleftrightarrow> (\<exists>j n. k < j \<and> j < length segs \<and> counts byId (segs ! j) n \<and> rn_state n \<noteq> TODO)"
proof -
  have "s \<in> set (drop (k + 1) segs) \<longleftrightarrow> (\<exists>j. k < j \<and> j < length segs \<and> s = segs ! j)" for s
  proof
    assume "s \<in> set (drop (k + 1) segs)"
    then obtain m where "m < length segs - (k + 1)" "s = segs ! (k + 1 + m)" by (auto simp: in_set_conv_nth)
    thus "\<exists>j. k < j \<and> j < length segs \<and> s = segs ! j" by (intro exI [of _ "k + 1 + m"]) simp
  next
    assume "\<exists>j. k < j \<and> j < length segs \<and> s = segs ! j"
    then obtain j where "k < j" "j < length segs" "s = segs ! j" by blast
    hence "drop (k + 1) segs ! (j - (k + 1)) = s" "j - (k + 1) < length (drop (k + 1) segs)" by auto
    thus "s \<in> set (drop (k + 1) segs)" by (metis nth_mem)
  qed
  note drop_iff = this
  show ?thesis unfolding laterWorkStarted_def list_ex_iff Bex_def set_seg_nodes drop_iff by blast
qed

lemma is_current_iff: "is_current byId records segs k (segs ! k) \<longleftrightarrow> \<not> settled byId records segs k"
  unfolding is_current_def settled_def closed_by_history_def Let_def outstanding_Nil later_iff gated_iff list_ex_iff by blast


lemma find_first: "find P xs = Some x \<longleftrightarrow> (\<exists>k < length xs. x = xs ! k \<and> P x \<and> (\<forall>j < k. \<not> P (xs ! j)))"
  by (auto simp: find_Some_iff)

lemma current_segment_Some:
  assumes "current_segment byId records segs = Some (k, s)"
  shows "k < length segs" "s = segs ! k" "\<not> settled byId records segs k" "\<forall>j < k. settled byId records segs j"
  using assms unfolding current_segment_def find_first
  by (auto simp: nth_enumerate_eq is_current_iff)

section \<open>Nothing is left behind\<close>

lemma segment_step_fields:
  "fa_to (segment_step inputs s) = None"
  "fa_segment (segment_step inputs s) = Some t \<Longrightarrow> t = sg_id s"
  "fa_action (segment_step inputs s) \<noteq> ADVANCE_PHASE"
  "fa_action (segment_step inputs s) = COMPLETE \<Longrightarrow> delivered (fi_byId inputs) s \<and> gated (fi_byId inputs) (fi_records inputs) s"
  "fa_action (segment_step inputs s) = PHASE_GATE \<Longrightarrow> delivered (fi_byId inputs) s \<and>
     \<not> phase_recorded (fi_records inputs) s \<and> uncovered_nodes (fi_byId inputs) (fi_records inputs) s = []"
  "fa_action (segment_step inputs s) = WAVE_GATE \<Longrightarrow> uncovered_nodes (fi_byId inputs) (fi_records inputs) s \<noteq> [] \<and>
     fa_packets (segment_step inputs s) = Some (sorted_ids (uncovered_nodes (fi_byId inputs) (fi_records inputs) s))"
  by (simp_all add: segment_step_def Let_def segment_action_def flow_action_def outstanding_Nil gated_iff phase_gated_iff split: if_splits)

lemma segment_step_segment:
  "fa_action (segment_step inputs s) \<noteq> COMPLETE \<Longrightarrow> fa_segment (segment_step inputs s) = Some (sg_id s)"
  by (auto simp: segment_step_def Let_def segment_action_def flow_action_def split: if_splits)



lemma transition_cases:
  assumes "fi_segments inputs = Inr segs" "fi_step inputs \<noteq> Some (js ''recovering'')"
  shows "current_segment (fi_byId inputs) (fi_records inputs) segs = None \<and>
      transition inputs = (flow_action COMPLETE)\<lparr>fa_reason := Some EverySegmentDone\<rparr> \<or>
    (\<exists>k c. current_segment (fi_byId inputs) (fi_records inputs) segs = Some (k, segs ! k) \<and> advances inputs segs (segs ! k) = Some c \<and>
      transition inputs = (flow_action ADVANCE_PHASE)\<lparr>fa_from := Some c, fa_to := Some (sg_id (segs ! k))\<rparr>) \<or>
    (\<exists>k. current_segment (fi_byId inputs) (fi_records inputs) segs = Some (k, segs ! k) \<and> transition inputs = segment_step inputs (segs ! k))"
proof (cases "current_segment (fi_byId inputs) (fi_records inputs) segs")
  case None
  thus ?thesis using assms by (simp add: transition_def)
next
  case (Some ks)
  then obtain k where k: "ks = (k, segs ! k)" using current_segment_Some(2) by (metis prod.exhaust)
  show ?thesis using assms Some unfolding k by (cases "advances inputs segs (segs ! k)") (simp_all add: transition_def)
qed


section \<open>Dispatch\<close>

text \<open>The lane decision orders the packets it is asked about.\<close>

definition orders_packets :: "(jstr list \<Rightarrow> DispatchMode \<times> jstr list) \<Rightarrow> bool" where
  "orders_packets decide \<longleftrightarrow> (\<forall>ids. mset (snd (decide ids)) = mset ids)"

lemma mset_js_sort_compare: "mset (js_sort js_compare xs) = mset xs"
proof -
  have "orders_by js_compare (\<lambda>x. x)" by (auto simp: orders_by_def js_compare_def)
  thus ?thesis using js_sort_key [of js_compare "\<lambda>x. x"] by simp
qed

lemma set_js_sort_compare: "set (js_sort js_compare xs) = set xs"
  by (rule mset_eq_setD [OF mset_js_sort_compare])

lemma set_sorted_ids: "set (sorted_ids ns) = nd_id ` set ns"
  by (simp add: sorted_ids_def set_js_sort_compare)

lemma ordered_set: "orders_packets decide \<Longrightarrow> set (snd (decide ids)) = set ids"
  unfolding orders_packets_def by (metis mset_eq_setD)

text \<open>C21. A packet is dispatched only if it can be worked on: it belongs to the current segment, is not done, is ready or
  in progress, and no chain of needs leads from it to a finished packet of the segment that no wave gate covers.\<close>

theorem dispatch_builds_on_gated_work:
  assumes "keyed (fi_byId inputs)" "orders_packets (fi_decide inputs)" "fa_action (transition inputs) = DISPATCH"
    "fa_packets (transition inputs) = Some packets" "p \<in> set packets"
  shows "\<exists>segs s n. fi_segments inputs = Inr segs \<and> s \<in> set segs \<and> fa_segment (transition inputs) = Some (sg_id s) \<and>
    p \<in> set (sg_nodeIds s) \<and> map_of (fi_byId inputs) p = Some n \<and> rn_state n \<noteq> DONE \<and> rn_readiness n \<in> {READY, IN_PROGRESS} \<and>
    (\<forall>m. counts (fi_byId inputs) s m \<and> rn_state m = DONE \<and> (needs_edge (fi_byId inputs))\<^sup>+\<^sup>+ p (nd_id m) \<longrightarrow>
       wave_recorded (fi_records inputs) s (nd_id m))"
proof -
  let ?b = "fi_byId inputs" and ?r = "fi_records inputs"
  obtain segs where segs: "fi_segments inputs = Inr segs" "fi_step inputs \<noteq> Some (js ''recovering'')"
    using assms(3) by (auto simp: transition_def flow_action_def split: sum.splits if_splits)
  obtain k where k: "current_segment ?b ?r segs = Some (k, segs ! k)" "transition inputs = segment_step inputs (segs ! k)"
    using transition_cases [OF segs] assms(3) by (auto simp: flow_action_def)
  let ?s = "segs ! k"
  let ?ready = "filter (\<lambda>n. rn_readiness n = READY \<or> rn_readiness n = IN_PROGRESS) (outstanding_nodes ?b ?s)"
  let ?d = "filter (\<lambda>n. \<not> depends ?b (map nd_id (uncovered_nodes ?b ?r ?s)) (nd_id n)) ?ready"
  have a: "packets = snd (fi_decide inputs (sorted_ids ?d))" "fa_segment (transition inputs) = Some (sg_id ?s)"
    using assms(3,4) segment_step_segment [of inputs ?s] unfolding k(2)
    by (auto simp: segment_step_def Let_def segment_action_def flow_action_def split: if_splits)
  then obtain n where n: "n \<in> set ?d" "p = nd_id n" using assms(5) ordered_set [OF assms(2)] set_sorted_ids by auto
  hence c: "counts ?b ?s n" "rn_state n \<noteq> DONE" "rn_readiness n \<in> {READY, IN_PROGRESS}"
    by (auto simp: outstanding_nodes_def set_seg_nodes)
  then obtain i where "i \<in> set (sg_nodeIds ?s)" "map_of ?b i = Some n" by (auto simp: counts_def)
  moreover from this have "i = p" using keyed_id [OF assms(1)] n(2) by simp
  moreover have "\<forall>m. counts ?b ?s m \<and> rn_state m = DONE \<and> (needs_edge ?b)\<^sup>+\<^sup>+ p (nd_id m) \<longrightarrow> wave_recorded ?r ?s (nd_id m)"
    using n by (auto simp: depends_search set_uncovered)
  ultimately show ?thesis using segs(1) a(2) c(2,3) current_segment_Some(1) [OF k(1)]
    by (intro exI [of _ segs] exI [of _ ?s] exI [of _ n]) auto
qed

section \<open>Recording a gate\<close>

lemma unrecordable_Nil: "unrecordablePackets packets byId = [] \<longleftrightarrow> (\<forall>p \<in> set packets. \<exists>n. map_of byId p = Some n \<and> rn_state n = DONE)"
  by (auto simp: unrecordablePackets_def split: option.splits if_splits)

lemma flow_record_ok:
  assumes "flow_record exists head now byId gate segment packets evidence gates = Inr gates'"
  obtains seg r where "segment = Some seg" "gates' = AList.update (gate_file gate seg (js_sort js_compare packets)) r gates"
    "gt_gate r = gate" "gt_segment r = seg" "set (gt_packets r) = set packets"
    "evidence \<noteq> []" "\<forall>e \<in> set evidence. exists e" "gate = WaveGate \<longrightarrow> unrecordablePackets packets byId = []"
proof -
  obtain seg where s: "segment = Some seg" using assms by (auto simp: flow_record_def split: option.splits)
  let ?r = "\<lparr>gt_gate = gate, gt_segment = seg, gt_packets = js_sort js_compare packets, gt_evidence = evidence, gt_head = head,
     gt_recordedAt = now\<rparr>"
  have g: "gates' = AList.update (gate_file gate seg (js_sort js_compare packets)) ?r gates" "evidence \<noteq> []" "\<forall>e \<in> set evidence. exists e"
    "gate = WaveGate \<longrightarrow> unrecordablePackets packets byId = []"
    using assms s by (auto simp: flow_record_def Let_def filter_empty_conv split: if_splits)
  thus thesis using that [OF s g(1)] by (simp add: set_js_sort_compare)
qed

text \<open>The command as it is called later, by any process and over any packets; a refused call leaves the records as they are.\<close>

record GateCall =
  gc_exists :: "jstr \<Rightarrow> bool"
  gc_head :: jstr
  gc_now :: jstr
  gc_byId :: by_id
  gc_gate :: GateKind
  gc_segment :: "jstr option"
  gc_packets :: "jstr list"
  gc_evidence :: "jstr list"

definition record_later :: "GateCall \<Rightarrow> (jstr \<times> GateRecord) list \<Rightarrow> (jstr \<times> GateRecord) list" where
  "record_later c gates =
     (case flow_record (gc_exists c) (gc_head c) (gc_now c) (gc_byId c) (gc_gate c) (gc_segment c) (gc_packets c) (gc_evidence c) gates of
        Inl _ \<Rightarrow> gates | Inr gates' \<Rightarrow> gates')"

text \<open>Records are files, named by a slug: other packets, or another segment, can have the same name, because a slug joins
  packets by the dash that also stands inside of ids.\<close>

definition same_slug :: "GateKind \<Rightarrow> jstr \<Rightarrow> jstr list \<Rightarrow> GateCall \<Rightarrow> bool" where
  "same_slug gate seg packets c \<longleftrightarrow> gc_gate c = gate \<and> (\<exists>s. gc_segment c = Some s \<and> (case gate of
     PhaseGate \<Rightarrow> slugify s = slugify seg
   | WaveGate \<Rightarrow> slugify s @ js ''-'' @ slugify (join_plus (js_sort js_compare (gc_packets c))) =
                 slugify seg @ js ''-'' @ slugify (join_plus (js_sort js_compare packets))))"

text \<open>A later call that takes the same name is about the same gate: the same segment, and for a wave at least these packets.\<close>

definition respects_record :: "GateKind \<Rightarrow> jstr \<Rightarrow> jstr list \<Rightarrow> GateCall \<Rightarrow> bool" where
  "respects_record gate seg packets c \<longleftrightarrow> (same_slug gate seg packets c \<longrightarrow>
     gc_segment c = Some seg \<and> (gate = WaveGate \<longrightarrow> set packets \<subseteq> set (gc_packets c)))"

definition on_record :: "GateKind \<Rightarrow> jstr \<Rightarrow> jstr list \<Rightarrow> (jstr \<times> GateRecord) list \<Rightarrow> bool" where
  "on_record gate seg packets gates \<longleftrightarrow> (\<exists>r. map_of gates (gate_file gate seg (js_sort js_compare packets)) = Some r \<and>
     gt_gate r = gate \<and> gt_segment r = seg \<and> (gate = WaveGate \<longrightarrow> set packets \<subseteq> set (gt_packets r)))"

lemma same_file_same_slug:
  assumes "gate_file (gc_gate c) s (js_sort js_compare (gc_packets c)) = gate_file gate seg (js_sort js_compare packets)" "gc_segment c = Some s"
  shows "same_slug gate seg packets c"
  using assms by (cases gate; cases "gc_gate c") (simp_all add: same_slug_def gate_file_def js_unfold)

lemma record_later_keeps:
  assumes "on_record gate seg packets gates" "respects_record gate seg packets c"
  shows "on_record gate seg packets (record_later c gates)"
proof (cases "flow_record (gc_exists c) (gc_head c) (gc_now c) (gc_byId c) (gc_gate c) (gc_segment c) (gc_packets c) (gc_evidence c) gates")
  case (Inr gates')
  let ?name = "gate_file gate seg (js_sort js_compare packets)"
  obtain s r where r: "gc_segment c = Some s" "gates' = AList.update (gate_file (gc_gate c) s (js_sort js_compare (gc_packets c))) r gates"
    "gt_gate r = gc_gate c" "gt_segment r = s" "set (gt_packets r) = set (gc_packets c)"
    by (rule flow_record_ok [OF Inr])
  have l: "record_later c gates = gates'" by (simp add: record_later_def Inr)
  show ?thesis
  proof (cases "gate_file (gc_gate c) s (js_sort js_compare (gc_packets c)) = ?name")
    case True
    note slug = same_file_same_slug [OF this r(1)]
    hence "gc_gate c = gate" by (simp add: same_slug_def)
    thus ?thesis using slug assms(2) r True unfolding l by (auto simp: on_record_def respects_record_def update_conv')
  next
    case False
    thus ?thesis using assms(1) r(2) unfolding l by (auto simp: on_record_def update_conv')
  qed
qed (use assms(1) in \<open>simp add: record_later_def\<close>)

lemma records_keep:
  "on_record gate seg packets gates \<Longrightarrow> \<forall>c \<in> set later. respects_record gate seg packets c \<Longrightarrow>
     on_record gate seg packets (fold record_later later gates)"
  by (induction later arbitrary: gates) (simp_all add: record_later_keeps)

text \<open>C22. Recording a gate moves the delivery on, and only proof can be recorded: a record is written only with evidence
  that exists and, for a wave, over packets that are done.  Afterwards, however many gates are recorded later, and whatever
  else has happened, no wave gate is asked for that contains one of these packets, and no phase gate of a recorded phase,
  as long as no record of another gate takes the same slug.\<close>

theorem recorded_gate_is_not_asked_again:
  assumes "flow_record exists head now byId gate (Some seg) packets evidence gates = Inr gates'"
    "\<forall>c \<in> set later. respects_record gate seg packets c"
    "fi_records inputs = map snd (fold record_later later gates')" "fa_segment (transition inputs) = Some seg"
  shows "(gate = WaveGate \<longrightarrow> (\<forall>p \<in> set packets. \<exists>n. map_of byId p = Some n \<and> rn_state n = DONE)) \<and>
    evidence \<noteq> [] \<and> (\<forall>e \<in> set evidence. exists e) \<and>
    (gate = WaveGate \<and> fa_action (transition inputs) = WAVE_GATE \<longrightarrow>
       (\<exists>asked. fa_packets (transition inputs) = Some asked \<and> set asked \<inter> set packets = {})) \<and>
    (gate = PhaseGate \<longrightarrow> fa_action (transition inputs) \<noteq> PHASE_GATE)"
proof -
  obtain r0 where r0: "gates' = AList.update (gate_file gate seg (js_sort js_compare packets)) r0 gates"
    "gt_gate r0 = gate" "gt_segment r0 = seg" "set (gt_packets r0) = set packets"
    and ev: "evidence \<noteq> []" "\<forall>e \<in> set evidence. exists e" and un: "gate = WaveGate \<longrightarrow> unrecordablePackets packets byId = []"
    by (rule flow_record_ok [OF assms(1)]) simp
  have "on_record gate seg packets gates'" using r0 by (simp add: on_record_def update_conv')
  from records_keep [OF this assms(2)] obtain r where "map_of (fold record_later later gates') (gate_file gate seg (js_sort js_compare packets)) = Some r"
    and g: "gt_gate r = gate" "gt_segment r = seg" "gate = WaveGate \<longrightarrow> set packets \<subseteq> set (gt_packets r)"
    unfolding on_record_def by blast
  from map_of_SomeD [OF this(1)] have r: "r \<in> set (fi_records inputs)" unfolding assms(3) by force
  obtain segs where segs: "fi_segments inputs = Inr segs" "fi_step inputs \<noteq> Some (js ''recovering'')"
    using assms(4) by (auto simp: transition_def flow_action_def split: sum.splits if_splits)
  obtain k where k: "transition inputs = segment_step inputs (segs ! k)"
    using transition_cases [OF segs] assms(4) by (auto simp: flow_action_def)
  note f = segment_step_fields [of inputs "segs ! k"]
  have s: "sg_id (segs ! k) = seg" using f(2) assms(4) k by simp
  have w: "set asked \<inter> set packets = {}" if "gate = WaveGate" "asked = sorted_ids (uncovered_nodes (fi_byId inputs) (fi_records inputs) (segs ! k))"
    for asked
  proof -
    have "wave_recorded (fi_records inputs) (segs ! k) p" if "p \<in> set packets" for p
      unfolding wave_recorded_def using r g s that \<open>gate = WaveGate\<close> by (intro bexI [of _ r]) auto
    thus ?thesis unfolding that(2) set_sorted_ids using set_uncovered by blast
  qed
  have p: "phase_recorded (fi_records inputs) (segs ! k)" if "gate = PhaseGate" using that r g s by (auto simp: phase_recorded_def)
  show ?thesis
  proof (intro conjI impI)
    show "evidence \<noteq> []" "\<forall>e \<in> set evidence. exists e" by (fact ev)+
    show "\<forall>p \<in> set packets. \<exists>n. map_of byId p = Some n \<and> rn_state n = DONE" if "gate = WaveGate"
      using un that by (simp add: unrecordable_Nil)
    show "\<exists>asked. fa_packets (transition inputs) = Some asked \<and> set asked \<inter> set packets = {}"
      if "gate = WaveGate \<and> fa_action (transition inputs) = WAVE_GATE"
      using f(6) that w unfolding k by (intro exI conjI) (blast, simp)
    show "fa_action (transition inputs) \<noteq> PHASE_GATE" if "gate = PhaseGate" using f(5) p [OF that] unfolding k by blast
  qed
qed

text \<open>The condition on later records is needed: the wave of \<open>a\<close> and \<open>b\<close> and the wave of one packet \<open>a-b\<close> are written to
  one file, so the later record erases the earlier one, and \<open>a\<close> and \<open>b\<close> are no longer covered.\<close>

definition dashed_node :: "jstr \<Rightarrow> Resolved" where
  "dashed_node i = Node.extend (demo_node i [] []) \<lparr>rn_state = DONE, rn_hits = 0, rn_blockedBy = [], rn_readiness = READY,
     rn_depth = 0, rn_wave = 1\<rparr>"

definition wave_call :: "jstr list \<Rightarrow> GateCall" where
  "wave_call packets = \<lparr>gc_exists = (\<lambda>_. True), gc_head = [], gc_now = [],
     gc_byId = map (\<lambda>i. (i, dashed_node i)) [js ''a'', js ''b'', js ''a-b''], gc_gate = WaveGate, gc_segment = Some (js ''1''),
     gc_packets = packets, gc_evidence = [js ''e'']\<rparr>"

lemma colliding_wave_erases_a_record:
  "map (gt_packets \<circ> snd) (record_later (wave_call [js ''a'', js ''b'']) []) = [[js ''a'', js ''b'']] \<and>
   map (gt_packets \<circ> snd) (fold record_later [wave_call [js ''a'', js ''b''], wave_call [js ''a-b'']] []) = [[js ''a-b'']]"
  by code_simp

section \<open>Segments partition the plan\<close>












definition split_node :: "jstr \<Rightarrow> Resolved" where
  "split_node i = Node.extend (demo_node i [] []) \<lparr>rn_state = TODO, rn_hits = 0, rn_blockedBy = [], rn_readiness = READY,
     rn_depth = 0, rn_wave = 1\<rparr>"

definition split_plan :: by_id where
  "split_plan = [(js ''a'', split_node (js ''a'')), (js ''b'', split_node (js ''b''))]"

definition split_graph :: Graph where
  "split_graph = demo_graph\<lparr>gr_executionOrder := Some [js ''1a''], gr_segments := Some [(js ''1a'', [js ''a'']), (js ''1b'', [js ''b''])]\<rparr>"

text \<open>Packets can fall out of the plan unnoticed: a packet of a split phase whose named segment is missing from the
  execution order is in no segment, and no error is reported, although the source promises one.\<close>

theorem packet_lost_without_an_error:
  "\<exists>segs. segmentsOf (\<lambda>_. None) split_graph split_plan = Inr segs \<and> map_of split_plan (js ''b'') \<noteq> None \<and>
     (\<forall>s \<in> set segs. js ''b'' \<notin> set (sg_nodeIds s)) \<and> (\<exists>s \<in> set segs. sg_phase s = 1) \<and> nd_phase (split_node (js ''b'')) = 1"
proof -
  have "segmentsOf (\<lambda>_. None) split_graph split_plan = Inr [\<lparr>sg_id = js ''1a'', sg_phase = 1, sg_nodeIds = [js ''a'']\<rparr>]"
    by (simp add: segmentsOf_def split_graph_def demo_graph_def split_plan_def split_node_def order_segment_def demo_node_def Node.defs)
  thus ?thesis by (simp add: split_plan_def split_node_def demo_node_def Node.defs)
qed

section \<open>A small delivery\<close>

text \<open>One phase with the packets of the small plan: \<open>a\<close> is done, \<open>b\<close> is ready.\<close>

definition small_records :: "GateRecord list" where
  "small_records = [\<lparr>gt_gate = WaveGate, gt_segment = js ''1'', gt_packets = [js ''a''], gt_evidence = [js ''e''], gt_head = [], gt_recordedAt = []\<rparr>]"

definition small_inputs :: "GateRecord list \<Rightarrow> FlowInputs" where
  "small_inputs records = \<lparr>fi_byId = resolveGraph demo_repo demo_graph, fi_records = records, fi_step = None, fi_checkpointSegment = None,
     fi_integratable = [], fi_segments = segmentsOf (\<lambda>s. if s = js ''1'' then Some 1 else None) demo_graph (resolveGraph demo_repo demo_graph),
     fi_decide = (\<lambda>ids. (Sequential, ids)), fi_activation = \<lparr>ac_capabilities = [], ac_classes = []\<rparr>, fi_agentFile = (\<lambda>_. True)\<rparr>"


lemma small_dispatch: "fa_action (transition (small_inputs small_records)) = DISPATCH \<and>
    fa_packets (transition (small_inputs small_records)) = Some [js ''b'', js ''c''] \<and> fa_segment (transition (small_inputs small_records)) = Some (js ''1'')"
  by code_simp

lemma resolveGraph_keyed: "keyed (resolveGraph repo g)"
  unfolding resolveGraph_alt set_waves_def Let_def by (rule keyed_map [OF resolved_nodes_keyed]) simp


theorem dispatch_builds_on_gated_work_witness:
  "\<exists>n. map_of (fi_byId (small_inputs small_records)) (js ''b'') = Some n \<and> rn_state n \<noteq> DONE"
proof -
  have "keyed (fi_byId (small_inputs small_records))" "orders_packets (fi_decide (small_inputs small_records))"
    by (simp_all add: small_inputs_def resolveGraph_keyed orders_packets_def)
  from dispatch_builds_on_gated_work [OF this, of "[js ''b'', js ''c'']" "js ''b''"] small_dispatch show ?thesis by auto
qed

theorem recorded_gate_is_not_asked_again_witness:
  "\<exists>gates. flow_record (\<lambda>_. True) [] [] (resolveGraph demo_repo demo_graph) WaveGate (Some (js ''1'')) [js ''a''] [js ''e''] [] = Inr gates \<and>
     map snd gates = small_records \<and>
     (\<forall>p \<in> set [js ''a'']. \<exists>n. map_of (resolveGraph demo_repo demo_graph) p = Some n \<and> rn_state n = DONE)"
proof -
  have un: "unrecordablePackets [js ''a''] (resolveGraph demo_repo demo_graph) = []" by code_simp
  let ?gates = "[(gate_file WaveGate (js ''1'') [js ''a''], small_records ! 0)]"
  have r: "flow_record (\<lambda>_. True) [] [] (resolveGraph demo_repo demo_graph) WaveGate (Some (js ''1'')) [js ''a''] [js ''e''] [] = Inr ?gates"
    using un by (simp add: flow_record_def js_sort_def small_records_def js_unfold Let_def)
  let ?again = "wave_call [js ''a'']"
  have later: "record_later ?again ?gates = ?gates" by code_simp
  have "\<forall>c \<in> set [?again]. respects_record WaveGate (js ''1'') [js ''a''] c" by (simp add: respects_record_def wave_call_def)
  moreover have "fi_records (small_inputs small_records) = map snd (fold record_later [?again] ?gates)" "fa_segment (transition (small_inputs small_records)) = Some (js ''1'')"
    using small_dispatch later by (simp_all add: small_inputs_def small_records_def)
  ultimately show ?thesis using recorded_gate_is_not_asked_again [OF r, of "[?again]" "small_inputs small_records"] r by (auto simp: small_records_def)
qed


end
