(* ===== verification/Autopilot_Policy.thy ===== *)
theory Autopilot_Policy
  imports Flow_Control Json_Text
begin

text \<open>
  The rules the supervisor of a delivery run obeys (\<^verbatim>\<open>progression.ts\<close>, \<^verbatim>\<open>repair-policy.ts\<close> and the permission
  posture of \<^verbatim>\<open>worker.ts\<close> under \<^verbatim>\<open>scripts/autopilot\<close>): when a gate may be recorded, how many repairs a run gets, and
  under which permissions its workers run.
\<close>

section \<open>The progression rule\<close>

datatype SourceVerdict = GREEN | RED | UNKNOWN

text \<open>\<^verbatim>\<open>derivedFrom\<close> is text for a reader; its type is left open.\<close>

record 'd Source =
  so_verdict :: SourceVerdict
  so_derivedFrom :: 'd
  so_evidence :: "jstr list"

datatype SourceName = Src_nodes | Src_gates | Src_definitionOfDone | Src_artifacts | Src_failureEvidence | Src_validation | Src_record

definition PHASE_SOURCES :: "SourceName list" where
  "PHASE_SOURCES = [Src_nodes, Src_gates, Src_definitionOfDone, Src_artifacts, Src_failureEvidence]"

definition WAVE_SOURCES :: "SourceName list" where
  "WAVE_SOURCES = [Src_nodes, Src_gates, Src_validation, Src_failureEvidence]"

type_synonym 'd Sources = "SourceName \<Rightarrow> 'd Source option"

datatype 'd BlockerWhy = NeverMeasured | NoEvidencePath 'd | RedPer 'd | UnknownPer 'd | RecordExited "int option" jstr

record 'd Blocker =
  bl_source :: SourceName
  bl_verdict :: SourceVerdict
  bl_why :: "'d BlockerWhy"

datatype VerdictKind = ADVANCE_TO_NEXT | RECORD_WAVE | HOLD_PHASE | HOLD_WAVE

record 'd GateVerdict =
  ve_verdict :: VerdictKind
  ve_gate :: GateKind
  ve_green :: bool
  ve_blockers :: "'d Blocker list"
  ve_evidence :: "jstr list"

text \<open>One round of the loop: the blocker the source contributes, or its evidence.\<close>

fun judge_source :: "SourceName \<Rightarrow> 'd Source option \<Rightarrow> 'd Blocker + jstr list" where
  "judge_source name None = Inl \<lparr>bl_source = name, bl_verdict = UNKNOWN, bl_why = NeverMeasured\<rparr>"
| "judge_source name (Some s) =
     (case so_verdict s of
        GREEN \<Rightarrow> if so_evidence s = [] then Inl \<lparr>bl_source = name, bl_verdict = GREEN, bl_why = NoEvidencePath (so_derivedFrom s)\<rparr>
                 else Inr (so_evidence s)
      | RED \<Rightarrow> Inl \<lparr>bl_source = name, bl_verdict = RED, bl_why = RedPer (so_derivedFrom s)\<rparr>
      | UNKNOWN \<Rightarrow> Inl \<lparr>bl_source = name, bl_verdict = UNKNOWN, bl_why = UnknownPer (so_derivedFrom s)\<rparr>)"

fun judge_loop :: "'d Sources \<Rightarrow> SourceName list \<Rightarrow> 'd Blocker list \<Rightarrow> jstr list \<Rightarrow> 'd Blocker list \<times> jstr list" where
  "judge_loop sources [] blockers evidence = (blockers, evidence)"
| "judge_loop sources (name # names) blockers evidence =
     (case judge_source name (sources name) of
        Inl b \<Rightarrow> judge_loop sources names (blockers @ [b]) evidence
      | Inr e \<Rightarrow> judge_loop sources names blockers (evidence @ e))"

text \<open>\<^verbatim>\<open>[...new Set(xs)]\<close> keeps the first of equal elements.\<close>

fun dedup :: "'a list \<Rightarrow> 'a list" where
  "dedup [] = []"
| "dedup (x # xs) = x # filter (\<lambda>y. y \<noteq> x) (dedup xs)"

definition verdict_of :: "GateKind \<Rightarrow> bool \<Rightarrow> VerdictKind" where
  "verdict_of gate green = (if green then (if gate = PhaseGate then ADVANCE_TO_NEXT else RECORD_WAVE)
     else if gate = PhaseGate then HOLD_PHASE else HOLD_WAVE)"

definition judge :: "GateKind \<Rightarrow> SourceName list \<Rightarrow> 'd Sources \<Rightarrow> 'd GateVerdict" where
  "judge gate required sources =
     (let (blockers, evidence) = judge_loop sources required [] []; green = (blockers = [])
      in \<lparr>ve_verdict = verdict_of gate green, ve_gate = gate, ve_green = green, ve_blockers = blockers, ve_evidence = dedup evidence\<rparr>)"

definition phaseVerdict :: "'d Sources \<Rightarrow> 'd GateVerdict" where
  "phaseVerdict sources = judge PhaseGate PHASE_SOURCES sources"

definition waveVerdict :: "'d Sources \<Rightarrow> 'd GateVerdict" where
  "waveVerdict sources = judge WaveGate WAVE_SOURCES sources"

definition green_source :: "'d \<Rightarrow> jstr list \<Rightarrow> 'd Source" where
  "green_source d e = \<lparr>so_verdict = GREEN, so_derivedFrom = d, so_evidence = e\<rparr>"

definition red_source :: "'d \<Rightarrow> jstr list \<Rightarrow> 'd Source" where
  "red_source d e = \<lparr>so_verdict = RED, so_derivedFrom = d, so_evidence = e\<rparr>"

section \<open>The rule is exact\<close>

text \<open>A source passes when it was measured, is green and cites evidence.\<close>

definition proven :: "'d Sources \<Rightarrow> SourceName \<Rightarrow> bool" where
  "proven sources name \<longleftrightarrow> (\<exists>s. sources name = Some s \<and> so_verdict s = GREEN \<and> so_evidence s \<noteq> [])"

lemma judge_source_Inr:
  "(\<exists>e. judge_source name src = Inr e) \<longleftrightarrow> (\<exists>s. src = Some s \<and> so_verdict s = GREEN \<and> so_evidence s \<noteq> [])"
  "judge_source name (Some s) = Inr e \<Longrightarrow> e = so_evidence s"
  by (cases src; auto split: SourceVerdict.splits if_splits) (auto split: SourceVerdict.splits if_splits)

lemma set_dedup [simp]: "set (dedup xs) = set xs"
  by (induction xs) auto

lemma distinct_dedup [simp]: "distinct (dedup xs)"
  by (induction xs) auto

lemma judge_loop_blockers:
  "map bl_source (fst (judge_loop sources names bs ev)) = map bl_source bs @ filter (\<lambda>n. \<not> proven sources n) names"
proof (induction names arbitrary: bs ev)
  case (Cons n names)
  show ?case
  proof (cases "judge_source n (sources n)")
    case (Inl b)
    hence "\<not> proven sources n" using judge_source_Inr(1) [of n "sources n"] by (auto simp: proven_def)
    moreover have "bl_source b = n" using Inl by (cases "sources n") (auto split: SourceVerdict.splits if_splits)
    ultimately show ?thesis using Cons Inl by simp
  next
    case (Inr e)
    hence "proven sources n" using judge_source_Inr(1) [of n "sources n"] by (auto simp: proven_def)
    thus ?thesis using Cons Inr by simp
  qed
qed simp

lemma judge_loop_evidence:
  "set (snd (judge_loop sources names bs ev)) =
     set ev \<union> (\<Union>n \<in> {n \<in> set names. proven sources n}. set (so_evidence (the (sources n))))"
proof (induction names arbitrary: bs ev)
  case (Cons n names)
  show ?case
  proof (cases "judge_source n (sources n)")
    case (Inl b)
    hence "\<not> proven sources n" using judge_source_Inr(1) [of n "sources n"] by (auto simp: proven_def)
    hence "{m \<in> set (n # names). proven sources m} = {m \<in> set names. proven sources m}" by auto
    thus ?thesis using Cons Inl by simp
  next
    case (Inr e)
    hence p: "proven sources n" using judge_source_Inr(1) [of n "sources n"] by (auto simp: proven_def)
    then obtain s where "sources n = Some s" by (auto simp: proven_def)
    moreover from this have "e = so_evidence s" using Inr judge_source_Inr(2) [of n s e] by simp
    moreover have "{m \<in> set (n # names). proven sources m} = insert n {m \<in> set names. proven sources m}" using p by auto
    ultimately show ?thesis using Cons Inr by auto
  qed
qed simp

lemma judge_green: "ve_green (judge gate required sources) \<longleftrightarrow> (\<forall>n \<in> set required. proven sources n)"
proof -
  have "ve_green (judge gate required sources) \<longleftrightarrow> map bl_source (fst (judge_loop sources required [] [])) = []"
    by (simp add: judge_def case_prod_unfold Let_def)
  thus ?thesis by (simp add: judge_loop_blockers filter_empty_conv)
qed

lemma judge_blockers: "map bl_source (ve_blockers (judge gate required sources)) = filter (\<lambda>n. \<not> proven sources n) required"
  by (simp add: judge_def case_prod_unfold Let_def judge_loop_blockers)

lemma judge_evidence:
  "set (ve_evidence (judge gate required sources)) =
     (\<Union>n \<in> {n \<in> set required. proven sources n}. set (so_evidence (the (sources n))))"
  "distinct (ve_evidence (judge gate required sources))"
  by (simp_all add: judge_def case_prod_unfold Let_def judge_loop_evidence)

lemma judge_verdict: "ve_verdict (judge gate required sources) = verdict_of gate (ve_green (judge gate required sources))"
  by (simp add: judge_def case_prod_unfold Let_def)

text \<open>A gate is green exactly when every source the gate needs was measured, is green and cites evidence: a source
  that is red, unknown or missing, or green without evidence, holds the gate and is named as a blocker, and no other is.
  The record then points at all the evidence of the green sources, each path once.  A wave gate never asks for the
  Definition of Done, a phase gate always does.\<close>

theorem gate_is_green_iff_every_source_is_proven:
  "(ve_green (phaseVerdict sources) \<longleftrightarrow> (\<forall>n \<in> {Src_nodes, Src_gates, Src_definitionOfDone, Src_artifacts, Src_failureEvidence}. proven sources n)) \<and>
   (ve_green (waveVerdict sources) \<longleftrightarrow> (\<forall>n \<in> {Src_nodes, Src_gates, Src_validation, Src_failureEvidence}. proven sources n)) \<and>
   map bl_source (ve_blockers (phaseVerdict sources)) = filter (\<lambda>n. \<not> proven sources n) PHASE_SOURCES \<and>
   map bl_source (ve_blockers (waveVerdict sources)) = filter (\<lambda>n. \<not> proven sources n) WAVE_SOURCES \<and>
   (ve_verdict (phaseVerdict sources) = ADVANCE_TO_NEXT \<longleftrightarrow> ve_green (phaseVerdict sources)) \<and>
   (ve_verdict (waveVerdict sources) = RECORD_WAVE \<longleftrightarrow> ve_green (waveVerdict sources)) \<and>
   distinct (ve_evidence (phaseVerdict sources)) \<and>
   set (ve_evidence (phaseVerdict sources)) =
     (\<Union>n \<in> {n \<in> set PHASE_SOURCES. proven sources n}. set (so_evidence (the (sources n))))"
proof (intro conjI)
  show "ve_verdict (phaseVerdict sources) = ADVANCE_TO_NEXT \<longleftrightarrow> ve_green (phaseVerdict sources)"
    "ve_verdict (waveVerdict sources) = RECORD_WAVE \<longleftrightarrow> ve_green (waveVerdict sources)"
    by (simp_all add: phaseVerdict_def waveVerdict_def judge_verdict verdict_of_def)
qed (simp_all add: phaseVerdict_def waveVerdict_def judge_green judge_blockers judge_evidence PHASE_SOURCES_def WAVE_SOURCES_def)

theorem gate_is_green_iff_every_source_is_proven_witness:
  "ve_green (waveVerdict (\<lambda>n. if n = Src_record then None else Some (green_source () [js ''log'']))) \<and>
   \<not> ve_green (phaseVerdict (\<lambda>n. if n = Src_artifacts then None else Some (green_source () [js ''log''])))"
  using gate_is_green_iff_every_source_is_proven [of "\<lambda>n. if n = Src_record then None else Some (green_source () [js ''log''])"]
    gate_is_green_iff_every_source_is_proven [of "\<lambda>n. if n = Src_artifacts then None else Some (green_source () [js ''log''])"]
  by (simp add: proven_def green_source_def)

section \<open>How many repairs\<close>

definition STANDING_REPAIR_BOUND :: int where "STANDING_REPAIR_BOUND = 2"

definition STANDING_AUTHORITY :: jstr where
  "STANDING_AUTHORITY = js ''CLAUDE.md ## Plan discipline, trigger 5 (standing rule)''"

record RepairPolicy =
  rp_bound :: int
  rp_authority :: jstr
  rp_charter :: "jstr option"
  rp_overridden :: bool

text \<open>A number of the command line: an integer, or one that \<^verbatim>\<open>Number.isInteger\<close> refuses.\<close>

datatype JsNumber = Integer int | NotInteger jstr

datatype PolicyError = CharterWithoutBound | NotAWholeNumber JsNumber | WideningNeedsCharter int | NoSuchCharter jstr

definition standingPolicy :: RepairPolicy where
  "standingPolicy = \<lparr>rp_bound = STANDING_REPAIR_BOUND, rp_authority = STANDING_AUTHORITY, rp_charter = None, rp_overridden = False\<rparr>"

definition resolveRepairPolicy :: "(jstr \<Rightarrow> bool) \<Rightarrow> JsNumber option \<Rightarrow> jstr option \<Rightarrow> PolicyError + RepairPolicy" where
  "resolveRepairPolicy exists bound charter =
     (case bound of
        None \<Rightarrow> (case charter of Some _ \<Rightarrow> Inl CharterWithoutBound | None \<Rightarrow> Inr standingPolicy)
      | Some (NotInteger x) \<Rightarrow> Inl (NotAWholeNumber (NotInteger x))
      | Some (Integer b) \<Rightarrow>
          if b < 1 then Inl (NotAWholeNumber (Integer b))
          else if b < STANDING_REPAIR_BOUND then
            Inr \<lparr>rp_bound = b,
              rp_authority = STANDING_AUTHORITY @ js '', tightened to '' @ show_nat (nat b) @ js '' at the command line'',
              rp_charter = charter, rp_overridden = True\<rparr>
          else if b = STANDING_REPAIR_BOUND then Inr standingPolicy
          else case charter of
                 None \<Rightarrow> Inl (WideningNeedsCharter b)
               | Some c \<Rightarrow>
                   if \<not> exists c then Inl (NoSuchCharter c)
                   else Inr \<lparr>rp_bound = b,
                          rp_authority = c @ js '' (charter-scoped override of the standing bound of '' @
                            show_nat (nat STANDING_REPAIR_BOUND) @ js '')'',
                          rp_charter = Some c, rp_overridden = True\<rparr>)"

section \<open>Permissions of a worker\<close>

record PermissionPosture =
  pp_mode :: jstr
  pp_bypassed :: bool
  pp_explicit :: bool

definition DEFAULT_PERMISSION_MODE :: jstr where "DEFAULT_PERMISSION_MODE = js ''auto''"

definition SUPERVISED_PERMISSION_MODES :: "jstr list" where
  "SUPERVISED_PERMISSION_MODES = [js ''auto'', js ''acceptEdits'', js ''dontAsk'', js ''bypassPermissions'']"

text \<open>The argument is the environment variable \<^verbatim>\<open>AUTOPILOT_PERMISSION_MODE\<close>; an error carries its value.\<close>

definition resolvePermissionPosture :: "jstr option \<Rightarrow> jstr + PermissionPosture" where
  "resolvePermissionPosture raw =
     (case raw of
        None \<Rightarrow> Inr \<lparr>pp_mode = DEFAULT_PERMISSION_MODE, pp_bypassed = False, pp_explicit = False\<rparr>
      | Some r \<Rightarrow>
          if r = [] then Inr \<lparr>pp_mode = DEFAULT_PERMISSION_MODE, pp_bypassed = False, pp_explicit = False\<rparr>
          else if r \<notin> set SUPERVISED_PERMISSION_MODES then Inl r
          else Inr \<lparr>pp_mode = r, pp_bypassed = (r = js ''bypassPermissions''), pp_explicit = True\<rparr>)"

lemma resolved_policy_cases:
  assumes "resolveRepairPolicy exists bound charter = Inr p"
  shows "p = standingPolicy \<and> (bound = None \<and> charter = None \<or> bound = Some (Integer 2)) \<or>
     rp_bound p = 1 \<and> rp_overridden p \<and> bound = Some (Integer 1) \<and> rp_charter p = charter \<or>
     2 < rp_bound p \<and> rp_overridden p \<and> bound = Some (Integer (rp_bound p)) \<and> (\<exists>c. charter = Some c \<and> exists c \<and> rp_charter p = Some c)"
  using assms
  by (auto simp: resolveRepairPolicy_def STANDING_REPAIR_BOUND_def split: option.splits JsNumber.splits if_splits)

text \<open>The bounds of a run are never widened by accident.  A run that is given no flags has the standing bound of two
  repairs and workers under the default permissions.  A bound above two is accepted only with a decision record that
  exists, a bound of one needs none, and anything else is refused; every accepted bound other than two is marked as
  overridden.  Permissions are bypassed only when the environment names \<^verbatim>\<open>bypassPermissions\<close> exactly, and an
  unknown mode is refused.\<close>

theorem bounds_are_not_widened_by_accident:
  "resolveRepairPolicy exists None None = Inr standingPolicy \<and> rp_bound standingPolicy = 2 \<and>
   (resolveRepairPolicy exists bound charter = Inr p \<longrightarrow>
      1 \<le> rp_bound p \<and> (rp_overridden p \<longleftrightarrow> rp_bound p \<noteq> 2) \<and>
      (2 < rp_bound p \<longrightarrow> (\<exists>c. charter = Some c \<and> exists c \<and> rp_charter p = Some c) \<and> bound = Some (Integer (rp_bound p)))) \<and>
   ((\<exists>p. resolvePermissionPosture raw = Inr p \<and> pp_bypassed p) \<longleftrightarrow> raw = Some (js ''bypassPermissions'')) \<and>
   ((\<exists>r. resolvePermissionPosture raw = Inl r) \<longleftrightarrow> (\<exists>r. raw = Some r \<and> r \<noteq> [] \<and> r \<notin> set SUPERVISED_PERMISSION_MODES))"
proof (intro conjI)
  show "resolveRepairPolicy exists bound charter = Inr p \<longrightarrow>
      1 \<le> rp_bound p \<and> (rp_overridden p \<longleftrightarrow> rp_bound p \<noteq> 2) \<and>
      (2 < rp_bound p \<longrightarrow> (\<exists>c. charter = Some c \<and> exists c \<and> rp_charter p = Some c) \<and> bound = Some (Integer (rp_bound p)))"
    using resolved_policy_cases [of exists bound charter p] by (auto simp: standingPolicy_def STANDING_REPAIR_BOUND_def)
  show "(\<exists>p. resolvePermissionPosture raw = Inr p \<and> pp_bypassed p) \<longleftrightarrow> raw = Some (js ''bypassPermissions'')"
    by (auto simp: resolvePermissionPosture_def SUPERVISED_PERMISSION_MODES_def split: option.splits if_splits)
  show "(\<exists>r. resolvePermissionPosture raw = Inl r) \<longleftrightarrow> (\<exists>r. raw = Some r \<and> r \<noteq> [] \<and> r \<notin> set SUPERVISED_PERMISSION_MODES)"
    by (auto simp: resolvePermissionPosture_def split: option.splits if_splits)
qed (simp_all add: resolveRepairPolicy_def standingPolicy_def STANDING_REPAIR_BOUND_def)

theorem bounds_are_not_widened_by_accident_witness:
  "\<exists>p. resolveRepairPolicy (\<lambda>c. c = js ''docs/0011.md'') (Some (Integer 3)) (Some (js ''docs/0011.md'')) = Inr p \<and> rp_overridden p"
proof -
  obtain p where "resolveRepairPolicy (\<lambda>c. c = js ''docs/0011.md'') (Some (Integer 3)) (Some (js ''docs/0011.md'')) = Inr p \<and> rp_bound p = 3"
    by (simp add: resolveRepairPolicy_def STANDING_REPAIR_BOUND_def)
  thus ?thesis using bounds_are_not_widened_by_accident
    [of "\<lambda>c. c = js ''docs/0011.md''" "Some (Integer 3)" "Some (js ''docs/0011.md'')" p None] by auto
qed

end
