(* ===== verification/Js_Text.thy ===== *)
theory Js_Text
  imports Prelude
begin

text \<open>
  What the scripts use of JavaScript strings beyond their order: prefixes, search, white space, splitting into lines and
  joining.
\<close>

text \<open>What \<^verbatim>\<open>trim\<close> removes, and the line terminators that \<^verbatim>\<open>.\<close> of a regular expression does not match.\<close>

definition js_space :: "jchar \<Rightarrow> bool" where
  "js_space c \<longleftrightarrow> 9 \<le> c \<and> c \<le> 13 \<or>
     c \<in> set [32, 160, 0x1680, 0x2028, 0x2029, 0x202F, 0x205F, 0x3000, 0xFEFF] \<or> 0x2000 \<le> c \<and> c \<le> 0x200A"

definition js_newline :: "jchar \<Rightarrow> bool" where
  "js_newline c \<longleftrightarrow> c \<in> set [10, 13, 0x2028, 0x2029]"

definition js_trim :: "jstr \<Rightarrow> jstr" where
  "js_trim s = rev (dropWhile js_space (rev (dropWhile js_space s)))"

fun has_prefix :: "jstr \<Rightarrow> jstr \<Rightarrow> bool" where
  "has_prefix [] s = True"
| "has_prefix (p # ps) [] = False"
| "has_prefix (p # ps) (c # cs) = (p = c \<and> has_prefix ps cs)"

fun contains_text :: "jstr \<Rightarrow> jstr \<Rightarrow> bool" where
  "contains_text w [] = (w = [])"
| "contains_text w (c # cs) = (has_prefix w (c # cs) \<or> contains_text w cs)"

fun js_join :: "jstr \<Rightarrow> jstr list \<Rightarrow> jstr" where
  "js_join sep [] = []"
| "js_join sep [x] = x"
| "js_join sep (x # y # xs) = x @ sep @ js_join sep (y # xs)"

text \<open>\<^verbatim>\<open>split\<close> at line feeds.\<close>

fun js_lines :: "jstr \<Rightarrow> jstr list" where
  "js_lines [] = [[]]"
| "js_lines (c # cs) = (if c = 10 then [] # js_lines cs else case js_lines cs of l # ls \<Rightarrow> (c # l) # ls | [] \<Rightarrow> [[c]])"

lemma has_prefix_append: "has_prefix (p @ q) (p @ s) = has_prefix q s"
  by (induction p) auto

lemma has_prefix_self [simp]: "has_prefix p (p @ s)"
  by (induction p) auto

lemma has_prefix_iff: "has_prefix p s \<longleftrightarrow> (\<exists>t. s = p @ t)"
  by (induction p s rule: has_prefix.induct) auto

text \<open>Of two prefixes of the same text one is a prefix of the other.\<close>

lemma prefixes_of_one_text: "has_prefix p s \<Longrightarrow> has_prefix q s \<Longrightarrow> has_prefix p q \<or> has_prefix q p"
  by (force simp: has_prefix_iff append_eq_append_conv2)

lemma has_prefix_trans: "has_prefix p q \<Longrightarrow> has_prefix q s \<Longrightarrow> has_prefix p s"
  by (auto simp: has_prefix_iff)

lemma has_prefix_refl [simp]: "has_prefix p p"
  by (simp add: has_prefix_iff)

end
