(* ===== verification/Autopilot_State.thy ===== *)
theory Autopilot_State
  imports Autopilot_Policy Js_Date Js_Text
begin

text \<open>
  What a supervised run keeps on disk (\<^verbatim>\<open>scripts/autopilot/state.ts\<close>): the state file with its revision check, the
  buckets repairs are charged to, and the failures that bear on a gate.  Text written for a reader (details, reasons,
  options) is kept as the values it is made from.
\<close>

section \<open>The state\<close>

datatype NodeStatus = NODE_READY | NODE_RUNNING | NODE_REPAIR | NODE_DONE | NODE_BLOCKED

datatype WorkerOutcome = OUT_DONE | OUT_REPAIR_REQUIRED | OUT_BLOCKED | OUT_ROTATE | OUT_FAILED

record NodeRecord =
  nr_status :: NodeStatus
  nr_launches :: nat
  nr_lastWorkerId :: "jstr option"
  nr_lastSessionId :: "jstr option"
  nr_lastOutcome :: "WorkerOutcome option"
  nr_updatedAt :: jstr

datatype FailureKind = FAIL_gate | FAIL_worker | FAIL_invariant | FAIL_config | FAIL_no_progress

text \<open>How a source was measured, from which its text is made.\<close>

datatype Derivation = ByCommand jstr "int option" | ByFailures nat | ByWorker jstr WorkerOutcome | ByDocument jstr nat | ByEvidence "jstr list"

datatype FailureDetail = GateHeld GateKind "Derivation Blocker list" | WorkerFailed WorkerOutcome jstr | SameAction jstr nat

record BlockingFailure =
  bf_id :: jstr
  bf_kind :: FailureKind
  bf_segment :: "jstr option"
  bf_node :: "jstr option"
  bf_detail :: FailureDetail
  bf_evidence :: "jstr list"
  bf_at :: jstr
  bf_resolvedAt :: "jstr option"

datatype EscalationReason =
    RepairsSpent int FailureDetail | RotationsSpent int nat | BrokenGraph "FlowReason option" | NothingDispatchable "FlowReason option"
  | WorkerSays jstr | RunIsStuck jstr nat

datatype EscalationOptions = RepairOptions | GraphOptions | BlockedOptions | StuckOptions | WorkerOptions "jstr list"

record Escalation =
  es_trigger :: int
  es_segment :: "jstr option"
  es_node :: "jstr option"
  es_reason :: EscalationReason
  es_options :: EscalationOptions
  es_evidence :: "jstr list"
  es_at :: jstr
  es_resolvedAt :: "jstr option"
  es_resolution :: "jstr option"

record SupervisorState =
  ss_schemaVersion :: int
  ss_revision :: int
  ss_runId :: jstr
  ss_startedAt :: jstr
  ss_updatedAt :: jstr
  ss_nextAction :: "FlowActionKind option"
  ss_segment :: "jstr option"
  ss_phase :: "int option"
  ss_nodes :: "(jstr \<times> NodeRecord) list"
  ss_repairAttempts :: "(jstr \<times> int) list"
  ss_lastGreenCommit :: "jstr option"
  ss_blockingFailures :: "BlockingFailure list"
  ss_escalation :: "Escalation option"
  ss_stopRequested :: bool
  ss_repairBound :: "int option"
  ss_repairAuthority :: "jstr option"
  ss_permissionMode :: "jstr option"
  ss_permissionBypassed :: "bool option"

definition STATE_SCHEMA_VERSION :: int where "STATE_SCHEMA_VERSION = 1"

definition initialState :: "int \<Rightarrow> jstr \<Rightarrow> SupervisorState" where
  "initialState now runId =
     \<lparr>ss_schemaVersion = STATE_SCHEMA_VERSION, ss_revision = 0, ss_runId = runId, ss_startedAt = toISOString now,
       ss_updatedAt = toISOString now, ss_nextAction = None, ss_segment = None, ss_phase = None, ss_nodes = [],
       ss_repairAttempts = [], ss_lastGreenCommit = None, ss_blockingFailures = [], ss_escalation = None,
       ss_stopRequested = False, ss_repairBound = None, ss_repairAuthority = None, ss_permissionMode = None,
       ss_permissionBypassed = None\<rparr>"

section \<open>The state file\<close>

datatype StateFile = NoFile | BadJson | StateOnDisk SupervisorState

text \<open>What the supervisor throws; the last is reading a directory as a document.\<close>

datatype SupervisorError = CorruptState | WrongSchema int | StaleState int int | ReadsDirectory jstr

definition readState :: "StateFile \<Rightarrow> SupervisorError + SupervisorState option" where
  "readState file = (case file of
     NoFile \<Rightarrow> Inr None
   | BadJson \<Rightarrow> Inl CorruptState
   | StateOnDisk s \<Rightarrow> if ss_schemaVersion s \<noteq> STATE_SCHEMA_VERSION then Inl (WrongSchema (ss_schemaVersion s)) else Inr (Some s))"

definition loadOrInit :: "StateFile \<Rightarrow> int \<Rightarrow> jstr \<Rightarrow> SupervisorError + (SupervisorState \<times> StateFile)" where
  "loadOrInit file now runId = (case readState file of
     Inl e \<Rightarrow> Inl e
   | Inr (Some existing) \<Rightarrow> Inr (existing, file)
   | Inr None \<Rightarrow> let fresh = initialState now runId in Inr (fresh, StateOnDisk fresh))"

text \<open>A write is two accesses of the file, which another process can come between: the check against what is on disk, and
  the rename of the temporary file.\<close>

definition checkRevision :: "StateFile \<Rightarrow> SupervisorState \<Rightarrow> SupervisorError + unit" where
  "checkRevision file nextState = (case readState file of
     Inl e \<Rightarrow> Inl e
   | Inr None \<Rightarrow> Inr ()
   | Inr (Some onDisk) \<Rightarrow>
       if ss_revision onDisk \<noteq> ss_revision nextState then Inl (StaleState (ss_revision nextState) (ss_revision onDisk)) else Inr ())"

definition persisted :: "SupervisorState \<Rightarrow> int \<Rightarrow> SupervisorState" where
  "persisted nextState now = nextState\<lparr>ss_revision := ss_revision nextState + 1, ss_updatedAt := toISOString now\<rparr>"

text \<open>The two together, as a process that is alone sees them.\<close>

definition writeState :: "StateFile \<Rightarrow> SupervisorState \<Rightarrow> int \<Rightarrow> SupervisorError + (SupervisorState \<times> StateFile)" where
  "writeState file nextState now = (case checkRevision file nextState of
     Inl e \<Rightarrow> Inl e
   | Inr _ \<Rightarrow> Inr (persisted nextState now, StateOnDisk (persisted nextState now)))"

lemmas write_defs = writeState_def checkRevision_def readState_def persisted_def

section \<open>Buckets and failures\<close>

definition repairKey :: "jstr option \<Rightarrow> jstr option \<Rightarrow> jstr option \<Rightarrow> jstr" where
  "repairKey segment node scope =
     coalesce segment (js ''-'') @ js ''::'' @
     coalesce node (case scope of None \<Rightarrow> js ''gate'' | Some s \<Rightarrow> js ''gate:'' @ s)"

definition gateScope :: "GateKind \<Rightarrow> jstr list \<Rightarrow> jstr" where
  "gateScope kind packets = (case kind of
     PhaseGate \<Rightarrow> js ''phase''
   | WaveGate \<Rightarrow>
       (let named = js_sort js_compare (filter (\<lambda>p. list_ex (\<lambda>c. \<not> js_space c) p) packets)
        in if named = [] then js ''wave'' else js ''wave:'' @ join_plus named))"

definition unresolvedFailures :: "SupervisorState \<Rightarrow> BlockingFailure list" where
  "unresolvedFailures s = filter (\<lambda>f. bf_resolvedAt f = None) (ss_blockingFailures s)"

definition failuresBlockingGate :: "SupervisorState \<Rightarrow> jstr option \<Rightarrow> BlockingFailure list" where
  "failuresBlockingGate s segment = filter (\<lambda>f. \<not> (bf_kind f = FAIL_gate \<and> bf_segment f = segment)) (unresolvedFailures s)"

definition attempts :: "SupervisorState \<Rightarrow> jstr \<Rightarrow> int" where
  "attempts s key = coalesce (map_of (ss_repairAttempts s) key) 0"

section \<open>Processes that share the file\<close>

text \<open>The changes the code makes to a state before it writes it; none touches the revision or the schema version.\<close>

definition keeps_version :: "(SupervisorState \<Rightarrow> SupervisorState) \<Rightarrow> bool" where
  "keeps_version f \<longleftrightarrow> (\<forall>s. ss_revision (f s) = ss_revision s \<and> ss_schemaVersion (f s) = ss_schemaVersion s)"

text \<open>Where a process is: it holds the state it last loaded or wrote, it has found no file and will create one, it has opened
  the file to fill it, which empties it, or its check has passed and it will rename.\<close>

datatype StoreProcess =
    Holding SupervisorState | Creating SupervisorState | Filling SupervisorState | Renaming SupervisorState SupervisorState

record StateStore =
  st_file :: StateFile
  st_procs :: "nat \<Rightarrow> StoreProcess option"

text \<open>One access at a time.  A process may end at any point, also in the middle.\<close>

inductive store_step :: "StateStore \<Rightarrow> StateStore \<Rightarrow> bool" where
  reads_state: "st_procs st p = None \<Longrightarrow> readState (st_file st) = Inr (Some s) \<Longrightarrow>
    store_step st (st\<lparr>st_procs := (st_procs st)(p \<mapsto> Holding s)\<rparr>)"
| reads_nothing: "st_procs st p = None \<Longrightarrow> readState (st_file st) = Inr None \<Longrightarrow>
    store_step st (st\<lparr>st_procs := (st_procs st)(p \<mapsto> Creating (initialState now runId))\<rparr>)"
| opens: "st_procs st p = Some (Creating s) \<Longrightarrow>
    store_step st (st\<lparr>st_file := BadJson, st_procs := (st_procs st)(p \<mapsto> Filling s)\<rparr>)"
| fills: "st_procs st p = Some (Filling s) \<Longrightarrow>
    store_step st (st\<lparr>st_file := StateOnDisk s, st_procs := (st_procs st)(p \<mapsto> Holding s)\<rparr>)"
| checks: "st_procs st p = Some (Holding s) \<Longrightarrow> keeps_version f \<Longrightarrow> checkRevision (st_file st) (f s) = Inr u \<Longrightarrow>
    store_step st (st\<lparr>st_procs := (st_procs st)(p \<mapsto> Renaming s (persisted (f s) now))\<rparr>)"
| renames: "st_procs st p = Some (Renaming base s) \<Longrightarrow>
    store_step st (st\<lparr>st_file := StateOnDisk s, st_procs := (st_procs st)(p \<mapsto> Holding s)\<rparr>)"
| ends: "store_step st (st\<lparr>st_procs := (st_procs st)(p := None)\<rparr>)"

fun in_section :: "StoreProcess option \<Rightarrow> bool" where
  "in_section None = False"
| "in_section (Some (Holding s)) = False"
| "in_section (Some _) = True"

definition busy :: "StateStore \<Rightarrow> nat \<Rightarrow> bool" where
  "busy st p \<longleftrightarrow> in_section (st_procs st p)"

text \<open>No two processes are in the middle of a write at once.\<close>

definition apart_sections :: "StateStore \<Rightarrow> bool" where
  "apart_sections st \<longleftrightarrow> (\<forall>p q. busy st p \<and> busy st q \<longrightarrow> p = q)"

inductive store_alone :: "StateStore \<Rightarrow> bool" where
  store_start: "store_alone \<lparr>st_file = NoFile, st_procs = (\<lambda>_. None)\<rparr>"
| store_next: "store_alone st \<Longrightarrow> store_step st st' \<Longrightarrow> apart_sections st' \<Longrightarrow> store_alone st'"

definition proc_ok :: "StateFile \<Rightarrow> StoreProcess \<Rightarrow> bool" where
  "proc_ok file proc \<longleftrightarrow> (case proc of
     Holding s \<Rightarrow> (\<exists>disk. file = StateOnDisk disk \<and> ss_schemaVersion s = STATE_SCHEMA_VERSION \<and> ss_revision s \<le> ss_revision disk \<and>
       (ss_revision s = ss_revision disk \<longrightarrow> s = disk))
   | Creating s \<Rightarrow> file = NoFile \<and> ss_schemaVersion s = STATE_SCHEMA_VERSION
   | Filling s \<Rightarrow> file = BadJson \<and> ss_schemaVersion s = STATE_SCHEMA_VERSION
   | Renaming base s \<Rightarrow> file = StateOnDisk base \<and> ss_schemaVersion s = STATE_SCHEMA_VERSION \<and> ss_revision s = ss_revision base + 1 \<and>
       (\<exists>f now. keeps_version f \<and> s = persisted (f base) now))"

definition store_inv :: "StateStore \<Rightarrow> bool" where
  "store_inv st \<longleftrightarrow> (\<forall>disk. st_file st = StateOnDisk disk \<longrightarrow> ss_schemaVersion disk = STATE_SCHEMA_VERSION) \<and>
     (\<forall>p proc. st_procs st p = Some proc \<longrightarrow> proc_ok (st_file st) proc) \<and> apart_sections st"

lemma busy_upd [simp]: "busy (st\<lparr>st_procs := (st_procs st)(p := x)\<rparr>) q \<longleftrightarrow> (if q = p then in_section x else busy st q)"
  "busy (st\<lparr>st_file := file, st_procs := (st_procs st)(p := x)\<rparr>) q \<longleftrightarrow> (if q = p then in_section x else busy st q)"
  by (simp_all add: busy_def)

text \<open>A process that changes the file from within its section is alone in one, so the others hold states or are gone.\<close>

lemma store_inv_moves:
  assumes inv: "store_inv st" and p: "busy st p" and
    disk: "\<forall>disk. file = StateOnDisk disk \<longrightarrow> ss_schemaVersion disk = STATE_SCHEMA_VERSION" and
    new: "proc_ok file proc" and held: "\<forall>s. proc_ok (st_file st) (Holding s) \<longrightarrow> proc_ok file (Holding s)"
  shows "store_inv (st\<lparr>st_file := file, st_procs := (st_procs st)(p \<mapsto> proc)\<rparr>)"
proof -
  have a: "apart_sections st" and o: "\<And>q proc. st_procs st q = Some proc \<Longrightarrow> proc_ok (st_file st) proc" using inv by (auto simp: store_inv_def)
  have "proc_ok file x" if "st_procs st q = Some x" "q \<noteq> p" for q x
  proof -
    have "\<not> busy st q" using a p that(2) by (auto simp: apart_sections_def)
    hence "\<not> in_section (Some x)" using that(1) by (simp add: busy_def)
    then obtain s where "x = Holding s" by (cases x) auto
    thus ?thesis using held o [OF that(1)] by blast
  qed
  moreover have "apart_sections (st\<lparr>st_file := file, st_procs := (st_procs st)(p \<mapsto> proc)\<rparr>)" using a p by (auto simp: apart_sections_def)
  ultimately show ?thesis using disk new by (auto simp: store_inv_def)
qed

lemma store_inv_local:
  assumes "store_inv st" "\<forall>proc. x = Some proc \<longrightarrow> proc_ok (st_file st) proc"
    "apart_sections (st\<lparr>st_procs := (st_procs st)(p := x)\<rparr>)"
  shows "store_inv (st\<lparr>st_procs := (st_procs st)(p := x)\<rparr>)"
  using assms by (auto simp: store_inv_def)

lemma check_passes:
  assumes "file = StateOnDisk disk" "ss_schemaVersion disk = STATE_SCHEMA_VERSION"
  shows "checkRevision file s = (if ss_revision s = ss_revision disk then Inr () else Inl (StaleState (ss_revision s) (ss_revision disk)))"
  using assms by (auto simp: checkRevision_def readState_def)

lemma store_inv_step:
  assumes inv: "store_inv st" and step: "store_step st st'" and a: "apart_sections st'"
  shows "store_inv st'"
  using step
proof (cases rule: store_step.cases)
  case (reads_state p s)
  have "proc_ok (st_file st) (Holding s)" using reads_state(3) inv by (auto simp: proc_ok_def store_inv_def readState_def split: StateFile.splits if_splits)
  thus ?thesis using store_inv_local [OF inv, of "Some (Holding s)" p] a reads_state(1) by simp
next
  case (reads_nothing p now runId)
  have "proc_ok (st_file st) (Creating (initialState now runId))"
    using reads_nothing(3) by (auto simp: proc_ok_def readState_def initialState_def split: StateFile.splits if_splits)
  thus ?thesis using store_inv_local [OF inv, of "Some (Creating (initialState now runId))" p] a reads_nothing(1) by simp
next
  case (opens p s)
  have "proc_ok (st_file st) (Creating s)" using inv opens(2) by (auto simp: store_inv_def)
  thus ?thesis unfolding opens(1) using opens(2)
    by (intro store_inv_moves [OF inv]) (auto simp: busy_def proc_ok_def)
next
  case (fills p s)
  have "proc_ok (st_file st) (Filling s)" using inv fills(2) by (auto simp: store_inv_def)
  thus ?thesis unfolding fills(1) using fills(2)
    by (intro store_inv_moves [OF inv]) (auto simp: busy_def proc_ok_def)
next
  case (checks p s f u now)
  have h: "proc_ok (st_file st) (Holding s)" using inv checks(2) by (auto simp: store_inv_def)
  then obtain disk where d: "st_file st = StateOnDisk disk" by (auto simp: proc_ok_def)
  have v: "ss_schemaVersion disk = STATE_SCHEMA_VERSION" using inv d by (auto simp: store_inv_def)
  have k: "ss_revision (f s) = ss_revision s" "ss_schemaVersion (f s) = ss_schemaVersion s" using checks(3) by (auto simp: keeps_version_def)
  have "ss_revision s = ss_revision disk" using checks(4) check_passes [OF d v, of "f s"] k by (auto split: if_splits)
  hence "proc_ok (st_file st) (Renaming s (persisted (f s) now))" using h d k checks(3) unfolding proc_ok_def StoreProcess.case
    by (intro conjI exI [of _ f] exI [of _ now]) (auto simp: persisted_def)
  thus ?thesis using store_inv_local [OF inv, of "Some (Renaming s (persisted (f s) now))" p] a checks(1) by simp
next
  case (renames p base s)
  have r: "proc_ok (st_file st) (Renaming base s)" using inv renames(2) by (auto simp: store_inv_def)
  show ?thesis unfolding renames(1) using renames(2) r
    by (intro store_inv_moves [OF inv]) (auto simp: busy_def proc_ok_def)
next
  case (ends p)
  thus ?thesis using store_inv_local [OF inv, of None p] a by simp
qed

lemma store_inv_alone: "store_alone st \<Longrightarrow> store_inv st"
proof (induction rule: store_alone.induct)
  case (store_next st st')
  from store_inv_step [OF store_next.IH store_next.hyps(2,3)] show ?case .
qed (simp add: store_inv_def apart_sections_def busy_def)

text \<open>Two writes that overlap: both checks pass before the first rename, so both writes succeed and the file keeps only the second.\<close>

lemma overlapping_writes:
  assumes "p \<noteq> q" "st_procs st p = Some (Holding s)" "st_procs st q = Some (Holding s)" "st_file st = StateOnDisk s"
    "ss_schemaVersion s = STATE_SCHEMA_VERSION" "keeps_version f" "keeps_version g"
  shows "\<exists>st'. store_step\<^sup>*\<^sup>* st st' \<and> st_file st' = StateOnDisk (persisted (g s) u) \<and>
    st_procs st' p = Some (Holding (persisted (f s) t)) \<and> st_procs st' q = Some (Holding (persisted (g s) u))"
proof -
  have c: "checkRevision (StateOnDisk s) (h s) = Inr ()" if "keeps_version h" for h
  proof -
    have "ss_revision (h s) = ss_revision s" using that by (simp add: keeps_version_def)
    thus ?thesis using assms(5) by (simp add: checkRevision_def readState_def)
  qed
  define st1 where "st1 = st\<lparr>st_procs := (st_procs st)(p \<mapsto> Renaming s (persisted (f s) t))\<rparr>"
  define st2 where "st2 = st1\<lparr>st_procs := (st_procs st1)(q \<mapsto> Renaming s (persisted (g s) u))\<rparr>"
  define st3 where "st3 = st2\<lparr>st_file := StateOnDisk (persisted (f s) t), st_procs := (st_procs st2)(p \<mapsto> Holding (persisted (f s) t))\<rparr>"
  define st4 where "st4 = st3\<lparr>st_file := StateOnDisk (persisted (g s) u), st_procs := (st_procs st3)(q \<mapsto> Holding (persisted (g s) u))\<rparr>"
  have "checkRevision (st_file st) (f s) = Inr ()" unfolding assms(4) by (rule c [OF assms(6)])
  hence 1: "store_step st st1" unfolding st1_def by (rule store_step.checks [OF assms(2,6)])
  have h: "st_procs st1 q = Some (Holding s)" and "st_file st1 = StateOnDisk s" using assms(1,3,4) by (simp_all add: st1_def)
  hence "checkRevision (st_file st1) (g s) = Inr ()" using c [OF assms(7)] by (simp only:)
  hence 2: "store_step st1 st2" unfolding st2_def by (rule store_step.checks [OF h assms(7)])
  have "st_procs st2 p = Some (Renaming s (persisted (f s) t))" using assms(1) by (simp add: st2_def st1_def)
  hence 3: "store_step st2 st3" unfolding st3_def by (rule store_step.renames)
  have "st_procs st3 q = Some (Renaming s (persisted (g s) u))" using assms(1) by (simp add: st3_def st2_def)
  hence 4: "store_step st3 st4" unfolding st4_def by (rule store_step.renames)
  have "store_step\<^sup>*\<^sup>* st st4" using 1 2 3 4 by (meson rtranclp.rtrancl_into_rtrancl rtranclp.rtrancl_refl)
  moreover have "st_file st4 = StateOnDisk (persisted (g s) u)" "st_procs st4 p = Some (Holding (persisted (f s) t))"
    "st_procs st4 q = Some (Holding (persisted (g s) u))" using assms(1) by (simp_all add: st4_def st3_def)
  ultimately show ?thesis by (intro exI [of _ st4] conjI)
qed

text \<open>C34. Processes that share the state file do not lose an update unless two writes overlap.  As long as no two processes are
  between the check and the rename of a write, or creating the file, at once: a write succeeds exactly if the process
  still holds what is on disk, so that what it writes is a change of the newest state, one revision later, and the file
  reads back as what the process then holds; a write of an older state is refused; and at the rename the file is still
  what was checked.  Two processes that hold the newest state and whose writes overlap both succeed, and the file keeps
  one of the two updates.\<close>

theorem updates_are_lost_only_by_overlap:
  assumes "store_alone st"
  shows "(\<forall>p s f now. st_procs st p = Some (Holding s) \<and> keeps_version f \<and> (\<forall>q. \<not> busy st q) \<longrightarrow>
      (\<exists>disk. st_file st = StateOnDisk disk \<and>
        (case writeState (st_file st) (f s) now of
           Inr (s', file) \<Rightarrow> s = disk \<and> s' = (f disk)\<lparr>ss_revision := ss_revision disk + 1, ss_updatedAt := toISOString now\<rparr> \<and>
             (\<forall>later other. loadOrInit file later other = Inr (s', file))
         | Inl e \<Rightarrow> s \<noteq> disk \<and> ss_revision s < ss_revision disk \<and> e = StaleState (ss_revision s) (ss_revision disk)))) \<and>
    (\<forall>p base s. st_procs st p = Some (Renaming base s) \<longrightarrow> st_file st = StateOnDisk base \<and> ss_revision s = ss_revision base + 1) \<and>
    (\<forall>p q s f g t u. p \<noteq> q \<and> st_procs st p = Some (Holding s) \<and> st_procs st q = Some (Holding s) \<and> st_file st = StateOnDisk s \<and>
      keeps_version f \<and> keeps_version g \<longrightarrow>
      (\<exists>st'. store_step\<^sup>*\<^sup>* st st' \<and> st_file st' = StateOnDisk (persisted (g s) u) \<and>
         st_procs st' p = Some (Holding (persisted (f s) t)) \<and> ss_revision (persisted (f s) t) = ss_revision (persisted (g s) u)))"
proof (intro conjI allI impI)
  note inv = store_inv_alone [OF assms]
  have proc: "proc_ok (st_file st) x" if "st_procs st p = Some x" for p x using inv that by (auto simp: store_inv_def)
  have version: "ss_schemaVersion disk = STATE_SCHEMA_VERSION" if "st_file st = StateOnDisk disk" for disk
    using inv that by (auto simp: store_inv_def)
  fix p s f now
  assume h: "st_procs st p = Some (Holding s) \<and> keeps_version f \<and> (\<forall>q. \<not> busy st q)"
  then obtain disk where d: "st_file st = StateOnDisk disk" "ss_revision s \<le> ss_revision disk" "ss_revision s = ss_revision disk \<longrightarrow> s = disk"
    using proc by (fastforce simp: proc_ok_def)
  have k: "ss_revision (f x) = ss_revision x" "ss_schemaVersion (f x) = ss_schemaVersion x" for x using h by (auto simp: keeps_version_def)
  show "\<exists>disk. st_file st = StateOnDisk disk \<and>
      (case writeState (st_file st) (f s) now of
         Inr (s', file) \<Rightarrow> s = disk \<and> s' = (f disk)\<lparr>ss_revision := ss_revision disk + 1, ss_updatedAt := toISOString now\<rparr> \<and>
           (\<forall>later other. loadOrInit file later other = Inr (s', file))
       | Inl e \<Rightarrow> s \<noteq> disk \<and> ss_revision s < ss_revision disk \<and> e = StaleState (ss_revision s) (ss_revision disk))"
    using d k version [OF d(1)] check_passes [OF d(1) version [OF d(1)], of "f s"]
    by (auto simp: writeState_def persisted_def loadOrInit_def readState_def)
next
  fix p base s assume "st_procs st p = Some (Renaming base s)"
  hence "proc_ok (st_file st) (Renaming base s)" using store_inv_alone [OF assms] by (auto simp: store_inv_def)
  thus "st_file st = StateOnDisk base" "ss_revision s = ss_revision base + 1" by (auto simp: proc_ok_def)
next
  fix p q s f g t u
  assume h: "p \<noteq> q \<and> st_procs st p = Some (Holding s) \<and> st_procs st q = Some (Holding s) \<and> st_file st = StateOnDisk s \<and>
    keeps_version f \<and> keeps_version g"
  have "ss_schemaVersion s = STATE_SCHEMA_VERSION" using store_inv_alone [OF assms] h by (auto simp: store_inv_def)
  moreover have "ss_revision (persisted (f s) t) = ss_revision (persisted (g s) u)" using h by (simp add: persisted_def keeps_version_def)
  ultimately show "\<exists>st'. store_step\<^sup>*\<^sup>* st st' \<and> st_file st' = StateOnDisk (persisted (g s) u) \<and>
      st_procs st' p = Some (Holding (persisted (f s) t)) \<and> ss_revision (persisted (f s) t) = ss_revision (persisted (g s) u)"
    using overlapping_writes [of p q st s f g u t] h by auto
qed

text \<open>The file is created in place: a process that ends while it fills the new file leaves it unreadable, and no later run can load it.\<close>

lemma interrupted_creation:
  "\<exists>st. store_alone st \<and> (\<forall>p. st_procs st p = None) \<and> (\<forall>now runId. loadOrInit (st_file st) now runId = Inl CorruptState)"
proof -
  let ?s = "initialState 0 (js ''run'')"
  let ?st0 = "\<lparr>st_file = NoFile, st_procs = (\<lambda>_. None)\<rparr>"
  let ?st1 = "?st0\<lparr>st_procs := (st_procs ?st0)(0 \<mapsto> Creating ?s)\<rparr>"
  let ?st2 = "?st1\<lparr>st_file := BadJson, st_procs := (st_procs ?st1)(0 \<mapsto> Filling ?s)\<rparr>"
  let ?st3 = "?st2\<lparr>st_procs := (st_procs ?st2)(0 := None)\<rparr>"
  have "store_step ?st0 ?st1" using store_step.reads_nothing [of ?st0 0 0 "js ''run''"] by (simp add: readState_def)
  hence "store_alone ?st1" using store_next [OF store_start] by (auto simp: apart_sections_def busy_def split: if_splits)
  moreover have "store_step ?st1 ?st2" using store_step.opens [of ?st1 0 ?s] by simp
  ultimately have "store_alone ?st2" using store_next by (fastforce simp: apart_sections_def busy_def split: if_splits)
  moreover have "store_step ?st2 ?st3" by (rule store_step.ends)
  ultimately have "store_alone ?st3" using store_next by (fastforce simp: apart_sections_def busy_def split: if_splits)
  thus ?thesis by (intro exI [of _ ?st3]) (auto simp: loadOrInit_def readState_def)
qed

text \<open>Two processes that hold the first state.\<close>

lemma two_holders: "store_alone \<lparr>st_file = StateOnDisk (initialState 0 (js ''run'')),
    st_procs = (\<lambda>_. None)(0 \<mapsto> Holding (initialState 0 (js ''run'')), 1 \<mapsto> Holding (initialState 0 (js ''run'')))\<rparr>"
proof -
  let ?s = "initialState 0 (js ''run'')"
  let ?st0 = "\<lparr>st_file = NoFile, st_procs = (\<lambda>_. None)\<rparr>"
  let ?st1 = "?st0\<lparr>st_procs := (st_procs ?st0)(0 \<mapsto> Creating ?s)\<rparr>"
  let ?st2 = "?st1\<lparr>st_file := BadJson, st_procs := (st_procs ?st1)(0 \<mapsto> Filling ?s)\<rparr>"
  let ?st3 = "?st2\<lparr>st_file := StateOnDisk ?s, st_procs := (st_procs ?st2)(0 \<mapsto> Holding ?s)\<rparr>"
  let ?st4 = "?st3\<lparr>st_procs := (st_procs ?st3)(1 \<mapsto> Holding ?s)\<rparr>"
  have a: "apart_sections ?st1" "apart_sections ?st2" "apart_sections ?st3" "apart_sections ?st4"
    by (auto simp: apart_sections_def busy_def split: if_splits)
  have "store_step ?st0 ?st1" using store_step.reads_nothing [of ?st0 0 0 "js ''run''"] by (simp add: readState_def)
  from store_next [OF store_start this a(1)] have "store_alone ?st1" .
  moreover have "store_step ?st1 ?st2" using store_step.opens [of ?st1 0 ?s] by simp
  ultimately have "store_alone ?st2" using store_next a(2) by blast
  moreover have "store_step ?st2 ?st3" using store_step.fills [of ?st2 0 ?s] by simp
  ultimately have "store_alone ?st3" using store_next a(3) by blast
  moreover have "store_step ?st3 ?st4" using store_step.reads_state [of ?st3 1 ?s] by (simp add: readState_def initialState_def)
  ultimately have "store_alone ?st4" using store_next a(4) by blast
  thus ?thesis by (simp add: fun_upd_twist)
qed

theorem updates_are_lost_only_by_overlap_witness:
  "\<exists>st s st'. store_alone st \<and> st_procs st 0 = Some (Holding s) \<and> st_procs st 1 = Some (Holding s) \<and> s = initialState 0 (js ''run'') \<and>
     store_step\<^sup>*\<^sup>* st st' \<and> st_file st' = StateOnDisk (persisted s 2) \<and> st_procs st' 0 = Some (Holding (persisted (s\<lparr>ss_stopRequested := True\<rparr>) 1))"
proof -
  let ?s = "initialState 0 (js ''run'')"
  let ?st = "\<lparr>st_file = StateOnDisk ?s, st_procs = (\<lambda>_. None)(0 \<mapsto> Holding ?s, 1 \<mapsto> Holding ?s)\<rparr>"
  have "keeps_version (\<lambda>s. s)" "keeps_version (\<lambda>s. s\<lparr>ss_stopRequested := True\<rparr>)" by (simp_all add: keeps_version_def)
  hence "\<exists>st'. store_step\<^sup>*\<^sup>* ?st st' \<and> st_file st' = StateOnDisk (persisted ?s 2) \<and> st_procs st' 0 = Some (Holding (persisted (?s\<lparr>ss_stopRequested := True\<rparr>) 1)) \<and>
      ss_revision (persisted (?s\<lparr>ss_stopRequested := True\<rparr>) 1) = ss_revision (persisted ?s 2)"
    using conjunct2 [OF conjunct2 [OF updates_are_lost_only_by_overlap [OF two_holders]], rule_format, of 0 1 ?s "\<lambda>s. s\<lparr>ss_stopRequested := True\<rparr>" "\<lambda>s. s" 2 1] by simp
  then obtain st' where "store_step\<^sup>*\<^sup>* ?st st'" "st_file st' = StateOnDisk (persisted ?s 2)"
    "st_procs st' 0 = Some (Holding (persisted (?s\<lparr>ss_stopRequested := True\<rparr>) 1))" by blast
  thus ?thesis using two_holders by (intro exI [of _ ?st] exI [of _ ?s] exI [of _ st']) simp
qed

end
