(* ===== verification/Autopilot_Lease.thy ===== *)
theory Autopilot_Lease
  imports Js_Date "HOL-Library.AList"
begin

text \<open>
  Node ownership, \<^verbatim>\<open>scripts/autopilot/lease.ts\<close>: one file per node, created exclusively.  The directory maps
  names to files and a file keeps its content while a process has it open, also after the name is
  removed; so every access to the disk is one step of a small machine, and processes interleave between steps.
\<close>

section \<open>Leases and their files\<close>

record Lease =
  le_node :: jstr
  le_workerId :: jstr
  le_runId :: jstr
  le_pid :: int
  le_host :: jstr
  le_acquiredAt :: jstr
  le_expiresAt :: jstr

record LeaseHolder =
  lh_workerId :: jstr
  lh_runId :: jstr
  lh_pid :: int

text \<open>A file that holds no lease (it is empty, or broken) is \<^const>\<open>None\<close>.\<close>

record LeaseFs =
  lf_dir :: "(jstr \<times> nat) list"
  lf_data :: "(nat \<times> Lease option) list"
  lf_next :: nat

definition path_char :: "jchar \<Rightarrow> bool" where
  "path_char c \<longleftrightarrow> 48 \<le> c \<and> c \<le> 57 \<or> 65 \<le> c \<and> c \<le> 90 \<or> 97 \<le> c \<and> c \<le> 122 \<or> c = 46 \<or> c = 95 \<or> c = 45"

definition leasePath :: "jstr \<Rightarrow> jstr" where
  "leasePath node = map (\<lambda>c. if path_char c then c else 95) node @ js ''.json''"

definition create_exclusive :: "jstr \<Rightarrow> LeaseFs \<Rightarrow> (nat \<times> LeaseFs) option" where
  "create_exclusive path fs = (case map_of (lf_dir fs) path of
     Some _ \<Rightarrow> None
   | None \<Rightarrow> Some (lf_next fs, fs\<lparr>lf_dir := AList.update path (lf_next fs) (lf_dir fs),
       lf_data := AList.update (lf_next fs) None (lf_data fs), lf_next := lf_next fs + 1\<rparr>))"

definition write_file :: "nat \<Rightarrow> Lease \<Rightarrow> LeaseFs \<Rightarrow> LeaseFs" where
  "write_file fd lease fs = fs\<lparr>lf_data := AList.update fd (Some lease) (lf_data fs)\<rparr>"

definition remove_path :: "jstr \<Rightarrow> LeaseFs \<Rightarrow> LeaseFs" where
  "remove_path path fs = fs\<lparr>lf_dir := AList.delete path (lf_dir fs)\<rparr>"

definition unreadable_lease :: "jstr \<Rightarrow> Lease" where
  "unreadable_lease node = \<lparr>le_node = node, le_workerId = js ''unreadable'', le_runId = js ''unknown'', le_pid = -1,
     le_host = js ''unknown'', le_acquiredAt = toISOString 0, le_expiresAt = toISOString 0\<rparr>"

text \<open>The content behind a name, if the name exists.\<close>

definition lease_file :: "jstr \<Rightarrow> LeaseFs \<Rightarrow> Lease option option" where
  "lease_file path fs = (case map_of (lf_dir fs) path of
     None \<Rightarrow> None | Some fd \<Rightarrow> Some (coalesce (map_of (lf_data fs) fd) None))"

definition readLease :: "LeaseFs \<Rightarrow> jstr \<Rightarrow> Lease option" where
  "readLease fs node = (case lease_file (leasePath node) fs of
     None \<Rightarrow> None | Some content \<Rightarrow> Some (coalesce content (unreadable_lease node)))"

text \<open>\<open>kill\<close> tells for which process numbers signal 0 is delivered or not permitted.\<close>

definition isProcessAlive :: "(int \<Rightarrow> bool) \<Rightarrow> int \<Rightarrow> bool" where
  "isProcessAlive kill pid \<longleftrightarrow> 0 < pid \<and> kill pid"

definition DEFAULT_LEASE_TTL_MS :: int where "DEFAULT_LEASE_TTL_MS = 30 * 60000"

definition expired :: "Lease \<Rightarrow> int \<Rightarrow> bool" where
  "expired lease now = (case date_parse (le_expiresAt lease) of Some t \<Rightarrow> t \<le> now | None \<Rightarrow> False)"

section \<open>Taking a lease\<close>

record AcquireCall =
  ac_node :: jstr
  ac_holder :: LeaseHolder
  ac_host :: jstr
  ac_now :: int
  ac_ttlMs :: int

definition new_lease :: "AcquireCall \<Rightarrow> Lease" where
  "new_lease a = \<lparr>le_node = ac_node a, le_workerId = lh_workerId (ac_holder a), le_runId = lh_runId (ac_holder a),
     le_pid = lh_pid (ac_holder a), le_host = ac_host a, le_acquiredAt = toISOString (ac_now a),
     le_expiresAt = toISOString (ac_now a + ac_ttlMs a)\<rparr>"

datatype Refusal = HeldUntil | StillRunning | Vanished | ReclaimedFirst

datatype AcquireResult = Acquired Lease "Lease option" | Refused Lease Refusal

text \<open>Where a call is between two accesses to the disk.\<close>

datatype AcquirePc =
    TryCreate | Writing "Lease option" nat | LookingUp | ReadingFile | RetryCreate | Removing Lease | CreateAfter Lease
  | Returned AcquireResult

definition judge_held :: "(int \<Rightarrow> bool) \<Rightarrow> AcquireCall \<Rightarrow> Lease \<Rightarrow> AcquirePc" where
  "judge_held kill a held =
     (if \<not> expired held (ac_now a) then Returned (Refused held HeldUntil)
      else if isProcessAlive kill (le_pid held) then Returned (Refused held StillRunning)
      else Removing held)"

definition acquire_step :: "(int \<Rightarrow> bool) \<Rightarrow> AcquireCall \<Rightarrow> AcquirePc \<Rightarrow> LeaseFs \<Rightarrow> AcquirePc \<times> LeaseFs" where
  "acquire_step kill a pc fs =
     (let path = leasePath (ac_node a) in
      case pc of
        TryCreate \<Rightarrow> (case create_exclusive path fs of Some (fd, fs') \<Rightarrow> (Writing None fd, fs') | None \<Rightarrow> (LookingUp, fs))
      | Writing stole fd \<Rightarrow> (Returned (Acquired (new_lease a) stole), write_file fd (new_lease a) fs)
      | LookingUp \<Rightarrow> (if lease_file path fs = None then RetryCreate else ReadingFile, fs)
      | ReadingFile \<Rightarrow>
          (judge_held kill a (coalesce (coalesce (lease_file path fs) None) (unreadable_lease (ac_node a))), fs)
      | RetryCreate \<Rightarrow>
          (case create_exclusive path fs of
             Some (fd, fs') \<Rightarrow> (Writing None fd, fs')
           | None \<Rightarrow> (Returned (Refused ((new_lease a)\<lparr>le_workerId := js ''unknown''\<rparr>) Vanished), fs))
      | Removing held \<Rightarrow> (CreateAfter held, remove_path path fs)
      | CreateAfter held \<Rightarrow>
          (case create_exclusive path fs of
             Some (fd, fs') \<Rightarrow> (Writing (Some held) fd, fs')
           | None \<Rightarrow> (Returned (Refused (coalesce (readLease fs (ac_node a)) held) ReclaimedFirst), fs))
      | Returned r \<Rightarrow> (pc, fs))"

fun acquire_run :: "nat \<Rightarrow> (int \<Rightarrow> bool) \<Rightarrow> AcquireCall \<Rightarrow> AcquirePc \<Rightarrow> LeaseFs \<Rightarrow> AcquirePc \<times> LeaseFs" where
  "acquire_run 0 kill a pc fs = (pc, fs)"
| "acquire_run (Suc k) kill a pc fs = (case acquire_step kill a pc fs of (pc', fs') \<Rightarrow> acquire_run k kill a pc' fs')"

text \<open>A call that no other process interrupts makes at most six accesses.\<close>

definition acquireLease :: "(int \<Rightarrow> bool) \<Rightarrow> AcquireCall \<Rightarrow> LeaseFs \<Rightarrow> AcquirePc \<times> LeaseFs" where
  "acquireLease kill a fs = acquire_run 6 kill a TryCreate fs"

section \<open>Releasing, renewing, reaping\<close>

definition releaseLease :: "LeaseFs \<Rightarrow> jstr \<Rightarrow> jstr \<Rightarrow> bool \<times> LeaseFs" where
  "releaseLease fs node workerId = (case readLease fs node of
     None \<Rightarrow> (False, fs)
   | Some held \<Rightarrow> if le_workerId held \<noteq> workerId then (False, fs) else (True, remove_path (leasePath node) fs))"

definition renewLease :: "LeaseFs \<Rightarrow> jstr \<Rightarrow> jstr \<Rightarrow> int \<Rightarrow> int \<Rightarrow> Lease option \<times> LeaseFs" where
  "renewLease fs node workerId now ttlMs = (case readLease fs node of
     None \<Rightarrow> (None, fs)
   | Some held \<Rightarrow>
       if le_workerId held \<noteq> workerId then (None, fs)
       else let renewed = held\<lparr>le_expiresAt := toISOString (now + ttlMs)\<rparr>
            in (Some renewed, case map_of (lf_dir fs) (leasePath node) of
                  Some fd \<Rightarrow> write_file fd renewed fs | None \<Rightarrow> fs))"

definition listLeases :: "LeaseFs \<Rightarrow> Lease list" where
  "listLeases fs = concat (map (\<lambda>(_, fd). case coalesce (map_of (lf_data fs) fd) None of Some l \<Rightarrow> [l] | None \<Rightarrow> []) (lf_dir fs))"

definition reapable :: "(int \<Rightarrow> bool) \<Rightarrow> int \<Rightarrow> Lease \<Rightarrow> bool" where
  "reapable kill now lease \<longleftrightarrow>
     \<not> (case date_parse (le_expiresAt lease) of Some t \<Rightarrow> now < t | None \<Rightarrow> False) \<and> \<not> isProcessAlive kill (le_pid lease)"

definition reapExpired :: "(int \<Rightarrow> bool) \<Rightarrow> int \<Rightarrow> LeaseFs \<Rightarrow> Lease list \<times> LeaseFs" where
  "reapExpired kill now fs =
     (let reaped = filter (reapable kill now) (listLeases fs)
      in (reaped, fold (\<lambda>l fs. remove_path (leasePath (le_node l)) fs) reaped fs))"

section \<open>A call on its own\<close>

definition fs_ok :: "LeaseFs \<Rightarrow> bool" where
  "fs_ok fs \<longleftrightarrow> distinct (map fst (lf_dir fs)) \<and> (\<forall>p fd. map_of (lf_dir fs) p = Some fd \<longrightarrow> fd < lf_next fs) \<and>
     (\<forall>p q fd. map_of (lf_dir fs) p = Some fd \<longrightarrow> map_of (lf_dir fs) q = Some fd \<longrightarrow> p = q)"

definition put_lease :: "jstr \<Rightarrow> Lease \<Rightarrow> LeaseFs \<Rightarrow> LeaseFs" where
  "put_lease path lease fs = (case create_exclusive path fs of Some (fd, fs') \<Rightarrow> write_file fd lease fs' | None \<Rightarrow> fs)"

lemma lease_file_None: "lease_file path fs = None \<longleftrightarrow> map_of (lf_dir fs) path = None"
  by (simp add: lease_file_def split: option.splits)

lemma put_lease_ok:
  assumes "fs_ok fs" "lease_file path fs = None"
  shows "fs_ok (put_lease path l fs)" "lease_file q (put_lease path l fs) = (if q = path then Some (Some l) else lease_file q fs)"
proof -
  have fresh: "map_of (lf_dir fs) q \<noteq> Some (lf_next fs)" for q using assms(1) by (fastforce simp: fs_ok_def)
  have n: "map_of (lf_dir fs) path = None" using assms(2) by (simp add: lease_file_None)
  show "fs_ok (put_lease path l fs)"
    using assms(1) fresh unfolding put_lease_def create_exclusive_def n fs_ok_def
    by (auto simp: write_file_def update_conv' less_SucI distinct_update split: if_splits)
  show "lease_file q (put_lease path l fs) = (if q = path then Some (Some l) else lease_file q fs)"
    using fresh [of q] unfolding put_lease_def create_exclusive_def n
    by (auto simp: write_file_def update_conv' lease_file_def split: option.splits)
qed

lemma remove_path_ok:
  assumes "fs_ok fs"
  shows "fs_ok (remove_path path fs)" "lease_file q (remove_path path fs) = (if q = path then None else lease_file q fs)"
proof -
  have d: "map_of (lf_dir (remove_path path fs)) = (map_of (lf_dir fs))(path := None)"
    by (simp add: remove_path_def delete_conv')
  show "fs_ok (remove_path path fs)" using assms unfolding fs_ok_def d by (auto simp: remove_path_def distinct_delete)
  show "lease_file q (remove_path path fs) = (if q = path then None else lease_file q fs)"
    unfolding lease_file_def d by (simp add: remove_path_def split: option.split)
qed

lemma create_exclusive_None: "create_exclusive path fs = None \<longleftrightarrow> lease_file path fs \<noteq> None"
  by (auto simp: create_exclusive_def lease_file_None split: option.splits)

lemma acquire_finished [simp]: "acquire_run k kill a (Returned r) fs = (Returned r, fs)"
  by (induction k) (simp_all add: acquire_step_def)

text \<open>Without interference a call answers, and its answer is the rule: a free node is taken; a lease that is not expired or
  whose process lives is respected and nothing changes; any other lease is taken over.\<close>

lemma acquire_alone:
  "acquireLease kill a fs = (let path = leasePath (ac_node a) in case readLease fs (ac_node a) of
      None \<Rightarrow> (Returned (Acquired (new_lease a) None), put_lease path (new_lease a) fs)
    | Some held \<Rightarrow>
        if \<not> expired held (ac_now a) then (Returned (Refused held HeldUntil), fs)
        else if isProcessAlive kill (le_pid held) then (Returned (Refused held StillRunning), fs)
        else (Returned (Acquired (new_lease a) (Some held)), put_lease path (new_lease a) (remove_path path fs)))"
proof (cases "create_exclusive (leasePath (ac_node a)) fs")
  case (Some p)
  then obtain fd fs' where p: "create_exclusive (leasePath (ac_node a)) fs = Some (fd, fs')" by (cases p) simp
  hence "lease_file (leasePath (ac_node a)) fs = None" using create_exclusive_None [of "leasePath (ac_node a)" fs] by auto
  thus ?thesis by (simp add: acquireLease_def acquire_step_def p put_lease_def readLease_def Let_def numeral_nat)
next
  case None
  then obtain c where c: "lease_file (leasePath (ac_node a)) fs = Some c" using create_exclusive_None [of "leasePath (ac_node a)" fs] by auto
  have "create_exclusive (leasePath (ac_node a)) (remove_path (leasePath (ac_node a)) fs) \<noteq> None"
    by (simp add: create_exclusive_None lease_file_None remove_path_def delete_conv')
  then obtain fd fs' where p: "create_exclusive (leasePath (ac_node a)) (remove_path (leasePath (ac_node a)) fs) = Some (fd, fs')" by auto
  show ?thesis
    by (simp add: acquireLease_def acquire_step_def None c p put_lease_def readLease_def judge_held_def Let_def numeral_nat)
qed

section \<open>Operations one after the other\<close>

text \<open>The workers that hold a node from their successful call on, until they release it; and the processes that have ended.\<close>

record LeaseWorld =
  lw_fs :: LeaseFs
  lw_owners :: "(jstr \<times> jstr \<times> int) set"
  lw_dead :: "int set"

definition still_alive :: "LeaseWorld \<Rightarrow> int \<Rightarrow> bool" where
  "still_alive w pid \<longleftrightarrow> isProcessAlive (\<lambda>p. p \<notin> lw_dead w) pid"

definition empty_lease_fs :: LeaseFs where
  "empty_lease_fs = \<lparr>lf_dir = [], lf_data = [], lf_next = 0\<rparr>"

inductive lease_step :: "LeaseWorld \<Rightarrow> LeaseWorld \<Rightarrow> bool" where
  acquires: "acquireLease (\<lambda>p. p \<notin> lw_dead w) a (lw_fs w) = (Returned (Acquired l stole), fs') \<Longrightarrow>
    still_alive w (lh_pid (ac_holder a)) \<Longrightarrow>
    lease_step w (w\<lparr>lw_fs := fs', lw_owners := insert (leasePath (ac_node a), lh_workerId (ac_holder a), lh_pid (ac_holder a)) (lw_owners w)\<rparr>)"
| is_refused: "acquireLease (\<lambda>p. p \<notin> lw_dead w) a (lw_fs w) = (Returned (Refused l why), fs') \<Longrightarrow> lease_step w (w\<lparr>lw_fs := fs'\<rparr>)"
| releases: "releaseLease (lw_fs w) node worker = (released, fs') \<Longrightarrow>
    lease_step w (w\<lparr>lw_fs := fs', lw_owners := (if released then {(p, v, k) \<in> lw_owners w. p \<noteq> leasePath node \<or> v \<noteq> worker} else lw_owners w)\<rparr>)"
| renews: "renewLease (lw_fs w) node worker now ttl = (result, fs') \<Longrightarrow> lease_step w (w\<lparr>lw_fs := fs'\<rparr>)"
| reaps: "reapExpired (\<lambda>p. p \<notin> lw_dead w) now (lw_fs w) = (reaped, fs') \<Longrightarrow> lease_step w (w\<lparr>lw_fs := fs'\<rparr>)"
| dies: "lease_step w (w\<lparr>lw_dead := insert pid (lw_dead w)\<rparr>)"

inductive lease_reachable :: "LeaseWorld \<Rightarrow> bool" where
  no_leases: "lease_reachable \<lparr>lw_fs = empty_lease_fs, lw_owners = {}, lw_dead = {}\<rparr>"
| later: "lease_reachable w \<Longrightarrow> lease_step w w' \<Longrightarrow> lease_reachable w'"

text \<open>Every file holds a lease of the node it is named after, and a living owner finds its own lease in the file.\<close>

definition files_ok :: "LeaseFs \<Rightarrow> bool" where
  "files_ok fs \<longleftrightarrow> fs_ok fs \<and> (\<forall>p c. lease_file p fs = Some c \<longrightarrow> (\<exists>l. c = Some l \<and> leasePath (le_node l) = p))"

definition owns_file :: "LeaseFs \<Rightarrow> jstr \<Rightarrow> jstr \<Rightarrow> int \<Rightarrow> bool" where
  "owns_file fs p v k \<longleftrightarrow> (\<exists>l. lease_file p fs = Some (Some l) \<and> le_workerId l = v \<and> le_pid l = k)"

definition lease_inv :: "LeaseWorld \<Rightarrow> bool" where
  "lease_inv w \<longleftrightarrow> files_ok (lw_fs w) \<and> (\<forall>p v k. (p, v, k) \<in> lw_owners w \<longrightarrow> still_alive w k \<longrightarrow> owns_file (lw_fs w) p v k)"

lemma files_ok_put:
  "files_ok fs \<Longrightarrow> lease_file (leasePath (le_node l)) fs = None \<Longrightarrow> files_ok (put_lease (leasePath (le_node l)) l fs)"
  unfolding files_ok_def
  using put_lease_ok(1) [of fs "leasePath (le_node l)" l] put_lease_ok(2) [of fs "leasePath (le_node l)" _ l] by simp

lemma files_ok_remove: "files_ok fs \<Longrightarrow> files_ok (remove_path p fs)"
  unfolding files_ok_def using remove_path_ok(1) [of fs p] remove_path_ok(2) [of fs _ p] by simp

lemma owns_file_cong: "lease_file p fs' = lease_file p fs \<Longrightarrow> owns_file fs' p v k = owns_file fs p v k"
  by (simp add: owns_file_def)

lemma readLease_file:
  "files_ok fs \<Longrightarrow> readLease fs node = Some held \<longleftrightarrow> lease_file (leasePath node) fs = Some (Some held)"
  by (cases "lease_file (leasePath node) fs"; fastforce simp: readLease_def files_ok_def)

lemma readLease_none: "readLease fs node = None \<longleftrightarrow> lease_file (leasePath node) fs = None"
  by (simp add: readLease_def split: option.splits)

lemma new_lease_fields [simp]:
  "le_node (new_lease a) = ac_node a" "le_workerId (new_lease a) = lh_workerId (ac_holder a)" "le_pid (new_lease a) = lh_pid (ac_holder a)"
  by (simp_all add: new_lease_def)

text \<open>A successful call found no lease, or one whose process is gone, and leaves its own.\<close>

lemma acquired_file:
  assumes "files_ok fs" "acquireLease kill a fs = (Returned (Acquired l stole), fs')"
  shows "files_ok fs'" "lease_file q fs' = (if q = leasePath (ac_node a) then Some (Some (new_lease a)) else lease_file q fs)"
    "lease_file (leasePath (ac_node a)) fs = Some (Some held) \<Longrightarrow> \<not> isProcessAlive kill (le_pid held)"
proof -
  let ?p = "leasePath (ac_node a)"
  have ok: "fs_ok fs" using assms(1) by (simp add: files_ok_def)
  consider "readLease fs (ac_node a) = None" "fs' = put_lease ?p (new_lease a) fs"
    | h where "readLease fs (ac_node a) = Some h" "\<not> isProcessAlive kill (le_pid h)"
      "fs' = put_lease ?p (new_lease a) (remove_path ?p fs)"
    using assms(2) unfolding acquire_alone by (auto simp: Let_def split: option.splits if_splits)
  note cases = this
  show "files_ok fs'"
  proof (rule cases)
    assume "readLease fs (ac_node a) = None" "fs' = put_lease ?p (new_lease a) fs"
    thus "files_ok fs'" using files_ok_put [OF assms(1), of "new_lease a"] by (simp add: readLease_none)
  next
    fix h assume "fs' = put_lease ?p (new_lease a) (remove_path ?p fs)"
    thus "files_ok fs'"
      using files_ok_put [OF files_ok_remove [OF assms(1)], of "new_lease a"] remove_path_ok(2) [OF ok, of ?p] by simp
  qed
  show "lease_file q fs' = (if q = ?p then Some (Some (new_lease a)) else lease_file q fs)"
  proof (rule cases)
    assume "readLease fs (ac_node a) = None" "fs' = put_lease ?p (new_lease a) fs"
    thus ?thesis using put_lease_ok(2) [OF ok] by (simp add: readLease_none)
  next
    fix h assume "fs' = put_lease ?p (new_lease a) (remove_path ?p fs)"
    thus ?thesis using put_lease_ok(2) [OF remove_path_ok(1) [OF ok]] remove_path_ok(2) [OF ok] by simp
  qed
  show "\<not> isProcessAlive kill (le_pid held)" if "lease_file ?p fs = Some (Some held)"
  proof (rule cases)
    assume "readLease fs (ac_node a) = None"
    thus ?thesis using that by (simp add: readLease_none)
  next
    fix h assume "readLease fs (ac_node a) = Some h" "\<not> isProcessAlive kill (le_pid h)"
    thus ?thesis using that by (simp add: readLease_file [OF assms(1)])
  qed
qed

lemma listed_file:
  assumes "fs_ok fs" "l \<in> set (listLeases fs)"
  shows "\<exists>p. lease_file p fs = Some (Some l)"
proof -
  obtain p fd where p: "(p, fd) \<in> set (lf_dir fs)" "coalesce (map_of (lf_data fs) fd) None = Some l"
    using assms(2) by (auto simp: listLeases_def split: option.splits)
  have "map_of (lf_dir fs) p = Some fd" using assms(1) p(1) by (simp add: fs_ok_def)
  thus ?thesis using p(2) by (intro exI [of _ p]) (simp add: lease_file_def)
qed

lemma listed_lease:
  assumes "files_ok fs" "l \<in> set (listLeases fs)"
  shows "lease_file (leasePath (le_node l)) fs = Some (Some l)"
proof -
  have "fs_ok fs" using assms(1) by (simp add: files_ok_def)
  then obtain p where "lease_file p fs = Some (Some l)" using listed_file [OF _ assms(2)] by blast
  moreover from this have "leasePath (le_node l) = p" using assms(1) unfolding files_ok_def by blast
  ultimately show ?thesis by simp
qed

lemma remove_files:
  assumes "fs_ok fs"
  shows "lease_file q (fold (\<lambda>l fs. remove_path (leasePath (le_node l)) fs) ls fs) =
       (if \<exists>l \<in> set ls. leasePath (le_node l) = q then None else lease_file q fs)"
  using assms
proof (induction ls arbitrary: fs)
  case (Cons l ls)
  from remove_path_ok [OF Cons.prems] Cons.IH [OF remove_path_ok(1) [OF Cons.prems], of "leasePath (le_node l)"] show ?case by auto
qed simp

lemma remove_leases:
  assumes "files_ok fs"
  shows "files_ok (fold (\<lambda>l fs. remove_path (leasePath (le_node l)) fs) ls fs) \<and>
    (lease_file q (fold (\<lambda>l fs. remove_path (leasePath (le_node l)) fs) ls fs) =
       (if \<exists>l \<in> set ls. leasePath (le_node l) = q then None else lease_file q fs))"
  using assms
proof (induction ls arbitrary: fs)
  case (Cons l ls)
  have "fs_ok fs" using Cons.prems by (simp add: files_ok_def)
  from remove_path_ok(2) [OF this] Cons.IH [OF files_ok_remove [OF Cons.prems], of "leasePath (le_node l)"] show ?case by auto
qed simp

lemma inv_owners:
  assumes "lease_inv w" "files_ok fs'"
    "\<And>p v k. (p, v, k) \<in> owners \<Longrightarrow> still_alive w k \<Longrightarrow> owns_file fs' p v k"
  shows "lease_inv (w\<lparr>lw_fs := fs', lw_owners := owners\<rparr>)"
  using assms by (simp add: lease_inv_def still_alive_def)

lemma inv_file:
  assumes "lease_inv w" "files_ok fs'"
    "\<And>p v k. (p, v, k) \<in> lw_owners w \<Longrightarrow> still_alive w k \<Longrightarrow> owns_file (lw_fs w) p v k \<Longrightarrow> owns_file fs' p v k"
  shows "lease_inv (w\<lparr>lw_fs := fs'\<rparr>)"
  using assms by (simp add: lease_inv_def still_alive_def)

lemma renew_inv:
  assumes "renewLease (lw_fs w) node worker now ttl = (result, fs')" "lease_inv w"
  shows "lease_inv (w\<lparr>lw_fs := fs'\<rparr>)"
proof (cases "\<exists>held. readLease (lw_fs w) node = Some held \<and> le_workerId held = worker")
  case False
  hence "fs' = lw_fs w" using assms(1) by (auto simp: renewLease_def split: option.splits)
  thus ?thesis using assms(2) by simp
next
  case True
  have f: "files_ok (lw_fs w)" using assms(2) by (simp add: lease_inv_def)
  obtain held where h: "readLease (lw_fs w) node = Some held" "le_workerId held = worker" using True by blast
  let ?l = "held\<lparr>le_expiresAt := toISOString (now + ttl)\<rparr>"
  have lf: "lease_file (leasePath node) (lw_fs w) = Some (Some held)" using h(1) readLease_file [OF f] by simp
  obtain fd where fd: "map_of (lf_dir (lw_fs w)) (leasePath node) = Some fd"
    using lf by (auto simp: lease_file_def split: option.splits)
  have fs': "fs' = write_file fd ?l (lw_fs w)" using assms(1) h fd by (simp add: renewLease_def Let_def)
  have q: "lease_file q fs' = (if q = leasePath node then Some (Some ?l) else lease_file q (lw_fs w))" for q
    using f fd unfolding files_ok_def fs_ok_def fs' by (auto simp: lease_file_def write_file_def update_conv' split: option.splits)
  have "leasePath (le_node held) = leasePath node" using f lf unfolding files_ok_def by blast
  hence "files_ok fs'" using f unfolding files_ok_def q by (auto simp: fs' fs_ok_def write_file_def)
  thus ?thesis using lf by (intro inv_file [OF assms(2)]) (auto simp: owns_file_def q)
qed

lemma lease_step_inv: "lease_step w w' \<Longrightarrow> lease_inv w \<Longrightarrow> lease_inv w'"
proof (induction rule: lease_step.induct)
  case (acquires w a l stole fs')
  have f: "files_ok (lw_fs w)" using acquires(3) by (simp add: lease_inv_def)
  note acq = acquired_file [OF f acquires(1)]
  let ?p = "leasePath (ac_node a)"
  show ?case
  proof (rule inv_owners [OF acquires(3) acq(1)])
    fix p v k
    assume o: "(p, v, k) \<in> insert (?p, lh_workerId (ac_holder a), lh_pid (ac_holder a)) (lw_owners w)" "still_alive w k"
    show "owns_file fs' p v k"
    proof (cases "p = ?p")
      case True
      have "(p, v, k) \<notin> lw_owners w"
      proof
        assume "(p, v, k) \<in> lw_owners w"
        hence "owns_file (lw_fs w) p v k" using acquires(3) o(2) unfolding lease_inv_def by blast
        then obtain held where "lease_file ?p (lw_fs w) = Some (Some held)" "le_pid held = k" unfolding True owns_file_def by blast
        thus False using acq(3) o(2) by (simp add: still_alive_def)
      qed
      thus ?thesis using o(1) acq(2) by (simp add: owns_file_def)
    next
      case False
      hence "owns_file (lw_fs w) p v k" using acquires(3) o unfolding lease_inv_def by blast
      thus ?thesis using acq(2) [of p] False by (simp add: owns_file_def)
    qed
  qed
next
  case (is_refused w a l why fs')
  hence "fs' = lw_fs w" unfolding acquire_alone by (auto simp: Let_def split: option.splits if_splits)
  thus ?case using is_refused by simp
next
  case (releases w node worker released fs')
  show ?case
  proof (cases released)
    case True
    have f: "files_ok (lw_fs w)" using releases(2) by (simp add: lease_inv_def)
    obtain held where h: "readLease (lw_fs w) node = Some held" "le_workerId held = worker" "fs' = remove_path (leasePath node) (lw_fs w)"
      using releases(1) True by (auto simp: releaseLease_def split: option.splits if_splits)
    have "owns_file fs' p v k" if "(p, v, k) \<in> lw_owners w" "still_alive w k" "p \<noteq> leasePath node \<or> v \<noteq> worker" for p v k
    proof -
      have "owns_file (lw_fs w) p v k" using releases(2) that(1,2) unfolding lease_inv_def by blast
      moreover from this have "p \<noteq> leasePath node" using h(1,2) that(3) by (auto simp: owns_file_def readLease_file [OF f])
      moreover have "fs_ok (lw_fs w)" using f by (simp add: files_ok_def)
      ultimately show ?thesis using remove_path_ok(2) [of "lw_fs w" p] by (simp add: owns_file_def h(3))
    qed
    thus ?thesis using inv_owners [OF releases(2), of fs' "{(p, v, k) \<in> lw_owners w. p \<noteq> leasePath node \<or> v \<noteq> worker}"]
        files_ok_remove [OF f] True by (simp add: h(3))
  next
    case False
    hence "fs' = lw_fs w" using releases(1) by (auto simp: releaseLease_def split: option.splits if_splits)
    thus ?thesis using releases(2) False by simp
  qed
next
  case (renews w node worker now ttl result fs')
  thus ?case using renew_inv by blast
next
  case (reaps w now reaped fs')
  have f: "files_ok (lw_fs w)" using reaps(2) by (simp add: lease_inv_def)
  let ?ls = "filter (reapable (\<lambda>p. p \<notin> lw_dead w) now) (listLeases (lw_fs w))"
  have fs': "fs' = fold (\<lambda>l fs. remove_path (leasePath (le_node l)) fs) ?ls (lw_fs w)" using reaps(1) by (auto simp: reapExpired_def Let_def)
  show ?case
  proof (rule inv_file [OF reaps(2)])
    show "files_ok fs'" using remove_leases [OF f] fs' by blast
    fix p v k
    assume o: "still_alive w k" "owns_file (lw_fs w) p v k"
    have "leasePath (le_node l) \<noteq> p" if "l \<in> set ?ls" for l
      using o that listed_lease [OF f, of l] by (auto simp: owns_file_def reapable_def still_alive_def)
    hence "lease_file p fs' = lease_file p (lw_fs w)" using remove_leases [OF f, where q = p and ls = ?ls] fs' by auto
    thus "owns_file fs' p v k" using o(2) by (simp add: owns_file_def)
  qed
next
  case (dies w pid)
  thus ?case by (simp add: lease_inv_def still_alive_def isProcessAlive_def)
qed

lemma lease_reachable_inv: "lease_reachable w \<Longrightarrow> lease_inv w"
proof (induction rule: lease_reachable.induct)
  case no_leases
  show ?case by (simp add: lease_inv_def files_ok_def fs_ok_def empty_lease_fs_def lease_file_def)
qed (rule lease_step_inv)

text \<open>C27. A node has at most one live owner, as long as operations run one after the other: whatever workers acquire,
  renew, release or die, whatever the clock shows and whatever a reaper removes, two owners of the same lease file whose
  processes live are the same worker.\<close>

theorem one_live_owner:
  assumes "lease_reachable w" "(p, v, k) \<in> lw_owners w" "(p, v', k') \<in> lw_owners w" "still_alive w k" "still_alive w k'"
  shows "v = v' \<and> k = k'"
proof -
  have "owns_file (lw_fs w) p v k" "owns_file (lw_fs w) p v' k'"
    using lease_reachable_inv [OF assms(1)] assms(2-5) unfolding lease_inv_def by blast+
  thus ?thesis by (auto simp: owns_file_def)
qed

text \<open>A call that nothing interrupts always answers, and takes a node only by the rule: from no lease at all, or from one
  that has expired and whose process is gone; a refusal changes nothing.\<close>

theorem lone_call_follows_the_rule:
  "case acquireLease kill a fs of
     (Returned (Acquired l stole), fs') \<Rightarrow> l = new_lease a \<and> stole = readLease fs (ac_node a) \<and>
       (case readLease fs (ac_node a) of None \<Rightarrow> True
        | Some held \<Rightarrow> expired held (ac_now a) \<and> \<not> isProcessAlive kill (le_pid held))
   | (Returned (Refused held why), fs') \<Rightarrow> fs' = fs \<and> readLease fs (ac_node a) = Some held \<and>
       (why = HeldUntil \<and> \<not> expired held (ac_now a) \<or> why = StillRunning \<and> isProcessAlive kill (le_pid held))
   | _ \<Rightarrow> False"
  unfolding acquire_alone by (auto simp: Let_def split: option.split)

section \<open>Operations that overlap\<close>

text \<open>Two calls on one disk; the schedule says whose access comes next.\<close>

fun overlap :: "bool list \<Rightarrow> (int \<Rightarrow> bool) \<Rightarrow> AcquireCall \<Rightarrow> AcquireCall \<Rightarrow> AcquirePc \<times> AcquirePc \<times> LeaseFs \<Rightarrow> AcquirePc \<times> AcquirePc \<times> LeaseFs" where
  "overlap [] kill a b st = st"
| "overlap (first # schedule) kill a b (pa, pb, fs) =
     (if first then (case acquire_step kill a pa fs of (pa', fs') \<Rightarrow> overlap schedule kill a b (pa', pb, fs'))
      else (case acquire_step kill b pb fs of (pb', fs') \<Rightarrow> overlap schedule kill a b (pa, pb', fs')))"

definition race_schedule :: "bool list" where
  "race_schedule = [True, False, False, False, False, False, False, True]"

text \<open>C28. Overlapping calls break the rule.  The file exists from its creation on but gets its content later; in between
  another call finds it unreadable, treats it as an expired lease of a process that is gone, removes it and takes the
  node.  For every two calls on a free node, at any time since 1970 and whatever processes live, there is an
  interleaving in which both return as owners, the second one claiming to have taken over an unreadable lease.\<close>

theorem overlapping_calls_both_own_the_node:
  assumes "ac_node b = ac_node a" "0 \<le> ac_now b" "fs_ok fs" "readLease fs (ac_node a) = None"
  shows "\<exists>schedule fs'. overlap schedule kill a b (TryCreate, TryCreate, fs) =
    (Returned (Acquired (new_lease a) None), Returned (Acquired (new_lease b) (Some (unreadable_lease (ac_node a)))), fs')"
proof -
  let ?p = "leasePath (ac_node a)"
  have n: "map_of (lf_dir fs) ?p = None" using assms(4) by (simp add: readLease_none lease_file_None)
  have "date_parse (toISOString 0) = Some 0" by (rule date_parse_toISOString) (simp add: max_time_def)
  hence e: "expired (unreadable_lease (ac_node a)) (ac_now b)" using assms(2) by (simp add: expired_def unreadable_lease_def)
  have d: "\<not> isProcessAlive kill (le_pid (unreadable_lease (ac_node a)))" by (simp add: isProcessAlive_def unreadable_lease_def)
  have "\<exists>fs'. overlap race_schedule kill a b (TryCreate, TryCreate, fs) =
    (Returned (Acquired (new_lease a) None), Returned (Acquired (new_lease b) (Some (unreadable_lease (ac_node a)))), fs')"
    using n e d by (simp add: race_schedule_def acquire_step_def assms(1) create_exclusive_def lease_file_def judge_held_def
        remove_path_def delete_conv' update_conv' Let_def)
  thus ?thesis by blast
qed

text \<open>An unreadable file is not a held lease: a single call takes it over at once, and the reaper, which the comment
  calls the only one allowed to remove it, never sees it.\<close>

theorem unreadable_lease_is_taken_and_never_reaped:
  assumes "lease_file (leasePath (ac_node a)) fs = Some None" "0 \<le> ac_now a" "fs_ok fs"
    "\<forall>p l. lease_file p fs = Some (Some l) \<longrightarrow> leasePath (le_node l) = p"
  shows "fst (acquireLease kill a fs) = Returned (Acquired (new_lease a) (Some (unreadable_lease (ac_node a)))) \<and>
    lease_file (leasePath (ac_node a)) (snd (reapExpired kill now fs)) = Some None"
proof -
  have "date_parse (toISOString 0) = Some 0" by (rule date_parse_toISOString) (simp add: max_time_def)
  hence "expired (unreadable_lease (ac_node a)) (ac_now a)" using assms(2) by (simp add: expired_def unreadable_lease_def)
  moreover have "\<not> isProcessAlive kill (le_pid (unreadable_lease (ac_node a)))" by (simp add: isProcessAlive_def unreadable_lease_def)
  moreover have "readLease fs (ac_node a) = Some (unreadable_lease (ac_node a))" using assms(1) by (simp add: readLease_def)
  ultimately have taken: "fst (acquireLease kill a fs) = Returned (Acquired (new_lease a) (Some (unreadable_lease (ac_node a))))"
    by (simp add: acquire_alone Let_def)
  have "leasePath (le_node l) \<noteq> leasePath (ac_node a)" if "l \<in> set (listLeases fs)" for l
    using listed_file [OF assms(3) that] assms(1,4) by fastforce
  hence "lease_file (leasePath (ac_node a)) (snd (reapExpired kill now fs)) = Some None"
    using assms(1) by (auto simp: reapExpired_def Let_def remove_files [OF assms(3)])
  thus ?thesis using taken by simp
qed

section \<open>Witnesses\<close>

definition lease_call :: "jstr \<Rightarrow> int \<Rightarrow> AcquireCall" where
  "lease_call worker pid = \<lparr>ac_node = js ''p3.api'', ac_holder = \<lparr>lh_workerId = worker, lh_runId = js ''r'', lh_pid = pid\<rparr>,
     ac_host = js ''h'', ac_now = 1000, ac_ttlMs = DEFAULT_LEASE_TTL_MS\<rparr>"

definition owned_world :: LeaseWorld where
  "owned_world = \<lparr>lw_fs = snd (acquireLease (\<lambda>p. True) (lease_call (js ''w'') 7) empty_lease_fs),
     lw_owners = {(leasePath (js ''p3.api''), js ''w'', 7)}, lw_dead = {}\<rparr>"

lemma owned_world_reachable: "lease_reachable owned_world"
proof -
  let ?w = "\<lparr>lw_fs = empty_lease_fs, lw_owners = {}, lw_dead = {}\<rparr>"
  let ?a = "lease_call (js ''w'') 7"
  obtain fs' where "acquireLease (\<lambda>p. True) ?a empty_lease_fs = (Returned (Acquired (new_lease ?a) None), fs')"
    by (simp add: acquire_alone Let_def readLease_def lease_file_def empty_lease_fs_def)
  hence a: "acquireLease (\<lambda>p. p \<notin> lw_dead ?w) ?a (lw_fs ?w) = (Returned (Acquired (new_lease ?a) None), fs')"
    and fs': "fs' = lw_fs owned_world" by (simp_all add: owned_world_def)
  have "still_alive ?w (lh_pid (ac_holder ?a))" by (simp add: still_alive_def isProcessAlive_def lease_call_def)
  from later [OF no_leases acquires [OF a this]] show ?thesis unfolding fs' by (simp add: owned_world_def lease_call_def)
qed

theorem one_live_owner_witness: 
  "{v. \<exists>k. (leasePath (js ''p3.api''), v, k) \<in> lw_owners owned_world \<and> still_alive owned_world k} = {js ''w''}"
proof -
  have "(leasePath (js ''p3.api''), js ''w'', 7) \<in> lw_owners owned_world" "still_alive owned_world 7"
    by (simp_all add: owned_world_def still_alive_def isProcessAlive_def)
  thus ?thesis using one_live_owner [OF owned_world_reachable] by blast
qed

theorem overlapping_calls_both_own_the_node_witness:
  "\<exists>schedule l l' stole fs'. overlap schedule (\<lambda>_. True) (lease_call (js ''w'') 7) (lease_call (js ''v'') 8) (TryCreate, TryCreate, empty_lease_fs) =
     (Returned (Acquired l None), Returned (Acquired l' stole), fs') \<and> le_workerId l = js ''w'' \<and> le_workerId l' = js ''v''"
proof -
  have "fs_ok empty_lease_fs" "readLease empty_lease_fs (js ''p3.api'') = None"
    by (simp_all add: fs_ok_def empty_lease_fs_def readLease_def lease_file_def)
  with overlapping_calls_both_own_the_node [of "lease_call (js ''v'') 8" "lease_call (js ''w'') 7" empty_lease_fs "\<lambda>_. True"]
  show ?thesis by (fastforce simp: lease_call_def new_lease_def)
qed

theorem unreadable_lease_is_taken_and_never_reaped_witness:
  "\<exists>fs. lease_file (leasePath (js ''p3.api'')) fs = Some None \<and>
     fst (acquireLease (\<lambda>_. True) (lease_call (js ''w'') 7) fs) =
       Returned (Acquired (new_lease (lease_call (js ''w'') 7)) (Some (unreadable_lease (js ''p3.api''))))"
proof -
  let ?fs = "\<lparr>lf_dir = [(leasePath (js ''p3.api''), 0)], lf_data = [(0, None)], lf_next = 1\<rparr>"
  have "ac_node (lease_call (js ''w'') 7) = js ''p3.api''" "0 \<le> ac_now (lease_call (js ''w'') 7)" by (simp_all add: lease_call_def)
  moreover have "lease_file (leasePath (js ''p3.api'')) ?fs = Some None" "fs_ok ?fs"
    "\<forall>p l. lease_file p ?fs = Some (Some l) \<longrightarrow> leasePath (le_node l) = p"
    by (auto simp: lease_file_def fs_ok_def)
  ultimately show ?thesis
    using unreadable_lease_is_taken_and_never_reaped [of "lease_call (js ''w'') 7" ?fs "\<lambda>_. True" 0] by (intro exI [of _ ?fs]) simp
qed

end
