(* ===== verification/Autopilot_Machine.thy ===== *)
theory Autopilot_Machine
  imports Autopilot_State Autopilot_Lease
begin

text \<open>
  The machine the supervisor of \<^verbatim>\<open>scripts/autopilot/supervise.ts\<close> runs on, and its operations on the state, the journal, leases and workers.  They are actions of a state and error monad: the
  machine holds the object \<^verbatim>\<open>ctx.state\<close>, the disk it shares with workers and other commands, the journal it appends to,
  and a trace of the commands it ran and the workers it started.  Commands, workers, files, clock and random ids belong
  to the environment.  An action that throws keeps the machine it has reached.
\<close>

section \<open>The machine and its actions\<close>

record 'w Disk =
  dk_state :: StateFile
  dk_leases :: LeaseFs
  dk_stop :: bool
  dk_world :: 'w

datatype WorkerTask = TASK_dispatch | TASK_integrate | TASK_repair | TASK_wave_gate | TASK_phase_gate | TASK_reconcile

record WorkerSpec =
  wk_workerId :: jstr
  wk_sessionId :: jstr
  wk_task :: WorkerTask
  wk_node :: "jstr option"
  wk_segment :: "jstr option"
  wk_reportPath :: jstr
  wk_sessionDir :: jstr

record WorkerReport =
  wp_summary :: jstr
  wp_evidence :: "jstr list option"
  wp_trigger :: "int option"
  wp_options :: "jstr list option"
  wp_handoff :: "jstr option"

record WorkerResult =
  wr_outcome :: WorkerOutcome
  wr_report :: "WorkerReport option"
  wr_derivedFrom :: jstr
  wr_stdoutPath :: jstr
  wr_reportPath :: jstr

record CommandResult =
  cr_code :: "int option"
  cr_stdout :: jstr
  cr_stderr :: jstr

datatype Transition =
    FailureRecorded | Escalated | Started | Finished WorkerOutcome | SkippedLeased | PhaseGreen | WaveGreen | Rotated | Completed
  | AdvancedPhase | RunStarted | StopObserved | LeaseReaped

record JournalEntry =
  je_at :: jstr
  je_transition :: Transition
  je_action :: "FlowActionKind option"
  je_segment :: "jstr option"
  je_node :: "jstr option"
  je_evidence :: "jstr list"

text \<open>What the supervisor asks of its dependencies: a command with its exit code, a worker with its number of the attempt.\<close>

datatype Event = Ran jstr "int option" | Launched WorkerTask "jstr option" FlowAction int | Reported jstr WorkerOutcome

record 'w Machine =
  mc_disk :: "'w Disk"
  mc_state :: SupervisorState
  mc_journal :: "JournalEntry list"
  mc_trace :: "Event list"

type_synonym ('a, 'w) act = "'w Machine \<Rightarrow> (SupervisorError + 'a) \<times> 'w Machine"

definition ret :: "'a \<Rightarrow> ('a, 'w) act" where
  "ret a = (\<lambda>s. (Inr a, s))"

definition andThen :: "('a, 'w) act \<Rightarrow> ('a \<Rightarrow> ('b, 'w) act) \<Rightarrow> ('b, 'w) act" where
  "andThen m f = (\<lambda>s. case m s of (Inl e, s') \<Rightarrow> (Inl e, s') | (Inr a, s') \<Rightarrow> f a s')"

text \<open>\<^verbatim>\<open>try ... finally\<close>.\<close>

definition finally_do :: "('a, 'w) act \<Rightarrow> ('w Machine \<Rightarrow> 'w Machine) \<Rightarrow> ('a, 'w) act" where
  "finally_do m f = (\<lambda>s. case m s of (r, s') \<Rightarrow> (r, f s'))"

fun each :: "('a \<Rightarrow> ('b, 'w) act) \<Rightarrow> 'a list \<Rightarrow> ('b list, 'w) act" where
  "each f [] = ret []"
| "each f (x # xs) = andThen (f x) (\<lambda>y. andThen (each f xs) (\<lambda>ys. ret (y # ys)))"

definition the_state :: "(SupervisorState, 'w) act" where
  "the_state = (\<lambda>s. (Inr (mc_state s), s))"

definition on_world :: "('w \<Rightarrow> 'a \<times> 'w) \<Rightarrow> ('a, 'w) act" where
  "on_world f = (\<lambda>s. case f (dk_world (mc_disk s)) of (a, w) \<Rightarrow> (Inr a, s\<lparr>mc_disk := (mc_disk s)\<lparr>dk_world := w\<rparr>\<rparr>))"

definition on_disk :: "('w Disk \<Rightarrow> 'a \<times> 'w Disk) \<Rightarrow> ('a, 'w) act" where
  "on_disk f = (\<lambda>s. case f (mc_disk s) of (a, d) \<Rightarrow> (Inr a, s\<lparr>mc_disk := d\<rparr>))"

definition on_leases :: "(LeaseFs \<Rightarrow> 'a \<times> LeaseFs) \<Rightarrow> ('a, 'w) act" where
  "on_leases f = on_disk (\<lambda>d. case f (dk_leases d) of (a, l) \<Rightarrow> (a, d\<lparr>dk_leases := l\<rparr>))"

definition emit_event :: "Event \<Rightarrow> (unit, 'w) act" where
  "emit_event e = (\<lambda>s. (Inr (), s\<lparr>mc_trace := mc_trace s @ [e]\<rparr>))"

section \<open>The environment\<close>

datatype FileEntry = Directory | File jstr

text \<open>What is written for a reader, and the checkpoint.\<close>

datatype FileText = CommandLog CommandResult | VerdictText "Derivation GateVerdict" | BriefText | EscalationText Escalation | PlainText jstr

record 'w SuperviseDeps =
  dp_now :: "'w \<Rightarrow> int \<times> 'w"
  dp_uuid :: "'w \<Rightarrow> jstr \<times> 'w"
  dp_deriveAction :: "'w Disk \<Rightarrow> FlowAction \<times> 'w Disk"
  dp_runCommand :: "jstr \<Rightarrow> 'w Disk \<Rightarrow> CommandResult \<times> 'w Disk"
  dp_awaitWorker :: "WorkerSpec list \<Rightarrow> 'w Disk \<Rightarrow> (nat \<times> WorkerResult) \<times> 'w Disk"
  dp_files :: "'w \<Rightarrow> jstr \<Rightarrow> FileEntry option"
  dp_write :: "jstr \<Rightarrow> FileText \<Rightarrow> 'w \<Rightarrow> 'w"
  dp_kill :: "'w \<Rightarrow> int \<Rightarrow> bool"
  dp_join :: "jstr list \<Rightarrow> jstr"
  dp_resolve :: "jstr list \<Rightarrow> jstr"
  dp_host :: jstr
  dp_pid :: int

record SuperviseOptions =
  op_root :: jstr
  op_stateDir :: jstr
  op_maxIterations :: nat
  op_repair :: RepairPolicy
  op_permission :: PermissionPosture
  op_maxRotations :: nat
  op_concurrency :: nat
  op_leaseTtlMs :: int
  op_noProgressLimit :: nat
  op_dryRun :: bool

record 'w Ctx =
  cx_opts :: SuperviseOptions
  cx_deps :: "'w SuperviseDeps"
  cx_runId :: jstr

definition the_now :: "'w Ctx \<Rightarrow> (int, 'w) act" where
  "the_now cx = on_world (dp_now (cx_deps cx))"

definition randomUUID :: "'w Ctx \<Rightarrow> (jstr, 'w) act" where
  "randomUUID cx = on_world (dp_uuid (cx_deps cx))"

definition write_text :: "'w Ctx \<Rightarrow> jstr \<Rightarrow> FileText \<Rightarrow> (unit, 'w) act" where
  "write_text cx path txt = on_world (\<lambda>w. ((), dp_write (cx_deps cx) path txt w))"

definition the_files :: "'w Ctx \<Rightarrow> (jstr \<Rightarrow> FileEntry option, 'w) act" where
  "the_files cx = on_world (\<lambda>w. (dp_files (cx_deps cx) w, w))"

definition runCommand :: "'w Ctx \<Rightarrow> jstr \<Rightarrow> (CommandResult, 'w) act" where
  "runCommand cx command =
     andThen (on_disk (dp_runCommand (cx_deps cx) command)) (\<lambda>r. andThen (emit_event (Ran command (cr_code r))) (\<lambda>_. ret r))"

section \<open>Evidence\<close>

definition relativeToRoot :: "'w Ctx \<Rightarrow> jstr \<Rightarrow> jstr" where
  "relativeToRoot cx path =
     (let r = dp_resolve (cx_deps cx) [op_root (cx_opts cx)]; p = dp_resolve (cx_deps cx) [path];
          slashes = map (\<lambda>c. if c = 92 then 47 else c)
      in if take (length r) p = r then slashes (drop (length r + 1) p) else slashes p)"

definition evidenceDir :: "'w Ctx \<Rightarrow> jstr" where
  "evidenceDir cx = dp_join (cx_deps cx) [op_root (cx_opts cx), js ''.artifacts/evidence/autopilot'', cx_runId cx]"

definition captureCommand :: "'w Ctx \<Rightarrow> jstr \<Rightarrow> CommandResult \<Rightarrow> (jstr, 'w) act" where
  "captureCommand cx label r =
     (let path = dp_join (cx_deps cx) [evidenceDir cx, label @ js ''.log'']
      in andThen (write_text cx path (CommandLog r)) (\<lambda>_. ret (relativeToRoot cx path)))"

text \<open>A box of a list in Markdown: \<^verbatim>\<open>\s*[-*]\s*\[\<close>, one character, \<^verbatim>\<open>]\<close>.  The result is what follows it.\<close>

definition box_at :: "(jchar \<Rightarrow> bool) \<Rightarrow> jstr \<Rightarrow> jstr option" where
  "box_at mark s = (case dropWhile js_space s of
     c # t \<Rightarrow> if c = 45 \<or> c = 42 then (case dropWhile js_space t of
         a # m # b # u \<Rightarrow> if a = 91 \<and> mark m \<and> b = 93 then Some u else None
       | _ \<Rightarrow> None) else None
   | [] \<Rightarrow> None)"

lemma length_dropWhile_js: "length (dropWhile P xs) \<le> length xs"
  by (induction xs) auto

lemma box_at_shorter: "box_at mark s = Some u \<Longrightarrow> length u < length s"
proof -
  assume a: "box_at mark s = Some u"
  then obtain c t where ct: "dropWhile js_space s = c # t" by (auto simp: box_at_def split: list.splits)
  moreover obtain x m b where "dropWhile js_space t = x # m # b # u"
    using a ct by (auto simp: box_at_def split: list.splits if_splits)
  ultimately show ?thesis
    using length_dropWhile_js [of js_space s] length_dropWhile_js [of js_space t] by simp
qed

function count_boxes :: "(jchar \<Rightarrow> bool) \<Rightarrow> bool \<Rightarrow> jstr \<Rightarrow> nat" where
  "count_boxes mark lineStart [] = 0"
| "count_boxes mark lineStart (c # cs) =
     (case if lineStart then box_at mark (c # cs) else None of
        Some rest \<Rightarrow> 1 + count_boxes mark False rest
      | None \<Rightarrow> count_boxes mark (js_newline c) cs)"
  by pat_completeness auto
termination
  by (relation "measure (\<lambda>(_, _, s). length s)") (auto split: if_splits dest: box_at_shorter)

definition forbidden_words :: "jstr list" where
  "forbidden_words = [js ''NOT MET'', js ''UNVERIFIED'', js ''deferred'', js ''skipped'']"

text \<open>The number of bound boxes of an acceptable document, \<^const>\<open>None\<close> for any other.\<close>

definition checkDodArtifact :: "(jstr \<Rightarrow> FileEntry option) \<Rightarrow> jstr \<Rightarrow> SupervisorError + nat option" where
  "checkDodArtifact files path = (case files path of
     None \<Rightarrow> Inr None
   | Some Directory \<Rightarrow> Inl (ReadsDirectory path)
   | Some (File txt) \<Rightarrow>
       (let bound = count_boxes (\<lambda>c. c = 120 \<or> c = 88) True txt; unbound = count_boxes (\<lambda>c. c = 32) True txt
        in Inr (if bound = 0 \<or> 0 < unbound \<or> list_ex (\<lambda>w. contains_text w txt) forbidden_words then None else Some bound)))"

definition checkEvidencePaths :: "'w Ctx \<Rightarrow> (jstr \<Rightarrow> FileEntry option) \<Rightarrow> jstr list \<Rightarrow> bool" where
  "checkEvidencePaths cx files paths =
     (let full = (\<lambda>p. dp_resolve (cx_deps cx) [op_root (cx_opts cx), p]);
          missing = filter (\<lambda>p. files (full p) = None) paths;
          empty = filter (\<lambda>p. files (full p) = Some (File [])) paths
      in paths \<noteq> [] \<and> missing = [] \<and> empty = [])"


section \<open>Changes of the state\<close>

definition add_failure :: "BlockingFailure \<Rightarrow> SupervisorState \<Rightarrow> SupervisorState" where
  "add_failure f s = s\<lparr>ss_blockingFailures := ss_blockingFailures s @ [f]\<rparr>"

definition mark_resolved :: "(BlockingFailure \<Rightarrow> bool) \<Rightarrow> jstr \<Rightarrow> SupervisorState \<Rightarrow> SupervisorState" where
  "mark_resolved P stamp s = s\<lparr>ss_blockingFailures :=
     map (\<lambda>f. if bf_resolvedAt f = None \<and> P f then f\<lparr>bf_resolvedAt := Some stamp\<rparr> else f) (ss_blockingFailures s)\<rparr>"

definition set_escalation :: "Escalation \<Rightarrow> SupervisorState \<Rightarrow> SupervisorState" where
  "set_escalation e s = s\<lparr>ss_escalation := Some e\<rparr>"

definition put_node :: "jstr \<Rightarrow> (NodeRecord \<Rightarrow> NodeRecord) \<Rightarrow> jstr \<Rightarrow> SupervisorState \<Rightarrow> SupervisorState" where
  "put_node node patch stamp s =
     (let prev = coalesce (map_of (ss_nodes s) node) \<lparr>nr_status = NODE_READY, nr_launches = 0, nr_lastWorkerId = None,
            nr_lastSessionId = None, nr_lastOutcome = None, nr_updatedAt = stamp\<rparr>
      in s\<lparr>ss_nodes := AList.update node ((patch prev)\<lparr>nr_updatedAt := stamp\<rparr>) (ss_nodes s)\<rparr>)"

definition bump_attempts :: "jstr \<Rightarrow> SupervisorState \<Rightarrow> SupervisorState" where
  "bump_attempts key s = s\<lparr>ss_repairAttempts := AList.update key (attempts s key + 1) (ss_repairAttempts s)\<rparr>"

definition set_green_commit :: "CommandResult \<Rightarrow> jstr \<Rightarrow> SupervisorState \<Rightarrow> SupervisorState" where
  "set_green_commit head commit s = s\<lparr>ss_lastGreenCommit := (if cr_code head = Some 0 then Some commit else ss_lastGreenCommit s)\<rparr>"

definition set_stopped :: "SupervisorState \<Rightarrow> SupervisorState" where
  "set_stopped s = s\<lparr>ss_stopRequested := True\<rparr>"

definition set_segment :: "jstr \<Rightarrow> int option \<Rightarrow> SupervisorState \<Rightarrow> SupervisorState" where
  "set_segment seg phase s = s\<lparr>ss_segment := Some seg, ss_phase := (case phase of None \<Rightarrow> ss_phase s | p \<Rightarrow> p)\<rparr>"

definition or_else :: "'a option \<Rightarrow> 'a option \<Rightarrow> 'a option" where
  "or_else x y = (case x of None \<Rightarrow> y | Some _ \<Rightarrow> x)"

definition note_action :: "FlowAction \<Rightarrow> SupervisorState \<Rightarrow> SupervisorState" where
  "note_action a s = s\<lparr>ss_nextAction := Some (fa_action a), ss_segment := or_else (fa_segment a) (or_else (fa_to a) (ss_segment s)),
     ss_phase := or_else (fa_phase a) (ss_phase s)\<rparr>"

definition set_bounds :: "SuperviseOptions \<Rightarrow> SupervisorState \<Rightarrow> SupervisorState" where
  "set_bounds opts s = s\<lparr>ss_stopRequested := False, ss_repairBound := Some (rp_bound (op_repair opts)),
     ss_repairAuthority := Some (rp_authority (op_repair opts)), ss_permissionMode := Some (pp_mode (op_permission opts)),
     ss_permissionBypassed := Some (pp_bypassed (op_permission opts))\<rparr>"

section \<open>Saving, journal, failures, escalation\<close>

definition save :: "'w Ctx \<Rightarrow> (SupervisorState \<Rightarrow> SupervisorState) \<Rightarrow> (unit, 'w) act" where
  "save cx mutate = andThen (the_now cx) (\<lambda>t s.
     case writeState (dk_state (mc_disk s)) (mutate (mc_state s)) t of
       Inl e \<Rightarrow> (Inl e, s)
     | Inr (st, file) \<Rightarrow> (Inr (), s\<lparr>mc_state := st, mc_disk := (mc_disk s)\<lparr>dk_state := file\<rparr>\<rparr>))"

definition journal :: "'w Ctx \<Rightarrow> Transition \<Rightarrow> FlowActionKind option \<Rightarrow> jstr option \<Rightarrow> jstr option \<Rightarrow> jstr list \<Rightarrow> (unit, 'w) act" where
  "journal cx change action segment node evidence = andThen (the_now cx) (\<lambda>t s.
     (Inr (), s\<lparr>mc_journal := mc_journal s @ [\<lparr>je_at = toISOString t, je_transition = change, je_action = action,
        je_segment = segment, je_node = node, je_evidence = evidence\<rparr>]\<rparr>))"

definition recordFailure :: "'w Ctx \<Rightarrow> FailureKind \<Rightarrow> jstr option \<Rightarrow> jstr option \<Rightarrow> FailureDetail \<Rightarrow> jstr list \<Rightarrow> (unit, 'w) act" where
  "recordFailure cx kind segment node detail evidence =
     andThen (randomUUID cx) (\<lambda>u. andThen (the_now cx) (\<lambda>t.
       andThen (save cx (add_failure \<lparr>bf_id = take 8 u, bf_kind = kind, bf_segment = segment, bf_node = node, bf_detail = detail,
                  bf_evidence = evidence, bf_at = toISOString t, bf_resolvedAt = None\<rparr>))
         (\<lambda>_. journal cx FailureRecorded None segment node evidence)))"

definition resolveFailures :: "'w Ctx \<Rightarrow> (BlockingFailure \<Rightarrow> bool) \<Rightarrow> (unit, 'w) act" where
  "resolveFailures cx P = andThen (the_now cx) (\<lambda>t. save cx (mark_resolved P (toISOString t)))"

definition escalation_path :: "'w Ctx \<Rightarrow> jstr \<Rightarrow> jstr" where
  "escalation_path cx stamp = dp_join (cx_deps cx) [op_stateDir (cx_opts cx), js ''escalations'',
     map (\<lambda>c. if c = 58 \<or> c = 46 then 45 else c) stamp @ js ''.md'']"

definition escalate :: "'w Ctx \<Rightarrow> int \<Rightarrow> jstr option \<Rightarrow> jstr option \<Rightarrow> EscalationReason \<Rightarrow> EscalationOptions \<Rightarrow> jstr list \<Rightarrow>
    (Escalation, 'w) act" where
  "escalate cx trigger segment node reason options evidence =
     andThen (the_now cx) (\<lambda>t.
       let e = \<lparr>es_trigger = trigger, es_segment = segment, es_node = node, es_reason = reason, es_options = options,
                 es_evidence = evidence, es_at = toISOString t, es_resolvedAt = None, es_resolution = None\<rparr>
       in andThen (save cx (set_escalation e)) (\<lambda>_.
          andThen (write_text cx (escalation_path cx (es_at e)) (EscalationText e)) (\<lambda>_.
          andThen (journal cx Escalated None segment node evidence) (\<lambda>_. ret e))))"

definition setNode :: "'w Ctx \<Rightarrow> jstr \<Rightarrow> (NodeRecord \<Rightarrow> NodeRecord) \<Rightarrow> (unit, 'w) act" where
  "setNode cx node patch = andThen (the_now cx) (\<lambda>t. save cx (put_node node patch (toISOString t)))"

definition repairsSpent :: "jstr option \<Rightarrow> jstr option \<Rightarrow> jstr option \<Rightarrow> (int, 'w) act" where
  "repairsSpent segment node scope = andThen the_state (\<lambda>st. ret (attempts st (repairKey segment node scope)))"

definition bumpRepair :: "'w Ctx \<Rightarrow> jstr option \<Rightarrow> jstr option \<Rightarrow> jstr option \<Rightarrow> (int, 'w) act" where
  "bumpRepair cx segment node scope =
     (let key = repairKey segment node scope
      in andThen (save cx (bump_attempts key)) (\<lambda>_. andThen the_state (\<lambda>st. ret (attempts st key))))"

section \<open>Workers\<close>

definition task_name :: "WorkerTask \<Rightarrow> jstr" where
  "task_name task = (case task of TASK_dispatch \<Rightarrow> js ''dispatch'' | TASK_integrate \<Rightarrow> js ''integrate'' | TASK_repair \<Rightarrow> js ''repair''
     | TASK_wave_gate \<Rightarrow> js ''wave-gate'' | TASK_phase_gate \<Rightarrow> js ''phase-gate'' | TASK_reconcile \<Rightarrow> js ''reconcile'')"

definition newWorkerId :: "WorkerTask \<Rightarrow> jstr option \<Rightarrow> jstr \<Rightarrow> jstr" where
  "newWorkerId task node u = task_name task @ js ''-'' @ coalesce node (js ''gate'') @ js ''-'' @ take 8 u"

definition segment_of :: "FlowAction \<Rightarrow> (jstr option, 'w) act" where
  "segment_of action = andThen the_state (\<lambda>st. ret (or_else (fa_segment action) (ss_segment st)))"

text \<open>\<^verbatim>\<open>dispatchWorker\<close> up to the launch, and after the worker has ended.\<close>

definition startWorker :: "'w Ctx \<Rightarrow> WorkerTask \<Rightarrow> jstr option \<Rightarrow> FlowAction \<Rightarrow> int \<Rightarrow> (WorkerSpec, 'w) act" where
  "startWorker cx task node action attempt =
     andThen (randomUUID cx) (\<lambda>u. andThen (randomUUID cx) (\<lambda>sessionId. andThen (segment_of action) (\<lambda>segment.
       let workerId = newWorkerId task node u;
           sessionDir = dp_join (cx_deps cx) [op_stateDir (cx_opts cx), js ''sessions'', workerId];
           brief = dp_join (cx_deps cx) [sessionDir, js ''brief.md''];
           spec = \<lparr>wk_workerId = workerId, wk_sessionId = sessionId, wk_task = task, wk_node = node, wk_segment = segment,
             wk_reportPath = dp_join (cx_deps cx) [op_stateDir (cx_opts cx), js ''handoffs'', workerId @ js ''.json''],
             wk_sessionDir = sessionDir\<rparr>
       in andThen (write_text cx brief BriefText) (\<lambda>_.
          andThen (case node of None \<Rightarrow> ret ()
                   | Some n \<Rightarrow> setNode cx n (\<lambda>r. r\<lparr>nr_status := NODE_RUNNING, nr_lastWorkerId := Some workerId, nr_lastSessionId := Some sessionId\<rparr>)) (\<lambda>_.
          andThen (journal cx Started (Some (fa_action action)) segment node [relativeToRoot cx brief]) (\<lambda>_.
          andThen (emit_event (Launched task node action attempt)) (\<lambda>_. ret spec)))))))"

definition report_evidence :: "WorkerResult \<Rightarrow> jstr list" where
  "report_evidence result = (case wr_report result of None \<Rightarrow> [] | Some r \<Rightarrow> coalesce (wp_evidence r) [])"

definition finishWorker :: "'w Ctx \<Rightarrow> FlowAction \<Rightarrow> WorkerSpec \<Rightarrow> WorkerResult \<Rightarrow> (unit, 'w) act" where
  "finishWorker cx action spec result =
     andThen (emit_event (Reported (wk_workerId spec) (wr_outcome result))) (\<lambda>_.
     andThen (case wk_node spec of None \<Rightarrow> ret ()
              | Some n \<Rightarrow> setNode cx n (\<lambda>r. r\<lparr>nr_lastOutcome := Some (wr_outcome result), nr_launches := nr_launches r + 1\<rparr>)) (\<lambda>_.
     journal cx (Finished (wr_outcome result)) (Some (fa_action action)) (wk_segment spec) (wk_node spec)
       (relativeToRoot cx (wr_stdoutPath result) # report_evidence result)))"

definition dispatchWorker :: "'w Ctx \<Rightarrow> WorkerTask \<Rightarrow> jstr option \<Rightarrow> FlowAction \<Rightarrow> int \<Rightarrow> (WorkerSpec \<times> WorkerResult, 'w) act" where
  "dispatchWorker cx task node action attempt =
     andThen (startWorker cx task node action attempt) (\<lambda>spec.
     andThen (on_disk (dp_awaitWorker (cx_deps cx) [spec])) (\<lambda>(_, result).
     andThen (finishWorker cx action spec result) (\<lambda>_. ret (spec, result))))"

section \<open>Leases around workers\<close>

definition takeLease :: "'w Ctx \<Rightarrow> jstr \<Rightarrow> (jstr option, 'w) act" where
  "takeLease cx key =
     andThen (randomUUID cx) (\<lambda>u. andThen (the_now cx) (\<lambda>t.
       let workerId = cx_runId cx @ js '':'' @ key @ js '':'' @ take 6 u;
           call = \<lparr>ac_node = key, ac_holder = \<lparr>lh_workerId = workerId, lh_runId = cx_runId cx, lh_pid = dp_pid (cx_deps cx)\<rparr>,
                    ac_host = dp_host (cx_deps cx), ac_now = t, ac_ttlMs = op_leaseTtlMs (cx_opts cx)\<rparr>
       in andThen (on_disk (\<lambda>d. case acquireLease (dp_kill (cx_deps cx) (dk_world d)) call (dk_leases d) of
                                    (pc, l) \<Rightarrow> (pc, d\<lparr>dk_leases := l\<rparr>))) (\<lambda>pc.
            case pc of
              Returned (Acquired _ _) \<Rightarrow> ret (Some workerId)
            | _ \<Rightarrow> andThen (journal cx SkippedLeased None None (Some key) []) (\<lambda>_. ret None))))"

definition dropLease :: "jstr \<Rightarrow> jstr \<Rightarrow> 'w Machine \<Rightarrow> 'w Machine" where
  "dropLease key workerId s = s\<lparr>mc_disk := (mc_disk s)\<lparr>dk_leases := snd (releaseLease (dk_leases (mc_disk s)) key workerId)\<rparr>\<rparr>"

definition withLease :: "'w Ctx \<Rightarrow> jstr \<Rightarrow> ('a, 'w) act \<Rightarrow> ('a option, 'w) act" where
  "withLease cx key body = andThen (takeLease cx key) (\<lambda>got. case got of
     None \<Rightarrow> ret None
   | Some workerId \<Rightarrow> finally_do (andThen body (\<lambda>x. ret (Some x))) (dropLease key workerId))"

end
