(* ===== verification/Autopilot_Supervisor.thy ===== *)
theory Autopilot_Supervisor
  imports Autopilot_Machine
begin

text \<open>
  The gates, the handlers and the loop of the supervisor, \<^verbatim>\<open>scripts/autopilot/supervise.ts\<close>, and the command that
  resumes a blocked run (\<^verbatim>\<open>scripts/autopilot.ts\<close>).
\<close>

section \<open>Gates\<close>

record GateOutcome =
  go_recorded :: bool
  go_verdict :: "Derivation GateVerdict"
  go_evidence :: "jstr list"

definition gate_command :: "GateKind \<Rightarrow> jstr" where
  "gate_command kind = (if kind = PhaseGate then js ''pnpm gates:full'' else js ''pnpm gates'')"

definition kind_name :: "GateKind \<Rightarrow> jstr" where
  "kind_name kind = (if kind = PhaseGate then js ''phase'' else js ''wave'')"

definition gate_label :: "GateKind \<Rightarrow> jstr option \<Rightarrow> jstr \<Rightarrow> jstr" where
  "gate_label kind segment what = coalesce segment (js ''unknown'') @ js ''-'' @ kind_name kind @ js ''-gate-'' @ what"

definition record_command :: "GateKind \<Rightarrow> jstr option \<Rightarrow> jstr list \<Rightarrow> jstr list \<Rightarrow> jstr" where
  "record_command kind segment packets evidence =
     js ''pnpm flow record '' @ kind_name kind @ js '' --segment '' @ coalesce segment [] @
     (if kind = PhaseGate then [] else js '' --packets '' @ js_join (js '' '') packets) @
     js '' --evidence '' @ js_join (js '' '') evidence"

text \<open>The sources that are measured before any worker runs.\<close>

definition command_sources :: "GateKind \<Rightarrow> CommandResult \<Rightarrow> jstr \<Rightarrow> CommandResult \<Rightarrow> jstr \<Rightarrow> BlockingFailure list \<Rightarrow> Derivation Sources" where
  "command_sources kind r gateLog probe nodesLog failures =
     (\<lambda>_. None)
       (Src_nodes := Some ((if cr_code probe = Some 0 then green_source else red_source)
           (ByCommand (js ''pnpm oracle status'') (cr_code probe)) [nodesLog]),
        Src_gates := Some ((if cr_code r = Some 0 then green_source else red_source) (ByCommand (gate_command kind) (cr_code r)) [gateLog]),
        Src_failureEvidence := Some (if failures = [] then green_source (ByFailures 0) [gateLog]
           else red_source (ByFailures (length failures)) (concat (map bf_evidence failures))))"

definition gate_verdict :: "GateKind \<Rightarrow> Derivation Sources \<Rightarrow> Derivation GateVerdict" where
  "gate_verdict kind sources = (if kind = PhaseGate then phaseVerdict sources else waveVerdict sources)"

definition summarise :: "'w Ctx \<Rightarrow> GateKind \<Rightarrow> jstr option \<Rightarrow> Derivation GateVerdict \<Rightarrow> (jstr, 'w) act" where
  "summarise cx kind segment v =
     (let path = dp_join (cx_deps cx) [evidenceDir cx, gate_label kind segment (js ''verdict.md'')]
      in andThen (the_now cx) (\<lambda>_. andThen (write_text cx path (VerdictText v)) (\<lambda>_. ret (relativeToRoot cx path))))"

text \<open>What the gate's worker contributes.\<close>

definition agent_source :: "'w Ctx \<Rightarrow> WorkerSpec \<Rightarrow> WorkerResult \<Rightarrow> Derivation Source" where
  "agent_source cx spec worker =
     (if wr_outcome worker = OUT_DONE then
        green_source (ByWorker (wk_workerId spec) OUT_DONE)
          (relativeToRoot cx (wr_reportPath worker) # filter (list_ex (\<lambda>c. \<not> js_space c)) (report_evidence worker))
      else red_source (ByWorker (wk_workerId spec) (wr_outcome worker)) [relativeToRoot cx (wr_stdoutPath worker)])"

definition dod_path :: "'w Ctx \<Rightarrow> GateKind \<Rightarrow> jstr option \<Rightarrow> jstr" where
  "dod_path cx kind segment = dp_join (cx_deps cx) [op_root (cx_opts cx), js ''.artifacts/evidence'', coalesce segment (js ''unknown''),
     kind_name kind @ js ''-gate'', js ''definition-of-done.md'']"

definition dod_source :: "'w Ctx \<Rightarrow> jstr \<Rightarrow> nat option \<Rightarrow> WorkerResult \<Rightarrow> Derivation Source" where
  "dod_source cx path dod worker =
     (if wr_outcome worker = OUT_DONE \<and> dod \<noteq> None then green_source (ByDocument path (the dod)) [relativeToRoot cx path]
      else red_source (ByDocument path 0) [relativeToRoot cx (wr_stdoutPath worker)])"

definition artifacts_source :: "'w Ctx \<Rightarrow> (jstr \<Rightarrow> FileEntry option) \<Rightarrow> jstr \<Rightarrow> jstr list \<Rightarrow> Derivation Source" where
  "artifacts_source cx files gateLog evidence =
     (if checkEvidencePaths cx files evidence then green_source (ByEvidence evidence) evidence else red_source (ByEvidence evidence) [gateLog])"

text \<open>The sources a wave gate and a phase gate add after their worker.\<close>

definition worker_sources :: "'w Ctx \<Rightarrow> GateKind \<Rightarrow> jstr option \<Rightarrow> jstr \<Rightarrow> jstr list \<Rightarrow> WorkerSpec \<Rightarrow> WorkerResult \<Rightarrow>
    Derivation Sources \<Rightarrow> (Derivation Sources, 'w) act" where
  "worker_sources cx kind segment gateLog evidence spec worker sources =
     (if kind = WaveGate then ret (sources(Src_validation := Some (agent_source cx spec worker)))
      else andThen (the_files cx) (\<lambda>files s.
        case checkDodArtifact files (dod_path cx kind segment) of
          Inl e \<Rightarrow> (Inl e, s)
        | Inr dod \<Rightarrow> (Inr (sources(Src_definitionOfDone := Some (dod_source cx (dod_path cx kind segment) dod worker),
                              Src_artifacts := Some (artifacts_source cx files gateLog evidence))), s)))"

text \<open>A green gate is recorded by the command, which may refuse.\<close>

definition record_gate :: "'w Ctx \<Rightarrow> GateKind \<Rightarrow> FlowAction \<Rightarrow> jstr option \<Rightarrow> jstr list \<Rightarrow> Derivation GateVerdict \<Rightarrow> (GateOutcome, 'w) act" where
  "record_gate cx kind action segment evidence v =
     andThen (runCommand cx (record_command kind segment (coalesce (fa_packets action) []) evidence)) (\<lambda>rec.
     andThen (captureCommand cx (gate_label kind segment (js ''record'')) rec) (\<lambda>_.
     if cr_code rec \<noteq> Some 0 then
       ret \<lparr>go_recorded = False,
         go_verdict = v\<lparr>ve_green := False, ve_verdict := verdict_of kind False,
           ve_blockers := ve_blockers v @ [\<lparr>bl_source = Src_record, bl_verdict = RED, bl_why = RecordExited (cr_code rec) (js_trim (cr_stderr rec))\<rparr>]\<rparr>,
         go_evidence = evidence\<rparr>
     else andThen (journal cx (if kind = PhaseGate then PhaseGreen else WaveGreen) (Some (fa_action action)) segment None evidence) (\<lambda>_.
       ret \<lparr>go_recorded = True, go_verdict = v, go_evidence = evidence\<rparr>)))"

definition conclude_gate :: "'w Ctx \<Rightarrow> FlowAction \<Rightarrow> GateKind \<Rightarrow> jstr option \<Rightarrow> jstr list \<Rightarrow> Derivation GateVerdict \<Rightarrow> (GateOutcome, 'w) act" where
  "conclude_gate cx action kind segment evidence v =
     andThen (summarise cx kind segment v) (\<lambda>summary.
       let withSummary = dedup (evidence @ [summary])
       in if \<not> ve_green v then ret \<lparr>go_recorded = False, go_verdict = v, go_evidence = withSummary\<rparr>
          else record_gate cx kind action segment withSummary v)"

definition cited_evidence :: "jstr \<Rightarrow> Derivation Source \<Rightarrow> jstr list" where
  "cited_evidence gateLog agent = dedup (gateLog # (if so_verdict agent = GREEN then so_evidence agent else []))"

text \<open>The gate once its command has exited with 0.\<close>

definition settle_gate :: "'w Ctx \<Rightarrow> FlowAction \<Rightarrow> GateKind \<Rightarrow> jstr option \<Rightarrow> jstr \<Rightarrow> Derivation Sources \<Rightarrow> WorkerSpec \<times> WorkerResult \<Rightarrow>
    (GateOutcome, 'w) act" where
  "settle_gate cx action kind segment gateLog sources = (\<lambda>(spec, worker).
     let evidence = cited_evidence gateLog (agent_source cx spec worker)
     in andThen (worker_sources cx kind segment gateLog evidence spec worker sources) (\<lambda>measured.
        conclude_gate cx action kind segment evidence (gate_verdict kind measured)))"

definition gate_task :: "GateKind \<Rightarrow> WorkerTask" where
  "gate_task kind = (if kind = PhaseGate then TASK_phase_gate else TASK_wave_gate)"

definition gate_worker :: "'w Ctx \<Rightarrow> FlowAction \<Rightarrow> GateKind \<Rightarrow> jstr option \<Rightarrow> jstr \<Rightarrow> Derivation Sources \<Rightarrow> (GateOutcome, 'w) act" where
  "gate_worker cx action kind segment gateLog sources =
     andThen (repairsSpent segment None (Some (gateScope kind (coalesce (fa_packets action) [])))) (\<lambda>spent.
     andThen (dispatchWorker cx (gate_task kind) None action (spent + 1)) (settle_gate cx action kind segment gateLog sources))"

text \<open>The gate after its two commands.\<close>

definition judge_gate :: "'w Ctx \<Rightarrow> FlowAction \<Rightarrow> GateKind \<Rightarrow> jstr option \<Rightarrow> CommandResult \<Rightarrow> jstr \<Rightarrow> Derivation Sources \<Rightarrow> (GateOutcome, 'w) act" where
  "judge_gate cx action kind segment r gateLog sources =
     (if cr_code r \<noteq> Some 0 then
        (let v = gate_verdict kind sources
         in andThen (summarise cx kind segment v) (\<lambda>summary.
            ret \<lparr>go_recorded = False, go_verdict = v, go_evidence = [gateLog, summary]\<rparr>))
      else gate_worker cx action kind segment gateLog sources)"

definition runGate :: "'w Ctx \<Rightarrow> FlowAction \<Rightarrow> GateKind \<Rightarrow> (GateOutcome, 'w) act" where
  "runGate cx action kind =
     andThen (segment_of action) (\<lambda>segment.
     andThen (runCommand cx (gate_command kind)) (\<lambda>r.
     andThen (captureCommand cx (gate_label kind segment (js ''command'')) r) (\<lambda>gateLog.
     andThen (runCommand cx (js ''pnpm oracle status'')) (\<lambda>probe.
     andThen (captureCommand cx (gate_label kind segment (js ''nodes'')) probe) (\<lambda>nodesLog.
     andThen the_state (\<lambda>st.
       judge_gate cx action kind segment r gateLog
         (command_sources kind r gateLog probe nodesLog (failuresBlockingGate st segment))))))))"

section \<open>Handlers\<close>

datatype SuperviseStatus = SUP_COMPLETE | SUP_ESCALATED | SUP_STOPPED | SUP_ITERATION_LIMIT | SUP_DRY_RUN

text \<open>A step either goes on, or ends the run with an escalation or without one.\<close>

type_synonym StepResult = "(SuperviseStatus \<times> Escalation option) option"

definition escalated :: "(Escalation, 'w) act \<Rightarrow> (StepResult, 'w) act" where
  "escalated m = andThen m (\<lambda>e. ret (Some (SUP_ESCALATED, Some e)))"

definition escalationForRepairExhaustion :: "'w Ctx \<Rightarrow> jstr option \<Rightarrow> jstr option \<Rightarrow> jstr list \<Rightarrow> EscalationReason \<Rightarrow> (StepResult, 'w) act" where
  "escalationForRepairExhaustion cx segment node evidence reason = escalated (escalate cx 5 segment node reason RepairOptions evidence)"

text \<open>A worker that reports it is blocked stops the run with what it asks for.\<close>

definition blocked_by_worker :: "'w Ctx \<Rightarrow> int \<Rightarrow> jstr option \<Rightarrow> jstr option \<Rightarrow> WorkerReport \<Rightarrow> jstr list \<Rightarrow> (StepResult, 'w) act" where
  "blocked_by_worker cx trigger segment node report evidence =
     escalated (escalate cx (coalesce (wp_trigger report) trigger) segment node (WorkerSays (wp_summary report))
       (WorkerOptions (coalesce (wp_options report) [])) (coalesce (wp_evidence report) evidence))"

definition worker_answer :: "'w Ctx \<Rightarrow> int \<Rightarrow> jstr option \<Rightarrow> jstr list \<Rightarrow> (WorkerSpec \<times> WorkerResult) option \<Rightarrow> (StepResult, 'w) act" where
  "worker_answer cx trigger segment evidence result = (case result of
     Some (_, worker) \<Rightarrow>
       (case wr_report worker of
          Some report \<Rightarrow> if wr_outcome worker = OUT_BLOCKED then blocked_by_worker cx trigger segment None report evidence else ret None
        | None \<Rightarrow> ret None)
   | None \<Rightarrow> ret None)"

text \<open>A gate that was recorded, and one that is held: the hold is a failure and costs an attempt.\<close>

definition gate_passed :: "'w Ctx \<Rightarrow> jstr option \<Rightarrow> (StepResult, 'w) act" where
  "gate_passed cx segment =
     andThen (resolveFailures cx (\<lambda>f. bf_segment f = segment \<and> bf_kind f = FAIL_gate)) (\<lambda>_.
     andThen (runCommand cx (js ''git rev-parse HEAD'')) (\<lambda>head.
     andThen (save cx (set_green_commit head (js_trim (cr_stdout head)))) (\<lambda>_. ret None)))"

definition repair_gate :: "'w Ctx \<Rightarrow> FlowAction \<Rightarrow> jstr option \<Rightarrow> jstr list \<Rightarrow> FailureDetail \<Rightarrow> int \<Rightarrow> (StepResult, 'w) act" where
  "repair_gate cx action segment evidence detail spent =
     (if spent > rp_bound (op_repair (cx_opts cx)) then
        escalationForRepairExhaustion cx segment None evidence (RepairsSpent (spent - 1) detail)
      else andThen (withLease cx (coalesce segment (js ''unknown'') @ js ''::gate'') (dispatchWorker cx TASK_repair None action spent))
             (worker_answer cx 5 segment evidence))"

definition gate_held :: "'w Ctx \<Rightarrow> FlowAction \<Rightarrow> GateKind \<Rightarrow> jstr option \<Rightarrow> GateOutcome \<Rightarrow> (StepResult, 'w) act" where
  "gate_held cx action kind segment outcome =
     (let detail = GateHeld kind (ve_blockers (go_verdict outcome))
      in andThen (recordFailure cx FAIL_gate segment None detail (go_evidence outcome)) (\<lambda>_.
         andThen (bumpRepair cx segment None (Some (gateScope kind (coalesce (fa_packets action) []))))
           (repair_gate cx action segment (go_evidence outcome) detail)))"

definition handleGate :: "'w Ctx \<Rightarrow> FlowAction \<Rightarrow> GateKind \<Rightarrow> (StepResult, 'w) act" where
  "handleGate cx action kind =
     andThen (segment_of action) (\<lambda>segment.
     andThen (runGate cx action kind) (\<lambda>outcome.
       if go_recorded outcome then gate_passed cx segment else gate_held cx action kind segment outcome))"

text \<open>Workers of a batch start in order; each one that gets its lease is then awaited, in the order the environment
  decides, and its lease is released.  An error of a start is thrown after all have started.\<close>

definition start_one :: "'w Ctx \<Rightarrow> FlowAction \<Rightarrow> jstr \<Rightarrow> ((jstr \<times> jstr \<times> WorkerSpec) option, 'w) act" where
  "start_one cx action node =
     andThen (takeLease cx node) (\<lambda>got. case got of
       None \<Rightarrow> ret None
     | Some leaseId \<Rightarrow> (\<lambda>s.
         case andThen the_state (\<lambda>st.
                let isRepair = (case map_of (ss_nodes st) node of Some r \<Rightarrow> nr_status r = NODE_REPAIR | None \<Rightarrow> False)
                in andThen (segment_of action) (\<lambda>segment.
                   andThen (repairsSpent segment (Some node) None) (\<lambda>spent.
                   startWorker cx (if isRepair then TASK_repair else TASK_dispatch) (Some node) action (spent + 1)))) s of
           (Inl e, s') \<Rightarrow> (Inl e, dropLease node leaseId s')
         | (Inr spec, s') \<Rightarrow> (Inr (Some (node, leaseId, spec)), s')))"

definition caught :: "('a, 'w) act \<Rightarrow> (SupervisorError + 'a, 'w) act" where
  "caught m = (\<lambda>s. case m s of (r, s') \<Rightarrow> (Inr r, s'))"

definition throw_first :: "(SupervisorError + 'a) list \<Rightarrow> ('a list, 'w) act" where
  "throw_first rs = (\<lambda>s. case List.find isl rs of Some (Inl e) \<Rightarrow> (Inl e, s) | _ \<Rightarrow> (Inr (map projr rs), s))"

fun await_all :: "nat \<Rightarrow> 'w Ctx \<Rightarrow> FlowAction \<Rightarrow> (nat \<times> jstr \<times> jstr \<times> WorkerSpec) list \<Rightarrow> ((nat \<times> jstr \<times> WorkerResult) list, 'w) act" where
  "await_all 0 cx action pending = ret []"
| "await_all (Suc k) cx action pending =
     (if pending = [] then ret []
      else andThen (on_disk (dp_awaitWorker (cx_deps cx) (map (\<lambda>(_, _, _, spec). spec) pending))) (\<lambda>(i, result).
        let j = i mod length pending; (place, node, leaseId, spec) = pending ! j
        in andThen (finally_do (finishWorker cx action spec result) (dropLease node leaseId)) (\<lambda>_.
           andThen (await_all k cx action (take j pending @ drop (Suc j) pending)) (\<lambda>rest. ret ((place, node, result) # rest)))))"

text \<open>The results in the order of the batch; a node whose lease is held elsewhere has none.\<close>

definition run_batch :: "'w Ctx \<Rightarrow> FlowAction \<Rightarrow> jstr list \<Rightarrow> ((jstr \<times> WorkerResult) list, 'w) act" where
  "run_batch cx action batch =
     andThen (each (\<lambda>node. caught (start_one cx action node)) batch) (\<lambda>attempted.
     andThen (throw_first attempted) (\<lambda>started.
       let pending = List.map_filter (\<lambda>(i, x). map_option (\<lambda>(node, l, spec). (i, node, l, spec)) x) (List.enumerate 0 started)
       in andThen (await_all (length pending) cx action pending) (\<lambda>results.
          ret (map snd (sort_key fst results)))))"

text \<open>One round of the loop over the results; a returned value ends the handler.\<close>

definition handle_result :: "'w Ctx \<Rightarrow> jstr option \<Rightarrow> jstr \<Rightarrow> WorkerResult \<Rightarrow> (StepResult, 'w) act" where
  "handle_result cx segment node result =
     (let out = relativeToRoot cx (wr_stdoutPath result);
          said = (case wr_report result of Some r \<Rightarrow> wp_summary r | None \<Rightarrow> wr_derivedFrom result);
          bound = rp_bound (op_repair (cx_opts cx))
      in case wr_outcome result of
        OUT_DONE \<Rightarrow>
          andThen (setNode cx node (\<lambda>r. r\<lparr>nr_status := NODE_READY\<rparr>)) (\<lambda>_.
          andThen (resolveFailures cx (\<lambda>f. bf_node f = Some node)) (\<lambda>_. ret None))
      | OUT_ROTATE \<Rightarrow>
          andThen the_state (\<lambda>st. let launches = (case map_of (ss_nodes st) node of Some r \<Rightarrow> nr_launches r | None \<Rightarrow> 0)
          in andThen (setNode cx node (\<lambda>r. r\<lparr>nr_status := NODE_READY\<rparr>)) (\<lambda>_.
             andThen (journal cx Rotated None segment (Some node)
               (case wr_report result of Some r \<Rightarrow> (case wp_handoff r of Some h \<Rightarrow> [h] | None \<Rightarrow> []) | None \<Rightarrow> [])) (\<lambda>_.
             if launches < op_maxRotations (cx_opts cx) then ret None
             else andThen (bumpRepair cx segment (Some node) None) (\<lambda>spent.
                  andThen (setNode cx node (\<lambda>r. r\<lparr>nr_status := NODE_REPAIR, nr_launches := 0\<rparr>)) (\<lambda>_.
                  if spent > bound then
                    escalationForRepairExhaustion cx segment (Some node) [out] (RotationsSpent (spent - 1) launches)
                  else ret None)))))
      | OUT_BLOCKED \<Rightarrow>
          andThen (setNode cx node (\<lambda>r. r\<lparr>nr_status := NODE_BLOCKED\<rparr>)) (\<lambda>_.
          blocked_by_worker cx 3 segment (Some node)
            (coalesce (wr_report result) \<lparr>wp_summary = said, wp_evidence = None, wp_trigger = None, wp_options = None, wp_handoff = None\<rparr>)
            [out])
      | _ \<Rightarrow>
          andThen (bumpRepair cx segment (Some node) None) (\<lambda>spent.
          andThen (setNode cx node (\<lambda>r. r\<lparr>nr_status := NODE_REPAIR\<rparr>)) (\<lambda>_.
          andThen (recordFailure cx FAIL_worker segment (Some node) (WorkerFailed (wr_outcome result) said) (out # report_evidence result)) (\<lambda>_.
            if spent > bound then
              escalationForRepairExhaustion cx segment (Some node) [out]
                (RepairsSpent (spent - 1) (WorkerFailed (wr_outcome result) said))
            else ret None))))"

fun handle_results :: "'w Ctx \<Rightarrow> jstr option \<Rightarrow> (jstr \<times> WorkerResult) list \<Rightarrow> (StepResult, 'w) act" where
  "handle_results cx segment [] = ret None"
| "handle_results cx segment ((node, result) # rest) =
     andThen (handle_result cx segment node result) (\<lambda>r. if r = None then handle_results cx segment rest else ret r)"

definition handleDispatch :: "'w Ctx \<Rightarrow> FlowAction \<Rightarrow> (StepResult, 'w) act" where
  "handleDispatch cx action =
     andThen (segment_of action) (\<lambda>segment.
       let packets = coalesce (fa_packets action) [];
           batch = (if fa_mode action = Some Parallel then take (op_concurrency (cx_opts cx)) packets else take 1 packets)
       in if packets = [] then ret None
          else andThen (run_batch cx action batch) (\<lambda>results. handle_results cx segment results))"

text \<open>A worker for the whole segment, which may only report that it is blocked.\<close>

definition segment_worker :: "'w Ctx \<Rightarrow> FlowAction \<Rightarrow> jstr option \<Rightarrow> jstr \<Rightarrow> WorkerTask \<Rightarrow> int \<Rightarrow> (StepResult, 'w) act" where
  "segment_worker cx action segment key task attempt =
     andThen (withLease cx (coalesce segment (js ''unknown'') @ key) (dispatchWorker cx task None action attempt))
       (worker_answer cx 3 segment [])"

section \<open>The checkpoint\<close>

text \<open>The group of \<^verbatim>\<open>/^---\n([\s\S]*?)\n---\n/\<close> and what follows the match.\<close>

fun split_front :: "jstr \<Rightarrow> (jstr \<times> jstr) option" where
  "split_front [] = None"
| "split_front (c # cs) =
     (if has_prefix (10 # js ''---'' @ [10]) (c # cs) then Some ([], drop 5 (c # cs))
      else map_option (\<lambda>(front, rest). (c # front, rest)) (split_front cs))"

definition front_matter :: "jstr \<Rightarrow> (jstr \<times> jstr) option" where
  "front_matter txt = (if has_prefix (js ''---'' @ [10]) txt then split_front (drop 4 txt) else None)"

definition front_line :: "jstr \<Rightarrow> jstr \<Rightarrow> jstr" where
  "front_line segment l = (if has_prefix (js ''phase:'') l then js ''phase: '' @ segment
     else if has_prefix (js ''step:'') l then js ''step: framed'' else l)"

definition checkpoint_header :: "jstr \<Rightarrow> jstr" where
  "checkpoint_header segment = js ''---'' @ [10] @ js ''phase: '' @ segment @ [10] @ js ''wave: 1'' @ [10] @ js ''step: framed'' @ [10] @ js ''---'' @ [10]"

definition updated_checkpoint :: "jstr \<Rightarrow> jstr option \<Rightarrow> jstr" where
  "updated_checkpoint segment txt = (case txt of
     None \<Rightarrow> checkpoint_header segment @ [10] @ js ''## Recovery log'' @ [10]
   | Some t \<Rightarrow>
       (case front_matter t of
          None \<Rightarrow> checkpoint_header segment @ [10] @ t
        | Some (front, rest) \<Rightarrow>
            js ''---'' @ [10] @ js_join [10] (map (front_line segment) (js_lines front)) @ [10] @ js ''---'' @ [10] @ rest))"

definition updateCheckpointSegment :: "'w Ctx \<Rightarrow> jstr \<Rightarrow> (unit, 'w) act" where
  "updateCheckpointSegment cx segment =
     (let path = dp_join (cx_deps cx) [op_root (cx_opts cx), js ''.claude/autopilot.local.md'']
      in andThen (the_files cx) (\<lambda>files s. case files path of
           Some Directory \<Rightarrow> (Inl (ReadsDirectory path), s)
         | None \<Rightarrow> write_text cx path (PlainText (updated_checkpoint segment None)) s
         | Some (File t) \<Rightarrow> write_text cx path (PlainText (updated_checkpoint segment (Some t))) s))"

section \<open>The loop\<close>

definition step :: "'w Ctx \<Rightarrow> FlowAction \<Rightarrow> (StepResult, 'w) act" where
  "step cx action =
     andThen (segment_of action) (\<lambda>segment. case fa_action action of
       COMPLETE \<Rightarrow> andThen (journal cx Completed (Some COMPLETE) None None []) (\<lambda>_. ret (Some (SUP_COMPLETE, None)))
     | FLOW_ERROR \<Rightarrow>
         escalated (escalate cx 2 segment None (BrokenGraph (fa_reason action)) GraphOptions [js ''scripts/oracle/graph.json''])
     | FLOW_BLOCKED \<Rightarrow>
         andThen the_state (\<lambda>st. escalated (escalate cx 3 segment None (NothingDispatchable (fa_reason action)) BlockedOptions
           (concat (map bf_evidence (unresolvedFailures st)))))
     | ADVANCE_PHASE \<Rightarrow>
         (let to = coalesce (fa_to action) (js ''?'')
          in andThen (updateCheckpointSegment cx to) (\<lambda>_.
             andThen (save cx (set_segment to (fa_phase action))) (\<lambda>_.
             andThen (journal cx AdvancedPhase (Some ADVANCE_PHASE) (Some to) None [js ''.claude/autopilot.local.md'']) (\<lambda>_. ret None))))
     | FLOW_REPAIR \<Rightarrow>
         andThen (repairsSpent segment None None) (\<lambda>spent. segment_worker cx action segment (js ''::reconcile'') TASK_reconcile (spent + 1))
     | INTEGRATE \<Rightarrow> segment_worker cx action segment (js ''::integrate'') TASK_integrate 1
     | DISPATCH \<Rightarrow> handleDispatch cx action
     | WAVE_GATE \<Rightarrow> handleGate cx action WaveGate
     | PHASE_GATE \<Rightarrow> handleGate cx action PhaseGate)"

definition action_name :: "FlowActionKind \<Rightarrow> jstr" where
  "action_name k = (case k of FLOW_ERROR \<Rightarrow> js ''ERROR'' | FLOW_REPAIR \<Rightarrow> js ''REPAIR'' | INTEGRATE \<Rightarrow> js ''INTEGRATE''
     | WAVE_GATE \<Rightarrow> js ''WAVE_GATE'' | DISPATCH \<Rightarrow> js ''DISPATCH'' | FLOW_BLOCKED \<Rightarrow> js ''BLOCKED'' | PHASE_GATE \<Rightarrow> js ''PHASE_GATE''
     | ADVANCE_PHASE \<Rightarrow> js ''ADVANCE_PHASE'' | COMPLETE \<Rightarrow> js ''COMPLETE'')"

definition signatureOf :: "FlowAction \<Rightarrow> jstr" where
  "signatureOf a = action_name (fa_action a) @ js ''|'' @ coalesce (fa_segment a) [] @ js ''|'' @ js_join (js '','') (coalesce (fa_packets a) [])"

record SuperviseResult =
  su_status :: SuperviseStatus
  su_iterations :: nat
  su_lastAction :: "FlowAction option"
  su_escalation :: "Escalation option"

definition sup_result :: "SuperviseStatus \<Rightarrow> nat \<Rightarrow> FlowAction option \<Rightarrow> Escalation option \<Rightarrow> SuperviseResult" where
  "sup_result status i a e = \<lparr>su_status = status, su_iterations = i, su_lastAction = a, su_escalation = e\<rparr>"

definition reap_leases :: "'w Ctx \<Rightarrow> (unit, 'w) act" where
  "reap_leases cx =
     andThen (the_now cx) (\<lambda>t.
     andThen (on_disk (\<lambda>d. case reapExpired (dp_kill (cx_deps cx) (dk_world d)) t (dk_leases d) of (ls, l) \<Rightarrow> (ls, d\<lparr>dk_leases := l\<rparr>))) (\<lambda>reaped.
     andThen (each (\<lambda>l. journal cx LeaseReaped None None (Some (le_node l)) []) reaped) (\<lambda>_. ret ())))"

definition stuck_run :: "'w Ctx \<Rightarrow> FlowAction \<Rightarrow> jstr \<Rightarrow> nat \<Rightarrow> (Escalation, 'w) act" where
  "stuck_run cx action sig repeats =
     (let log = [relativeToRoot cx (dp_join (cx_deps cx) [op_stateDir (cx_opts cx), js ''journal.jsonl''])]
      in andThen (recordFailure cx FAIL_no_progress (fa_segment action) None (SameAction sig (repeats + 1)) log) (\<lambda>_.
         escalate cx 5 (fa_segment action) None (RunIsStuck sig (repeats + 1)) StuckOptions log))"

text \<open>One iteration after its checks; \<open>again\<close> is the rest of the loop.\<close>

definition supervise_round :: "(FlowAction option \<Rightarrow> jstr \<Rightarrow> nat \<Rightarrow> (SuperviseResult, 'w) act) \<Rightarrow> 'w Ctx \<Rightarrow> nat \<Rightarrow> jstr \<Rightarrow> nat \<Rightarrow>
    (SuperviseResult, 'w) act" where
  "supervise_round again cx i signature repeats =
     andThen (reap_leases cx) (\<lambda>_.
     andThen (on_disk (dp_deriveAction (cx_deps cx))) (\<lambda>action.
     andThen (save cx (note_action action)) (\<lambda>_.
       let sig = signatureOf action; repeats' = (if sig = signature then repeats + 1 else 0)
       in if op_noProgressLimit (cx_opts cx) \<le> repeats' then
            andThen (stuck_run cx action sig repeats') (\<lambda>e. ret (sup_result SUP_ESCALATED (i + 1) (Some action) (Some e)))
          else if op_dryRun (cx_opts cx) then ret (sup_result SUP_DRY_RUN (i + 1) (Some action) None)
          else andThen (step cx action) (\<lambda>outcome. case outcome of
                 Some (status, e) \<Rightarrow> ret (sup_result status (i + 1) (Some action) e)
               | None \<Rightarrow> again (Some action) sig repeats'))))"

text \<open>The loop; the first argument is the number of iterations that are left.\<close>

fun supervise_loop :: "nat \<Rightarrow> 'w Ctx \<Rightarrow> nat \<Rightarrow> FlowAction option \<Rightarrow> jstr \<Rightarrow> nat \<Rightarrow> (SuperviseResult, 'w) act" where
  "supervise_loop 0 cx i lastAction signature repeats = ret (sup_result SUP_ITERATION_LIMIT i lastAction None)"
| "supervise_loop (Suc k) cx i lastAction signature repeats =
     andThen (on_disk (\<lambda>d. (dk_stop d, d))) (\<lambda>stop.
     if stop then
       andThen (journal cx StopObserved None None None []) (\<lambda>_.
       andThen (save cx set_stopped) (\<lambda>_. ret (sup_result SUP_STOPPED i lastAction None)))
     else andThen the_state (\<lambda>st.
       case ss_escalation st of
         Some e \<Rightarrow>
           if es_resolvedAt e = None then ret (sup_result SUP_ESCALATED i lastAction (Some e))
           else supervise_round (supervise_loop k cx (i + 1)) cx i signature repeats
       | None \<Rightarrow> supervise_round (supervise_loop k cx (i + 1)) cx i signature repeats))"


definition supervise_run :: "'w Ctx \<Rightarrow> (SuperviseResult, 'w) act" where
  "supervise_run cx = andThen (save cx (set_bounds (cx_opts cx))) (\<lambda>_. andThen (journal cx RunStarted None None None []) (\<lambda>_.
     supervise_loop (op_maxIterations (cx_opts cx)) cx 0 None [] 0))"

text \<open>The stop flag is a file, so that a request survives a crash.\<close>

definition requestStop :: "'w Disk \<Rightarrow> 'w Disk" where
  "requestStop d = d\<lparr>dk_stop := True\<rparr>"

definition clearStop :: "'w Disk \<Rightarrow> 'w Disk" where
  "clearStop d = d\<lparr>dk_stop := False\<rparr>"

declare clearStop_def [simp]

text \<open>A run starts from what is on disk; the machine is built from the disk, and \<open>uuid\<close> and \<open>now\<close> serve a fresh state.\<close>

definition supervise :: "SuperviseOptions \<Rightarrow> 'w SuperviseDeps \<Rightarrow> 'w Disk \<Rightarrow>
    SupervisorError + ((SupervisorError + SuperviseResult) \<times> 'w Machine)" where
  "supervise opts deps disk =
     (case dp_now deps (dk_world disk) of (t, w1) \<Rightarrow>
      case dp_uuid deps w1 of (u, w2) \<Rightarrow>
      case loadOrInit (dk_state disk) t u of
        Inl e \<Rightarrow> Inl e
      | Inr (st, file) \<Rightarrow>
          Inr (supervise_run \<lparr>cx_opts = opts, cx_deps = deps, cx_runId = ss_runId st\<rparr>
                \<lparr>mc_disk = clearStop (disk\<lparr>dk_state := file, dk_world := w2\<rparr>), mc_state = st, mc_journal = [], mc_trace = []\<rparr>))"

text \<open>\<^verbatim>\<open>pnpm autopilot resume\<close> up to the run it then starts: a decision is needed exactly when an escalation is open.\<close>

definition resume :: "jstr option \<Rightarrow> int \<Rightarrow> jstr \<Rightarrow> 'w Disk \<Rightarrow> (SupervisorError + bool) \<times> 'w Disk" where
  "resume note now runId disk =
     (case loadOrInit (dk_state disk) now runId of
        Inl e \<Rightarrow> (Inl e, disk)
      | Inr (st, file) \<Rightarrow>
          (case ss_escalation st of
             Some e \<Rightarrow>
               if es_resolvedAt e \<noteq> None then (Inr True, clearStop (disk\<lparr>dk_state := file\<rparr>))
               else (case note of
                       None \<Rightarrow> (Inr False, disk\<lparr>dk_state := file\<rparr>)
                     | Some n \<Rightarrow>
                         (case writeState file (set_escalation (e\<lparr>es_resolvedAt := Some (toISOString now), es_resolution := Some n\<rparr>) st) now of
                            Inl err \<Rightarrow> (Inl err, disk\<lparr>dk_state := file\<rparr>)
                          | Inr (_, file') \<Rightarrow> (Inr True, clearStop (disk\<lparr>dk_state := file'\<rparr>))))
           | None \<Rightarrow> (Inr True, clearStop (disk\<lparr>dk_state := file\<rparr>))))"

end
