(* ===== verification/Autopilot_Safe.thy ===== *)
theory Autopilot_Safe
  imports Autopilot_Supervisor
begin

text \<open>
  What the supervisor guarantees whatever its commands and workers do.  Invariants of the machine are stated once in a
  locale: an invariant that survives the environment and each change of the state survives every handler and the loop.
\<close>

named_theorems triple_intro "rules for the actions of the supervisor"

section \<open>Triples\<close>

text \<open>From every machine that satisfies \<open>P\<close> the action returns with \<open>Q\<close> or throws with \<open>E\<close>.\<close>

definition triple :: "('w Machine \<Rightarrow> bool) \<Rightarrow> ('a, 'w) act \<Rightarrow> ('a \<Rightarrow> 'w Machine \<Rightarrow> bool) \<Rightarrow> (SupervisorError \<Rightarrow> 'w Machine \<Rightarrow> bool) \<Rightarrow> bool" where
  "triple P m Q E \<longleftrightarrow> (\<forall>s. P s \<longrightarrow> (case m s of (Inr a, s') \<Rightarrow> Q a s' | (Inl e, s') \<Rightarrow> E e s'))"

lemma tripleI: "(\<And>s. P s \<Longrightarrow> case m s of (Inr a, s') \<Rightarrow> Q a s' | (Inl e, s') \<Rightarrow> E e s') \<Longrightarrow> triple P m Q E"
  by (simp add: triple_def)

lemma triple_cases:
  assumes "\<And>s a s'. P s \<Longrightarrow> m s = (Inr a, s') \<Longrightarrow> Q a s'" "\<And>s e s'. P s \<Longrightarrow> m s = (Inl e, s') \<Longrightarrow> E e s'"
  shows "triple P m Q E"
proof (rule tripleI)
  fix s assume "P s"
  obtain r s' where "m s = (r, s')" by fastforce
  thus "case m s of (Inr a, s') \<Rightarrow> Q a s' | (Inl e, s') \<Rightarrow> E e s'" using assms \<open>P s\<close> by (cases r) auto
qed

lemma tripleD:
  "triple P m Q E \<Longrightarrow> P s \<Longrightarrow> m s = (Inr a, s') \<Longrightarrow> Q a s'"
  "triple P m Q E \<Longrightarrow> P s \<Longrightarrow> m s = (Inl e, s') \<Longrightarrow> E e s'"
  unfolding triple_def by force+

lemma triple_ret: "(\<And>s. P s \<Longrightarrow> Q a s) \<Longrightarrow> triple P (ret a) Q E"
  by (simp add: triple_def ret_def)

lemma then_cases:
  "andThen m f s = (r, s') \<Longrightarrow> (\<exists>e. m s = (Inl e, s') \<and> r = Inl e) \<or> (\<exists>a s1. m s = (Inr a, s1) \<and> f a s1 = (r, s'))"
  unfolding andThen_def by (auto split: prod.splits sum.splits)

lemma triple_then:
  assumes "triple P m R E" "\<And>a. triple (R a) (f a) Q E"
  shows "triple P (andThen m f) Q E"
proof (rule triple_cases)
  fix s a s' assume "P s" "andThen m f s = (Inr a, s')"
  thus "Q a s'" using then_cases [of m f s "Inr a" s'] tripleD(1) [OF assms(1)] tripleD(1) [OF assms(2)] by fastforce
next
  fix s e s' assume "P s" "andThen m f s = (Inl e, s')"
  thus "E e s'"
    using then_cases [of m f s "Inl e" s'] tripleD(2) [OF assms(1)] tripleD(1) [OF assms(1)] tripleD(2) [OF assms(2)] by fastforce
qed

lemma triple_conseq:
  assumes "triple P m Q E" "\<And>s. P' s \<Longrightarrow> P s" "\<And>a s. Q a s \<Longrightarrow> Q' a s"
  shows "triple P' m Q' E"
  by (rule triple_cases) (rule assms(3), erule tripleD(1) [OF assms(1) assms(2)], assumption, erule tripleD(2) [OF assms(1) assms(2)])

lemma triple_weaken:
  assumes "triple P m Q E" "\<And>s. P' s \<Longrightarrow> P s" "\<And>a s. Q a s \<Longrightarrow> Q' a s" "\<And>e s. E e s \<Longrightarrow> E' e s"
  shows "triple P' m Q' E'"
  by (rule triple_cases) (rule assms(3), erule tripleD(1) [OF assms(1) assms(2)], assumption,
      rule assms(4), erule tripleD(2) [OF assms(1) assms(2)], assumption)

lemma triple_pre: "triple P m Q E \<Longrightarrow> (\<And>s. P' s \<Longrightarrow> P s) \<Longrightarrow> triple P' m Q E"
  by (rule triple_conseq)

lemma triple_state:
  assumes "\<And>st. triple (\<lambda>s. P s \<and> mc_state s = st) (f st) Q E"
  shows "triple P (andThen the_state f) Q E"
proof -
  have "triple P the_state (\<lambda>st s. P s \<and> mc_state s = st) E" by (simp add: triple_def the_state_def)
  thus ?thesis by (rule triple_then) (rule assms)
qed

lemma triple_finally:
  assumes "triple P m (\<lambda>a s. Q a (g s)) (\<lambda>e s. E e (g s))"
  shows "triple P (finally_do m g) Q E"
proof (rule triple_cases)
  fix s a s' assume "P s" "finally_do m g s = (Inr a, s')"
  thus "Q a s'" using tripleD(1) [OF assms, of s a] by (auto simp: finally_do_def split: prod.splits)
next
  fix s e s' assume "P s" "finally_do m g s = (Inl e, s')"
  thus "E e s'" using tripleD(2) [OF assms, of s e] by (auto simp: finally_do_def split: prod.splits)
qed

section \<open>Invariants\<close>

text \<open>Every change of the state a handler makes; \<open>N\<close> holds of the nodes that are dispatched.\<close>

inductive mutation :: "(jstr \<Rightarrow> bool) \<Rightarrow> (SupervisorState \<Rightarrow> SupervisorState) \<Rightarrow> bool" for N where
  "mutation N (add_failure f)"
| "mutation N (mark_resolved (\<lambda>f. bf_segment f = seg \<and> bf_kind f = FAIL_gate) stamp)"
| "N n \<Longrightarrow> mutation N (mark_resolved (\<lambda>f. bf_node f = Some n) stamp)"
| "mutation N (set_escalation e)"
| "mutation N (put_node node patch stamp)"
| "mutation N (bump_attempts key)"
| "mutation N (set_green_commit head commit)"
| "mutation N set_stopped"
| "mutation N (set_segment seg phase)"
| "mutation N (note_action a)"
| "mutation N (set_bounds opts)"

lemma mutation_keeps_version: "mutation N f \<Longrightarrow> keeps_version f"
  by (induction rule: mutation.induct)
     (simp_all add: keeps_version_def add_failure_def mark_resolved_def set_escalation_def put_node_def bump_attempts_def
       set_green_commit_def set_stopped_def set_segment_def note_action_def set_bounds_def Let_def)

text \<open>Commands other than recording a gate, and workers other than those that repair a gate.\<close>

fun plain_event :: "Event \<Rightarrow> bool" where
  "plain_event (Ran c code) \<longleftrightarrow> \<not> has_prefix (js ''pnpm flow record'') c"
| "plain_event (Launched task node action n) \<longleftrightarrow> \<not> (task = TASK_repair \<and> node = None)"
| "plain_event (Reported w out) \<longleftrightarrow> True"

lemma green_gate_proves_failures: "ve_green (gate_verdict kind sources) \<Longrightarrow> proven sources Src_failureEvidence"
  by (cases kind) (simp_all add: gate_verdict_def phaseVerdict_def waveVerdict_def judge_green PHASE_SOURCES_def WAVE_SOURCES_def)

lemma failures_proven: "proven (command_sources kind r gateLog probe nodesLog failures) Src_failureEvidence \<longleftrightarrow> failures = []"
  by (simp add: proven_def command_sources_def green_source_def red_source_def)

locale machine_frame =
  fixes cx :: "'w Ctx" and I :: "'w Machine \<Rightarrow> bool" and allowed :: "SupervisorError \<Rightarrow> bool"
  assumes world: "I s \<Longrightarrow> I (s\<lparr>mc_disk := (mc_disk s)\<lparr>dk_world := w\<rparr>\<rparr>)"
    and leases: "I s \<Longrightarrow> I (s\<lparr>mc_disk := (mc_disk s)\<lparr>dk_leases := l\<rparr>\<rparr>)"
    and journals: "I s \<Longrightarrow> I (s\<lparr>mc_journal := j\<rparr>)"
begin

definition fails :: "SupervisorError \<Rightarrow> 'w Machine \<Rightarrow> bool" where
  "fails e s \<longleftrightarrow> I s \<and> allowed e"

abbreviation holds :: "('a, 'w) act \<Rightarrow> bool" where
  "holds m \<equiv> triple I m (\<lambda>_. I) fails"

lemma holdsD: "holds m \<Longrightarrow> I s \<Longrightarrow> m s = (r, s') \<Longrightarrow> I s' \<and> (case r of Inl e \<Rightarrow> allowed e | Inr _ \<Rightarrow> True)"
  by (cases r) (auto dest: tripleD simp: fails_def)

lemma holds_ret [triple_intro]: "holds (ret a)"
  by (simp add: triple_ret)

lemma holds_then [triple_intro]: "holds m \<Longrightarrow> (\<And>a. holds (f a)) \<Longrightarrow> holds (andThen m f)"
  by (rule triple_then)

lemma holds_if [triple_intro]: "(b \<Longrightarrow> holds m) \<Longrightarrow> (\<not> b \<Longrightarrow> holds m') \<Longrightarrow> holds (if b then m else m')"
  by simp

lemma holds_option [triple_intro]: "holds m \<Longrightarrow> (\<And>a. holds (f a)) \<Longrightarrow> holds (case x of None \<Rightarrow> m | Some a \<Rightarrow> f a)"
  by (cases x) simp_all

lemma holds_pair [triple_intro]: "(\<And>a b. holds (f a b)) \<Longrightarrow> holds (case x of (a, b) \<Rightarrow> f a b)"
  by (cases x) simp

lemma holds_let [triple_intro]: "(\<And>a. holds (f a)) \<Longrightarrow> holds (let a = x in f a)"
  by (simp add: Let_def)

lemma holds_state [triple_intro]: "(\<And>st. holds (f st)) \<Longrightarrow> holds (andThen the_state f)"
  by (rule triple_state) (rule triple_pre, blast+)

lemma holds_the_state [triple_intro]: "holds the_state"
  by (simp add: triple_def the_state_def)

lemma holds_world [triple_intro]: "holds (on_world f)"
  by (auto simp: triple_def on_world_def world split: prod.splits)

lemma holds_now [triple_intro]: "holds (the_now cx)" unfolding the_now_def by (rule holds_world)

lemma holds_uuid [triple_intro]: "holds (randomUUID cx)" unfolding randomUUID_def by (rule holds_world)

lemma holds_write [triple_intro]: "holds (write_text cx path txt)" unfolding write_text_def by (rule holds_world)

lemma holds_files [triple_intro]: "holds (the_files cx)" unfolding the_files_def by (rule holds_world)

lemma holds_journal [triple_intro]: "holds (journal cx change action segment node evidence)"
  unfolding journal_def by (intro holds_then holds_now tripleI) (simp add: journals)

lemma holds_segment_of [triple_intro]: "holds (segment_of action)"
  unfolding segment_of_def by (intro triple_intro)

lemma holds_spent [triple_intro]: "holds (repairsSpent segment node scope)"
  unfolding repairsSpent_def by (intro triple_intro)

lemma holds_capture [triple_intro]: "holds (captureCommand cx label r)"
  unfolding captureCommand_def by (intro triple_intro)

lemma holds_summarise [triple_intro]: "holds (summarise cx kind segment v)"
  unfolding summarise_def by (intro triple_intro)

lemma holds_each [triple_intro]: "(\<And>x. holds (f x)) \<Longrightarrow> holds (each f xs)"
  by (induction xs) (simp_all add: triple_intro)

lemma holds_read_stop [triple_intro]: "holds (on_disk (\<lambda>d. (dk_stop d, d)))"
  by (simp add: triple_def on_disk_def)

lemma holds_drop: "I s \<Longrightarrow> I (dropLease key w s)"
  unfolding dropLease_def by (rule leases)

lemma holds_finally [triple_intro]:
  assumes "holds m"
  shows "holds (finally_do m (dropLease key w))"
proof (rule triple_finally, rule triple_cases)
  fix s a s' assume "I s" "m s = (Inr a, s')"
  thus "I (dropLease key w s')" using tripleD(1) [OF assms] by (blast intro: holds_drop)
next
  fix s e s' assume "I s" "m s = (Inl e, s')"
  hence "fails e s'" by (rule tripleD(2) [OF assms])
  thus "fails e (dropLease key w s')" by (simp add: fails_def holds_drop)
qed

lemma holds_take [triple_intro]: "holds (takeLease cx key)"
proof -
  have "holds (on_disk (\<lambda>d. case acquireLease (dp_kill (cx_deps cx) (dk_world d)) call (dk_leases d) of (pc, l) \<Rightarrow> (pc, d\<lparr>dk_leases := l\<rparr>)))" for call
    by (auto simp: triple_def on_disk_def leases split: prod.splits)
  moreover have "holds (case pc of Returned (Acquired l st) \<Rightarrow> ret (Some w)
      | _ \<Rightarrow> andThen (journal cx SkippedLeased None None (Some key) []) (\<lambda>_. ret None))" for pc and w :: jstr
    by (cases pc) (auto intro!: triple_intro split: AcquireResult.split)
  ultimately show ?thesis unfolding takeLease_def by (intro triple_intro)
qed

lemma holds_reap [triple_intro]: "holds (reap_leases cx)"
proof -
  have "holds (on_disk (\<lambda>d. case reapExpired (dp_kill (cx_deps cx) (dk_world d)) t (dk_leases d) of (ls, l) \<Rightarrow> (ls, d\<lparr>dk_leases := l\<rparr>)))" for t
    by (auto simp: triple_def on_disk_def leases split: prod.splits)
  thus ?thesis unfolding reap_leases_def by (intro triple_intro)
qed

end

locale run_invariant = machine_frame cx I allowed
  for cx :: "'w Ctx" and I :: "'w Machine \<Rightarrow> bool" and allowed :: "SupervisorError \<Rightarrow> bool" +
  fixes N :: "jstr \<Rightarrow> bool" and A :: "FlowAction \<Rightarrow> bool"
  assumes commands: "I s \<Longrightarrow> dp_runCommand (cx_deps cx) c (mc_disk s) = (r, d) \<Longrightarrow> I (s\<lparr>mc_disk := d\<rparr>)"
    and workers: "I s \<Longrightarrow> dp_awaitWorker (cx_deps cx) specs (mc_disk s) = (x, d) \<Longrightarrow> I (s\<lparr>mc_disk := d\<rparr>)"
    and derives: "I s \<Longrightarrow> dp_deriveAction (cx_deps cx) (mc_disk s) = (a, d) \<Longrightarrow>
      I (s\<lparr>mc_disk := d\<rparr>) \<and> A a"
    and packets: "A a \<Longrightarrow> n \<in> set (coalesce (fa_packets a) []) \<Longrightarrow> N n"
    and events: "I s \<Longrightarrow> plain_event e \<Longrightarrow> I (s\<lparr>mc_trace := mc_trace s @ [e]\<rparr>)"
    and writes: "I s \<Longrightarrow> mutation N f \<Longrightarrow> writeState (dk_state (mc_disk s)) (f (mc_state s)) t = Inr (st, file) \<Longrightarrow>
      I (s\<lparr>mc_state := st, mc_disk := (mc_disk s)\<lparr>dk_state := file\<rparr>\<rparr>)"
    and throws: "I s \<Longrightarrow> mutation N f \<Longrightarrow> writeState (dk_state (mc_disk s)) (f (mc_state s)) t = Inl err \<Longrightarrow> allowed err"
    and directory: "allowed (ReadsDirectory p)"
begin

lemma holds_save: "mutation N f \<Longrightarrow> holds (save cx f)"
  unfolding save_def
  by (intro holds_then holds_now tripleI) (auto simp: fails_def split: sum.splits intro: writes throws)

lemmas holds_saves [triple_intro] = holds_save [OF mutation.intros(1)] holds_save [OF mutation.intros(2)]
  holds_save [OF mutation.intros(4)] holds_save [OF mutation.intros(5)] holds_save [OF mutation.intros(6)]
  holds_save [OF mutation.intros(7)] holds_save [OF mutation.intros(8)] holds_save [OF mutation.intros(9)]
  holds_save [OF mutation.intros(10)] holds_save [OF mutation.intros(11)]

lemma holds_emit: "plain_event e \<Longrightarrow> holds (emit_event e)"
  by (simp add: triple_def emit_event_def events)

lemma holds_reported [triple_intro]: "holds (emit_event (Reported w out))"
  by (rule holds_emit) simp

lemma holds_command: "\<not> has_prefix (js ''pnpm flow record'') c \<Longrightarrow> holds (runCommand cx c)"
proof -
  assume c: "\<not> has_prefix (js ''pnpm flow record'') c"
  have "holds (on_disk (dp_runCommand (cx_deps cx) c))"
    by (auto simp: triple_def on_disk_def split: prod.splits intro: commands)
  moreover have "holds (emit_event (Ran c code))" for code by (rule holds_emit) (simp add: c)
  ultimately show ?thesis unfolding runCommand_def by (intro triple_intro)
qed

lemma plain_commands: "\<not> has_prefix (js ''pnpm flow record'') (gate_command kind)"
  "\<not> has_prefix (js ''pnpm flow record'') (js ''pnpm oracle status'')"
  "\<not> has_prefix (js ''pnpm flow record'') (js ''git rev-parse HEAD'')"
  by (simp_all add: gate_command_def js_unfold)

lemmas holds_commands [triple_intro] = plain_commands [THEN holds_command]

lemma holds_await [triple_intro]: "holds (on_disk (dp_awaitWorker (cx_deps cx) specs))"
  by (auto simp: triple_def on_disk_def split: prod.splits intro: workers)

lemma holds_failure [triple_intro]: "holds (recordFailure cx kind segment node detail evidence)"
  unfolding recordFailure_def by (intro triple_intro)

lemma holds_resolve_gate [triple_intro]: "holds (resolveFailures cx (\<lambda>f. bf_segment f = seg \<and> bf_kind f = FAIL_gate))"
  unfolding resolveFailures_def by (intro triple_intro)

lemma holds_resolve_node: "N n \<Longrightarrow> holds (resolveFailures cx (\<lambda>f. bf_node f = Some n))"
  unfolding resolveFailures_def by (intro holds_then holds_now holds_save mutation.intros)

lemma holds_escalate [triple_intro]: "holds (escalate cx trigger segment node reason options evidence)"
  unfolding escalate_def by (intro triple_intro)

lemma holds_escalated [triple_intro]: "holds m \<Longrightarrow> holds (escalated m)"
  unfolding escalated_def by (intro triple_intro)

lemma holds_exhausted [triple_intro]: "holds (escalationForRepairExhaustion cx segment node evidence reason)"
  unfolding escalationForRepairExhaustion_def by (intro triple_intro)

lemma holds_blocked [triple_intro]: "holds (blocked_by_worker cx trigger segment node report evidence)"
  unfolding blocked_by_worker_def by (intro triple_intro)

lemma holds_answer [triple_intro]: "holds (worker_answer cx trigger segment evidence result)"
  unfolding worker_answer_def by (intro triple_intro)

lemma holds_passed [triple_intro]: "holds (gate_passed cx segment)"
  unfolding gate_passed_def by (intro triple_intro)

lemma holds_setNode [triple_intro]: "holds (setNode cx node patch)"
  unfolding setNode_def by (intro triple_intro)

lemma holds_bump [triple_intro]: "holds (bumpRepair cx segment node scope)"
  unfolding bumpRepair_def by (intro triple_intro)

lemma holds_start: "plain_event (Launched task node action attempt) \<Longrightarrow> holds (startWorker cx task node action attempt)"
  unfolding startWorker_def by (intro triple_intro holds_emit) 

lemma holds_finish [triple_intro]: "holds (finishWorker cx action spec result)"
  unfolding finishWorker_def by (intro triple_intro)

lemma holds_dispatch: "plain_event (Launched task node action attempt) \<Longrightarrow> holds (dispatchWorker cx task node action attempt)"
  unfolding dispatchWorker_def by (intro triple_intro holds_start)

lemma holds_lease [triple_intro]: "holds m \<Longrightarrow> holds (withLease cx key m)"
  unfolding withLease_def by (intro triple_intro)

lemma holds_reap_leases [triple_intro]: "holds (reap_leases cx)"
  by (rule holds_reap)

text \<open>Actions whose result satisfies \<open>Q\<close> besides.\<close>

abbreviation holds_with :: "('a, 'w) act \<Rightarrow> ('a \<Rightarrow> bool) \<Rightarrow> bool" where
  "holds_with m Q \<equiv> triple I m (\<lambda>a s. I s \<and> Q a) fails"

lemma holds_with_then:
  assumes "holds_with m Q" "\<And>a. Q a \<Longrightarrow> triple I (f a) R fails"
  shows "triple I (andThen m f) R fails"
  by (rule triple_then [OF assms(1)]) (auto simp: triple_def dest: assms(2) [unfolded triple_def, rule_format])

lemma holds_with_ret: "Q a \<Longrightarrow> holds_with (ret a) Q"
  by (simp add: triple_ret)

lemma holds_with_mono: "holds_with m Q \<Longrightarrow> (\<And>a. Q a \<Longrightarrow> R a) \<Longrightarrow> holds_with m R"
  by (erule triple_conseq) auto

lemma holds_with_any: "holds m \<Longrightarrow> holds_with m (\<lambda>_. True)"
  by (erule triple_conseq) auto

lemma holds_with_each: "(\<And>x. x \<in> set xs \<Longrightarrow> holds_with (f x) Q) \<Longrightarrow> holds_with (each f xs) (\<lambda>ys. \<forall>y \<in> set ys. Q y)"
proof (induction xs)
  case (Cons x xs)
  have "holds_with (each f xs) (\<lambda>ys. \<forall>y \<in> set ys. Q y)" using Cons by simp
  moreover have "holds_with (f x) Q" using Cons.prems by simp
  ultimately show ?case by (auto intro!: holds_with_then holds_with_ret)
qed (simp add: holds_with_ret)

lemma holds_with_start:
  assumes "N node"
  shows "holds_with (start_one cx action node) (\<lambda>r. \<forall>x. r = Some x \<longrightarrow> N (fst x))"
proof -
  have drop: "holds_with (\<lambda>s. case m s of (Inl e, s') \<Rightarrow> (Inl e, dropLease node l s') | (Inr spec, s') \<Rightarrow> (Inr (Some (node, l, spec)), s'))
      (\<lambda>r. \<forall>x. r = Some x \<longrightarrow> N (fst x))" if m: "holds m" for l and m :: "(WorkerSpec, 'w) act"
  proof (rule triple_cases)
    fix s a s' assume "I s" "(case m s of (Inl e, s') \<Rightarrow> (Inl e, dropLease node l s') | (Inr spec, s') \<Rightarrow> (Inr (Some (node, l, spec)), s')) = (Inr a, s')"
    thus "I s' \<and> (\<forall>x. a = Some x \<longrightarrow> N (fst x))" using assms by (auto split: prod.splits sum.splits dest: tripleD(1) [OF m])
  next
    fix s e s' assume s: "I s" "(case m s of (Inl e, s') \<Rightarrow> (Inl e, dropLease node l s') | (Inr spec, s') \<Rightarrow> (Inr (Some (node, l, spec)), s')) = (Inl e, s')"
    then obtain s1 where "m s = (Inl e, s1)" "s' = dropLease node l s1" by (auto split: prod.splits sum.splits)
    thus "fails e s'" using tripleD(2) [OF m s(1)] by (auto simp: fails_def holds_drop)
  qed
  have "holds (andThen the_state (\<lambda>st.
      let isRepair = (case map_of (ss_nodes st) node of Some r \<Rightarrow> nr_status r = NODE_REPAIR | None \<Rightarrow> False)
      in andThen (segment_of action) (\<lambda>segment. andThen (repairsSpent segment (Some node) None) (\<lambda>spent.
         startWorker cx (if isRepair then TASK_repair else TASK_dispatch) (Some node) action (spent + 1)))))"
    by (intro triple_intro holds_start) simp
  note b = drop [OF this]
  show ?thesis
    unfolding start_one_def
  proof (rule holds_with_then [OF holds_with_any [OF holds_take]])
    fix got :: "jstr option"
    show "holds_with (case got of None \<Rightarrow> ret None | Some leaseId \<Rightarrow> (\<lambda>s. case andThen the_state (\<lambda>st.
        let isRepair = (case map_of (ss_nodes st) node of Some r \<Rightarrow> nr_status r = NODE_REPAIR | None \<Rightarrow> False)
        in andThen (segment_of action) (\<lambda>segment. andThen (repairsSpent segment (Some node) None) (\<lambda>spent.
           startWorker cx (if isRepair then TASK_repair else TASK_dispatch) (Some node) action (spent + 1)))) s of
          (Inl e, s') \<Rightarrow> (Inl e, dropLease node leaseId s') | (Inr spec, s') \<Rightarrow> (Inr (Some (node, leaseId, spec)), s')))
        (\<lambda>r. \<forall>x. r = Some x \<longrightarrow> N (fst x))"
      using b by (cases got) (simp_all add: holds_with_ret)
  qed
qed

lemma holds_with_caught:
  assumes "holds_with m Q"
  shows "holds_with (caught m) (\<lambda>r. (\<forall>err. r = Inl err \<longrightarrow> allowed err) \<and> (\<forall>a. r = Inr a \<longrightarrow> Q a))"
proof (rule triple_cases)
  fix s r s' assume s: "I s" "caught m s = (Inr r, s')"
  hence "m s = (r, s')" by (auto simp: caught_def split: prod.splits)
  thus "I s' \<and> (\<forall>err. r = Inl err \<longrightarrow> allowed err) \<and> (\<forall>a. r = Inr a \<longrightarrow> Q a)"
    using tripleD [OF assms s(1)] by (cases r) (auto simp: fails_def)
qed (auto simp: caught_def split: prod.splits)

lemma holds_with_throw:
  fixes rs :: "(SupervisorError + 'b) list"
  assumes "\<forall>r \<in> set rs. (\<forall>err. r = Inl err \<longrightarrow> allowed err) \<and> (\<forall>a. r = Inr a \<longrightarrow> Q a)"
  shows "holds_with (throw_first rs) (\<lambda>xs. \<forall>x \<in> set xs. Q x)"
proof (cases "List.find isl rs")
  case None
  hence "\<forall>r \<in> set rs. \<not> isl r" by (auto simp: find_None_iff)
  hence "Q (projr r)" if "r \<in> set rs" for r using assms that by (cases r) auto
  thus ?thesis using None by (simp add: throw_first_def triple_def)
next
  case (Some r)
  hence "isl r" "r \<in> set rs" by (auto simp: find_Some_iff)
  then obtain err where "r = Inl err" "allowed err" using assms by (cases r) auto
  thus ?thesis using Some by (simp add: throw_first_def triple_def fails_def)
qed

lemma holds_with_await:
  "(\<forall>p \<in> set pending. N (fst (snd p))) \<Longrightarrow> holds_with (await_all k cx action pending) (\<lambda>rs. \<forall>r \<in> set rs. N (fst (snd r)))"
proof (induction k arbitrary: pending)
  case (Suc k)
  show ?case
  proof (cases "pending = []")
    case False
    have one: "holds_with (let j = i mod length pending; (place, node, leaseId, spec) = pending ! j
        in andThen (finally_do (finishWorker cx action spec result) (dropLease node leaseId)) (\<lambda>_.
           andThen (await_all k cx action (take j pending @ drop (Suc j) pending)) (\<lambda>rest. ret ((place, node, result) # rest))))
        (\<lambda>rs. \<forall>r \<in> set rs. N (fst (snd r)))" for i result
    proof -
      let ?j = "i mod length pending"
      obtain place node leaseId spec where p: "pending ! ?j = (place, node, leaseId, spec)" by (metis prod_cases4)
      have "?j < length pending" using False by simp
      hence n: "N node" using Suc.prems p nth_mem [of ?j pending] by fastforce
      have "\<forall>p \<in> set (take ?j pending @ drop (Suc ?j) pending). N (fst (snd p))"
        using Suc.prems by (auto dest: in_set_takeD in_set_dropD)
      note rest = Suc.IH [OF this]
      show ?thesis
        unfolding Let_def p prod.case
        by (rule holds_with_then [OF holds_with_any [OF holds_finally [OF holds_finish]]], rule holds_with_then [OF rest])
           (simp add: holds_with_ret n)
    qed
    show ?thesis
      unfolding await_all.simps if_not_P [OF False]
    proof (rule holds_with_then [OF holds_with_any [OF holds_await]])
      fix x :: "nat \<times> WorkerResult"
      obtain i result where x: "x = (i, result)" by (cases x)
      show "holds_with (case x of (i, result) \<Rightarrow> let j = i mod length pending; (place, node, leaseId, spec) = pending ! j
          in andThen (finally_do (finishWorker cx action spec result) (dropLease node leaseId)) (\<lambda>_.
             andThen (await_all k cx action (take j pending @ drop (Suc j) pending)) (\<lambda>rest. ret ((place, node, result) # rest))))
          (\<lambda>rs. \<forall>r \<in> set rs. N (fst (snd r)))"
        unfolding x prod.case by (rule one)
    qed
  qed (simp add: holds_with_ret)
qed (simp add: holds_with_ret)

lemma holds_with_batch:
  assumes "\<forall>node \<in> set batch. N node"
  shows "holds_with (run_batch cx action batch) (\<lambda>rs. \<forall>r \<in> set rs. N (fst r))"
proof -
  let ?Q = "\<lambda>r :: (jstr \<times> jstr \<times> WorkerSpec) option. \<forall>x. r = Some x \<longrightarrow> N (fst x)"
  have "holds_with (caught (start_one cx action node)) (\<lambda>r. (\<forall>err. r = Inl err \<longrightarrow> allowed err) \<and> (\<forall>a. r = Inr a \<longrightarrow> ?Q a))"
    if "node \<in> set batch" for node
    using that assms by (intro holds_with_caught holds_with_start) simp
  note started = holds_with_each [where f = "\<lambda>node. caught (start_one cx action node)", OF this]
  have pending: "\<forall>p \<in> set (List.map_filter (\<lambda>(i, x). map_option (\<lambda>(node, l, spec). (i, node, l, spec)) x) (List.enumerate 0 xs)).
      N (fst (snd p))" if "\<forall>x \<in> set xs. ?Q x" for xs :: "(jstr \<times> jstr \<times> WorkerSpec) option list"
    using that by (auto simp: List.map_filter_def dest!: in_set_enumerate_eq [THEN iffD1] split: prod.splits) (metis fst_conv nth_mem)+
  show ?thesis
    unfolding run_batch_def Let_def
  proof (rule holds_with_then, rule started, assumption, rule holds_with_then, rule holds_with_throw, assumption)
    fix xs :: "(jstr \<times> jstr \<times> WorkerSpec) option list"
    assume "\<forall>x \<in> set xs. ?Q x"
    from holds_with_await [OF pending [OF this]] holds_with_ret
    show "holds_with (andThen (await_all (length (List.map_filter (\<lambda>(i, x). map_option (\<lambda>(node, l, spec). (i, node, l, spec)) x) (List.enumerate 0 xs)))
        cx action (List.map_filter (\<lambda>(i, x). map_option (\<lambda>(node, l, spec). (i, node, l, spec)) x) (List.enumerate 0 xs)))
        (\<lambda>results. ret (map snd (sort_key fst results)))) (\<lambda>rs. \<forall>r \<in> set rs. N (fst r))"
      by (rule holds_with_then) auto
  qed
qed

lemma holds_result: "N node \<Longrightarrow> holds (handle_result cx segment node result)"
  unfolding handle_result_def Let_def
  by (cases "wr_outcome result") (simp_all only: WorkerOutcome.case, (intro triple_intro holds_resolve_node | assumption)+)

lemma holds_results: "\<forall>r \<in> set rs. N (fst r) \<Longrightarrow> holds (handle_results cx segment rs)"
proof (induction rs)
  case (Cons r rs)
  obtain node result where "r = (node, result)" by (cases r)
  thus ?case using Cons by (auto intro!: triple_intro holds_result)
qed (simp add: holds_ret)

lemma holds_handle_dispatch:
  assumes "A action"
  shows "holds (handleDispatch cx action)"
proof -
  let ?ps = "coalesce (fa_packets action) []"
  have "\<forall>node \<in> set (if fa_mode action = Some Parallel then take (op_concurrency (cx_opts cx)) ?ps else take 1 ?ps). N node"
    using packets [OF assms] by (auto split: if_splits dest: in_set_takeD)
  note b = holds_with_batch [OF this]
  have "holds (andThen (run_batch cx action (if fa_mode action = Some Parallel then take (op_concurrency (cx_opts cx)) ?ps else take 1 ?ps))
      (\<lambda>results. handle_results cx segment results))" for segment
    by (rule holds_with_then [OF b]) (rule holds_results)
  thus ?thesis unfolding handleDispatch_def Let_def by (intro holds_then [OF holds_segment_of] holds_if holds_ret)
qed

lemma holds_segment_worker: "task \<noteq> TASK_repair \<Longrightarrow> holds (segment_worker cx action segment key task attempt)"
  unfolding segment_worker_def by (intro triple_intro holds_dispatch) simp_all

lemma holds_checkpoint [triple_intro]: "holds (updateCheckpointSegment cx segment)"
proof -
  have "holds (\<lambda>s. case files path of Some Directory \<Rightarrow> (Inl (ReadsDirectory path), s)
      | None \<Rightarrow> write_text cx path (PlainText (updated_checkpoint segment None)) s
      | Some (File t) \<Rightarrow> write_text cx path (PlainText (updated_checkpoint segment (Some t))) s)" for files path
  proof (cases "files path")
    case (Some x)
    thus ?thesis by (cases x) (simp_all add: holds_write, simp add: triple_def fails_def directory)
  qed (simp add: holds_write)
  thus ?thesis unfolding updateCheckpointSegment_def Let_def by (intro triple_intro)
qed

text \<open>A step keeps the invariant when its gates do.\<close>

lemma holds_step:
  assumes "A action" "\<And>kind. fa_action action = (if kind = PhaseGate then PHASE_GATE else WAVE_GATE) \<Longrightarrow> holds (handleGate cx action kind)"
  shows "holds (step cx action)"
proof -
  have "holds (handleGate cx action WaveGate)" if "fa_action action = WAVE_GATE" using assms(2) [of WaveGate] that by simp
  moreover have "holds (handleGate cx action PhaseGate)" if "fa_action action = PHASE_GATE" using assms(2) [of PhaseGate] that by simp
  ultimately show ?thesis
    unfolding step_def Let_def
    by (cases "fa_action action")
       (simp_all only: FlowActionKind.case, (intro triple_intro holds_segment_worker holds_handle_dispatch assms(1) | simp)+)
qed

lemma holds_round:
  assumes "\<And>a sig n. holds (again a sig n)"
    "\<And>action kind. A action \<Longrightarrow> fa_action action = (if kind = PhaseGate then PHASE_GATE else WAVE_GATE) \<Longrightarrow> holds (handleGate cx action kind)"
  shows "holds (supervise_round again cx i signature repeats)"
proof -
  have "holds_with (on_disk (dp_deriveAction (cx_deps cx))) A"
    by (auto simp: triple_def on_disk_def split: prod.splits dest: derives)
  moreover have "holds (stuck_run cx action sig n)" for action sig n
    unfolding stuck_run_def Let_def by (intro triple_intro)
  ultimately show ?thesis
    unfolding supervise_round_def Let_def
    by (intro holds_then [OF holds_reap] holds_with_then [where Q = A])
       (assumption, intro triple_intro holds_step assms, assumption+)
qed

lemma holds_loop:
  assumes "\<And>action kind. A action \<Longrightarrow> fa_action action = (if kind = PhaseGate then PHASE_GATE else WAVE_GATE) \<Longrightarrow> holds (handleGate cx action kind)"
  shows "holds (supervise_loop k cx i a signature repeats)"
proof (induction k arbitrary: i a signature repeats)
  case (Suc k)
  show ?case
    unfolding supervise_loop.simps by (intro triple_intro holds_round Suc assms, assumption+)
qed (simp add: holds_ret)

lemma holds_with_sources:
  "holds_with (worker_sources cx kind segment gateLog evidence spec worker sources)
     (\<lambda>m. m Src_failureEvidence = sources Src_failureEvidence)"
proof (cases "kind = WaveGate")
  case True
  thus ?thesis by (simp add: worker_sources_def holds_with_ret)
next
  case False
  have "holds_with (\<lambda>s. case checkDodArtifact files path of Inl e \<Rightarrow> (Inl e, s)
      | Inr dod \<Rightarrow> (Inr (sources(Src_definitionOfDone := x dod, Src_artifacts := y)), s)) (\<lambda>m. m Src_failureEvidence = sources Src_failureEvidence)"
    for files path x y
    by (cases "checkDodArtifact files path")
       (auto simp: triple_def fails_def checkDodArtifact_def directory Let_def split: option.splits FileEntry.splits)
  thus ?thesis
    unfolding worker_sources_def if_not_P [OF False] by (intro holds_with_then [OF holds_with_any [OF holds_files]])
qed

lemma holds_gate_worker:
  assumes "\<And>ev v. proven sources Src_failureEvidence \<Longrightarrow> holds (record_gate cx kind action segment ev v)"
  shows "holds (gate_worker cx action kind segment gateLog sources)"
proof -
  have "holds (conclude_gate cx action kind segment ev (gate_verdict kind measured))"
    if "measured Src_failureEvidence = sources Src_failureEvidence" for measured ev
  proof -
    have "holds (record_gate cx kind action segment ev v)" if "ve_green (gate_verdict kind measured)" for ev v
      using green_gate_proves_failures [OF that] \<open>measured _ = _\<close> by (intro assms) (simp add: proven_def)
    thus ?thesis unfolding conclude_gate_def Let_def by (intro holds_then [OF holds_summarise] holds_if holds_ret) simp
  qed
  hence "holds (settle_gate cx action kind segment gateLog sources w)" for w
    unfolding settle_gate_def Let_def by (intro holds_pair holds_with_then [OF holds_with_sources])
  moreover have "holds (dispatchWorker cx (gate_task kind) None action n)" for n
    by (rule holds_dispatch) (simp add: gate_task_def)
  ultimately show ?thesis unfolding gate_worker_def by (intro holds_then [OF holds_spent] holds_then)
qed

lemma holds_run_gate:
  assumes "\<And>s segment ev v. I s \<Longrightarrow> failuresBlockingGate (mc_state s) segment = [] \<Longrightarrow> holds (record_gate cx kind action segment ev v)"
  shows "holds (runGate cx action kind)"
proof -
  have "triple (\<lambda>s. I s \<and> mc_state s = st)
      (judge_gate cx action kind segment r gateLog (command_sources kind r gateLog probe nodesLog (failuresBlockingGate st segment)))
      (\<lambda>_. I) fails" for st r gateLog probe nodesLog segment
  proof (cases "\<exists>s. I s \<and> mc_state s = st")
    case True
    then obtain s where s: "I s" "mc_state s = st" by blast
    have "holds (gate_worker cx action kind segment gateLog
        (command_sources kind r gateLog probe nodesLog (failuresBlockingGate st segment)))"
      using s by (intro holds_gate_worker assms [OF s(1)]) (simp add: failures_proven)
    hence "holds (judge_gate cx action kind segment r gateLog
        (command_sources kind r gateLog probe nodesLog (failuresBlockingGate st segment)))"
      unfolding judge_gate_def Let_def by (intro holds_if holds_then [OF holds_summarise] holds_ret)
    thus ?thesis by (rule triple_pre) simp
  qed (auto simp: triple_def)
  thus ?thesis
    unfolding runGate_def
    by (intro holds_then [OF holds_segment_of] holds_then [OF holds_capture] holds_then holds_commands triple_state)
qed

text \<open>Handling a gate, when the workers that repair a gate do no harm.\<close>

lemma holds_handle_gate:
  assumes "holds (runGate cx action kind)" "\<And>n. holds (emit_event (Launched TASK_repair None action n))"
  shows "holds (handleGate cx action kind)"
proof -
  have "holds (startWorker cx TASK_repair None action n)" for n
    unfolding startWorker_def by (intro triple_intro assms(2))
  hence "holds (dispatchWorker cx TASK_repair None action n)" for n
    unfolding dispatchWorker_def by (intro triple_intro)
  thus ?thesis unfolding handleGate_def gate_held_def repair_gate_def Let_def by (intro triple_intro assms(1))
qed

lemma holds_record_gate:
  assumes "\<And>c code. holds (emit_event (Ran c code))"
  shows "holds (record_gate cx kind action segment ev v)"
proof -
  have "holds (on_disk (dp_runCommand (cx_deps cx) c))" for c
    by (auto simp: triple_def on_disk_def split: prod.splits intro: commands)
  hence "holds (runCommand cx c)" for c unfolding runCommand_def by (intro triple_intro assms)
  thus ?thesis unfolding record_gate_def by (intro triple_intro)
qed

text \<open>A whole run.\<close>

lemma holds_run:
  assumes "\<And>action kind. A action \<Longrightarrow> fa_action action = (if kind = PhaseGate then PHASE_GATE else WAVE_GATE) \<Longrightarrow> holds (handleGate cx action kind)"
  shows "holds (supervise_run cx)"
  unfolding supervise_run_def by (intro triple_intro holds_loop assms)

end

end
