(* ===== verification/Autopilot_Gates.thy ===== *)
theory Autopilot_Gates
  imports Autopilot_Safe
begin

text \<open>
  When a gate is recorded: the events of \<^verbatim>\<open>runGate\<close> in order, and what each of its sources has to show.
\<close>

section \<open>Actions that leave state and trace alone\<close>

definition quiet :: "('a, 'w) act \<Rightarrow> bool" where
  "quiet m \<longleftrightarrow> (\<forall>s. \<exists>a s'. m s = (Inr a, s') \<and> mc_state s' = mc_state s \<and> mc_trace s' = mc_trace s)"

named_theorems quiet_intro "actions that leave state and trace alone"

lemma quietE:
  assumes "quiet m"
  obtains a s' where "m s = (Inr a, s')" "mc_state s' = mc_state s" "mc_trace s' = mc_trace s"
  using assms unfolding quiet_def by blast

lemma quiet_ret [quiet_intro]: "quiet (ret a)"
  by (simp add: quiet_def ret_def)

lemma quiet_world [quiet_intro]: "quiet (on_world f)"
  by (simp add: quiet_def on_world_def split: prod.split)

lemma quiet_then [quiet_intro]:
  assumes "quiet m" "\<And>a. quiet (f a)"
  shows "quiet (andThen m f)"
  unfolding quiet_def
proof
  fix s
  obtain a s1 where m: "m s = (Inr a, s1)" "mc_state s1 = mc_state s" "mc_trace s1 = mc_trace s" by (rule quietE [OF assms(1)])
  obtain b s2 where "f a s1 = (Inr b, s2)" "mc_state s2 = mc_state s1" "mc_trace s2 = mc_trace s1" by (rule quietE [OF assms(2)])
  thus "\<exists>a s'. andThen m f s = (Inr a, s') \<and> mc_state s' = mc_state s \<and> mc_trace s' = mc_trace s"
    using m by (auto simp: andThen_def)
qed

lemma quiet_journal [quiet_intro]: "quiet (journal cx change action segment node evidence)"
  unfolding journal_def the_now_def by (rule quiet_then [OF quiet_world]) (simp add: quiet_def)

lemma quiet_capture [quiet_intro]: "quiet (captureCommand cx label r)"
  unfolding captureCommand_def write_text_def Let_def by (intro quiet_intro)

lemma quiet_summarise [quiet_intro]: "quiet (summarise cx kind segment v)"
  unfolding summarise_def write_text_def the_now_def Let_def by (intro quiet_intro)

text \<open>Running an action to its result.\<close>

lemma then_quiet:
  assumes "andThen m f s = (r, s')" "quiet m"
  obtains a s1 where "f a s1 = (r, s')" "mc_state s1 = mc_state s" "mc_trace s1 = mc_trace s"
proof -
  obtain a s1 where "m s = (Inr a, s1)" "mc_state s1 = mc_state s" "mc_trace s1 = mc_trace s" by (rule quietE [OF assms(2)])
  thus thesis using assms(1) that by (simp add: andThen_def)
qed

lemma then_command:
  assumes "andThen (runCommand cx c) f s = (r, s')"
  obtains x s1 where "f x s1 = (r, s')" "mc_state s1 = mc_state s" "mc_trace s1 = mc_trace s @ [Ran c (cr_code x)]"
  using assms by (auto simp: runCommand_def andThen_def on_disk_def emit_event_def ret_def split: prod.splits)

lemma then_worker:
  assumes "andThen (dispatchWorker cx task None action n) f s = (r, s')"
  obtains spec worker s1 where "f (spec, worker) s1 = (r, s')" "mc_state s1 = mc_state s"
    "mc_trace s1 = mc_trace s @ [Launched task None action n, Reported (wk_workerId spec) (wr_outcome worker)]"
proof -
  have start: "\<exists>spec s1. startWorker cx task None action n s = (Inr spec, s1) \<and> mc_state s1 = mc_state s \<and>
      mc_trace s1 = mc_trace s @ [Launched task None action n] \<and> wk_node spec = None" for s
    unfolding startWorker_def randomUUID_def segment_of_def journal_def the_now_def write_text_def Let_def
    by (auto simp: andThen_def on_world_def the_state_def ret_def emit_event_def split: prod.splits)
  have finish: "\<exists>s2. finishWorker cx action spec worker s = (Inr (), s2) \<and> mc_state s2 = mc_state s \<and>
      mc_trace s2 = mc_trace s @ [Reported (wk_workerId spec) (wr_outcome worker)]" if "wk_node spec = None" for spec worker s
    using that unfolding finishWorker_def journal_def the_now_def
    by (auto simp: andThen_def on_world_def ret_def emit_event_def split: prod.splits)
  obtain spec s1 where s1: "startWorker cx task None action n s = (Inr spec, s1)" "mc_state s1 = mc_state s"
    "mc_trace s1 = mc_trace s @ [Launched task None action n]" "wk_node spec = None" using start by blast
  obtain i worker d where d: "dp_awaitWorker (cx_deps cx) [spec] (mc_disk s1) = ((i, worker), d)" by (metis surj_pair)
  obtain s2 where s2: "finishWorker cx action spec worker (s1\<lparr>mc_disk := d\<rparr>) = (Inr (), s2)" "mc_state s2 = mc_state s1"
    "mc_trace s2 = mc_trace s1 @ [Reported (wk_workerId spec) (wr_outcome worker)]" using finish [OF s1(4), of worker "s1\<lparr>mc_disk := d\<rparr>"] by auto
  have "dispatchWorker cx task None action n s = (Inr (spec, worker), s2)"
    using s1(1) d s2(1) by (simp add: dispatchWorker_def andThen_def on_disk_def ret_def)
  hence "f (spec, worker) s2 = (r, s')" using assms by (simp add: andThen_def)
  thus thesis using that s1 s2 by simp
qed

section \<open>The sources of a green gate\<close>

lemma record_gate_result:
  assumes "record_gate cx kind action segment evidence v s = (Inr out, s')"
  shows "mc_state s' = mc_state s \<and> go_evidence out = evidence \<and>
    (\<exists>code. mc_trace s' = mc_trace s @ [Ran (record_command kind segment (coalesce (fa_packets action) []) evidence) code] \<and>
       (go_recorded out \<longleftrightarrow> code = Some 0))"
proof -
  let ?c = "record_command kind segment (coalesce (fa_packets action) []) evidence"
  obtain x s1 where 1: "andThen (captureCommand cx (gate_label kind segment (js ''record'')) x) (\<lambda>_.
     if cr_code x \<noteq> Some 0 then
       ret \<lparr>go_recorded = False,
         go_verdict = v\<lparr>ve_green := False, ve_verdict := verdict_of kind False,
           ve_blockers := ve_blockers v @ [\<lparr>bl_source = Src_record, bl_verdict = RED, bl_why = RecordExited (cr_code x) (js_trim (cr_stderr x))\<rparr>]\<rparr>,
         go_evidence = evidence\<rparr>
     else andThen (journal cx (if kind = PhaseGate then PhaseGreen else WaveGreen) (Some (fa_action action)) segment None evidence) (\<lambda>_.
       ret \<lparr>go_recorded = True, go_verdict = v, go_evidence = evidence\<rparr>)) s1 = (Inr out, s')"
    and t: "mc_state s1 = mc_state s" "mc_trace s1 = mc_trace s @ [Ran ?c (cr_code x)]"
    using assms unfolding record_gate_def by (rule then_command)
  obtain p s2 where 2: "(if cr_code x \<noteq> Some 0 then
       ret \<lparr>go_recorded = False,
         go_verdict = v\<lparr>ve_green := False, ve_verdict := verdict_of kind False,
           ve_blockers := ve_blockers v @ [\<lparr>bl_source = Src_record, bl_verdict = RED, bl_why = RecordExited (cr_code x) (js_trim (cr_stderr x))\<rparr>]\<rparr>,
         go_evidence = evidence\<rparr>
     else andThen (journal cx (if kind = PhaseGate then PhaseGreen else WaveGreen) (Some (fa_action action)) segment None evidence) (\<lambda>_.
       ret \<lparr>go_recorded = True, go_verdict = v, go_evidence = evidence\<rparr>)) s2 = (Inr out, s')"
    and t2: "mc_state s2 = mc_state s1" "mc_trace s2 = mc_trace s1"
    using 1 by (rule then_quiet) (rule quiet_capture)
  show ?thesis
  proof (cases "cr_code x = Some 0")
    case True
    hence "andThen (journal cx (if kind = PhaseGate then PhaseGreen else WaveGreen) (Some (fa_action action)) segment None evidence) (\<lambda>_.
       ret \<lparr>go_recorded = True, go_verdict = v, go_evidence = evidence\<rparr>) s2 = (Inr out, s')" using 2 by simp
    then obtain s3 where "ret \<lparr>go_recorded = True, go_verdict = v, go_evidence = evidence\<rparr> s3 = (Inr out, s')"
      "mc_state s3 = mc_state s2" "mc_trace s3 = mc_trace s2" by (rule then_quiet) (rule quiet_journal)
    thus ?thesis using True t t2 by (auto simp: ret_def)
  next
    case False
    thus ?thesis using 2 t t2 by (auto simp: ret_def)
  qed
qed

lemma agent_green: "so_verdict (agent_source cx spec worker) = GREEN \<longleftrightarrow> wr_outcome worker = OUT_DONE"
  by (simp add: agent_source_def green_source_def red_source_def)

text \<open>What the sources of a worker say when they are proven.\<close>

lemma worker_sources_result:
  assumes "worker_sources cx kind segment gateLog evidence spec worker sources s = (Inr measured, s')"
  shows "mc_state s' = mc_state s \<and> mc_trace s' = mc_trace s \<and>
    (\<forall>n \<in> {Src_nodes, Src_gates, Src_failureEvidence}. measured n = sources n) \<and>
    (ve_green (gate_verdict kind measured) \<longrightarrow> wr_outcome worker = OUT_DONE \<and>
       (kind = PhaseGate \<longrightarrow> (\<exists>w k. checkDodArtifact (dp_files (cx_deps cx) w) (dod_path cx kind segment) = Inr (Some k) \<and>
          checkEvidencePaths cx (dp_files (cx_deps cx) w) evidence)))"
proof (cases "kind = WaveGate")
  case True
  hence m: "measured = sources(Src_validation := Some (agent_source cx spec worker))" "s' = s" using assms by (auto simp: worker_sources_def ret_def)
  have "wr_outcome worker = OUT_DONE" if "ve_green (gate_verdict kind measured)"
    using that True m by (simp add: gate_verdict_def waveVerdict_def judge_green WAVE_SOURCES_def proven_def agent_green)
  thus ?thesis using m True by simp
next
  case False
  hence k: "kind = PhaseGate" by (cases kind) simp_all
  let ?w = "dk_world (mc_disk s)"
  let ?files = "dp_files (cx_deps cx) ?w"
  obtain dod where d: "checkDodArtifact ?files (dod_path cx kind segment) = Inr dod"
    and m: "measured = sources(Src_definitionOfDone := Some (dod_source cx (dod_path cx kind segment) dod worker),
      Src_artifacts := Some (artifacts_source cx ?files gateLog evidence))" "mc_state s' = mc_state s" "mc_trace s' = mc_trace s"
    using assms k by (auto simp: worker_sources_def andThen_def the_files_def on_world_def split: sum.splits)
  have "wr_outcome worker = OUT_DONE \<and> (\<exists>j. dod = Some j) \<and> checkEvidencePaths cx ?files evidence"
    if "ve_green (gate_verdict kind measured)"
    using that k m(1)
    by (auto simp: gate_verdict_def phaseVerdict_def judge_green PHASE_SOURCES_def proven_def dod_source_def artifacts_source_def
        green_source_def red_source_def split: if_splits)
  thus ?thesis using d m by auto
qed

section \<open>Recording a gate\<close>

text \<open>What a recorded gate leaves behind in the trace, and what was true when it was recorded.\<close>

definition gate_proof :: "'w Ctx \<Rightarrow> GateKind \<Rightarrow> FlowAction \<Rightarrow> jstr option \<Rightarrow> GateOutcome \<Rightarrow> Event list \<Rightarrow> bool" where
  "gate_proof cx kind action segment out new \<longleftrightarrow>
     (\<exists>n worker. new = [Launched (gate_task kind) None action n, Reported worker OUT_DONE,
        Ran (record_command kind segment (coalesce (fa_packets action) []) (go_evidence out)) (Some 0)]) \<and>
     (kind = PhaseGate \<longrightarrow> (\<exists>w k paths summary. checkDodArtifact (dp_files (cx_deps cx) w) (dod_path cx kind segment) = Inr (Some k) \<and>
        checkEvidencePaths cx (dp_files (cx_deps cx) w) paths \<and> go_evidence out = dedup (paths @ [summary])))"

definition recorded_event :: "GateKind \<Rightarrow> FlowAction \<Rightarrow> jstr option \<Rightarrow> Event \<Rightarrow> bool" where
  "recorded_event kind action segment e \<longleftrightarrow>
     (\<exists>ev. e = Ran (record_command kind segment (coalesce (fa_packets action) []) ev) (Some 0))"

lemma conclude_gate_result:
  assumes "conclude_gate cx action kind segment evidence v s = (Inr out, s')"
  shows "\<exists>new summary. mc_trace s' = mc_trace s @ new \<and> mc_state s' = mc_state s \<and> go_evidence out = dedup (evidence @ [summary]) \<and>
    (go_recorded out \<longrightarrow> ve_green v \<and> new = [Ran (record_command kind segment (coalesce (fa_packets action) []) (go_evidence out)) (Some 0)]) \<and>
    (\<not> go_recorded out \<longrightarrow> (\<forall>e \<in> set new. \<not> recorded_event kind action segment e))"
proof -
  obtain summary s1 where 1: "(if \<not> ve_green v then ret \<lparr>go_recorded = False, go_verdict = v, go_evidence = dedup (evidence @ [summary])\<rparr>
        else record_gate cx kind action segment (dedup (evidence @ [summary])) v) s1 = (Inr out, s')"
    and t1: "mc_state s1 = mc_state s" "mc_trace s1 = mc_trace s"
    using assms unfolding conclude_gate_def Let_def by (rule then_quiet) (rule quiet_summarise)
  show ?thesis
  proof (cases "ve_green v")
    case False
    thus ?thesis using 1 t1 by (auto simp: ret_def)
  next
    case True
    hence r: "record_gate cx kind action segment (dedup (evidence @ [summary])) v s1 = (Inr out, s')" using 1 by simp
    show ?thesis using record_gate_result [OF r] t1 True by (auto simp: recorded_event_def)
  qed
qed

lemma gate_worker_result:
  assumes "gate_worker cx action kind segment gateLog sources s = (Inr out, s')"
  shows "\<exists>new. mc_trace s' = mc_trace s @ new \<and> mc_state s' = mc_state s \<and>
    (go_recorded out \<longrightarrow> gate_proof cx kind action segment out new \<and>
       (\<forall>n \<in> {Src_nodes, Src_gates, Src_failureEvidence}. proven sources n)) \<and>
    (\<not> go_recorded out \<longrightarrow> (\<forall>e \<in> set new. \<not> recorded_event kind action segment e))"
proof -
  obtain n where 1: "andThen (dispatchWorker cx (gate_task kind) None action n) (settle_gate cx action kind segment gateLog sources) s = (Inr out, s')"
    using assms unfolding gate_worker_def repairsSpent_def by (simp add: andThen_def the_state_def ret_def)
  obtain spec worker s1 where 2: "settle_gate cx action kind segment gateLog sources (spec, worker) s1 = (Inr out, s')"
    and t1: "mc_state s1 = mc_state s"
      "mc_trace s1 = mc_trace s @ [Launched (gate_task kind) None action n, Reported (wk_workerId spec) (wr_outcome worker)]"
    by (rule then_worker [OF 1])
  define evidence where "evidence = cited_evidence gateLog (agent_source cx spec worker)"
  obtain measured s2 where ws: "worker_sources cx kind segment gateLog evidence spec worker sources s1 = (Inr measured, s2)"
    and 3: "conclude_gate cx action kind segment evidence (gate_verdict kind measured) s2 = (Inr out, s')"
    using 2 then_cases [of "worker_sources cx kind segment gateLog evidence spec worker sources" _ s1 "Inr out" s']
    unfolding settle_gate_def Let_def evidence_def prod.case by blast
  note w = worker_sources_result [OF ws]
  obtain new summary where c: "mc_trace s' = mc_trace s2 @ new" "mc_state s' = mc_state s2" "go_evidence out = dedup (evidence @ [summary])"
    "go_recorded out \<Longrightarrow> ve_green (gate_verdict kind measured) \<and>
       new = [Ran (record_command kind segment (coalesce (fa_packets action) []) (go_evidence out)) (Some 0)]"
    "\<not> go_recorded out \<Longrightarrow> \<forall>e \<in> set new. \<not> recorded_event kind action segment e"
    using conclude_gate_result [OF 3] by blast
  let ?new = "[Launched (gate_task kind) None action n, Reported (wk_workerId spec) (wr_outcome worker)] @ new"
  have rec: "gate_proof cx kind action segment out ?new \<and> (\<forall>n \<in> {Src_nodes, Src_gates, Src_failureEvidence}. proven sources n)"
    if r: "go_recorded out"
  proof
    have g: "ve_green (gate_verdict kind measured)" using c(4) [OF r] by blast
    have "\<forall>n \<in> {Src_nodes, Src_gates, Src_failureEvidence}. proven measured n"
      using g by (cases kind) (simp_all add: gate_verdict_def phaseVerdict_def waveVerdict_def judge_green PHASE_SOURCES_def WAVE_SOURCES_def)
    thus "\<forall>n \<in> {Src_nodes, Src_gates, Src_failureEvidence}. proven sources n" using w by (simp add: proven_def)
    have "wr_outcome worker = OUT_DONE" "kind = PhaseGate \<longrightarrow> (\<exists>w k.
        checkDodArtifact (dp_files (cx_deps cx) w) (dod_path cx kind segment) = Inr (Some k) \<and> checkEvidencePaths cx (dp_files (cx_deps cx) w) evidence)"
      using w g by blast+
    thus "gate_proof cx kind action segment out ?new" unfolding gate_proof_def using c(3) c(4) [OF r] by fastforce
  qed
  have "\<not> recorded_event kind action segment (Launched t nd a m)" "\<not> recorded_event kind action segment (Reported x y)" for t nd a m x y
    by (simp_all add: recorded_event_def)
  hence "\<forall>e \<in> set ?new. \<not> recorded_event kind action segment e" if "\<not> go_recorded out" using c(5) [OF that] by auto
  thus ?thesis using rec t1 w c(1,2) by (intro exI [of _ ?new]) auto
qed

text \<open>C29. A gate is recorded only on proof.  When \<^verbatim>\<open>runGate\<close> reports a recorded gate, the events of the gate were, in this
  order and nothing else: its deterministic command exited with 0, the probes could be read, a worker of the gate was
  started and reported DONE, and the recording command succeeded; no other unresolved failure bears on the gate, and for
  a phase the Definition of Done is a document whose boxes are all bound and every cited path exists and is not empty.
  Otherwise no record was written; and if the deterministic command failed, no worker was started at all.\<close>

theorem gate_is_recorded_only_on_proof:
  assumes "runGate cx action kind s = (Inr out, s')"
  shows "\<exists>segment code probe new. segment = or_else (fa_segment action) (ss_segment (mc_state s)) \<and>
    mc_trace s' = mc_trace s @ [Ran (gate_command kind) code, Ran (js ''pnpm oracle status'') probe] @ new \<and>
    (go_recorded out \<longrightarrow> code = Some 0 \<and> probe = Some 0 \<and> failuresBlockingGate (mc_state s) segment = [] \<and>
       gate_proof cx kind action segment out new) \<and>
    (\<not> go_recorded out \<longrightarrow> (\<forall>e \<in> set new. \<not> recorded_event kind action segment e)) \<and>
    (code \<noteq> Some 0 \<longrightarrow> new = [])"
proof -
  let ?seg = "or_else (fa_segment action) (ss_segment (mc_state s))"
  have "andThen (runCommand cx (gate_command kind)) (\<lambda>r.
     andThen (captureCommand cx (gate_label kind ?seg (js ''command'')) r) (\<lambda>gateLog.
     andThen (runCommand cx (js ''pnpm oracle status'')) (\<lambda>probe.
     andThen (captureCommand cx (gate_label kind ?seg (js ''nodes'')) probe) (\<lambda>nodesLog.
     andThen the_state (\<lambda>st. judge_gate cx action kind ?seg r gateLog
         (command_sources kind r gateLog probe nodesLog (failuresBlockingGate st ?seg))))))) s = (Inr out, s')"
    using assms unfolding runGate_def segment_of_def by (simp add: andThen_def the_state_def ret_def)
  from then_command [OF this] obtain r s1 where 1: "andThen (captureCommand cx (gate_label kind ?seg (js ''command'')) r) (\<lambda>gateLog.
     andThen (runCommand cx (js ''pnpm oracle status'')) (\<lambda>probe.
     andThen (captureCommand cx (gate_label kind ?seg (js ''nodes'')) probe) (\<lambda>nodesLog.
     andThen the_state (\<lambda>st. judge_gate cx action kind ?seg r gateLog
         (command_sources kind r gateLog probe nodesLog (failuresBlockingGate st ?seg)))))) s1 = (Inr out, s')"
    and t1: "mc_state s1 = mc_state s" "mc_trace s1 = mc_trace s @ [Ran (gate_command kind) (cr_code r)]" by blast
  from then_quiet [OF 1 quiet_capture] obtain gateLog s2 where 2: "andThen (runCommand cx (js ''pnpm oracle status'')) (\<lambda>probe.
     andThen (captureCommand cx (gate_label kind ?seg (js ''nodes'')) probe) (\<lambda>nodesLog.
     andThen the_state (\<lambda>st. judge_gate cx action kind ?seg r gateLog
         (command_sources kind r gateLog probe nodesLog (failuresBlockingGate st ?seg))))) s2 = (Inr out, s')"
    and t2: "mc_state s2 = mc_state s1" "mc_trace s2 = mc_trace s1" by blast
  from then_command [OF 2] obtain probe s3 where 3: "andThen (captureCommand cx (gate_label kind ?seg (js ''nodes'')) probe) (\<lambda>nodesLog.
     andThen the_state (\<lambda>st. judge_gate cx action kind ?seg r gateLog
         (command_sources kind r gateLog probe nodesLog (failuresBlockingGate st ?seg)))) s3 = (Inr out, s')"
    and t3: "mc_state s3 = mc_state s2" "mc_trace s3 = mc_trace s2 @ [Ran (js ''pnpm oracle status'') (cr_code probe)]" by blast
  from then_quiet [OF 3 quiet_capture] obtain nodesLog s4 where 4: "andThen the_state (\<lambda>st. judge_gate cx action kind ?seg r gateLog
         (command_sources kind r gateLog probe nodesLog (failuresBlockingGate st ?seg))) s4 = (Inr out, s')"
    and t4: "mc_state s4 = mc_state s3" "mc_trace s4 = mc_trace s3" by blast
  let ?src = "command_sources kind r gateLog probe nodesLog (failuresBlockingGate (mc_state s) ?seg)"
  have j: "judge_gate cx action kind ?seg r gateLog ?src s4 = (Inr out, s')"
    using 4 t1 t2 t3 t4 by (simp add: andThen_def the_state_def)
  have tr: "mc_trace s4 = mc_trace s @ [Ran (gate_command kind) (cr_code r), Ran (js ''pnpm oracle status'') (cr_code probe)]"
    using t1 t2 t3 t4 by simp
  show ?thesis
  proof (cases "cr_code r = Some 0")
    case True
    hence g: "gate_worker cx action kind ?seg gateLog ?src s4 = (Inr out, s')" using j by (simp add: judge_gate_def)
    have "proven ?src Src_nodes \<Longrightarrow> cr_code probe = Some 0"
      by (auto simp: proven_def command_sources_def green_source_def red_source_def split: if_splits)
    moreover obtain new where "mc_trace s' = mc_trace s4 @ new"
      "go_recorded out \<longrightarrow> gate_proof cx kind action ?seg out new \<and> (\<forall>n \<in> {Src_nodes, Src_gates, Src_failureEvidence}. proven ?src n)"
      "\<not> go_recorded out \<longrightarrow> (\<forall>e \<in> set new. \<not> recorded_event kind action ?seg e)"
      using gate_worker_result [OF g] by blast
    ultimately show ?thesis using tr True
      by (intro exI [of _ ?seg] exI [of _ "cr_code r"] exI [of _ "cr_code probe"] exI [of _ new]) (simp add: failures_proven, blast)
  next
    case False
    hence "andThen (summarise cx kind ?seg (gate_verdict kind ?src)) (\<lambda>summary.
        ret \<lparr>go_recorded = False, go_verdict = gate_verdict kind ?src, go_evidence = [gateLog, summary]\<rparr>) s4 = (Inr out, s')"
      using j by (simp add: judge_gate_def Let_def)
    from then_quiet [OF this quiet_summarise] obtain summary s5 where
      "ret \<lparr>go_recorded = False, go_verdict = gate_verdict kind ?src, go_evidence = [gateLog, summary]\<rparr> s5 = (Inr out, s')"
      "mc_trace s5 = mc_trace s4" by blast
    hence "\<not> go_recorded out" "mc_trace s' = mc_trace s4" by (auto simp: ret_def)
    thus ?thesis using False tr by (intro exI [of _ ?seg] exI [of _ "cr_code r"] exI [of _ "cr_code probe"] exI [of _ "[]"]) simp
  qed
qed

section \<open>A run in which everything succeeds\<close>

definition demo_gate :: FlowAction where
  "demo_gate = (flow_action WAVE_GATE)\<lparr>fa_segment := Some (js ''1''), fa_packets := Some [js ''a'']\<rparr>"

definition demo_deps :: "FlowAction \<Rightarrow> unit SuperviseDeps" where
  "demo_deps a = \<lparr>dp_now = Pair 0, dp_uuid = Pair (js ''u''), dp_deriveAction = Pair a,
     dp_runCommand = (\<lambda>c. Pair \<lparr>cr_code = Some 0, cr_stdout = [], cr_stderr = []\<rparr>),
     dp_awaitWorker = (\<lambda>specs. Pair (0, \<lparr>wr_outcome = OUT_DONE, wr_report = None, wr_derivedFrom = [], wr_stdoutPath = js ''o'',
       wr_reportPath = js ''r''\<rparr>)),
     dp_files = (\<lambda>w p. None), dp_write = (\<lambda>p t w. w), dp_kill = (\<lambda>w p. False), dp_join = concat, dp_resolve = concat,
     dp_host = [], dp_pid = 1\<rparr>"

definition demo_options :: SuperviseOptions where
  "demo_options = \<lparr>op_root = [], op_stateDir = js ''s'', op_maxIterations = 2, op_repair = standingPolicy,
     op_permission = \<lparr>pp_mode = DEFAULT_PERMISSION_MODE, pp_bypassed = False, pp_explicit = False\<rparr>, op_maxRotations = 8, op_concurrency = 3,
     op_leaseTtlMs = DEFAULT_LEASE_TTL_MS, op_noProgressLimit = 6, op_dryRun = False\<rparr>"

definition demo_disk :: "SupervisorState \<Rightarrow> unit Disk" where
  "demo_disk st = \<lparr>dk_state = StateOnDisk st, dk_leases = \<lparr>lf_dir = [], lf_data = [], lf_next = 0\<rparr>, dk_stop = False, dk_world = ()\<rparr>"

definition demo_machine :: "SupervisorState \<Rightarrow> unit Machine" where
  "demo_machine st = \<lparr>mc_disk = demo_disk st, mc_state = st, mc_journal = [], mc_trace = []\<rparr>"

definition demo_ctx :: "FlowAction \<Rightarrow> unit Ctx" where
  "demo_ctx a = \<lparr>cx_opts = demo_options, cx_deps = demo_deps a, cx_runId = js ''run''\<rparr>"

lemmas demo_defs = demo_gate_def demo_deps_def demo_options_def demo_disk_def demo_machine_def demo_ctx_def

lemmas action_defs = andThen_def ret_def the_state_def on_world_def on_disk_def emit_event_def the_now_def randomUUID_def write_text_def
  the_files_def runCommand_def captureCommand_def journal_def segment_of_def repairsSpent_def

lemma demo_recorded:
  "\<exists>out s'. runGate (demo_ctx demo_gate) demo_gate WaveGate (demo_machine (initialState 0 (js ''run''))) = (Inr out, s') \<and> go_recorded out"
  by (simp add: runGate_def judge_gate_def gate_worker_def settle_gate_def conclude_gate_def record_gate_def dispatchWorker_def
      startWorker_def finishWorker_def worker_sources_def summarise_def action_defs demo_defs Let_def or_else_def flow_action_def
      command_sources_def failuresBlockingGate_def unresolvedFailures_def initialState_def green_source_def agent_source_def
      gate_verdict_def waveVerdict_def judge_green WAVE_SOURCES_def proven_def)

theorem gate_is_recorded_only_on_proof_witness:
  "\<exists>out s' new. runGate (demo_ctx demo_gate) demo_gate WaveGate (demo_machine (initialState 0 (js ''run''))) = (Inr out, s') \<and>
     go_recorded out \<and> gate_proof (demo_ctx demo_gate) WaveGate demo_gate (Some (js ''1'')) out new \<and>
     mc_trace s' = [Ran (gate_command WaveGate) (Some 0), Ran (js ''pnpm oracle status'') (Some 0)] @ new"
proof -
  obtain out s' where r: "runGate (demo_ctx demo_gate) demo_gate WaveGate (demo_machine (initialState 0 (js ''run''))) = (Inr out, s')" "go_recorded out"
    using demo_recorded by blast
  have "or_else (fa_segment demo_gate) seg = Some (js ''1'')" for seg by (simp add: demo_gate_def or_else_def)
  thus ?thesis using gate_is_recorded_only_on_proof [OF r(1)] r by (auto simp: demo_machine_def)
qed

end
