(* ===== verification/Autopilot_Guarantees.thy ===== *)
theory Autopilot_Guarantees
  imports Autopilot_Gates
begin

text \<open>
  The properties of a supervised run: its state is durable, its repairs are bounded, a gate is recorded only on proof,
  and a failure that nothing resolves holds every gate.  Each invariant is an interpretation of \<^theory_text>\<open>run_invariant\<close>.
\<close>

lemma written_state:
  "writeState file s t = Inr (st, file') \<Longrightarrow>
     st = s\<lparr>ss_revision := ss_revision s + 1, ss_updatedAt := toISOString t\<rparr> \<and> file' = StateOnDisk st"
  by (auto simp: write_defs Let_def split: sum.splits option.splits if_splits)

lemma supervise_started:
  assumes "supervise opts deps disk = Inr (r, s')"
  obtains t w1 u w2 st f where "loadOrInit (dk_state disk) t u = Inr (st, f)"
    "supervise_run \<lparr>cx_opts = opts, cx_deps = deps, cx_runId = ss_runId st\<rparr>
       \<lparr>mc_disk = clearStop (disk\<lparr>dk_state := f, dk_world := w2\<rparr>), mc_state = st, mc_journal = [], mc_trace = []\<rparr> = (r, s')"
  using assms unfolding supervise_def by (auto split: prod.splits sum.splits)

section \<open>The state is durable\<close>

text \<open>Commands and workers that leave the state file alone.\<close>

definition leaves_state :: "'w SuperviseDeps \<Rightarrow> bool" where
  "leaves_state deps \<longleftrightarrow>
     (\<forall>c d. dk_state (snd (dp_runCommand deps c d)) = dk_state d) \<and>
     (\<forall>specs d. dk_state (snd (dp_awaitWorker deps specs d)) = dk_state d) \<and>
     (\<forall>d. dk_state (snd (dp_deriveAction deps d)) = dk_state d)"

lemma leaves_stateD:
  "leaves_state deps \<Longrightarrow> dp_runCommand deps c d = (r, d') \<Longrightarrow> dk_state d' = dk_state d"
  "leaves_state deps \<Longrightarrow> dp_awaitWorker deps specs d = (x, d') \<Longrightarrow> dk_state d' = dk_state d"
  "leaves_state deps \<Longrightarrow> dp_deriveAction deps d = (a, d') \<Longrightarrow> dk_state d' = dk_state d"
  unfolding leaves_state_def by (metis snd_conv)+

definition durable :: "'w SuperviseDeps \<Rightarrow> 'w Machine \<Rightarrow> bool" where
  "durable deps s \<longleftrightarrow> leaves_state deps \<and> dk_state (mc_disk s) = StateOnDisk (mc_state s) \<and>
     ss_schemaVersion (mc_state s) = STATE_SCHEMA_VERSION"

definition only_directories :: "SupervisorError \<Rightarrow> bool" where
  "only_directories e \<longleftrightarrow> (\<exists>p. e = ReadsDirectory p)"

interpretation durable_run: run_invariant cx "durable (cx_deps cx)" only_directories "\<lambda>_. True" "\<lambda>_. True" for cx :: "'w Ctx"
proof
  fix s :: "'w Machine" and N f t st err fl
  assume d: "durable (cx_deps cx) s" and m: "mutation N f"
  have v: "ss_revision (f (mc_state s)) = ss_revision (mc_state s)" "ss_schemaVersion (f (mc_state s)) = STATE_SCHEMA_VERSION"
    using mutation_keeps_version [OF m] d by (auto simp: keeps_version_def durable_def)
  have w: "\<exists>st. writeState (dk_state (mc_disk s)) (f (mc_state s)) t = Inr (st, StateOnDisk st) \<and> ss_schemaVersion st = STATE_SCHEMA_VERSION"
    using d v by (simp add: durable_def write_defs Let_def)
  show "durable (cx_deps cx) (s\<lparr>mc_state := st, mc_disk := (mc_disk s)\<lparr>dk_state := fl\<rparr>\<rparr>)"
    if "writeState (dk_state (mc_disk s)) (f (mc_state s)) t = Inr (st, fl)"
    using that w d by (auto simp: durable_def)
  show "only_directories err" if "writeState (dk_state (mc_disk s)) (f (mc_state s)) t = Inl err" using that w by auto
qed (auto simp: durable_def only_directories_def dest: leaves_stateD)

lemma durable_gates: "triple (durable (cx_deps cx)) (handleGate cx action kind) (\<lambda>_. durable (cx_deps cx)) (durable_run.fails cx)"
proof -
  have e: "triple (durable (cx_deps cx)) (emit_event e) (\<lambda>_. durable (cx_deps cx)) (durable_run.fails cx)" for e
    by (simp add: triple_def emit_event_def durable_def)
  show ?thesis
    by (intro durable_run.holds_handle_gate durable_run.holds_run_gate durable_run.holds_record_gate e)
qed


text \<open>C32. As long as the commands and workers leave the state file alone, a run never throws except on a document that is
  a directory, however it ends, and at its end the file holds exactly the state the supervisor has in memory: a crash at
  that point loses nothing, the next run loads the same repair counters, failures and escalation.\<close>

theorem run_state_is_durable:
  assumes "leaves_state deps" "supervise opts deps disk = Inr (r, s')"
  shows "dk_state (mc_disk s') = StateOnDisk (mc_state s') \<and>
    loadOrInit (dk_state (mc_disk s')) now u = Inr (mc_state s', dk_state (mc_disk s')) \<and>
    (case r of Inr _ \<Rightarrow> True | Inl e \<Rightarrow> \<exists>p. e = ReadsDirectory p)"
proof -
  obtain t u w2 st f where l: "loadOrInit (dk_state disk) t u = Inr (st, f)"
    and run: "supervise_run \<lparr>cx_opts = opts, cx_deps = deps, cx_runId = ss_runId st\<rparr>
       \<lparr>mc_disk = clearStop (disk\<lparr>dk_state := f, dk_world := w2\<rparr>), mc_state = st, mc_journal = [], mc_trace = []\<rparr> = (r, s')"
    by (rule supervise_started [OF assms(2)])
  let ?cx = "\<lparr>cx_opts = opts, cx_deps = deps, cx_runId = ss_runId st\<rparr>"
  have "f = StateOnDisk st \<and> ss_schemaVersion st = STATE_SCHEMA_VERSION"
    using l by (cases "dk_state disk") (auto simp: loadOrInit_def readState_def initialState_def Let_def split: if_splits)
  hence d: "durable (cx_deps ?cx) \<lparr>mc_disk = clearStop (disk\<lparr>dk_state := f, dk_world := w2\<rparr>), mc_state = st, mc_journal = [], mc_trace = []\<rparr>"
    using assms(1) by (simp add: durable_def)
  from durable_run.holdsD [OF durable_run.holds_run [OF durable_gates] d run]
  show ?thesis by (auto simp: durable_def loadOrInit_def readState_def only_directories_def split: sum.splits)
qed

section \<open>A failure that nothing resolves\<close>

definition records_gate :: "Event \<Rightarrow> bool" where
  "records_gate e \<longleftrightarrow> (\<exists>c code. e = Ran c code \<and> has_prefix (js ''pnpm flow record'') c)"

text \<open>No gate resolves the failure on its own, and its node, if it has one, is not dispatched again.\<close>

definition stays_open :: "BlockingFailure \<Rightarrow> bool" where
  "stays_open f \<longleftrightarrow> bf_resolvedAt f = None \<and> bf_kind f \<noteq> FAIL_gate"

definition never_dispatched :: "'w SuperviseDeps \<Rightarrow> BlockingFailure \<Rightarrow> bool" where
  "never_dispatched deps f \<longleftrightarrow> (\<forall>d n. bf_node f = Some n \<longrightarrow> n \<notin> set (coalesce (fa_packets (fst (dp_deriveAction deps d))) []))"

definition held_by :: "BlockingFailure \<Rightarrow> 'w SuperviseDeps \<Rightarrow> 'w Machine \<Rightarrow> bool" where
  "held_by f deps s \<longleftrightarrow> stays_open f \<and> never_dispatched deps f \<and> f \<in> set (ss_blockingFailures (mc_state s)) \<and>
     (\<forall>e \<in> set (mc_trace s). \<not> records_gate e)"

lemma mutation_keeps_open:
  "mutation (\<lambda>n. bf_node f \<noteq> Some n) g \<Longrightarrow> stays_open f \<Longrightarrow> f \<in> set (ss_blockingFailures s) \<Longrightarrow> f \<in> set (ss_blockingFailures (g s))"
  by (induction rule: mutation.induct)
     (auto simp: add_failure_def mark_resolved_def set_escalation_def put_node_def bump_attempts_def stays_open_def image_iff
       set_green_commit_def set_stopped_def set_segment_def note_action_def set_bounds_def Let_def)

lemma plain_not_recording: "plain_event e \<Longrightarrow> \<not> records_gate e"
  by (cases e) (auto simp: records_gate_def)

interpretation held_run: run_invariant cx "held_by f (cx_deps cx)" "\<lambda>_. True" "\<lambda>n. bf_node f \<noteq> Some n"
  "\<lambda>a. \<forall>n. bf_node f = Some n \<longrightarrow> n \<notin> set (coalesce (fa_packets a) [])" for cx :: "'w Ctx" and f
proof
  fix s :: "'w Machine" and g t st fl
  assume h: "held_by f (cx_deps cx) s" and m: "mutation (\<lambda>n. bf_node f \<noteq> Some n) g"
    and w: "writeState (dk_state (mc_disk s)) (g (mc_state s)) t = Inr (st, fl)"
  have "f \<in> set (ss_blockingFailures (g (mc_state s)))" using h by (intro mutation_keeps_open [OF m]) (auto simp: held_by_def)
  thus "held_by f (cx_deps cx) (s\<lparr>mc_state := st, mc_disk := (mc_disk s)\<lparr>dk_state := fl\<rparr>\<rparr>)"
    using h written_state [OF w] by (simp add: held_by_def)
next
  fix s a d assume h: "held_by f (cx_deps cx) s" and a: "dp_deriveAction (cx_deps cx) (mc_disk s) = (a, d)"
  thus "held_by f (cx_deps cx) (s\<lparr>mc_disk := d\<rparr>) \<and> (\<forall>n. bf_node f = Some n \<longrightarrow> n \<notin> set (coalesce (fa_packets a) []))"
    by (auto simp: held_by_def never_dispatched_def) (metis fst_conv)
qed (auto simp: held_by_def dest: plain_not_recording)

lemma held_gates: "triple (held_by f (cx_deps cx)) (handleGate cx action kind) (\<lambda>_. held_by f (cx_deps cx)) (held_run.fails f cx)"
proof (rule held_run.holds_handle_gate)
  have "f \<in> set (failuresBlockingGate (mc_state s) segment)" if "held_by f (cx_deps cx) s" for s segment
    using that by (auto simp: held_by_def stays_open_def failuresBlockingGate_def unresolvedFailures_def)
  thus "triple (held_by f (cx_deps cx)) (runGate cx action kind) (\<lambda>_. held_by f (cx_deps cx)) (held_run.fails f cx)"
    by (intro held_run.holds_run_gate) (metis empty_iff list.set(1))
  show "triple (held_by f (cx_deps cx)) (emit_event (Launched TASK_repair None action n)) (\<lambda>_. held_by f (cx_deps cx)) (held_run.fails f cx)" for n
    by (auto simp: triple_def emit_event_def held_by_def records_gate_def)
qed

lemma resume_keeps_failures:
  assumes "dk_state disk = StateOnDisk st" "ss_schemaVersion st = STATE_SCHEMA_VERSION"
  shows "\<exists>st'. dk_state (snd (resume note now u disk)) = StateOnDisk st' \<and> ss_schemaVersion st' = STATE_SCHEMA_VERSION \<and>
    ss_blockingFailures st' = ss_blockingFailures st"
proof (cases "ss_escalation st")
  case (Some e)
  thus ?thesis using assms
    by (cases "note"; cases "es_resolvedAt e")
       (simp_all add: resume_def loadOrInit_def readState_def write_defs set_escalation_def Let_def)
qed (use assms in \<open>simp add: resume_def loadOrInit_def readState_def\<close>)

text \<open>C30. A failure that is not a gate's own hold and whose node is not dispatched again is never resolved: the failure of a
  run that was stuck, which names no node, or that of a worker which did its work but died before it reported, so that the
  packet is found done.  Every gate of every later run is then held: no run records a gate and the failure is still
  unresolved at its end, also after a human has answered the escalation.\<close>

theorem open_failure_holds_every_gate:
  assumes "dk_state disk = StateOnDisk st" "ss_schemaVersion st = STATE_SCHEMA_VERSION" "f \<in> set (ss_blockingFailures st)"
    "stays_open f" "never_dispatched deps f" "supervise opts deps (snd (resume note now u disk)) = Inr (r, s')"
  shows "f \<in> set (unresolvedFailures (mc_state s')) \<and> filter records_gate (mc_trace s') = [] \<and>
    (\<forall>segment. f \<in> set (failuresBlockingGate (mc_state s') segment))"
proof -
  let ?disk = "snd (resume note now u disk)"
  obtain st' where st': "dk_state ?disk = StateOnDisk st'" "ss_schemaVersion st' = STATE_SCHEMA_VERSION"
    "ss_blockingFailures st' = ss_blockingFailures st" using resume_keeps_failures [OF assms(1,2)] by blast
  obtain t v w2 st2 fl where l: "loadOrInit (dk_state ?disk) t v = Inr (st2, fl)"
    and run: "supervise_run \<lparr>cx_opts = opts, cx_deps = deps, cx_runId = ss_runId st2\<rparr>
       \<lparr>mc_disk = clearStop (?disk\<lparr>dk_state := fl, dk_world := w2\<rparr>), mc_state = st2, mc_journal = [], mc_trace = []\<rparr> = (r, s')"
    by (rule supervise_started [OF assms(6)])
  let ?cx = "\<lparr>cx_opts = opts, cx_deps = deps, cx_runId = ss_runId st2\<rparr>"
  have "st2 = st'" using l st' by (simp add: loadOrInit_def readState_def)
  hence h: "held_by f (cx_deps ?cx) \<lparr>mc_disk = clearStop (?disk\<lparr>dk_state := fl, dk_world := w2\<rparr>), mc_state = st2, mc_journal = [], mc_trace = []\<rparr>"
    using assms(3-5) st'(3) by (simp add: held_by_def)
  from held_run.holdsD [OF held_run.holds_run [OF held_gates] h run]
  have "held_by f deps s'" by simp
  thus ?thesis
    by (auto simp: held_by_def stays_open_def unresolvedFailures_def failuresBlockingGate_def filter_empty_conv)
qed

section \<open>Repairs are bounded\<close>

definition gate_bucket :: "FlowAction \<Rightarrow> jstr" where
  "gate_bucket a = repairKey (fa_segment a) None
     (Some (gateScope (if fa_action a = PHASE_GATE then PhaseGate else WaveGate) (coalesce (fa_packets a) [])))"

text \<open>The numbers of the attempts with which workers were started to repair the gate of a bucket.\<close>

fun repair_number :: "jstr \<Rightarrow> Event \<Rightarrow> int option" where
  "repair_number k (Launched TASK_repair None a n) = (if gate_bucket a = k then Some n else None)"
| "repair_number k e = None"

definition gate_repairs :: "jstr \<Rightarrow> Event list \<Rightarrow> int list" where
  "gate_repairs k tr = List.map_filter (repair_number k) tr"

lemma gate_repairs_snoc:
  "gate_repairs k (tr @ [e]) = gate_repairs k tr @ (case repair_number k e of None \<Rightarrow> [] | Some n \<Rightarrow> [n])"
  by (simp add: gate_repairs_def List.map_filter_def split: option.splits)

lemma plain_no_repair: "plain_event e \<Longrightarrow> repair_number k e = None"
  by (cases "(k, e)" rule: repair_number.cases) auto

text \<open>Each number is used once per bucket, is above the counter the run started with, and within the bound.\<close>

definition counted :: "(jstr \<Rightarrow> int) \<Rightarrow> int \<Rightarrow> 'w Machine \<Rightarrow> bool" where
  "counted base bound s \<longleftrightarrow> (\<forall>k. base k \<le> attempts (mc_state s) k \<and> sorted_wrt (<) (gate_repairs k (mc_trace s)) \<and>
     (\<forall>n \<in> set (gate_repairs k (mc_trace s)). base k < n \<and> n \<le> bound \<and> n \<le> attempts (mc_state s) k))"

definition about_to_repair :: "(jstr \<Rightarrow> int) \<Rightarrow> int \<Rightarrow> jstr \<Rightarrow> int \<Rightarrow> 'w Machine \<Rightarrow> bool" where
  "about_to_repair base bound k n s \<longleftrightarrow> counted base bound s \<and> attempts (mc_state s) k = n \<and> base k < n \<and>
     (\<forall>m \<in> set (gate_repairs k (mc_trace s)). m < n)"

definition names_segments :: "'w SuperviseDeps \<Rightarrow> bool" where
  "names_segments deps \<longleftrightarrow> (\<forall>d. let a = fst (dp_deriveAction deps d) in
     fa_action a = WAVE_GATE \<or> fa_action a = PHASE_GATE \<longrightarrow> fa_segment a \<noteq> None)"

definition bounded_run :: "'w SuperviseDeps \<Rightarrow> (jstr \<Rightarrow> int) \<Rightarrow> int \<Rightarrow> 'w Machine \<Rightarrow> bool" where
  "bounded_run deps base bound s \<longleftrightarrow> names_segments deps \<and> counted base bound s"

lemma attempts_bump: "attempts (bump_attempts key s) k = (if k = key then attempts s key + 1 else attempts s k)"
  by (simp add: attempts_def bump_attempts_def update_conv')

lemma mutation_attempts: "mutation N g \<Longrightarrow> attempts s k \<le> attempts (g s) k"
  by (induction rule: mutation.induct)
     (simp_all add: attempts_bump, simp_all add: attempts_def add_failure_def mark_resolved_def set_escalation_def put_node_def
       set_green_commit_def set_stopped_def set_segment_def note_action_def set_bounds_def Let_def)

lemma written_attempts: "writeState file s t = Inr (st, file') \<Longrightarrow> attempts st k = attempts s k"
  by (drule written_state) (simp add: attempts_def)

lemma counted_mono:
  assumes "counted base bound s" "\<And>k. attempts (mc_state s) k \<le> attempts (mc_state s') k" "mc_trace s' = mc_trace s"
  shows "counted base bound s'"
  unfolding counted_def assms(3)
proof (intro allI conjI ballI)
  fix k
  have c: "base k \<le> attempts (mc_state s) k" "sorted_wrt (<) (gate_repairs k (mc_trace s))" using assms(1) by (auto simp: counted_def)
  show "base k \<le> attempts (mc_state s') k" using c(1) assms(2) [of k] by linarith
  show "sorted_wrt (<) (gate_repairs k (mc_trace s))" by (rule c)
  fix n assume "n \<in> set (gate_repairs k (mc_trace s))"
  hence "base k < n \<and> n \<le> bound \<and> n \<le> attempts (mc_state s) k" using assms(1) by (auto simp: counted_def)
  thus "base k < n" "n \<le> bound" "n \<le> attempts (mc_state s') k" using assms(2) [of k] by auto
qed

interpretation bounded: run_invariant cx "bounded_run (cx_deps cx) base bound" "\<lambda>_. True" "\<lambda>_. True"
  "\<lambda>a. fa_action a = WAVE_GATE \<or> fa_action a = PHASE_GATE \<longrightarrow> fa_segment a \<noteq> None" for cx :: "'w Ctx" and base bound
proof
  fix s :: "'w Machine" and N g t st fl
  assume h: "bounded_run (cx_deps cx) base bound s" and m: "mutation N g"
    and w: "writeState (dk_state (mc_disk s)) (g (mc_state s)) t = Inr (st, fl)"
  show "bounded_run (cx_deps cx) base bound (s\<lparr>mc_state := st, mc_disk := (mc_disk s)\<lparr>dk_state := fl\<rparr>\<rparr>)"
    using h mutation_attempts [OF m, of "mc_state s"] written_attempts [OF w]
    by (auto simp: bounded_run_def intro: counted_mono [of base bound s])
next
  fix s e assume "bounded_run (cx_deps cx) base bound s" "plain_event e"
  thus "bounded_run (cx_deps cx) base bound (s\<lparr>mc_trace := mc_trace s @ [e]\<rparr>)"
    by (simp add: bounded_run_def counted_def gate_repairs_snoc plain_no_repair)
next
  fix s a d assume "bounded_run (cx_deps cx) base bound s" "dp_deriveAction (cx_deps cx) (mc_disk s) = (a, d)"
  thus "bounded_run (cx_deps cx) base bound (s\<lparr>mc_disk := d\<rparr>) \<and> (fa_action a = WAVE_GATE \<or> fa_action a = PHASE_GATE \<longrightarrow> fa_segment a \<noteq> None)"
    by (auto simp: bounded_run_def counted_def names_segments_def Let_def) (metis fst_conv)+
qed (auto simp: bounded_run_def counted_def)

interpretation repairing: machine_frame cx "\<lambda>s. names_segments (cx_deps cx) \<and> about_to_repair base bound k n s" "\<lambda>_. True"
  for cx :: "'w Ctx" and base bound k n
  by unfold_locales (auto simp: about_to_repair_def counted_def)

abbreviation repair_ready :: "'w Ctx \<Rightarrow> (jstr \<Rightarrow> int) \<Rightarrow> int \<Rightarrow> jstr \<Rightarrow> int \<Rightarrow> 'w Machine \<Rightarrow> bool" where
  "repair_ready cx base bound k n \<equiv> (\<lambda>s. names_segments (cx_deps cx) \<and> about_to_repair base bound k n s)"

abbreviation bounded_fails :: "'w Ctx \<Rightarrow> (jstr \<Rightarrow> int) \<Rightarrow> int \<Rightarrow> SupervisorError \<Rightarrow> 'w Machine \<Rightarrow> bool" where
  "bounded_fails cx base bound \<equiv> machine_frame.fails (bounded_run (cx_deps cx) base bound) (\<lambda>_. True)"

lemma ready_bounded: "repair_ready cx base bound k n s \<Longrightarrow> bounded_run (cx_deps cx) base bound s"
  by (simp add: about_to_repair_def bounded_run_def)

lemma ready_weaken:
  assumes "triple (repair_ready cx base bound k n) m (\<lambda>_. repair_ready cx base bound k n) (machine_frame.fails (repair_ready cx base bound k n) (\<lambda>_. True))"
  shows "triple (repair_ready cx base bound k n) m (\<lambda>_. repair_ready cx base bound k n) (bounded_fails cx base bound)"
proof (rule triple_weaken [OF assms])
  fix e s assume "machine_frame.fails (repair_ready cx base bound k n) (\<lambda>_. True) e s"
  hence "repair_ready cx base bound k n s" unfolding repairing.fails_def by (rule conjunct1)
  thus "bounded_fails cx base bound e s" using ready_bounded unfolding bounded.fails_def by blast
qed

lemma bump_counts:
  "triple (bounded_run (cx_deps cx) base bound) (bumpRepair cx segment None scope)
     (\<lambda>n. repair_ready cx base bound (repairKey segment None scope) n) (bounded_fails cx base bound)"
proof -
  let ?k = "repairKey segment None scope"
  have "triple (bounded_run (cx_deps cx) base bound) (save cx (bump_attempts ?k))
      (\<lambda>_ s. repair_ready cx base bound ?k (attempts (mc_state s) ?k) s) (bounded_fails cx base bound)"
    unfolding save_def
  proof (rule triple_then [OF bounded.holds_now], rule triple_cases)
    fix t s a s'
    assume b: "bounded_run (cx_deps cx) base bound s" and w: "(case writeState (dk_state (mc_disk s)) (bump_attempts ?k (mc_state s)) t of
        Inl e \<Rightarrow> (Inl e, s) | Inr (st, file) \<Rightarrow> (Inr (), s\<lparr>mc_state := st, mc_disk := (mc_disk s)\<lparr>dk_state := file\<rparr>\<rparr>)) = (Inr a, s')"
    then obtain st fl where st: "writeState (dk_state (mc_disk s)) (bump_attempts ?k (mc_state s)) t = Inr (st, fl)"
      "s' = s\<lparr>mc_state := st, mc_disk := (mc_disk s)\<lparr>dk_state := fl\<rparr>\<rparr>" by (auto split: sum.splits)
    have att: "attempts (mc_state s') k = (if k = ?k then attempts (mc_state s) k + 1 else attempts (mc_state s) k)" for k
      using st written_attempts [OF st(1)] by (simp add: attempts_bump)
    have c: "counted base bound s" "names_segments (cx_deps cx)" using b by (auto simp: bounded_run_def)
    have "counted base bound s'" by (rule counted_mono [OF c(1)]) (use att st in auto)
    moreover have "m \<in> set (gate_repairs ?k (mc_trace s)) \<Longrightarrow> m \<le> attempts (mc_state s) ?k" "base ?k \<le> attempts (mc_state s) ?k" for m
      using c(1) by (auto simp: counted_def)
    ultimately show "repair_ready cx base bound ?k (attempts (mc_state s') ?k) s'"
      using c(2) st(2) att [of ?k] by (fastforce simp: about_to_repair_def)
  next
    fix t s e s'
    assume "bounded_run (cx_deps cx) base bound s" "(case writeState (dk_state (mc_disk s)) (bump_attempts ?k (mc_state s)) t of
        Inl e \<Rightarrow> (Inl e, s) | Inr (st, file) \<Rightarrow> (Inr (), s\<lparr>mc_state := st, mc_disk := (mc_disk s)\<lparr>dk_state := file\<rparr>\<rparr>)) = (Inl e, s')"
    thus "bounded_fails cx base bound e s'" by (auto simp: bounded.fails_def split: sum.splits)
  qed
  thus ?thesis
    unfolding bumpRepair_def Let_def by (rule triple_then) (auto simp: triple_def andThen_def the_state_def ret_def)
qed

lemma start_repair:
  assumes "gate_bucket action = k" "n \<le> bound"
  shows "triple (repair_ready cx base bound k n) (startWorker cx TASK_repair None action n) (\<lambda>_. bounded_run (cx_deps cx) base bound)
    (bounded_fails cx base bound)"
proof -
  have "triple (repair_ready cx base bound k n) (emit_event (Launched TASK_repair None action n)) (\<lambda>_. bounded_run (cx_deps cx) base bound)
      (bounded_fails cx base bound)"
    using assms
    by (auto simp: triple_def emit_event_def about_to_repair_def bounded_run_def counted_def gate_repairs_snoc sorted_wrt_append)
  hence e: "triple (repair_ready cx base bound k n) (andThen (emit_event (Launched TASK_repair None action n)) (\<lambda>_. ret spec))
      (\<lambda>_. bounded_run (cx_deps cx) base bound) (bounded_fails cx base bound)" for spec
    by (rule triple_then) (simp add: bounded.holds_ret)
  show ?thesis
    unfolding startWorker_def Let_def option.case
    by (rule triple_then [OF ready_weaken], rule repairing.holds_uuid, rule triple_then [OF ready_weaken], rule repairing.holds_uuid,
        rule triple_then [OF ready_weaken], rule repairing.holds_segment_of, rule triple_then [OF ready_weaken], rule repairing.holds_write,
        rule triple_then [OF ready_weaken], rule repairing.holds_ret, rule triple_then [OF ready_weaken], rule repairing.holds_journal, rule e)
qed

lemma lease_repair:
  assumes "gate_bucket action = k" "n \<le> bound"
  shows "triple (repair_ready cx base bound k n) (withLease cx key (dispatchWorker cx TASK_repair None action n))
    (\<lambda>_. bounded_run (cx_deps cx) base bound) (bounded_fails cx base bound)"
proof -
  have d: "triple (repair_ready cx base bound k n) (dispatchWorker cx TASK_repair None action n) (\<lambda>_. bounded_run (cx_deps cx) base bound)
      (bounded_fails cx base bound)"
    unfolding dispatchWorker_def
    by (rule triple_then [OF start_repair [OF assms]])
       (intro bounded.holds_then bounded.holds_await bounded.holds_pair bounded.holds_finish bounded.holds_ret)
  have f: "triple (repair_ready cx base bound k n) (finally_do (andThen (dispatchWorker cx TASK_repair None action n) (\<lambda>x. ret (Some x))) (dropLease key w))
      (\<lambda>_. bounded_run (cx_deps cx) base bound) (bounded_fails cx base bound)" for w
  proof (rule triple_finally, rule triple_weaken)
    show "triple (repair_ready cx base bound k n) (andThen (dispatchWorker cx TASK_repair None action n) (\<lambda>x. ret (Some x)))
        (\<lambda>_. bounded_run (cx_deps cx) base bound) (bounded_fails cx base bound)"
      by (rule triple_then [OF d]) (rule bounded.holds_ret)
  qed (auto simp: bounded.fails_def intro: bounded.holds_drop)
  show ?thesis
    unfolding withLease_def
  proof (rule triple_then [OF ready_weaken], rule repairing.holds_take)
    fix got :: "jstr option"
    show "triple (repair_ready cx base bound k n) (case got of None \<Rightarrow> ret None
        | Some workerId \<Rightarrow> finally_do (andThen (dispatchWorker cx TASK_repair None action n) (\<lambda>x. ret (Some x))) (dropLease key workerId))
        (\<lambda>_. bounded_run (cx_deps cx) base bound) (bounded_fails cx base bound)"
      by (cases got) (auto simp: f intro!: triple_ret ready_bounded)
  qed
qed

lemma repair_bounded:
  fixes cx :: "'w Ctx"
  assumes "gate_bucket action = k" "bound = rp_bound (op_repair (cx_opts cx))"
  shows "triple (repair_ready cx base bound k spent) (repair_gate cx action segment evidence detail spent)
    (\<lambda>_. bounded_run (cx_deps cx) base bound) (bounded_fails cx base bound)"
proof (cases "bound < spent")
  case True
  thus ?thesis using triple_pre [OF bounded.holds_exhausted ready_bounded] assms(2) by (simp add: repair_gate_def)
next
  case False
  hence n: "\<not> rp_bound (op_repair (cx_opts cx)) < spent" using assms(2) by simp
  show ?thesis
    unfolding repair_gate_def if_not_P [OF n]
    by (rule triple_then [OF lease_repair [OF assms(1)]]) (use False in \<open>simp_all add: bounded.holds_answer\<close>)
qed

lemma held_bounded:
  fixes cx :: "'w Ctx"
  assumes "gate_bucket action = repairKey segment None (Some (gateScope kind (coalesce (fa_packets action) [])))"
    "bound = rp_bound (op_repair (cx_opts cx))"
  shows "triple (bounded_run (cx_deps cx) base bound) (gate_held cx action kind segment outcome)
    (\<lambda>_. bounded_run (cx_deps cx) base bound) (bounded_fails cx base bound)"
  unfolding gate_held_def Let_def
  by (rule triple_then [OF bounded.holds_failure], rule triple_then [OF bump_counts]) (rule repair_bounded [OF assms])

lemma bounded_gates:
  fixes cx :: "'w Ctx"
  defines "bound \<equiv> rp_bound (op_repair (cx_opts cx))"
  assumes a: "fa_action action = WAVE_GATE \<or> fa_action action = PHASE_GATE \<longrightarrow> fa_segment action \<noteq> None"
    and k: "fa_action action = (if kind = PhaseGate then PHASE_GATE else WAVE_GATE)"
  shows "triple (bounded_run (cx_deps cx) base bound) (handleGate cx action kind) (\<lambda>_. bounded_run (cx_deps cx) base bound)
    (bounded_fails cx base bound)"
proof -
  let ?I = "bounded_run (cx_deps cx) base bound" and ?E = "bounded_fails cx base bound"
  obtain seg where seg: "fa_segment action = Some seg" using a k by (cases kind) auto
  have kb: "(if fa_action action = PHASE_GATE then PhaseGate else WaveGate) = kind" using k by (cases kind) simp_all
  have bucket: "gate_bucket action = repairKey (Some seg) None (Some (gateScope kind (coalesce (fa_packets action) [])))"
    unfolding gate_bucket_def seg kb ..
  have "triple ?I (emit_event (Ran c code)) (\<lambda>_. ?I) ?E" for c code
    by (simp add: triple_def emit_event_def bounded_run_def counted_def gate_repairs_snoc)
  hence gate: "triple ?I (runGate cx action kind) (\<lambda>_. ?I) ?E"
    by (intro bounded.holds_run_gate bounded.holds_record_gate)
  have "triple ?I (segment_of action) (\<lambda>s st. ?I st \<and> s = Some seg) ?E"
    by (simp add: triple_def segment_of_def andThen_def the_state_def ret_def seg or_else_def)
  thus ?thesis
    unfolding handleGate_def
    by (rule bounded.holds_with_then)
       (intro bounded.holds_then [OF gate] bounded.holds_if bounded.holds_passed held_bounded, simp_all add: bucket bound_def)
qed

lemma strict_list_length:
  fixes ns :: "int list"
  assumes "sorted_wrt (<) ns" "\<forall>n \<in> set ns. a < n \<and> n \<le> b"
  shows "int (length ns) \<le> max 0 (b - a)"
proof -
  have "distinct ns" using assms(1) by (induction ns) auto
  hence "length ns = card (set ns)" by (simp add: distinct_card)
  also have "\<dots> \<le> card {a<..b}" using assms(2) by (intro card_mono) auto
  finally show ?thesis by simp
qed

text \<open>C31. If the control plane names a segment with every gate action, then, however its workers behave, a run starts at most as
  many workers to repair one gate as the bound leaves over from earlier runs: their numbers are above the stored counter, increase
  strictly, and never exceed the bound.  A number is skipped when the lease was not obtained after the counter moved.  The counter
  is part of the state, so the bound holds across restarts, and gates of one segment do not share it.\<close>

theorem gate_repairs_are_bounded:
  assumes "names_segments deps" "dk_state disk = StateOnDisk st" "supervise opts deps disk = Inr (r, s')"
  shows "sorted_wrt (<) (gate_repairs k (mc_trace s')) \<and>
    (\<forall>n \<in> set (gate_repairs k (mc_trace s')). attempts st k < n \<and> n \<le> rp_bound (op_repair opts) \<and> n \<le> attempts (mc_state s') k) \<and>
    int (length (gate_repairs k (mc_trace s'))) \<le> max 0 (rp_bound (op_repair opts) - attempts st k)"
proof -
  obtain t u w2 st2 f where l: "loadOrInit (dk_state disk) t u = Inr (st2, f)"
    and run: "supervise_run \<lparr>cx_opts = opts, cx_deps = deps, cx_runId = ss_runId st2\<rparr>
       \<lparr>mc_disk = clearStop (disk\<lparr>dk_state := f, dk_world := w2\<rparr>), mc_state = st2, mc_journal = [], mc_trace = []\<rparr> = (r, s')"
    by (rule supervise_started [OF assms(3)])
  let ?cx = "\<lparr>cx_opts = opts, cx_deps = deps, cx_runId = ss_runId st2\<rparr>"
  let ?bound = "rp_bound (op_repair (cx_opts ?cx))"
  have "st2 = st" using l assms(2) by (auto simp: loadOrInit_def readState_def split: if_splits)
  hence b: "bounded_run (cx_deps ?cx) (attempts st) ?bound
      \<lparr>mc_disk = clearStop (disk\<lparr>dk_state := f, dk_world := w2\<rparr>), mc_state = st2, mc_journal = [], mc_trace = []\<rparr>"
    using assms(1) by (simp add: bounded_run_def counted_def gate_repairs_def List.map_filter_def)
  from bounded.holdsD [OF bounded.holds_run [OF bounded_gates] b run]
  have c: "sorted_wrt (<) (gate_repairs k (mc_trace s'))"
    "\<forall>n \<in> set (gate_repairs k (mc_trace s')). attempts st k < n \<and> n \<le> rp_bound (op_repair opts) \<and> n \<le> attempts (mc_state s') k"
    by (auto simp: bounded_run_def counted_def)
  thus ?thesis using strict_list_length [OF c(1), of "attempts st k" "rp_bound (op_repair opts)"] by auto
qed

section \<open>Witnesses\<close>

definition stuck_failure :: BlockingFailure where
  "stuck_failure = \<lparr>bf_id = js ''f'', bf_kind = FAIL_no_progress, bf_segment = Some (js ''1''), bf_node = None,
     bf_detail = SameAction (js ''DISPATCH|1|a'') 7, bf_evidence = [], bf_at = [], bf_resolvedAt = None\<rparr>"

definition stuck_state :: SupervisorState where
  "stuck_state = add_failure stuck_failure (initialState 0 (js ''run''))"

lemma demo_supervised:
  "ss_schemaVersion st = STATE_SCHEMA_VERSION \<Longrightarrow> dk_state d = StateOnDisk st \<Longrightarrow> \<exists>r s'. supervise demo_options (demo_deps a) d = Inr (r, s')"
  by (simp add: supervise_def demo_deps_def loadOrInit_def readState_def)

lemma stuck_disk: "dk_state (demo_disk stuck_state) = StateOnDisk stuck_state" "ss_schemaVersion stuck_state = STATE_SCHEMA_VERSION"
  "stuck_failure \<in> set (ss_blockingFailures stuck_state)"
  by (simp_all add: demo_disk_def stuck_state_def add_failure_def initialState_def)

theorem run_state_is_durable_witness:
  "\<exists>r s'. supervise demo_options (demo_deps demo_gate) (demo_disk stuck_state) = Inr (r, s') \<and> dk_state (mc_disk s') = StateOnDisk (mc_state s')"
proof -
  obtain r s' where r: "supervise demo_options (demo_deps demo_gate) (demo_disk stuck_state) = Inr (r, s')"
    using demo_supervised [OF stuck_disk(2,1)] by blast
  have "leaves_state (demo_deps demo_gate)" by (simp add: leaves_state_def demo_deps_def)
  from run_state_is_durable [OF this r] r show ?thesis by blast
qed

theorem open_failure_holds_every_gate_witness:
  "\<exists>r s'. supervise demo_options (demo_deps demo_gate) (snd (resume (Some (js ''go on'')) 0 [] (demo_disk stuck_state))) = Inr (r, s') \<and>
     stuck_failure \<in> set (unresolvedFailures (mc_state s')) \<and> filter records_gate (mc_trace s') = []"
proof -
  have f: "stays_open stuck_failure" "never_dispatched (demo_deps demo_gate) stuck_failure"
    by (simp_all add: stays_open_def never_dispatched_def stuck_failure_def)
  obtain st' where "dk_state (snd (resume (Some (js ''go on'')) 0 [] (demo_disk stuck_state))) = StateOnDisk st'"
    "ss_schemaVersion st' = STATE_SCHEMA_VERSION" using resume_keeps_failures [OF stuck_disk(1,2)] by blast
  then obtain r s' where r: "supervise demo_options (demo_deps demo_gate) (snd (resume (Some (js ''go on'')) 0 [] (demo_disk stuck_state))) = Inr (r, s')"
    using demo_supervised by blast
  from open_failure_holds_every_gate [OF stuck_disk f r] r show ?thesis by blast
qed

theorem gate_repairs_are_bounded_witness:
  "\<exists>r s'. supervise demo_options (demo_deps demo_gate) (demo_disk stuck_state) = Inr (r, s') \<and>
     length (gate_repairs (gate_bucket demo_gate) (mc_trace s')) \<le> 2"
proof -
  obtain r s' where r: "supervise demo_options (demo_deps demo_gate) (demo_disk stuck_state) = Inr (r, s')"
    using demo_supervised [OF stuck_disk(2,1)] by blast
  have n: "names_segments (demo_deps demo_gate)" by (simp add: names_segments_def demo_deps_def demo_gate_def Let_def)
  have "attempts stuck_state k = 0" for k by (simp add: attempts_def stuck_state_def add_failure_def initialState_def)
  moreover have "rp_bound (op_repair demo_options) = 2" by (simp add: demo_options_def standingPolicy_def STANDING_REPAIR_BOUND_def)
  ultimately show ?thesis using gate_repairs_are_bounded [OF n stuck_disk(1) r, of "gate_bucket demo_gate"] r by auto
qed

end
