(* ===== verification/Autopilot_Checkpoint.thy ===== *)
theory Autopilot_Checkpoint
  imports Autopilot_Gates
begin

text \<open>
  The checkpoint both programs use: the supervisor writes the segment (\<^verbatim>\<open>updateCheckpointSegment\<close> in \<^verbatim>\<open>supervise.ts\<close>) and
  the control plane reads it back (\<^verbatim>\<open>checkpointState\<close> in \<^verbatim>\<open>flow.ts\<close>).  And how a run ends.
\<close>

section \<open>Reading the checkpoint\<close>

text \<open>The group of \<^verbatim>\<open>/^key\s*(\S+)/m\<close>; the flag tells whether the text stands at the start of a line.\<close>

definition first_word :: "jstr \<Rightarrow> jstr" where
  "first_word s = takeWhile (\<lambda>c. \<not> js_space c) (dropWhile js_space s)"

fun match_key :: "jstr \<Rightarrow> bool \<Rightarrow> jstr \<Rightarrow> jstr option" where
  "match_key key lineStart [] = None"
| "match_key key lineStart (c # cs) =
     (if lineStart \<and> has_prefix key (c # cs) \<and> first_word (drop (length key) (c # cs)) \<noteq> []
      then Some (first_word (drop (length key) (c # cs)))
      else match_key key (js_newline c) cs)"

record Checkpoint =
  cp_step :: "jstr option"
  cp_segment :: "jstr option"

definition checkpointState :: "jstr option \<Rightarrow> Checkpoint" where
  "checkpointState txt = (case txt of
     None \<Rightarrow> \<lparr>cp_step = None, cp_segment = None\<rparr>
   | Some t \<Rightarrow> \<lparr>cp_step = match_key (js ''step:'') True t, cp_segment = match_key (js ''phase:'') True t\<rparr>)"

section \<open>What is written is read back\<close>

definition one_word :: "jstr \<Rightarrow> bool" where
  "one_word s \<longleftrightarrow> s \<noteq> [] \<and> (\<forall>c \<in> set s. \<not> js_space c)"

lemma has_prefix_line: "\<not> has_prefix key l \<Longrightarrow> 10 \<notin> set key \<Longrightarrow> \<not> has_prefix key (l @ 10 # r)"
  by (induction key l rule: has_prefix.induct) auto

lemma newline_space: "js_newline c \<Longrightarrow> js_space c" "js_newline 10" "js_space 10" "js_space 32"
  by (auto simp: js_newline_def js_space_def)

lemma skip_rest: "\<forall>c \<in> set l. \<not> js_newline c \<Longrightarrow> match_key key False (l @ 10 # r) = match_key key True r"
  by (induction l) (auto simp: newline_space)

lemma skip_line:
  assumes "\<forall>c \<in> set l. \<not> js_newline c" "\<not> has_prefix key l" "10 \<notin> set key"
  shows "match_key key True (l @ 10 # r) = match_key key True r"
proof -
  note p = has_prefix_line [OF assms(2,3), of r]
  show ?thesis using assms(1) p by (cases l) (auto simp: newline_space skip_rest)
qed

lemma first_word_line: "one_word w \<Longrightarrow> first_word (32 # w @ 10 # r) = w"
proof -
  assume w: "one_word w"
  hence "dropWhile js_space (w @ 10 # r) = w @ 10 # r" by (cases w) (auto simp: one_word_def)
  thus ?thesis using w by (auto simp: first_word_def newline_space one_word_def takeWhile_append)
qed

lemma match_line:
  assumes "one_word w" "key \<noteq> []"
  shows "match_key key True (key @ 32 # w @ 10 # r) = Some w"
proof -
  obtain c cs where k: "key = c # cs" using assms(2) by (cases key) auto
  have "has_prefix key (key @ 32 # w @ 10 # r)" "first_word (drop (length key) (key @ 32 # w @ 10 # r)) = w"
    using first_word_line [OF assms(1)] by simp_all
  thus ?thesis using assms(1) by (simp add: k one_word_def)
qed

lemma js_lines_ne: "js_lines s \<noteq> []"
  by (induction s) (auto split: list.splits)

lemma js_lines_chars: "l \<in> set (js_lines s) \<Longrightarrow> c \<in> set l \<Longrightarrow> c \<in> set s \<and> c \<noteq> 10"
proof (induction s arbitrary: l)
  case (Cons a s)
  obtain x xs where x: "js_lines s = x # xs" using js_lines_ne by (cases "js_lines s") auto
  show ?case using Cons.IH [of x] Cons.IH [of l] Cons.prems by (auto simp: x split: if_splits)
qed simp

lemma match_lines:
  assumes "one_word w" "key \<noteq> []" "10 \<notin> set key" "\<exists>l \<in> set ls. has_prefix key l"
    "\<And>l. l \<in> set ls \<Longrightarrow> (if has_prefix key l then g l = key @ 32 # w else \<not> has_prefix key (g l)) \<and> (\<forall>c \<in> set (g l). \<not> js_newline c)"
  shows "match_key key True (js_join [10] (map g ls) @ 10 # r) = Some w"
  using assms(4,5)
proof (induction ls rule: list.induct)
  case (Cons l ls)
  have more: "js_join [10] (map g (l # ls)) @ 10 # r = g l @ 10 # (if ls = [] then r else js_join [10] (map g ls) @ 10 # r)"
    by (cases ls) simp_all
  show ?case
  proof (cases "has_prefix key l")
    case True
    thus ?thesis using Cons.prems(2) [of l] match_line [OF assms(1,2)] unfolding more by simp
  next
    case False
    hence ls: "\<exists>l \<in> set ls. has_prefix key l" "ls \<noteq> []" using Cons.prems(1) by auto
    have "match_key key True (g l @ 10 # js_join [10] (map g ls) @ 10 # r) = match_key key True (js_join [10] (map g ls) @ 10 # r)"
      using Cons.prems(2) [of l] False by (intro skip_line assms(3)) auto
    moreover have "match_key key True (js_join [10] (map g ls) @ 10 # r) = Some w"
      by (rule Cons.IH [OF ls(1)]) (rule Cons.prems(2), simp)
    ultimately show ?thesis using ls(2) unfolding more by simp
  qed
qed simp

lemma word_no_newline: "one_word w \<Longrightarrow> c \<in> set w \<Longrightarrow> \<not> js_newline c"
  using newline_space(1) by (auto simp: one_word_def)

lemma plain_keys: "\<forall>c \<in> set (js ''phase: '') \<union> set (js ''step: framed'') \<union> set (js ''---''). \<not> js_newline c"
  "one_word (js ''framed'')"
  by (auto simp: js_unfold js_newline_def one_word_def js_space_def)

text \<open>C35. What the supervisor writes is what the control plane reads: after the checkpoint was updated to a segment, reading it
  gives that segment and the step \<^verbatim>\<open>framed\<close>, if there was no checkpoint, or one without front matter, or one whose front
  matter has a \<^verbatim>\<open>phase:\<close> line and a \<^verbatim>\<open>step:\<close> line; what else the checkpoint says is kept.  So an advance is seen by the
  next action and a \<^verbatim>\<open>recovering\<close> step is cleared.\<close>

theorem checkpoint_round_trip:
  assumes "one_word segment"
    "\<forall>t front rest. txt = Some t \<and> front_matter t = Some (front, rest) \<longrightarrow>
       (\<exists>l \<in> set (js_lines front). has_prefix (js ''phase:'') l) \<and> (\<exists>l \<in> set (js_lines front). has_prefix (js ''step:'') l) \<and>
       (\<forall>c \<in> set front. js_newline c \<longrightarrow> c = 10)"
  shows "checkpointState (Some (updated_checkpoint segment txt)) = \<lparr>cp_step = Some (js ''framed''), cp_segment = Some segment\<rparr> \<and>
    (case txt of None \<Rightarrow> True | Some t \<Rightarrow> \<exists>start. updated_checkpoint segment txt = start @ (case front_matter t of None \<Rightarrow> t | Some (_, rest) \<Rightarrow> rest))"
proof -
  let ?p = "js ''phase:''" and ?s = "js ''step:''"
  have keys: "?p \<noteq> []" "10 \<notin> set ?p" "?s \<noteq> []" "10 \<notin> set ?s" by (auto simp: js_unfold)
  have words: "js ''phase: '' @ segment = ?p @ 32 # segment" "js ''step: framed'' = ?s @ 32 # js ''framed''" by (simp_all add: js_unfold)
  have other: "\<not> has_prefix ?p (js ''step: framed'')" "\<not> has_prefix ?s (js ''phase: '' @ segment)" "\<not> has_prefix ?p (js ''---'')"
    "\<not> has_prefix ?s (js ''---'')" "\<not> has_prefix ?s (js ''wave: 1'')" by (simp_all add: js_unfold)
  have plain: "\<forall>c \<in> set (js ''---''). \<not> js_newline c" "\<forall>c \<in> set (js ''wave: 1''). \<not> js_newline c"
    "\<forall>c \<in> set (js ''phase: '' @ segment). \<not> js_newline c"
    using plain_keys(1) word_no_newline [OF assms(1)] by (auto simp: js_unfold js_newline_def)
  have top: "match_key k True (js ''---'' @ 10 # r) = match_key k True r" if "k = ?p \<or> k = ?s" for k r
    using that keys other by (intro skip_line plain) auto
  have header: "match_key ?p True (checkpoint_header segment @ r) = Some segment"
    "match_key ?s True (checkpoint_header segment @ r) = Some (js ''framed'')" for r
  proof -
    have h: "checkpoint_header segment @ r = js ''---'' @ 10 # (js ''phase: '' @ segment) @ 10 # js ''wave: 1'' @ 10 # js ''step: framed'' @ 10 # js ''---'' @ 10 # r"
      by (simp add: checkpoint_header_def)
    show "match_key ?p True (checkpoint_header segment @ r) = Some segment"
      unfolding h words(1) using top match_line [OF assms(1) keys(1)] by simp
    show "match_key ?s True (checkpoint_header segment @ r) = Some (js ''framed'')"
      unfolding h using top skip_line [OF plain(3) other(2) keys(4)] skip_line [OF plain(2) other(5) keys(4)]
        match_line [OF plain_keys(2) keys(3)] words(2) by simp
  qed
  show ?thesis
  proof (cases "\<exists>t front rest. txt = Some t \<and> front_matter t = Some (front, rest)")
    case False
    hence u: "\<exists>r. updated_checkpoint segment txt = checkpoint_header segment @ r"
      by (cases "txt") (auto simp: updated_checkpoint_def split: option.splits)
    thus ?thesis using header False by (auto simp: checkpointState_def updated_checkpoint_def split: option.splits)
  next
    case True
    then obtain t front rest where t: "txt = Some t" "front_matter t = Some (front, rest)" by blast
    hence ex: "\<exists>l \<in> set (js_lines front). has_prefix ?p l" "\<exists>l \<in> set (js_lines front). has_prefix ?s l"
      and nl: "\<And>l c. l \<in> set (js_lines front) \<Longrightarrow> c \<in> set l \<Longrightarrow> \<not> js_newline c"
      using assms(2) js_lines_chars by blast+
    have u: "updated_checkpoint segment txt = js ''---'' @ 10 # js_join [10] (map (front_line segment) (js_lines front)) @ 10 # js ''---'' @ 10 # rest"
      by (simp add: updated_checkpoint_def t)
    have g: "(if has_prefix ?p l then front_line segment l = ?p @ 32 # segment else \<not> has_prefix ?p (front_line segment l)) \<and>
        (if has_prefix ?s l then front_line segment l = ?s @ 32 # js ''framed'' else \<not> has_prefix ?s (front_line segment l)) \<and>
        (\<forall>c \<in> set (front_line segment l). \<not> js_newline c)" if "l \<in> set (js_lines front)" for l
    proof -
      have "\<not> (has_prefix ?p l \<and> has_prefix ?s l)" by (cases l) (auto simp: js_unfold)
      thus ?thesis using nl [OF that] other(1,2) words plain(3) plain_keys(1) by (auto simp: front_line_def)
    qed
    have "match_key ?p True (updated_checkpoint segment txt) = Some segment"
      unfolding u top [OF disjI1 [OF refl]] by (rule match_lines [OF assms(1) keys(1,2) ex(1)]) (use g in blast)
    moreover have "match_key ?s True (updated_checkpoint segment txt) = Some (js ''framed'')"
      unfolding u top [OF disjI2 [OF refl]] by (rule match_lines [OF plain_keys(2) keys(3,4) ex(2)]) (use g in blast)
    ultimately show ?thesis using t u by (auto simp: checkpointState_def)
  qed
qed

definition demo_checkpoint :: jstr where
  "demo_checkpoint = js ''---'' @ [10] @ js ''phase: 3'' @ [10] @ js ''step: recovering'' @ [10] @ js ''---'' @ [10] @ js ''log''"

theorem checkpoint_round_trip_witness:
  "front_matter demo_checkpoint = Some (js ''phase: 3'' @ [10] @ js ''step: recovering'', js ''log'') \<and>
   checkpointState (Some demo_checkpoint) = \<lparr>cp_step = Some (js ''recovering''), cp_segment = Some (js ''3'')\<rparr> \<and>
   checkpointState (Some (updated_checkpoint (js ''5a'') (Some demo_checkpoint))) = \<lparr>cp_step = Some (js ''framed''), cp_segment = Some (js ''5a'')\<rparr>"
proof (intro conjI)
  show f: "front_matter demo_checkpoint = Some (js ''phase: 3'' @ [10] @ js ''step: recovering'', js ''log'')"
    by (simp add: demo_checkpoint_def front_matter_def js_unfold)
  show "checkpointState (Some demo_checkpoint) = \<lparr>cp_step = Some (js ''recovering''), cp_segment = Some (js ''3'')\<rparr>"
    by (simp add: demo_checkpoint_def checkpointState_def js_unfold js_newline_def first_word_def js_space_def)
  have w: "one_word (js ''5a'')" by (simp add: one_word_def js_unfold js_space_def)
  have l: "js_lines (js ''phase: 3'' @ [10] @ js ''step: recovering'') = [js ''phase: 3'', js ''step: recovering'']" by (simp add: js_unfold)
  have p: "has_prefix (js ''phase:'') (js ''phase: 3'')" "has_prefix (js ''step:'') (js ''step: recovering'')" by (simp_all add: js_unfold)
  have n: "\<forall>c \<in> set (js ''phase: 3'' @ [10] @ js ''step: recovering''). js_newline c \<longrightarrow> c = 10" by (simp add: js_unfold js_newline_def)
  have "checkpointState (Some (updated_checkpoint (js ''5a'') (Some demo_checkpoint))) =
      \<lparr>cp_step = Some (js ''framed''), cp_segment = Some (js ''5a'')\<rparr> \<and> (case Some demo_checkpoint of None \<Rightarrow> True | Some t \<Rightarrow>
        \<exists>start. updated_checkpoint (js ''5a'') (Some demo_checkpoint) = start @ (case front_matter t of None \<Rightarrow> t | Some (_, rest) \<Rightarrow> rest))"
    using f l p n by (intro checkpoint_round_trip [OF w]) auto
  thus "checkpointState (Some (updated_checkpoint (js ''5a'') (Some demo_checkpoint))) = \<lparr>cp_step = Some (js ''framed''), cp_segment = Some (js ''5a'')\<rparr>" ..
qed

section \<open>How a run ends\<close>

named_theorems returns_intro "what an action can return, and where"

text \<open>Whatever the machine, if the action returns then it does so with \<open>Q\<close>.\<close>

abbreviation answers :: "('a, 'w) act \<Rightarrow> ('a \<Rightarrow> 'w Machine \<Rightarrow> bool) \<Rightarrow> bool" where
  "answers m Q \<equiv> triple (\<lambda>_. True) m Q (\<lambda>_ _. True)"

lemma returns_ret [returns_intro]: "(\<And>s. Q a s) \<Longrightarrow> answers (ret a) Q"
  by (simp add: triple_ret)

lemma returns_then [returns_intro]: "(\<And>a. answers (f a) Q) \<Longrightarrow> answers (andThen m f) Q"
  by (rule triple_then [where R = "\<lambda>_ _. True"]) (simp add: triple_def split: prod.split sum.split)

lemma returns_if [returns_intro]: "(b \<Longrightarrow> answers m Q) \<Longrightarrow> (\<not> b \<Longrightarrow> answers m' Q) \<Longrightarrow> answers (if b then m else m') Q"
  by simp

lemma returns_option [returns_intro]: "answers m Q \<Longrightarrow> (\<And>a. answers (f a) Q) \<Longrightarrow> answers (case x of None \<Rightarrow> m | Some a \<Rightarrow> f a) Q"
  by (cases x) simp_all

lemma returns_pair [returns_intro]: "(\<And>a b. answers (f a b) Q) \<Longrightarrow> answers (case x of (a, b) \<Rightarrow> f a b) Q"
  by (cases x) simp

text \<open>The escalation is the open one of the state.\<close>

definition open_escalation :: "Escalation \<Rightarrow> 'w Machine \<Rightarrow> bool" where
  "open_escalation e s \<longleftrightarrow> ss_escalation (mc_state s) = Some e \<and> es_resolvedAt e = None"

interpretation escalating: machine_frame cx "open_escalation e" "\<lambda>_. True" for cx :: "'w Ctx" and e
  by unfold_locales (simp_all add: open_escalation_def)

lemma triple_any_error: "triple P m Q E \<Longrightarrow> triple P m Q (\<lambda>_ _. True)"
  by (erule triple_weaken) simp_all

lemma saves_escalation: "es_resolvedAt e = None \<Longrightarrow> answers (save cx (set_escalation e)) (\<lambda>_. open_escalation e)"
  unfolding save_def
  by (rule returns_then) (auto simp: triple_def open_escalation_def set_escalation_def write_defs split: sum.splits option.splits StateFile.splits if_splits)

lemma returns_escalate: "answers (escalate cx trigger segment node reason options evidence) open_escalation"
proof -
  have "answers (andThen (save cx (set_escalation e)) (\<lambda>_. andThen (write_text cx path words) (\<lambda>_.
      andThen (journal cx Escalated None segment node evidence) (\<lambda>_. ret e)))) open_escalation" if "es_resolvedAt e = None" for e path words
    by (rule triple_then [OF saves_escalation [OF that]], rule triple_then, rule triple_any_error [OF escalating.holds_write],
        rule triple_then, rule triple_any_error [OF escalating.holds_journal], rule triple_ret)
  note k = this
  show ?thesis unfolding escalate_def Let_def by (rule returns_then) (rule k, simp)
qed

text \<open>A handler goes on or escalates.\<close>

definition goes_on_or_escalates :: "StepResult \<Rightarrow> 'w Machine \<Rightarrow> bool" where
  "goes_on_or_escalates r s \<longleftrightarrow> r = None \<or> (\<exists>e. r = Some (SUP_ESCALATED, Some e) \<and> open_escalation e s)"

lemma goes_on [simp]: "goes_on_or_escalates None s"
  by (simp add: goes_on_or_escalates_def)

lemma returns_escalated [returns_intro]: "answers (escalated (escalate cx trigger segment node reason options evidence)) goes_on_or_escalates"
  unfolding escalated_def by (rule triple_then [OF returns_escalate], rule triple_ret) (simp add: goes_on_or_escalates_def)

lemma returns_answer [returns_intro]: "answers (worker_answer cx trigger segment evidence r) goes_on_or_escalates"
  unfolding worker_answer_def blocked_by_worker_def by (intro returns_intro; simp)

lemma returns_gate: "answers (handleGate cx action kind) goes_on_or_escalates"
  unfolding handleGate_def gate_passed_def gate_held_def repair_gate_def escalationForRepairExhaustion_def Let_def
  by (intro returns_intro; simp)

lemma returns_result: "answers (handle_result cx segment node result) goes_on_or_escalates"
  unfolding handle_result_def escalationForRepairExhaustion_def blocked_by_worker_def Let_def
  by (cases "wr_outcome result"; simp only: WorkerOutcome.case; intro returns_intro; simp)

lemma returns_results: "answers (handle_results cx segment rs) goes_on_or_escalates"
proof (induction rs)
  case (Cons r rs)
  obtain node result where r: "r = (node, result)" by (cases r)
  show ?case
    unfolding r handle_results.simps
  proof (rule triple_then [OF returns_result])
    fix x
    show "triple (goes_on_or_escalates x) (if x = None then handle_results cx segment rs else ret x) goes_on_or_escalates (\<lambda>_ _. True)"
      using triple_pre [OF Cons] by (cases "x = None") (auto intro: triple_ret)
  qed
qed (simp add: returns_ret)

definition completes :: "FlowAction \<Rightarrow> StepResult \<Rightarrow> bool" where
  "completes action r \<longleftrightarrow> r = Some (SUP_COMPLETE, None) \<and> fa_action action = COMPLETE"

lemma returns_step: "answers (step cx action) (\<lambda>r s. goes_on_or_escalates r s \<or> completes action r)"
proof -
  have w: "answers m goes_on_or_escalates \<Longrightarrow> answers m (\<lambda>r s. goes_on_or_escalates r s \<or> P r)" for m :: "(StepResult, 'a) act" and P
    by (erule triple_weaken) simp_all
  have d: "answers (handleDispatch cx action) goes_on_or_escalates"
    unfolding handleDispatch_def Let_def by (intro returns_intro returns_results; simp)
  have s: "answers (segment_worker cx action segment key task n) goes_on_or_escalates" for segment key task n
    unfolding segment_worker_def by (intro returns_intro)
  show ?thesis
    unfolding step_def Let_def
    by (intro returns_then; cases "fa_action action"; simp only: FlowActionKind.case)
       (intro returns_then w returns_escalated d s returns_gate returns_ret; simp add: completes_def)+
qed

text \<open>What each status says.\<close>

definition status_says :: "SuperviseOptions \<Rightarrow> SuperviseResult \<Rightarrow> 'w Machine \<Rightarrow> bool" where
  "status_says opts res s \<longleftrightarrow> (case su_status res of
     SUP_COMPLETE \<Rightarrow> su_escalation res = None \<and> \<not> op_dryRun opts \<and> (\<exists>a. su_lastAction res = Some a \<and> fa_action a = COMPLETE)
   | SUP_ESCALATED \<Rightarrow> (\<exists>e. su_escalation res = Some e \<and> open_escalation e s)
   | SUP_STOPPED \<Rightarrow> su_escalation res = None \<and> dk_stop (mc_disk s) \<and> ss_stopRequested (mc_state s)
   | SUP_ITERATION_LIMIT \<Rightarrow> su_escalation res = None
   | SUP_DRY_RUN \<Rightarrow> su_escalation res = None \<and> op_dryRun opts)"

definition good_end :: "SuperviseOptions \<Rightarrow> nat \<Rightarrow> nat \<Rightarrow> SuperviseResult \<Rightarrow> 'w Machine \<Rightarrow> bool" where
  "good_end opts i k res s \<longleftrightarrow> i \<le> su_iterations res \<and> su_iterations res \<le> i + k \<and>
     (su_status res = SUP_ITERATION_LIMIT \<longrightarrow> su_iterations res = i + k) \<and> status_says opts res s"

lemma good_end_later: "good_end opts (i + 1) k res s \<Longrightarrow> good_end opts i (Suc k) res s"
  by (auto simp: good_end_def)

lemma returns_stuck: "answers (stuck_run cx action sig repeats) open_escalation"
  unfolding stuck_run_def Let_def by (intro returns_then returns_escalate)

lemma returns_round:
  assumes "\<And>a sig n. answers (again a sig n) (good_end (cx_opts cx) (i + 1) k)"
  shows "answers (supervise_round again cx i signature repeats) (good_end (cx_opts cx) i (Suc k))"
proof -
  let ?G = "good_end (cx_opts cx) i (Suc k)"
  have step: "answers (andThen (step cx action) (\<lambda>outcome. case outcome of
       Some (status, e) \<Rightarrow> ret (sup_result status (i + 1) (Some action) e)
     | None \<Rightarrow> again (Some action) sig n)) ?G" if "\<not> op_dryRun (cx_opts cx)" for action sig n
  proof (rule triple_then [OF returns_step])
    fix x
    have g: "answers (again (Some action) sig n) ?G" by (rule triple_weaken [OF assms]) (simp_all add: good_end_later)
    show "triple (\<lambda>s. goes_on_or_escalates x s \<or> completes action x)
       (case x of Some (status, e) \<Rightarrow> ret (sup_result status (i + 1) (Some action) e) | None \<Rightarrow> again (Some action) sig n) ?G (\<lambda>_ _. True)"
    proof (cases x)
      case None
      thus ?thesis using triple_pre [OF g] by simp
    next
      case (Some y)
      obtain status e where y: "y = (status, e)" by (cases y)
      show ?thesis unfolding Some y option.case prod.case
        using that by (auto intro!: triple_ret simp: goes_on_or_escalates_def completes_def good_end_def status_says_def sup_result_def)
    qed
  qed
  have stuck: "answers (andThen (stuck_run cx action sig n) (\<lambda>e. ret (sup_result SUP_ESCALATED (i + 1) (Some action) (Some e)))) ?G" for action sig n
    by (rule triple_then [OF returns_stuck], rule triple_ret) (auto simp: good_end_def status_says_def sup_result_def)
  show ?thesis
    unfolding supervise_round_def Let_def
    by (intro returns_then returns_if stuck step) (auto intro!: returns_ret simp: good_end_def status_says_def sup_result_def)
qed

text \<open>A stop that was seen is still on disk when it has been saved.\<close>

interpretation stopping: machine_frame cx "\<lambda>s. dk_stop (mc_disk s)" "\<lambda>_. True" for cx :: "'w Ctx"
  by unfold_locales simp_all

lemma returns_stopped:
  "triple (\<lambda>s. dk_stop (mc_disk s)) (andThen (journal cx StopObserved None None None []) (\<lambda>_.
     andThen (save cx set_stopped) (\<lambda>_. ret (sup_result SUP_STOPPED i a None)))) (good_end (cx_opts cx) i (Suc k)) (\<lambda>_ _. True)"
proof -
  have "triple (\<lambda>s. dk_stop (mc_disk s)) (save cx set_stopped) (\<lambda>_ s. dk_stop (mc_disk s) \<and> ss_stopRequested (mc_state s)) (\<lambda>_ _. True)"
    unfolding save_def
    by (rule triple_then, rule triple_any_error [OF stopping.holds_now])
       (auto simp: triple_def set_stopped_def write_defs split: sum.splits option.splits StateFile.splits if_splits)
  thus ?thesis
    by (intro triple_then [OF triple_any_error [OF stopping.holds_journal]], intro triple_then, assumption)
       (auto intro!: triple_ret simp: good_end_def status_says_def sup_result_def)
qed

lemma returns_loop: "answers (supervise_loop k cx i a signature repeats) (good_end (cx_opts cx) i k)"
proof (induction k arbitrary: i a signature repeats)
  case 0
  show ?case by (auto intro!: returns_ret simp: good_end_def status_says_def sup_result_def)
next
  case (Suc k)
  let ?G = "good_end (cx_opts cx) i (Suc k)"
  have round: "triple P (supervise_round (supervise_loop k cx (i + 1)) cx i signature repeats) ?G (\<lambda>_ _. True)" for P
    by (rule triple_pre [OF returns_round [OF Suc]]) simp
  have escalated: "triple (\<lambda>s. P s \<and> mc_state s = st) (ret (sup_result SUP_ESCALATED i a (Some e))) ?G (\<lambda>_ _. True)"
    if "ss_escalation st = Some e" "es_resolvedAt e = None" for P st e
    by (rule triple_ret) (use that in \<open>auto simp: good_end_def status_says_def sup_result_def open_escalation_def\<close>)
  have "triple (\<lambda>s. stop = dk_stop (mc_disk s)) (if stop then andThen (journal cx StopObserved None None None []) (\<lambda>_.
       andThen (save cx set_stopped) (\<lambda>_. ret (sup_result SUP_STOPPED i a None)))
     else andThen the_state (\<lambda>st. case ss_escalation st of
         Some e \<Rightarrow> if es_resolvedAt e = None then ret (sup_result SUP_ESCALATED i a (Some e))
           else supervise_round (supervise_loop k cx (i + 1)) cx i signature repeats
       | None \<Rightarrow> supervise_round (supervise_loop k cx (i + 1)) cx i signature repeats)) ?G (\<lambda>_ _. True)" for stop
  proof (cases stop)
    case True
    thus ?thesis using returns_stopped by simp
  next
    case False
    show ?thesis unfolding if_not_P [OF False]
    proof (rule triple_state)
      fix st
      show "triple (\<lambda>s. stop = dk_stop (mc_disk s) \<and> mc_state s = st) (case ss_escalation st of
         Some e \<Rightarrow> if es_resolvedAt e = None then ret (sup_result SUP_ESCALATED i a (Some e))
           else supervise_round (supervise_loop k cx (i + 1)) cx i signature repeats
       | None \<Rightarrow> supervise_round (supervise_loop k cx (i + 1)) cx i signature repeats) ?G (\<lambda>_ _. True)"
        using round escalated by (cases "ss_escalation st") auto
    qed
  qed
  thus ?case unfolding supervise_loop.simps
    by (intro triple_then [where R = "\<lambda>stop s. stop = dk_stop (mc_disk s)"]) (simp_all add: triple_def on_disk_def)
qed

text \<open>A dry run asks for actions and keeps its state, and does nothing else.\<close>

interpretation silent: machine_frame cx "\<lambda>s. mc_trace s = tr" "\<lambda>_. True" for cx :: "'w Ctx" and tr
  by unfold_locales simp_all

abbreviation quiet :: "Event list \<Rightarrow> ('a, 'w) act \<Rightarrow> bool" where
  "quiet tr m \<equiv> triple (\<lambda>s. mc_trace s = tr) m (\<lambda>_ s. mc_trace s = tr) (silent.fails tr)"

lemma silent_save: "quiet tr (save cx f)"
  unfolding save_def
  by (rule silent.holds_then [OF silent.holds_now]) (auto simp: triple_def silent.fails_def split: sum.splits)

lemma silent_derive: "quiet tr (on_disk (dp_deriveAction (cx_deps cx)))"
  by (auto simp: triple_def on_disk_def split: prod.splits)

lemma silent_stuck: "quiet tr (stuck_run cx action sig n)"
  unfolding stuck_run_def recordFailure_def escalate_def Let_def
  by (intro silent.holds_then silent.holds_uuid silent.holds_now silent.holds_write silent.holds_journal silent.holds_ret silent_save)

lemma silent_round:
  assumes "op_dryRun (cx_opts cx)"
  shows "quiet tr (supervise_round again cx i signature repeats)"
  unfolding supervise_round_def Let_def if_P [OF assms]
  by (intro silent.holds_then silent.holds_if silent.holds_reap silent.holds_ret silent_save silent_derive silent_stuck)

lemma silent_loop:
  assumes "op_dryRun (cx_opts cx)"
  shows "quiet tr (supervise_loop k cx i a signature repeats)"
proof (cases k)
  case (Suc j)
  show ?thesis unfolding Suc supervise_loop.simps
    by (intro silent.holds_then silent.holds_read_stop silent.holds_if silent.holds_journal silent_save silent.holds_ret
        silent.holds_state silent.holds_option silent_round [OF assms])
qed (simp add: silent.holds_ret)

lemma dry_run_runs_nothing:
  assumes "op_dryRun (cx_opts cx)" "mc_trace s = tr" "supervise_run cx s = (r, s')"
  shows "mc_trace s' = tr"
proof -
  have "quiet tr (supervise_run cx)"
    unfolding supervise_run_def by (intro silent.holds_then silent_save silent.holds_journal silent_loop [OF assms(1)])
  from silent.holdsD [OF this assms(2,3)] show ?thesis by blast
qed

lemma stop_is_obeyed:
  assumes "dk_stop (mc_disk s)" "supervise_loop (Suc k) cx i a signature repeats s = (Inr res, s')"
  shows "su_status res = SUP_STOPPED \<and> su_iterations res = i \<and> mc_trace s' = mc_trace s"
  using assms by (auto simp: on_disk_def andThen_def journal_def save_def the_now_def on_world_def ret_def sup_result_def split: prod.splits sum.splits)

text \<open>C33. The status of a run says truly how it ended, whatever its commands and workers did.  A run makes at most the given
  number of iterations, and reports the limit only when it has used all of them; it reports completion only if the last
  action of the control plane was \<^verbatim>\<open>COMPLETE\<close>; it is escalated exactly when it returns an escalation, which is then the
  open one of its state; it is stopped only if the stop file is there, and an iteration that begins with the stop file
  runs nothing and stops; and a dry run, the only one that says so, runs no command and starts no worker.\<close>

theorem run_status_says_why:
  assumes "supervise opts deps disk = Inr (Inr res, s')"
  shows "su_iterations res \<le> op_maxIterations opts \<and>
    (su_status res = SUP_ITERATION_LIMIT \<longrightarrow> su_iterations res = op_maxIterations opts) \<and>
    (su_status res = SUP_COMPLETE \<longrightarrow> (\<exists>a. su_lastAction res = Some a \<and> fa_action a = COMPLETE)) \<and>
    (su_status res = SUP_ESCALATED \<longleftrightarrow> su_escalation res \<noteq> None) \<and>
    (\<forall>e. su_escalation res = Some e \<longrightarrow> ss_escalation (mc_state s') = Some e \<and> es_resolvedAt e = None) \<and>
    (su_status res = SUP_STOPPED \<longrightarrow> dk_stop (mc_disk s') \<and> ss_stopRequested (mc_state s')) \<and>
    (\<forall>cx k i a sig n s1 res1 s2. dk_stop (mc_disk s1) \<and> supervise_loop (Suc k) cx i a sig n s1 = (Inr res1, s2) \<longrightarrow>
       su_status res1 = SUP_STOPPED \<and> su_iterations res1 = i \<and> mc_trace s2 = mc_trace s1) \<and>
    (su_status res = SUP_DRY_RUN \<longrightarrow> op_dryRun opts) \<and>
    (op_dryRun opts \<longrightarrow> su_status res \<noteq> SUP_COMPLETE \<and> mc_trace s' = [])"
proof -
  obtain cx s where run: "supervise_run cx s = (Inr res, s')" "cx_opts cx = opts" "mc_trace s = []"
    using assms unfolding supervise_def by (auto split: prod.splits sum.splits)
  have "answers (supervise_run cx) (good_end (cx_opts cx) 0 (op_maxIterations (cx_opts cx)))"
    unfolding supervise_run_def by (intro returns_then returns_loop)
  from tripleD(1) [OF this TrueI run(1)] have g: "good_end opts 0 (op_maxIterations opts) res s'" by (simp add: run(2))
  have quiet: "op_dryRun opts \<Longrightarrow> mc_trace s' = []" using dry_run_runs_nothing [OF _ run(3,1)] run(2) by simp
  have "su_iterations res \<le> op_maxIterations opts"
    "su_status res = SUP_ITERATION_LIMIT \<longrightarrow> su_iterations res = op_maxIterations opts" "status_says opts res s'"
    using g by (simp_all add: good_end_def)
  hence "su_iterations res \<le> op_maxIterations opts" "su_status res = SUP_ITERATION_LIMIT \<longrightarrow> su_iterations res = op_maxIterations opts"
    "su_status res = SUP_COMPLETE \<longrightarrow> (\<exists>a. su_lastAction res = Some a \<and> fa_action a = COMPLETE)"
    "su_status res = SUP_ESCALATED \<longleftrightarrow> su_escalation res \<noteq> None"
    "\<forall>e. su_escalation res = Some e \<longrightarrow> ss_escalation (mc_state s') = Some e \<and> es_resolvedAt e = None"
    "su_status res = SUP_STOPPED \<longrightarrow> dk_stop (mc_disk s') \<and> ss_stopRequested (mc_state s')"
    "su_status res = SUP_DRY_RUN \<longrightarrow> op_dryRun opts" "op_dryRun opts \<longrightarrow> su_status res \<noteq> SUP_COMPLETE \<and> mc_trace s' = []"
    using quiet by (cases "su_status res"; auto simp: status_says_def open_escalation_def)+
  moreover note stop_is_obeyed
  ultimately show ?thesis by (intro conjI) (assumption | blast)+
qed

lemma demo_complete:
  "\<exists>res s'. supervise demo_options (demo_deps (flow_action COMPLETE)) (demo_disk (initialState 0 (js ''run''))) = Inr (Inr res, s') \<and>
     su_status res = SUP_COMPLETE"
  by (simp add: supervise_def supervise_run_def loadOrInit_def readState_def initialState_def save_def write_defs set_bounds_def
      supervise_round_def reap_leases_def reapExpired_def listLeases_def step_def note_action_def flow_action_def sup_result_def
      signatureOf_def action_name_def action_defs demo_defs Let_def or_else_def numeral_2_eq_2 js_unfold)

theorem run_status_says_why_witness:
  "\<exists>res s' a. supervise demo_options (demo_deps (flow_action COMPLETE)) (demo_disk (initialState 0 (js ''run''))) = Inr (Inr res, s') \<and>
     su_iterations res \<le> 2 \<and> su_escalation res = None \<and> su_lastAction res = Some a \<and> fa_action a = COMPLETE"
proof -
  obtain res s' where r: "supervise demo_options (demo_deps (flow_action COMPLETE)) (demo_disk (initialState 0 (js ''run''))) = Inr (Inr res, s')"
    "su_status res = SUP_COMPLETE" using demo_complete by blast
  have "op_maxIterations demo_options = 2" by (simp add: demo_options_def)
  thus ?thesis using run_status_says_why [OF r(1)] r by auto
qed

end
