(* ===== verification/Lane_Paths.thy ===== *)
theory Lane_Paths
  imports Js_Text
begin

text \<open>
  Paths and patterns of the lane control plane (\<^verbatim>\<open>scripts/lanes.ts\<close>): which paths a pattern matches, when two patterns
  are said to overlap, and the ownership gate of a lane.  A pattern is split as the code splits it before it builds a
  regular expression from the parts; the expression is evaluated by what it matches.
\<close>

section \<open>Matching\<close>

definition normalise :: "jstr \<Rightarrow> jstr" where
  "normalise p = (let q = map (\<lambda>c. if c = 92 then 47 else c) p in if has_prefix (js ''./'') q then drop 2 q else q)"

text \<open>\<^verbatim>\<open>**/\<close>, \<^verbatim>\<open>**\<close>, \<^verbatim>\<open>*\<close>, \<^verbatim>\<open>?\<close> and one character of everything else.\<close>

datatype GlobPart = AnyDirs | AnyPath | AnyName | AnyChar | Literal jchar

fun glob_parts :: "jstr \<Rightarrow> GlobPart list" where
  "glob_parts [] = []"
| "glob_parts (c # cs) =
     (if c = 42 then
        (case cs of
           d # ds \<Rightarrow>
             if d = 42 then (case ds of e # es \<Rightarrow> if e = 47 then AnyDirs # glob_parts es else AnyPath # glob_parts ds | [] \<Rightarrow> [AnyPath])
             else AnyName # glob_parts cs
         | [] \<Rightarrow> [AnyName])
      else if c = 63 then AnyChar # glob_parts cs
      else Literal c # glob_parts cs)"

text \<open>What can be left of a text after \<^verbatim>\<open>.*\<close> or \<^verbatim>\<open>[^/]*\<close>, and after \<^verbatim>\<open>.*/\<close>.\<close>

fun rests :: "(jchar \<Rightarrow> bool) \<Rightarrow> jstr \<Rightarrow> jstr list" where
  "rests P [] = [[]]"
| "rests P (c # cs) = (c # cs) # (if P c then rests P cs else [])"

fun rests_below :: "jstr \<Rightarrow> jstr list" where
  "rests_below [] = []"
| "rests_below (c # cs) = (if c = 47 then [cs] else []) @ (if js_newline c then [] else rests_below cs)"

fun glob_match :: "GlobPart list \<Rightarrow> jstr \<Rightarrow> bool" where
  "glob_match [] s = (s = [])"
| "glob_match (AnyDirs # ps) s = (glob_match ps s \<or> list_ex (glob_match ps) (rests_below s))"
| "glob_match (AnyPath # ps) s = list_ex (glob_match ps) (rests (\<lambda>c. \<not> js_newline c) s)"
| "glob_match (AnyName # ps) s = list_ex (glob_match ps) (rests (\<lambda>c. c \<noteq> 47) s)"
| "glob_match (AnyChar # ps) s = (case s of [] \<Rightarrow> False | c # cs \<Rightarrow> c \<noteq> 47 \<and> glob_match ps cs)"
| "glob_match (Literal a # ps) s = (case s of [] \<Rightarrow> False | c # cs \<Rightarrow> c = a \<and> glob_match ps cs)"

definition matchPath :: "jstr \<Rightarrow> jstr \<Rightarrow> bool" where
  "matchPath path pattern = glob_match (glob_parts (normalise pattern)) (normalise path)"

definition anyMatch :: "jstr \<Rightarrow> jstr list \<Rightarrow> jstr option" where
  "anyMatch path patterns = List.find (matchPath path) patterns"

section \<open>Overlap\<close>

definition glob_char :: "jchar \<Rightarrow> bool" where
  "glob_char c \<longleftrightarrow> c = 42 \<or> c = 63 \<or> c = 91 \<or> c = 93"

text \<open>\<^verbatim>\<open>slice(0, lastIndexOf('/') + 1)\<close>, which is empty where there is no slash.\<close>

definition up_to_slash :: "jstr \<Rightarrow> jstr" where
  "up_to_slash s = rev (dropWhile (\<lambda>c. c \<noteq> 47) (rev s))"

definition literalPrefix :: "jstr \<Rightarrow> jstr" where
  "literalPrefix pattern =
     (let p = normalise pattern in if list_ex glob_char p then up_to_slash (takeWhile (\<lambda>c. \<not> glob_char c) p) else p)"

definition withSlash :: "jstr \<Rightarrow> jstr" where
  "withSlash p = (if p = [] \<or> last p = 47 then p else p @ [47])"

definition patternsOverlap :: "jstr \<Rightarrow> jstr \<Rightarrow> bool" where
  "patternsOverlap a b =
     (let A = withSlash (literalPrefix a); B = withSlash (literalPrefix b) in has_prefix B A \<or> has_prefix A B)"

section \<open>Ownership\<close>

datatype OwnershipReason = ForbiddenPath | NoAllowedPaths | OutsideAllowed

record Violation =
  vi_file :: jstr
  vi_reason :: OwnershipReason
  vi_rule :: jstr

record OwnershipVerdict =
  ov_violations :: "Violation list"
  ov_accepted :: "jstr list"

text \<open>The loop body: a file is accepted or violates a rule.\<close>

definition judge_file :: "jstr list \<Rightarrow> jstr list \<Rightarrow> jstr \<Rightarrow> Violation + jstr" where
  "judge_file allowed forbidden raw =
     (let f = normalise raw
      in if matchPath f (js ''.artifacts/**'') then Inr f
         else case anyMatch f forbidden of
                Some rule \<Rightarrow> Inl \<lparr>vi_file = f, vi_reason = ForbiddenPath, vi_rule = rule\<rparr>
              | None \<Rightarrow>
                  if allowed = [] then Inl \<lparr>vi_file = f, vi_reason = NoAllowedPaths, vi_rule = js ''(none)''\<rparr>
                  else if anyMatch f allowed = None then Inl \<lparr>vi_file = f, vi_reason = OutsideAllowed, vi_rule = js_join (js '', '') allowed\<rparr>
                  else Inr f)"

definition checkOwnership :: "jstr list \<Rightarrow> jstr list \<Rightarrow> jstr list \<Rightarrow> OwnershipVerdict" where
  "checkOwnership changed allowed forbidden =
     (let vs = map (judge_file allowed forbidden) changed
      in \<lparr>ov_violations = map projl (filter isl vs), ov_accepted = map projr (filter (\<lambda>v. \<not> isl v) vs)\<rparr>)"

abbreviation inside_lane :: "OwnershipVerdict \<Rightarrow> bool" where
  "inside_lane v \<equiv> ov_violations v = []"

section \<open>The overlap test misses nothing\<close>

lemma anyMatch_iff: "anyMatch path patterns \<noteq> None \<longleftrightarrow> (\<exists>p \<in> set patterns. matchPath path p)"
  by (auto simp: anyMatch_def find_None_iff)

text \<open>Up to the first special character a pattern matches only itself.\<close>

lemma glob_parts_literal: "\<not> glob_char c \<Longrightarrow> glob_parts (c # cs) = Literal c # glob_parts cs"
  by (simp add: glob_char_def)

declare glob_parts.simps(2) [simp del]

lemma match_literal_prefix:
  "glob_match (glob_parts p) s \<Longrightarrow> has_prefix (takeWhile (\<lambda>c. \<not> glob_char c) p) s"
proof (induction p arbitrary: s)
  case (Cons c p)
  show ?case
  proof (cases "glob_char c")
    case False
    with Cons.prems obtain cs where "s = c # cs" "glob_match (glob_parts p) cs"
      by (auto simp: glob_parts_literal split: list.splits)
    thus ?thesis using Cons.IH False by simp
  qed simp
qed simp

lemma match_literal: "\<forall>c \<in> set p. \<not> glob_char c \<Longrightarrow> glob_match (glob_parts p) s \<longleftrightarrow> s = p"
proof (induction p arbitrary: s)
  case (Cons c p)
  thus ?case by (auto simp: glob_parts_literal split: list.splits)
qed simp

lemma up_to_slash_prefix: "has_prefix (up_to_slash s) s"
proof -
  have "s = rev (takeWhile (\<lambda>c. c \<noteq> 47) (rev s) @ dropWhile (\<lambda>c. c \<noteq> 47) (rev s))" by simp
  hence "s = up_to_slash s @ rev (takeWhile (\<lambda>c. c \<noteq> 47) (rev s))" unfolding up_to_slash_def by (metis rev_append)
  thus ?thesis by (metis has_prefix_self)
qed

lemma up_to_slash_end: "withSlash (up_to_slash s) = up_to_slash s"
proof (cases "dropWhile (\<lambda>c. c \<noteq> 47) (rev s)")
  case (Cons c cs)
  hence "c = 47" using hd_dropWhile [of "\<lambda>c. c \<noteq> 47" "rev s"] by simp
  thus ?thesis by (simp add: withSlash_def up_to_slash_def Cons)
qed (simp add: withSlash_def up_to_slash_def)

text \<open>The directory of a pattern contains everything the pattern matches.\<close>

definition covers :: "jstr \<Rightarrow> jstr \<Rightarrow> bool" where
  "covers d p \<longleftrightarrow> d = withSlash p \<or> has_prefix d p"

lemma matched_below_prefix: "matchPath path pattern \<Longrightarrow> covers (withSlash (literalPrefix pattern)) (normalise path)"
proof -
  assume m: "matchPath path pattern"
  let ?p = "normalise pattern"
  show ?thesis
  proof (cases "list_ex glob_char ?p")
    case True
    have "has_prefix (takeWhile (\<lambda>c. \<not> glob_char c) ?p) (normalise path)"
      using m match_literal_prefix unfolding matchPath_def by blast
    thus ?thesis using True has_prefix_trans [OF up_to_slash_prefix]
      by (simp add: covers_def literalPrefix_def up_to_slash_end Let_def)
  next
    case False
    hence "normalise path = ?p" using m match_literal [of ?p] by (auto simp: matchPath_def list_ex_iff)
    thus ?thesis using False by (simp add: covers_def literalPrefix_def)
  qed
qed

lemma withSlash_prefix [simp]: "has_prefix p (withSlash p)"
  by (simp add: withSlash_def)

lemma covers_slash: "covers d p \<Longrightarrow> has_prefix d (withSlash p)"
  unfolding covers_def by (elim disjE) (simp, erule has_prefix_trans [OF _ withSlash_prefix])

text \<open>If some path matches both patterns, they are said to overlap.\<close>

lemma overlap_is_conservative:
  assumes "matchPath path a" "matchPath path b"
  shows "patternsOverlap a b"
proof -
  have "has_prefix (withSlash (literalPrefix x)) (withSlash (normalise path))" if "matchPath path x" for x
    using matched_below_prefix [OF that] by (rule covers_slash)
  hence "has_prefix (withSlash (literalPrefix a)) (withSlash (normalise path))"
    "has_prefix (withSlash (literalPrefix b)) (withSlash (normalise path))" using assms by simp_all
  from prefixes_of_one_text [OF this] show ?thesis by (auto simp: patternsOverlap_def Let_def)
qed

section \<open>The ownership gate\<close>

text \<open>A file may be changed if it is the lane's own report, or allowed and not forbidden.\<close>

definition owned :: "jstr list \<Rightarrow> jstr list \<Rightarrow> jstr \<Rightarrow> bool" where
  "owned allowed forbidden f \<longleftrightarrow> matchPath f (js ''.artifacts/**'') \<or>
     (\<exists>p \<in> set allowed. matchPath f p) \<and> \<not> (\<exists>p \<in> set forbidden. matchPath f p)"

lemma judge_file_cases:
  "judge_file allowed forbidden raw =
    (if matchPath (normalise raw) (js ''.artifacts/**'') then Inr (normalise raw)
     else if anyMatch (normalise raw) forbidden \<noteq> None
       then Inl \<lparr>vi_file = normalise raw, vi_reason = ForbiddenPath, vi_rule = the (anyMatch (normalise raw) forbidden)\<rparr>
     else if allowed = [] then Inl \<lparr>vi_file = normalise raw, vi_reason = NoAllowedPaths, vi_rule = js ''(none)''\<rparr>
     else if anyMatch (normalise raw) allowed = None
       then Inl \<lparr>vi_file = normalise raw, vi_reason = OutsideAllowed, vi_rule = js_join (js '', '') allowed\<rparr>
     else Inr (normalise raw))"
  by (cases "anyMatch (normalise raw) forbidden") (simp_all add: judge_file_def Let_def)

lemma judge_file_owned: "isl (judge_file allowed forbidden raw) \<longleftrightarrow> \<not> owned allowed forbidden (normalise raw)"
proof -
  have "allowed = [] \<Longrightarrow> anyMatch (normalise raw) allowed = None" by (simp add: anyMatch_def)
  thus ?thesis unfolding judge_file_cases owned_def anyMatch_iff [symmetric] by auto
qed

lemma inside_lane_iff: "inside_lane (checkOwnership changed allowed forbidden) \<longleftrightarrow>
    (\<forall>f \<in> set changed. owned allowed forbidden (normalise f))"
  by (simp add: checkOwnership_def Let_def filter_empty_conv judge_file_owned)

end
