(* ===== verification/Lane_Decision.thy ===== *)
theory Lane_Decision
  imports Lane_Paths Flow_Control
begin

text \<open>
  The lane control plane (\<^verbatim>\<open>scripts/lanes.ts\<close>): the decision whether packets may run at the same time, the order they
  are integrated in, and how the units are read out of the graph and the repository.  The text of a requirement is left
  out; its number and its verdict are kept.  The agent rules, the agent files and \<^verbatim>\<open>git\<close> are arguments.
\<close>

section \<open>Units\<close>

record LanePolicy =
  lp_maxConcurrency :: int
  lp_minUnits :: int
  lp_sharedWriteSurfaces :: "jstr list"
  lp_serialiseIfTouches :: "jstr list"
  lp_alwaysForbidden :: "jstr list"

record LaneUnit =
  un_task_id :: jstr
  un_title :: jstr
  un_lane :: jstr
  un_phase :: int
  un_owner :: jstr
  un_risk :: "Risk option"
  un_changeClass :: "jstr option"
  un_depends_on :: "jstr list"
  un_acceptance_criteria :: "jstr list"
  un_validation_commands :: "jstr list"
  un_allowed_paths :: "jstr list"
  un_forbidden_paths :: "jstr list"
  un_unresolved_deps :: "jstr list"
  un_in_batch_deps :: "jstr list"
  un_unknown_deps :: "jstr list"
  un_open_decisions :: "jstr list"
  un_has_packet_source :: bool

record RepoState =
  rs_isGitRepo :: bool
  rs_operationInProgress :: "jstr option"
  rs_conflicted :: "jstr list"
  rs_dirty :: "jstr list"
  rs_head :: "jstr option"

record Requirement =
  rq_number :: nat
  rq_pass :: bool

section \<open>Collisions\<close>

fun pathOverlaps :: "LaneUnit list \<Rightarrow> (jstr \<times> jstr \<times> jstr \<times> jstr) list" where
  "pathOverlaps [] = []"
| "pathOverlaps (a # us) =
     concat (map (\<lambda>b. concat (map (\<lambda>pa. map (\<lambda>pb. (un_task_id a, un_task_id b, pa, pb))
       (filter (patternsOverlap pa) (un_allowed_paths b))) (un_allowed_paths a))) us) @ pathOverlaps us"

definition exactCollisions :: "LaneUnit list \<Rightarrow> (jstr \<times> jstr list) list" where
  "exactCollisions us =
     (let byPattern = fold (\<lambda>u m. fold (\<lambda>p m. AList.update (normalise p) (coalesce (map_of m (normalise p)) [] @ [un_task_id u]) m)
            (un_allowed_paths u) m) us []
      in filter (\<lambda>(_, owners). 1 < length owners) byPattern)"

section \<open>The fifteen requirements\<close>

definition touches :: "jstr list \<Rightarrow> LaneUnit \<Rightarrow> bool" where
  "touches surfaces u \<longleftrightarrow> list_ex (\<lambda>p. list_ex (patternsOverlap p) surfaces) (un_allowed_paths u)"

definition enough_units :: "LanePolicy \<Rightarrow> LaneUnit list \<Rightarrow> bool" where
  "enough_units policy us \<longleftrightarrow> max 2 (lp_minUnits policy) \<le> int (length us)"

definition disjoint_surfaces :: "LaneUnit list \<Rightarrow> bool" where
  "disjoint_surfaces us \<longleftrightarrow> (\<forall>u \<in> set us. un_allowed_paths u \<noteq> []) \<and> pathOverlaps us = []"

definition repo_safe :: "RepoState \<Rightarrow> LaneUnit list \<Rightarrow> bool" where
  "repo_safe repo us \<longleftrightarrow> rs_isGitRepo repo \<and> rs_operationInProgress repo = None \<and> rs_conflicted repo = [] \<and>
     filter (\<lambda>f. list_ex (\<lambda>u. anyMatch f (un_allowed_paths u) \<noteq> None) us) (rs_dirty repo) = []"

definition requirements :: "LaneUnit list \<Rightarrow> LanePolicy \<Rightarrow> RepoState \<Rightarrow> Requirement list" where
  "requirements us policy repo = map (\<lambda>(n, b). \<lparr>rq_number = n, rq_pass = b\<rparr>)
    [(1, enough_units policy us),
     (2, \<forall>u \<in> set us. un_acceptance_criteria u \<noteq> []),
     (3, \<forall>u \<in> set us. un_validation_commands u \<noteq> []),
     (4, \<forall>u \<in> set us. un_unknown_deps u = []),
     (5, \<forall>u \<in> set us. un_in_batch_deps u = []),
     (6, (\<forall>u \<in> set us. un_open_decisions u = []) \<and> (\<forall>u \<in> set us. un_unresolved_deps u = [])),
     (7, disjoint_surfaces us),
     (8, exactCollisions us = []),
     (9, \<forall>u \<in> set us. \<not> touches (lp_sharedWriteSurfaces policy) u),
     (10, \<forall>u \<in> set us. un_validation_commands u \<noteq> [] \<and> un_allowed_paths u \<noteq> []),
     (11, (\<forall>u \<in> set us. \<not> touches (lp_sharedWriteSurfaces policy) u) \<and> disjoint_surfaces us),
     (12, enough_units policy us \<and> (\<forall>u \<in> set us. un_validation_commands u \<noteq> [] \<and> un_acceptance_criteria u \<noteq> [])),
     (13, repo_safe repo us),
     (14, \<forall>u \<in> set us. un_has_packet_source u),
     (15, (\<forall>u \<in> set us. un_risk u \<noteq> Some RiskHigh) \<and> (\<forall>u \<in> set us. \<not> touches (lp_serialiseIfTouches policy) u))]"

section \<open>Order\<close>

definition pending_units :: "LaneUnit list \<Rightarrow> (jstr \<times> jstr list) list" where
  "pending_units us = fold (\<lambda>u m. AList.update (un_task_id u) (filter (\<lambda>d. d \<in> un_task_id ` set us) (un_depends_on u)) m) us []"

definition free_units :: "(jstr \<times> jstr list) list \<Rightarrow> jstr list \<Rightarrow> jstr list" where
  "free_units pending out = js_sort js_compare (map fst (filter (\<lambda>(_, deps). \<forall>d \<in> set deps. d \<in> set out) pending))"

lemma js_sort_ids: "js_sort js_compare (xs :: jstr list) = sort xs"
  by (rule js_sort_key) (auto simp: orders_by_def js_compare_def)

lemma free_units_set: "set (free_units pending out) = fst ` {x \<in> set pending. \<forall>d \<in> set (snd x). d \<in> set out}"
  by (auto simp: free_units_def js_sort_ids image_iff)

function order_loop :: "(jstr \<times> jstr list) list \<Rightarrow> jstr list \<Rightarrow> jstr list" where
  "order_loop pending out =
     (if pending = [] then out
      else let free = free_units pending out
           in if free = [] then out @ js_sort js_compare (map fst pending)
              else order_loop (filter (\<lambda>(i, _). i \<notin> set free) pending) (out @ free))"
  by auto
termination
proof (relation "measure (\<lambda>(pending, _). length pending)")
  fix pending :: "(jstr \<times> jstr list) list" and out free
  assume "pending \<noteq> []" "free = free_units pending out" "free \<noteq> []"
  then obtain i where i: "i \<in> set free" using hd_in_set by blast
  then obtain x where "x \<in> set pending" "fst x \<in> set free"
    using free_units_set [of pending out] \<open>free = free_units pending out\<close> by (metis (no_types, lifting) imageE mem_Collect_eq)
  hence "length (filter (\<lambda>(i, _). i \<notin> set free) pending) < length pending"
    by (intro length_filter_less [of x]) (auto simp: case_prod_beta)
  thus "((filter (\<lambda>(i, _). i \<notin> set free) pending, out @ free), pending, out) \<in> measure (\<lambda>(pending, _). length pending)" by simp
qed simp

declare order_loop.simps [simp del]

definition dependencyOrder :: "LaneUnit list \<Rightarrow> jstr list" where
  "dependencyOrder us = order_loop (pending_units us) []"

definition sharedContracts :: "LaneUnit list \<Rightarrow> jstr list" where
  "sharedContracts us =
     (let counts = fold (\<lambda>u m. fold (\<lambda>d m. if d \<in> un_task_id ` set us then m
            else AList.update d (coalesce (map_of m d) (0 :: nat) + 1) m) (un_depends_on u) m) us []
      in js_sort js_compare (map fst (filter (\<lambda>(_, n). 2 \<le> n) counts)))"

text \<open>One pass of the loop, and the passes until none adds a lane.\<close>

definition halts_pass :: "jstr \<Rightarrow> LaneUnit list \<Rightarrow> jstr list \<Rightarrow> jstr list" where
  "halts_pass i us out = fold (\<lambda>u out.
     if un_task_id u = i \<or> un_task_id u \<in> set out then out
     else if list_ex (\<lambda>d. d = i \<or> d \<in> set out) (un_depends_on u) then out @ [un_task_id u] else out) us out"

lemma halts_pass_grows: "\<exists>ys. halts_pass i us out = out @ ys \<and> set ys \<subseteq> un_task_id ` set us - set out"
proof (induction us rule: rev_induct)
  case (snoc u us)
  then obtain ys where "halts_pass i us out = out @ ys" "set ys \<subseteq> un_task_id ` set us - set out" by auto
  thus ?case by (auto simp: halts_pass_def)
qed (simp add: halts_pass_def)

function halts_loop :: "jstr \<Rightarrow> LaneUnit list \<Rightarrow> jstr list \<Rightarrow> jstr list" where
  "halts_loop i us out = (let out' = halts_pass i us out in if out' = out then out else halts_loop i us out')"
  by auto
termination
proof (relation "measure (\<lambda>(i, us, out). card (un_task_id ` set us - set out))")
  fix i us out and out' :: "jstr list"
  assume a: "out' = halts_pass i us out" "out' \<noteq> out"
  obtain ys where y: "out' = out @ ys" "set ys \<subseteq> un_task_id ` set us - set out" using halts_pass_grows [of i us out] a(1) by auto
  hence "set ys \<noteq> {}" using a(2) by auto
  then obtain x where "x \<in> set ys" by (meson ex_in_conv)
  hence "x \<in> un_task_id ` set us - set out" "x \<notin> un_task_id ` set us - set out'" using y by auto
  hence "un_task_id ` set us - set out' \<subset> un_task_id ` set us - set out" using y(1) by auto
  thus "((i, us, out'), i, us, out) \<in> measure (\<lambda>(i, us, out). card (un_task_id ` set us - set out))"
    by (simp add: psubset_card_mono)
qed simp

declare halts_loop.simps [simp del]

definition dependents :: "LaneUnit \<Rightarrow> LaneUnit list \<Rightarrow> jstr list" where
  "dependents u us = js_sort js_compare (halts_loop (un_task_id u) us [])"

section \<open>Agents and reviews\<close>

datatype ReviewLifecycle = ReviewPerNode | ReviewWave | ReviewPhase | ReviewNone

definition reviewLifecycle :: "jstr \<Rightarrow> Activation \<Rightarrow> ReviewLifecycle" where
  "reviewLifecycle changeClass activation = (case lifecycleOf changeClass activation of
     None \<Rightarrow> ReviewNone
   | Some rule \<Rightarrow>
       if js ''review'' \<in> set (cy_perPacket rule) then ReviewPerNode
       else if js ''review'' \<in> set (cy_perWave rule) then ReviewWave
       else if js ''review'' \<in> set (cy_perPhase rule) then ReviewPhase
       else ReviewNone)"

definition perPacketCaps :: "jstr \<Rightarrow> nat \<Rightarrow> Activation \<Rightarrow> jstr list" where
  "perPacketCaps changeClass openDecisions activation = (case lifecycleOf changeClass activation of
     None \<Rightarrow> []
   | Some rule \<Rightarrow>
       if changeClass = js ''contract'' \<and> 0 < openDecisions \<and> js ''architecture'' \<in> set (cy_conditional rule) \<and>
          js ''architecture'' \<notin> set (cy_perPacket rule)
       then js ''architecture'' # cy_perPacket rule else cy_perPacket rule)"

text \<open>\<^verbatim>\<open>u.changeClass ? lifecycleOf(u.changeClass, activation) : null\<close>.\<close>

definition unit_rule :: "Activation \<Rightarrow> LaneUnit \<Rightarrow> ClassLifecycle option" where
  "unit_rule activation u = (case un_changeClass u of None \<Rightarrow> None | Some c \<Rightarrow> if c = [] then None else lifecycleOf c activation)"

record ReviewCadence =
  rc_per_node :: "jstr list"
  rc_wave :: "jstr list"
  rc_phase :: "jstr list"
  rc_none :: "jstr list"
  rc_wave_review_required :: bool
  rc_wave_gate_agents :: "jstr list"
  rc_phase_gate_agents :: "jstr list"

definition reviewCadenceFor :: "(jstr \<Rightarrow> bool) \<Rightarrow> Activation \<Rightarrow> LaneUnit list \<Rightarrow> ReviewCadence" where
  "reviewCadenceFor agentFile activation us =
     (let bucket = (\<lambda>c. js_sort js_compare (map un_task_id
            (filter (\<lambda>u. reviewLifecycle (coalesce (un_changeClass u) []) activation = c) us)));
          caps = (\<lambda>field. fold add_once (concat (map (\<lambda>u. case unit_rule activation u of None \<Rightarrow> [] | Some rule \<Rightarrow> field rule) us)) []);
          waveCaps = caps cy_perWave; phaseCaps = caps cy_perPhase
      in \<lparr>rc_per_node = bucket ReviewPerNode, rc_wave = bucket ReviewWave, rc_phase = bucket ReviewPhase, rc_none = bucket ReviewNone,
          rc_wave_review_required = (js ''review'' \<in> set waveCaps),
          rc_wave_gate_agents = resolveRoles agentFile (js_sort js_compare waveCaps) activation,
          rc_phase_gate_agents = resolveRoles agentFile (js_sort js_compare phaseCaps) activation\<rparr>)"

section \<open>The decision\<close>

datatype LaneError = UnknownNode jstr | NoUsableChangeClass jstr

record LaneEntry =
  la_task_id :: jstr
  la_lane :: jstr
  la_risk :: "Risk option"
  la_change_class :: "jstr option"
  la_allowed_paths :: "jstr list"
  la_forbidden_paths :: "jstr list"
  la_validation :: "jstr list"
  la_required_agents :: "jstr list"
  la_optional_agents :: "jstr list"
  la_review_cadence :: ReviewLifecycle
  la_halts_if_failed :: "jstr list"
  la_independent_of :: "jstr list"

definition laneEntry :: "(jstr \<Rightarrow> bool) \<Rightarrow> Activation \<Rightarrow> LaneUnit \<Rightarrow> LaneUnit list \<Rightarrow> LaneError + LaneEntry" where
  "laneEntry agentFile activation u us = (case unit_rule activation u of
     None \<Rightarrow> Inl (NoUsableChangeClass (un_task_id u))
   | Some rule \<Rightarrow>
       (let c = the (un_changeClass u);
            requiredCaps = perPacketCaps c (length (un_open_decisions u)) activation;
            optionalCaps = filter (\<lambda>x. x \<notin> set requiredCaps) (cy_conditional rule);
            halts = dependents u us
        in Inr \<lparr>la_task_id = un_task_id u, la_lane = un_lane u, la_risk = un_risk u, la_change_class = un_changeClass u,
             la_allowed_paths = un_allowed_paths u, la_forbidden_paths = un_forbidden_paths u, la_validation = un_validation_commands u,
             la_required_agents = resolveRoles agentFile requiredCaps activation,
             la_optional_agents = resolveRoles agentFile optionalCaps activation,
             la_review_cadence = reviewLifecycle c activation, la_halts_if_failed = halts,
             la_independent_of = js_sort js_compare (filter (\<lambda>i. i \<noteq> un_task_id u \<and> i \<notin> set halts) (map un_task_id us))\<rparr>))"

fun lane_entries :: "(jstr \<Rightarrow> bool) \<Rightarrow> Activation \<Rightarrow> LaneUnit list \<Rightarrow> LaneUnit list \<Rightarrow> LaneError + LaneEntry list" where
  "lane_entries agentFile activation all_units [] = Inr []"
| "lane_entries agentFile activation all_units (u # us) = (case laneEntry agentFile activation u all_units of
     Inl e \<Rightarrow> Inl e
   | Inr l \<Rightarrow> map_sum (\<lambda>e. e) (\<lambda>ls. l # ls) (lane_entries agentFile activation all_units us))"

record LaneDecision =
  ld_mode :: DispatchMode
  ld_eligible :: bool
  ld_blockers :: "nat list"
  ld_dependency_order :: "jstr list"
  ld_shared_contracts :: "jstr list"
  ld_review_cadence :: ReviewCadence
  ld_lanes :: "LaneEntry list"
  ld_max_concurrency :: int
  ld_requirements :: "Requirement list"

definition evaluate :: "(jstr \<Rightarrow> bool) \<Rightarrow> Activation \<Rightarrow> LaneUnit list \<Rightarrow> LanePolicy \<Rightarrow> RepoState \<Rightarrow> LaneError + LaneDecision" where
  "evaluate agentFile activation us policy repo =
     (let req = requirements us policy repo;
          failed = filter (\<lambda>r. \<not> rq_pass r) req;
          eligible = (failed = [])
      in map_sum (\<lambda>e. e) (\<lambda>lanes.
           \<lparr>ld_mode = (if eligible then Parallel else Sequential), ld_eligible = eligible, ld_blockers = map rq_number failed,
            ld_dependency_order = dependencyOrder us, ld_shared_contracts = sharedContracts us,
            ld_review_cadence = reviewCadenceFor agentFile activation us, ld_lanes = lanes,
            ld_max_concurrency = (if eligible then min (lp_maxConcurrency policy) (int (length us)) else 1),
            ld_requirements = req\<rparr>) (lane_entries agentFile activation us us))"

section \<open>Integration\<close>

datatype IntegrationGate = PRE_INTEGRATION | INTEGRATE_LANE | POST_INTEGRATION | BATCH_FINAL

record IntegrationStep =
  is_order :: nat
  is_task_id :: "jstr option"
  is_gate :: IntegrationGate
  is_commands :: "jstr list"

definition lane_steps :: "LaneUnit list \<Rightarrow> nat \<Rightarrow> jstr \<Rightarrow> IntegrationStep list" where
  "lane_steps us n i =
     [\<lparr>is_order = n, is_task_id = Some i, is_gate = PRE_INTEGRATION,
        is_commands = [js ''pnpm lanes handoff .artifacts/handoffs/*-'' @ i @ js ''-*.json'', js ''pnpm lanes check '' @ i]\<rparr>,
      \<lparr>is_order = n, is_task_id = Some i, is_gate = INTEGRATE_LANE, is_commands = [js ''git merge --no-ff lane/'' @ i]\<rparr>,
      \<lparr>is_order = n, is_task_id = Some i, is_gate = POST_INTEGRATION,
        is_commands = (case map_of (rev (map (\<lambda>u. (un_task_id u, u)) us)) i of
           Some u \<Rightarrow> un_validation_commands u | None \<Rightarrow> [js ''pnpm gates''])\<rparr>]"

definition integrationPlan :: "jstr list \<Rightarrow> LaneUnit list \<Rightarrow> IntegrationStep list" where
  "integrationPlan order us =
     concat (map (\<lambda>(n, i). lane_steps us n i) (List.enumerate 1 order)) @
     [\<lparr>is_order = 1 + length order, is_task_id = None, is_gate = BATCH_FINAL, is_commands = [js ''pnpm gates'']\<rparr>]"

section \<open>Units of the graph\<close>

record LaneGraph = Graph +
  lg_lanePolicy :: LanePolicy
  lg_sections :: "(jstr \<times> jstr list) list"

definition describeProbe :: "ProbeSpec \<Rightarrow> jstr" where
  "describeProbe p =
     (let quoted = (\<lambda>s. js ''`'' @ s @ js ''`'')
      in case p of
        ProbePath path \<Rightarrow> quoted path @ js '' exists''
      | ProbeAbsent path \<Rightarrow> quoted path @ js '' is gone''
      | ProbeScript name \<Rightarrow> js ''root script '' @ quoted name @ js '' exists''
      | ProbeGrep dir target pattern \<Rightarrow> js ''/'' @ pattern @ js ''/ appears under '' @ quoted (coalesce target dir)
      | ProbeCmd run \<Rightarrow> quoted run @ js '' exits 0''
      | ProbeManual evidence \<Rightarrow> js ''evidence file '' @ quoted evidence @ js '' exists'')"

definition unitFrom :: "LaneGraph \<Rightarrow> Resolved \<Rightarrow> by_id \<Rightarrow> jstr list \<Rightarrow> LaneUnit" where
  "unitFrom graph n byId batch =
     \<lparr>un_task_id = nd_id n, un_title = nd_title n, un_lane = nd_lane n, un_phase = nd_phase n, un_owner = nd_owner n,
      un_risk = nd_risk n, un_changeClass = nd_changeClass n, un_depends_on = nd_needs n,
      un_acceptance_criteria = map describeProbe (nd_probes n),
      un_validation_commands = coalesce (nd_validate n) [],
      un_allowed_paths = (case nd_own n of Some ow \<Rightarrow> ow_allowed ow | None \<Rightarrow> []),
      un_forbidden_paths = (case nd_own n of Some ow \<Rightarrow> coalesce (ow_forbidden ow) [] | None \<Rightarrow> []) @
        lp_alwaysForbidden (lg_lanePolicy graph),
      un_unresolved_deps = filter (\<lambda>d. d \<notin> set batch \<and>
        (case map_of byId d of Some m \<Rightarrow> rn_state m \<noteq> DONE | None \<Rightarrow> False)) (nd_needs n),
      un_in_batch_deps = filter (\<lambda>d. d \<in> set batch) (nd_needs n),
      un_unknown_deps = filter (\<lambda>d. map_of byId d = None) (nd_needs n),
      un_open_decisions = map pd_id (filter (\<lambda>d. \<not> pd_answered d \<and> nd_id n \<in> set (pd_blocks d)) (gr_decisions graph)),
      un_has_packet_source = (coalesce (map_of (lg_sections graph) (nd_id n)) [] \<noteq> [])\<rparr>"

fun units_of :: "LaneGraph \<Rightarrow> by_id \<Rightarrow> jstr list \<Rightarrow> jstr list \<Rightarrow> LaneError + LaneUnit list" where
  "units_of graph byId batch [] = Inr []"
| "units_of graph byId batch (i # rest) = (case map_of byId i of
     None \<Rightarrow> Inl (UnknownNode i)
   | Some n \<Rightarrow> map_sum (\<lambda>e. e) (\<lambda>us. unitFrom graph n byId batch # us) (units_of graph byId batch rest))"

definition unitsFor :: "Repo \<Rightarrow> LaneGraph \<Rightarrow> jstr list \<Rightarrow> LaneError + LaneUnit list" where
  "unitsFor repo graph ids = units_of graph (resolveGraph repo (Graph.truncate graph)) ids ids"

text \<open>The decision the control plane asks for by default.\<close>

definition lane_decision :: "(jstr \<Rightarrow> bool) \<Rightarrow> Activation \<Rightarrow> Repo \<Rightarrow> LaneGraph \<Rightarrow> RepoState \<Rightarrow> jstr list \<Rightarrow> LaneError + (DispatchMode \<times> jstr list)" where
  "lane_decision agentFile activation repo graph state ids = (case unitsFor repo graph ids of
     Inl e \<Rightarrow> Inl e
   | Inr us \<Rightarrow> map_sum (\<lambda>e. e) (\<lambda>d. (ld_mode d, ld_dependency_order d))
       (evaluate agentFile activation us (lg_lanePolicy graph) state))"

definition nextWave :: "by_id \<Rightarrow> int \<Rightarrow> jstr list" where
  "nextWave byId phase =
     (let rows = filter (\<lambda>n. nd_phase n = phase \<and> rn_state n \<noteq> DONE \<and> 0 < rn_wave n) (map snd byId)
      in if rows = [] then []
         else let first = Min (set (map rn_wave rows))
              in js_sort js_compare (map nd_id (filter (\<lambda>n. rn_wave n = first) rows)))"

definition knownPhases :: "by_id \<Rightarrow> int list" where
  "knownPhases byId = sort (phase_list byId)"

datatype WaveOutcome = UnknownPhase | PhaseComplete | Wave "jstr list"

text \<open>The argument of the command, as a number where \<^verbatim>\<open>Number\<close> yields an integer.\<close>

definition waveOutcome :: "(jstr \<Rightarrow> int option) \<Rightarrow> by_id \<Rightarrow> jstr option \<Rightarrow> WaveOutcome" where
  "waveOutcome toNumber byId raw = (case raw of
     None \<Rightarrow> UnknownPhase
   | Some r \<Rightarrow>
       (case toNumber r of
          Some phase \<Rightarrow>
            if r = [] \<or> phase \<notin> set (knownPhases byId) then UnknownPhase
            else if nextWave byId phase = [] then PhaseComplete else Wave (nextWave byId phase)
        | None \<Rightarrow> UnknownPhase))"

section \<open>The repository\<close>

text \<open>\<^verbatim>\<open>git\<close> answers with its status and output; the output loses the white space at its end only.\<close>

type_synonym Git = "jstr list \<Rightarrow> bool \<times> jstr"

definition git :: "Git \<Rightarrow> string list \<Rightarrow> bool \<times> jstr" where
  "git run args = (case run (map js args) of (success, out) \<Rightarrow> (success, rev (dropWhile js_space (rev out))))"

function last_arrow :: "jstr \<Rightarrow> jstr \<Rightarrow> jstr" where
  "last_arrow start [] = start"
| "last_arrow start (c # cs) =
     (if has_prefix (js '' -> '') (c # cs) then last_arrow (drop 3 cs) (drop 3 cs) else last_arrow start cs)"
  by pat_completeness auto
termination by (relation "measure (\<lambda>(_, s). length s)") auto

definition unquoted :: "jstr \<Rightarrow> jstr" where
  "unquoted s = (let t = (if has_prefix [34] s then drop 1 s else s) in if t \<noteq> [] \<and> last t = 34 then butlast t else t)"

definition conflict_codes :: "jstr list" where
  "conflict_codes = map js [''DD'', ''AU'', ''UD'', ''UA'', ''DU'', ''AA'', ''UU'']"

definition status_line :: "jstr \<Rightarrow> jstr \<times> jstr" where
  "status_line line = (let p = unquoted (drop 3 line) in (take 2 line, normalise (last_arrow p p)))"

definition repoState :: "Git \<Rightarrow> (string \<Rightarrow> bool) \<Rightarrow> RepoState" where
  "repoState run gitFile =
     (if \<not> fst (git run [''rev-parse'', ''--is-inside-work-tree'']) then
        \<lparr>rs_isGitRepo = False, rs_operationInProgress = None, rs_conflicted = [], rs_dirty = [], rs_head = None\<rparr>
      else
        (let entries = filter (\<lambda>(_, path). path \<noteq> []) (map status_line (filter (\<lambda>l. l \<noteq> [])
               (js_lines (snd (git run [''status'', ''--porcelain=v1'', ''--untracked-files=all''])))));
             head = git run [''rev-parse'', ''--short'', ''HEAD'']
         in \<lparr>rs_isGitRepo = True,
             rs_operationInProgress =
               (if gitFile ''MERGE_HEAD'' then Some (js ''merge'')
                else if gitFile ''rebase-merge'' \<or> gitFile ''rebase-apply'' then Some (js ''rebase'')
                else if gitFile ''CHERRY_PICK_HEAD'' then Some (js ''cherry-pick'')
                else if gitFile ''REVERT_HEAD'' then Some (js ''revert'') else None),
             rs_conflicted = map snd (filter (\<lambda>(code, _). code \<in> set conflict_codes) entries),
             rs_dirty = map snd entries,
             rs_head = (if fst head then Some (snd head) else None)\<rparr>))"

text \<open>The files of a lane: what is not committed, and what its commits after \<^verbatim>\<open>base\<close> changed.\<close>

definition changedFiles :: "Git \<Rightarrow> (string \<Rightarrow> bool) \<Rightarrow> string option \<Rightarrow> jstr list" where
  "changedFiles run gitFile base =
     (let committed = (case base of
            None \<Rightarrow> []
          | Some b \<Rightarrow> if b = [] then [] else map normalise (filter (\<lambda>l. l \<noteq> []) (js_lines (snd (git run [''diff'', ''--name-only'', b @ ''...HEAD'']))))) 
      in js_sort js_compare (fold add_once (rs_dirty (repoState run gitFile) @ committed) []))"

end
