(* ===== verification/Lane_Handoff.thy ===== *)
theory Lane_Handoff
  imports Lane_Decision
begin

text \<open>
  The handoff of a lane and the gate before its integration (\<^verbatim>\<open>scripts/lanes.ts\<close>).  A handoff has the types the code
  declares for it; a list that is absent is empty.  What the schema validator says, and \<^verbatim>\<open>git\<close>, are arguments.
\<close>

section \<open>Handoffs\<close>

record RunResult =
  rr_command :: jstr
  rr_exitCode :: "int option"
  rr_passed :: bool

record EvidenceItem =
  ei_requirement :: jstr
  ei_result :: jstr
  ei_source :: "jstr option"
  ei_eventIds :: "jstr list option"
  ei_artifact :: "jstr option"

record TestCounts =
  tc_discovered :: int
  tc_passed :: int
  tc_failed :: int
  tc_skipped :: int

record Handoff =
  ha_task_id :: "jstr option"
  ha_status :: "jstr option"
  ha_commit :: "jstr option"
  ha_changed_files :: "jstr list option"
  ha_commands :: "jstr list"
  ha_results :: "RunResult list"
  ha_failures :: "jstr option list"
  ha_risks :: "jstr list"
  ha_artifacts :: "jstr list"
  ha_evidence :: "EvidenceItem list"
  ha_verified :: "jstr list"
  ha_unverified :: "jstr list"
  ha_tests :: "TestCounts option"

datatype HandoffError =
    MissingSchema | SchemaSays jstr | CommitUnresolved jstr | NoChangedFiles | WrongTask "jstr option" jstr | OutsideLane Violation
  | OmitsFiles "jstr list" | ClaimsFiles "jstr list" | InBothBuckets jstr | InNoBucket jstr | ResultCount nat nat | ResultMismatch nat
  | PassedContradictsExit nat | UnclassifiedFailure jstr | DoneWhileFailed jstr | DoneWhileFlaky jstr | FlakyUnrecorded jstr
  | DoneWhileEvidence jstr jstr | NoEvidenceFor jstr | VerifiedButNot jstr jstr | TestsUnaccounted int | NoTestsDiscovered
  | TestsFailed int | NoTestCounts | FailuresWithoutArtifact | LogIsNoProof jstr | EventsWithoutArtifact jstr nat

definition is_done :: "Handoff \<Rightarrow> bool" where
  "is_done h \<longleftrightarrow> ha_status h = Some (js ''DONE'')"

section \<open>Evidence\<close>

definition test_words :: "jstr list" where
  "test_words = map js [''test'', ''tests'', ''vitest'', ''jest'', ''playwright'', ''check:integrity'']"

definition word_break :: "jchar \<Rightarrow> bool" where
  "word_break c \<longleftrightarrow> js_space c \<or> c = 58"

definition test_word_at :: "jstr \<Rightarrow> bool" where
  "test_word_at s = list_ex (\<lambda>w. has_prefix w s \<and> (case drop (length w) s of [] \<Rightarrow> True | c # _ \<Rightarrow> word_break c)) test_words"

fun test_word_after :: "jstr \<Rightarrow> bool" where
  "test_word_after [] = False"
| "test_word_after (c # cs) = (word_break c \<and> test_word_at cs \<or> test_word_after cs)"

definition TEST_COMMAND :: "jstr \<Rightarrow> bool" where
  "TEST_COMMAND s = (test_word_at s \<or> test_word_after s)"

text \<open>The eight groups of checks, in the order of the code.\<close>

definition bucket_errors :: "Handoff \<Rightarrow> jstr list \<Rightarrow> HandoffError list" where
  "bucket_errors h criteria = concat (map (\<lambda>c.
     if c \<in> set (ha_verified h) \<and> c \<in> set (ha_unverified h) then [InBothBuckets c]
     else if c \<notin> set (ha_verified h) \<and> c \<notin> set (ha_unverified h) then [InNoBucket c] else []) criteria)"

definition result_errors :: "Handoff \<Rightarrow> HandoffError list" where
  "result_errors h =
     (if length (ha_results h) \<noteq> length (ha_commands h) then [ResultCount (length (ha_commands h)) (length (ha_results h))] else []) @
     concat (map (\<lambda>(i, r).
       (if i < length (ha_commands h) \<and> rr_command r \<noteq> ha_commands h ! i then [ResultMismatch i] else []) @
       (case rr_exitCode r of Some n \<Rightarrow> if rr_passed r \<noteq> (n = 0) then [PassedContradictsExit i] else [] | None \<Rightarrow> []))
       (List.enumerate 0 (ha_results h)))"

definition failing_errors :: "Handoff \<Rightarrow> HandoffError list" where
  "failing_errors h = concat (map (\<lambda>r.
     if rr_passed r then []
     else (if Some (rr_command r) \<in> set (ha_failures h) then [] else [UnclassifiedFailure (rr_command r)]) @
          (if is_done h then [DoneWhileFailed (rr_command r)] else [])) (ha_results h))"

definition flaky_errors :: "Handoff \<Rightarrow> HandoffError list" where
  "flaky_errors h = concat (map (\<lambda>command.
     let runs = filter (\<lambda>r. rr_command r = command) (ha_results h)
     in if length runs < 2 \<or> length (fold add_once (map rr_passed runs) []) < 2 then []
        else (if is_done h then [DoneWhileFlaky command] else []) @
             (if Some command \<in> set (ha_failures h) \<or> list_ex (contains_text command) (ha_risks h) then [] else [FlakyUnrecorded command]))
     (fold add_once (map rr_command (ha_results h)) []))"

definition pass_errors :: "Handoff \<Rightarrow> HandoffError list" where
  "pass_errors h =
     (if \<not> is_done h then []
      else concat (map (\<lambda>e. if ei_result e = js ''PASS'' then [] else [DoneWhileEvidence (ei_requirement e) (ei_result e)]) (ha_evidence h)) @
           concat (map (\<lambda>c. case map_of (rev (map (\<lambda>e. (ei_requirement e, e)) (ha_evidence h))) c of
               None \<Rightarrow> [NoEvidenceFor c]
             | Some hit \<Rightarrow> if ei_result hit = js ''PASS'' then [] else [VerifiedButNot c (ei_result hit)]) (ha_verified h)))"

definition test_errors :: "Handoff \<Rightarrow> HandoffError list" where
  "test_errors h = (case ha_tests h of
     Some t \<Rightarrow>
       (let accounted = tc_passed t + tc_failed t + tc_skipped t
        in (if tc_discovered t \<noteq> accounted then [TestsUnaccounted (tc_discovered t - accounted)] else []) @
           (if is_done h \<and> tc_discovered t < 1 then [NoTestsDiscovered] else []) @
           (if is_done h \<and> 0 < tc_failed t then [TestsFailed (tc_failed t)] else []))
   | None \<Rightarrow> if is_done h \<and> list_ex TEST_COMMAND (ha_commands h) then [NoTestCounts] else [])"

definition artifact_errors :: "Handoff \<Rightarrow> HandoffError list" where
  "artifact_errors h = (if ha_failures h \<noteq> [] \<and> ha_artifacts h = [] then [FailuresWithoutArtifact] else [])"

definition source_errors :: "Handoff \<Rightarrow> HandoffError list" where
  "source_errors h = concat (map (\<lambda>e.
     (if ei_source e = Some (js ''log'') \<and> ei_result e = js ''PASS'' then [LogIsNoProof (ei_requirement e)] else []) @
     (let cited = coalesce (ei_eventIds e) []
      in if cited \<noteq> [] \<and> coalesce (ei_artifact e) [] = [] then [EventsWithoutArtifact (ei_requirement e) (length cited)] else []))
     (ha_evidence h))"

definition checkEvidence :: "Handoff \<Rightarrow> jstr list \<Rightarrow> HandoffError list" where
  "checkEvidence h packetCriteria =
     bucket_errors h packetCriteria @ result_errors h @ failing_errors h @ flaky_errors h @ pass_errors h @ test_errors h @
     artifact_errors h @ source_errors h"

section \<open>The commit\<close>

definition changed_in :: "Git \<Rightarrow> jstr \<Rightarrow> bool \<times> jstr list" where
  "changed_in run sha = (case run (map js [''diff-tree'', ''--no-commit-id'', ''--name-only'', ''-r''] @ [sha]) of
     (success, out) \<Rightarrow> (success, map normalise (filter (\<lambda>l. l \<noteq> []) (js_lines (rev (dropWhile js_space (rev out)))))))"

definition commit_exists :: "Git \<Rightarrow> jstr \<Rightarrow> bool" where
  "commit_exists run sha = fst (run (map js [''cat-file'', ''-e''] @ [sha @ js ''^{commit}'']))"

definition checkChangedFiles :: "Git \<Rightarrow> jstr \<Rightarrow> jstr list \<Rightarrow> HandoffError list" where
  "checkChangedFiles run sha claimed = (case changed_in run sha of (success, files) \<Rightarrow>
     if \<not> success then []
     else
       (let actualFiles = fold add_once files []; claimedFiles = fold add_once (map normalise claimed) [];
            omitted = js_sort js_compare (filter (\<lambda>f. f \<notin> set claimedFiles) actualFiles);
            extra = js_sort js_compare (filter (\<lambda>f. f \<notin> set actualFiles) claimedFiles)
        in (if omitted \<noteq> [] then [OmitsFiles omitted] else []) @ (if extra \<noteq> [] then [ClaimsFiles extra] else [])))"

record HandoffVerdict =
  hv_errors :: "HandoffError list"
  hv_status :: "jstr option"

text \<open>The files the ownership gate judges, whether they are the commit's, and the errors found on the way.\<close>

definition handoff_files :: "Git \<Rightarrow> bool \<Rightarrow> Handoff \<Rightarrow> jstr list \<times> bool \<times> HandoffError list" where
  "handoff_files run checkCommit h =
     (let claimed = coalesce (ha_changed_files h) []; sha = coalesce (ha_commit h) []
      in if is_done h \<and> checkCommit then
           (if \<not> commit_exists run sha then (claimed, False, [CommitUnresolved sha])
            else (let (success, files) = changed_in run sha
                  in (if success then files else claimed, success,
                      case ha_changed_files h of Some c \<Rightarrow> checkChangedFiles run sha c | None \<Rightarrow> [])))
         else (claimed, False, []))"

definition validateHandoff :: "Git \<Rightarrow> (Handoff \<Rightarrow> jstr list) option \<Rightarrow> bool \<Rightarrow> Handoff \<Rightarrow> LaneUnit option \<Rightarrow> HandoffVerdict" where
  "validateHandoff run schema checkCommit h unit = (case schema of
     None \<Rightarrow> \<lparr>hv_errors = [MissingSchema], hv_status = None\<rparr>
   | Some validate \<Rightarrow>
       (let (files, derived, commitErrors) = handoff_files run checkCommit h
        in \<lparr>hv_errors =
              map SchemaSays (validate h) @ commitErrors @
              (if is_done h \<and> \<not> derived \<and> ha_changed_files h = None then [NoChangedFiles] else []) @
              (case unit of
                 None \<Rightarrow> []
               | Some u \<Rightarrow>
                   (if ha_task_id h \<noteq> Some (un_task_id u) then [WrongTask (ha_task_id h) (un_task_id u)] else []) @
                   map OutsideLane (ov_violations (checkOwnership files (un_allowed_paths u) (un_forbidden_paths u)))) @
              checkEvidence h (case unit of Some u \<Rightarrow> un_acceptance_criteria u | None \<Rightarrow> []),
            hv_status = ha_status h\<rparr>))"

section \<open>Before integration\<close>

datatype IntegrationBlock = NoHandoff | BadHandoff HandoffVerdict | CollidesWith "jstr list"

text \<open>The loop of \<^verbatim>\<open>pnpm lanes integrate\<close>: it stops at the first lane it blocks.\<close>

definition collisions :: "LaneUnit list \<Rightarrow> LaneUnit \<Rightarrow> jstr list \<Rightarrow> jstr list" where
  "collisions us u integrated = filter (\<lambda>prev. case find (\<lambda>v. un_task_id v = prev) us of
     None \<Rightarrow> False
   | Some p \<Rightarrow> list_ex (\<lambda>a. list_ex (patternsOverlap a) (un_allowed_paths u)) (un_allowed_paths p)) integrated"

fun integrate_loop :: "Git \<Rightarrow> (Handoff \<Rightarrow> jstr list) option \<Rightarrow> (LaneUnit \<Rightarrow> Handoff option) \<Rightarrow> LaneUnit list \<Rightarrow> jstr list \<Rightarrow> jstr list \<Rightarrow>
    jstr list \<times> (jstr \<times> IntegrationBlock) option" where
  "integrate_loop run schema handoffs us [] integrated = (integrated, None)"
| "integrate_loop run schema handoffs us (i # order) integrated = (case find (\<lambda>u. un_task_id u = i) us of
     None \<Rightarrow> integrate_loop run schema handoffs us order integrated
   | Some u \<Rightarrow>
       (case handoffs u of
          None \<Rightarrow> (integrated, Some (i, NoHandoff))
        | Some h \<Rightarrow>
            (let v = validateHandoff run schema True h (Some u)
             in if hv_errors v \<noteq> [] \<or> hv_status v \<noteq> Some (js ''DONE'') then (integrated, Some (i, BadHandoff v))
                else if collisions us u integrated \<noteq> [] then (integrated, Some (i, CollidesWith (collisions us u integrated)))
                else integrate_loop run schema handoffs us order (integrated @ [i]))))"

definition integrate_lanes :: "Git \<Rightarrow> (Handoff \<Rightarrow> jstr list) option \<Rightarrow> (LaneUnit \<Rightarrow> Handoff option) \<Rightarrow> LaneUnit list \<Rightarrow>
    jstr list \<times> (jstr \<times> IntegrationBlock) option" where
  "integrate_lanes run schema handoffs us = integrate_loop run schema handoffs us (dependencyOrder us) []"

end
