(* ===== verification/Lane_Safe.thy ===== *)
theory Lane_Safe
  imports Lane_Handoff Flow_Safe
begin

text \<open>
  What the lane control plane guarantees: lanes that run in parallel write apart, the order of integration respects the
  dependencies, a lane that fails halts exactly the lanes that need it, and what is integrated is proven and does not collide.
\<close>

section \<open>A parallel batch\<close>

lemma patternsOverlap_sym: "patternsOverlap a b = patternsOverlap b a"
  by (auto simp: patternsOverlap_def Let_def)

lemma no_overlaps:
  "pathOverlaps us = [] \<Longrightarrow> i < j \<Longrightarrow> j < length us \<Longrightarrow> pa \<in> set (un_allowed_paths (us ! i)) \<Longrightarrow>
    pb \<in> set (un_allowed_paths (us ! j)) \<Longrightarrow> \<not> patternsOverlap pa pb"
proof (induction us arbitrary: i j)
  case (Cons u us)
  obtain k where k: "j = Suc k" using Cons.prems(2) by (cases j) auto
  show ?case
  proof (cases i)
    case 0
    have "us ! k \<in> set us" using Cons.prems(3) k by simp
    hence "filter (patternsOverlap pa) (un_allowed_paths (us ! k)) = []" using Cons.prems(1,4) 0 by auto
    thus ?thesis using Cons.prems(5) k by (auto simp: filter_empty_conv)
  next
    case (Suc l)
    thus ?thesis using Cons.IH [of l k] Cons.prems k by simp
  qed
qed simp

lemma surfaces_disjoint:
  assumes "pathOverlaps us = []" "i < length us" "j < length us" "i \<noteq> j"
    "pa \<in> set (un_allowed_paths (us ! i))" "pb \<in> set (un_allowed_paths (us ! j))"
  shows "\<not> patternsOverlap pa pb"
  using no_overlaps [OF assms(1), of i j pa pb] no_overlaps [OF assms(1), of j i pb pa] assms(2-6) patternsOverlap_sym [of pa pb]
  by (cases "i < j") auto

lemma decided: "evaluate agentFile activation us policy repo = Inr d \<Longrightarrow>
    ld_requirements d = requirements us policy repo \<and> ld_dependency_order d = dependencyOrder us \<and>
    ld_eligible d = (ld_mode d = Parallel) \<and> (ld_mode d = Parallel \<longleftrightarrow> list_all rq_pass (requirements us policy repo)) \<and>
    ld_max_concurrency d = (if ld_mode d = Parallel then min (lp_maxConcurrency policy) (int (length us)) else 1)"
  by (cases "lane_entries agentFile activation us us")
    (auto simp: evaluate_def Let_def filter_empty_conv list_all_iff split: if_splits)

lemma parallel_requirements:
  assumes "evaluate agentFile activation us policy repo = Inr d" "ld_mode d = Parallel"
  shows "disjoint_surfaces us" "enough_units policy us" "\<forall>u \<in> set us. un_in_batch_deps u = []"
    "\<forall>u \<in> set us. \<not> touches (lp_sharedWriteSurfaces policy) u \<and> \<not> touches (lp_serialiseIfTouches policy) u"
  using decided [OF assms(1)] assms(2) by (simp_all add: requirements_def)

lemma untouched:
  assumes "\<not> touches surfaces u" "owned (un_allowed_paths u) forbidden f" "\<not> matchPath f (js ''.artifacts/**'')" "s \<in> set surfaces"
  shows "\<not> matchPath f s"
proof
  assume "matchPath f s"
  moreover obtain p where "p \<in> set (un_allowed_paths u)" "matchPath f p" using assms(2,3) by (auto simp: owned_def)
  ultimately show False using assms(1,4) overlap_is_conservative [of f p s] by (auto simp: touches_def list_ex_iff)
qed

text \<open>C36. Lanes that may run in parallel write apart.  If a batch is decided parallel, the files that any two of its lanes
  get past their ownership gates are different, except for reports under \<^verbatim>\<open>.artifacts/\<close>; and no such file
  matches a shared write surface or a surface whose touch forces serial work.\<close>

theorem parallel_lanes_write_apart:
  assumes "evaluate agentFile activation us policy repo = Inr d" "ld_mode d = Parallel"
    "i < length us" "j < length us" "i \<noteq> j"
    "inside_lane (checkOwnership changed (un_allowed_paths (us ! i)) forbidden)" "f \<in> set changed"
    "inside_lane (checkOwnership changed' (un_allowed_paths (us ! j)) forbidden')" "f' \<in> set changed'"
  shows "matchPath (normalise f) (js ''.artifacts/**'') \<or>
    normalise f \<noteq> normalise f' \<and> (\<forall>s \<in> set (lp_sharedWriteSurfaces policy @ lp_serialiseIfTouches policy). \<not> matchPath (normalise f) s)"
proof -
  note r = parallel_requirements [OF assms(1,2)]
  have u: "us ! i \<in> set us" using assms(3) by simp
  have o: "owned (un_allowed_paths (us ! i)) forbidden (normalise f)" "owned (un_allowed_paths (us ! j)) forbidden' (normalise f')"
    using assms(6-9) inside_lane_iff by blast+
  have "normalise f \<noteq> normalise f'" if out: "\<not> matchPath (normalise f) (js ''.artifacts/**'')"
  proof
    assume e: "normalise f = normalise f'"
    have o': "owned (un_allowed_paths (us ! j)) forbidden' (normalise f)" using o(2) e by simp
    obtain pa where pa: "pa \<in> set (un_allowed_paths (us ! i))" "matchPath (normalise f) pa" using o(1) out by (auto simp: owned_def)
    obtain pb where pb: "pb \<in> set (un_allowed_paths (us ! j))" "matchPath (normalise f) pb" using o' out by (auto simp: owned_def)
    have "pathOverlaps us = []" using r(1) by (simp add: disjoint_surfaces_def)
    from surfaces_disjoint [OF this assms(3-5) pa(1) pb(1)] show False using overlap_is_conservative pa(2) pb(2) by blast
  qed
  moreover have "\<not> matchPath (normalise f) s" if "\<not> matchPath (normalise f) (js ''.artifacts/**'')"
    "s \<in> set (lp_sharedWriteSurfaces policy @ lp_serialiseIfTouches policy)" for s
    using r(4) u untouched [OF _ o(1) that(1)] that(2) by auto
  ultimately show ?thesis by blast
qed

section \<open>The order of integration\<close>

lemma update_new_key: "k \<notin> fst ` set m \<Longrightarrow> AList.update k v m = m @ [(k, v)]"
  by (induction m) auto

lemma pending_units_map:
  assumes "distinct (map un_task_id us)"
  shows "pending_units us = map (\<lambda>u. (un_task_id u, filter (\<lambda>d. d \<in> un_task_id ` set us) (un_depends_on u))) us"
proof -
  have "fold (\<lambda>u m. AList.update (un_task_id u) (g u) m) us [] = map (\<lambda>u. (un_task_id u, g u)) us" for g :: "LaneUnit \<Rightarrow> jstr list"
    using assms by (induction us rule: rev_induct) (auto simp: update_new_key image_image)
  thus ?thesis by (simp add: pending_units_def)
qed

lemma order_loop_extends: "\<exists>zs. order_loop pending out = out @ zs"
proof (induction pending out rule: order_loop.induct)
  case (1 pending out)
  thus ?case by (subst order_loop.simps) (auto simp: Let_def)
qed

lemma free_units_mset: "mset (free_units pending out) = mset (map fst (filter (\<lambda>(_, deps). \<forall>d \<in> set deps. d \<in> set out) pending))"
  by (simp add: free_units_def js_sort_ids)

lemma free_iff: "distinct (map fst pending) \<Longrightarrow> (i, deps) \<in> set pending \<Longrightarrow>
    i \<in> set (free_units pending out) \<longleftrightarrow> (\<forall>d \<in> set deps. d \<in> set out)"
  unfolding free_units_set by (force dest: eq_key_imp_eq_value)

lemma mset_split: "mset (map f (filter P xs)) + mset (map f (filter (\<lambda>x. \<not> P x) xs)) = mset (map f xs)"
  by (induction xs) auto

lemma unfree: "distinct (map fst pending) \<Longrightarrow> filter (\<lambda>(i, _). i \<notin> set (free_units pending out)) pending =
    filter (\<lambda>x. \<not> (case x of (_, deps) \<Rightarrow> \<forall>d \<in> set deps. d \<in> set out)) pending"
  by (rule filter_cong [OF refl]) (auto simp: free_iff)

lemma order_loop_mset: "distinct (map fst pending) \<Longrightarrow> mset (order_loop pending out) = mset out + mset (map fst pending)"
proof (induction pending out rule: order_loop.induct)
  case (1 pending out)
  let ?free = "free_units pending out" let ?rest = "filter (\<lambda>(i, _). i \<notin> set (free_units pending out)) pending"
  show ?case
  proof (cases "pending = [] \<or> ?free = []")
    case True
    thus ?thesis by (subst order_loop.simps) (auto simp: Let_def js_sort_ids)
  next
    case False
    have "mset ?free + mset (map fst ?rest) = mset (map fst pending)"
      unfolding free_units_mset unfree [OF 1(2)] by (rule mset_split)
    moreover have "order_loop pending out = order_loop ?rest (out @ ?free)"
      using False by (subst order_loop.simps) (simp add: Let_def)
    moreover have "distinct (map fst ?rest)" using 1(2) by (simp add: distinct_map_filter)
    hence "mset (order_loop ?rest (out @ ?free)) = mset (out @ ?free) + mset (map fst ?rest)" using 1(1) False by blast
    ultimately show ?thesis by (simp add: add.assoc)
  qed
qed

text \<open>A relation without cycles has a packet among the pending ones that waits for none of them.\<close>

lemma some_unit_is_free:
  assumes "wf r" "pending \<noteq> []" "\<And>i deps d. (i, deps) \<in> set pending \<Longrightarrow> d \<in> set deps \<Longrightarrow> (d, i) \<in> r"
    "\<And>i deps d. (i, deps) \<in> set pending \<Longrightarrow> d \<in> set deps \<Longrightarrow> d \<in> set out \<or> d \<in> fst ` set pending"
  shows "free_units pending out \<noteq> []"
proof -
  obtain x where "x \<in> fst ` set pending" using assms(2) by (cases pending) auto
  from wfE_min [OF assms(1) this] obtain z where z: "z \<in> fst ` set pending" "\<And>y. (y, z) \<in> r \<Longrightarrow> y \<notin> fst ` set pending" by blast
  then obtain deps where p: "(z, deps) \<in> set pending" by auto
  hence "\<forall>d \<in> set deps. d \<in> set out" using z(2) assms(3,4) by blast
  hence "(z, deps) \<in> {x \<in> set pending. \<forall>d \<in> set (snd x). d \<in> set out}" using p by simp
  from imageI [OF this, of fst] have "z \<in> set (free_units pending out)" by (simp only: free_units_set fst_conv)
  thus ?thesis by auto
qed

lemma order_loop_respects:
  assumes "wf r" "distinct (map fst pending)" "\<And>i deps d. (i, deps) \<in> set pending \<Longrightarrow> d \<in> set deps \<Longrightarrow> (d, i) \<in> r"
    "\<And>i deps d. (i, deps) \<in> set pending \<Longrightarrow> d \<in> set deps \<Longrightarrow> d \<in> set out \<or> d \<in> fst ` set pending" "(i, deps) \<in> set pending"
  shows "\<exists>xs zs. order_loop pending out = xs @ i # zs \<and> set deps \<subseteq> set xs"
  using assms(2-5)
proof (induction pending out rule: order_loop.induct)
  case (1 pending out)
  let ?free = "free_units pending out" let ?rest = "filter (\<lambda>(i, _). i \<notin> set (free_units pending out)) pending"
  have n: "pending \<noteq> []" using 1(5) by auto
  have f: "?free \<noteq> []" by (intro some_unit_is_free [OF assms(1) n]) (use 1(3,4) in blast)+
  have step: "order_loop pending out = order_loop ?rest (out @ ?free)" using n f by (subst order_loop.simps) (simp add: Let_def)
  show ?case
  proof (cases "i \<in> set ?free")
    case True
    then obtain xs zs where s: "?free = xs @ i # zs" by (meson split_list)
    have "\<forall>d \<in> set deps. d \<in> set out" using True free_iff [OF 1(2,5)] by blast
    hence "set deps \<subseteq> set (out @ xs)" by auto
    moreover obtain ws where "order_loop pending out = (out @ ?free) @ ws" using order_loop_extends step by metis
    hence "order_loop pending out = (out @ xs) @ i # (zs @ ws)" using s by simp
    ultimately show ?thesis by blast
  next
    case False
    have "d \<in> set (out @ ?free) \<or> d \<in> fst ` set ?rest" if "(j, ds) \<in> set ?rest" "d \<in> set ds" for j ds d
      using 1(4) [of j ds d] that by (auto simp: image_iff)
    moreover have "distinct (map fst ?rest)" using 1(2) by (simp add: distinct_map_filter)
    moreover have "(i, deps) \<in> set ?rest" using False 1(5) by simp
    moreover have "(d, j) \<in> r" if "(j, ds) \<in> set ?rest" "d \<in> set ds" for j ds d using 1(3) that by auto
    ultimately have "\<exists>xs zs. order_loop ?rest (out @ ?free) = xs @ i # zs \<and> set deps \<subseteq> set xs"
      using 1(1) n f by blast
    thus ?thesis using step by simp
  qed
qed

text \<open>The dependencies inside a batch.\<close>

definition batch_needs :: "LaneUnit list \<Rightarrow> (jstr \<times> jstr) set" where
  "batch_needs us = {(d, un_task_id u) | d u. u \<in> set us \<and> d \<in> set (un_depends_on u) \<and> d \<in> un_task_id ` set us}"

lemma batch_needs_finite: "finite (batch_needs us)"
proof -
  have "batch_needs us \<subseteq> un_task_id ` set us \<times> un_task_id ` set us" by (auto simp: batch_needs_def)
  thus ?thesis by (rule finite_subset) simp
qed

lemma dependencyOrder_mset:
  assumes "distinct (map un_task_id us)"
  shows "mset (dependencyOrder us) = mset (map un_task_id us)"
proof -
  have "distinct (map fst (pending_units us))" "map fst (pending_units us) = map un_task_id us"
    using assms by (simp_all add: pending_units_map comp_def)
  thus ?thesis unfolding dependencyOrder_def using order_loop_mset [of "pending_units us" "[]"] by simp
qed

text \<open>C37. The order of integration.  For a batch of different packets the order is a permutation of the batch, also if the
  packets depend on each other in a circle; without a circle every packet comes after all packets of the batch it
  depends on.\<close>

theorem integration_order_respects_needs:
  assumes "distinct (map un_task_id us)"
  shows "mset (dependencyOrder us) = mset (map un_task_id us) \<and>
    (acyclic (batch_needs us) \<longrightarrow> (\<forall>u \<in> set us. \<exists>xs zs. dependencyOrder us = xs @ un_task_id u # zs \<and>
       set (un_depends_on u) \<inter> un_task_id ` set us \<subseteq> set xs))"
proof (intro conjI impI ballI)
  let ?pending = "map (\<lambda>u. (un_task_id u, filter (\<lambda>d. d \<in> un_task_id ` set us) (un_depends_on u))) us"
  have keys: "map fst ?pending = map un_task_id us" by simp
  have order: "dependencyOrder us = order_loop ?pending []" by (simp add: dependencyOrder_def pending_units_map [OF assms])
  have d: "distinct (map fst ?pending)" using assms unfolding keys .
  show "mset (dependencyOrder us) = mset (map un_task_id us)" by (rule dependencyOrder_mset [OF assms])
  fix u
  assume a: "acyclic (batch_needs us)" and u: "u \<in> set us"
  have "\<exists>xs zs. order_loop ?pending [] = xs @ un_task_id u # zs \<and>
      set (filter (\<lambda>d. d \<in> un_task_id ` set us) (un_depends_on u)) \<subseteq> set xs"
    by (rule order_loop_respects [OF finite_acyclic_wf [OF batch_needs_finite a] d])
      (use u in \<open>auto simp: batch_needs_def image_iff\<close>)
  thus "\<exists>xs zs. dependencyOrder us = xs @ un_task_id u # zs \<and> set (un_depends_on u) \<inter> un_task_id ` set us \<subseteq> set xs"
    unfolding order by (auto simp: Int_def conj_commute)
qed

section \<open>A lane that fails\<close>

text \<open>The lanes that need a packet, directly or through other lanes; the packet itself is not one of them.\<close>

inductive needs_lane :: "jstr \<Rightarrow> LaneUnit list \<Rightarrow> jstr \<Rightarrow> bool" for i us where
  directly: "v \<in> set us \<Longrightarrow> un_task_id v \<noteq> i \<Longrightarrow> i \<in> set (un_depends_on v) \<Longrightarrow> needs_lane i us (un_task_id v)"
| through: "v \<in> set us \<Longrightarrow> un_task_id v \<noteq> i \<Longrightarrow> needs_lane i us d \<Longrightarrow> d \<in> set (un_depends_on v) \<Longrightarrow> needs_lane i us (un_task_id v)"

lemma halts_pass_sound:
  assumes "\<forall>j \<in> set out. needs_lane i us j" "set vs \<subseteq> set us"
  shows "\<forall>j \<in> set (halts_pass i vs out). needs_lane i us j"
  using assms(2)
proof (induction vs rule: rev_induct)
  case Nil
  thus ?case using assms(1) by (simp add: halts_pass_def)
next
  case (snoc v vs)
  thus ?case using needs_lane.intros [of v us i] by (auto simp: halts_pass_def list_ex_iff)
qed

lemma halts_pass_adds:
  assumes "v \<in> set us" "un_task_id v \<noteq> i" "d \<in> set (un_depends_on v)" "d = i \<or> d \<in> set out"
  shows "un_task_id v \<in> set (halts_pass i us out)"
  using assms(1)
proof (induction us rule: rev_induct)
  case (snoc u us)
  obtain ys where "halts_pass i us out = out @ ys" using halts_pass_grows by blast
  thus ?case using snoc assms(2-4) by (auto simp: halts_pass_def list_ex_iff)
qed simp

lemma halts_loop_exact:
  assumes "\<forall>j \<in> set out. needs_lane i us j"
  shows "set (halts_loop i us out) = {j. needs_lane i us j}"
  using assms
proof (induction i us out rule: halts_loop.induct)
  case (1 i us out)
  show ?case
  proof (cases "halts_pass i us out = out")
    case True
    have "j \<in> set out" if "needs_lane i us j" for j
      using that by induction (use halts_pass_adds [of _ us i _ out] True in auto)
    thus ?thesis using True 1(2) by (subst halts_loop.simps) (auto simp: Let_def)
  next
    case False
    have "\<forall>j \<in> set (halts_pass i us out). needs_lane i us j" by (rule halts_pass_sound [OF 1(2)]) simp
    thus ?thesis using False 1(1) [OF refl False] by (subst halts_loop.simps) (simp add: Let_def)
  qed
qed

text \<open>A lane that fails.  Its entry names exactly the lanes that need it, directly or through other lanes, as the ones
  that must stop, and exactly the other lanes as independent of it; the agents of a packet are never an empty chain of an
  unknown class, because a unit without a usable change class is an error.\<close>

theorem failed_lane_halts_exactly_its_dependents:
  assumes "laneEntry agentFile activation u us = Inr entry"
  shows "set (la_halts_if_failed entry) = {j. needs_lane (un_task_id u) us j} \<and>
    set (la_independent_of entry) = un_task_id ` set us - {un_task_id u} - {j. needs_lane (un_task_id u) us j} \<and>
    (\<exists>c rule. un_changeClass u = Some c \<and> c \<noteq> [] \<and> lifecycleOf c activation = Some rule)"
proof -
  obtain rule where rule: "unit_rule activation u = Some rule" using assms by (auto simp: laneEntry_def split: option.splits)
  hence "\<exists>c rule. un_changeClass u = Some c \<and> c \<noteq> [] \<and> lifecycleOf c activation = Some rule"
    by (auto simp: unit_rule_def split: option.splits if_splits)
  moreover have "la_halts_if_failed entry = dependents u us"
    "la_independent_of entry = sort (filter (\<lambda>i. i \<noteq> un_task_id u \<and> i \<notin> set (dependents u us)) (map un_task_id us))"
    using assms rule by (auto simp: laneEntry_def Let_def js_sort_ids)
  moreover have "set (dependents u us) = {j. needs_lane (un_task_id u) us j}"
    unfolding dependents_def js_sort_ids set_sort by (rule halts_loop_exact) simp
  ultimately show ?thesis by auto
qed

section \<open>The decision of the control plane\<close>

lemma units_of_ids: "keyed byId \<Longrightarrow> units_of graph byId batch ids = Inr us \<Longrightarrow> map un_task_id us = ids \<and>
    (\<forall>u \<in> set us. un_in_batch_deps u = filter (\<lambda>d. d \<in> set batch) (un_depends_on u))"
proof (induction ids arbitrary: us)
  case (Cons i ids)
  obtain n where n: "map_of byId i = Some n" using Cons.prems(2) by (auto split: option.splits)
  obtain vs where v: "units_of graph byId batch ids = Inr vs" "us = unitFrom graph n byId batch # vs"
    using Cons.prems(2) n by (cases "units_of graph byId batch ids") auto
  show ?case using Cons.IH [OF Cons.prems(1) v(1)] v(2) keyed_id [OF Cons.prems(1) n] by (simp add: unitFrom_def)
qed simp

lemma antichain_order:
  assumes "\<forall>u \<in> set us. filter (\<lambda>d. d \<in> un_task_id ` set us) (un_depends_on u) = []" "distinct (map un_task_id us)"
  shows "dependencyOrder us = sort (map un_task_id us)"
proof -
  let ?pending = "map (\<lambda>u. (un_task_id u, [])) us :: (jstr \<times> jstr list) list"
  have "pending_units us = ?pending" unfolding pending_units_map [OF assms(2)] using assms(1) by simp
  moreover have "free_units ?pending [] = sort (map un_task_id us)" by (simp add: free_units_def js_sort_ids comp_def)
  moreover have "filter (\<lambda>(i, _). i \<notin> set (sort (map un_task_id us))) ?pending = []" by (auto simp: filter_empty_conv)
  ultimately show ?thesis unfolding dependencyOrder_def
    by (cases us) (simp add: order_loop.simps, subst order_loop.simps, simp add: order_loop.simps)
qed

text \<open>C38. The decision the control plane asks for.  It lists exactly the packets it was asked about, and if they may run in
  parallel they do not depend on each other and are listed by their ids; a batch runs in parallel only if every one of the fifteen
  requirements is verified, and then it has at least two packets.\<close>

theorem lane_decision_orders_packets:
  assumes "lane_decision agentFile activation repo graph state ids = Inr (mode, order)" "distinct ids"
  shows "mset order = mset ids \<and> (mode = Parallel \<longrightarrow> order = sort ids \<and> 2 \<le> length ids \<and>
    (\<exists>us. unitsFor repo graph ids = Inr us \<and> list_all rq_pass (requirements us (lg_lanePolicy graph) state)))"
proof -
  obtain us where us: "unitsFor repo graph ids = Inr us" using assms(1) by (auto simp: lane_decision_def split: sum.splits)
  obtain d where d: "evaluate agentFile activation us (lg_lanePolicy graph) state = Inr d" "mode = ld_mode d" "order = ld_dependency_order d"
    using assms(1) us by (cases "evaluate agentFile activation us (lg_lanePolicy graph) state") (auto simp: lane_decision_def)
  have "keyed (resolveGraph repo (Graph.truncate graph))" by (rule resolveGraph_keyed)
  from units_of_ids [OF this us [unfolded unitsFor_def]] have ids: "map un_task_id us = ids"
    and deps: "\<forall>u \<in> set us. un_in_batch_deps u = filter (\<lambda>d. d \<in> un_task_id ` set us) (un_depends_on u)"
    by (auto simp flip: set_map)
  have dist: "distinct (map un_task_id us)" using ids assms(2) by simp
  have order: "order = dependencyOrder us" using decided [OF d(1)] d(3) by simp
  have "mset order = mset ids" using dependencyOrder_mset [OF dist] order ids by simp
  moreover have "order = sort ids \<and> 2 \<le> length ids \<and> list_all rq_pass (requirements us (lg_lanePolicy graph) state)"
    if p: "mode = Parallel"
    using parallel_requirements [OF d(1)] decided [OF d(1)] p d(2) deps antichain_order [OF _ dist] order ids
    by (auto simp: enough_units_def)
  ultimately show ?thesis using us by blast
qed

section \<open>Two lanes\<close>

definition demo_unit :: "jstr \<Rightarrow> jstr list \<Rightarrow> LaneUnit" where
  "demo_unit i needs = \<lparr>un_task_id = i, un_title = i, un_lane = i, un_phase = 1, un_owner = js ''builder'', un_risk = Some RiskLow,
     un_changeClass = Some (js ''feature''), un_depends_on = needs, un_acceptance_criteria = [js ''works''],
     un_validation_commands = [js ''pnpm test''], un_allowed_paths = [i @ js ''/**''], un_forbidden_paths = [],
     un_unresolved_deps = [], un_in_batch_deps = [], un_unknown_deps = [], un_open_decisions = [], un_has_packet_source = True\<rparr>"

definition demo_activation :: Activation where
  "demo_activation = \<lparr>ac_capabilities = [], ac_classes = [(js ''feature'', \<lparr>cy_perPacket = [js ''build''], cy_perWave = [js ''review''],
     cy_perPhase = [], cy_conditional = []\<rparr>)]\<rparr>"

definition demo_policy :: LanePolicy where
  "demo_policy = \<lparr>lp_maxConcurrency = 3, lp_minUnits = 2, lp_sharedWriteSurfaces = [js ''lock''],
     lp_serialiseIfTouches = [js ''s/**''], lp_alwaysForbidden = []\<rparr>"

definition demo_clean :: RepoState where
  "demo_clean = \<lparr>rs_isGitRepo = True, rs_operationInProgress = None, rs_conflicted = [], rs_dirty = [js ''x''], rs_head = None\<rparr>"

definition two_lanes :: "LaneUnit list" where
  "two_lanes = [demo_unit (js ''b'') [js ''base''], demo_unit (js ''a'') [js ''base'']]"

lemma two_lanes_requirements: "list_all rq_pass (requirements two_lanes demo_policy demo_clean)"
proof -
  have "enough_units demo_policy two_lanes" "disjoint_surfaces two_lanes" "repo_safe demo_clean two_lanes" "exactCollisions two_lanes = []"
    "\<forall>u \<in> set two_lanes. \<not> touches (lp_sharedWriteSurfaces demo_policy) u"
    "\<forall>u \<in> set two_lanes. \<not> touches (lp_serialiseIfTouches demo_policy) u" by code_simp+
  thus ?thesis by (simp add: requirements_def) (simp add: two_lanes_def demo_unit_def)
qed

lemma two_lanes_parallel: "\<exists>d. evaluate (\<lambda>_. True) demo_activation two_lanes demo_policy demo_clean = Inr d \<and> ld_mode d = Parallel"
proof -
  have "(case lane_entries (\<lambda>_. True) demo_activation two_lanes two_lanes of Inr _ \<Rightarrow> True | Inl _ \<Rightarrow> False)"
    by (simp add: two_lanes_def demo_unit_def laneEntry_def unit_rule_def lifecycleOf_def demo_activation_def Let_def)
  then obtain lanes where "lane_entries (\<lambda>_. True) demo_activation two_lanes two_lanes = Inr lanes" by (auto split: sum.splits)
  thus ?thesis using two_lanes_requirements by (simp add: evaluate_def Let_def list_all_iff filter_empty_conv)
qed

theorem parallel_lanes_write_apart_witness:
  "\<not> matchPath (normalise (js ''b/x'')) (js ''lock'')"
proof -
  obtain d where d: "evaluate (\<lambda>_. True) demo_activation two_lanes demo_policy demo_clean = Inr d" "ld_mode d = Parallel"
    using two_lanes_parallel by blast
  have "inside_lane (checkOwnership [js ''b/x''] (un_allowed_paths (two_lanes ! 0)) [])"
    "inside_lane (checkOwnership [js ''a/x''] (un_allowed_paths (two_lanes ! 1)) [])"
    "\<not> matchPath (normalise (js ''b/x'')) (js ''.artifacts/**'')" by code_simp+
  with parallel_lanes_write_apart [OF d, of 0 1 "[js ''b/x'']" "[]" "js ''b/x''" "[js ''a/x'']" "[]" "js ''a/x''"]
  show ?thesis by (simp add: two_lanes_def demo_policy_def)
qed

text \<open>A batch in which one lane needs another, and a circle.\<close>

definition chained_lanes :: "LaneUnit list" where
  "chained_lanes = [demo_unit (js ''a'') [js ''b''], demo_unit (js ''b'') [], demo_unit (js ''c'') [js ''a'']]"

theorem integration_order_respects_needs_witness:
  "mset (dependencyOrder chained_lanes) = {#js ''a'', js ''b'', js ''c''#} \<and> dependencyOrder chained_lanes = [js ''b'', js ''a'', js ''c'']"
proof -
  have "distinct (map un_task_id chained_lanes)" by (simp add: chained_lanes_def demo_unit_def)
  from integration_order_respects_needs [OF this]
  have "mset (dependencyOrder chained_lanes) = {#js ''a'', js ''b'', js ''c''#}" by (simp add: chained_lanes_def demo_unit_def)
  moreover have "dependencyOrder chained_lanes = [js ''b'', js ''a'', js ''c'']" by code_simp
  ultimately show ?thesis by blast
qed

theorem failed_lane_halts_exactly_its_dependents_witness:
  "{j. needs_lane (js ''b'') chained_lanes j} = {js ''a'', js ''c''}"
proof -
  have "(case laneEntry (\<lambda>_. True) demo_activation (demo_unit (js ''b'') []) chained_lanes of
      Inr e \<Rightarrow> la_halts_if_failed e = [js ''a'', js ''c''] | Inl _ \<Rightarrow> False)" by code_simp
  then obtain e where "laneEntry (\<lambda>_. True) demo_activation (demo_unit (js ''b'') []) chained_lanes = Inr e"
    "la_halts_if_failed e = [js ''a'', js ''c'']" by (auto split: sum.splits)
  with failed_lane_halts_exactly_its_dependents [OF this(1)] show ?thesis by (simp add: demo_unit_def)
qed

text \<open>Two packets of a graph that are free of each other.\<close>

definition lane_node :: "jstr \<Rightarrow> Node" where
  "lane_node i = \<lparr>nd_id = i, nd_phase = 1, nd_lane = i, nd_title = i, nd_owner = js ''builder'', nd_needs = [],
     nd_probes = [ProbePath i], nd_note = None, nd_optional = False,
     nd_own = Some \<lparr>ow_allowed = [i @ js ''/**''], ow_forbidden = None\<rparr>, nd_validate = Some [js ''pnpm test''],
     nd_risk = None, nd_changeClass = Some (js ''feature'')\<rparr>"

definition lane_graph :: LaneGraph where
  "lane_graph = \<lparr>gr_executionOrder = None, gr_segments = None, gr_decisions = [], gr_nodes = [lane_node (js ''a''), lane_node (js ''b'')],
     lg_lanePolicy = demo_policy\<lparr>lp_sharedWriteSurfaces := [], lp_serialiseIfTouches := []\<rparr>, lg_sections = [(js ''a'', [js ''1'']), (js ''b'', [js ''2''])]\<rparr>"

definition empty_repo :: Repo where
  "empty_repo = \<lparr>rp_exists = (\<lambda>_. False), rp_scripts = [], rp_isDirectory = (\<lambda>_. False), rp_walk = (\<lambda>_. []), rp_read = (\<lambda>_. None),
     rp_test = (\<lambda>_ _. False), rp_status = (\<lambda>_. None)\<rparr>"

theorem lane_decision_orders_packets_witness:
  "\<exists>us. unitsFor empty_repo lane_graph [js ''b'', js ''a''] = Inr us \<and> list_all un_has_packet_source us"
proof -
  have "lane_decision (\<lambda>_. True) demo_activation empty_repo lane_graph (demo_clean\<lparr>rs_dirty := []\<rparr>) [js ''b'', js ''a''] =
    Inr (Parallel, [js ''a'', js ''b''])" by code_simp
  from lane_decision_orders_packets [OF this] show ?thesis by (auto simp: requirements_def list_all_iff)
qed

end
