(* ===== verification/Lane_Evidence.thy ===== *)
theory Lane_Evidence
  imports Lane_Safe
begin

text \<open>
  What an accepted handoff proves, and what has been integrated when the gate before integration stops.
\<close>

section \<open>Accepted evidence\<close>

definition is_pass :: "EvidenceItem \<Rightarrow> bool" where
  "is_pass e \<longleftrightarrow> ei_result e = js ''PASS'' \<and> ei_source e \<noteq> Some (js ''log'') \<and> (coalesce (ei_eventIds e) [] \<noteq> [] \<longrightarrow> coalesce (ei_artifact e) [] \<noteq> [])"

lemma accepted_groups:
  assumes "checkEvidence h criteria = []"
  shows "bucket_errors h criteria = []" "result_errors h = []" "failing_errors h = []" "flaky_errors h = []" "pass_errors h = []"
    "test_errors h = []" "artifact_errors h = []" "source_errors h = []"
  using assms by (simp_all add: checkEvidence_def)

lemma concat_map_nil: "concat (map f xs) = [] \<Longrightarrow> x \<in> set xs \<Longrightarrow> f x = []"
  by auto

lemma accepted_result:
  assumes "result_errors h = []" "i < length (ha_results h)"
  shows "rr_command (ha_results h ! i) = ha_commands h ! i"
    "rr_exitCode (ha_results h ! i) = Some n \<Longrightarrow> rr_passed (ha_results h ! i) = (n = 0)"
proof -
  have l: "length (ha_results h) = length (ha_commands h)" using assms(1) by (auto simp: result_errors_def split: if_splits)
  have "(i, ha_results h ! i) \<in> set (List.enumerate 0 (ha_results h))" using assms(2) by (auto simp: in_set_enumerate_eq)
  from concat_map_nil [OF conjunct2 [OF assms(1) [unfolded result_errors_def append_is_Nil_conv]] this]
  show "rr_command (ha_results h ! i) = ha_commands h ! i"
    "rr_exitCode (ha_results h ! i) = Some n \<Longrightarrow> rr_passed (ha_results h ! i) = (n = 0)"
    using assms(2) l by (auto split: if_splits option.splits)
qed

lemma accepted_verified:
  assumes "pass_errors h = []" "is_done h" "c \<in> set (ha_verified h)"
  shows "\<exists>e \<in> set (ha_evidence h). ei_requirement e = c \<and> ei_result e = js ''PASS''"
proof -
  obtain hit where hit: "map_of (rev (map (\<lambda>e. (ei_requirement e, e)) (ha_evidence h))) c = Some hit" "ei_result hit = js ''PASS''"
    using assms by (auto simp: pass_errors_def split: option.splits if_splits)
  from map_of_SomeD [OF hit(1)] hit(2) show ?thesis by auto
qed

lemma accepted_parts:
  assumes "hv_errors (validateHandoff run (Some validate) chk h (Some u)) = []"
  shows "validate h = []" "checkEvidence h (un_acceptance_criteria u) = []" "ha_task_id h = Some (un_task_id u)"
  using assms by (auto simp: validateHandoff_def Let_def split: prod.splits if_splits)

text \<open>What the gate relies on in the schema of handoffs, which is not part of the sources: a handoff is not valid as DONE while it
  leaves a criterion unverified (\<^verbatim>\<open>lanes/selftest.ts\<close> requires it).\<close>

definition schema_closes :: "(Handoff \<Rightarrow> jstr list) \<Rightarrow> bool" where
  "schema_closes validate \<longleftrightarrow> (\<forall>h. is_done h \<and> ha_unverified h \<noteq> [] \<longrightarrow> validate h \<noteq> [])"

text \<open>C39. A handoff that the gate accepts as DONE is evidenced.  Every criterion of the packet, and every criterion the handoff
  calls verified, has evidence of its own that passed, is not only a log and keeps the events it cites, and no piece of
  evidence failed; each command has one result, in the same order, which passed and did not exit with an error; and if a test
  command ran, tests were discovered and counted, and none failed.\<close>

theorem accepted_handoff_is_evidenced:
  assumes "schema_closes validate" "hv_errors (validateHandoff run (Some validate) chk h (Some u)) = []" "is_done h"
  shows "(\<forall>c \<in> set (un_acceptance_criteria u) \<union> set (ha_verified h). \<exists>e \<in> set (ha_evidence h). ei_requirement e = c \<and> is_pass e) \<and>
    (\<forall>e \<in> set (ha_evidence h). is_pass e) \<and>
    length (ha_results h) = length (ha_commands h) \<and>
    (\<forall>i < length (ha_results h). rr_command (ha_results h ! i) = ha_commands h ! i \<and> rr_passed (ha_results h ! i) \<and>
       (\<forall>n. rr_exitCode (ha_results h ! i) = Some n \<longrightarrow> n = 0)) \<and>
    (list_ex TEST_COMMAND (ha_commands h) \<longrightarrow> (\<exists>t. ha_tests h = Some t \<and> 1 \<le> tc_discovered t \<and> tc_failed t \<le> 0 \<and>
       tc_discovered t = tc_passed t + tc_failed t + tc_skipped t))"
proof (intro conjI)
  note parts = accepted_parts [OF assms(2)]
  note g = accepted_groups [OF parts(2)]
  show "length (ha_results h) = length (ha_commands h)" using g(2) by (auto simp: result_errors_def split: if_splits)
  have "rr_passed r" if "r \<in> set (ha_results h)" for r
    using g(3) that assms(3) by (auto simp: failing_errors_def split: if_splits)
  thus "\<forall>i < length (ha_results h). rr_command (ha_results h ! i) = ha_commands h ! i \<and> rr_passed (ha_results h ! i) \<and>
      (\<forall>n. rr_exitCode (ha_results h ! i) = Some n \<longrightarrow> n = 0)"
    using accepted_result [OF g(2)] by (metis nth_mem)
  have p: "is_pass e" if "e \<in> set (ha_evidence h)" for e
    using g(5,8) assms(3) that by (auto simp: is_pass_def pass_errors_def source_errors_def split: if_splits)
  thus "\<forall>e \<in> set (ha_evidence h). is_pass e" by blast
  have "ha_unverified h = []" using assms(1,3) parts(1) by (auto simp: schema_closes_def)
  hence "c \<in> set (ha_verified h)" if "c \<in> set (un_acceptance_criteria u)" for c
    using g(1) that by (auto simp: bucket_errors_def split: if_splits)
  thus "\<forall>c \<in> set (un_acceptance_criteria u) \<union> set (ha_verified h). \<exists>e \<in> set (ha_evidence h). ei_requirement e = c \<and> is_pass e"
    using accepted_verified [OF g(5) assms(3)] p by blast
  show "list_ex TEST_COMMAND (ha_commands h) \<longrightarrow> (\<exists>t. ha_tests h = Some t \<and> 1 \<le> tc_discovered t \<and> tc_failed t \<le> 0 \<and>
      tc_discovered t = tc_passed t + tc_failed t + tc_skipped t)"
    using g(6) assms(3) by (auto simp: test_errors_def Let_def split: option.splits if_splits)
qed

text \<open>A suite whose tests are all skipped is accepted, although a skipped check is not a verified one.\<close>

definition skipped_handoff :: Handoff where
  "skipped_handoff = \<lparr>ha_task_id = Some (js ''p1''), ha_status = Some (js ''DONE''), ha_commit = Some (js ''c0ffee''),
     ha_changed_files = None, ha_commands = [js ''pnpm test''],
     ha_results = [\<lparr>rr_command = js ''pnpm test'', rr_exitCode = Some 0, rr_passed = True\<rparr>], ha_failures = [], ha_risks = [],
     ha_artifacts = [], ha_evidence = [\<lparr>ei_requirement = js ''works'', ei_result = js ''PASS'', ei_source = Some (js ''test''),
       ei_eventIds = None, ei_artifact = None\<rparr>], ha_verified = [js ''works''], ha_unverified = [],
     ha_tests = Some \<lparr>tc_discovered = 1, tc_passed = 0, tc_failed = 0, tc_skipped = 1\<rparr>\<rparr>"

lemma all_skipped_suite_is_accepted: "checkEvidence skipped_handoff [js ''works''] = [] \<and> is_done skipped_handoff"
  by code_simp

text \<open>The rule of the schema is needed: without it a handoff is accepted as DONE that verifies nothing.\<close>

definition unverified_handoff :: Handoff where
  "unverified_handoff = skipped_handoff\<lparr>ha_commands := [], ha_results := [], ha_evidence := [], ha_verified := [], ha_unverified := [js ''works''],
     ha_tests := None\<rparr>"

lemma unverified_needs_the_schema: "checkEvidence unverified_handoff [js ''works''] = [] \<and> is_done unverified_handoff"
  by code_simp

definition closing_schema :: "Handoff \<Rightarrow> jstr list" where
  "closing_schema h = (if is_done h \<and> ha_unverified h \<noteq> [] then [js ''unverified''] else [])"

definition demo_git :: Git where
  "demo_git args = (True, if hd args = js ''diff-tree'' then last args @ js ''/x'' else [])"

definition works_unit :: LaneUnit where
  "works_unit = (demo_unit (js ''p1'') [])\<lparr>un_allowed_paths := [js ''c0ffee/**'']\<rparr>"

theorem accepted_handoff_is_evidenced_witness:
  "(\<exists>e \<in> set (ha_evidence skipped_handoff). ei_requirement e = js ''works'' \<and> is_pass e) \<and> rr_passed (hd (ha_results skipped_handoff)) \<and>
   hv_errors (validateHandoff demo_git (Some closing_schema) True unverified_handoff (Some works_unit)) \<noteq> []"
proof -
  have "schema_closes closing_schema" by (simp add: schema_closes_def closing_schema_def)
  moreover have "hv_errors (validateHandoff demo_git (Some closing_schema) True skipped_handoff (Some works_unit)) = []" "is_done skipped_handoff"
    "hv_errors (validateHandoff demo_git (Some closing_schema) True unverified_handoff (Some works_unit)) \<noteq> []" by code_simp+
  ultimately show ?thesis
    using accepted_handoff_is_evidenced [of closing_schema demo_git True skipped_handoff works_unit]
    by (auto simp: works_unit_def demo_unit_def skipped_handoff_def)
qed

section \<open>What is integrated\<close>

text \<open>A lane whose handoff the gate accepts: its commit can be resolved and its files are inside the lane.\<close>

definition proven_lane :: "Git \<Rightarrow> (Handoff \<Rightarrow> jstr list) option \<Rightarrow> (LaneUnit \<Rightarrow> Handoff option) \<Rightarrow> LaneUnit \<Rightarrow> bool" where
  "proven_lane run schema handoffs u \<longleftrightarrow> (\<exists>h sha. handoffs u = Some h \<and> is_done h \<and> ha_task_id h = Some (un_task_id u) \<and>
     sha = coalesce (ha_commit h) [] \<and> commit_exists run sha \<and> checkEvidence h (un_acceptance_criteria u) = [] \<and>
     (fst (changed_in run sha) \<longrightarrow> (\<forall>f \<in> set (snd (changed_in run sha)). owned (un_allowed_paths u) (un_forbidden_paths u) (normalise f))))"

lemma accepted_lane:
  assumes "hv_errors (validateHandoff run schema True h (Some u)) = []" "hv_status (validateHandoff run schema True h (Some u)) = Some (js ''DONE'')"
    "handoffs u = Some h"
  shows "proven_lane run schema handoffs u"
proof -
  obtain validate where s: "schema = Some validate" using assms(2) by (cases schema) (auto simp: validateHandoff_def)
  obtain files derived errors where f: "handoff_files run True h = (files, derived, errors)" by (cases "handoff_files run True h")
  have v: "validateHandoff run schema True h (Some u) = \<lparr>hv_errors = map SchemaSays (validate h) @ errors @
      (if is_done h \<and> \<not> derived \<and> ha_changed_files h = None then [NoChangedFiles] else []) @
      ((if ha_task_id h \<noteq> Some (un_task_id u) then [WrongTask (ha_task_id h) (un_task_id u)] else []) @
       map OutsideLane (ov_violations (checkOwnership files (un_allowed_paths u) (un_forbidden_paths u)))) @
      checkEvidence h (un_acceptance_criteria u), hv_status = ha_status h\<rparr>"
    by (simp add: validateHandoff_def s f)
  have e: "errors = []" "inside_lane (checkOwnership files (un_allowed_paths u) (un_forbidden_paths u))"
    "checkEvidence h (un_acceptance_criteria u) = []" "ha_task_id h = Some (un_task_id u)"
    using assms(1) unfolding v by (auto split: if_splits)
  have d: "is_done h" using assms(2) unfolding v by (simp add: is_done_def)
  have c: "commit_exists run (coalesce (ha_commit h) [])" "fst (changed_in run (coalesce (ha_commit h) [])) \<Longrightarrow>
      files = snd (changed_in run (coalesce (ha_commit h) []))"
    using f e(1) d by (auto simp: handoff_files_def Let_def split: if_splits prod.splits)
  show ?thesis unfolding proven_lane_def
    using assms(3) d e c inside_lane_iff by blast
qed

text \<open>The surfaces of the lanes that are integrated are apart.\<close>

definition apart :: "LaneUnit list \<Rightarrow> jstr list \<Rightarrow> bool" where
  "apart us integrated \<longleftrightarrow> (\<forall>i j u v pa pb. i < j \<longrightarrow> j < length integrated \<longrightarrow> find (\<lambda>u. un_task_id u = integrated ! i) us = Some u \<longrightarrow>
     find (\<lambda>u. un_task_id u = integrated ! j) us = Some v \<longrightarrow> pa \<in> set (un_allowed_paths u) \<longrightarrow> pb \<in> set (un_allowed_paths v) \<longrightarrow>
     \<not> patternsOverlap pa pb)"

lemma apart_snoc:
  assumes "apart us integrated" "find (\<lambda>u. un_task_id u = i) us = Some u" "collisions us u integrated = []"
  shows "apart us (integrated @ [i])"
  unfolding apart_def
proof (intro allI impI)
  fix k j x v pa pb
  assume a: "k < j" "j < length (integrated @ [i])" "find (\<lambda>u. un_task_id u = (integrated @ [i]) ! k) us = Some x"
    "find (\<lambda>u. un_task_id u = (integrated @ [i]) ! j) us = Some v" "pa \<in> set (un_allowed_paths x)" "pb \<in> set (un_allowed_paths v)"
  show "\<not> patternsOverlap pa pb"
  proof (cases "j = length integrated")
    case True
    hence "v = u" "k < length integrated" using a assms(2) by simp_all
    moreover from this have "integrated ! k \<in> set integrated" "(integrated @ [i]) ! k = integrated ! k" by (simp_all add: nth_append)
    ultimately show ?thesis using assms(3) a(3,5,6) by (auto simp: collisions_def filter_empty_conv list_ex_iff dest!: bspec [of _ _ "integrated ! k"])
  next
    case False
    hence "j < length integrated" "k < length integrated" using a(1,2) by simp_all
    thus ?thesis using assms(1) a by (auto simp: apart_def nth_append)
  qed
qed

lemma integrate_loop_keeps:
  assumes "apart us integrated" "\<forall>i \<in> set integrated. \<exists>u. find (\<lambda>u. un_task_id u = i) us = Some u \<and> proven_lane run schema handoffs u"
    "integrate_loop run schema handoffs us order integrated = (merged, blocked)"
  shows "apart us merged \<and> (\<forall>i \<in> set merged. \<exists>u. find (\<lambda>u. un_task_id u = i) us = Some u \<and> proven_lane run schema handoffs u) \<and>
    (\<exists>ys rest. merged = integrated @ ys \<and> filter (\<lambda>i. find (\<lambda>u. un_task_id u = i) us \<noteq> None) order = ys @ rest \<and>
       (case blocked of None \<Rightarrow> rest = [] | Some (i, _) \<Rightarrow> rest \<noteq> [] \<and> hd rest = i))"
  using assms
proof (induction order arbitrary: integrated)
  case (Cons i order)
  show ?case
  proof (cases "find (\<lambda>u. un_task_id u = i) us")
    case None
    thus ?thesis using Cons by simp
  next
    case (Some u)
    show ?thesis
    proof (cases "(merged, map_option fst blocked) = (integrated, Some i)")
      case True
      thus ?thesis using Cons.prems(1,2) Some by (auto intro!: exI [of _ "[]"])
    next
      case False
      then obtain h where h: "handoffs u = Some h" "hv_errors (validateHandoff run schema True h (Some u)) = []"
        "hv_status (validateHandoff run schema True h (Some u)) = Some (js ''DONE'')" "collisions us u integrated = []"
        "integrate_loop run schema handoffs us order (integrated @ [i]) = (merged, blocked)"
        using Cons.prems(3) Some by (auto simp: Let_def split: option.splits if_splits)
      have p: "proven_lane run schema handoffs u" using h(1-3) by (intro accepted_lane)
      have "\<forall>j \<in> set (integrated @ [i]). \<exists>u. find (\<lambda>u. un_task_id u = j) us = Some u \<and> proven_lane run schema handoffs u"
        using Cons.prems(2) Some p by auto
      from Cons.IH [OF apart_snoc [OF Cons.prems(1) Some h(4)] this h(5)] Some show ?thesis by auto
    qed
  qed
qed (auto simp: apart_def)

lemma find_unit: "distinct (map un_task_id us) \<Longrightarrow> find (\<lambda>u. un_task_id u = i) us = Some u \<longleftrightarrow> u \<in> set us \<and> un_task_id u = i"
  by (induction us) force+

lemma find_some_unit: "find (\<lambda>u. un_task_id u = i) us \<noteq> None \<longleftrightarrow> i \<in> un_task_id ` set us"
  by (auto simp: find_None_iff)

text \<open>The files of a lane's commit, normalised once more as the ownership gate does.\<close>

definition commit_files :: "Git \<Rightarrow> (LaneUnit \<Rightarrow> Handoff option) \<Rightarrow> LaneUnit \<Rightarrow> jstr set" where
  "commit_files run handoffs u = (case handoffs u of
     None \<Rightarrow> {}
   | Some h \<Rightarrow> (case changed_in run (coalesce (ha_commit h) []) of (success, files) \<Rightarrow> if success then normalise ` set files else {}))"

lemma proven_files: "proven_lane run schema handoffs u \<Longrightarrow> f \<in> commit_files run handoffs u \<Longrightarrow>
    owned (un_allowed_paths u) (un_forbidden_paths u) f"
  by (auto simp: proven_lane_def commit_files_def split: prod.splits if_splits)

lemma apart_units:
  assumes "apart us merged" "distinct (map un_task_id us)" "u \<in> set us" "v \<in> set us" "un_task_id u \<in> set merged" "un_task_id v \<in> set merged"
    "un_task_id u \<noteq> un_task_id v" "pa \<in> set (un_allowed_paths u)" "pb \<in> set (un_allowed_paths v)"
  shows "\<not> patternsOverlap pa pb"
proof -
  obtain i j where ij: "i < length merged" "j < length merged" "merged ! i = un_task_id u" "merged ! j = un_task_id v"
    using assms(5,6) by (auto simp: in_set_conv_nth)
  have f: "find (\<lambda>x. un_task_id x = merged ! i) us = Some u" "find (\<lambda>x. un_task_id x = merged ! j) us = Some v"
    using ij find_unit [OF assms(2)] assms(3,4) by simp_all
  consider "i < j" | "j < i" using ij assms(7) by (metis linorder_neqE_nat)
  thus ?thesis
  proof cases
    case 1
    thus ?thesis using assms(1,8,9) f ij(2) unfolding apart_def by blast
  next
    case 2
    hence "\<not> patternsOverlap pb pa" using assms(1,8,9) f ij(1) unfolding apart_def by blast
    thus ?thesis by (simp add: patternsOverlap_sym)
  qed
qed

text \<open>C40. What is integrated.  The gate before integration goes through the lanes in the order of their dependencies and
  stops at the first lane it blocks; every lane before it has a handoff whose evidence is accepted and a commit inside its surface;
  and the commits of two integrated lanes change no file in common, except for reports under \<^verbatim>\<open>.artifacts/\<close>.\<close>

theorem integrated_lanes_are_proven_and_apart:
  assumes "integrate_lanes run schema handoffs us = (merged, blocked)" "distinct (map un_task_id us)"
  shows "(\<exists>rest. dependencyOrder us = merged @ rest \<and> (case blocked of None \<Rightarrow> rest = [] | Some (i, _) \<Rightarrow> rest \<noteq> [] \<and> hd rest = i)) \<and>
    (\<forall>u \<in> set us. un_task_id u \<in> set merged \<longrightarrow> proven_lane run schema handoffs u) \<and>
    (\<forall>u \<in> set us. \<forall>v \<in> set us. un_task_id u \<in> set merged \<longrightarrow> un_task_id v \<in> set merged \<longrightarrow> un_task_id u \<noteq> un_task_id v \<longrightarrow>
       (\<forall>f \<in> commit_files run handoffs u \<inter> commit_files run handoffs v. matchPath f (js ''.artifacts/**'')))"
proof (intro conjI ballI impI)
  have "apart us []" by (simp add: apart_def)
  from integrate_loop_keeps [OF this _ assms(1) [unfolded integrate_lanes_def]]
  have k: "apart us merged" "\<forall>i \<in> set merged. \<exists>u. find (\<lambda>u. un_task_id u = i) us = Some u \<and> proven_lane run schema handoffs u"
    "\<exists>rest. filter (\<lambda>i. find (\<lambda>u. un_task_id u = i) us \<noteq> None) (dependencyOrder us) = merged @ rest \<and>
       (case blocked of None \<Rightarrow> rest = [] | Some (i, _) \<Rightarrow> rest \<noteq> [] \<and> hd rest = i)" by auto
  have "set (dependencyOrder us) = un_task_id ` set us" using dependencyOrder_mset [OF assms(2)] by (metis mset_eq_setD set_map)
  hence "filter (\<lambda>i. find (\<lambda>u. un_task_id u = i) us \<noteq> None) (dependencyOrder us) = dependencyOrder us"
    by (intro filter_True) (simp only: find_some_unit, blast)
  thus "\<exists>rest. dependencyOrder us = merged @ rest \<and> (case blocked of None \<Rightarrow> rest = [] | Some (i, _) \<Rightarrow> rest \<noteq> [] \<and> hd rest = i)"
    using k(3) by simp
  have p: "proven_lane run schema handoffs u" if "u \<in> set us" "un_task_id u \<in> set merged" for u
    using k(2) that find_unit [OF assms(2)] by (metis option.inject)
  thus "proven_lane run schema handoffs u" if "u \<in> set us" "un_task_id u \<in> set merged" for u using that by blast
  fix u v f
  assume a: "u \<in> set us" "v \<in> set us" "un_task_id u \<in> set merged" "un_task_id v \<in> set merged" "un_task_id u \<noteq> un_task_id v"
    "f \<in> commit_files run handoffs u \<inter> commit_files run handoffs v"
  hence o: "owned (un_allowed_paths u) (un_forbidden_paths u) f" "owned (un_allowed_paths v) (un_forbidden_paths v) f"
    using proven_files p by blast+
  show "matchPath f (js ''.artifacts/**'')"
  proof (rule ccontr)
    assume out: "\<not> matchPath f (js ''.artifacts/**'')"
    obtain pa where pa: "pa \<in> set (un_allowed_paths u)" "matchPath f pa" using o(1) out by (auto simp: owned_def)
    obtain pb where pb: "pb \<in> set (un_allowed_paths v)" "matchPath f pb" using o(2) out by (auto simp: owned_def)
    show False using apart_units [OF k(1) assms(2) a(1-5) pa(1) pb(1)] overlap_is_conservative [OF pa(2) pb(2)] by blast
  qed
qed

definition demo_handoff :: "LaneUnit \<Rightarrow> Handoff option" where
  "demo_handoff u = Some (skipped_handoff\<lparr>ha_task_id := Some (un_task_id u), ha_commit := Some (un_task_id u)\<rparr>)"

theorem integrated_lanes_are_proven_and_apart_witness:
  "proven_lane demo_git (Some (\<lambda>_. [])) demo_handoff (demo_unit (js ''a'') [js ''base''])"
proof -
  have "integrate_lanes demo_git (Some (\<lambda>_. [])) demo_handoff two_lanes = ([js ''a'', js ''b''], None)" by code_simp
  moreover have "distinct (map un_task_id two_lanes)" by (simp add: two_lanes_def demo_unit_def)
  ultimately have "\<forall>u \<in> set two_lanes. un_task_id u \<in> set [js ''a'', js ''b''] \<longrightarrow> proven_lane demo_git (Some (\<lambda>_. [])) demo_handoff u"
    using integrated_lanes_are_proven_and_apart by blast
  thus ?thesis by (simp add: two_lanes_def demo_unit_def)
qed

end
