(* ===== verification/Lane_Probes.thy ===== *)
theory Lane_Probes
  imports Lane_Paths Delivery_Oracle
begin

text \<open>
  The lint of probes (\<^verbatim>\<open>pnpm lanes probes\<close> in \<^verbatim>\<open>scripts/lanes.ts\<close>): a probe may only look inside the surface its own node
  owns, because a probe that the work of another node satisfies reports a packet as done that nobody has started.
\<close>

section \<open>Targets\<close>

record ProbeTarget =
  pt_path :: jstr
  pt_evidence :: bool

definition probeTargets :: "ProbeSpec \<Rightarrow> ProbeTarget list" where
  "probeTargets p = (case p of
     ProbePath path \<Rightarrow> [\<lparr>pt_path = path, pt_evidence = False\<rparr>]
   | ProbeAbsent path \<Rightarrow> [\<lparr>pt_path = path, pt_evidence = False\<rparr>]
   | ProbeGrep dir target pattern \<Rightarrow>
       [\<lparr>pt_path = normalise (if coalesce target [] = [] then dir else dir @ js ''/'' @ the target), pt_evidence = False\<rparr>]
   | ProbeManual evidence \<Rightarrow> [\<lparr>pt_path = evidence, pt_evidence = True\<rparr>]
   | ProbeScript name \<Rightarrow> []
   | ProbeCmd run \<Rightarrow> [])"

definition insideSurface :: "jstr \<Rightarrow> jstr list \<Rightarrow> bool" where
  "insideSurface target patterns \<longleftrightarrow> anyMatch target patterns \<noteq> None \<or> anyMatch (target @ js ''/'') patterns \<noteq> None"

text \<open>\<^verbatim>\<open>replace(/\/?\*+.*$/, '')\<close>: everything from the first star on, and a slash before it.\<close>

fun strip_tail :: "jstr \<Rightarrow> jstr" where
  "strip_tail [] = []"
| "strip_tail (c # cs) =
     (if (c = 42 \<or> c = 47 \<and> cs \<noteq> [] \<and> hd cs = 42) \<and> \<not> list_ex js_newline (c # cs) then [] else c # strip_tail cs)"

definition bars :: "jstr \<Rightarrow> jstr \<Rightarrow> bool" where
  "bars target pattern \<longleftrightarrow> insideSurface target [pattern] \<or>
     (let root = strip_tail (normalise pattern) in root \<noteq> [] \<and> (root = target \<or> has_prefix (target @ js ''/'') root))"

definition forbiddenOverlap :: "jstr \<Rightarrow> jstr list \<Rightarrow> jstr option" where
  "forbiddenOverlap target patterns = find (bars target) patterns"

section \<open>The lint\<close>

datatype LintFailure = EvidenceElsewhere jstr jstr | OutsideOwnSurface jstr jstr | OverlapsForbidden jstr jstr jstr

datatype LintWarning = NoSurface jstr jstr | GrepAlone jstr

record LintReport =
  lr_failures :: "LintFailure list"
  lr_warnings :: "LintWarning list"
  lr_checked :: nat
  lr_nodes :: nat

definition own_allowed :: "Resolved \<Rightarrow> jstr list" where
  "own_allowed n = (case nd_own n of Some ow \<Rightarrow> ow_allowed ow | None \<Rightarrow> [])"

definition own_forbidden :: "Resolved \<Rightarrow> jstr list" where
  "own_forbidden n = (case nd_own n of Some ow \<Rightarrow> coalesce (ow_forbidden ow) [] | None \<Rightarrow> [])"

text \<open>The verdict on one target: a failure, a warning or nothing.\<close>

definition lint_target :: "Resolved \<Rightarrow> ProbeTarget \<Rightarrow> (LintFailure + LintWarning) option" where
  "lint_target n t =
     (if pt_evidence t then
        (if insideSurface (normalise (pt_path t)) [js ''.artifacts/**''] then None else Some (Inl (EvidenceElsewhere (nd_id n) (pt_path t))))
      else if own_allowed n = [] then Some (Inr (NoSurface (nd_id n) (pt_path t)))
      else if \<not> insideSurface (normalise (pt_path t)) (own_allowed n) then Some (Inl (OutsideOwnSurface (nd_id n) (pt_path t)))
      else map_option (\<lambda>clash. Inl (OverlapsForbidden (nd_id n) (pt_path t) clash))
             (forbiddenOverlap (normalise (pt_path t)) (own_forbidden n)))"

definition strong_probe :: "ProbeSpec \<Rightarrow> bool" where
  "strong_probe p \<longleftrightarrow> (case p of ProbePath _ \<Rightarrow> True | ProbeAbsent _ \<Rightarrow> True | _ \<Rightarrow> False)"

definition node_targets :: "Resolved \<Rightarrow> ProbeTarget list" where
  "node_targets n = concat (map probeTargets (nd_probes n))"

definition node_verdicts :: "Resolved \<Rightarrow> (LintFailure + LintWarning) list" where
  "node_verdicts n = List.map_filter (lint_target n) (node_targets n) @
     (if nd_probes n \<noteq> [] \<and> \<not> list_ex strong_probe (nd_probes n) then [Inr (GrepAlone (nd_id n))] else [])"

definition lintProbes :: "by_id \<Rightarrow> LintReport" where
  "lintProbes byId =
     (let verdicts = concat (map (node_verdicts \<circ> snd) byId)
      in \<lparr>lr_failures = map projl (filter isl verdicts), lr_warnings = map projr (filter (\<lambda>v. \<not> isl v) verdicts),
          lr_checked = length (concat (map (node_targets \<circ> snd) byId)), lr_nodes = length byId\<rparr>)"

section \<open>What the lint accepts\<close>

lemma insideSurface_iff: "insideSurface target patterns \<longleftrightarrow> (\<exists>p \<in> set patterns. matchPath target p \<or> matchPath (target @ js ''/'') p)"
  unfolding insideSurface_def anyMatch_iff by blast

lemma forbiddenOverlap_iff: "forbiddenOverlap target patterns = None \<longleftrightarrow> (\<forall>p \<in> set patterns. \<not> bars target p)"
  by (auto simp: forbiddenOverlap_def find_None_iff)

lemma lint_target_clean: "(\<nexists>f. lint_target n t = Some (Inl f)) \<longleftrightarrow>
    (if pt_evidence t then insideSurface (normalise (pt_path t)) [js ''.artifacts/**'']
     else own_allowed n = [] \<or> insideSurface (normalise (pt_path t)) (own_allowed n) \<and>
       (\<forall>p \<in> set (own_forbidden n). \<not> bars (normalise (pt_path t)) p))"
  unfolding forbiddenOverlap_iff [symmetric]
  by (cases "forbiddenOverlap (normalise (pt_path t)) (own_forbidden n)") (auto simp: lint_target_def)

lemma map_filter_isl: "filter isl (List.map_filter f xs) = [] \<longleftrightarrow> (\<forall>x \<in> set xs. \<nexists>y. f x = Some (Inl y))"
  by (induction xs) (auto simp: map_filter_simps isl_def split: option.splits)

text \<open>The lint passes exactly if every probe of every node reads inside the node's own surface and touches none of its
  forbidden paths, and every evidence file is below \<^verbatim>\<open>.artifacts/\<close>; only a node without a declared surface is let through, and
  then it is warned about.\<close>

theorem lint_passes_exactly:
  "lr_failures (lintProbes byId) = [] \<longleftrightarrow>
   (\<forall>n \<in> snd ` set byId. \<forall>t \<in> set (node_targets n).
      if pt_evidence t then insideSurface (normalise (pt_path t)) [js ''.artifacts/**'']
      else own_allowed n = [] \<and> Inr (NoSurface (nd_id n) (pt_path t)) \<in> set (node_verdicts n) \<or>
        insideSurface (normalise (pt_path t)) (own_allowed n) \<and> (\<forall>p \<in> set (own_forbidden n). \<not> bars (normalise (pt_path t)) p))"
proof -
  have w: "own_allowed n = [] \<and> Inr (NoSurface (nd_id n) (pt_path t)) \<in> set (node_verdicts n) \<longleftrightarrow> own_allowed n = []"
    if "t \<in> set (node_targets n)" "\<not> pt_evidence t" for n t
    using that by (auto simp: node_verdicts_def map_filter_def lint_target_def image_iff intro!: bexI [of _ t])
  have "lr_failures (lintProbes byId) = [] \<longleftrightarrow> (\<forall>n \<in> snd ` set byId. filter isl (node_verdicts n) = [])"
    by (simp add: lintProbes_def Let_def filter_concat filter_empty_conv)
  also have "\<dots> \<longleftrightarrow> (\<forall>n \<in> snd ` set byId. \<forall>t \<in> set (node_targets n). \<nexists>f. lint_target n t = Some (Inl f))"
    by (simp add: node_verdicts_def map_filter_isl)
  finally show ?thesis unfolding lint_target_clean using w by (simp cong: if_cong)
qed

text \<open>A probe that passes the lint can still be satisfied by another node: \<^verbatim>\<open>a/*\<close> matches the directory \<^verbatim>\<open>a/b\<close> that the probe
  searches, but not the files below it.\<close>

definition nested_repo :: Repo where
  "nested_repo = \<lparr>rp_exists = (\<lambda>p. p = js ''a/b''), rp_scripts = [], rp_isDirectory = (\<lambda>p. p = js ''a/b''),
     rp_walk = (\<lambda>_. [js ''a/b/x'']), rp_read = (\<lambda>p. if p = js ''a/b/x'' then Some (js ''w'') else None),
     rp_test = (\<lambda>pattern txt. pattern = txt), rp_status = (\<lambda>_. None)\<rparr>"

definition nested_node :: Node where
  "nested_node = \<lparr>nd_id = js ''n'', nd_phase = 1, nd_lane = js ''l'', nd_title = [], nd_owner = [], nd_needs = [],
     nd_probes = [ProbeGrep (js ''a/b'') None (js ''w'')], nd_note = None, nd_optional = False,
     nd_own = Some \<lparr>ow_allowed = [js ''a/*''], ow_forbidden = None\<rparr>, nd_validate = None, nd_risk = None, nd_changeClass = None\<rparr>"

lemma clean_probe_satisfied_from_outside:
  "lr_failures (lintProbes [(js ''n'', probed nested_repo nested_node)]) = [] \<and>
   rn_state (probed nested_repo nested_node) = DONE \<and>
   \<not> owned [js ''a/*''] [] (js ''a/b/x'')"
proof (intro conjI)
  show "lr_failures (lintProbes [(js ''n'', probed nested_repo nested_node)]) = []" by code_simp
  show "rn_state (probed nested_repo nested_node) = DONE" by code_simp
  have "\<not> matchPath (js ''a/b/x'') (js ''.artifacts/**'')" "\<not> matchPath (js ''a/b/x'') (js ''a/*'')" by code_simp+
  thus "\<not> owned [js ''a/*''] [] (js ''a/b/x'')" by (simp add: owned_def)
qed

end
