(* ===== verification/Spec2Isabelle.thy ===== *)
theory Spec2Isabelle
  imports Ingest_Requests Decision_Gates Repeated_Failed Sdk_Wire Sdk_Drops Sdk_Handles Run_Telemetry Sdk_Ids Http_Edge Flow_Safe Autopilot_Guarantees Autopilot_Checkpoint Lane_Evidence Lane_Probes
begin

text \<open>
  A verification library for the telemetry platform under \<^verbatim>\<open>src/platform\<close> and for the delivery tools
  under \<^verbatim>\<open>src/scripts\<close>.

  \<^bold>\<open>The program.\<close>  An agent program records events through the SDK (\<^verbatim>\<open>telemetry-sdk\<close>), which buffers
  them, sends them in batches and never throws into its host.  The API (\<^verbatim>\<open>api\<close>) screens and parses every
  event against the shared wire contract (\<^verbatim>\<open>shared/schema\<close>), folds Run and Step events into rows with
  the merge rules, writes the other entities directly and keeps a ledger, so that a repeated batch is
  recognised.  The analysis engine (\<^verbatim>\<open>analysis-engine\<close>) measures groups of stored decisions against
  safety gates and looks for repeated failures of the same tool call.  The read side lists the runs, assembles one run
  with what it recorded, and the dashboard draws it as a tree and a timeline.

  The delivery tools build the platform itself: the oracle probes the repository and says which packets of the plan are
  done and which can start, the control plane turns that and the gate records into the next action, the lane control plane decides
  what may run in parallel and what may be integrated, and the autopilot
  supervisor carries actions out with workers under leases, runs the gates and keeps its state on disk.

  \<^bold>\<open>Theories.\<close>
  \<^item> \<open>Prelude\<close>: strings as lists of UTF-16 code units, JSON values, the lemma collections.
    \<open>Js_Date\<close>, \<open>Js_Sort\<close>, \<open>Json_Size\<close>, \<open>Buckets\<close>: what the code uses of \<^verbatim>\<open>Date\<close>, of \<^verbatim>\<open>sort\<close> with a
    comparator, of the byte length of \<^verbatim>\<open>JSON.stringify\<close>, and of a \<^verbatim>\<open>Map\<close> of arrays.
  \<^item> \<open>Wire_Contract\<close> (\<^verbatim>\<open>shared/schema\<close>): the schemas as data, the version gate and the parser.
    The schema library is the argument \<open>safeParse\<close>; the definition \<open>zod_laws\<close> holds
    what its documentation promises, and \<open>zod_ref\<close> is a concrete interpreter of the schemas for which
    these laws are proved.  Shown: what the parser accepts is well formed, and which code a malformed
    event is rejected with.
  \<^item> \<open>Wire_Sanitize\<close> (\<^verbatim>\<open>wire-sanitize.ts\<close>): the screens for text, depth, timestamps and integers.
    Shown: the string screen accepts exactly UTF-16 text without NUL, the loop over levels computes the
    recursive depth, and screened payloads fit their columns.
  \<^item> \<open>Last_Writer\<close> is the locale of a slot that keeps the value of a winning writer; \<open>Merge_Rules\<close>
    (\<^verbatim>\<open>merge-rules.ts\<close>) interprets it for the start and for each completion field.  Shown: the fold does not
    depend on the order of the events, who owns each field, the status, and that a late event never
    reopens an entity.  \<open>Event_Mapping\<close> (\<^verbatim>\<open>event-mapping.ts\<close>) turns parsed events into merge events and
    shows that they fold without a raise.
  \<^item> \<open>Telemetry_Store\<close> (\<^verbatim>\<open>telemetry.repository.ts\<close>): the tables as maps, the columns and the locked
    read-fold-write transaction.  Its locale \<open>entity_columns\<close>, interpreted for the tables of Runs and of Steps, says when a
    reload of a row loses nothing.  Shown: a delivery id credits its drop count once.  \<open>Entity_Writers\<close>
    (\<^verbatim>\<open>decisions\<close>, \<^verbatim>\<open>model-call\<close>, \<^verbatim>\<open>tool-call\<close>, \<^verbatim>\<open>error\<close>) has the other tables; its writes are
    idempotent and the two decision writers commute.
  \<^item> \<open>Telemetry_Service\<close> (\<^verbatim>\<open>telemetry.service.ts\<close>, \<^verbatim>\<open>telemetry.controller.ts\<close>) is the ingest request, and
    \<open>Ingest_Correct\<close> shows that each raw event gets one verdict, that only the database can make a request
    fail, and that a replayed batch changes nothing.  \<open>Ingest_Requests\<close> is sequences of such requests, answered or
    refused half way.  Shown: the row of a Run depends only on the set of its events, however they were ordered, repeated and
    cut into requests.
  \<^item> \<open>Decision_Aggregate\<close> and \<open>Decision_Gates\<close> (\<^verbatim>\<open>aggregate.ts\<close>, \<^verbatim>\<open>gates.ts\<close>) and
    \<open>Repeated_Failed\<close> (\<^verbatim>\<open>repeated-failed-action.ts\<close>): the analyzers.  Shown: what the measurements are,
    that they do not depend on the order of the records, when a group is a candidate, and that exactly
    the maximal runs of failures are reported.
  \<^item> \<open>Sdk_Config\<close> (\<^verbatim>\<open>config.ts\<close>), \<open>Sdk_Queue\<close> (\<^verbatim>\<open>bounded-queue.ts\<close>, with the locale
    \<open>bounded_buffer\<close>), \<open>Sdk_Client\<close> (\<^verbatim>\<open>client.ts\<close>, \<^verbatim>\<open>events.ts\<close>): the client as a step relation over
    its suspension points.  Shown: every recorded event is accounted for in every reachable state, and
    shutdown ends after a bounded number of steps.  \<open>Sdk_Wire\<close> puts client and parser together: what the client
    holds are events its host recorded, and the server reads each of them back as it was recorded.  \<open>Sdk_Drops\<close> puts client, network and store together: the stored drop
    count never exceeds what the client dropped.
  \<^item> \<open>Json_Text\<close>, \<open>Sdk_Cap\<close>, \<open>Sdk_Sanitize\<close>, \<open>Sdk_Payload\<close> (\<^verbatim>\<open>payload-safety.ts\<close>): the serializer that
    every field of an event passes.  \<open>Sdk_Sanitize\<close> walks a heap of JavaScript objects; its locale
    \<open>walk_property\<close> says how a property of the result follows from the levels of the walk, and is
    interpreted for the shape of the result and for redaction.  Shown: the walk returns on circular values,
    credentials are redacted by their key, a capped field fits and is measured truthfully, a string is
    cut after the longest prefix that fits, and a fingerprint does not depend on key order.
  \<^item> \<open>Sdk_Handles\<close> (\<^verbatim>\<open>handles.ts\<close>): what each operation of a handle records or throws, and programs
    that use handles in any order.  Shown: the recorded events form a tree, and when recording a tool
    call throws.  \<open>Sdk_Ids\<close> (\<^verbatim>\<open>clock.ts\<close>, \<^verbatim>\<open>ids.ts\<close>): the seeded and the live clock and identifiers; distinct
    draws give distinct identifiers, which order by time.
  \<^item> \<open>Http_Edge\<close> (\<^verbatim>\<open>transport.ts\<close>, the exception filter, the body limit): what a client makes of each answer of the
    server.  Shown: a delivered batch has a verdict for each event, and events that are each valid can be refused as a batch.
  \<^item> \<open>Runs_Read\<close>, \<open>Run_Detail\<close> (\<^verbatim>\<open>runs\<close>): the list of runs with its cursor, staleness, and one run with its
    entities.  Shown: a run's page holds exactly what was recorded for it.  \<open>Step_Tree\<close>, \<open>Timeline\<close>, \<open>Run_Telemetry\<close>
    (\<^verbatim>\<open>step-tree.ts\<close>, \<^verbatim>\<open>timeline.ts\<close>, \<^verbatim>\<open>run-telemetry.ts\<close>, \<^verbatim>\<open>run-summary.ts\<close>): the views of the dashboard.  Shown: the tree is
    built for every list of steps, cyclic ones too, and holds every step once.
  \<^item> \<open>Delivery_Oracle\<close> (\<^verbatim>\<open>oracle.ts\<close>): probes, readiness, depth, waves, root causes, agent roles.  Shown: the rule of
    readiness, that a wave starts after what it needs, and that the search for root causes ends.
  \<^item> \<open>Flow_Control\<close>, \<open>Flow_Safe\<close> (\<^verbatim>\<open>flow.ts\<close>): segments, gate records and the transition function.  Shown: the control plane
    leaves nothing behind, dispatches only on gated work, does not ask again for a recorded gate unless another record takes
    its file name, and partitions the plan into segments.
  \<^item> \<open>Lane_Paths\<close>, \<open>Lane_Decision\<close>, \<open>Lane_Handoff\<close> (\<^verbatim>\<open>lanes.ts\<close>): path patterns and ownership, the fifteen requirements
    of a parallel batch with its order and agents, the handoff of a lane and the gate before integration.  Shown in \<open>Lane_Safe\<close>
    and \<open>Lane_Evidence\<close>: the overlap test misses no common path, so parallel lanes write apart; the order respects
    dependencies; an accepted handoff is evidenced, where the handoff schema, which is an argument, rejects what it is documented to reject; what is integrated is proven and disjoint.  \<open>Lane_Probes\<close> has the lint
    of probes, what it accepts, and a probe it accepts that another packet can satisfy.  \<open>Js_Text\<close> has the string
    operations of the scripts.
  \<^item> \<open>Autopilot_Lease\<close> (\<^verbatim>\<open>lease.ts\<close>): leases over a file system with descriptors, cut at each access.  Shown: one live
    owner for operations one after the other, and two owners for an interleaving.
  \<^item> \<open>Autopilot_Policy\<close> (\<^verbatim>\<open>progression.ts\<close>, \<^verbatim>\<open>repair-policy.ts\<close>, the posture in \<^verbatim>\<open>worker.ts\<close>), \<open>Autopilot_State\<close>
    (\<^verbatim>\<open>state.ts\<close>), \<open>Autopilot_Machine\<close> and \<open>Autopilot_Supervisor\<close> (\<^verbatim>\<open>supervise.ts\<close>, \<^verbatim>\<open>resume\<close> of \<^verbatim>\<open>autopilot.ts\<close>): the
    supervisor as functions over a machine (disk, state in memory, journal, trace of events) that return an error or a value.
    \<open>Autopilot_Safe\<close> has the triples over these functions and two locales: \<open>machine_frame\<close> for what every saved change
    keeps and \<open>run_invariant\<close> for what a whole run keeps; \<open>Autopilot_Guarantees\<close> interprets them three times.
    Shown there, in \<open>Autopilot_Gates\<close> and in \<open>Autopilot_Checkpoint\<close>: a gate is recorded only on proof, the
    state on disk is the state in memory, an open failure holds every gate, repairs are bounded, the checkpoint is read
    back as written, and the status of a run says why it ended.  \<open>Autopilot_State\<close> also has several processes on one state
    file, one access at a time: an update is lost only when two writes overlap.  Within a run, which holds the file
    alone, a write is one step.

  \<^bold>\<open>State and operations.\<close>  A class with fields is a record, an operation that changes it a function
  that returns the changed record; a raise is a value of a sum or option type; JavaScript numbers that
  can be fractional are rationals, times are integers of milliseconds; an object that is only read and
  written by key is a map, and a \<^verbatim>\<open>Map\<close> or \<^verbatim>\<open>Set\<close> that is enumerated is a list in insertion order.
  Messages and diagnostics are datatypes or left out.  An asynchronous operation is cut at its
  \<^verbatim>\<open>await\<close>s: the pieces are functions and the step relation says which piece can run.  A database
  transaction under its advisory lock is one step.

  \<^bold>\<open>Parameters.\<close>  Code outside the repository is an argument: the schema library, which database operations
  fail and how, clocks, id generators, the transport, the URL parser, the printed length of a number.
  Where a theorem needs a law of one of them, the law is a named hypothesis and its witness uses a
  concrete function.  The commands, workers and the derivation of the next action that the supervisor is given return in the
  model; that they do is assumed, not shown.

  \<^bold>\<open>Bounds and fuel.\<close>  Most loops are structural or have a measure, and the bound on the steps of a shutdown is
  computed from the queue, the retries and the suspension point.  Where the code marks what it has visited, the model
  counts down instead: the step tree from the number of steps and one, root causes and dependencies from the number of
  packets and one; the theorems about them state the result without mention of the count, so it is enough.  The wave
  loop has the code's own limit of 20, acquiring a lease makes at most six accesses, the workers of a batch
  are awaited once for each worker that is pending, and the loop of the supervisor has the code's own limit of iterations.

  \<^bold>\<open>Not modelled.\<close>  The dashboard's pages and styles, the API's framework modules, controllers other
  than ingest and the database driver are glue around libraries.  Of the scripts, the knowledge and decision generators, the
  repository checks, the prompts and briefs of workers, the text reports and the launching of processes are input and output.  An object of completion fields is a map without a prototype, a date outside the
  wire's ISO profile does not parse, and a probe with a malformed pattern or package file fails where the code raises.  A write to a file does not fail
  in the model, apart from the reads of a directory that the supervisor can meet.  Test suites, fixtures, the playground
  and the spike are clients of the modelled code.
\<close>

end
